(* ===== verification/Prelude.thy ===== *)
theory Prelude
  imports Main "HOL-Library.Word" "HOL-Library.AList" "HOL-Library.Code_Target_Nat"
begin

text \<open>
  Shared foundations of the LinSight development.

  The theory fixes how the Rust code is read as HOL: machine integers are words of their
  width (the release profile of \<^verbatim>\<open>Cargo.toml\<close> has no overflow checks, so \<open>+\<close> wraps),
  a \<^verbatim>\<open>Result\<close> is the datatype \<open>result\<close>, a call that may panic is an \<open>exec\<close>, and a
  \<^verbatim>\<open>HashMap\<close> is an association list whose order stands for the unspecified iteration
  order (every statement is about all orders, because the list is arbitrary).
  The locale \<open>dict\<close> is the interface the components use of such a map.
\<close>

section \<open>Machine integers and results\<close>

named_theorems rust_simps \<open>unfolding rules for the Rust standard library functions\<close>
named_theorems word_nat_simps \<open>readings of machine arithmetic as arithmetic on naturals\<close>

type_synonym u8 = "8 word"
type_synonym u16 = "16 word"
type_synonym u32 = "32 word"
type_synonym u64 = "64 word"
type_synonym bytes = "u8 list"

datatype ('a, 'e) result = Ok 'a | Err 'e

datatype 'a exec = Returns 'a | Panics

primrec result_bind :: "('a, 'e) result \<Rightarrow> ('a \<Rightarrow> ('b, 'e) result) \<Rightarrow> ('b, 'e) result" where
  "result_bind (Ok a) f = f a"
| "result_bind (Err e) f = Err e"

primrec result_map_err :: "('e \<Rightarrow> 'f) \<Rightarrow> ('a, 'e) result \<Rightarrow> ('a, 'f) result" where
  "result_map_err f (Ok a) = Ok a"
| "result_map_err f (Err e) = Err (f e)"

primrec result_ok :: "('a, 'e) result \<Rightarrow> 'a option" where
  "result_ok (Ok a) = Some a"
| "result_ok (Err e) = None"

primrec is_ok :: "('a, 'e) result \<Rightarrow> bool" where
  "is_ok (Ok a) = True"
| "is_ok (Err e) = False"

primrec exec_bind :: "'a exec \<Rightarrow> ('a \<Rightarrow> 'b exec) \<Rightarrow> 'b exec" where
  "exec_bind (Returns a) f = f a"
| "exec_bind Panics f = Panics"

lemma exec_bind_Returns: "exec_bind x f = Returns y \<longleftrightarrow> (\<exists>a. x = Returns a \<and> f a = Returns y)"
  by (cases x) auto

definition saturating_add :: "'a::len word \<Rightarrow> 'a word \<Rightarrow> 'a word" where
  "saturating_add a b = (if unat a + unat b < 2 ^ LENGTH('a) then a + b else - 1)"

definition saturating_sub :: "'a::len word \<Rightarrow> 'a word \<Rightarrow> 'a word" where
  "saturating_sub a b = (if b \<le> a then a - b else 0)"

definition saturating_mul :: "'a::len word \<Rightarrow> 'a word \<Rightarrow> 'a word" where
  "saturating_mul a b = (if unat a * unat b < 2 ^ LENGTH('a) then a * b else - 1)"

definition checked_mul :: "'a::len word \<Rightarrow> 'a word \<Rightarrow> 'a word option" where
  "checked_mul a b = (if unat a * unat b < 2 ^ LENGTH('a) then Some (a * b) else None)"

definition word_clamp :: "'a::len word \<Rightarrow> 'a word \<Rightarrow> 'a word \<Rightarrow> 'a word" where
  "word_clamp lo hi x = (if x < lo then lo else if hi < x then hi else x)"

lemma unat_minus_one_max: "unat (- 1 :: 'a::len word) = 2 ^ LENGTH('a) - 1"
  by (simp add: unsigned_minus_1_eq_mask mask_eq_exp_minus_1)

lemma unat_saturating_add [word_nat_simps]:
  "unat (saturating_add a b) = min (unat a + unat b) (2 ^ LENGTH('a) - 1)"
  for a b :: "'a::len word"
  by (auto simp: saturating_add_def unat_word_ariths unat_minus_one_max)

lemma unat_saturating_sub [word_nat_simps]:
  "unat (saturating_sub a b) = unat a - unat b" for a b :: "'a::len word"
  by (simp add: saturating_sub_def unat_sub word_le_nat_alt)

lemma unat_saturating_mul [word_nat_simps]:
  "unat (saturating_mul a b) = min (unat a * unat b) (2 ^ LENGTH('a) - 1)"
  for a b :: "'a::len word"
  by (auto simp: saturating_mul_def unat_word_ariths unat_minus_one_max)

lemma checked_mul_Some [word_nat_simps]:
  "checked_mul a b = Some c \<longleftrightarrow> unat c = unat a * unat b" for a b c :: "'a::len word"
proof (cases "unat a * unat b < 2 ^ LENGTH('a)")
  case True
  then show ?thesis by (auto simp: checked_mul_def unat_word_ariths word_unat_eq_iff)
next
  case False
  then have "unat c \<noteq> unat a * unat b" by (metis unsigned_less)
  with False show ?thesis by (simp add: checked_mul_def)
qed

lemma word_clamp_bounds:
  "lo \<le> hi \<Longrightarrow> lo \<le> word_clamp lo hi x \<and> word_clamp lo hi x \<le> hi"
  by (auto simp: word_clamp_def)

lemma word_clamp_id: "lo \<le> x \<Longrightarrow> x \<le> hi \<Longrightarrow> word_clamp lo hi x = x"
  by (auto simp: word_clamp_def)

lemma unat_add_no_wrap:
  "unat a + unat b < 2 ^ LENGTH('a) \<Longrightarrow> unat (a + b) = unat a + unat b"
  for a b :: "'a::len word"
  by (simp add: unat_word_ariths)

section \<open>Hash maps as association lists\<close>

text \<open>
  The interface of a finite map: a lookup, an insertion, a removal and an iteration. The
  laws fix what a lookup returns after each operation and that iteration visits every key
  once.
\<close>

locale dict =
  fixes get :: "'m \<Rightarrow> 'k \<Rightarrow> 'v option"
    and ins :: "'k \<Rightarrow> 'v \<Rightarrow> 'm \<Rightarrow> 'm"
    and del :: "'k \<Rightarrow> 'm \<Rightarrow> 'm"
    and iter :: "'m \<Rightarrow> ('k \<times> 'v) list"
    and wf :: "'m \<Rightarrow> bool"
  assumes get_ins: "get (ins k v m) = (get m)(k \<mapsto> v)"
    and get_del: "get (del k m) = (get m)(k := None)"
    and get_iter: "map_of (iter m) = get m"
    and wf_iter: "wf m \<longleftrightarrow> distinct (map fst (iter m))"
    and wf_ins: "wf m \<Longrightarrow> wf (ins k v m)"
    and wf_del: "wf m \<Longrightarrow> wf (del k m)"
begin

lemma iter_keys: "fst ` set (iter m) = dom (get m)"
  by (simp add: dom_map_of_conv_image_fst flip: get_iter)

lemma finite_dom: "finite (dom (get m))"
  by (simp flip: iter_keys)

lemma mem_iter: "wf m \<Longrightarrow> (k, v) \<in> set (iter m) \<longleftrightarrow> get m k = Some v"
  by (simp add: wf_iter flip: get_iter)

lemma length_iter: "wf m \<Longrightarrow> length (iter m) = card (dom (get m))"
  by (metis distinct_card iter_keys length_map list.set_map wf_iter)

lemma length_iter_ins:
  "wf m \<Longrightarrow> length (iter (ins k v m)) =
     (if get m k = None then Suc (length (iter m)) else length (iter m))"
  using finite_dom [of m]
  by (auto simp: length_iter wf_ins get_ins domIff insert_absorb card_insert_if)

lemma length_iter_del_le: "wf m \<Longrightarrow> length (iter (del k m)) \<le> length (iter m)"
  using finite_dom [of m]
  by (simp add: length_iter wf_del get_del card_mono)

lemma get_del_ins: "get m k = None \<Longrightarrow> get (del k (ins k v m)) = get m"
  by (auto simp: get_ins get_del)

end

lemma alist_wf_update:
  "distinct (map fst m) \<Longrightarrow> distinct (map fst (AList.update k v m))"
  by (rule distinct_update)

lemma alist_wf_delete:
  "distinct (map fst m) \<Longrightarrow> distinct (map fst (AList.delete k m))"
  by (rule distinct_delete)

interpretation hm: dict map_of AList.update AList.delete "\<lambda>m. m" "\<lambda>m. distinct (map fst m)"
  by unfold_locales
    (auto simp: update_conv' delete_conv' intro: alist_wf_update alist_wf_delete)

definition hm_contains :: "('k \<times> 'v) list \<Rightarrow> 'k \<Rightarrow> bool" where
  "hm_contains m k = (map_of m k \<noteq> None)"

text \<open>\<^verbatim>\<open>HashMap::retain\<close> and the map over the values of a \<^verbatim>\<open>HashMap\<close>.\<close>

definition hm_map_values :: "('k \<Rightarrow> 'v \<Rightarrow> 'w) \<Rightarrow> ('k \<times> 'v) list \<Rightarrow> ('k \<times> 'w) list" where
  "hm_map_values f m = map (\<lambda>(k, v). (k, f k v)) m"

lemma hm_map_values_keys [simp]: "map fst (hm_map_values f m) = map fst m"
  by (induction m) (auto simp: hm_map_values_def)

lemma map_of_hm_map_values: "map_of (hm_map_values f m) k = map_option (f k) (map_of m k)"
  by (induction m) (auto simp: hm_map_values_def)

lemma distinct_keys_filter: "distinct (map fst m) \<Longrightarrow> distinct (map fst (filter P m))"
  by (induction m) auto

lemma map_of_filter_keys:
  "distinct (map fst m) \<Longrightarrow>
   map_of (filter P m) k = (case map_of m k of None \<Rightarrow> None | Some v \<Rightarrow> if P (k, v) then Some v else None)"
  by (induction m) (auto split: option.splits simp: map_of_eq_None_iff)

lemma length_alist_delete_le: "length (AList.delete k m) \<le> length m"
  by (simp add: AList.length_delete_le)

section \<open>Lists\<close>

lemma find_SomeD: "find P xs = Some x \<Longrightarrow> P x \<and> x \<in> set xs"
  by (metis find_Some_iff nth_mem)

lemma find_None_all: "find P xs = None \<longleftrightarrow> (\<forall>x \<in> set xs. \<not> P x)"
  by (auto simp: find_None_iff)

lemma distinct_map_fst_Some: "distinct (map fst m) \<Longrightarrow> (k, v) \<in> set m \<Longrightarrow> map_of m k = Some v"
  by simp

lemma length_filter_le_remove:
  "x \<in> set xs \<Longrightarrow> \<not> P x \<Longrightarrow> length (filter P xs) < length xs"
  by (induction xs) (auto simp: less_Suc_eq_le)

end
