(* ===== verification/Rust_Str.thy ===== *)
theory Rust_Str
  imports Prelude
begin

text \<open>
  The part of Rust's \<^verbatim>\<open>str\<close> and \<^verbatim>\<open>char\<close> API the modelled code uses.

  A \<open>string\<close> is read as a list of Unicode scalar values in the range U+0000 to U+00FF (HOL's
  \<open>char\<close>): on that range the character classes below are exactly Rust's, and \<open>str_len\<close> is
  the UTF-8 byte length (one byte below U+0080, two above), so \<^verbatim>\<open>s.len()\<close> and
  \<^verbatim>\<open>s.chars().count()\<close> stay distinct as in the source.
\<close>

section \<open>Character classes\<close>

abbreviation char_code :: "char \<Rightarrow> nat" where
  "char_code c \<equiv> of_char c"

definition is_ascii_digit :: "char \<Rightarrow> bool" where
  "is_ascii_digit c = (48 \<le> char_code c \<and> char_code c \<le> 57)"

definition is_ascii_alphabetic :: "char \<Rightarrow> bool" where
  "is_ascii_alphabetic c =
     (65 \<le> char_code c \<and> char_code c \<le> 90 \<or> 97 \<le> char_code c \<and> char_code c \<le> 122)"

definition is_ascii_alphanumeric :: "char \<Rightarrow> bool" where
  "is_ascii_alphanumeric c = (is_ascii_digit c \<or> is_ascii_alphabetic c)"

definition is_ascii_whitespace :: "char \<Rightarrow> bool" where
  "is_ascii_whitespace c = (char_code c \<in> {9, 10, 12, 13, 32})"

definition is_whitespace :: "char \<Rightarrow> bool" where
  "is_whitespace c = (9 \<le> char_code c \<and> char_code c \<le> 13 \<or> char_code c \<in> {32, 133, 160})"

definition is_control :: "char \<Rightarrow> bool" where
  "is_control c = (char_code c \<le> 31 \<or> 127 \<le> char_code c \<and> char_code c \<le> 159)"

definition to_ascii_lowercase :: "char \<Rightarrow> char" where
  "to_ascii_lowercase c =
     (if 65 \<le> char_code c \<and> char_code c \<le> 90 then char_of (char_code c + 32) else c)"

definition eq_ignore_ascii_case :: "string \<Rightarrow> string \<Rightarrow> bool" where
  "eq_ignore_ascii_case a b = (map to_ascii_lowercase a = map to_ascii_lowercase b)"

lemmas char_class_defs [rust_simps] =
  is_ascii_digit_def is_ascii_alphabetic_def is_ascii_alphanumeric_def
  is_ascii_whitespace_def is_whitespace_def is_control_def

section \<open>Slicing and searching\<close>

definition str_len :: "string \<Rightarrow> nat" where
  "str_len s = (\<Sum>c\<leftarrow>s. if char_code c < 128 then 1 else 2)"

definition trim_end_matches_char :: "(char \<Rightarrow> bool) \<Rightarrow> string \<Rightarrow> string" where
  "trim_end_matches_char p s = rev (dropWhile p (rev s))"

definition trim :: "string \<Rightarrow> string" where
  "trim s = trim_end_matches_char is_whitespace (dropWhile is_whitespace s)"

fun strip_prefix :: "string \<Rightarrow> string \<Rightarrow> string option" where
  "strip_prefix [] s = Some s"
| "strip_prefix (p # ps) [] = None"
| "strip_prefix (p # ps) (c # s) = (if p = c then strip_prefix ps s else None)"

definition starts_with :: "string \<Rightarrow> string \<Rightarrow> bool" where
  "starts_with p s = (strip_prefix p s \<noteq> None)"

fun split_once :: "char \<Rightarrow> string \<Rightarrow> (string \<times> string) option" where
  "split_once d [] = None"
| "split_once d (c # s) =
     (if c = d then Some ([], s)
      else map_option (\<lambda>(a, b). (c # a, b)) (split_once d s))"

text \<open>\<^verbatim>\<open>str::split\<close> on one character: never empty, one piece more than separators.\<close>

fun split_char :: "char \<Rightarrow> string \<Rightarrow> string list" where
  "split_char d [] = [[]]"
| "split_char d (c # s) =
     (if c = d then [] # split_char d s
      else (case split_char d s of [] \<Rightarrow> [[c]] | w # ws \<Rightarrow> (c # w) # ws))"

definition split_whitespace :: "string \<Rightarrow> string list" where
  "split_whitespace s =
     filter (\<lambda>w. w \<noteq> []) (foldr (\<lambda>c acc. if is_whitespace c then [] # acc
                                   else (c # hd acc) # tl acc) s [[]])"

definition strip_cr :: "string \<Rightarrow> string" where
  "strip_cr l = (if l \<noteq> [] \<and> last l = CHR 0x0D then butlast l else l)"

text \<open>
  \<^verbatim>\<open>str::lines\<close>: pieces ended by a line feed, a final empty piece is not a line, and a
  carriage return directly before a line feed belongs to the terminator.
\<close>

fun str_lines :: "string \<Rightarrow> string list" where
  "str_lines s =
     (let ps = split_char CHR 0x0A s
      in map strip_cr (butlast ps) @ (if last ps = [] then [] else [last ps]))"

definition str_replace_char :: "char \<Rightarrow> string \<Rightarrow> string \<Rightarrow> string" where
  "str_replace_char d r s = concat (map (\<lambda>c. if c = d then r else [c]) s)"

fun trim_end_matches_str :: "nat \<Rightarrow> string \<Rightarrow> string \<Rightarrow> string" where
  "trim_end_matches_str 0 p s = s"
| "trim_end_matches_str (Suc n) p s =
     (case strip_prefix (rev p) (rev s) of
        None \<Rightarrow> s
      | Some r \<Rightarrow> trim_end_matches_str n p (rev r))"

section \<open>Numbers in text\<close>

definition digit_val :: "char \<Rightarrow> nat" where
  "digit_val c = char_code c - 48"

definition is_hex_digit :: "char \<Rightarrow> bool" where
  "is_hex_digit c =
     (is_ascii_digit c \<or> 97 \<le> char_code c \<and> char_code c \<le> 102
      \<or> 65 \<le> char_code c \<and> char_code c \<le> 70)"

definition hex_val :: "char \<Rightarrow> nat" where
  "hex_val c =
     (if is_ascii_digit c then char_code c - 48
      else if 97 \<le> char_code c then char_code c - 87 else char_code c - 55)"

definition dec_value :: "string \<Rightarrow> nat" where
  "dec_value s = foldl (\<lambda>n c. 10 * n + digit_val c) 0 s"

definition hex_value :: "string \<Rightarrow> nat" where
  "hex_value s = foldl (\<lambda>n c. 16 * n + hex_val c) 0 s"

text \<open>One leading \<^verbatim>\<open>+\<close> is accepted by \<^verbatim>\<open>from_str\<close> and \<^verbatim>\<open>from_str_radix\<close> on every integer type.\<close>

definition drop_plus :: "string \<Rightarrow> string" where
  "drop_plus s = (case s of [] \<Rightarrow> [] | c # r \<Rightarrow> if c = CHR ''+'' then r else s)"

definition parse_uint :: "'a::len itself \<Rightarrow> string \<Rightarrow> 'a word option" where
  "parse_uint _ s =
     (let d = drop_plus s
      in if d \<noteq> [] \<and> list_all is_ascii_digit d \<and> dec_value d < 2 ^ LENGTH('a)
         then Some (of_nat (dec_value d)) else None)"

definition parse_hex :: "'a::len itself \<Rightarrow> string \<Rightarrow> 'a word option" where
  "parse_hex _ s =
     (let d = drop_plus s
      in if d \<noteq> [] \<and> list_all is_hex_digit d \<and> hex_value d < 2 ^ LENGTH('a)
         then Some (of_nat (hex_value d)) else None)"

abbreviation parse_u64 :: "string \<Rightarrow> u64 option" where
  "parse_u64 \<equiv> parse_uint TYPE(64)"

abbreviation parse_u32 :: "string \<Rightarrow> u32 option" where
  "parse_u32 \<equiv> parse_uint TYPE(32)"

abbreviation parse_hex_u16 :: "string \<Rightarrow> u16 option" where
  "parse_hex_u16 \<equiv> parse_hex TYPE(16)"

text \<open>\<^verbatim>\<open>Display\<close> of an unsigned integer.\<close>

fun show_nat :: "nat \<Rightarrow> string" where
  "show_nat n = (if n < 10 then [char_of (48 + n)] else show_nat (n div 10) @ [char_of (48 + n mod 10)])"

declare show_nat.simps [simp del]

text \<open>The \<^verbatim>\<open>Debug\<close> form of a string (\<^verbatim>\<open>{:?}\<close>): quoted, with the escapes of \<^verbatim>\<open>char::escape_debug\<close>.\<close>

definition hex_digit :: "nat \<Rightarrow> char" where
  "hex_digit n = (if n < 10 then char_of (48 + n) else char_of (87 + n))"

definition escape_debug :: "char \<Rightarrow> string" where
  "escape_debug c =
     (let n = char_code c
      in if n = 0 then [CHR 0x5C, CHR ''0'']
         else if n = 9 then [CHR 0x5C, CHR ''t'']
         else if n = 10 then [CHR 0x5C, CHR ''n'']
         else if n = 13 then [CHR 0x5C, CHR ''r'']
         else if n = 34 \<or> n = 92 then [CHR 0x5C, c]
         else if is_control c \<or> n = 160 \<or> n = 173
         then CHR 0x5C # ''u{'' @ (if n < 16 then [] else [hex_digit (n div 16)]) @ hex_digit (n mod 16) # ''}''
         else [c])"

definition debug_str :: "string \<Rightarrow> string" where
  "debug_str s = CHR 0x22 # concat (map escape_debug s) @ [CHR 0x22]"

section \<open>Lemmas\<close>

lemma is_whitespace_space [simp]: "is_whitespace CHR '' ''"
  by (simp add: is_whitespace_def)

lemma strip_prefix_Some: "strip_prefix p s = Some r \<longleftrightarrow> s = p @ r"
  by (induction p s arbitrary: r rule: strip_prefix.induct) auto

lemma strip_prefix_append [simp]: "strip_prefix p (p @ r) = Some r"
  by (simp add: strip_prefix_Some)

lemma split_once_Some:
  "split_once d s = Some (a, b) \<longleftrightarrow> s = a @ d # b \<and> d \<notin> set a"
proof (induction s arbitrary: a)
  case (Cons c s)
  then show ?case by (cases a) auto
qed simp

lemma split_once_None: "split_once d s = None \<longleftrightarrow> d \<notin> set s"
  by (induction s) auto

lemma split_char_not_Nil [simp]: "split_char d s \<noteq> []"
  by (induction s) (auto split: list.splits)

lemma hd_split_char: "hd (split_char d s) = takeWhile (\<lambda>c. c \<noteq> d) s"
proof (induction s)
  case (Cons c s)
  then show ?case by (cases "split_char d s") auto
qed simp

lemma split_char_absent: "d \<notin> set s \<Longrightarrow> split_char d s = [s]"
  by (induction s) auto

lemma split_char_append: "d \<notin> set a \<Longrightarrow> split_char d (a @ d # b) = a # split_char d b"
  by (induction a) auto

lemma split_char_pieces: "w \<in> set (split_char d s) \<Longrightarrow> d \<notin> set w"
proof (induction s arbitrary: w)
  case (Cons c s)
  then show ?case by (cases "split_char d s") (auto split: if_splits)
qed simp

lemma trim_no_ws:
  assumes "s = [] \<or> \<not> is_whitespace (hd s) \<and> \<not> is_whitespace (last s)"
  shows "trim s = s"
proof -
  have "dropWhile is_whitespace s = s" and "dropWhile is_whitespace (rev s) = rev s"
    using assms by (auto simp: dropWhile_eq_self_iff hd_rev)
  then show ?thesis by (simp add: trim_def trim_end_matches_char_def)
qed

lemma dropWhile_rev_last: "rev (dropWhile p (rev s)) = [] \<or> \<not> p (last (rev (dropWhile p (rev s))))"
  by (metis hd_dropWhile last_rev rev_is_Nil_conv)

lemma hd_trim: "trim s \<noteq> [] \<Longrightarrow> \<not> is_whitespace (hd (trim s))"
proof -
  assume ne: "trim s \<noteq> []"
  let ?d = "dropWhile is_whitespace s"
  have "\<exists>t. ?d = trim s @ t"
    unfolding trim_def trim_end_matches_char_def
    by (metis rev_append rev_rev_ident takeWhile_dropWhile_id)
  then obtain t where t: "?d = trim s @ t" ..
  with ne have "hd ?d = hd (trim s)" and "?d \<noteq> []" by auto
  then show ?thesis by (metis hd_dropWhile)
qed

lemma last_trim: "trim s \<noteq> [] \<Longrightarrow> \<not> is_whitespace (last (trim s))"
  unfolding trim_def trim_end_matches_char_def
  by (rule disjE [OF dropWhile_rev_last [of is_whitespace "dropWhile is_whitespace s"]]) auto

lemma trim_idem [simp]: "trim (trim s) = trim s"
  using hd_trim last_trim trim_no_ws by blast

lemma set_trim_subset: "set (trim s) \<subseteq> set s"
  unfolding trim_def trim_end_matches_char_def
  by (metis set_dropWhileD set_rev subset_code(1))

lemma length_trim_le: "length (trim s) \<le> length s"
  unfolding trim_def trim_end_matches_char_def
  by (metis le_trans length_dropWhile_le length_rev)

lemma str_len_append [simp]: "str_len (a @ b) = str_len a + str_len b"
  by (simp add: str_len_def)

lemma str_len_Nil [simp]: "str_len [] = 0"
  by (simp add: str_len_def)

lemma length_le_str_len: "length s \<le> str_len s"
  by (induction s) (auto simp: str_len_def)

lemma dec_value_snoc: "dec_value (s @ [c]) = 10 * dec_value s + digit_val c"
  by (simp add: dec_value_def)

lemma digit_char [simp]:
  "n < 10 \<Longrightarrow> is_ascii_digit (char_of (48 + n))"
  "n < 10 \<Longrightarrow> digit_val (char_of (48 + n)) = n"
  by (auto simp: is_ascii_digit_def digit_val_def)

lemma show_nat_digits: "list_all is_ascii_digit (show_nat n)"
  by (induction n rule: show_nat.induct) (subst show_nat.simps, auto)

lemma show_nat_not_Nil [simp]: "show_nat n \<noteq> []"
  by (subst show_nat.simps) simp

lemma dec_value_show_nat [simp]: "dec_value (show_nat n) = n"
proof (induction n rule: show_nat.induct)
  case (1 n)
  then show ?case
    by (subst show_nat.simps) (auto simp: dec_value_snoc, simp add: dec_value_def)
qed

lemma drop_plus_digits: "list_all is_ascii_digit s \<Longrightarrow> drop_plus s = s"
  by (auto simp: drop_plus_def is_ascii_digit_def split: list.splits)

lemma parse_uint_show:
  "n < 2 ^ LENGTH('a) \<Longrightarrow> parse_uint TYPE('a::len) (show_nat n) = Some (of_nat n)"
  by (simp add: parse_uint_def drop_plus_digits show_nat_digits)

lemma parse_uint_unat:
  "parse_uint TYPE('a::len) s = Some w \<Longrightarrow> unat w = dec_value (drop_plus s)"
  by (auto simp: parse_uint_def Let_def unat_of_nat split: if_splits)

lemma split_whitespace_no_ws:
  "w \<in> set (split_whitespace s) \<Longrightarrow> w \<noteq> [] \<and> list_all (\<lambda>c. \<not> is_whitespace c) w"
proof -
  let ?f = "\<lambda>c acc. if is_whitespace c then [] # acc else (c # hd acc) # tl acc"
  have "foldr ?f s [[]] \<noteq> [] \<and>
        (\<forall>w \<in> set (foldr ?f s [[]]). list_all (\<lambda>c. \<not> is_whitespace c) w)"
    by (induction s) (auto dest: list.set_sel)
  then show "w \<in> set (split_whitespace s) \<Longrightarrow> ?thesis"
    by (simp add: split_whitespace_def)
qed

lemma str_replace_char_no_sep: "d \<notin> set r \<Longrightarrow> d \<notin> set (str_replace_char d r s)"
  by (auto simp: str_replace_char_def split: if_splits)

end
