(* ===== verification/Float64.thy ===== *)
theory Float64
  imports Prelude "HOL-Library.Log_Nat"
begin

text \<open>
  IEEE 754 binary64 as Rust's \<^verbatim>\<open>f64\<close> uses it, executable on rationals. A finite value is
  the rational it denotes (the two zeros are one value: no modelled computation divides by
  a float zero or prints one); \<^verbatim>\<open>f32\<close> values are the same type, since widening is exact and
  the \<^verbatim>\<open>f32\<close> operations used (\<open>clamp\<close>, \<open>min\<close>, comparisons) do not round. Every arithmetic
  operation rounds once, to nearest with ties to even, with gradual underflow and overflow
  to infinity.
\<close>

section \<open>Rounding\<close>

datatype fl = NaN | PInf | NInf | Fin rat

definition flog2 :: "rat \<Rightarrow> int" where
  "flog2 x = (if 1 \<le> x then bitlen \<lfloor>x\<rfloor> - 1 else - bitlen (\<lceil>1 / x\<rceil> - 1))"

definition round_half_even :: "rat \<Rightarrow> int" where
  "round_half_even x =
     (let f = \<lfloor>x\<rfloor>; d = x - of_int f
      in if d < 1 / 2 then f else if 1 / 2 < d then f + 1 else if even f then f else f + 1)"

definition quantum :: "rat \<Rightarrow> rat" where
  "quantum x = 2 powi (max (flog2 x - 52) (- 1074))"

definition round_mag :: "rat \<Rightarrow> rat" where
  "round_mag x = (if x = 0 then 0 else of_int (round_half_even (x / quantum x)) * quantum x)"

definition round_f64 :: "rat \<Rightarrow> fl" where
  "round_f64 x =
     (let m = round_mag \<bar>x\<bar>
      in if 2 ^ 1024 \<le> m then (if 0 < x then PInf else NInf) else Fin (sgn x * m))"

section \<open>Operations\<close>

fun fl_lt :: "fl \<Rightarrow> fl \<Rightarrow> bool" where
  "fl_lt NaN y = False"
| "fl_lt x NaN = False"
| "fl_lt NInf y = (y \<noteq> NInf)"
| "fl_lt x PInf = (x \<noteq> PInf)"
| "fl_lt (Fin a) (Fin b) = (a < b)"
| "fl_lt x y = False"

fun fl_le :: "fl \<Rightarrow> fl \<Rightarrow> bool" where
  "fl_le NaN y = False"
| "fl_le x NaN = False"
| "fl_le NInf y = True"
| "fl_le x PInf = True"
| "fl_le (Fin a) (Fin b) = (a \<le> b)"
| "fl_le x y = False"

fun fl_is_finite :: "fl \<Rightarrow> bool" where
  "fl_is_finite (Fin a) = True"
| "fl_is_finite x = False"

text \<open>\<^verbatim>\<open>f32::min\<close>: a NaN operand is ignored.\<close>

fun fl_min :: "fl \<Rightarrow> fl \<Rightarrow> fl" where
  "fl_min NaN y = y"
| "fl_min x NaN = x"
| "fl_min x y = (if fl_le x y then x else y)"

text \<open>
  \<^verbatim>\<open>f32::clamp\<close>: asserts \<^verbatim>\<open>min <= max\<close> (so it panics when a bound is NaN) and returns a NaN
  receiver unchanged.
\<close>

definition fl_clamp :: "fl \<Rightarrow> fl \<Rightarrow> fl \<Rightarrow> fl exec" where
  "fl_clamp x lo hi =
     (if fl_le lo hi
      then Returns (if fl_lt x lo then lo else if fl_lt hi x then hi else x)
      else Panics)"

fun fl_mul :: "fl \<Rightarrow> fl \<Rightarrow> fl" where
  "fl_mul (Fin a) (Fin b) = round_f64 (a * b)"
| "fl_mul NaN y = NaN"
| "fl_mul x NaN = NaN"
| "fl_mul x y =
     (let s = (\<lambda>z. case z of PInf \<Rightarrow> 1 | NInf \<Rightarrow> - 1 | NaN \<Rightarrow> 0 | Fin a \<Rightarrow> sgn a)
      in if s x * s y = 0 then NaN else if 0 < s x * s y then PInf else NInf)"

text \<open>Division; the divisors of the modelled code are never zero.\<close>

fun fl_div :: "fl \<Rightarrow> fl \<Rightarrow> fl" where
  "fl_div (Fin a) (Fin b) =
     (if b = 0 then (if a = 0 then NaN else if 0 < a then PInf else NInf)
      else round_f64 (a / b))"
| "fl_div NaN y = NaN"
| "fl_div x NaN = NaN"
| "fl_div (Fin a) y = Fin 0"
| "fl_div PInf (Fin b) = (if b < 0 then NInf else PInf)"
| "fl_div NInf (Fin b) = (if b < 0 then PInf else NInf)"
| "fl_div x y = NaN"

text \<open>The casts \<^verbatim>\<open>u64 as f64\<close> (rounds) and \<^verbatim>\<open>f64 as u64\<close> (truncates, saturates, NaN is 0).\<close>

definition fl_of_u64 :: "u64 \<Rightarrow> fl" where
  "fl_of_u64 w = round_f64 (of_nat (unat w))"

fun fl_to_u64 :: "fl \<Rightarrow> u64" where
  "fl_to_u64 NaN = 0"
| "fl_to_u64 NInf = 0"
| "fl_to_u64 PInf = - 1"
| "fl_to_u64 (Fin a) =
     (if a < 0 then 0 else if 2 ^ 64 \<le> \<lfloor>a\<rfloor> then - 1 else of_int \<lfloor>a\<rfloor>)"

section \<open>The exponent\<close>

lemma bitlen_nat_bounds:
  assumes "0 < n"
  shows "(2::rat) powi (bitlen n - 1) \<le> of_int n" and "of_int n + 1 \<le> (2::rat) powi bitlen n"
proof -
  have b: "0 < bitlen n" using assms bitlen_eq_zero_iff [of n] bitlen_nonneg [of n] by linarith
  have lo: "2 ^ nat (bitlen n - 1) \<le> n" and hi: "n < 2 ^ nat (bitlen n)"
    using bitlen_bounds [OF assms] by auto
  have "(2::rat) powi (bitlen n - 1) = of_int (2 ^ nat (bitlen n - 1))"
    using b by (simp add: power_int_def)
  with lo show "(2::rat) powi (bitlen n - 1) \<le> of_int n" by (simp only: of_int_le_iff)
  have "(2::rat) powi bitlen n = of_int (2 ^ nat (bitlen n))"
    using b by (simp add: power_int_def)
  moreover have "n + 1 \<le> 2 ^ nat (bitlen n)" using hi by simp
  ultimately show "of_int n + 1 \<le> (2::rat) powi bitlen n"
    by (metis of_int_1 of_int_add of_int_le_iff)
qed

lemma flog2_bounds:
  assumes "0 < x"
  shows "2 powi (flog2 x) \<le> x" and "x < 2 powi (flog2 x + 1)"
proof -
  have "2 powi (flog2 x) \<le> x \<and> x < 2 powi (flog2 x + 1)"
  proof (cases "1 \<le> x")
    case True
    then have "0 < \<lfloor>x\<rfloor>" by linarith
    note b = bitlen_nat_bounds [OF this]
    have "of_int \<lfloor>x\<rfloor> \<le> x" and "x < of_int \<lfloor>x\<rfloor> + 1"
      using floor_correct [of x] by auto
    with b have "2 powi (bitlen \<lfloor>x\<rfloor> - 1) \<le> x" and "x < 2 powi bitlen \<lfloor>x\<rfloor>"
      by (metis order_trans, metis order_less_le_trans)
    with True show ?thesis by (simp add: flog2_def)
  next
    case False
    let ?c = "\<lceil>1 / x\<rceil> - 1"
    have "1 < 1 / x" using False assms by simp
    then have c: "0 < ?c" by linarith
    have le: "1 / x \<le> of_int ?c + 1" and lt: "of_int ?c < 1 / x"
      using ceiling_correct [of "1 / x"] by auto
    have "1 / x \<le> 2 powi bitlen ?c"
      using le bitlen_nat_bounds(2) [OF c] by linarith
    then have a: "2 powi (- bitlen ?c) \<le> x"
      using assms by (simp add: power_int_minus field_simps)
    have "2 powi (bitlen ?c - 1) < 1 / x"
      using lt bitlen_nat_bounds(1) [OF c] by linarith
    then have "x < 1 / 2 powi (bitlen ?c - 1)"
      using assms by (simp add: field_simps)
    also have "\<dots> = 2 powi (- bitlen ?c + 1)"
      by (metis add.commute inverse_eq_divide minus_diff_eq power_int_minus uminus_add_conv_diff)
    finally show ?thesis using a False by (simp add: flog2_def)
  qed
  then show "2 powi (flog2 x) \<le> x" and "x < 2 powi (flog2 x + 1)" by auto
qed

lemma flog2_mono:
  assumes "0 < x" and "x \<le> y"
  shows "flog2 x \<le> flog2 y"
proof (rule ccontr)
  assume "\<not> ?thesis"
  then have "(2::rat) powi (flog2 y + 1) \<le> 2 powi (flog2 x)"
    by (intro power_int_increasing) auto
  with flog2_bounds [of x] flog2_bounds [of y] assms show False by linarith
qed

section \<open>Rounding is monotone and exact on the grid\<close>

lemma round_half_even_bounds:
  "\<lfloor>x\<rfloor> \<le> round_half_even x" "round_half_even x \<le> \<lfloor>x\<rfloor> + 1"
  by (auto simp: round_half_even_def Let_def)

lemma round_half_even_of_int [simp]: "round_half_even (of_int n) = n"
  by (simp add: round_half_even_def)

lemma round_half_even_mono:
  assumes "x \<le> y"
  shows "round_half_even x \<le> round_half_even y"
proof (cases "\<lfloor>x\<rfloor> = \<lfloor>y\<rfloor>")
  case True
  with assms show ?thesis by (auto simp: round_half_even_def Let_def)
next
  case False
  with assms have "\<lfloor>x\<rfloor> + 1 \<le> \<lfloor>y\<rfloor>" using floor_mono [OF assms] by linarith
  with round_half_even_bounds(2) [of x] round_half_even_bounds(1) [of y] show ?thesis
    by linarith
qed

lemma quantum_pos [simp]: "0 < quantum x"
  by (simp add: quantum_def)

lemma round_mag_0 [simp]: "round_mag 0 = 0"
  by (simp add: round_mag_def)

lemma round_mag_le_grid:
  assumes "0 < x" and "x \<le> of_int n * quantum x"
  shows "round_mag x \<le> of_int n * quantum x"
proof -
  have "x / quantum x \<le> of_int n" using assms by (simp add: field_simps)
  from round_half_even_mono [OF this] have "round_half_even (x / quantum x) \<le> n" by simp
  then show ?thesis using assms by (simp add: round_mag_def)
qed

lemma round_mag_ge_grid:
  assumes "0 < x" and "of_int n * quantum x \<le> x"
  shows "of_int n * quantum x \<le> round_mag x"
proof -
  have "of_int n \<le> x / quantum x" using assms by (simp add: field_simps)
  from round_half_even_mono [OF this] have "n \<le> round_half_even (x / quantum x)" by simp
  then show ?thesis using assms by (simp add: round_mag_def)
qed

lemma powi_grid:
  assumes "max (flog2 x - 52) (- 1074) \<le> k"
  shows "\<exists>n. (2::rat) powi k = of_int n * quantum x"
proof -
  let ?e = "max (flog2 x - 52) (- 1074)"
  have "(2::rat) powi k = 2 powi (k - ?e) * 2 powi ?e"
    by (simp flip: power_int_add)
  also have "(2::rat) powi (k - ?e) = of_int (2 ^ nat (k - ?e))"
    using assms by (simp add: power_int_def)
  finally show ?thesis unfolding quantum_def by blast
qed

lemma round_mag_le_powi:
  "0 < x \<Longrightarrow> x \<le> 2 powi k \<Longrightarrow> max (flog2 x - 52) (- 1074) \<le> k \<Longrightarrow> round_mag x \<le> 2 powi k"
  by (metis powi_grid round_mag_le_grid)

lemma round_mag_ge_powi:
  "0 < x \<Longrightarrow> 2 powi k \<le> x \<Longrightarrow> max (flog2 x - 52) (- 1074) \<le> k \<Longrightarrow> 2 powi k \<le> round_mag x"
  by (metis powi_grid round_mag_ge_grid)

lemma round_mag_nonneg: "0 \<le> x \<Longrightarrow> 0 \<le> round_mag x"
  using round_mag_ge_grid [of x 0] by (cases "x = 0") (auto simp: round_mag_def)

theorem round_mag_mono:
  assumes "0 \<le> x" and "x \<le> y"
  shows "round_mag x \<le> round_mag y"
proof (cases "x = 0 \<or> quantum x = quantum y")
  case True
  then consider "x = 0" | "0 < x" "quantum x = quantum y" using assms(1) by fastforce
  then show ?thesis
  proof cases
    case 1
    then show ?thesis using assms round_mag_nonneg [of y] by (simp add: round_mag_def)
  next
    case 2
    have "round_half_even (x / quantum x) \<le> round_half_even (y / quantum x)"
      using assms 2 by (intro round_half_even_mono divide_right_mono) (auto intro: less_imp_le)
    with 2 assms show ?thesis
      by (simp add: round_mag_def mult_right_mono)
  qed
next
  case False
  then have x: "0 < x" and y: "0 < y" using assms by auto
  have q: "max (flog2 x - 52) (- 1074) \<noteq> max (flog2 y - 52) (- 1074)"
    using False by (auto simp: quantum_def)
  then have l: "flog2 x < flog2 y" and b: "- 1074 < flog2 y - 52"
    using flog2_mono [OF x assms(2)] by auto
  have "x \<le> 2 powi (flog2 x + 1)" using flog2_bounds(2) [OF x] by simp
  also have "\<dots> \<le> 2 powi (flog2 y)" using l by (intro power_int_increasing) auto
  finally have "round_mag x \<le> 2 powi (flog2 y)"
    by (rule round_mag_le_powi [OF x]) (use l b in auto)
  also have "\<dots> \<le> round_mag y"
    by (rule round_mag_ge_powi [OF y flog2_bounds(1) [OF y]]) (use b in auto)
  finally show ?thesis .
qed

lemma flog2_le_nat:
  assumes "0 < x" and "x < 2 ^ Suc n"
  shows "flog2 x \<le> int n"
proof (rule ccontr)
  assume "\<not> ?thesis"
  then have "(2::rat) powi (int (Suc n)) \<le> 2 powi (flog2 x)"
    by (intro power_int_increasing) auto
  then have "(2::rat) ^ Suc n \<le> 2 powi (flog2 x)" by (simp only: power_int_of_nat)
  with flog2_bounds(1) [OF assms(1)] assms(2) show False by linarith
qed

lemma round_mag_of_nat:
  assumes "n < 2 ^ 53"
  shows "round_mag (of_nat n) = of_nat n"
proof (cases "n = 0")
  case True
  then show ?thesis by (simp add: round_mag_def)
next
  case False
  let ?x = "of_nat n :: rat"
  have x: "0 < ?x" using False by simp
  have "?x < 2 ^ 53" using assms by (metis of_nat_less_iff of_nat_numeral of_nat_power)
  then have "flog2 ?x \<le> 52" using flog2_le_nat [OF x, of 52] by simp
  then have "max (flog2 ?x - 52) (- 1074) \<le> 0" by simp
  from powi_grid [OF this] obtain m where m: "1 = of_int m * quantum ?x" by auto
  then have "?x = of_int (int n * m) * quantum ?x" by simp
  then show ?thesis
    using round_mag_le_grid [OF x, of "int n * m"] round_mag_ge_grid [OF x, of "int n * m"]
    by (metis order_antisym order_refl)
qed

lemma two_pow_1024_big: "(n::nat) < 2 ^ 53 \<Longrightarrow> (of_nat n :: rat) < 2 ^ 1024"
proof -
  assume "n < 2 ^ 53"
  then have "(of_nat n :: rat) < 2 ^ 53" by (metis of_nat_less_iff of_nat_numeral of_nat_power)
  also have "(2::rat) ^ 53 \<le> 2 ^ 1024" by (rule power_increasing) auto
  finally show "(of_nat n :: rat) < 2 ^ 1024" .
qed

lemma round_f64_of_nat: "n < 2 ^ 53 \<Longrightarrow> round_f64 (of_nat n) = Fin (of_nat n)"
  using two_pow_1024_big [of n]
  by (cases "n = 0") (auto simp: round_f64_def Let_def round_mag_of_nat sgn_if not_le)

text \<open>A rounded quotient stays between the integers below \<open>2 ^ 53\<close> that enclose it.\<close>

lemma round_f64_between:
  assumes "of_nat m \<le> x" and "x \<le> of_nat n" and "n < 2 ^ 53"
  obtains r where "round_f64 x = Fin r" and "of_nat m \<le> r" and "r \<le> of_nat n"
proof -
  have x: "0 \<le> x" using assms(1) by (metis of_nat_0_le_iff order_trans)
  have mn: "m \<le> n" using assms(1,2) by (metis of_nat_le_iff order_trans)
  have lo: "of_nat m \<le> round_mag x"
    using round_mag_mono [of "of_nat m" x] assms mn round_mag_of_nat [of m] by simp
  have hi: "round_mag x \<le> of_nat n"
    using round_mag_mono [OF x assms(2)] round_mag_of_nat [OF assms(3)] by simp
  have "round_mag x < 2 ^ 1024" using hi two_pow_1024_big [OF assms(3)] by linarith
  then have "round_f64 x = Fin (sgn x * round_mag x)"
    using x by (auto simp: round_f64_def Let_def)
  moreover have "sgn x * round_mag x = round_mag x"
    using x by (cases "x = 0") (auto simp: round_mag_def)
  ultimately show ?thesis using that lo hi by metis
qed

lemma unat_fl_to_u64:
  assumes "of_nat m \<le> r" and "r < of_nat n" and "n \<le> 2 ^ 64"
  shows "m \<le> unat (fl_to_u64 (Fin r))" and "unat (fl_to_u64 (Fin r)) < n"
proof -
  have r: "0 \<le> r" using assms(1) by (metis of_nat_0_le_iff order_trans)
  have f: "int m \<le> \<lfloor>r\<rfloor>" using assms(1) by (simp add: le_floor_iff)
  have g: "\<lfloor>r\<rfloor> < int n" using assms(2) by (simp add: floor_less_iff)
  have "int n \<le> 2 ^ 64" using assms(3) by (metis of_nat_le_iff of_nat_numeral of_nat_power)
  with g have "\<lfloor>r\<rfloor> < 2 ^ 64" by linarith
  then have "unat (fl_to_u64 (Fin r)) = nat \<lfloor>r\<rfloor>"
    using r f by (simp add: unat_eq_nat_uint unsigned_of_int take_bit_int_eq_self)
  with f g show "m \<le> unat (fl_to_u64 (Fin r))" and "unat (fl_to_u64 (Fin r)) < n" by auto
qed

end
