(* ===== verification/Core_Types.thy ===== *)
theory Core_Types
  imports Rust_Str Float64
begin

text \<open>
  The crate \<^verbatim>\<open>linsight-core\<close>: the value types of \<^verbatim>\<open>types.rs\<close>, the hardware identities, nickname
  validation and display labels of \<^verbatim>\<open>hardware.rs\<close>, the retention durations of \<^verbatim>\<open>time.rs\<close> and
  the path resolution of \<^verbatim>\<open>paths.rs\<close>. The newtypes \<^verbatim>\<open>SensorId\<close> and \<^verbatim>\<open>HardwareDeviceKey\<close> are
  their strings; the fallible constructors are the functions below. Instants and durations
  are nanoseconds (\<open>nat\<close>).
\<close>

section \<open>Sensor identifiers, units, readings (types.rs)\<close>

type_synonym SensorId = string

datatype CoreError = InvalidSensorId string | CoreIo string

definition SensorId_try_new :: "string \<Rightarrow> (SensorId, CoreError) result" where
  "SensorId_try_new s =
     (if s = [] then Err (InvalidSensorId ''empty'')
      else if list_ex is_whitespace s
      then Err (InvalidSensorId (''whitespace in '' @ debug_str s))
      else Ok s)"

definition core_error_to_string :: "CoreError \<Rightarrow> string" where
  "core_error_to_string e =
     (case e of InvalidSensorId m \<Rightarrow> ''invalid sensor id: '' @ m | CoreIo m \<Rightarrow> ''i/o: '' @ m)"

datatype Unit =
    Percent | Celsius | Bytes | BytesPerSec | Hertz | Watts | Volts | Rpm | Count
  | Custom string

definition symbol :: "Unit \<Rightarrow> string" where
  "symbol u =
     (case u of
        Percent \<Rightarrow> ''%'' | Celsius \<Rightarrow> CHR 0xB0 # ''C'' | Bytes \<Rightarrow> ''B'' | BytesPerSec \<Rightarrow> ''B/s''
      | Hertz \<Rightarrow> ''Hz'' | Watts \<Rightarrow> ''W'' | Volts \<Rightarrow> ''V'' | Rpm \<Rightarrow> ''rpm'' | Count \<Rightarrow> ''''
      | Custom s \<Rightarrow> s)"

datatype Category = CatCpu | CatGpu | CatMemory | CatStorage | CatNetwork | CatCustom

datatype SensorKind = KindScalar | KindCounter | KindTable | KindState

datatype Cell = CellText string | CellNumber fl | CellBytes u64

datatype TableRow = TableRow (cells: "Cell list")

datatype Reading = Scalar fl | Counter u64 | Table "TableRow list" | State string

record Sample =
  sample_sensor :: SensorId
  sample_ts_micros :: u64
  sample_reading :: Reading

definition STATIC_TAG :: string where
  "STATIC_TAG = ''static''"

text \<open>The time-bounded snapshot cache of the sensor plugins.\<close>

record 'a SnapshotCache =
  captured_at :: nat
  cache_data :: 'a

definition SnapshotCache_new :: "nat \<Rightarrow> 'a \<Rightarrow> 'a SnapshotCache" where
  "SnapshotCache_new now d = \<lparr>captured_at = now, cache_data = d\<rparr>"

definition SnapshotCache_get :: "nat \<Rightarrow> nat \<Rightarrow> 'a SnapshotCache \<Rightarrow> 'a option" where
  "SnapshotCache_get now ttl c = (if now - captured_at c \<le> ttl then Some (cache_data c) else None)"

section \<open>Hardware identities (hardware.rs)\<close>

datatype HardwareCategory = HwGpu | HwStorage | HwNetwork | HwCpu | HwOther

definition hw_category_as_str :: "HardwareCategory \<Rightarrow> string" where
  "hw_category_as_str c =
     (case c of HwGpu \<Rightarrow> ''gpu'' | HwStorage \<Rightarrow> ''storage'' | HwNetwork \<Rightarrow> ''network''
      | HwCpu \<Rightarrow> ''cpu'' | HwOther \<Rightarrow> ''other'')"

datatype KeyError =
    KeyEmpty | KeyTooLong nat | NoScheme | UnknownScheme string | EmptyPayload string
  | BadChar char

text \<open>The \<^verbatim>\<open>Debug\<close> form of a \<^verbatim>\<open>char\<close>: quoted with \<^verbatim>\<open>'\<close>, which it escapes instead of the double quote.\<close>

definition debug_char :: "char \<Rightarrow> string" where
  "debug_char c =
     CHR 0x27 # (if c = CHR 0x27 then [CHR 0x5C, c] else if c = CHR 0x22 then [c] else escape_debug c)
     @ [CHR 0x27]"

definition key_error_to_string :: "KeyError \<Rightarrow> string" where
  "key_error_to_string e =
     (case e of
        KeyEmpty \<Rightarrow> ''hardware device key is empty''
      | KeyTooLong n \<Rightarrow> ''hardware device key too long ('' @ show_nat n @ '' bytes, max 140)''
      | NoScheme \<Rightarrow>
          ''hardware device key missing scheme prefix (expected one of: pci, nvml, nvme, net, cpu, plugin)''
      | UnknownScheme s \<Rightarrow>
          ''hardware device key has unknown scheme '' @ [CHR 0x27] @ s @ [CHR 0x27]
      | EmptyPayload s \<Rightarrow>
          ''hardware device key payload empty after '' @ [CHR 0x27] @ s @ '':'' @ [CHR 0x27]
      | BadChar c \<Rightarrow> ''hardware device key contains invalid character '' @ debug_char c)"

definition ALLOWED_SCHEMES :: "string list" where
  "ALLOWED_SCHEMES =
     [''pci'', ''nvml'', ''nvme'', ''net'', ''cpu'', ''system'', ''block'', ''hwmon'', ''fs'',
      ''amdgpu'', ''zram'', ''i915'', ''plugin'']"

definition KEY_MAX_LEN :: nat where
  "KEY_MAX_LEN = 140"

type_synonym HardwareDeviceKey = string

definition key_char_ok :: "char \<Rightarrow> bool" where
  "key_char_ok c = (is_ascii_alphanumeric c \<or> c \<in> set ''_:.-'')"

definition HardwareDeviceKey_try_new :: "string \<Rightarrow> (HardwareDeviceKey, KeyError) result" where
  "HardwareDeviceKey_try_new s =
     (if s = [] then Err KeyEmpty
      else if KEY_MAX_LEN < str_len s then Err (KeyTooLong (str_len s))
      else case split_once CHR '':'' s of
             None \<Rightarrow> Err NoScheme
           | Some (scheme, rest) \<Rightarrow>
               if scheme \<notin> set ALLOWED_SCHEMES then Err (UnknownScheme scheme)
               else if rest = [] then Err (EmptyPayload scheme)
               else case find (\<lambda>c. \<not> key_char_ok c) rest of
                      Some c \<Rightarrow> Err (BadChar c)
                    | None \<Rightarrow> Ok s)"

definition key_scheme :: "HardwareDeviceKey \<Rightarrow> string" where
  "key_scheme k = hd (split_char CHR '':'' k)"

record HardwareDevice =
  dev_key :: HardwareDeviceKey
  dev_category :: HardwareCategory
  dev_model :: string
  dev_vendor :: "string option"
  dev_location :: "string option"
  dev_plugin_id :: string
  dev_plugin_device_id :: string
  dev_sensor_ids :: "SensorId list"

datatype NicknameError = NickTooLong nat | ControlChar char

definition nickname_error_to_string :: "NicknameError \<Rightarrow> string" where
  "nickname_error_to_string e =
     (case e of
        NickTooLong n \<Rightarrow> ''nickname too long ('' @ show_nat n @ '' chars, max 64)''
      | ControlChar c \<Rightarrow> ''nickname contains control char '' @ debug_char c)"

definition NICKNAME_MAX_CHARS :: nat where
  "NICKNAME_MAX_CHARS = 64"

definition validate_nickname :: "string \<Rightarrow> (string option, NicknameError) result" where
  "validate_nickname input =
     (let trimmed = trim input
      in if trimmed = [] then Ok None
         else if NICKNAME_MAX_CHARS < length trimmed then Err (NickTooLong (length trimmed))
         else case find is_control trimmed of
                Some c \<Rightarrow> Err (ControlChar c)
              | None \<Rightarrow> Ok (Some trimmed))"

text \<open>The argument is what reading the sysfs file returned (\<open>None\<close> for a failed read).\<close>

definition parse_sysfs_pci_id :: "string option \<Rightarrow> u16 option" where
  "parse_sysfs_pci_id file =
     (case file of
        None \<Rightarrow> None
      | Some raw \<Rightarrow>
          parse_hex_u16 (case strip_prefix ''0x'' (trim raw) of None \<Rightarrow> trim raw | Some t \<Rightarrow> t))"

definition key_payload :: "HardwareDeviceKey \<Rightarrow> string" where
  "key_payload k = (case split_once CHR '':'' k of None \<Rightarrow> k | Some (_, p) \<Rightarrow> p)"

definition compute_device_label ::
    "HardwareDevice \<Rightarrow> HardwareDevice list \<Rightarrow> (string \<times> string) list \<Rightarrow> string" where
  "compute_device_label target all_devices nicknames =
     (case map_of nicknames (dev_key target) of
        Some nick \<Rightarrow> nick
      | None \<Rightarrow>
          if list_ex (\<lambda>d. dev_key d \<noteq> dev_key target \<and> dev_model d = dev_model target
                \<and> \<not> hm_contains nicknames (dev_key d)) all_devices
          then dev_model target @ '' ('' @ key_payload (dev_key target) @ '')''
          else dev_model target)"

section \<open>Durations and paths (time.rs, paths.rs)\<close>

definition is_not_digit :: "char \<Rightarrow> bool" where
  "is_not_digit c = (\<not> is_ascii_digit c)"

text \<open>The result is the number of whole seconds of the \<^verbatim>\<open>Duration\<close>.\<close>

definition parse_duration_dhm :: "string \<Rightarrow> u64 option" where
  "parse_duration_dhm s0 =
     (let s = trim s0;
          digits = takeWhile is_ascii_digit s;
          unit = dropWhile is_ascii_digit s
      in case parse_u64 digits of
           None \<Rightarrow> None
         | Some n \<Rightarrow>
             if n = 0 then None
             else if unit = ''d'' then checked_mul n 86400
             else if unit = ''h'' then checked_mul n 3600
             else if unit = ''m'' then checked_mul n 60
             else None)"

text \<open>\<^verbatim>\<open>Path::join\<close> with a relative second component.\<close>

definition path_join :: "string \<Rightarrow> string \<Rightarrow> string" where
  "path_join a b = (if a = [] \<or> last a = CHR ''/'' then a @ b else a @ ''/'' @ b)"

definition history_db_path :: "string option \<Rightarrow> string option \<Rightarrow> string" where
  "history_db_path xdg_data_home home =
     (case xdg_data_home of
        Some d \<Rightarrow> path_join d ''linsight/history.db''
      | None \<Rightarrow>
          (case home of
             Some h \<Rightarrow> path_join h ''.local/share/linsight/history.db''
           | None \<Rightarrow> ''/tmp/linsight-history.db''))"

section \<open>Lemmas\<close>

lemma SensorId_try_new_Ok:
  "SensorId_try_new s = Ok i \<longleftrightarrow> i = s \<and> s \<noteq> [] \<and> (\<forall>c \<in> set s. \<not> is_whitespace c)"
  by (auto simp: SensorId_try_new_def list_ex_iff)

lemma schemes_no_colon: "s \<in> set ALLOWED_SCHEMES \<Longrightarrow> CHR '':'' \<notin> set s"
  by (auto simp: ALLOWED_SCHEMES_def)

text \<open>The grammar of a device key.\<close>

definition wf_key :: "string \<Rightarrow> bool" where
  "wf_key k \<longleftrightarrow>
     str_len k \<le> KEY_MAX_LEN \<and>
     (\<exists>scheme rest. k = scheme @ CHR '':'' # rest \<and> scheme \<in> set ALLOWED_SCHEMES
        \<and> rest \<noteq> [] \<and> (\<forall>c \<in> set rest. key_char_ok c))"

lemma split_once_scheme:
  "scheme \<in> set ALLOWED_SCHEMES \<Longrightarrow>
   split_once CHR '':'' (scheme @ CHR '':'' # rest) = Some (scheme, rest)"
  by (simp add: split_once_Some schemes_no_colon)

lemma key_try_new_Ok: "HardwareDeviceKey_try_new s = Ok k \<longleftrightarrow> k = s \<and> wf_key s"
proof
  assume "HardwareDeviceKey_try_new s = Ok k"
  then show "k = s \<and> wf_key s"
    by (fastforce simp: HardwareDeviceKey_try_new_def wf_key_def split_once_Some find_None_all
        split: if_splits option.splits)
next
  assume "k = s \<and> wf_key s"
  then show "HardwareDeviceKey_try_new s = Ok k"
    by (auto simp: HardwareDeviceKey_try_new_def wf_key_def split_once_scheme find_None_all
        split: option.splits dest: find_SomeD)
qed

lemma wf_key_split:
  assumes "wf_key k"
  shows "k = key_scheme k @ CHR '':'' # key_payload k" and "key_scheme k \<in> set ALLOWED_SCHEMES"
proof -
  from assms obtain s r where k: "k = s @ CHR '':'' # r" and s: "s \<in> set ALLOWED_SCHEMES"
    by (auto simp: wf_key_def)
  then have "key_scheme k = s" and "key_payload k = r"
    by (simp_all add: key_scheme_def key_payload_def split_once_scheme schemes_no_colon
        split_char_append)
  with k s show "k = key_scheme k @ CHR '':'' # key_payload k"
    and "key_scheme k \<in> set ALLOWED_SCHEMES" by simp_all
qed

lemma validate_nickname_Some:
  "validate_nickname s = Ok (Some n) \<longleftrightarrow>
   n = trim s \<and> n \<noteq> [] \<and> length n \<le> NICKNAME_MAX_CHARS \<and> (\<forall>c \<in> set n. \<not> is_control c)"
  by (auto simp: validate_nickname_def Let_def find_None_all split: if_splits option.splits
      dest: find_SomeD)

lemma validate_nickname_None: "validate_nickname s = Ok None \<longleftrightarrow> trim s = []"
  by (auto simp: validate_nickname_def Let_def split: if_splits option.splits)

lemma validate_nickname_idem:
  "validate_nickname s = Ok (Some n) \<Longrightarrow> validate_nickname n = Ok (Some n)"
  by (auto simp: validate_nickname_Some)

lemma compute_device_label_nick:
  "map_of nicks (dev_key d) = Some n \<Longrightarrow> compute_device_label d ds nicks = n"
  by (simp add: compute_device_label_def)

lemma compute_device_label_disambig:
  assumes "d' \<in> set ds" "dev_key d' \<noteq> dev_key d" "dev_model d' = dev_model d"
    and "map_of nicks (dev_key d') = None" "map_of nicks (dev_key d) = None"
  shows "compute_device_label d ds nicks = dev_model d @ '' ('' @ key_payload (dev_key d) @ '')''"
  using assms by (auto simp: compute_device_label_def list_ex_iff hm_contains_def)

text \<open>
  The label depends on the device list only as a set, so the iteration order of the map it
  comes from does not matter.
\<close>

lemma compute_device_label_cong:
  "set ds = set ds' \<Longrightarrow> map_of ns = map_of ns' \<Longrightarrow>
   compute_device_label d ds ns = compute_device_label d ds' ns'"
  by (auto simp: compute_device_label_def list_ex_iff hm_contains_def split: option.splits)

lemma parse_digits_unit:
  assumes "list_all (\<lambda>c. \<not> is_ascii_digit c \<and> \<not> is_whitespace c) u" and "u \<noteq> []"
  shows "trim (show_nat n @ u) = show_nat n @ u"
    and "takeWhile is_ascii_digit (show_nat n @ u) = show_nat n"
    and "dropWhile is_ascii_digit (show_nat n @ u) = u"
proof -
  have d: "\<forall>c \<in> set (show_nat n). is_ascii_digit c"
    using show_nat_digits [of n] by (simp add: list_all_iff)
  then have "is_ascii_digit (hd (show_nat n))" by simp
  then have "\<not> is_whitespace (hd (show_nat n))"
    by (auto simp: is_ascii_digit_def is_whitespace_def)
  moreover have "\<not> is_whitespace (last u)" using assms by (auto simp: list_all_iff)
  ultimately show "trim (show_nat n @ u) = show_nat n @ u"
    using assms(2) by (intro trim_no_ws) simp
  have "\<not> is_ascii_digit (hd u)" using assms by (cases u) auto
  with d assms(2) show "takeWhile is_ascii_digit (show_nat n @ u) = show_nat n"
    and "dropWhile is_ascii_digit (show_nat n @ u) = u"
    by (cases u; simp add: takeWhile_append dropWhile_append)+
qed

end
