(* ===== verification/Protocol.thy ===== *)
theory Protocol
  imports Core_Types
begin

text \<open>
  The message types of \<^verbatim>\<open>crates/linsight-protocol/src/messages.rs\<close>, with their variants in
  declaration order (the order is the wire format: postcard numbers variants by it), the
  protocol constants of \<^verbatim>\<open>lib.rs\<close> and the version check of the handshake. A \<^verbatim>\<open>HashMap\<close> is an
  association list.
\<close>

definition PROTOCOL_VERSION :: u32 where
  "PROTOCOL_VERSION = 3"

definition PUMP_INTERVAL_MIN_MS :: u32 where
  "PUMP_INTERVAL_MIN_MS = 50"

definition PUMP_INTERVAL_MAX_MS :: u32 where
  "PUMP_INTERVAL_MAX_MS = 1000"

definition PUMP_INTERVAL_DEFAULT_MS :: u32 where
  "PUMP_INTERVAL_DEFAULT_MS = 150"

datatype RequestOp =
    GetHardware
  | SetNickname string "string option"
  | SetPumpIntervalMs u32
  | GetHistory string u64 u64 "u32 option"
  | ListAlerts
  | UpsertAlert string string "string option" "string option" "string list" "bool option"
  | DeleteAlert string
  | TestAlertExpr string
  | ListAlertEvents "u32 option"
  | GetDaemonSettings
  | SetDaemonSettings "bool option" "bool option" "bool option" "string option"
  | GetSensorInfo string

datatype ClientMsg =
    Hello u32 string "string option"
  | ListSensors
  | Subscribe "SensorId list" "fl option"
  | Unsubscribe "SensorId list"
  | Goodbye
  | Request u32 RequestOp

datatype ProtoErrorCode =
    UnknownDevice | InvalidNickname | IoCode | Internal | UnknownSensor | AlertNotFound
  | AlertParse

record ProtoError =
  err_code :: ProtoErrorCode
  err_message :: string

record PluginInfo =
  pi_plugin_id :: string
  pi_display_name :: string
  pi_version :: string
  pi_sensor_count :: u32

record AlertRuleJson =
  json_name :: string
  json_expr :: string
  json_for_duration :: "string option"
  json_cooldown :: "string option"
  json_notify :: "string list"
  json_enabled :: bool

record SensorInfo =
  info_id :: SensorId
  info_display_name :: string
  info_unit :: Unit
  info_kind :: SensorKind
  info_category :: Category
  info_native_rate_hz :: fl
  info_min :: "fl option"
  info_max :: "fl option"
  info_device_id :: "string option"
  info_plugin_id :: string
  info_device_key :: "string option"
  info_device_label :: "string option"
  info_tags :: "string list"

datatype ResponsePayload =
    Hardware "HardwareDevice list" "(string \<times> string) list"
  | NicknameSet string "string option"
  | PumpIntervalSet u32
  | History string "Sample list"
  | AlertList "AlertRuleJson list"
  | AlertUpserted string
  | AlertDeleted string
  | AlertTestResult bool "string option"
  | AlertEventList string
  | DaemonSettings bool bool bool "string option"
  | DaemonSettingsSet bool bool bool
  | SensorInfoPayload SensorInfo

datatype ServerMsg =
    Welcome u32 string "PluginInfo list"
  | SensorList "SensorInfo list"
  | SampleMsg Sample
  | SensorDegraded SensorId string
  | Bye string
  | Response u32 "(ResponsePayload, ProtoError) result"
  | SensorListBroadcast "SensorInfo list"

text \<open>The declaration-order discriminants that \<^verbatim>\<open>frame.rs\<close> dispatches on.\<close>

fun server_msg_variant :: "ServerMsg \<Rightarrow> u8" where
  "server_msg_variant (Welcome _ _ _) = 0"
| "server_msg_variant (SensorList _) = 1"
| "server_msg_variant (SampleMsg _) = 2"
| "server_msg_variant (SensorDegraded _ _) = 3"
| "server_msg_variant (Bye _) = 4"
| "server_msg_variant (Response _ _) = 5"
| "server_msg_variant (SensorListBroadcast _) = 6"

datatype HandshakeError =
    NotHello
  | VersionMismatch u32 u32
  | AuthFailed

definition verify_hello :: "ClientMsg \<Rightarrow> (string \<times> string option, HandshakeError) result" where
  "verify_hello msg =
     (case msg of
        Hello protocol_version client_name auth_token \<Rightarrow>
          if protocol_version \<noteq> PROTOCOL_VERSION
          then Err (VersionMismatch protocol_version PROTOCOL_VERSION)
          else Ok (client_name, auth_token)
      | _ \<Rightarrow> Err NotHello)"

text \<open>The \<^verbatim>\<open>Display\<close> text of a handshake failure (the \<^verbatim>\<open>#[error]\<close> attributes).\<close>

definition handshake_error_to_string :: "HandshakeError \<Rightarrow> string" where
  "handshake_error_to_string e =
     (case e of
        NotHello \<Rightarrow> ''first message must be Hello''
      | VersionMismatch c d \<Rightarrow>
          ''protocol version mismatch: client='' @ show_nat (unat c)
          @ '' daemon='' @ show_nat (unat d)
      | AuthFailed \<Rightarrow> ''authentication failed'')"

lemma verify_hello_Ok:
  "verify_hello m = Ok (n, t) \<longleftrightarrow> m = Hello PROTOCOL_VERSION n t"
  by (auto simp: verify_hello_def split: ClientMsg.splits)

end
