(* ===== verification/Frame.thy ===== *)
theory Frame
  imports Protocol
begin

unbundle bit_operations_syntax

text \<open>
  The wire framing of \<^verbatim>\<open>crates/linsight-protocol/src/frame.rs\<close>: a little-endian \<^verbatim>\<open>u32\<close> length and
  that many bytes. The byte source is the bytes still to come and how the source ends (end
  of file or an I/O error); the sink is the bytes written and the point at which it fails,
  if it does. The postcard codec is a parameter (\<open>dec\<close>, \<open>enc\<close>) of the functions that call it.
  An indexing panic of the code is the outcome \<open>Panics\<close>.
\<close>

section \<open>Byte sources and sinks\<close>

datatype io_error = UnexpectedEof | IoOther string

record source =
  src_bytes :: bytes
  src_end :: io_error

text \<open>\<^verbatim>\<open>Read::read_exact\<close>: all the bytes asked for, or the error the source ends with.\<close>

definition read_exact :: "nat \<Rightarrow> source \<Rightarrow> (bytes, io_error) result \<times> source" where
  "read_exact n s =
     (if n \<le> length (src_bytes s)
      then (Ok (take n (src_bytes s)), s\<lparr>src_bytes := drop n (src_bytes s)\<rparr>)
      else (Err (src_end s), s\<lparr>src_bytes := []\<rparr>))"

record sink =
  snk_bytes :: bytes
  snk_fail :: "(nat \<times> io_error) option"

definition write_all :: "bytes \<Rightarrow> sink \<Rightarrow> (unit, io_error) result \<times> sink" where
  "write_all bs k =
     (case snk_fail k of
        None \<Rightarrow> (Ok (), k\<lparr>snk_bytes := snk_bytes k @ bs\<rparr>)
      | Some (room, e) \<Rightarrow>
          if length bs \<le> room
          then (Ok (), k\<lparr>snk_bytes := snk_bytes k @ bs, snk_fail := Some (room - length bs, e)\<rparr>)
          else (Err e, k\<lparr>snk_bytes := snk_bytes k @ take room bs, snk_fail := Some (0, e)\<rparr>))"

definition u32_to_le_bytes :: "u32 \<Rightarrow> bytes" where
  "u32_to_le_bytes w = [ucast w, ucast (drop_bit 8 w), ucast (drop_bit 16 w), ucast (drop_bit 24 w)]"

definition u32_from_le_bytes :: "bytes \<Rightarrow> u32" where
  "u32_from_le_bytes bs =
     ucast (bs ! 0) OR push_bit 8 (ucast (bs ! 1)) OR push_bit 16 (ucast (bs ! 2))
     OR push_bit 24 (ucast (bs ! 3))"

section \<open>FrameReader\<close>

definition MAX_FRAME_BYTES :: u32 where
  "MAX_FRAME_BYTES = push_bit 20 1"

datatype FrameError =
    FrameIo io_error | FrameDecode string | Oversized nat | Closed

fun eof_is_closed :: "io_error \<Rightarrow> FrameError" where
  "eof_is_closed UnexpectedEof = Closed"
| "eof_is_closed e = FrameIo e"

definition read_frame_header :: "source \<Rightarrow> (u32 \<times> u8, FrameError) result \<times> source" where
  "read_frame_header s =
     (case read_exact 4 s of
        (Err e, s1) \<Rightarrow> (Err (eof_is_closed e), s1)
      | (Ok len_buf, s1) \<Rightarrow>
          let len = u32_from_le_bytes len_buf
          in if MAX_FRAME_BYTES < len then (Err (Oversized (unat len)), s1)
             else case read_exact 1 s1 of
                    (Err e, s2) \<Rightarrow> (Err (eof_is_closed e), s2)
                  | (Ok first, s2) \<Rightarrow> (Ok (len, first ! 0), s2))"

text \<open>
  The body after its header: \<^verbatim>\<open>vec![0; len]\<close>, \<^verbatim>\<open>body[0] = first\<close> (which panics on the empty
  vector of a zero-length frame) and the remaining \<open>len - 1\<close> bytes.
\<close>

definition read_body :: "u32 \<Rightarrow> u8 \<Rightarrow> source \<Rightarrow> ((bytes, FrameError) result \<times> source) exec" where
  "read_body len first s =
     (if len = 0 then Panics
      else if 1 < len
      then (case read_exact (unat len - 1) s of
              (Err e, s1) \<Rightarrow> Returns (Err (FrameIo e), s1)
            | (Ok rest, s1) \<Rightarrow> Returns (Ok (first # rest), s1))
      else Returns (Ok [first], s))"

definition read_frame :: "source \<Rightarrow> ((bytes, FrameError) result \<times> source) exec" where
  "read_frame s =
     (case read_frame_header s of
        (Err e, s1) \<Rightarrow> Returns (Err e, s1)
      | (Ok (len, first), s1) \<Rightarrow> read_body len first s1)"

text \<open>\<^verbatim>\<open>read_client\<close> and \<^verbatim>\<open>read_server\<close>: one frame, then \<^verbatim>\<open>postcard::from_bytes\<close>.\<close>

definition read_msg ::
    "(bytes \<Rightarrow> ('m, string) result) \<Rightarrow> source \<Rightarrow> (('m, FrameError) result \<times> source) exec" where
  "read_msg dec s =
     (case read_frame s of
        Panics \<Rightarrow> Panics
      | Returns (Err e, s1) \<Rightarrow> Returns (Err e, s1)
      | Returns (Ok body, s1) \<Rightarrow> Returns (result_map_err FrameDecode (dec body), s1))"

definition DISCARD_LEN :: nat where
  "DISCARD_LEN = 1024"

function skip_frame_body :: "nat \<Rightarrow> source \<Rightarrow> (unit, FrameError) result \<times> source" where
  "skip_frame_body remaining s =
     (if remaining = 0 then (Ok (), s)
      else let n = min remaining DISCARD_LEN
           in case read_exact n s of
                (Err e, s1) \<Rightarrow> (Err (FrameIo e), s1)
              | (Ok _, s1) \<Rightarrow> skip_frame_body (remaining - n) s1)"
  by pat_completeness auto
termination
  by (relation "measure fst") (auto simp: DISCARD_LEN_def)

declare skip_frame_body.simps [simp del]

datatype ResponseReadError =
    RespFrame FrameError | RespServer ProtoError | RespBye string

definition VARIANT_BYE :: u8 where
  "VARIANT_BYE = 4"

definition VARIANT_RESPONSE :: u8 where
  "VARIANT_RESPONSE = 5"

lemma length_read_exact: "read_exact n s = (r, s1) \<Longrightarrow> length (src_bytes s1) \<le> length (src_bytes s)"
  by (auto simp: read_exact_def split: if_splits)

lemma length_read_frame_header:
  assumes "read_frame_header s = (Ok x, s1)"
  shows "length (src_bytes s1) < length (src_bytes s)"
  using assms
  by (auto simp: read_frame_header_def read_exact_def Let_def split: if_splits result.splits)

lemma length_read_body:
  "read_body len first s = Returns (Ok b, s1) \<Longrightarrow> length (src_bytes s1) \<le> length (src_bytes s)"
  by (auto simp: read_body_def split: if_splits prod.splits result.splits dest: length_read_exact)

lemma length_skip_frame_body:
  "skip_frame_body n s = (r, s1) \<Longrightarrow> length (src_bytes s1) \<le> length (src_bytes s)"
proof (induction n s arbitrary: s1 rule: skip_frame_body.induct)
  case (1 n s)
  show ?case
  proof (cases "n = 0")
    case True
    with 1 show ?thesis by (simp add: skip_frame_body.simps)
  next
    case False
    with 1 show ?thesis
      by (subst (asm) (2) skip_frame_body.simps)
        (fastforce simp: Let_def split: prod.splits result.splits dest: length_read_exact)
  qed
qed

text \<open>
  \<^verbatim>\<open>read_server_response\<close>: frames are consumed until the response with the request's id (or
  a \<^verbatim>\<open>Bye\<close>) arrives; every other frame is skipped undecoded.
\<close>

function read_server_response ::
    "(bytes \<Rightarrow> (ServerMsg, string) result) \<Rightarrow> u32 \<Rightarrow> source \<Rightarrow>
     ((ResponsePayload, ResponseReadError) result \<times> source) exec" where
  "read_server_response dec req_id s =
     (case read_frame_header s of
        (Err e, s1) \<Rightarrow> Returns (Err (RespFrame e), s1)
      | (Ok (len, first), s1) \<Rightarrow>
          if first = VARIANT_RESPONSE then
            (case read_body len first s1 of
               Panics \<Rightarrow> Panics
             | Returns (Err e, s2) \<Rightarrow> Returns (Err (RespFrame e), s2)
             | Returns (Ok body, s2) \<Rightarrow>
                 (case dec body of
                    Err e \<Rightarrow> Returns (Err (RespFrame (FrameDecode e)), s2)
                  | Ok (Response rid res) \<Rightarrow>
                      if rid = req_id then Returns (result_map_err RespServer res, s2)
                      else read_server_response dec req_id s2
                  | Ok _ \<Rightarrow> read_server_response dec req_id s2))
          else if first = VARIANT_BYE then
            (case read_body len first s1 of
               Panics \<Rightarrow> Panics
             | Returns (Err e, s2) \<Rightarrow> Returns (Err (RespFrame e), s2)
             | Returns (Ok body, s2) \<Rightarrow>
                 (case dec body of
                    Err e \<Rightarrow> Returns (Err (RespFrame (FrameDecode e)), s2)
                  | Ok (Bye reason) \<Rightarrow> Returns (Err (RespBye reason), s2)
                  | Ok _ \<Rightarrow> read_server_response dec req_id s2))
          else if 1 < len then
            (case skip_frame_body (unat len - 1) s1 of
               (Err e, s2) \<Rightarrow> Returns (Err (RespFrame e), s2)
             | (Ok _, s2) \<Rightarrow> read_server_response dec req_id s2)
          else read_server_response dec req_id s1)"
  by pat_completeness auto
termination
  by (relation "measure (\<lambda>(dec, req_id, s). length (src_bytes s))")
    (auto dest!: length_read_frame_header [OF sym] length_read_body
      length_skip_frame_body length_skip_frame_body [OF sym])

declare read_server_response.simps [simp del]

section \<open>FrameWriter\<close>

text \<open>
  \<^verbatim>\<open>serialize_body\<close>: \<^verbatim>\<open>postcard::to_slice\<close> into a buffer of the current capacity, grown by at
  least itself (and at least 256) until the message fits. The result is the body and the
  final capacity.
\<close>

function serialize_body :: "(bytes, string) result \<Rightarrow> nat \<Rightarrow> (bytes, FrameError) result \<times> nat" where
  "serialize_body encoded cap =
     (case encoded of
        Err e \<Rightarrow> (Err (FrameDecode e), cap)
      | Ok b \<Rightarrow>
          if length b \<le> cap then (Ok b, cap)
          else serialize_body encoded (cap + max cap 256))"
  by pat_completeness auto
termination
  by (relation "measure (\<lambda>(e, cap). case e of Ok b \<Rightarrow> length b - cap | Err _ \<Rightarrow> 0)") auto

declare serialize_body.simps [simp del]

record writer =
  wr_sink :: sink
  wr_cap :: nat

definition write_frame ::
    "('m \<Rightarrow> (bytes, string) result) \<Rightarrow> 'm \<Rightarrow> writer \<Rightarrow> (unit, FrameError) result \<times> writer" where
  "write_frame enc msg w =
     (case serialize_body (enc msg) (wr_cap w) of
        (Err e, cap) \<Rightarrow> (Err e, w\<lparr>wr_cap := cap\<rparr>)
      | (Ok body, cap) \<Rightarrow>
          if unat MAX_FRAME_BYTES < length body
          then (Err (Oversized (length body)), w\<lparr>wr_cap := cap\<rparr>)
          else let len = of_nat (length body) :: u32
               in case write_all (u32_to_le_bytes len @ body) (wr_sink w) of
                    (Ok _, k) \<Rightarrow> (Ok (), \<lparr>wr_sink = k, wr_cap = cap\<rparr>)
                  | (Err e, k) \<Rightarrow> (Err (FrameIo e), \<lparr>wr_sink = k, wr_cap = cap\<rparr>))"

text \<open>The bytes of one frame, the abstract meaning of a written body.\<close>

definition frame_bytes :: "bytes \<Rightarrow> bytes" where
  "frame_bytes body = u32_to_le_bytes (of_nat (length body)) @ body"

section \<open>Byte order, sources and sinks\<close>

lemma length_u32_to_le_bytes [simp]: "length (u32_to_le_bytes w) = 4"
  by (simp add: u32_to_le_bytes_def)

lemma u32_le_round_trip [simp]: "u32_from_le_bytes (u32_to_le_bytes w) = w"
proof -
  let ?v = "ucast (ucast w :: u8) OR push_bit 8 (ucast (ucast (drop_bit 8 w) :: u8))
      OR push_bit 16 (ucast (ucast (drop_bit 16 w) :: u8))
      OR push_bit 24 (ucast (ucast (drop_bit 24 w) :: u8)) :: u32"
  have "?v = w"
  proof (rule bit_word_eqI)
    fix n assume "n < LENGTH(32)"
    then show "bit ?v n = bit w n"
      by (cases "n < 8"; cases "n < 16"; cases "n < 24") (auto simp: bit_simps)
  qed
  then show ?thesis by (simp add: u32_from_le_bytes_def u32_to_le_bytes_def)
qed

lemma MAX_FRAME_BYTES_unat [simp]: "unat MAX_FRAME_BYTES = 2 ^ 20"
  by (simp add: MAX_FRAME_BYTES_def)

lemma read_exact_append:
  "length a = n \<Longrightarrow> read_exact n (s\<lparr>src_bytes := a @ r\<rparr>) = (Ok a, s\<lparr>src_bytes := r\<rparr>)"
  by (simp add: read_exact_def)

lemma skip_frame_body_eq:
  "skip_frame_body n s =
     (if n \<le> length (src_bytes s) then (Ok (), s\<lparr>src_bytes := drop n (src_bytes s)\<rparr>)
      else (Err (FrameIo (src_end s)), s\<lparr>src_bytes := []\<rparr>))"
proof (induction n s rule: skip_frame_body.induct)
  case (1 n s)
  show ?case
  proof (cases "n = 0 \<or> length (src_bytes s) < min n DISCARD_LEN")
    case True
    then show ?thesis
      by (auto simp: skip_frame_body.simps [of n s] Let_def read_exact_def)
  next
    case False
    let ?k = "min n DISCARD_LEN" and ?s = "s\<lparr>src_bytes := drop (min n DISCARD_LEN) (src_bytes s)\<rparr>"
    have k: "?k \<le> length (src_bytes s)" and n: "n \<noteq> 0" using False by auto
    then have "skip_frame_body n s = skip_frame_body (n - ?k) ?s"
      by (simp add: skip_frame_body.simps [of n s] Let_def read_exact_def del: min.bounded_iff min_le_iff_disj)
    also have "\<dots> = (if n \<le> length (src_bytes s) then (Ok (), s\<lparr>src_bytes := drop n (src_bytes s)\<rparr>)
      else (Err (FrameIo (src_end s)), s\<lparr>src_bytes := []\<rparr>))"
      using 1 [OF n refl, of "Ok (take ?k (src_bytes s))" ?s "take ?k (src_bytes s)"] k
      by (auto simp: read_exact_def )
    finally show ?thesis .
  qed
qed

lemma of_nat_len_u32: "n \<le> 2 ^ 20 \<Longrightarrow> unat (of_nat n :: u32) = n"
  by (simp add: unsigned_of_nat take_bit_nat_eq_self)

section \<open>The framing interface\<close>

text \<open>
  What a reader of frames relies on: a written body is read back whole, the rest of the
  stream stays. A client that reads one message after another then recovers the sequence.
\<close>

fun read_n :: "('s \<Rightarrow> (('b, 'e) result \<times> 's) exec) \<Rightarrow> nat \<Rightarrow> 's \<Rightarrow> ('b list \<times> 's) option" where
  "read_n rd 0 s = Some ([], s)"
| "read_n rd (Suc n) s =
     (case rd s of
        Returns (Ok b, s1) \<Rightarrow> map_option (\<lambda>(bs, s2). (b # bs, s2)) (read_n rd n s1)
      | _ \<Rightarrow> None)"

locale framing =
  fixes wr :: "'b \<Rightarrow> bytes"
    and rd :: "source \<Rightarrow> (('b, FrameError) result \<times> source) exec"
    and ok :: "'b \<Rightarrow> bool"
  assumes rd_wr: "ok b \<Longrightarrow> rd (s\<lparr>src_bytes := wr b @ r\<rparr>) = Returns (Ok b, s\<lparr>src_bytes := r\<rparr>)"
begin

lemma rd_sequence:
  "\<forall>b \<in> set bs. ok b \<Longrightarrow>
   read_n rd (length bs) (s\<lparr>src_bytes := concat (map wr bs) @ r\<rparr>) = Some (bs, s\<lparr>src_bytes := r\<rparr>)"
  by (induction bs) (simp_all add: rd_wr)

lemma wr_prefix_free:
  assumes "ok a" "ok b" and eq: "wr a @ r = wr b @ r'"
  shows "a = b \<and> r = r'"
proof -
  let ?s = "\<lparr>src_bytes = [], src_end = UnexpectedEof\<rparr>"
  have "rd (?s\<lparr>src_bytes := wr a @ r\<rparr>) = Returns (Ok a, ?s\<lparr>src_bytes := r\<rparr>)"
    using assms(1) by (rule rd_wr)
  moreover have "rd (?s\<lparr>src_bytes := wr b @ r'\<rparr>) = Returns (Ok b, ?s\<lparr>src_bytes := r'\<rparr>)"
    using assms(2) by (rule rd_wr)
  ultimately show ?thesis using eq by simp
qed

end

definition frame_ok :: "bytes \<Rightarrow> bool" where
  "frame_ok b = (0 < length b \<and> length b \<le> unat MAX_FRAME_BYTES)"

lemma read_frame_header_frame:
  assumes "frame_ok (f # t)"
  shows "read_frame_header (s\<lparr>src_bytes := frame_bytes (f # t) @ r\<rparr>) =
         (Ok (of_nat (Suc (length t)), f), s\<lparr>src_bytes := t @ r\<rparr>)"
proof -
  let ?l = "of_nat (Suc (length t)) :: u32"
  have u: "unat ?l = Suc (length t)"
    using assms by (intro of_nat_len_u32) (simp add: frame_ok_def)
  have "\<not> MAX_FRAME_BYTES < ?l"
    using assms by (simp only: word_less_nat_alt u) (simp add: frame_ok_def)
  moreover have "read_exact 4 (s\<lparr>src_bytes := frame_bytes (f # t) @ r\<rparr>) =
      (Ok (u32_to_le_bytes ?l), s\<lparr>src_bytes := (f # t) @ r\<rparr>)"
    unfolding frame_bytes_def append_assoc list.size(4) add_Suc_right add_0_right
    by (rule read_exact_append) simp
  moreover have "read_exact 1 (s\<lparr>src_bytes := (f # t) @ r\<rparr>) = (Ok [f], s\<lparr>src_bytes := t @ r\<rparr>)"
    using read_exact_append [where a = "[f]" and n = 1 and s = s and r = "t @ r"] by simp
  ultimately show ?thesis by (simp add: read_frame_header_def Let_def del: of_nat_Suc)
qed

lemma read_body_frame:
  assumes "frame_ok (f # t)"
  shows "read_body (of_nat (Suc (length t))) f (s\<lparr>src_bytes := t @ r\<rparr>) =
         Returns (Ok (f # t), s\<lparr>src_bytes := r\<rparr>)"
proof -
  let ?l = "of_nat (Suc (length t)) :: u32"
  have u: "unat ?l = Suc (length t)"
    using assms by (intro of_nat_len_u32) (simp add: frame_ok_def)
  then have "?l \<noteq> 0" and "1 < ?l \<longleftrightarrow> t \<noteq> []"
    by (metis nat.distinct(1) unat_0) (simp add: word_less_nat_alt u del: of_nat_Suc)
  moreover have "read_exact (unat ?l - 1) (s\<lparr>src_bytes := t @ r\<rparr>) = (Ok t, s\<lparr>src_bytes := r\<rparr>)"
    by (rule read_exact_append) (simp add: u del: of_nat_Suc)
  ultimately show ?thesis by (cases "t = []") (simp_all add: read_body_def del: of_nat_Suc)
qed

interpretation frames: framing frame_bytes read_frame frame_ok
proof
  fix b s r
  assume "frame_ok b"
  then obtain f t where b: "b = f # t" by (cases b) (auto simp: frame_ok_def)
  with \<open>frame_ok b\<close> show "read_frame (s\<lparr>src_bytes := frame_bytes b @ r\<rparr>) = Returns (Ok b, s\<lparr>src_bytes := r\<rparr>)"
    by (simp add: read_frame_def read_frame_header_frame read_body_frame del: of_nat_Suc)
qed

section \<open>Reading and writing whole messages\<close>

lemma read_msg_frame:
  "frame_ok b \<Longrightarrow> dec b = Ok m \<Longrightarrow>
   read_msg dec (s\<lparr>src_bytes := frame_bytes b @ r\<rparr>) = Returns (Ok m, s\<lparr>src_bytes := r\<rparr>)"
  by (simp add: read_msg_def frames.rd_wr)

lemma serialize_body_Ok:
  "\<exists>cap'. serialize_body (Ok b) cap = (Ok b, cap') \<and> length b \<le> cap'"
proof (induction "Ok b :: (bytes, string) result" cap rule: serialize_body.induct)
  case (1 cap)
  then show ?case
    by (cases "length b \<le> cap") (auto simp: serialize_body.simps [of "Ok b" cap])
qed

lemma serialize_body_Err: "serialize_body (Err e) cap = (Err (FrameDecode e), cap)"
  by (simp add: serialize_body.simps)

lemma write_frame_Ok:
  assumes "enc m = Ok b" and "length b \<le> unat MAX_FRAME_BYTES" and "snk_fail (wr_sink w) = None"
  obtains cap where "write_frame enc m w =
    (Ok (), \<lparr>wr_sink = (wr_sink w)\<lparr>snk_bytes := snk_bytes (wr_sink w) @ frame_bytes b\<rparr>, wr_cap = cap\<rparr>)"
proof -
  obtain cap where "serialize_body (enc m) (wr_cap w) = (Ok b, cap)"
    using serialize_body_Ok assms(1) by metis
  with assms that show ?thesis
    by (simp add: write_frame_def write_all_def frame_bytes_def Let_def)
qed

fun write_msgs ::
    "('m \<Rightarrow> (bytes, string) result) \<Rightarrow> 'm list \<Rightarrow> writer \<Rightarrow> (unit, FrameError) result \<times> writer" where
  "write_msgs enc [] w = (Ok (), w)"
| "write_msgs enc (m # ms) w =
     (case write_frame enc m w of
        (Err e, w1) \<Rightarrow> (Err e, w1)
      | (Ok _, w1) \<Rightarrow> write_msgs enc ms w1)"

lemma write_msgs_Ok:
  assumes "\<forall>m \<in> set ms. \<exists>b. enc m = Ok b \<and> length b \<le> unat MAX_FRAME_BYTES"
    and "snk_fail (wr_sink w) = None"
  shows "\<exists>w'. write_msgs enc ms w = (Ok (), w') \<and>
           snk_bytes (wr_sink w') = snk_bytes (wr_sink w) @
             concat (map (\<lambda>m. frame_bytes (case enc m of Ok b \<Rightarrow> b | Err _ \<Rightarrow> [])) ms)"
  using assms
proof (induction ms arbitrary: w)
  case (Cons m ms)
  then obtain b where b: "enc m = Ok b" "length b \<le> unat MAX_FRAME_BYTES" by auto
  obtain cap where w: "write_frame enc m w =
      (Ok (), \<lparr>wr_sink = (wr_sink w)\<lparr>snk_bytes := snk_bytes (wr_sink w) @ frame_bytes b\<rparr>, wr_cap = cap\<rparr>)"
    using write_frame_Ok [where enc = enc and m = m and b = b and w = w] b Cons.prems(2) by blast
  let ?w = "\<lparr>wr_sink = (wr_sink w)\<lparr>snk_bytes := snk_bytes (wr_sink w) @ frame_bytes b\<rparr>, wr_cap = cap\<rparr>"
  have "\<exists>w'. write_msgs enc ms ?w = (Ok (), w') \<and>
      snk_bytes (wr_sink w') = snk_bytes (wr_sink ?w) @
        concat (map (\<lambda>m. frame_bytes (case enc m of Ok b \<Rightarrow> b | Err _ \<Rightarrow> [])) ms)"
    using Cons.prems by (intro Cons.IH) auto
  with w b show ?case by auto
qed simp



lemma u32_to_from_le:
  assumes "length bs = 4"
  shows "u32_to_le_bytes (u32_from_le_bytes bs) = bs"
proof -
  from assms obtain a b c d where bs: "bs = [a, b, c, d]"
    by (auto simp: length_Suc_conv numeral_eq_Suc)
  let ?w = "ucast a OR push_bit 8 (ucast b) OR push_bit 16 (ucast c) OR push_bit 24 (ucast d) :: u32"
  have hi: "\<not> bit v n" if "8 \<le> n" for v :: u8 and n
    using that bit_imp_le_length [of v n] by fastforce
  have "ucast ?w = a" "ucast (drop_bit 8 ?w) = b" "ucast (drop_bit 16 ?w) = c" "ucast (drop_bit 24 ?w) = d"
    by (rule bit_word_eqI; auto simp: bit_simps hi)+
  then show ?thesis by (simp add: bs u32_from_le_bytes_def u32_to_le_bytes_def)
qed

text \<open>
  Whatever the source holds, a body the reader returns is not empty, is within the frame
  limit and is exactly the next frame of the source: the reader accepts nothing but frames
  and never buffers more than the limit.
\<close>

theorem read_frame_sound:
  assumes "read_frame s = Returns (Ok body, s')"
  shows "frame_ok body \<and> src_bytes s = frame_bytes body @ src_bytes s' \<and> src_end s' = src_end s"
proof -
  let ?bs = "src_bytes s"
  let ?len = "u32_from_le_bytes (take 4 ?bs)"
  obtain f s1 where h: "read_frame_header s = (Ok (?len, f), s1)"
    and l: "4 < length ?bs" and m: "?len \<le> MAX_FRAME_BYTES"
    and f: "f = ?bs ! 4" and s1: "s1 = s\<lparr>src_bytes := drop 5 ?bs\<rparr>"
    using assms
    by (auto simp: read_frame_def read_frame_header_def read_exact_def Let_def
        split: if_splits result.splits prod.splits)
  have rb: "read_body ?len f s1 = Returns (Ok body, s')" using assms h by (simp add: read_frame_def)
  have b: "length body = unat ?len \<and> body @ src_bytes s' = f # drop 5 ?bs \<and> src_end s' = src_end s \<and> body \<noteq> []"
  proof (cases "1 < ?len")
    case True
    then have u: "1 < unat ?len" by (simp add: word_less_nat_alt)
    let ?n = "unat ?len - 1"
    have "?n \<le> length (drop 5 ?bs) \<and> body = f # take ?n (drop 5 ?bs)
        \<and> s' = s\<lparr>src_bytes := drop ?n (drop 5 ?bs)\<rparr>"
      using rb True
      by (auto simp: read_body_def read_exact_def s1 split: if_splits simp del: drop_drop)
    then show ?thesis using u by (simp del: drop_drop length_drop)
  next
    case False
    then have "unat ?len \<le> 1" by (simp add: word_less_nat_alt)
    then have "unat ?len = 1 \<or> ?len = 0" unfolding unat_eq_0 [symmetric] by linarith
    with rb False show ?thesis by (auto simp: read_body_def s1 split: if_splits)
  qed
  have "of_nat (length body) = ?len" using b by simp
  then have "frame_bytes body = take 4 ?bs @ body"
    using l by (simp add: frame_bytes_def u32_to_from_le)
  moreover have "f # drop 5 ?bs = drop 4 ?bs"
    using l f by (metis Cons_nth_drop_Suc eval_nat_numeral(3) numeral_eq_Suc pred_numeral_simps(3) semiring_norm(28))
  ultimately show ?thesis
    using b m by (simp add: frame_ok_def word_le_nat_alt flip: length_greater_0_conv)
qed

theorem read_frame_sound_witness:
  "frame_ok [3 :: u8, 4] \<and> [2, 0, 0, 0, 3, 4, 5] = frame_bytes [3, 4] @ [5 :: u8]"
proof -
  have "read_frame \<lparr>src_bytes = [2, 0, 0, 0, 3, 4, 5], src_end = UnexpectedEof\<rparr>
      = Returns (Ok [3, 4], \<lparr>src_bytes = [5], src_end = UnexpectedEof\<rparr>)"
    by code_simp
  from read_frame_sound [OF this] show ?thesis by simp
qed

section \<open>Waiting for a response\<close>

text \<open>
  What the code relies on of postcard: a message it encodes decodes to itself, and the first
  byte of the body is the variant number of the message.
\<close>

definition server_codec_ok ::
    "(ServerMsg \<Rightarrow> bytes) \<Rightarrow> (bytes \<Rightarrow> (ServerMsg, string) result) \<Rightarrow> ServerMsg \<Rightarrow> bool" where
  "server_codec_ok enc dec m \<longleftrightarrow>
     frame_ok (enc m) \<and> dec (enc m) = Ok m \<and> hd (enc m) = server_msg_variant m"

text \<open>Messages a waiting client passes over.\<close>

fun passed_over :: "u32 \<Rightarrow> ServerMsg \<Rightarrow> bool" where
  "passed_over req_id (Bye _) = False"
| "passed_over req_id (Response rid _) = (rid \<noteq> req_id)"
| "passed_over req_id _ = True"

lemma codec_cases:
  assumes "server_codec_ok enc dec m"
  obtains t where "enc m = server_msg_variant m # t"
  using assms by (cases "enc m") (auto simp: server_codec_ok_def frame_ok_def)

lemma read_server_response_step:
  assumes "server_codec_ok enc dec m"
  shows "read_server_response dec req_id (s\<lparr>src_bytes := frame_bytes (enc m) @ r\<rparr>) =
    (case m of
       Response rid res \<Rightarrow>
         if rid = req_id then Returns (result_map_err RespServer res, s\<lparr>src_bytes := r\<rparr>)
         else read_server_response dec req_id (s\<lparr>src_bytes := r\<rparr>)
     | Bye reason \<Rightarrow> Returns (Err (RespBye reason), s\<lparr>src_bytes := r\<rparr>)
     | _ \<Rightarrow> read_server_response dec req_id (s\<lparr>src_bytes := r\<rparr>))"
proof -
  obtain t where t: "enc m = server_msg_variant m # t" using assms by (rule codec_cases)
  let ?f = "server_msg_variant m" and ?l = "of_nat (Suc (length t)) :: u32"
  have ok: "frame_ok (?f # t)" and d: "dec (?f # t) = Ok m"
    using assms t by (auto simp: server_codec_ok_def)
  have u: "unat ?l = Suc (length t)"
    using ok by (intro of_nat_len_u32) (simp add: frame_ok_def)
  have skip: "(if 1 < ?l then
            (case skip_frame_body (unat ?l - 1) (s\<lparr>src_bytes := t @ r\<rparr>) of
               (Err e, s2) \<Rightarrow> Returns (Err (RespFrame e), s2)
             | (Ok _, s2) \<Rightarrow> read_server_response dec req_id s2)
          else read_server_response dec req_id (s\<lparr>src_bytes := t @ r\<rparr>))
      = read_server_response dec req_id (s\<lparr>src_bytes := r\<rparr>)"
    unfolding word_less_nat_alt u by (simp add: skip_frame_body_eq)
  show ?thesis
    unfolding t using read_body_frame [OF ok, where s = s and r = r] d skip
      read_frame_header_frame [OF ok, where s = s and r = r]
    by (subst read_server_response.simps)
      (cases m; simp add: VARIANT_RESPONSE_def VARIANT_BYE_def del: of_nat_Suc)
qed

lemma read_server_response_pass:
  assumes "\<forall>m \<in> set ms. server_codec_ok enc dec m \<and> passed_over req_id m"
  shows "read_server_response dec req_id (s\<lparr>src_bytes := concat (map (\<lambda>m. frame_bytes (enc m)) ms) @ r\<rparr>) =
         read_server_response dec req_id (s\<lparr>src_bytes := r\<rparr>)"
  using assms
  by (induction ms) (auto simp: read_server_response_step split: ServerMsg.split)

text \<open>
  A client that waits for the response to a request gets exactly the payload or the
  error of the first response with its id, whatever samples, broadcasts and responses to
  other requests come before it, and leaves the stream at the frame after it.
\<close>

theorem read_server_response_returns:
  assumes "\<forall>m \<in> set ms. server_codec_ok enc dec m \<and> passed_over req_id m"
    and "server_codec_ok enc dec (Response req_id res)"
  shows "read_server_response dec req_id
           (s\<lparr>src_bytes := concat (map (\<lambda>m. frame_bytes (enc m)) ms)
                 @ frame_bytes (enc (Response req_id res)) @ r\<rparr>)
         = Returns (result_map_err RespServer res, s\<lparr>src_bytes := r\<rparr>)"
  using assms by (simp add: read_server_response_pass read_server_response_step)

definition demo_enc :: "ServerMsg \<Rightarrow> bytes" where
  "demo_enc m = [server_msg_variant m]"

definition demo_dec :: "bytes \<Rightarrow> (ServerMsg, string) result" where
  "demo_dec b =
     (if b = [1] then Ok (SensorList [])
      else if b = [5] then Ok (Response 9 (Ok (AlertDeleted ''a'')))
      else Err ''unknown'')"

theorem read_server_response_returns_witness:
  "read_server_response demo_dec 9
     \<lparr>src_bytes = concat (map (\<lambda>m. frame_bytes (demo_enc m)) [SensorList [], SensorList []])
        @ frame_bytes (demo_enc (Response 9 (Ok (AlertDeleted ''a'')))) @ [1, 2],
      src_end = UnexpectedEof\<rparr>
   = Returns (Ok (AlertDeleted ''a''), \<lparr>src_bytes = [1, 2], src_end = UnexpectedEof\<rparr>)"
  using read_server_response_returns [where ms = "[SensorList [], SensorList []]" and enc = demo_enc
      and dec = demo_dec and req_id = 9 and res = "Ok (AlertDeleted ''a'')" and r = "[1, 2]"
      and s = "\<lparr>src_bytes = [], src_end = UnexpectedEof\<rparr>"]
  by (simp add: server_codec_ok_def demo_enc_def demo_dec_def frame_ok_def)

section \<open>Refused frames\<close>

text \<open>
  A frame whose length field exceeds the limit is refused after its four length bytes,
  before any of the body is read or buffered, and a message whose body exceeds it is refused
  by the writer before any byte reaches the sink.
\<close>

theorem oversized_refused:
  "MAX_FRAME_BYTES < len \<Longrightarrow>
     read_frame (s\<lparr>src_bytes := u32_to_le_bytes len @ r\<rparr>)
       = Returns (Err (Oversized (unat len)), s\<lparr>src_bytes := r\<rparr>)
     \<and> (enc m = Ok body \<and> unat MAX_FRAME_BYTES < length body \<longrightarrow>
          (\<exists>w'. write_frame enc m w = (Err (Oversized (length body)), w') \<and> wr_sink w' = wr_sink w))"
proof -
  assume "MAX_FRAME_BYTES < len"
  then have "read_frame (s\<lparr>src_bytes := u32_to_le_bytes len @ r\<rparr>)
       = Returns (Err (Oversized (unat len)), s\<lparr>src_bytes := r\<rparr>)"
    by (simp add: read_frame_def read_frame_header_def read_exact_append Let_def)
  moreover have "\<exists>w'. write_frame enc m w = (Err (Oversized (length body)), w') \<and> wr_sink w' = wr_sink w"
    if h: "enc m = Ok body \<and> unat MAX_FRAME_BYTES < length body"
  proof -
    obtain cap where "serialize_body (enc m) (wr_cap w) = (Ok body, cap)"
      using serialize_body_Ok [of body "wr_cap w"] h by auto
    with h show ?thesis by (simp add: write_frame_def)
  qed
  ultimately show ?thesis by blast
qed

theorem oversized_refused_witness:
  "read_frame \<lparr>src_bytes = u32_to_le_bytes 2000000 @ [1, 2], src_end = UnexpectedEof\<rparr>
     = Returns (Err (Oversized 2000000), \<lparr>src_bytes = [1, 2], src_end = UnexpectedEof\<rparr>)
   \<and> fst (write_frame (\<lambda>n. Ok (replicate n 0)) 1048577
        \<lparr>wr_sink = \<lparr>snk_bytes = [], snk_fail = None\<rparr>, wr_cap = 256\<rparr>) = Err (Oversized 1048577)"
  using oversized_refused [where len = 2000000 and r = "[1, 2]" and m = "1048577 :: nat"
      and enc = "\<lambda>n. Ok (replicate n 0)" and body = "replicate 1048577 0"
      and w = "\<lparr>wr_sink = \<lparr>snk_bytes = [], snk_fail = None\<rparr>, wr_cap = 256\<rparr>"
      and s = "\<lparr>src_bytes = [], src_end = UnexpectedEof\<rparr>"]
  by (auto simp: MAX_FRAME_BYTES_def simp del: replicate.simps)

text \<open>
  A peer that sends a zero length followed by any byte makes the reader index an empty
  vector: both readers of whole frames panic, as does the response reader when that byte is
  the response or the goodbye variant. No frame with a body is affected.
\<close>

theorem zero_length_frame_panics:
  "read_msg dec (s\<lparr>src_bytes := u32_to_le_bytes 0 @ x # r\<rparr>) = Panics
   \<and> read_server_response sdec req_id (s\<lparr>src_bytes := u32_to_le_bytes 0 @ VARIANT_RESPONSE # r\<rparr>) = Panics
   \<and> read_server_response sdec req_id (s\<lparr>src_bytes := u32_to_le_bytes 0 @ VARIANT_BYE # r\<rparr>) = Panics"
proof -
  have h: "read_frame_header (s\<lparr>src_bytes := u32_to_le_bytes 0 @ y # r\<rparr>) = (Ok (0, y), s\<lparr>src_bytes := r\<rparr>)" for y
    using read_exact_append [where a = "[y]" and n = 1 and s = s and r = r]
    by (simp add: read_frame_header_def read_exact_append Let_def)
  then show ?thesis
    by (simp add: read_msg_def read_frame_def read_body_def read_server_response.simps VARIANT_BYE_def
        VARIANT_RESPONSE_def)
qed

end
