(* ===== verification/Mirror.thy ===== *)
theory Mirror
  imports Core_Types
begin

text \<open>
  The plugin ABI of \<^verbatim>\<open>linsight-plugin-sdk\<close>: the R-mirror types of \<^verbatim>\<open>mirror.rs\<close> and
  \<^verbatim>\<open>manifest.rs\<close> with both directions of every conversion, the manifest validation, and the
  host side of \<^verbatim>\<open>plugin.rs\<close> (\<^verbatim>\<open>host_init\<close>, \<^verbatim>\<open>host_sample\<close>). A stabby string, option or vector
  is a \<open>string\<close>, \<open>option\<close> or list. A conversion whose \<^verbatim>\<open>expect\<close> can fail is an \<open>exec\<close>. A plugin
  is a value of a type \<open>'p\<close> with its trait methods given as a record of functions; a method
  that panics is \<open>Panics\<close>, which the host catches.
\<close>

section \<open>mirror.rs\<close>

datatype RSensorId = RSensorId (rid_value: string)

definition RSensorId_from :: "SensorId \<Rightarrow> RSensorId" where
  "RSensorId_from i = RSensorId i"

definition SensorId_from :: "RSensorId \<Rightarrow> SensorId" where
  "SensorId_from r = rid_value r"

datatype RUnitKind =
    RPercent | RCelsius | RBytes | RBytesPerSec | RHertz | RWatts | RVolts | RRpm | RCount | RCustom

record RUnit =
  runit_kind :: RUnitKind
  runit_custom :: "string option"

fun RUnit_from :: "Unit \<Rightarrow> RUnit" where
  "RUnit_from Percent = \<lparr>runit_kind = RPercent, runit_custom = None\<rparr>"
| "RUnit_from Celsius = \<lparr>runit_kind = RCelsius, runit_custom = None\<rparr>"
| "RUnit_from Bytes = \<lparr>runit_kind = RBytes, runit_custom = None\<rparr>"
| "RUnit_from BytesPerSec = \<lparr>runit_kind = RBytesPerSec, runit_custom = None\<rparr>"
| "RUnit_from Hertz = \<lparr>runit_kind = RHertz, runit_custom = None\<rparr>"
| "RUnit_from Watts = \<lparr>runit_kind = RWatts, runit_custom = None\<rparr>"
| "RUnit_from Volts = \<lparr>runit_kind = RVolts, runit_custom = None\<rparr>"
| "RUnit_from Rpm = \<lparr>runit_kind = RRpm, runit_custom = None\<rparr>"
| "RUnit_from Count = \<lparr>runit_kind = RCount, runit_custom = None\<rparr>"
| "RUnit_from (Custom s) = \<lparr>runit_kind = RCustom, runit_custom = Some s\<rparr>"

definition unwrap_or_default :: "string option \<Rightarrow> string" where
  "unwrap_or_default x = (case x of None \<Rightarrow> [] | Some s \<Rightarrow> s)"

definition Unit_from :: "RUnit \<Rightarrow> Unit" where
  "Unit_from r =
     (case runit_kind r of
        RPercent \<Rightarrow> Percent | RCelsius \<Rightarrow> Celsius | RBytes \<Rightarrow> Bytes | RBytesPerSec \<Rightarrow> BytesPerSec
      | RHertz \<Rightarrow> Hertz | RWatts \<Rightarrow> Watts | RVolts \<Rightarrow> Volts | RRpm \<Rightarrow> Rpm | RCount \<Rightarrow> Count
      | RCustom \<Rightarrow> Custom (unwrap_or_default (runit_custom r)))"

datatype RSensorKind = RKScalar | RKCounter | RKTable | RKState

fun RSensorKind_from :: "SensorKind \<Rightarrow> RSensorKind" where
  "RSensorKind_from KindScalar = RKScalar"
| "RSensorKind_from KindCounter = RKCounter"
| "RSensorKind_from KindTable = RKTable"
| "RSensorKind_from KindState = RKState"

fun SensorKind_from :: "RSensorKind \<Rightarrow> SensorKind" where
  "SensorKind_from RKScalar = KindScalar"
| "SensorKind_from RKCounter = KindCounter"
| "SensorKind_from RKTable = KindTable"
| "SensorKind_from RKState = KindState"

datatype RCategory = RCatCpu | RCatGpu | RCatMemory | RCatStorage | RCatNetwork | RCatCustom

fun RCategory_from :: "Category \<Rightarrow> RCategory" where
  "RCategory_from CatCpu = RCatCpu"
| "RCategory_from CatGpu = RCatGpu"
| "RCategory_from CatMemory = RCatMemory"
| "RCategory_from CatStorage = RCatStorage"
| "RCategory_from CatNetwork = RCatNetwork"
| "RCategory_from CatCustom = RCatCustom"

fun Category_from :: "RCategory \<Rightarrow> Category" where
  "Category_from RCatCpu = CatCpu"
| "Category_from RCatGpu = CatGpu"
| "Category_from RCatMemory = CatMemory"
| "Category_from RCatStorage = CatStorage"
| "Category_from RCatNetwork = CatNetwork"
| "Category_from RCatCustom = CatCustom"

datatype RHardwareCategoryKind = RHwGpu | RHwStorage | RHwNetwork | RHwCpu | RHwOther

fun RHardwareCategoryKind_from :: "HardwareCategory \<Rightarrow> RHardwareCategoryKind" where
  "RHardwareCategoryKind_from HwGpu = RHwGpu"
| "RHardwareCategoryKind_from HwStorage = RHwStorage"
| "RHardwareCategoryKind_from HwNetwork = RHwNetwork"
| "RHardwareCategoryKind_from HwCpu = RHwCpu"
| "RHardwareCategoryKind_from HwOther = RHwOther"

fun HardwareCategory_from :: "RHardwareCategoryKind \<Rightarrow> HardwareCategory" where
  "HardwareCategory_from RHwGpu = HwGpu"
| "HardwareCategory_from RHwStorage = HwStorage"
| "HardwareCategory_from RHwNetwork = HwNetwork"
| "HardwareCategory_from RHwCpu = HwCpu"
| "HardwareCategory_from RHwOther = HwOther"

record RHardwareDevice =
  rdev_key :: string
  rdev_category_kind :: RHardwareCategoryKind
  rdev_model :: string
  rdev_vendor :: "string option"
  rdev_location :: "string option"
  rdev_plugin_device_id :: string

definition RHardwareDevice_from :: "HardwareDevice \<Rightarrow> RHardwareDevice" where
  "RHardwareDevice_from d =
     \<lparr>rdev_key = dev_key d, rdev_category_kind = RHardwareCategoryKind_from (dev_category d),
      rdev_model = dev_model d, rdev_vendor = dev_vendor d, rdev_location = dev_location d,
      rdev_plugin_device_id = dev_plugin_device_id d\<rparr>"

definition HardwareDevice_from :: "RHardwareDevice \<Rightarrow> HardwareDevice exec" where
  "HardwareDevice_from r =
     (case HardwareDeviceKey_try_new (rdev_key r) of
        Err _ \<Rightarrow> Panics
      | Ok key \<Rightarrow> Returns
          \<lparr>dev_key = key, dev_category = HardwareCategory_from (rdev_category_kind r),
           dev_model = rdev_model r, dev_vendor = rdev_vendor r, dev_location = rdev_location r,
           dev_plugin_id = [], dev_plugin_device_id = rdev_plugin_device_id r,
           dev_sensor_ids = []\<rparr>)"

datatype RCellKind = RCText | RCNumber | RCBytes

record RCell =
  rcell_kind :: RCellKind
  rcell_text :: "string option"
  rcell_number :: fl
  rcell_bytes :: u64

fun RCell_from :: "Cell \<Rightarrow> RCell" where
  "RCell_from (CellText s) =
     \<lparr>rcell_kind = RCText, rcell_text = Some s, rcell_number = Fin 0, rcell_bytes = 0\<rparr>"
| "RCell_from (CellNumber n) =
     \<lparr>rcell_kind = RCNumber, rcell_text = None, rcell_number = n, rcell_bytes = 0\<rparr>"
| "RCell_from (CellBytes b) =
     \<lparr>rcell_kind = RCBytes, rcell_text = None, rcell_number = Fin 0, rcell_bytes = b\<rparr>"

definition Cell_from :: "RCell \<Rightarrow> Cell" where
  "Cell_from r =
     (case rcell_kind r of
        RCText \<Rightarrow> CellText (unwrap_or_default (rcell_text r))
      | RCNumber \<Rightarrow> CellNumber (rcell_number r)
      | RCBytes \<Rightarrow> CellBytes (rcell_bytes r))"

text \<open>
  \<^verbatim>\<open>svec_into_std\<close>: items are popped from the end, converted one by one and pushed, and the
  result is reversed. The conversion may panic.
\<close>

function svec_pop_loop :: "('r \<Rightarrow> 't exec) \<Rightarrow> 'r list \<Rightarrow> 't list \<Rightarrow> 't list exec" where
  "svec_pop_loop f v out =
     (if v = [] then Returns out
      else case f (last v) of
             Panics \<Rightarrow> Panics
           | Returns t \<Rightarrow> svec_pop_loop f (butlast v) (out @ [t]))"
  by pat_completeness auto
termination
  by (relation "measure (\<lambda>(f, v, out). length v)") auto

declare svec_pop_loop.simps [simp del]

definition svec_into_std :: "('r \<Rightarrow> 't exec) \<Rightarrow> 'r list \<Rightarrow> 't list exec" where
  "svec_into_std f v =
     (case svec_pop_loop f v [] of Panics \<Rightarrow> Panics | Returns out \<Rightarrow> Returns (rev out))"

datatype RTableRow = RTableRow (rcells: "RCell list")

definition RTableRow_from :: "TableRow \<Rightarrow> RTableRow" where
  "RTableRow_from row = RTableRow (map RCell_from (cells row))"

definition TableRow_from :: "RTableRow \<Rightarrow> TableRow exec" where
  "TableRow_from r =
     (case svec_into_std (\<lambda>c. Returns (Cell_from c)) (rcells r) of
        Panics \<Rightarrow> Panics | Returns cs \<Rightarrow> Returns (TableRow cs))"

datatype RReadingKind = RRScalar | RRCounter | RRTable | RRState

record RReading =
  rr_kind :: RReadingKind
  rr_scalar :: fl
  rr_counter :: u64
  rr_state :: "string option"
  rr_table :: "RTableRow list"

fun RReading_from :: "Reading \<Rightarrow> RReading" where
  "RReading_from (Scalar v) =
     \<lparr>rr_kind = RRScalar, rr_scalar = v, rr_counter = 0, rr_state = None, rr_table = []\<rparr>"
| "RReading_from (Counter v) =
     \<lparr>rr_kind = RRCounter, rr_scalar = Fin 0, rr_counter = v, rr_state = None, rr_table = []\<rparr>"
| "RReading_from (State s) =
     \<lparr>rr_kind = RRState, rr_scalar = Fin 0, rr_counter = 0, rr_state = Some s, rr_table = []\<rparr>"
| "RReading_from (Table rows) =
     \<lparr>rr_kind = RRTable, rr_scalar = Fin 0, rr_counter = 0, rr_state = None,
      rr_table = map RTableRow_from rows\<rparr>"

definition Reading_from :: "RReading \<Rightarrow> Reading exec" where
  "Reading_from r =
     (case rr_kind r of
        RRScalar \<Rightarrow> Returns (Scalar (rr_scalar r))
      | RRCounter \<Rightarrow> Returns (Counter (rr_counter r))
      | RRState \<Rightarrow> Returns (State (unwrap_or_default (rr_state r)))
      | RRTable \<Rightarrow>
          (case svec_into_std TableRow_from (rr_table r) of
             Panics \<Rightarrow> Panics | Returns rows \<Rightarrow> Returns (Table rows)))"

section \<open>manifest.rs\<close>

text \<open>The \<^verbatim>\<open>f32\<close> nearest to 0.1.\<close>

definition MIN_RATE_HZ :: fl where
  "MIN_RATE_HZ = Fin (13421773 / 134217728)"

definition MAX_RATE_HZ :: fl where
  "MAX_RATE_HZ = Fin 20"

record SensorDescriptor =
  d_id :: SensorId
  d_display_name :: string
  d_unit :: Unit
  d_kind :: SensorKind
  d_category :: Category
  d_native_rate_hz :: fl
  d_min :: "fl option"
  d_max :: "fl option"
  d_device_id :: "string option"
  d_device_key :: "HardwareDeviceKey option"
  d_tags :: "string list"

record PluginManifest =
  m_plugin_id :: string
  m_display_name :: string
  m_version :: string
  m_sensors :: "SensorDescriptor list"
  m_devices :: "HardwareDevice list"

record PluginMetadata =
  md_plugin_id :: string
  md_display_name :: string
  md_version :: string

definition clamped_rate_hz :: "SensorDescriptor \<Rightarrow> fl exec" where
  "clamped_rate_hz d = fl_clamp (d_native_rate_hz d) MIN_RATE_HZ MAX_RATE_HZ"

record RSensorDescriptor =
  rd_id :: RSensorId
  rd_display_name :: string
  rd_unit :: RUnit
  rd_kind :: RSensorKind
  rd_category :: RCategory
  rd_native_rate_hz :: fl
  rd_min :: "fl option"
  rd_max :: "fl option"
  rd_device_id :: "string option"
  rd_device_key :: "string option"
  rd_tags :: "string list"

record RPluginManifest =
  rm_plugin_id :: string
  rm_display_name :: string
  rm_version :: string
  rm_sensors :: "RSensorDescriptor list"
  rm_devices :: "RHardwareDevice list"

record RPluginMetadata =
  rmd_plugin_id :: string
  rmd_display_name :: string
  rmd_version :: string

definition RSensorDescriptor_from :: "SensorDescriptor \<Rightarrow> RSensorDescriptor" where
  "RSensorDescriptor_from d =
     \<lparr>rd_id = RSensorId_from (d_id d), rd_display_name = d_display_name d,
      rd_unit = RUnit_from (d_unit d), rd_kind = RSensorKind_from (d_kind d),
      rd_category = RCategory_from (d_category d), rd_native_rate_hz = d_native_rate_hz d,
      rd_min = d_min d, rd_max = d_max d, rd_device_id = d_device_id d,
      rd_device_key = d_device_key d, rd_tags = d_tags d\<rparr>"

definition SensorDescriptor_from :: "RSensorDescriptor \<Rightarrow> SensorDescriptor exec" where
  "SensorDescriptor_from r =
     exec_bind
       (case rd_device_key r of
          None \<Rightarrow> Returns None
        | Some s \<Rightarrow> (case HardwareDeviceKey_try_new s of Err _ \<Rightarrow> Panics | Ok k \<Rightarrow> Returns (Some k)))
       (\<lambda>device_key. exec_bind (svec_into_std Returns (rd_tags r)) (\<lambda>tags. Returns
          \<lparr>d_id = SensorId_from (rd_id r), d_display_name = rd_display_name r,
           d_unit = Unit_from (rd_unit r), d_kind = SensorKind_from (rd_kind r),
           d_category = Category_from (rd_category r), d_native_rate_hz = rd_native_rate_hz r,
           d_min = rd_min r, d_max = rd_max r, d_device_id = rd_device_id r,
           d_device_key = device_key, d_tags = tags\<rparr>))"

definition RPluginManifest_from :: "PluginManifest \<Rightarrow> RPluginManifest" where
  "RPluginManifest_from m =
     \<lparr>rm_plugin_id = m_plugin_id m, rm_display_name = m_display_name m, rm_version = m_version m,
      rm_sensors = map RSensorDescriptor_from (m_sensors m),
      rm_devices = map RHardwareDevice_from (m_devices m)\<rparr>"

definition PluginManifest_from :: "RPluginManifest \<Rightarrow> PluginManifest exec" where
  "PluginManifest_from r =
     exec_bind (svec_into_std SensorDescriptor_from (rm_sensors r)) (\<lambda>sensors.
     exec_bind (svec_into_std HardwareDevice_from (rm_devices r)) (\<lambda>devices. Returns
       \<lparr>m_plugin_id = rm_plugin_id r, m_display_name = rm_display_name r, m_version = rm_version r,
        m_sensors = sensors, m_devices = devices\<rparr>))"

definition RPluginMetadata_from :: "PluginMetadata \<Rightarrow> RPluginMetadata" where
  "RPluginMetadata_from m =
     \<lparr>rmd_plugin_id = md_plugin_id m, rmd_display_name = md_display_name m,
      rmd_version = md_version m\<rparr>"

definition PluginMetadata_from :: "RPluginMetadata \<Rightarrow> PluginMetadata" where
  "PluginMetadata_from r =
     \<lparr>md_plugin_id = rmd_plugin_id r, md_display_name = rmd_display_name r,
      md_version = rmd_version r\<rparr>"

section \<open>plugin.rs\<close>

datatype PluginError =
    PluginIo string | PluginParse string | Unsupported string | Transient string
  | Timeout string | Manifest string | PluginPanic string

datatype RPluginErrorKind = REIo | REParse | REUnsupported | RETransient

record RPluginError =
  re_kind :: RPluginErrorKind
  re_message :: string

fun RPluginError_from :: "PluginError \<Rightarrow> RPluginError" where
  "RPluginError_from (PluginIo s) = \<lparr>re_kind = REIo, re_message = s\<rparr>"
| "RPluginError_from (PluginParse s) = \<lparr>re_kind = REParse, re_message = s\<rparr>"
| "RPluginError_from (Unsupported s) = \<lparr>re_kind = REUnsupported, re_message = s\<rparr>"
| "RPluginError_from (Transient s) = \<lparr>re_kind = RETransient, re_message = s\<rparr>"
| "RPluginError_from (Timeout s) = \<lparr>re_kind = RETransient, re_message = ''timeout: '' @ s\<rparr>"
| "RPluginError_from (Manifest s) = \<lparr>re_kind = REIo, re_message = ''manifest: '' @ s\<rparr>"
| "RPluginError_from (PluginPanic s) = \<lparr>re_kind = REIo, re_message = ''plugin panicked: '' @ s\<rparr>"

definition PluginError_from :: "RPluginError \<Rightarrow> PluginError" where
  "PluginError_from r =
     (case re_kind r of
        REIo \<Rightarrow> PluginIo (re_message r)
      | REParse \<Rightarrow> PluginParse (re_message r)
      | REUnsupported \<Rightarrow> Unsupported (re_message r)
      | RETransient \<Rightarrow> Transient (re_message r))"

text \<open>serde_json is a parameter: its null value, its printer and its parser.\<close>

record 'j json_lib =
  json_null :: 'j
  json_to_string :: "'j \<Rightarrow> string"
  json_from_str :: "string \<Rightarrow> 'j option"

record 'j PluginCtx =
  ctx_sysroot :: "string option"
  ctx_config :: 'j

definition PluginCtx_default :: "'j json_lib \<Rightarrow> 'j PluginCtx" where
  "PluginCtx_default J = \<lparr>ctx_sysroot = None, ctx_config = json_null J\<rparr>"

definition with_config :: "'j PluginCtx \<Rightarrow> 'j \<Rightarrow> 'j PluginCtx" where
  "with_config ctx config = ctx\<lparr>ctx_config := config\<rparr>"

record RPluginCtx =
  rctx_sysroot :: string
  rctx_sysroot_set :: u8
  rctx_config_json :: string

definition RPluginCtx_from :: "'j json_lib \<Rightarrow> 'j PluginCtx \<Rightarrow> RPluginCtx" where
  "RPluginCtx_from J ctx =
     (let (sysroot, set) = (case ctx_sysroot ctx of Some p \<Rightarrow> (p, 1) | None \<Rightarrow> ([], 0));
          config_json = (if ctx_config ctx = json_null J then []
                         else json_to_string J (ctx_config ctx))
      in \<lparr>rctx_sysroot = sysroot, rctx_sysroot_set = set, rctx_config_json = config_json\<rparr>)"

definition PluginCtx_from :: "'j json_lib \<Rightarrow> RPluginCtx \<Rightarrow> 'j PluginCtx" where
  "PluginCtx_from J r =
     \<lparr>ctx_sysroot = (if rctx_sysroot_set r \<noteq> 0 then Some (rctx_sysroot r) else None),
      ctx_config =
        (if rctx_config_json r = [] then json_null J
         else case json_from_str J (rctx_config_json r) of None \<Rightarrow> json_null J | Some v \<Rightarrow> v)\<rparr>"

record 'p LinsightPlugin =
  plugin_init :: "'p \<Rightarrow> RPluginCtx \<Rightarrow> (RPluginManifest, RPluginError) result exec \<times> 'p"
  plugin_sample :: "'p \<Rightarrow> RSensorId \<Rightarrow> (RReading, RPluginError) result exec \<times> 'p"
  plugin_shutdown :: "'p \<Rightarrow> 'p"

fun validate_devices :: "RHardwareDevice list \<Rightarrow> string list \<Rightarrow> (string list, PluginError) result" where
  "validate_devices [] keys = Ok keys"
| "validate_devices (dev # devs) keys =
     (let key_str = rdev_key dev
      in case HardwareDeviceKey_try_new key_str of
           Err e \<Rightarrow> Err (Manifest (''invalid device key '' @ debug_str key_str @ '': '' @ key_error_to_string e))
         | Ok _ \<Rightarrow>
             if key_str \<in> set keys
             then Err (Manifest (''duplicate device key in manifest: '' @ debug_str key_str))
             else validate_devices devs (key_str # keys))"

fun validate_sensor_keys :: "RSensorDescriptor list \<Rightarrow> string list \<Rightarrow> (unit, PluginError) result" where
  "validate_sensor_keys [] keys = Ok ()"
| "validate_sensor_keys (s # ss) keys =
     (case rd_device_key s of
        None \<Rightarrow> validate_sensor_keys ss keys
      | Some k \<Rightarrow>
          if k \<in> set keys then validate_sensor_keys ss keys
          else Err (Manifest (''sensor '' @ rid_value (rd_id s) @ '' references device_key ''
                    @ debug_str k @ '' not in manifest.devices'')))"

definition validate_manifest :: "RPluginManifest \<Rightarrow> (unit, PluginError) result" where
  "validate_manifest m =
     (case validate_devices (rm_devices m) [] of
        Err e \<Rightarrow> Err e
      | Ok keys \<Rightarrow> validate_sensor_keys (rm_sensors m) keys)"

fun validate_sensor_ids :: "string \<Rightarrow> RSensorDescriptor list \<Rightarrow> (unit, PluginError) result" where
  "validate_sensor_ids pid [] = Ok ()"
| "validate_sensor_ids pid (s # ss) =
     (let raw = rid_value (rd_id s)
      in case SensorId_try_new raw of
           Ok _ \<Rightarrow> validate_sensor_ids pid ss
         | Err e \<Rightarrow> Err (PluginParse (''plugin `'' @ pid @ ''` returned invalid sensor id `'' @ raw
                     @ ''`: '' @ core_error_to_string e)))"

text \<open>
  The result is \<open>Panics\<close> where the conversion after the validation would panic (it never does,
  see \<open>host_init_total\<close>).
\<close>

definition host_init ::
    "'j json_lib \<Rightarrow> 'p LinsightPlugin \<Rightarrow> 'p \<Rightarrow> 'j PluginCtx \<Rightarrow>
     (PluginManifest, PluginError) result exec \<times> 'p" where
  "host_init J P p ctx =
     (case plugin_init P p (RPluginCtx_from J ctx) of
        (Panics, p') \<Rightarrow> (Returns (Err (PluginPanic ''plugin init panicked'')), p')
      | (Returns (Err e), p') \<Rightarrow> (Returns (Err (PluginError_from e)), p')
      | (Returns (Ok r_manifest), p') \<Rightarrow>
          (case validate_sensor_ids (rm_plugin_id r_manifest) (rm_sensors r_manifest) of
             Err e \<Rightarrow> (Returns (Err e), p')
           | Ok _ \<Rightarrow>
               (case validate_manifest r_manifest of
                  Err e \<Rightarrow> (Returns (Err e), p')
                | Ok _ \<Rightarrow>
                    (case PluginManifest_from r_manifest of
                       Panics \<Rightarrow> (Panics, p')
                     | Returns m \<Rightarrow> (Returns (Ok m), p')))))"

definition host_sample ::
    "'p LinsightPlugin \<Rightarrow> 'p \<Rightarrow> SensorId \<Rightarrow> (Reading, PluginError) result exec \<times> 'p" where
  "host_sample P p i =
     (case plugin_sample P p (RSensorId_from i) of
        (Panics, p') \<Rightarrow> (Returns (Err (PluginPanic ''plugin sample panicked'')), p')
      | (Returns (Err e), p') \<Rightarrow> (Returns (Err (PluginError_from e)), p')
      | (Returns (Ok r), p') \<Rightarrow>
          (case Reading_from r of Panics \<Rightarrow> (Panics, p') | Returns x \<Rightarrow> (Returns (Ok x), p')))"

section \<open>Conversions are round trips\<close>

text \<open>
  The contract of a mirror pair: what is sent across the boundary comes back, for the values
  \<open>ok\<close> describes. It lifts to vectors through \<open>svec_into_std\<close>.
\<close>

lemma svec_pop_loop_eq:
  "svec_pop_loop f v out =
     (if \<exists>r \<in> set v. f r = Panics then Panics
      else Returns (out @ rev (map (\<lambda>r. case f r of Returns t \<Rightarrow> t) v)))"
proof (induction v arbitrary: out rule: rev_induct)
  case (snoc x v)
  then show ?case by (cases "f x") (auto simp: svec_pop_loop.simps [of f "v @ [x]"])
qed (simp add: svec_pop_loop.simps)

lemma svec_into_std_eq:
  "svec_into_std f v =
     (if \<exists>r \<in> set v. f r = Panics then Panics
      else Returns (map (\<lambda>r. case f r of Returns t \<Rightarrow> t) v))"
  by (simp add: svec_into_std_def svec_pop_loop_eq)

locale mirror =
  fixes to_r :: "'a \<Rightarrow> 'r" and from_r :: "'r \<Rightarrow> 'a exec" and ok :: "'a \<Rightarrow> bool"
  assumes from_to: "ok a \<Longrightarrow> from_r (to_r a) = Returns a"
begin

lemma vec_from_to: "list_all ok xs \<Longrightarrow> svec_into_std from_r (map to_r xs) = Returns xs"
  by (auto simp: svec_into_std_eq from_to list_all_iff intro!: map_idI)

lemma to_r_inj: "ok a \<Longrightarrow> ok b \<Longrightarrow> to_r a = to_r b \<Longrightarrow> a = b"
  by (metis from_to exec.inject)

end

lemma Unit_from_to: "Unit_from (RUnit_from u) = u"
  by (cases u) (simp_all add: Unit_from_def unwrap_or_default_def)

lemma SensorKind_from_to: "SensorKind_from (RSensorKind_from k) = k"
  by (cases k) simp_all

lemma Category_from_to: "Category_from (RCategory_from c) = c"
  by (cases c) simp_all

lemma HardwareCategory_from_to: "HardwareCategory_from (RHardwareCategoryKind_from c) = c"
  by (cases c) simp_all

interpretation cell: mirror RCell_from "\<lambda>r. Returns (Cell_from r)" "\<lambda>_. True"
proof
  fix a :: Cell
  show "Returns (Cell_from (RCell_from a)) = Returns a"
    by (cases a) (simp_all add: Cell_from_def unwrap_or_default_def)
qed

interpretation tag: mirror "\<lambda>s :: string. s" Returns "\<lambda>_. True"
  by unfold_locales simp

interpretation row: mirror RTableRow_from TableRow_from "\<lambda>_. True"
  by unfold_locales (simp add: RTableRow_from_def TableRow_from_def cell.vec_from_to list_all_iff)

interpretation reading: mirror RReading_from Reading_from "\<lambda>_. True"
proof
  fix a :: Reading
  show "Reading_from (RReading_from a) = Returns a"
    by (cases a) (simp_all add: Reading_from_def unwrap_or_default_def row.vec_from_to list_all_iff)
qed

text \<open>The host-side fields of a device are not part of the mirror.\<close>

definition device_ok :: "HardwareDevice \<Rightarrow> bool" where
  "device_ok d \<longleftrightarrow> wf_key (dev_key d) \<and> dev_plugin_id d = [] \<and> dev_sensor_ids d = []"

interpretation device: mirror RHardwareDevice_from HardwareDevice_from device_ok
proof
  fix a assume "device_ok a"
  then have k: "HardwareDeviceKey_try_new (dev_key a) = Ok (dev_key a)"
    by (simp add: device_ok_def key_try_new_Ok)
  with \<open>device_ok a\<close> show "HardwareDevice_from (RHardwareDevice_from a) = Returns a"
    by (simp add: RHardwareDevice_from_def HardwareDevice_from_def HardwareCategory_from_to
        device_ok_def)
qed

definition descriptor_ok :: "SensorDescriptor \<Rightarrow> bool" where
  "descriptor_ok d \<longleftrightarrow> (case d_device_key d of None \<Rightarrow> True | Some k \<Rightarrow> wf_key k)"

interpretation descriptor: mirror RSensorDescriptor_from SensorDescriptor_from descriptor_ok
proof
  fix a assume a: "descriptor_ok a"
  have t: "svec_into_std Returns (d_tags a) = Returns (d_tags a)"
    using tag.vec_from_to [of "d_tags a"] by (simp add: list_all_iff)
  have k: "HardwareDeviceKey_try_new k = Ok k" if "d_device_key a = Some k" for k
    using a that by (simp add: descriptor_ok_def key_try_new_Ok)
  show "SensorDescriptor_from (RSensorDescriptor_from a) = Returns a"
    using t k
    by (cases "d_device_key a")
      (auto simp: RSensorDescriptor_from_def SensorDescriptor_from_def SensorId_from_def
        RSensorId_from_def Unit_from_to SensorKind_from_to Category_from_to)
qed

text \<open>
  A manifest converted to its FFI form and back is the same manifest, provided the
  device keys are well formed and the fields the host fills in are still empty.
\<close>

theorem manifest_round_trip:
  assumes "list_all descriptor_ok (m_sensors m)" and "list_all device_ok (m_devices m)"
  shows "PluginManifest_from (RPluginManifest_from m) = Returns m"
  using assms
  by (simp add: PluginManifest_from_def RPluginManifest_from_def descriptor.vec_from_to
      device.vec_from_to)

definition demo_device :: HardwareDevice where
  "demo_device =
     \<lparr>dev_key = ''pci:0000:06:00.0'', dev_category = HwGpu, dev_model = ''Arc'', dev_vendor = None,
      dev_location = None, dev_plugin_id = [], dev_plugin_device_id = ''gpu0'', dev_sensor_ids = []\<rparr>"

definition demo_descriptor :: SensorDescriptor where
  "demo_descriptor =
     \<lparr>d_id = ''xe.gpu0.util'', d_display_name = ''GPU'', d_unit = Custom ''Mb/s'', d_kind = KindScalar,
      d_category = CatGpu, d_native_rate_hz = Fin 2, d_min = None, d_max = Some (Fin 100),
      d_device_id = Some ''gpu0'', d_device_key = Some ''pci:0000:06:00.0'', d_tags = [''gpu'']\<rparr>"

definition demo_manifest :: PluginManifest where
  "demo_manifest =
     \<lparr>m_plugin_id = ''xe'', m_display_name = ''Xe'', m_version = ''1'', m_sensors = [demo_descriptor],
      m_devices = [demo_device]\<rparr>"

lemma demo_key_wf: "wf_key ''pci:0000:06:00.0''"
proof -
  have "HardwareDeviceKey_try_new ''pci:0000:06:00.0'' = Ok ''pci:0000:06:00.0''" by code_simp
  then show ?thesis by (simp only: key_try_new_Ok)
qed

lemma demo_manifest_ok:
  "list_all descriptor_ok (m_sensors demo_manifest)" "list_all device_ok (m_devices demo_manifest)"
  by (simp_all add: demo_manifest_def demo_descriptor_def demo_device_def descriptor_ok_def
      device_ok_def demo_key_wf)

theorem manifest_round_trip_witness:
  "PluginManifest_from (RPluginManifest_from demo_manifest) = Returns demo_manifest"
  by (rule manifest_round_trip [OF demo_manifest_ok])

text \<open>
  Every reading survives the plugin boundary unchanged, tables included: the vector that
  is popped from the end and reversed comes back in the order it was sent.
\<close>

theorem reading_round_trip: "Reading_from (RReading_from r) = Returns r"
  by (simp add: reading.from_to)

section \<open>What the host accepts\<close>

lemma validate_devices_Ok:
  "validate_devices devs keys = Ok ks \<longleftrightarrow>
     (\<forall>d \<in> set devs. wf_key (rdev_key d)) \<and> distinct (map rdev_key devs)
     \<and> set (map rdev_key devs) \<inter> set keys = {} \<and> ks = rev (map rdev_key devs) @ keys"
proof (induction devs arbitrary: keys)
  case (Cons d devs)
  show ?case
  proof (cases "wf_key (rdev_key d)")
    case True
    then have "HardwareDeviceKey_try_new (rdev_key d) = Ok (rdev_key d)" by (simp add: key_try_new_Ok)
    then show ?thesis using True Cons.IH [of "rdev_key d # keys"] by (auto simp: Let_def)
  next
    case False
    then have "HardwareDeviceKey_try_new (rdev_key d) \<noteq> Ok k" for k by (simp add: key_try_new_Ok)
    with False show ?thesis by (auto simp: Let_def split: result.splits)
  qed
qed auto

lemma validate_sensor_keys_Ok:
  "validate_sensor_keys ss keys = Ok () \<longleftrightarrow>
     (\<forall>s \<in> set ss. \<forall>k. rd_device_key s = Some k \<longrightarrow> k \<in> set keys)"
  by (induction ss keys rule: validate_sensor_keys.induct) (auto split: option.splits)

lemma validate_manifest_Ok:
  "validate_manifest m = Ok () \<longleftrightarrow>
     (\<forall>d \<in> set (rm_devices m). wf_key (rdev_key d)) \<and> distinct (map rdev_key (rm_devices m))
     \<and> (\<forall>s \<in> set (rm_sensors m). \<forall>k. rd_device_key s = Some k \<longrightarrow> k \<in> rdev_key ` set (rm_devices m))"
proof (cases "validate_devices (rm_devices m) []")
  case (Ok ks)
  then have "validate_manifest m = validate_sensor_keys (rm_sensors m) ks"
    by (simp add: validate_manifest_def)
  then show ?thesis using Ok [unfolded validate_devices_Ok] by (simp add: validate_sensor_keys_Ok)
next
  case (Err e)
  then have "\<not> ((\<forall>d \<in> set (rm_devices m). wf_key (rdev_key d)) \<and> distinct (map rdev_key (rm_devices m)))"
    using validate_devices_Ok [of "rm_devices m" "[]" "rev (map rdev_key (rm_devices m))"] by auto
  with Err show ?thesis by (auto simp: validate_manifest_def)
qed

lemma validate_sensor_ids_Ok:
  "validate_sensor_ids pid ss = Ok () \<longleftrightarrow>
     (\<forall>s \<in> set ss. SensorId_try_new (rid_value (rd_id s)) = Ok (rid_value (rd_id s)))"
proof (induction ss)
  case (Cons s ss)
  then show ?case
    using SensorId_try_new_Ok [of "rid_value (rd_id s)"]
    by (cases "SensorId_try_new (rid_value (rd_id s))") (auto simp: Let_def)
qed simp

lemma HardwareDevice_from_wf:
  "wf_key (rdev_key r) \<Longrightarrow>
   \<exists>d. HardwareDevice_from r = Returns d \<and> dev_key d = rdev_key r \<and> dev_plugin_id d = [] \<and> dev_sensor_ids d = []"
  using key_try_new_Ok [of "rdev_key r" "rdev_key r"] by (simp add: HardwareDevice_from_def)

lemma SensorDescriptor_from_wf:
  assumes "\<And>k. rd_device_key r = Some k \<Longrightarrow> wf_key k"
  shows "\<exists>d. SensorDescriptor_from r = Returns d \<and> d_id d = rid_value (rd_id r)
           \<and> d_device_key d = rd_device_key r"
proof -
  have "svec_into_std Returns (rd_tags r) = Returns (rd_tags r)"
    using tag.vec_from_to [of "rd_tags r"] by (simp add: list_all_iff)
  moreover have "HardwareDeviceKey_try_new k = Ok k" if "rd_device_key r = Some k" for k
    using assms that by (simp add: key_try_new_Ok)
  ultimately show ?thesis
    by (cases "rd_device_key r") (auto simp: SensorDescriptor_from_def SensorId_from_def)
qed

text \<open>The manifest invariant the daemon relies on.\<close>

definition wf_manifest :: "PluginManifest \<Rightarrow> bool" where
  "wf_manifest m \<longleftrightarrow>
     (\<forall>s \<in> set (m_sensors m). d_id s \<noteq> [] \<and> (\<forall>c \<in> set (d_id s). \<not> is_whitespace c))
     \<and> (\<forall>d \<in> set (m_devices m). device_ok d) \<and> distinct (map dev_key (m_devices m))
     \<and> (\<forall>s \<in> set (m_sensors m). \<forall>k. d_device_key s = Some k \<longrightarrow> k \<in> dev_key ` set (m_devices m))"

lemma PluginManifest_from_validated:
  assumes "validate_sensor_ids pid (rm_sensors r) = Ok ()" and "validate_manifest r = Ok ()"
  shows "\<exists>m. PluginManifest_from r = Returns m \<and> wf_manifest m \<and> m_plugin_id m = rm_plugin_id r"
proof -
  define fs where "fs = (\<lambda>r. case SensorDescriptor_from r of Returns t \<Rightarrow> t)"
  define fd where "fd = (\<lambda>r. case HardwareDevice_from r of Returns t \<Rightarrow> t)"
  note v = assms(2) [unfolded validate_manifest_Ok]
  have s: "SensorDescriptor_from s = Returns (fs s) \<and> d_id (fs s) = rid_value (rd_id s)
      \<and> d_device_key (fs s) = rd_device_key s" if "s \<in> set (rm_sensors r)" for s
  proof -
    have "wf_key k" if "rd_device_key s = Some k" for k
      using v that \<open>s \<in> set (rm_sensors r)\<close> by blast
    then show ?thesis using SensorDescriptor_from_wf [of s] by (auto simp: fs_def)
  qed
  have d: "HardwareDevice_from d = Returns (fd d) \<and> dev_key (fd d) = rdev_key d \<and> device_ok (fd d)"
    if "d \<in> set (rm_devices r)" for d
    using v that HardwareDevice_from_wf [of d] by (auto simp: fd_def device_ok_def)
  let ?m = "\<lparr>m_plugin_id = rm_plugin_id r, m_display_name = rm_display_name r,
    m_version = rm_version r, m_sensors = map fs (rm_sensors r), m_devices = map fd (rm_devices r)\<rparr>"
  have "svec_into_std SensorDescriptor_from (rm_sensors r) = Returns (map fs (rm_sensors r))"
    using s by (fastforce simp: svec_into_std_eq fs_def)
  moreover have "svec_into_std HardwareDevice_from (rm_devices r) = Returns (map fd (rm_devices r))"
    using d by (fastforce simp: svec_into_std_eq fd_def)
  ultimately have eq: "PluginManifest_from r = Returns ?m" by (simp add: PluginManifest_from_def)
  have keys: "map dev_key (map fd (rm_devices r)) = map rdev_key (rm_devices r)" using d by simp
  have ids: "\<forall>s \<in> set (rm_sensors r). d_id (fs s) \<noteq> [] \<and> (\<forall>c \<in> set (d_id (fs s)). \<not> is_whitespace c)"
    using s assms(1) by (simp add: validate_sensor_ids_Ok SensorId_try_new_Ok)
  have refs: "\<forall>s \<in> set (rm_sensors r). \<forall>k. d_device_key (fs s) = Some k \<longrightarrow>
      k \<in> dev_key ` fd ` set (rm_devices r)"
    using s v unfolding arg_cong [OF keys, of set, unfolded set_map] by simp
  have dist: "distinct (map dev_key (map fd (rm_devices r)))" using v by (simp only: keys)
  have "wf_manifest ?m" using ids refs d dist by (simp add: wf_manifest_def)
  with eq show ?thesis by auto
qed

lemma Reading_from_total: "\<exists>x. Reading_from r = Returns x"
proof -
  have "TableRow_from t \<noteq> Panics" for t by (simp add: TableRow_from_def svec_into_std_eq)
  then show ?thesis by (simp add: Reading_from_def svec_into_std_eq split: RReadingKind.splits)
qed

lemma host_init_returns:
  "\<exists>r p'. host_init J P p ctx = (Returns r, p') \<and> (case r of Ok m \<Rightarrow> wf_manifest m | Err _ \<Rightarrow> True)"
proof (cases "plugin_init P p (RPluginCtx_from J ctx)")
  case (Pair res p')
  show ?thesis
  proof (cases res)
    case (Returns r)
    then show ?thesis
    proof (cases r)
      case (Ok rm)
      show ?thesis
      proof (cases "validate_sensor_ids (rm_plugin_id rm) (rm_sensors rm) = Ok () \<and> validate_manifest rm = Ok ()")
        case True
        then obtain m where "PluginManifest_from rm = Returns m" "wf_manifest m"
          using PluginManifest_from_validated by blast
        with True Pair Returns Ok show ?thesis by (simp add: host_init_def)
      next
        case False
        with Pair Returns Ok show ?thesis
          by (auto simp: host_init_def split: result.splits)
      qed
    qed (use Pair in \<open>simp add: host_init_def\<close>)
  qed (use Pair in \<open>simp add: host_init_def\<close>)
qed

text \<open>
  C24: Whatever a plugin does in \<^verbatim>\<open>init\<close> (panic, return an error or return any manifest at all),
  the host returns: the conversion it runs after the validation never panics, and a manifest
  it accepts has non-empty sensor ids without whitespace, well-formed pairwise different
  device keys and no reference to a device it does not declare.
\<close>

theorem host_init_total:
  "\<exists>r p'. host_init J P p ctx = (Returns r, p') \<and> (case r of Ok m \<Rightarrow> wf_manifest m | Err _ \<Rightarrow> True)"
  by (rule host_init_returns)

lemma host_sample_total: "\<exists>r p'. host_sample P p i = (Returns r, p')"
proof (cases "plugin_sample P p (RSensorId_from i)")
  case (Pair res p')
  obtain x where "\<And>r. Reading_from r = Returns (x r)" using Reading_from_total by metis
  with Pair show ?thesis by (simp add: host_sample_def split: exec.splits result.splits)
qed

text \<open>
  The context a plugin receives decodes to the context the host built, when the JSON
  library prints a non-empty text that it parses back.
\<close>

theorem plugin_ctx_round_trip:
  assumes "\<And>v. json_from_str J (json_to_string J v) = Some v" and "\<And>v. json_to_string J v \<noteq> []"
  shows "PluginCtx_from J (RPluginCtx_from J ctx) = ctx"
  using assms
  by (cases ctx) (auto simp: PluginCtx_from_def RPluginCtx_from_def Let_def split: option.splits)

definition demo_json :: "bool json_lib" where
  "demo_json =
     \<lparr>json_null = False, json_to_string = (\<lambda>b. if b then ''true'' else ''null''),
      json_from_str = (\<lambda>s. Some (s = ''true''))\<rparr>"

theorem plugin_ctx_round_trip_witness:
  "PluginCtx_from demo_json (RPluginCtx_from demo_json \<lparr>ctx_sysroot = Some ''/tmp'', ctx_config = True\<rparr>)
   = \<lparr>ctx_sysroot = Some ''/tmp'', ctx_config = True\<rparr>"
  by (rule plugin_ctx_round_trip) (simp_all add: demo_json_def)

end
