(* ===== verification/Plugin_Host.thy ===== *)
theory Plugin_Host
  imports Mirror
begin

text \<open>
  The plugin host of \<^verbatim>\<open>apps/linsightd/src/plugin_host.rs\<close>: registration of built-in and dynamic
  plugins, the sensor registry, sampling through the owning plugin, and the
  \<^verbatim>\<open>pci.ids\<close> database of \<^verbatim>\<open>linsight-plugin-sdk/src/pciids.rs\<close>. The dynamic linker is a parameter
  (a record of what it answers), as are the directory listing and \<^verbatim>\<open>canonicalize\<close>. Operations
  that shut a plugin down and drop it return the plugins they dropped beside the new state.
\<close>

section \<open>State\<close>

record PluginMeta =
  pm_plugin_id :: string
  pm_display_name :: string
  pm_version :: string

record ('p, 'l) PluginEntry =
  pe_plugin :: 'p
  pe_library :: "'l option"
  pe_meta :: PluginMeta
  pe_sensor_count :: u32
  pe_devices :: "HardwareDevice list"
  pe_sensors :: "SensorDescriptor list"

type_synonym registry = "(SensorId \<times> nat \<times> SensorDescriptor) list"

record ('p, 'l) PluginHost =
  ph_plugins :: "('p, 'l) PluginEntry list"
  ph_registry :: registry

section \<open>Registration\<close>

text \<open>The sensor loop of \<^verbatim>\<open>finish_register\<close>: the registry, the accepted descriptors, their number.\<close>

fun register_sensors ::
    "nat \<Rightarrow> SensorDescriptor list \<Rightarrow> registry \<Rightarrow> SensorDescriptor list \<Rightarrow> u32 \<Rightarrow>
     registry \<times> SensorDescriptor list \<times> u32" where
  "register_sensors idx [] reg sensors accepted = (reg, sensors, accepted)"
| "register_sensors idx (desc # ds) reg sensors accepted =
     (if hm_contains reg (d_id desc) then register_sensors idx ds reg sensors accepted
      else register_sensors idx ds (AList.update (d_id desc) (idx, desc) reg)
             (sensors @ [desc]) (accepted + 1))"

definition finish_register ::
    "'p LinsightPlugin \<Rightarrow> 'p \<Rightarrow> 'l option \<Rightarrow> PluginManifest \<Rightarrow> ('p, 'l) PluginHost \<Rightarrow>
     ('p, 'l) PluginHost \<times> 'p list" where
  "finish_register P plugin library manifest h =
     (if list_ex (\<lambda>e. pm_plugin_id (pe_meta e) = m_plugin_id manifest) (ph_plugins h)
      then (h, [plugin_shutdown P plugin])
      else
        let idx = length (ph_plugins h);
            meta = \<lparr>pm_plugin_id = m_plugin_id manifest, pm_display_name = m_display_name manifest,
                    pm_version = m_version manifest\<rparr>;
            (reg, sensors, accepted) = register_sensors idx (m_sensors manifest) (ph_registry h) [] 0
        in (\<lparr>ph_plugins = ph_plugins h @
               [\<lparr>pe_plugin = plugin, pe_library = library, pe_meta = meta, pe_sensor_count = accepted,
                 pe_devices = m_devices manifest, pe_sensors = sensors\<rparr>],
             ph_registry = reg\<rparr>, []))"

definition register_with_config_checked ::
    "'j json_lib \<Rightarrow> 'p LinsightPlugin \<Rightarrow> 'p \<Rightarrow> 'l option \<Rightarrow> 'j \<Rightarrow> string option \<Rightarrow>
     ('p, 'l) PluginHost \<Rightarrow> (('p, 'l) PluginHost \<times> 'p list) exec" where
  "register_with_config_checked J P plugin library config expected h =
     (case host_init J P plugin (with_config (PluginCtx_default J) config) of
        (Panics, _) \<Rightarrow> Panics
      | (Returns (Err _), p') \<Rightarrow> Returns (h, [p'])
      | (Returns (Ok manifest), p') \<Rightarrow>
          if expected \<noteq> None \<and> expected \<noteq> Some (m_plugin_id manifest)
          then Returns (h, [plugin_shutdown P p'])
          else Returns (finish_register P p' library manifest h))"

definition register_with_config ::
    "'j json_lib \<Rightarrow> 'p LinsightPlugin \<Rightarrow> 'p \<Rightarrow> 'l option \<Rightarrow> 'j \<Rightarrow>
     ('p, 'l) PluginHost \<Rightarrow> (('p, 'l) PluginHost \<times> 'p list) exec" where
  "register_with_config J P plugin library config h =
     register_with_config_checked J P plugin library config None h"

definition config_or_null :: "'j json_lib \<Rightarrow> (string \<times> 'j) list \<Rightarrow> string \<Rightarrow> 'j" where
  "config_or_null J configs pid =
     (case map_of configs pid of None \<Rightarrow> json_null J | Some c \<Rightarrow> c)"

text \<open>The built-in plugins, in registration order, by the id under which they are configured.\<close>

definition BUILTINS :: "string list" where
  "BUILTINS =
     [''linsight-sensors-cpu'', ''linsight-sensors-amdgpu'', ''linsight-sensors-mem'',
      ''linsight-sensors-xe'', ''linsight-sensors-system'', ''linsight-sensors-disk'',
      ''linsight-sensors-hwmon'', ''linsight-sensors-fs'', ''linsight-sensors-nvml'',
      ''linsight-sensors-nvme'', ''linsight-sensors-net'', ''linsight-sensors-proc'',
      ''linsight-sensors-zram'', ''linsight-sensors-i915'', ''linsight-sensors-systemd'',
      ''linsight-sensors-sock'', ''linsight-sensors-containers'', ''linsight-sensors-smart'']"

fun exec_fold :: "('a \<Rightarrow> 's \<Rightarrow> ('s \<times> 'd list) exec) \<Rightarrow> 'a list \<Rightarrow> 's \<Rightarrow> ('s \<times> 'd list) exec" where
  "exec_fold f [] s = Returns (s, [])"
| "exec_fold f (x # xs) s =
     exec_bind (f x s) (\<lambda>(s1, d1). exec_bind (exec_fold f xs s1) (\<lambda>(s2, d2). Returns (s2, d1 @ d2)))"

definition with_builtins_and_config ::
    "'j json_lib \<Rightarrow> 'p LinsightPlugin \<Rightarrow> (string \<Rightarrow> 'p) \<Rightarrow> (string \<times> 'j) list \<Rightarrow>
     (('p, 'l) PluginHost \<times> 'p list) exec" where
  "with_builtins_and_config J P default_of configs =
     exec_fold (\<lambda>pid. register_with_config J P (default_of pid) None (config_or_null J configs pid))
       BUILTINS \<lparr>ph_plugins = [], ph_registry = []\<rparr>"

section \<open>Dynamic loading\<close>

definition LINSIGHT_PLUGIN_ABI_VERSION :: u32 where
  "LINSIGHT_PLUGIN_ABI_VERSION = 6"

text \<open>What the dynamic linker answers: opening a file, the symbols of a library.\<close>

record ('p, 'l) linker =
  dl_open :: "string \<Rightarrow> ('l, string) result"
  dl_abi_version :: "'l \<Rightarrow> (u32, string) result"
  dl_has_metadata :: "'l \<Rightarrow> bool"
  dl_metadata :: "'l \<Rightarrow> (RPluginMetadata, string) result"
  dl_factory :: "'l \<Rightarrow> ('p, string) result"

definition load_metadata :: "('p, 'l) linker \<Rightarrow> 'l \<Rightarrow> (PluginMetadata option, string) result" where
  "load_metadata D library =
     (if \<not> dl_has_metadata D library then Ok None
      else case dl_metadata D library of
             Err e \<Rightarrow> Err (''stabbied metadata symbol load failed: '' @ e)
           | Ok m \<Rightarrow> Ok (Some (PluginMetadata_from m)))"

definition load_one :: "('p, 'l) linker \<Rightarrow> string \<Rightarrow> ('l \<times> PluginMetadata option, string) result" where
  "load_one D path =
     (case dl_open D path of
        Err e \<Rightarrow> Err (''dlopen: '' @ e)
      | Ok library \<Rightarrow>
          (case dl_abi_version D library of
             Err e \<Rightarrow> Err (''missing linsight_plugin_abi_version: '' @ e)
           | Ok version \<Rightarrow>
               if version \<noteq> LINSIGHT_PLUGIN_ABI_VERSION
               then Err (''ABI mismatch: plugin reports v'' @ show_nat (unat version)
                      @ '', daemon expects v'' @ show_nat (unat LINSIGHT_PLUGIN_ABI_VERSION)
                      @ ''; rebuild the plugin against linsight-plugin-sdk v''
                      @ show_nat (unat LINSIGHT_PLUGIN_ABI_VERSION))
               else case load_metadata D library of
                      Err e \<Rightarrow> Err e
                    | Ok metadata \<Rightarrow> Ok (library, metadata)))"

definition instantiate :: "('p, 'l) linker \<Rightarrow> 'l \<Rightarrow> ('p, string) result" where
  "instantiate D library =
     result_map_err (\<lambda>e. ''stabbied symbol load failed: '' @ e) (dl_factory D library)"

text \<open>\<^verbatim>\<open>Path::extension\<close> of a file name (a directory entry, so no separators).\<close>

definition path_extension :: "string \<Rightarrow> string option" where
  "path_extension name =
     (let ext = rev (takeWhile (\<lambda>c. c \<noteq> CHR ''.'') (rev name))
      in if name = ''..'' \<or> CHR ''.'' \<notin> set name \<or> length name = Suc (length ext) then None
         else Some ext)"

text \<open>One directory entry of \<^verbatim>\<open>load_from_dir\<close>, after the \<^verbatim>\<open>.so\<close> filter.\<close>

definition load_file ::
    "'j json_lib \<Rightarrow> 'p LinsightPlugin \<Rightarrow> ('p, 'l) linker \<Rightarrow> (string \<Rightarrow> string option) \<Rightarrow>
     (string \<times> 'j) list \<Rightarrow> string \<Rightarrow> ('p, 'l) PluginHost \<Rightarrow> (('p, 'l) PluginHost \<times> 'p list) exec" where
  "load_file J P D canonicalize configs path0 h =
     (case canonicalize path0 of
        None \<Rightarrow> Returns (h, [])
      | Some path \<Rightarrow>
          (case load_one D path of
             Err _ \<Rightarrow> Returns (h, [])
           | Ok (library, Some metadata) \<Rightarrow>
               (case instantiate D library of
                  Err _ \<Rightarrow> Returns (h, [])
                | Ok plugin \<Rightarrow>
                    register_with_config_checked J P plugin (Some library)
                      (config_or_null J configs (md_plugin_id metadata))
                      (Some (md_plugin_id metadata)) h)
           | Ok (library, None) \<Rightarrow>
               (case instantiate D library of
                  Err _ \<Rightarrow> Returns (h, [])
                | Ok plugin \<Rightarrow>
                    (case host_init J P plugin (PluginCtx_default J) of
                       (Panics, _) \<Rightarrow> Panics
                     | (Returns (Err _), p') \<Rightarrow> Returns (h, [p'])
                     | (Returns (Ok probe), p') \<Rightarrow>
                         (case map_of configs (m_plugin_id probe) of
                            None \<Rightarrow> Returns (finish_register P p' (Some library) probe h)
                          | Some config \<Rightarrow>
                              if config = json_null J
                              then Returns (finish_register P p' (Some library) probe h)
                              else
                                (case instantiate D library of
                                   Err _ \<Rightarrow> Returns (h, [plugin_shutdown P p'])
                                 | Ok configured \<Rightarrow>
                                     exec_bind (register_with_config J P configured (Some library) config h)
                                       (\<lambda>(h', dropped). Returns (h', plugin_shutdown P p' # dropped))))))))"

definition load_from_dir ::
    "'j json_lib \<Rightarrow> 'p LinsightPlugin \<Rightarrow> ('p, 'l) linker \<Rightarrow> (string \<Rightarrow> string option) \<Rightarrow>
     (string \<Rightarrow> string list option) \<Rightarrow> (string \<times> 'j) list \<Rightarrow> string \<Rightarrow>
     ('p, 'l) PluginHost \<Rightarrow> (('p, 'l) PluginHost \<times> 'p list) exec" where
  "load_from_dir J P D canonicalize read_dir configs dir h =
     (case read_dir dir of
        None \<Rightarrow> Returns (h, [])
      | Some names \<Rightarrow>
          exec_fold (\<lambda>name. load_file J P D canonicalize configs (path_join dir name))
            (filter (\<lambda>name. path_extension name = Some ''so'') names) h)"

definition plugin_dirs :: "string option \<Rightarrow> string option \<Rightarrow> string list" where
  "plugin_dirs xdg_data_home home =
     [''/usr/lib/linsight/plugins'', ''/usr/local/lib/linsight/plugins'']
     @ (case xdg_data_home of
          Some xdg \<Rightarrow> [path_join xdg ''linsight/plugins'']
        | None \<Rightarrow>
            (case home of
               Some h \<Rightarrow> [path_join h ''.local/share/linsight/plugins'']
             | None \<Rightarrow> []))"

definition load_dynamic_plugins ::
    "'j json_lib \<Rightarrow> 'p LinsightPlugin \<Rightarrow> ('p, 'l) linker \<Rightarrow> (string \<Rightarrow> string option) \<Rightarrow>
     (string \<Rightarrow> string list option) \<Rightarrow> (string \<times> 'j) list \<Rightarrow> string list \<Rightarrow>
     ('p, 'l) PluginHost \<Rightarrow> (('p, 'l) PluginHost \<times> 'p list) exec" where
  "load_dynamic_plugins J P D canonicalize read_dir configs dirs h =
     exec_fold (load_from_dir J P D canonicalize read_dir configs) dirs h"

section \<open>Queries and sampling\<close>

definition host_descriptors :: "('p, 'l) PluginHost \<Rightarrow> SensorDescriptor list" where
  "host_descriptors h = map (\<lambda>(_, _, d). d) (ph_registry h)"

definition host_plugins :: "('p, 'l) PluginHost \<Rightarrow> (PluginMeta \<times> u32) list" where
  "host_plugins h = map (\<lambda>e. (pe_meta e, pe_sensor_count e)) (ph_plugins h)"

text \<open>Indexing \<^verbatim>\<open>self.plugins[*idx]\<close> out of range is \<open>Panics\<close>.\<close>

definition plugin_id_for :: "('p, 'l) PluginHost \<Rightarrow> SensorId \<Rightarrow> string option exec" where
  "plugin_id_for h i =
     (case map_of (ph_registry h) i of
        None \<Rightarrow> Returns None
      | Some (idx, _) \<Rightarrow>
          if idx < length (ph_plugins h)
          then Returns (Some (pm_plugin_id (pe_meta (ph_plugins h ! idx))))
          else Panics)"

definition devices_by_plugin ::
    "('p, 'l) PluginHost \<Rightarrow> (string \<times> HardwareDevice list \<times> SensorDescriptor list) list" where
  "devices_by_plugin h =
     map (\<lambda>e. (pm_plugin_id (pe_meta e), pe_devices e, pe_sensors e)) (ph_plugins h)"

definition sample_to ::
    "'p LinsightPlugin \<Rightarrow> SensorId \<Rightarrow> u64 \<Rightarrow> ('p, 'l) PluginHost \<Rightarrow>
     ((Sample, PluginError) result \<times> ('p, 'l) PluginHost) exec" where
  "sample_to P i ts_micros h =
     (case map_of (ph_registry h) i of
        None \<Rightarrow> Returns (Err (Unsupported i), h)
      | Some (idx, _) \<Rightarrow>
          if idx < length (ph_plugins h)
          then (let e = ph_plugins h ! idx
                in case host_sample P (pe_plugin e) i of
                     (Panics, _) \<Rightarrow> Panics
                   | (Returns r, p') \<Rightarrow>
                       Returns
                         (case r of
                            Err x \<Rightarrow> Err x
                          | Ok reading \<Rightarrow> Ok \<lparr>sample_sensor = i, sample_ts_micros = ts_micros,
                              sample_reading = reading\<rparr>,
                          h\<lparr>ph_plugins := (ph_plugins h)[idx := e\<lparr>pe_plugin := p'\<rparr>]\<rparr>))
          else Panics)"

definition PluginHost_drop :: "'p LinsightPlugin \<Rightarrow> ('p, 'l) PluginHost \<Rightarrow> 'p list" where
  "PluginHost_drop P h = map (\<lambda>e. plugin_shutdown P (pe_plugin e)) (ph_plugins h)"

section \<open>The PCI id database (pciids.rs)\<close>

record PciIdDb =
  pci_vendors :: "(u16 \<times> string) list"
  pci_devices :: "((u16 \<times> u16) \<times> string) list"

text \<open>\<^verbatim>\<open>splitn(2, char::is_whitespace)\<close>: the first field and the trimmed rest, empty when absent.\<close>

definition id_and_name :: "string \<Rightarrow> string \<times> string" where
  "id_and_name s =
     (takeWhile (\<lambda>c. \<not> is_whitespace c) s, trim (tl (dropWhile (\<lambda>c. \<not> is_whitespace c) s)))"

definition pci_line :: "string \<Rightarrow> PciIdDb \<times> u16 option \<Rightarrow> PciIdDb \<times> u16 option" where
  "pci_line line st =
     (let (db, current_vendor) = st
      in if starts_with ''#'' line \<or> trim line = [] then st
         else if starts_with [CHR 0x09, CHR 0x09] line then st
         else case strip_prefix [CHR 0x09] line of
                Some rest \<Rightarrow>
                  (case current_vendor of
                     None \<Rightarrow> st
                   | Some vendor \<Rightarrow>
                       (let (dev_hex, name) = id_and_name rest
                        in case parse_hex_u16 dev_hex of
                             None \<Rightarrow> st
                           | Some dev \<Rightarrow>
                               (db\<lparr>pci_devices := AList.update (vendor, dev) name (pci_devices db)\<rparr>,
                                current_vendor)))
              | None \<Rightarrow>
                  (let (vendor_hex, name) = id_and_name line
                   in case parse_hex_u16 vendor_hex of
                        None \<Rightarrow> (db, None)
                      | Some v \<Rightarrow>
                          (db\<lparr>pci_vendors := AList.update v name (pci_vendors db)\<rparr>, Some v)))"

definition PciIdDb_parse :: "string \<Rightarrow> PciIdDb" where
  "PciIdDb_parse text = fst (fold pci_line (str_lines text) (\<lparr>pci_vendors = [], pci_devices = []\<rparr>, None))"

definition pci_lookup :: "PciIdDb \<Rightarrow> u16 \<Rightarrow> u16 \<Rightarrow> string option" where
  "pci_lookup db vendor device = map_of (pci_devices db) (vendor, device)"

definition pci_vendor_name :: "PciIdDb \<Rightarrow> u16 \<Rightarrow> string option" where
  "pci_vendor_name db vendor = map_of (pci_vendors db) vendor"

definition PciIdDb_load_default :: "(string \<Rightarrow> string option) \<Rightarrow> PciIdDb" where
  "PciIdDb_load_default read_file =
     (case read_file ''/usr/share/hwdata/pci.ids'' of
        Some text \<Rightarrow> PciIdDb_parse text
      | None \<Rightarrow>
          (case read_file ''/usr/share/misc/pci.ids'' of
             Some text \<Rightarrow> PciIdDb_parse text
           | None \<Rightarrow> \<lparr>pci_vendors = [], pci_devices = []\<rparr>))"

definition pci_inv :: "PciIdDb \<times> u16 option \<Rightarrow> bool" where
  "pci_inv st \<longleftrightarrow>
     (\<forall>v d n. map_of (pci_devices (fst st)) (v, d) = Some n \<longrightarrow> map_of (pci_vendors (fst st)) v \<noteq> None)
     \<and> (\<forall>v. snd st = Some v \<longrightarrow> map_of (pci_vendors (fst st)) v \<noteq> None)"

lemma pci_line_cases:
  obtains (skip) "pci_line line (db, cv) = (db, cv)" | (reset) "pci_line line (db, cv) = (db, None)"
  | (device) v d n where "cv = Some v"
      "pci_line line (db, cv) = (db\<lparr>pci_devices := AList.update (v, d) n (pci_devices db)\<rparr>, cv)"
  | (vendor) v n where
      "pci_line line (db, cv) = (db\<lparr>pci_vendors := AList.update v n (pci_vendors db)\<rparr>, Some v)"
proof (cases "starts_with ''#'' line \<or> trim line = [] \<or> starts_with [CHR 0x09, CHR 0x09] line")
  case True
  with skip show thesis by (auto simp: pci_line_def)
next
  case False
  obtain h n where f: "id_and_name line = (h, n)" by (cases "id_and_name line")
  show thesis
  proof (cases "strip_prefix [CHR 0x09] line")
    case None
    with False f reset vendor show thesis
      by (cases "parse_hex_u16 h") (auto simp: pci_line_def)
  next
    case (Some rest)
    obtain h' n' where "id_and_name rest = (h', n')" by (cases "id_and_name rest")
    with False Some skip device show thesis
      by (cases cv; cases "parse_hex_u16 h'") (auto simp: pci_line_def)
  qed
qed

lemma pci_line_inv: "pci_inv st \<Longrightarrow> pci_inv (pci_line line st)"
proof (cases st)
  case (Pair db cv)
  assume "pci_inv st"
  with Pair show ?thesis
    by (cases rule: pci_line_cases [where line = line and db = db and cv = cv])
      (auto simp: pci_inv_def hm.get_ins split: if_splits)
qed

text \<open>
  C33: In a parsed \<^verbatim>\<open>pci.ids\<close> database every device belongs to a vendor the database knows,
  whatever the text: a device line under a malformed vendor line is dropped instead of being
  attached to the previous vendor.
\<close>

theorem pci_devices_have_vendor:
  "pci_lookup (PciIdDb_parse text) v d = Some n \<Longrightarrow> pci_vendor_name (PciIdDb_parse text) v \<noteq> None"
proof -
  have "pci_inv (fold pci_line ls st)" if "pci_inv st" for ls st
    using that by (induction ls arbitrary: st) (simp_all add: pci_line_inv)
  moreover have "pci_inv (\<lparr>pci_vendors = [], pci_devices = []\<rparr>, None)" by (simp add: pci_inv_def)
  ultimately show "pci_lookup (PciIdDb_parse text) v d = Some n \<Longrightarrow>
      pci_vendor_name (PciIdDb_parse text) v \<noteq> None"
    unfolding PciIdDb_parse_def pci_lookup_def pci_vendor_name_def by (meson pci_inv_def)
qed

definition demo_pci_ids :: string where
  "demo_pci_ids = ''8086  Intel'' @ [CHR 0x0A, CHR 0x09] @ ''e223  Battlemage'' @ [CHR 0x0A]"

theorem pci_devices_have_vendor_witness:
  "pci_vendor_name (PciIdDb_parse demo_pci_ids) 32902 \<noteq> None"
proof (rule pci_devices_have_vendor)
  show "pci_lookup (PciIdDb_parse demo_pci_ids) 32902 57891 = Some ''Battlemage''" by code_simp
qed

section \<open>The host invariant\<close>

text \<open>
  The registry and the per-plugin vectors describe the same sensors: an id is registered to
  an index and a descriptor exactly when that plugin's vector holds the descriptor.
\<close>

definition wf_entry :: "('p, 'l) PluginEntry \<Rightarrow> bool" where
  "wf_entry e \<longleftrightarrow>
     pe_sensor_count e = of_nat (length (pe_sensors e)) \<and> distinct (map d_id (pe_sensors e))
     \<and> (\<forall>d \<in> set (pe_devices e). device_ok d) \<and> distinct (map dev_key (pe_devices e))
     \<and> (\<forall>s \<in> set (pe_sensors e). \<forall>k. d_device_key s = Some k \<longrightarrow> k \<in> dev_key ` set (pe_devices e))"

definition wf_host :: "('p, 'l) PluginHost \<Rightarrow> bool" where
  "wf_host h \<longleftrightarrow>
     distinct (map (\<lambda>e. pm_plugin_id (pe_meta e)) (ph_plugins h))
     \<and> distinct (map fst (ph_registry h))
     \<and> (\<forall>e \<in> set (ph_plugins h). wf_entry e)
     \<and> (\<forall>i idx d. map_of (ph_registry h) i = Some (idx, d) \<longleftrightarrow>
          idx < length (ph_plugins h) \<and> d \<in> set (pe_sensors (ph_plugins h ! idx)) \<and> d_id d = i)"

lemma wf_host_empty: "wf_host \<lparr>ph_plugins = [], ph_registry = []\<rparr>"
  by (simp add: wf_host_def)

fun first_wins :: "registry \<Rightarrow> nat \<Rightarrow> SensorDescriptor list \<Rightarrow> SensorDescriptor list" where
  "first_wins reg idx [] = []"
| "first_wins reg idx (d # ds) =
     (if hm_contains reg (d_id d) then first_wins reg idx ds
      else d # first_wins (AList.update (d_id d) (idx, d) reg) idx ds)"

lemma register_sensors_indep:
  "fst (register_sensors idx ds reg out n) = fst (register_sensors idx ds reg out' n')"
  by (induction ds arbitrary: reg out n out' n') simp_all

lemma register_sensors_eq:
  "register_sensors idx ds reg out n =
     (fst (register_sensors idx ds reg [] 0), out @ first_wins reg idx ds,
      n + of_nat (length (first_wins reg idx ds)))"
proof (induction ds arbitrary: reg out n)
  case (Cons d ds)
  show ?case
  proof (cases "hm_contains reg (d_id d)")
    case True
    then show ?thesis using Cons.IH [of reg out n] by simp
  next
    case False
    let ?r = "AList.update (d_id d) (idx, d) reg"
    show ?thesis
      using False Cons.IH [of ?r "out @ [d]" "n + 1"] register_sensors_indep [of idx ds ?r "[]" 0 "[d]" 1]
      by (simp add: algebra_simps)
  qed
qed simp

lemma register_sensors_map:
  "map_of (fst (register_sensors idx ds reg out n)) i =
     (case map_of reg i of
        Some x \<Rightarrow> Some x
      | None \<Rightarrow> map_option (Pair idx) (find (\<lambda>d. d_id d = i) ds))"
  by (induction idx ds reg out n rule: register_sensors.induct)
    (auto simp: hm_contains_def hm.get_ins split: option.splits)

lemma register_sensors_distinct:
  "distinct (map fst reg) \<Longrightarrow> distinct (map fst (fst (register_sensors idx ds reg out n)))"
  by (induction idx ds reg out n rule: register_sensors.induct) (simp_all add: hm.wf_ins)

lemma set_first_wins:
  "d \<in> set (first_wins reg idx ds) \<longleftrightarrow>
     map_of reg (d_id d) = None \<and> find (\<lambda>x. d_id x = d_id d) ds = Some d"
proof (induction ds arbitrary: reg)
  case (Cons x ds)
  show ?case
  proof (cases "hm_contains reg (d_id x)")
    case True
    then show ?thesis using Cons.IH [of reg] by (auto simp: hm_contains_def)
  next
    case False
    then have "map_of reg (d_id x) = None" unfolding hm_contains_def by blast
    then show ?thesis
      using False Cons.IH [of "AList.update (d_id x) (idx, x) reg"] by (auto simp: hm.get_ins)
  qed
qed simp

lemma distinct_first_wins: "distinct (map d_id (first_wins reg idx ds))"
proof (induction ds arbitrary: reg)
  case (Cons x ds)
  then show ?case by (auto simp: set_first_wins hm.get_ins)
qed simp

lemma first_wins_subset: "set (first_wins reg idx ds) \<subseteq> set ds"
  by (auto simp: set_first_wins dest: find_SomeD)

lemma finish_register_new:
  assumes "m_plugin_id m \<notin> (\<lambda>e. pm_plugin_id (pe_meta e)) ` set (ph_plugins h)"
  shows "finish_register P p l m h =
    (\<lparr>ph_plugins = ph_plugins h @
        [\<lparr>pe_plugin = p, pe_library = l,
          pe_meta = \<lparr>pm_plugin_id = m_plugin_id m, pm_display_name = m_display_name m,
            pm_version = m_version m\<rparr>,
          pe_sensor_count = of_nat (length (first_wins (ph_registry h) (length (ph_plugins h)) (m_sensors m))),
          pe_devices = m_devices m,
          pe_sensors = first_wins (ph_registry h) (length (ph_plugins h)) (m_sensors m)\<rparr>],
      ph_registry = fst (register_sensors (length (ph_plugins h)) (m_sensors m) (ph_registry h) [] 0)\<rparr>, [])"
proof -
  have "\<not> list_ex (\<lambda>e. pm_plugin_id (pe_meta e) = m_plugin_id m) (ph_plugins h)"
    using assms unfolding list_ex_iff image_iff by metis
  then show ?thesis
    using register_sensors_eq [of "length (ph_plugins h)" "m_sensors m" "ph_registry h" "[]" 0]
    by (cases "register_sensors (length (ph_plugins h)) (m_sensors m) (ph_registry h) [] 0")
      (simp add: finish_register_def Let_def)
qed

lemma finish_register_known:
  "m_plugin_id m \<in> (\<lambda>e. pm_plugin_id (pe_meta e)) ` set (ph_plugins h) \<Longrightarrow>
   finish_register P p l m h = (h, [plugin_shutdown P p])"
  by (auto simp: finish_register_def list_ex_iff)

lemma wf_host_finish_register:
  assumes h: "wf_host h" and m: "wf_manifest m"
  shows "wf_host (fst (finish_register P p l m h))"
proof (cases "m_plugin_id m \<in> (\<lambda>e. pm_plugin_id (pe_meta e)) ` set (ph_plugins h)")
  case True
  then show ?thesis using h by (simp add: finish_register_known)
next
  case False
  let ?n = "length (ph_plugins h)" and ?reg = "ph_registry h"
  let ?new = "first_wins ?reg ?n (m_sensors m)"
  let ?reg' = "fst (register_sensors ?n (m_sensors m) ?reg [] 0)"
  have reg: "map_of ?reg i = Some (idx, d) \<longleftrightarrow>
      idx < ?n \<and> d \<in> set (pe_sensors (ph_plugins h ! idx)) \<and> d_id d = i" for i idx d
    using h by (simp add: wf_host_def)
  have new: "d \<in> set ?new \<and> d_id d = i \<longleftrightarrow> map_of ?reg i = None \<and> find (\<lambda>x. d_id x = i) (m_sensors m) = Some d"
    for d i using set_first_wins [of d ?reg ?n "m_sensors m"] by (auto dest: find_SomeD)
  let ?e = "\<lparr>pe_plugin = p, pe_library = l,
      pe_meta = \<lparr>pm_plugin_id = m_plugin_id m, pm_display_name = m_display_name m, pm_version = m_version m\<rparr>,
      pe_sensor_count = of_nat (length ?new), pe_devices = m_devices m, pe_sensors = ?new\<rparr>"
  have fr: "fst (finish_register P p l m h) = \<lparr>ph_plugins = ph_plugins h @ [?e], ph_registry = ?reg'\<rparr>"
    by (simp add: finish_register_new [OF False])
  have map: "map_of ?reg' i = Some (idx, d) \<longleftrightarrow>
      (idx < ?n \<and> d \<in> set (pe_sensors (ph_plugins h ! idx)) \<and> d_id d = i)
      \<or> (idx = ?n \<and> d \<in> set ?new \<and> d_id d = i)" for i idx d
    unfolding new reg [symmetric] by (auto simp: register_sensors_map split: option.splits)
  have "\<forall>s \<in> set ?new. \<forall>k. d_device_key s = Some k \<longrightarrow> k \<in> dev_key ` set (m_devices m)"
    using m first_wins_subset unfolding wf_manifest_def by blast
  then have "wf_entry ?e" using m by (simp add: wf_entry_def wf_manifest_def distinct_first_wins)
  moreover have "distinct (map fst ?reg')" using h by (simp add: wf_host_def register_sensors_distinct)
  moreover have "distinct (map (\<lambda>e. pm_plugin_id (pe_meta e)) (ph_plugins h @ [?e]))"
    using h False by (simp add: wf_host_def)
  moreover have "idx < length (ph_plugins h @ [?e]) \<and> d \<in> set (pe_sensors ((ph_plugins h @ [?e]) ! idx)) \<and> d_id d = i
      \<longleftrightarrow> map_of ?reg' i = Some (idx, d)" for i idx d
    unfolding map by (cases "idx = ?n") (simp_all add: nth_append)
  ultimately show ?thesis
    using h unfolding fr wf_host_def by auto
qed

section \<open>Loading keeps the invariant\<close>

lemma exec_fold_inv:
  assumes "\<And>x s. I s \<Longrightarrow> \<exists>s' d. f x s = Returns (s', d) \<and> I s'" and "I s"
  shows "\<exists>s' d. exec_fold f xs s = Returns (s', d) \<and> I s'"
  using assms(2)
proof (induction xs arbitrary: s)
  case (Cons x xs)
  obtain s1 d1 where "f x s = Returns (s1, d1)" "I s1" using assms(1) Cons.prems by blast
  moreover then obtain s2 d2 where "exec_fold f xs s1 = Returns (s2, d2)" "I s2" using Cons.IH by blast
  ultimately show ?case by simp
qed simp

text \<open>Registration steps return and keep the invariant; the names are for the steps composed below.\<close>

definition keeps :: "(('p, 'l) PluginHost \<Rightarrow> (('p, 'l) PluginHost \<times> 'p list) exec) \<Rightarrow> bool" where
  "keeps f \<longleftrightarrow> (\<forall>h. wf_host h \<longrightarrow> (\<exists>h' dropped. f h = Returns (h', dropped) \<and> wf_host h'))"

lemma keepsI: "(\<And>h. wf_host h \<Longrightarrow> \<exists>h' dropped. f h = Returns (h', dropped) \<and> wf_host h') \<Longrightarrow> keeps f"
  by (simp add: keeps_def)

lemma keepsD: "keeps f \<Longrightarrow> wf_host h \<Longrightarrow> \<exists>h' dropped. f h = Returns (h', dropped) \<and> wf_host h'"
  by (simp add: keeps_def)

lemma keeps_return: "keeps (\<lambda>h. Returns (h, d))"
  by (simp add: keeps_def)

lemma keeps_finish: "wf_manifest m \<Longrightarrow> keeps (\<lambda>h. Returns (finish_register P p l m h))"
  by (intro keepsI) (metis prod.collapse wf_host_finish_register)

lemma host_init_cases:
  obtains (ok) m p' where "host_init J P p ctx = (Returns (Ok m), p')" "wf_manifest m"
  | (err) e p' where "host_init J P p ctx = (Returns (Err e), p')"
proof -
  obtain r p' where "host_init J P p ctx = (Returns r, p')" "case r of Ok m \<Rightarrow> wf_manifest m | Err _ \<Rightarrow> True"
    using host_init_returns [of J P p ctx] by blast
  then show thesis using ok err by (cases r) auto
qed

lemma keeps_register: "keeps (register_with_config_checked J P p l c x)"
proof (cases rule: host_init_cases [where J = J and P = P and p = p and ctx = "with_config (PluginCtx_default J) c"])
  case (ok m p')
  then show ?thesis
    using keeps_finish [of m P p' l] keeps_return [of "[plugin_shutdown P p']"]
    by (cases "x = None \<or> x = Some (m_plugin_id m)")
      (auto simp: register_with_config_checked_def keeps_def)
next
  case (err e p')
  then show ?thesis by (simp add: register_with_config_checked_def keeps_def)
qed

lemma keeps_register': "keeps (register_with_config J P p l c)"
  using keeps_register [of J P p l c None] by (simp add: keeps_def register_with_config_def)

lemma keeps_register_then:
  "keeps (\<lambda>h. exec_bind (register_with_config J P p l c h) (\<lambda>(h', d). Returns (h', x # d)))"
proof (rule keepsI)
  fix h :: "('a, 'b) PluginHost" assume "wf_host h"
  then obtain h' d where "register_with_config J P p l c h = Returns (h', d)" "wf_host h'"
    using keepsD [OF keeps_register'] by metis
  then show "\<exists>h' dropped. exec_bind (register_with_config J P p l c h) (\<lambda>(h', d). Returns (h', x # d))
      = Returns (h', dropped) \<and> wf_host h'" by simp
qed

lemma keeps_load_file: "keeps (load_file J P D canon configs path)"
proof (cases "canon path")
  case None
  then show ?thesis by (simp add: load_file_def keeps_def)
next
  case (Some q)
  show ?thesis
  proof (cases "load_one D q")
    case (Err e)
    with Some show ?thesis by (simp add: load_file_def keeps_def)
  next
    case (Ok a)
    obtain lib md where a: "a = (lib, md)" by (cases a)
    show ?thesis
    proof (cases "instantiate D lib")
      case (Err e)
      with Some Ok a show ?thesis by (cases md) (simp_all add: load_file_def keeps_def)
    next
      case inst: (Ok pl)
      show ?thesis
      proof (cases md)
        case (Some m)
        with \<open>canon path = Some q\<close> Ok a inst have "load_file J P D canon configs path =
            register_with_config_checked J P pl (Some lib) (config_or_null J configs (md_plugin_id m))
              (Some (md_plugin_id m))" by (simp add: load_file_def fun_eq_iff)
        then show ?thesis by (simp add: keeps_register)
      next
        case None
        note st = \<open>canon path = Some q\<close> Ok a inst None
        show ?thesis
        proof (cases rule: host_init_cases [where J = J and P = P and p = pl and ctx = "PluginCtx_default J"])
          case (ok m p')
          show ?thesis
          proof (cases "map_of configs (m_plugin_id m) \<in> {None, Some (json_null J)}")
            case True
            with st ok have "load_file J P D canon configs path =
                (\<lambda>h. Returns (finish_register P p' (Some lib) m h))"
              by (auto simp: load_file_def fun_eq_iff)
            then show ?thesis using ok(2) by (simp add: keeps_finish)
          next
            case False
            then obtain y where "map_of configs (m_plugin_id m) = Some y" "y \<noteq> json_null J" by auto
            with st ok have "load_file J P D canon configs path =
                (\<lambda>h. exec_bind (register_with_config J P pl (Some lib) y h)
                   (\<lambda>(h', d). Returns (h', plugin_shutdown P p' # d)))"
              by (simp add: load_file_def fun_eq_iff)
            then show ?thesis by (simp add: keeps_register_then)
          qed
        next
          case (err e p')
          with st show ?thesis by (simp add: load_file_def keeps_def)
        qed
      qed
    qed
  qed
qed

lemma keeps_fold: "(\<And>x. keeps (f x)) \<Longrightarrow> keeps (exec_fold f xs)"
  unfolding keeps_def by (intro allI impI exec_fold_inv) auto

lemma keeps_load_from_dir: "keeps (load_from_dir J P D canon rd configs dir)"
proof (cases "rd dir")
  case None
  then show ?thesis by (simp add: load_from_dir_def keeps_def)
next
  case (Some names)
  then have "load_from_dir J P D canon rd configs dir =
      exec_fold (\<lambda>name. load_file J P D canon configs (path_join dir name))
        (filter (\<lambda>name. path_extension name = Some ''so'') names)"
    by (simp add: load_from_dir_def fun_eq_iff)
  then show ?thesis by (simp add: keeps_fold keeps_load_file)
qed


text \<open>
  The first registration of a sensor id wins: registering another plugin never changes
  the owner or the descriptor of a sensor that is already registered, and a plugin that
  reports an id in use is shut down and dropped with the host unchanged.
\<close>

theorem first_registration_wins:
  "finish_register P p l m h = (h', dropped) \<Longrightarrow>
     (map_of (ph_registry h) i = Some x \<longrightarrow> map_of (ph_registry h') i = Some x)
     \<and> (m_plugin_id m \<in> (\<lambda>e. pm_plugin_id (pe_meta e)) ` set (ph_plugins h) \<longrightarrow>
          h' = h \<and> dropped = [plugin_shutdown P p])"
proof (cases "m_plugin_id m \<in> (\<lambda>e. pm_plugin_id (pe_meta e)) ` set (ph_plugins h)")
  case True
  assume "finish_register P p l m h = (h', dropped)"
  with True show ?thesis by (simp add: finish_register_known)
next
  case False
  assume "finish_register P p l m h = (h', dropped)"
  with False have "ph_registry h' =
      fst (register_sensors (length (ph_plugins h)) (m_sensors m) (ph_registry h) [] 0)"
    by (auto simp: finish_register_new)
  with False show ?thesis by (simp add: register_sensors_map)
qed

theorem first_registration_wins_witness:
  "let h = fst (finish_register \<lparr>plugin_init = (\<lambda>p c. (Panics, p)), plugin_sample = (\<lambda>p i. (Panics, p)),
         plugin_shutdown = Suc\<rparr> 0 None demo_manifest \<lparr>ph_plugins = [], ph_registry = []\<rparr>) :: (nat, unit) PluginHost
   in finish_register \<lparr>plugin_init = (\<lambda>p c. (Panics, p)), plugin_sample = (\<lambda>p i. (Panics, p)),
         plugin_shutdown = Suc\<rparr> 7 None demo_manifest h = (h, [8])"
proof -
  let ?P = "\<lparr>plugin_init = (\<lambda>p c. (Panics, p)), plugin_sample = (\<lambda>p i. (Panics, p)), plugin_shutdown = Suc\<rparr>"
  let ?h = "fst (finish_register ?P 0 None demo_manifest \<lparr>ph_plugins = [], ph_registry = []\<rparr>) :: (nat, unit) PluginHost"
  obtain h' d where e: "finish_register ?P 7 None demo_manifest ?h = (h', d)" by (cases "finish_register ?P 7 None demo_manifest ?h")
  have "m_plugin_id demo_manifest \<in> (\<lambda>e. pm_plugin_id (pe_meta e)) ` set (ph_plugins ?h)"
    by (simp add: finish_register_new)
  with first_registration_wins [OF e] e show ?thesis by (simp add: Let_def)
qed

text \<open>Sampling on a consistent host, on every branch; the clients of the host rest on it.\<close>

lemma sample_to_total:
  assumes "wf_host h"
  shows "\<exists>r h'. sample_to P i ts h = Returns (r, h') \<and> wf_host h'
     \<and> (map_of (ph_registry h) i = None \<longrightarrow> r = Err (Unsupported i) \<and> h' = h)
     \<and> (\<forall>s. r = Ok s \<longrightarrow> sample_sensor s = i \<and> sample_ts_micros s = ts)"
proof (cases "map_of (ph_registry h) i")
  case None
  with assms show ?thesis by (simp add: sample_to_def)
next
  case (Some a)
  obtain idx d where a: "a = (idx, d)" by (cases a)
  with Some assms have idx: "idx < length (ph_plugins h)" by (simp add: wf_host_def)
  obtain r p' where hs: "host_sample P (pe_plugin (ph_plugins h ! idx)) i = (Returns r, p')"
    using host_sample_total [of P "pe_plugin (ph_plugins h ! idx)" i] by blast
  let ?h' = "h\<lparr>ph_plugins := (ph_plugins h)[idx := (ph_plugins h ! idx)\<lparr>pe_plugin := p'\<rparr>]\<rparr>"
  have m: "map f (ph_plugins ?h') = map f (ph_plugins h)" if "\<And>e x. f (e\<lparr>pe_plugin := x\<rparr>) = f e"
    for f :: "('a, 'b) PluginEntry \<Rightarrow> 'c"
    using idx that by (simp add: map_update list_update_same_conv)
  have n: "pe_sensors (ph_plugins ?h' ! k) = pe_sensors (ph_plugins h ! k)" for k
    by (cases "k = idx") (use idx in simp_all)
  have "wf_entry (e\<lparr>pe_plugin := x\<rparr>) = wf_entry e" for e :: "('a, 'b) PluginEntry" and x
    by (simp add: wf_entry_def)
  then have "\<forall>e \<in> set (ph_plugins ?h'). wf_entry e"
    using assms idx by (auto simp: wf_host_def dest!: set_update_subset_insert [THEN subsetD])
  with assms have "wf_host ?h'" using m [of "\<lambda>e. pm_plugin_id (pe_meta e)"] n by (simp add: wf_host_def)
  with Some a idx hs show ?thesis by (auto simp: sample_to_def Let_def split: result.splits)
qed

text \<open>
  C23: On a consistent host sampling never panics and never indexes out of range: an unknown
  sensor is the error \<^verbatim>\<open>Unsupported\<close> and touches no plugin; otherwise the plugin that owns the
  sensor is asked, a sample carries the requested id and timestamp, and the host stays
  consistent.
\<close>

theorem sample_to_safe:
  assumes "wf_host h"
  shows "\<exists>r h'. sample_to P i ts h = Returns (r, h') \<and> wf_host h'
     \<and> (map_of (ph_registry h) i = None \<longrightarrow> r = Err (Unsupported i) \<and> h' = h)
     \<and> (\<forall>s. r = Ok s \<longrightarrow> sample_sensor s = i \<and> sample_ts_micros s = ts)"
  using assms by (rule sample_to_total)

definition demo_host :: "(unit, unit) PluginHost" where
  "demo_host =
     fst (finish_register \<lparr>plugin_init = (\<lambda>p c. (Panics, p)), plugin_sample = (\<lambda>p i. (Panics, p)),
            plugin_shutdown = id\<rparr> () None demo_manifest \<lparr>ph_plugins = [], ph_registry = []\<rparr>)"

lemma demo_host_wf: "wf_host demo_host"
proof -
  have "wf_manifest demo_manifest"
    by (simp add: wf_manifest_def demo_manifest_def demo_descriptor_def demo_device_def device_ok_def
        demo_key_wf) code_simp
  then show ?thesis unfolding demo_host_def by (rule wf_host_finish_register [OF wf_host_empty])
qed

text \<open>A plugin that panics while it is sampled is an error value, and the host stays usable.\<close>

theorem sample_to_safe_witness:
  "\<exists>r h'. sample_to \<lparr>plugin_init = (\<lambda>p c. (Panics, p)), plugin_sample = (\<lambda>p i. (Panics, p)), plugin_shutdown = id\<rparr>
            ''xe.gpu0.util'' 5 demo_host = Returns (r, h') \<and> wf_host h'"
  using sample_to_safe [OF demo_host_wf, where i = "''xe.gpu0.util''" and ts = 5] by blast

end
