(* ===== verification/Registry.thy ===== *)
theory Registry
  imports Plugin_Host "HOL-Library.Multiset" "HOL-Library.Char_ord" "HOL-Library.List_Lexorder" "HOL-Library.Product_Lexorder"
begin

text \<open>
  The hardware registry of \<^verbatim>\<open>apps/linsightd/src/hardware.rs\<close>: built once from the manifests of
  the loaded plugins, then changed by nickname requests. Its four hash maps are association
  lists; the order in which a list holds its keys stands for the map's iteration order.
  Device keys are ASCII, so the byte order of their strings is the order of \<open>char list\<close>.
\<close>

section \<open>State and operations\<close>

fun category_rank :: "HardwareCategory \<Rightarrow> nat" where
  "category_rank HwCpu = 0"
| "category_rank HwGpu = 1"
| "category_rank HwStorage = 2"
| "category_rank HwNetwork = 3"
| "category_rank HwOther = 4"

datatype RegistryError = RegUnknownDevice string | RegInvalidNickname NicknameError

definition registry_error_to_string :: "RegistryError \<Rightarrow> string" where
  "registry_error_to_string e =
     (case e of
        RegUnknownDevice k \<Rightarrow> ''unknown hardware device: '' @ k
      | RegInvalidNickname n \<Rightarrow> ''invalid nickname: '' @ nickname_error_to_string n)"

record HardwareRegistry =
  reg_devices :: "(HardwareDeviceKey \<times> HardwareDevice) list"
  reg_by_plugin :: "(string \<times> (string \<times> HardwareDeviceKey) list) list"
  reg_nicknames :: "(HardwareDeviceKey \<times> string) list"
  reg_labels :: "(HardwareDeviceKey \<times> string) list"

type_synonym device_maps =
  "(HardwareDeviceKey \<times> HardwareDevice) list \<times> (string \<times> (string \<times> HardwareDeviceKey) list) list"

definition build_device :: "string \<Rightarrow> HardwareDevice \<Rightarrow> device_maps \<Rightarrow> device_maps" where
  "build_device pid dev maps =
     (let (devices, by_plugin) = maps
      in if hm_contains devices (dev_key dev) then maps
         else
           let device = dev\<lparr>dev_plugin_id := pid, dev_sensor_ids := []\<rparr>;
               inner = (case map_of by_plugin pid of None \<Rightarrow> [] | Some m \<Rightarrow> m)
           in (AList.update (dev_key device) device devices,
               AList.update pid (AList.update (dev_plugin_device_id device) (dev_key device) inner) by_plugin))"

definition build_sensor ::
    "SensorDescriptor \<Rightarrow> (HardwareDeviceKey \<times> HardwareDevice) list \<Rightarrow>
     (HardwareDeviceKey \<times> HardwareDevice) list" where
  "build_sensor s devices =
     (case d_device_key s of
        None \<Rightarrow> devices
      | Some key \<Rightarrow>
          (case map_of devices key of
             None \<Rightarrow> devices
           | Some dev \<Rightarrow>
               AList.update key (dev\<lparr>dev_sensor_ids := dev_sensor_ids dev @ [d_id s]\<rparr>) devices))"

definition build_manifest ::
    "string \<times> HardwareDevice list \<times> SensorDescriptor list \<Rightarrow> device_maps \<Rightarrow> device_maps" where
  "build_manifest m maps =
     (let (pid, plugin_devices, sensors) = m;
          (devices, by_plugin) = fold (build_device pid) plugin_devices maps
      in (fold build_sensor sensors devices, by_plugin))"

definition typed_nicknames :: "(string \<times> string) list \<Rightarrow> (HardwareDeviceKey \<times> string) list" where
  "typed_nicknames nicknames =
     fold (\<lambda>(raw_key, value) typed.
             case HardwareDeviceKey_try_new raw_key of
               Ok k \<Rightarrow> AList.update k value typed
             | Err _ \<Rightarrow> typed)
       nicknames []"

definition rebuild_labels :: "HardwareRegistry \<Rightarrow> HardwareRegistry" where
  "rebuild_labels r =
     r\<lparr>reg_labels :=
         fold (\<lambda>(key, dev). AList.update key
                 (compute_device_label dev (map snd (reg_devices r)) (reg_nicknames r)))
           (reg_devices r) []\<rparr>"

definition registry_build ::
    "(string \<times> HardwareDevice list \<times> SensorDescriptor list) list \<Rightarrow> (string \<times> string) list \<Rightarrow>
     HardwareRegistry" where
  "registry_build manifests nicknames =
     (let (devices, by_plugin) = fold build_manifest manifests ([], [])
      in rebuild_labels
           \<lparr>reg_devices = devices, reg_by_plugin = by_plugin,
            reg_nicknames = typed_nicknames nicknames, reg_labels = []\<rparr>)"

definition device_label_for :: "HardwareRegistry \<Rightarrow> HardwareDeviceKey \<Rightarrow> string" where
  "device_label_for r key = (case map_of (reg_labels r) key of None \<Rightarrow> key | Some l \<Rightarrow> l)"

definition key_for :: "HardwareRegistry \<Rightarrow> string \<Rightarrow> string \<Rightarrow> HardwareDeviceKey option" where
  "key_for r pid pdid =
     (case map_of (reg_by_plugin r) pid of None \<Rightarrow> None | Some m \<Rightarrow> map_of m pdid)"

definition set_nickname ::
    "HardwareDeviceKey \<Rightarrow> string option \<Rightarrow> HardwareRegistry \<Rightarrow>
     (unit, RegistryError) result \<times> HardwareRegistry" where
  "set_nickname key value r =
     (if \<not> hm_contains (reg_devices r) key then (Err (RegUnknownDevice key), r)
      else
        case value of
          Some raw \<Rightarrow>
            (case validate_nickname raw of
               Err e \<Rightarrow> (Err (RegInvalidNickname e), r)
             | Ok (Some n) \<Rightarrow>
                 (Ok (), rebuild_labels (r\<lparr>reg_nicknames := AList.update key n (reg_nicknames r)\<rparr>))
             | Ok None \<Rightarrow>
                 (Ok (), rebuild_labels (r\<lparr>reg_nicknames := AList.delete key (reg_nicknames r)\<rparr>)))
        | None \<Rightarrow>
            (Ok (), rebuild_labels (r\<lparr>reg_nicknames := AList.delete key (reg_nicknames r)\<rparr>)))"

definition snapshot :: "HardwareRegistry \<Rightarrow> HardwareDevice list" where
  "snapshot r =
     sort_key (\<lambda>d. (category_rank (dev_category d), dev_key d)) (map snd (reg_devices r))"

definition nicknames_snapshot :: "HardwareRegistry \<Rightarrow> (string \<times> string) list" where
  "nicknames_snapshot r = reg_nicknames r"

section \<open>The registry invariant\<close>

definition wf_devices :: "(HardwareDeviceKey \<times> HardwareDevice) list \<Rightarrow> bool" where
  "wf_devices ds \<longleftrightarrow> distinct (map fst ds) \<and> (\<forall>(k, d) \<in> set ds. dev_key d = k \<and> wf_key k)"

definition wf_by_plugin :: "device_maps \<Rightarrow> bool" where
  "wf_by_plugin maps \<longleftrightarrow>
     (\<forall>pid m pdid k. map_of (snd maps) pid = Some m \<longrightarrow> map_of m pdid = Some k \<longrightarrow>
        (\<exists>d. map_of (fst maps) k = Some d \<and> dev_plugin_id d = pid \<and> dev_plugin_device_id d = pdid))"

text \<open>The label map holds exactly the computed label of every device.\<close>

definition labels_current :: "HardwareRegistry \<Rightarrow> bool" where
  "labels_current r \<longleftrightarrow>
     map_of (reg_labels r) =
       (\<lambda>k. map_option (\<lambda>d. compute_device_label d (map snd (reg_devices r)) (reg_nicknames r))
              (map_of (reg_devices r) k))"

definition wf_nicknames :: "(HardwareDeviceKey \<times> string) list \<Rightarrow> bool" where
  "wf_nicknames n \<longleftrightarrow> distinct (map fst n) \<and> (\<forall>k \<in> fst ` set n. wf_key k)"

definition wf_registry :: "HardwareRegistry \<Rightarrow> bool" where
  "wf_registry r \<longleftrightarrow>
     wf_devices (reg_devices r) \<and> wf_by_plugin (reg_devices r, reg_by_plugin r)
     \<and> wf_nicknames (reg_nicknames r)
     \<and> labels_current r"

lemma map_of_fold_update:
  "distinct (map fst xs) \<Longrightarrow>
   map_of (fold (\<lambda>(k, v). AList.update k (f v)) xs acc) = map_of acc ++ (\<lambda>k. map_option f (map_of xs k))"
proof (induction xs arbitrary: acc)
  case (Cons x xs)
  obtain k v where x: "x = (k, v)" by (cases x)
  have "map_of xs k = None" using Cons.prems x by (simp add: map_of_eq_None_iff)
  with Cons x show ?case by (auto simp: hm.get_ins map_add_def fun_eq_iff split: option.splits)
qed (simp add: map_add_def)

lemma labels_current_rebuild:
  "wf_devices (reg_devices r) \<Longrightarrow> labels_current (rebuild_labels r)"
  by (simp add: labels_current_def rebuild_labels_def wf_devices_def map_of_fold_update)

lemma rebuild_labels_fields [simp]:
  "reg_devices (rebuild_labels r) = reg_devices r"
  "reg_by_plugin (rebuild_labels r) = reg_by_plugin r"
  "reg_nicknames (rebuild_labels r) = reg_nicknames r"
  by (simp_all add: rebuild_labels_def)

lemma wf_devices_update:
  "wf_devices ds \<Longrightarrow> wf_key k \<Longrightarrow> dev_key d = k \<Longrightarrow> wf_devices (AList.update k d ds)"
proof -
  assume a: "wf_devices ds" "wf_key k" "dev_key d = k"
  have "(k', d') = (k, d) \<or> (k', d') \<in> set ds" if "(k', d') \<in> set (AList.update k d ds)" for k' d'
  proof -
    have "map_of (AList.update k d ds) k' = Some d'"
      using a(1) that by (simp add: wf_devices_def hm.wf_ins)
    then show ?thesis by (auto simp: hm.get_ins split: if_splits dest: map_of_SomeD)
  qed
  with a show ?thesis by (fastforce simp: wf_devices_def hm.wf_ins)
qed

lemma wf_devicesD: "wf_devices ds \<Longrightarrow> map_of ds k = Some d \<Longrightarrow> dev_key d = k \<and> wf_key k"
  by (auto simp: wf_devices_def dest: map_of_SomeD)

definition wf_maps :: "device_maps \<Rightarrow> bool" where
  "wf_maps maps \<longleftrightarrow> wf_devices (fst maps) \<and> wf_by_plugin maps"

lemma wf_maps_build_device:
  assumes "wf_maps maps" and "wf_key (dev_key dev)"
  shows "wf_maps (build_device pid dev maps)"
proof -
  obtain ds bp where m: "maps = (ds, bp)" by (cases maps)
  show ?thesis
  proof (cases "hm_contains ds (dev_key dev)")
    case True
    with assms m show ?thesis by (simp add: build_device_def)
  next
    case False
    then have n: "map_of ds (dev_key dev) = None" by (simp add: hm_contains_def)
    let ?d = "dev\<lparr>dev_plugin_id := pid, dev_sensor_ids := []\<rparr>"
    let ?inner = "case map_of bp pid of None \<Rightarrow> [] | Some m \<Rightarrow> m"
    have i: "map_of ?inner q = Some k \<Longrightarrow>
        \<exists>d. map_of ds k = Some d \<and> dev_plugin_id d = pid \<and> dev_plugin_device_id d = q" for q k
      using assms(1) m by (auto simp: wf_maps_def wf_by_plugin_def split: option.splits)
    let ?ds = "AList.update (dev_key dev) ?d ds"
    let ?bp = "AList.update pid (AList.update (dev_plugin_device_id dev) (dev_key dev) ?inner) bp"
    have "\<exists>d. map_of ?ds k = Some d \<and> dev_plugin_id d = q \<and> dev_plugin_device_id d = pd"
      if l: "map_of ?bp q = Some mm" "map_of mm pd = Some k" for q mm pd k
    proof (cases "q = pid \<and> pd = dev_plugin_device_id dev")
      case True
      with l show ?thesis by (auto simp: hm.get_ins)
    next
      case False
      have "\<exists>d. map_of ds k = Some d \<and> dev_plugin_id d = q \<and> dev_plugin_device_id d = pd"
      proof (cases "q = pid")
        case True
        with l False have "map_of ?inner pd = Some k" by (auto simp: hm.get_ins)
        with i True show ?thesis by simp
      next
        case False
        with l assms(1) m show ?thesis by (simp add: hm.get_ins wf_maps_def wf_by_plugin_def)
      qed
      then obtain d where d: "map_of ds k = Some d" "dev_plugin_id d = q" "dev_plugin_device_id d = pd"
        by blast
      moreover have "k \<noteq> dev_key dev" using n d(1) by auto
      ultimately show ?thesis by (simp add: hm.get_ins)
    qed
    then have "wf_by_plugin (?ds, ?bp)" by (simp add: wf_by_plugin_def)
    with assms m False show ?thesis
      by (simp add: wf_maps_def build_device_def Let_def wf_devices_update)
  qed
qed

lemma wf_maps_build_sensor:
  assumes "wf_maps (ds, bp)"
  shows "wf_maps (build_sensor s ds, bp)"
proof (cases "d_device_key s")
  case None
  with assms show ?thesis by (simp add: build_sensor_def)
next
  case (Some k)
  show ?thesis
  proof (cases "map_of ds k")
    case None
    with Some assms show ?thesis by (simp add: build_sensor_def)
  next
    case (Some d)
    then have "dev_key d = k" "wf_key k" using assms wf_devicesD by (auto simp: wf_maps_def)
    with \<open>d_device_key s = Some k\<close> Some assms show ?thesis
      by (auto simp: build_sensor_def wf_maps_def wf_devices_update wf_by_plugin_def hm.get_ins)
        (metis option.inject)+
  qed
qed

lemma wf_maps_build_devices:
  "wf_maps maps \<Longrightarrow> \<forall>d \<in> set ds. wf_key (dev_key d) \<Longrightarrow> wf_maps (fold (build_device pid) ds maps)"
  by (induction ds arbitrary: maps) (simp_all add: wf_maps_build_device)

lemma wf_maps_build_sensors: "wf_maps (ds, bp) \<Longrightarrow> wf_maps (fold build_sensor ss ds, bp)"
  by (induction ss arbitrary: ds) (simp_all add: wf_maps_build_sensor)

lemma wf_maps_build_manifest:
  assumes "wf_maps maps" "\<forall>d \<in> set ds. wf_key (dev_key d)"
  shows "wf_maps (build_manifest (pid, ds, ss) maps)"
proof -
  obtain d b where "fold (build_device pid) ds maps = (d, b)"
    by (cases "fold (build_device pid) ds maps")
  moreover have "wf_maps (fold (build_device pid) ds maps)" using assms by (rule wf_maps_build_devices)
  ultimately show ?thesis by (simp add: build_manifest_def wf_maps_build_sensors)
qed

definition manifests_ok :: "(string \<times> HardwareDevice list \<times> SensorDescriptor list) list \<Rightarrow> bool" where
  "manifests_ok ms \<longleftrightarrow> (\<forall>(pid, ds, ss) \<in> set ms. \<forall>d \<in> set ds. wf_key (dev_key d))"

lemma wf_maps_build_manifests:
  "manifests_ok ms \<Longrightarrow> wf_maps maps \<Longrightarrow> wf_maps (fold build_manifest ms maps)"
proof (induction ms arbitrary: maps)
  case (Cons m ms)
  obtain pid ds ss where m: "m = (pid, ds, ss)" by (cases m)
  with Cons.prems have "wf_maps (build_manifest m maps)"
    by (simp add: manifests_ok_def wf_maps_build_manifest)
  moreover have "manifests_ok ms" using Cons.prems(1) by (simp add: manifests_ok_def)
  ultimately show ?case using Cons.IH by simp
qed simp

lemma wf_nicknames_update: "wf_nicknames n \<Longrightarrow> wf_key k \<Longrightarrow> wf_nicknames (AList.update k v n)"
  unfolding wf_nicknames_def dom_update by (simp add: hm.wf_ins)

lemma wf_nicknames_delete: "wf_nicknames n \<Longrightarrow> wf_nicknames (AList.delete k n)"
  unfolding wf_nicknames_def by (auto simp: AList.delete_eq intro: distinct_keys_filter)

lemma typed_nicknames_wf: "wf_nicknames (typed_nicknames ns)"
proof -
  let ?f = "\<lambda>(raw_key, value) typed. case HardwareDeviceKey_try_new raw_key of
      Ok k \<Rightarrow> AList.update k value typed | Err _ \<Rightarrow> typed"
  have "wf_nicknames (fold ?f ns acc)" if "wf_nicknames acc" for acc
    using that
  proof (induction ns arbitrary: acc)
    case (Cons n ns)
    have "wf_nicknames (?f n acc)"
    proof (cases "HardwareDeviceKey_try_new (fst n)")
      case (Ok k)
      then have "wf_key k" by (simp add: key_try_new_Ok)
      with Cons.prems Ok show ?thesis by (simp add: case_prod_beta wf_nicknames_update)
    qed (use Cons.prems in \<open>simp add: case_prod_beta\<close>)
    then show ?case using Cons.IH by simp
  qed simp
  moreover have "wf_nicknames []" by (simp add: wf_nicknames_def)
  ultimately show ?thesis unfolding typed_nicknames_def by blast
qed

lemma wf_registry_build:
  assumes "manifests_ok ms"
  shows "wf_registry (registry_build ms ns)"
proof -
  obtain d b where "fold build_manifest ms ([], []) = (d, b)" by (cases "fold build_manifest ms ([], [])")
  moreover have "wf_maps (fold build_manifest ms ([], []))"
    using assms by (rule wf_maps_build_manifests) (simp add: wf_maps_def wf_devices_def wf_by_plugin_def)
  ultimately show ?thesis
    using typed_nicknames_wf [of ns]
    by (simp add: registry_build_def wf_registry_def wf_maps_def labels_current_rebuild)
qed

lemma wf_registry_set_nickname: "wf_registry r \<Longrightarrow> wf_registry (snd (set_nickname k v r))"
proof -
  assume r: "wf_registry r"
  have u: "wf_registry (rebuild_labels (r\<lparr>reg_nicknames := n\<rparr>))"
    if "wf_nicknames n" for n
    using r that by (simp add: wf_registry_def labels_current_rebuild)
  have del: "wf_registry (rebuild_labels (r\<lparr>reg_nicknames := AList.delete k (reg_nicknames r)\<rparr>))"
    using r by (intro u wf_nicknames_delete) (simp add: wf_registry_def)
  show ?thesis
  proof (cases "hm_contains (reg_devices r) k")
    case True
    then have "wf_key k" using r by (auto simp: wf_registry_def hm_contains_def dest: wf_devicesD)
    then have "wf_registry (rebuild_labels (r\<lparr>reg_nicknames := AList.update k n (reg_nicknames r)\<rparr>))" for n
      using r by (intro u wf_nicknames_update) (simp_all add: wf_registry_def)
    with True del r show ?thesis
      by (simp add: set_nickname_def split: option.splits result.splits)
  qed (use r in \<open>simp add: set_nickname_def\<close>)
qed

lemma device_label_for_known:
  "wf_registry r \<Longrightarrow> map_of (reg_devices r) k = Some d \<Longrightarrow>
   device_label_for r k = compute_device_label d (map snd (reg_devices r)) (reg_nicknames r)"
  by (simp add: device_label_for_def wf_registry_def labels_current_def)

section \<open>Rebuilding from the stored nicknames\<close>

lemma map_of_typed_nicknames:
  assumes "wf_nicknames n"
  shows "map_of (typed_nicknames n) = map_of n"
proof -
  have "map_of (fold (\<lambda>(raw_key, value) typed. case HardwareDeviceKey_try_new raw_key of
      Ok k \<Rightarrow> AList.update k value typed | Err _ \<Rightarrow> typed) n acc) = map_of acc ++ map_of n" for acc
    using assms
  proof (induction n arbitrary: acc)
    case (Cons x n)
    obtain k v where x: "x = (k, v)" by (cases x)
    with Cons.prems have "HardwareDeviceKey_try_new k = Ok k" "map_of n k = None" "wf_nicknames n"
      by (auto simp: wf_nicknames_def key_try_new_Ok map_of_eq_None_iff)
    with Cons.IH x show ?case by (auto simp: hm.get_ins map_add_def fun_eq_iff split: option.split)
  qed simp
  from this [of "[]"] show ?thesis by (simp add: typed_nicknames_def)
qed

lemma device_label_for_devices:
  assumes "wf_registry r" and "wf_registry r'" and "reg_devices r = reg_devices r'"
    and "map_of (reg_nicknames r) = map_of (reg_nicknames r')"
  shows "device_label_for r k = device_label_for r' k"
proof -
  have "map_of (reg_labels r) = map_of (reg_labels r')"
    using assms compute_device_label_cong [OF refl assms(4)] by (simp add: wf_registry_def labels_current_def)
  then show ?thesis by (simp add: device_label_for_def)
qed

lemma set_nickname_devices [simp]: "reg_devices (snd (set_nickname k v r)) = reg_devices r"
  by (simp add: set_nickname_def split: option.split result.split)

lemma registry_build_devices: "reg_devices (registry_build ms n) = reg_devices (registry_build ms n')"
  by (simp add: registry_build_def split: prod.split)

lemma manifests_ok_host: "wf_host h \<Longrightarrow> manifests_ok (devices_by_plugin h)"
  by (auto simp: manifests_ok_def devices_by_plugin_def wf_host_def wf_entry_def device_ok_def)

text \<open>A registry built anew from the nicknames another one holds, in any order, shows the same labels.\<close>

lemma rebuilt_labels:
  assumes "manifests_ok ms" and "wf_registry r" and "reg_devices r = reg_devices (registry_build ms n0)"
    and "mset n = mset (nicknames_snapshot r)"
  shows "device_label_for (registry_build ms n) k = device_label_for r k"
proof -
  have wn: "wf_nicknames (reg_nicknames r)" using assms(2) by (simp add: wf_registry_def)
  have m: "mset n = mset (reg_nicknames r)" using assms(4) by (simp add: nicknames_snapshot_def)
  have "mset (map fst n) = mset (map fst (reg_nicknames r))" using m by (simp only: mset_map)
  then have d: "distinct (map fst n)" using wn by (metis mset_eq_imp_distinct_iff wf_nicknames_def)
  moreover have s: "set n = set (reg_nicknames r)" using m by (rule mset_eq_setD)
  ultimately have w: "wf_nicknames n" using wn by (simp add: wf_nicknames_def)
  have "map_of n = map_of (reg_nicknames r)"
    using d wn s by (intro map_of_inject_set [THEN iffD2]) (simp_all add: wf_nicknames_def)
  then have "map_of (reg_nicknames (registry_build ms n)) = map_of (reg_nicknames r)"
    using map_of_typed_nicknames [OF w] by (simp add: registry_build_def split: prod.split)
  then show ?thesis
    using assms(3) registry_build_devices [of ms n n0]
    by (intro device_label_for_devices wf_registry_build assms(1, 2)) simp_all
qed

lemma set_nickname_label:
  assumes "wf_registry r" and "set_nickname key (Some n) r = (Ok (), r')" and "validate_nickname n = Ok (Some n)"
  shows "device_label_for r' key = n"
proof -
  obtain d where d: "map_of (reg_devices r) key = Some d"
    using assms(2) by (cases "map_of (reg_devices r) key") (simp_all add: set_nickname_def hm_contains_def)
  have k: "dev_key d = key" using assms(1) d wf_devicesD by (auto simp: wf_registry_def)
  have r': "r' = rebuild_labels (r\<lparr>reg_nicknames := AList.update key n (reg_nicknames r)\<rparr>)"
    using assms(2, 3) d by (simp add: set_nickname_def hm_contains_def)
  have "wf_registry r'" using wf_registry_set_nickname [OF assms(1), of key "Some n"] assms(2) by simp
  from device_label_for_known [OF this, of key d] d k show ?thesis
    by (simp add: r' compute_device_label_def hm.get_ins)
qed

section \<open>Properties\<close>

text \<open>
  C19: The registry built from the manifests of a consistent plugin host is well formed, and
  stays so under every sequence of nickname requests: every map entry is stored under its own
  valid key, the plugin index only points at devices of that plugin, and the cached label of
  every device is the one \<^verbatim>\<open>compute_device_label\<close> gives for the current nicknames.
\<close>

theorem registry_invariant:
  assumes "wf_host h"
  shows "wf_registry (fold (\<lambda>(k, v) r. snd (set_nickname k v r)) reqs
           (registry_build (devices_by_plugin h) nicknames))"
proof -
  have "manifests_ok (devices_by_plugin h)" using assms by (rule manifests_ok_host)
  then have "wf_registry (registry_build (devices_by_plugin h) nicknames)" by (rule wf_registry_build)
  moreover have "wf_registry (fold (\<lambda>(k, v) r. snd (set_nickname k v r)) reqs r)" if "wf_registry r" for r
    using that by (induction reqs arbitrary: r) (auto simp: wf_registry_set_nickname)
  ultimately show ?thesis by blast
qed

theorem registry_invariant_witness:
  "wf_registry (fold (\<lambda>(k, v) r. snd (set_nickname k v r)) [(''pci:0000:06:00.0'', Some ''gpu'')]
     (registry_build (devices_by_plugin \<lparr>ph_plugins = [], ph_registry = []\<rparr>) []))"
  by (rule registry_invariant [OF wf_host_empty])

text \<open>
  C13: \<^verbatim>\<open>set_nickname\<close> on every branch: an unknown device and an invalid nickname are refused
  with the registry unchanged; an accepted nickname is stored trimmed and is the device's
  label from then on; an empty one (or none) clears the entry, so that the label is the model
  again, with the key's payload added when another unnamed device has the same model.
\<close>

theorem set_nickname_spec:
  assumes "wf_registry r"
  shows "case set_nickname k v r of (res, r') \<Rightarrow>
    (if map_of (reg_devices r) k = None then res = Err (RegUnknownDevice k) \<and> r' = r
     else case (case v of None \<Rightarrow> Ok None | Some raw \<Rightarrow> validate_nickname raw) of
            Err e \<Rightarrow> res = Err (RegInvalidNickname e) \<and> r' = r
          | Ok (Some n) \<Rightarrow> res = Ok () \<and> reg_devices r' = reg_devices r
              \<and> map_of (reg_nicknames r') = (map_of (reg_nicknames r))(k \<mapsto> n) \<and> device_label_for r' k = n
          | Ok None \<Rightarrow> res = Ok () \<and> reg_devices r' = reg_devices r
              \<and> map_of (reg_nicknames r') = (map_of (reg_nicknames r))(k := None)
              \<and> device_label_for r' k \<in> {dev_model (the (map_of (reg_devices r) k)),
                   dev_model (the (map_of (reg_devices r) k)) @ '' ('' @ key_payload k @ '')''})"
proof (cases "map_of (reg_devices r) k")
  case None
  then show ?thesis by (simp add: set_nickname_def hm_contains_def)
next
  case (Some d)
  define nv where "nv = (case v of None \<Rightarrow> Ok None | Some raw \<Rightarrow> validate_nickname raw)"
  have k: "dev_key d = k" using Some assms by (auto simp: wf_registry_def dest: wf_devicesD)
  have wf: "wf_registry (snd (set_nickname k v r))" using assms by (rule wf_registry_set_nickname)
  have eq: "set_nickname k v r =
      (case nv of Err e \<Rightarrow> (Err (RegInvalidNickname e), r)
       | Ok (Some n) \<Rightarrow> (Ok (), rebuild_labels (r\<lparr>reg_nicknames := AList.update k n (reg_nicknames r)\<rparr>))
       | Ok None \<Rightarrow> (Ok (), rebuild_labels (r\<lparr>reg_nicknames := AList.delete k (reg_nicknames r)\<rparr>)))"
    using Some by (cases v) (simp_all add: set_nickname_def hm_contains_def nv_def)
  have lab: "device_label_for r' k = compute_device_label d (map snd (reg_devices r)) (reg_nicknames r')"
    if "wf_registry r'" "reg_devices r' = reg_devices r" for r'
    using device_label_for_known [OF that(1), of k d] that Some by simp
  show ?thesis
  proof (cases nv)
    case (Err e)
    with eq Some show ?thesis by (simp add: nv_def [symmetric])
  next
    case (Ok x)
    with eq wf Some k lab show ?thesis
      by (cases x)
        (simp_all add: nv_def [symmetric] hm.get_ins hm.get_del compute_device_label_def)
  qed
qed

definition demo_registry :: HardwareRegistry where
  "demo_registry = registry_build [(''xe'', [demo_device], [demo_descriptor])] []"

lemma demo_registry_wf: "wf_registry demo_registry"
  unfolding demo_registry_def
  by (rule wf_registry_build) (simp add: manifests_ok_def demo_device_def demo_key_wf)

theorem set_nickname_spec_witness:
  "device_label_for (snd (set_nickname ''pci:0000:06:00.0'' (Some '' my gpu ''  ) demo_registry)) ''pci:0000:06:00.0''
     = ''my gpu''"
proof -
  have d: "map_of (reg_devices demo_registry) ''pci:0000:06:00.0'' \<noteq> None" by code_simp
  have v: "validate_nickname '' my gpu '' = Ok (Some ''my gpu'')" by code_simp
  from set_nickname_spec [OF demo_registry_wf, of "''pci:0000:06:00.0''" "Some '' my gpu ''"] d v
  show ?thesis by (auto split: prod.splits)
qed

text \<open>
  Two devices of the registry with the same model, the same key scheme and no nicknames
  never share a label: each is shown with its own key's payload.
\<close>

theorem same_model_labels_differ:
  assumes "wf_registry r"
    and "map_of (reg_devices r) k1 = Some d1" "map_of (reg_devices r) k2 = Some d2" "k1 \<noteq> k2"
    and "dev_model d1 = dev_model d2" "key_scheme k1 = key_scheme k2"
    and "map_of (reg_nicknames r) k1 = None" "map_of (reg_nicknames r) k2 = None"
  shows "device_label_for r k1 \<noteq> device_label_for r k2"
proof -
  have k: "dev_key d1 = k1" "wf_key k1" "dev_key d2 = k2" "wf_key k2"
    using assms(1-3) by (auto simp: wf_registry_def dest: wf_devicesD)
  have m: "d1 \<in> set (map snd (reg_devices r))" "d2 \<in> set (map snd (reg_devices r))"
    using assms(2,3) by (auto dest!: map_of_SomeD intro: rev_image_eqI)
  have "device_label_for r k1 = dev_model d1 @ '' ('' @ key_payload k1 @ '')''"
    using device_label_for_known [OF assms(1,2)] compute_device_label_disambig [OF m(2), of d1] k assms by simp
  moreover have "device_label_for r k2 = dev_model d1 @ '' ('' @ key_payload k2 @ '')''"
    using device_label_for_known [OF assms(1,3)] compute_device_label_disambig [OF m(1), of d2] k assms by simp
  moreover have "key_payload k1 \<noteq> key_payload k2"
    using wf_key_split(1) [OF k(2)] wf_key_split(1) [OF k(4)] assms(4,6) by metis
  ultimately show ?thesis by simp
qed

definition twin_registry :: HardwareRegistry where
  "twin_registry =
     registry_build [(''xe'', [demo_device, demo_device\<lparr>dev_key := ''pci:0000:07:00.0''\<rparr>], [])] []"

lemma demo_key_wf': "wf_key ''pci:0000:07:00.0''"
proof -
  have "HardwareDeviceKey_try_new ''pci:0000:07:00.0'' = Ok ''pci:0000:07:00.0''" by code_simp
  then show ?thesis by (simp only: key_try_new_Ok)
qed

theorem same_model_labels_differ_witness:
  "device_label_for twin_registry ''pci:0000:06:00.0'' \<noteq> device_label_for twin_registry ''pci:0000:07:00.0''"
proof (rule same_model_labels_differ)
  show "wf_registry twin_registry"
    unfolding twin_registry_def
    by (rule wf_registry_build) (simp add: manifests_ok_def demo_device_def demo_key_wf demo_key_wf')
  show "map_of (reg_devices twin_registry) ''pci:0000:06:00.0'' = Some (demo_device\<lparr>dev_plugin_id := ''xe''\<rparr>)"
    "map_of (reg_devices twin_registry) ''pci:0000:07:00.0'' =
      Some (demo_device\<lparr>dev_key := ''pci:0000:07:00.0'', dev_plugin_id := ''xe''\<rparr>)"
    "map_of (reg_nicknames twin_registry) ''pci:0000:06:00.0'' = None"
    "map_of (reg_nicknames twin_registry) ''pci:0000:07:00.0'' = None"
    by code_simp+
qed (code_simp+)

text \<open>
  The hardware snapshot lists every device exactly once, CPUs first, then GPUs, storage,
  network and the rest, by key within a category, and is the same for every iteration order
  of the device map.
\<close>

theorem snapshot_canonical:
  assumes "wf_registry r" "wf_registry r'" and "map_of (reg_devices r) = map_of (reg_devices r')"
  shows "snapshot r = snapshot r'
    \<and> mset (snapshot r) = mset (map snd (reg_devices r)) \<and> distinct (map dev_key (snapshot r))
    \<and> sorted (map (\<lambda>d. (category_rank (dev_category d), dev_key d)) (snapshot r))"
proof -
  let ?f = "\<lambda>d. (category_rank (dev_category d), dev_key d)"
  have keys: "map dev_key (map snd (reg_devices q)) = map fst (reg_devices q)" if "wf_registry q" for q
    using that by (auto simp: wf_registry_def wf_devices_def intro: map_cong)
  have dist: "distinct (map dev_key (map snd (reg_devices q)))" if "wf_registry q" for q
    using that by (simp only: keys) (simp add: wf_registry_def wf_devices_def)
  have "set (reg_devices r) = set (reg_devices r')"
    using assms by (metis wf_registry_def wf_devices_def map_of_inject_set)
  then have "mset (reg_devices r) = mset (reg_devices r')"
    using assms(1,2) by (metis distinct_map set_eq_iff_mset_eq_distinct wf_devices_def wf_registry_def)
  then have ms: "mset (map snd (reg_devices r)) = mset (map snd (reg_devices r'))"
    by (simp only: mset_map)
  have dk: "mset (map dev_key (snapshot r)) = mset (map dev_key (map snd (reg_devices r)))"
    unfolding snapshot_def by (simp only: mset_map mset_sort)
  then have ds: "distinct (map dev_key (snapshot r))"
    using dist [OF assms(1)] by (metis mset_eq_imp_distinct_iff)
  have inj: "inj_on ?f (set (snapshot r))"
    using ds by (auto simp: inj_on_def distinct_map)
  have "snapshot r' = snapshot r"
    unfolding snapshot_def [of r']
  proof (rule properties_for_sort_key)
    show "mset (snapshot r) = mset (map snd (reg_devices r'))" by (simp add: snapshot_def ms [simplified])
    show "filter (\<lambda>x. ?f k = ?f x) (snapshot r) = filter (\<lambda>x. ?f k = ?f x) (map snd (reg_devices r'))"
      if "k \<in> set (snapshot r)" for k
    proof -
      have one: "filter (\<lambda>x. ?f k = ?f x) xs = [k]" if "k \<in> set xs" "distinct (map dev_key xs)" for xs
        using that by (induction xs) (auto simp: filter_empty_conv, metis imageI)
      have "k \<in> set (map snd (reg_devices r'))" using that ms
        by (metis \<open>mset (snapshot r) = mset (map snd (reg_devices r'))\<close> mset_eq_setD)
      then show ?thesis using one [OF that ds] one [OF _ dist [OF assms(2)]] by simp
    qed
    show "sorted (map ?f (snapshot r))" by (simp add: snapshot_def)
  qed
  then show ?thesis using ds by (simp add: snapshot_def)
qed

theorem snapshot_canonical_witness:
  "sorted (map (\<lambda>d. (category_rank (dev_category d), dev_key d)) (snapshot demo_registry))
   \<and> distinct (map dev_key (snapshot demo_registry))"
  using snapshot_canonical [OF demo_registry_wf demo_registry_wf refl] by blast

text \<open>What the build of one manifest after another keeps: devices stay, their sensor lists grow.\<close>

definition extends :: "(HardwareDeviceKey \<times> HardwareDevice) list \<Rightarrow> (HardwareDeviceKey \<times> HardwareDevice) list \<Rightarrow> bool" where
  "extends ds ds' \<longleftrightarrow>
     (\<forall>k d. map_of ds k = Some d \<longrightarrow>
        (\<exists>d'. map_of ds' k = Some d' \<and> set (dev_sensor_ids d) \<subseteq> set (dev_sensor_ids d')))"

lemma extends_refl [simp]: "extends ds ds"
  by (auto simp: extends_def)

lemma extends_trans [trans]: "extends a b \<Longrightarrow> extends b c \<Longrightarrow> extends a c"
  unfolding extends_def by (meson subset_trans)

lemma extends_build_device: "extends (fst maps) (fst (build_device pid dev maps))"
  by (cases maps) (auto simp: build_device_def extends_def Let_def hm_contains_def hm.get_ins)

lemma extends_build_devices: "extends (fst maps) (fst (fold (build_device pid) ds maps))"
proof (induction ds arbitrary: maps)
  case (Cons d ds)
  show ?case using extends_trans [OF extends_build_device Cons.IH] by simp
qed simp

lemma extends_build_sensor: "extends ds (build_sensor s ds)"
  by (auto simp: build_sensor_def extends_def hm.get_ins split: option.splits)

lemma extends_build_sensors: "extends ds (fold build_sensor ss ds)"
proof (induction ss arbitrary: ds)
  case (Cons s ss)
  show ?case using extends_trans [OF extends_build_sensor Cons.IH] by simp
qed simp

lemma build_devices_dom:
  "d \<in> set ds \<Longrightarrow> map_of (fst (fold (build_device pid) ds maps)) (dev_key d) \<noteq> None"
proof (induction ds arbitrary: maps)
  case (Cons x ds)
  have "map_of (fst (build_device pid x maps)) (dev_key x) \<noteq> None"
    by (cases maps) (auto simp: build_device_def Let_def hm_contains_def hm.get_ins)
  then have "map_of (fst (fold (build_device pid) ds (build_device pid x maps))) (dev_key x) \<noteq> None"
    using extends_build_devices unfolding extends_def by (metis option.exhaust option.simps(3))
  with Cons.IH [of "build_device pid x maps"] Cons.prems show ?case by (cases "d = x") simp_all
qed simp

definition listed :: "SensorDescriptor \<Rightarrow> HardwareDeviceKey \<Rightarrow> (HardwareDeviceKey \<times> HardwareDevice) list \<Rightarrow> bool" where
  "listed s k ds \<longleftrightarrow> (\<exists>d. map_of ds k = Some d \<and> d_id s \<in> set (dev_sensor_ids d))"

lemma listed_extends: "listed s k a \<Longrightarrow> extends a b \<Longrightarrow> listed s k b"
  unfolding listed_def extends_def by (meson subsetD)

lemma build_sensors_listed:
  "s \<in> set ss \<Longrightarrow> d_device_key s = Some k \<Longrightarrow> map_of ds k \<noteq> None \<Longrightarrow> listed s k (fold build_sensor ss ds)"
proof (induction ss arbitrary: ds)
  case (Cons x ss)
  have n: "map_of (build_sensor x ds) k \<noteq> None"
    using Cons.prems(3) extends_build_sensor [of ds x] unfolding extends_def by (metis not_Some_eq)
  show ?case
  proof (cases "x = s")
    case True
    then have "listed s k (build_sensor x ds)"
      using Cons.prems by (auto simp: listed_def build_sensor_def hm.get_ins)
    then show ?thesis using listed_extends [OF _ extends_build_sensors] by simp
  next
    case False
    with Cons n show ?thesis by simp
  qed
qed simp

lemma build_manifests_listed:
  assumes "(pid, ds, ss) \<in> set ms" "s \<in> set ss" "d_device_key s = Some k" "k \<in> dev_key ` set ds"
  shows "listed s k (fst (fold build_manifest ms maps))"
  using assms(1)
proof (induction ms arbitrary: maps)
  case (Cons m ms)
  have ext: "extends (fst a) (fst (build_manifest n a))" for a n
  proof -
    obtain p d s where n: "n = (p, d, s)" by (cases n)
    show ?thesis
      using extends_trans [OF extends_build_devices extends_build_sensors]
      by (simp add: n build_manifest_def case_prod_beta)
  qed
  have exts: "extends (fst a) (fst (fold build_manifest ns a))" for a ns
  proof (induction ns arbitrary: a)
    case (Cons n ns)
    show ?case using extends_trans [OF ext Cons.IH] by simp
  qed simp
  show ?case
  proof (cases "m = (pid, ds, ss)")
    case True
    obtain d where d: "d \<in> set ds" "k = dev_key d" using assms(4) by auto
    have "listed s k (fst (build_manifest m maps))"
      using build_sensors_listed [OF assms(2,3), of "fst (fold (build_device pid) ds maps)"]
        build_devices_dom [OF d(1), of pid maps] d(2)
      by (simp add: True build_manifest_def case_prod_beta)
    then show ?thesis using listed_extends [OF _ exts] by simp
  next
    case False
    with Cons show ?thesis by auto
  qed
qed simp

text \<open>
  In the registry built from a consistent host, every sensor that names a device is
  listed among the sensors of that device, also when another plugin registered the device
  first.
\<close>

theorem device_lists_its_sensors:
  assumes "wf_host h" and "e \<in> set (ph_plugins h)" and "s \<in> set (pe_sensors e)"
    and "d_device_key s = Some k"
  shows "\<exists>d. map_of (reg_devices (registry_build (devices_by_plugin h) nicknames)) k = Some d
           \<and> d_id s \<in> set (dev_sensor_ids d)"
proof -
  have k: "k \<in> dev_key ` set (pe_devices e)"
    using assms by (auto simp: wf_host_def wf_entry_def)
  have "(pm_plugin_id (pe_meta e), pe_devices e, pe_sensors e) \<in> set (devices_by_plugin h)"
    using assms(2) by (auto simp: devices_by_plugin_def)
  from build_manifests_listed [OF this assms(3,4) k, of "([], [])"]
  show ?thesis by (simp add: registry_build_def listed_def case_prod_beta)
qed

theorem device_lists_its_sensors_witness:
  "\<exists>d. map_of (reg_devices (registry_build (devices_by_plugin demo_host) [])) ''pci:0000:06:00.0'' = Some d
     \<and> d_id demo_descriptor \<in> set (dev_sensor_ids d)"
proof (rule device_lists_its_sensors [OF demo_host_wf])
  show "hd (ph_plugins demo_host) \<in> set (ph_plugins demo_host)"
    and "demo_descriptor \<in> set (pe_sensors (hd (ph_plugins demo_host)))"
    and "d_device_key demo_descriptor = Some ''pci:0000:06:00.0''"
    by code_simp+
qed

end
