(* ===== verification/History.thy ===== *)
theory History
  imports Core_Types "HOL-Library.Multiset" "HOL-Library.Sublist"
begin

text \<open>
  The history store of \<^verbatim>\<open>apps/linsightd/src/history.rs\<close>: the bounded queue between the producers
  and the writer thread, the writer's loop, pruning, and the downsampling query. The two SQLite
  tables are association lists from their primary keys to their columns, and each SQL statement
  of the source is the list function it denotes; whether the engine executes a statement
  is a parameter. \<^verbatim>\<open>INTEGER\<close> columns hold the \<^verbatim>\<open>i64\<close> reading (\<open>sint\<close>) of a \<open>u64\<close>. SQLite stores NaN
  as \<^verbatim>\<open>NULL\<close>. A handle to a writer is the channel's number, so that clones share the channel.
\<close>

section \<open>Records and the queue\<close>

datatype AlertEventKind = Fired | Cleared

record AlertEvent =
  ev_rule :: string
  ev_ts_micros :: u64
  ev_kind :: AlertEventKind

record HistoricSample =
  hs_sensor :: SensorId
  hs_ts_micros :: u64
  hs_scalar :: "fl option"
  hs_counter :: "u64 option"
  hs_state :: "string option"

datatype HistoryRecord = RecSample HistoricSample | RecAlertEvent AlertEvent

definition FLUSH_INTERVAL :: nat where
  "FLUSH_INTERVAL = 1000000000"

definition MAX_BATCH :: nat where
  "MAX_BATCH = 4096"

definition QUEUE_CAPACITY :: nat where
  "QUEUE_CAPACITY = 16384"

text \<open>One channel: what is queued, whether the writer thread still receives, the drop counter.\<close>

record channel =
  ch_queue :: "HistoryRecord list"
  ch_open :: bool
  ch_dropped :: u64

type_synonym channels = "(nat \<times> channel) list"
type_synonym HistoryWriter = nat

definition channel_send :: "HistoryRecord \<Rightarrow> channel \<Rightarrow> channel" where
  "channel_send r c =
     (if \<not> ch_open c then c
      else if QUEUE_CAPACITY \<le> length (ch_queue c) then c\<lparr>ch_dropped := ch_dropped c + 1\<rparr>
      else c\<lparr>ch_queue := ch_queue c @ [r]\<rparr>)"

definition history_send :: "HistoryWriter \<Rightarrow> HistoryRecord \<Rightarrow> channels \<Rightarrow> channels" where
  "history_send w r cs =
     (case map_of cs w of None \<Rightarrow> cs | Some c \<Rightarrow> AList.update w (channel_send r c) cs)"

definition historic_of :: "Sample \<Rightarrow> HistoricSample option" where
  "historic_of s =
     (let base = \<lparr>hs_sensor = sample_sensor s, hs_ts_micros = sample_ts_micros s,
                  hs_scalar = None, hs_counter = None, hs_state = None\<rparr>
      in case sample_reading s of
           Scalar v \<Rightarrow> Some (base\<lparr>hs_scalar := Some v\<rparr>)
         | Counter v \<Rightarrow> Some (base\<lparr>hs_counter := Some v\<rparr>)
         | State v \<Rightarrow> Some (base\<lparr>hs_state := Some v\<rparr>)
         | Table _ \<Rightarrow> None)"

definition history_record :: "HistoryWriter \<Rightarrow> Sample \<Rightarrow> channels \<Rightarrow> channels" where
  "history_record w s cs =
     (case historic_of s of None \<Rightarrow> cs | Some h \<Rightarrow> history_send w (RecSample h) cs)"

definition record_alert_event :: "HistoryWriter \<Rightarrow> AlertEvent \<Rightarrow> channels \<Rightarrow> channels" where
  "record_alert_event w e cs = history_send w (RecAlertEvent e) cs"

section \<open>The tables\<close>

type_synonym sample_row = "fl option \<times> int option \<times> string option"

record database =
  db_samples :: "((SensorId \<times> int) \<times> sample_row) list"
  db_alert_events :: "((string \<times> int) \<times> string) list"

definition i64_of :: "u64 \<Rightarrow> int" where
  "i64_of v = sint v"

definition u64_of_i64 :: "int \<Rightarrow> u64" where
  "u64_of_i64 i = word_of_int i"

definition sqlite_real :: "fl option \<Rightarrow> fl option" where
  "sqlite_real x = (case x of Some NaN \<Rightarrow> None | _ \<Rightarrow> x)"

definition insert_sample :: "HistoricSample \<Rightarrow> database \<Rightarrow> database" where
  "insert_sample s db =
     db\<lparr>db_samples :=
          AList.update (hs_sensor s, i64_of (hs_ts_micros s))
            (sqlite_real (hs_scalar s), map_option i64_of (hs_counter s), hs_state s) (db_samples db)\<rparr>"

definition insert_alert_event :: "AlertEvent \<Rightarrow> database \<Rightarrow> database" where
  "insert_alert_event e db =
     db\<lparr>db_alert_events :=
          AList.update (ev_rule e, i64_of (ev_ts_micros e))
            (case ev_kind e of Fired \<Rightarrow> ''fired'' | Cleared \<Rightarrow> ''cleared'') (db_alert_events db)\<rparr>"

text \<open>A flush is one transaction: when the engine fails, nothing of the batch is written.\<close>

definition flush_samples :: "bool \<Rightarrow> HistoricSample list \<Rightarrow> database \<Rightarrow> database" where
  "flush_samples engine_ok batch db = (if engine_ok then fold insert_sample batch db else db)"

definition flush_alert_events :: "bool \<Rightarrow> AlertEvent list \<Rightarrow> database \<Rightarrow> database" where
  "flush_alert_events engine_ok batch db = (if engine_ok then fold insert_alert_event batch db else db)"

text \<open>
  Two autocommitted deletes. The engine parameters say whether each executes; the result is
  the number of rows removed, \<open>None\<close> when a statement failed.
\<close>

definition prune_older_than :: "bool \<Rightarrow> bool \<Rightarrow> u64 \<Rightarrow> database \<Rightarrow> nat option \<times> database" where
  "prune_older_than ok1 ok2 cutoff_micros db =
     (if \<not> ok1 then (None, db)
      else
        let old = (\<lambda>((_, ts), _). ts < i64_of cutoff_micros);
            old_ev = (\<lambda>((_, ts), _). ts < i64_of cutoff_micros);
            removed_samples = length (filter old (db_samples db));
            db1 = db\<lparr>db_samples := filter (\<lambda>r. \<not> old r) (db_samples db)\<rparr>
        in if \<not> ok2 then (None, db1)
           else (Some (removed_samples + length (filter old_ev (db_alert_events db1))),
                 db1\<lparr>db_alert_events := filter (\<lambda>r. \<not> old_ev r) (db_alert_events db1)\<rparr>))"

definition PRUNE_INTERVAL :: nat where
  "PRUNE_INTERVAL = 3600 * 1000000000"

definition PRUNE_INITIAL_DELAY :: nat where
  "PRUNE_INITIAL_DELAY = 300 * 1000000000"

text \<open>
  \<open>retention\<close> is a whole number of seconds; \<^verbatim>\<open>as_micros() as u64\<close> truncates the 128-bit product.
  The result is the database and the new \<^verbatim>\<open>last_prune\<close>.
\<close>

definition maybe_prune ::
    "bool \<Rightarrow> bool \<Rightarrow> u64 \<Rightarrow> u64 option \<Rightarrow> nat \<Rightarrow> nat \<Rightarrow> database \<Rightarrow> database \<times> nat" where
  "maybe_prune ok1 ok2 wall_micros retention last_prune now db =
     (case retention of
        None \<Rightarrow> (db, last_prune)
      | Some secs \<Rightarrow>
          if now - last_prune < PRUNE_INTERVAL then (db, last_prune)
          else
            let cutoff = saturating_sub wall_micros (of_nat (unat secs * 1000000))
            in (snd (prune_older_than ok1 ok2 cutoff db), now))"

section \<open>The writer thread\<close>

record writer_state =
  ws_pending_samples :: "HistoricSample list"
  ws_pending_events :: "AlertEvent list"
  ws_last_flush :: nat
  ws_last_prune :: nat
  ws_db :: database

text \<open>What one \<^verbatim>\<open>recv_timeout\<close> returned, and what the clocks and the engine answer in this iteration.\<close>

datatype recv = Got HistoryRecord | RecvTimeout | Disconnected

record iteration =
  it_recv :: recv
  it_elapsed_at :: nat
  it_flushed_at :: nat
  it_prune_at :: nat
  it_wall_micros :: u64
  it_ok_samples :: bool
  it_ok_events :: bool
  it_ok_prune1 :: bool
  it_ok_prune2 :: bool

text \<open>\<^verbatim>\<open>log_dropped_pressure\<close> swaps the counter with zero.\<close>

definition log_dropped_pressure :: "u64 \<Rightarrow> u64" where
  "log_dropped_pressure dropped = 0"

definition writer_init :: "nat \<Rightarrow> database \<Rightarrow> writer_state" where
  "writer_init now db =
     \<lparr>ws_pending_samples = [], ws_pending_events = [], ws_last_flush = now,
      ws_last_prune =
        (if PRUNE_INTERVAL - PRUNE_INITIAL_DELAY \<le> now
         then now - (PRUNE_INTERVAL - PRUNE_INITIAL_DELAY) else now),
      ws_db = db\<rparr>"

definition writer_receive :: "HistoryRecord \<Rightarrow> writer_state \<Rightarrow> writer_state" where
  "writer_receive r ws =
     (case r of
        RecSample s \<Rightarrow> ws\<lparr>ws_pending_samples := ws_pending_samples ws @ [s]\<rparr>
      | RecAlertEvent e \<Rightarrow> ws\<lparr>ws_pending_events := ws_pending_events ws @ [e]\<rparr>)"

definition final_flush :: "iteration \<Rightarrow> writer_state \<Rightarrow> writer_state" where
  "final_flush it ws =
     (let db1 = (if ws_pending_samples ws \<noteq> []
                 then flush_samples (it_ok_samples it) (ws_pending_samples ws) (ws_db ws)
                 else ws_db ws);
          db2 = (if ws_pending_events ws \<noteq> []
                 then flush_alert_events (it_ok_events it) (ws_pending_events ws) db1 else db1)
      in ws\<lparr>ws_db := db2\<rparr>)"

definition flush_due :: "iteration \<Rightarrow> (writer_state \<times> u64) \<Rightarrow> (writer_state \<times> u64)" where
  "flush_due it st =
     (let (ws, dropped) = st
      in if MAX_BATCH \<le> length (ws_pending_samples ws)
            \<or> (ws_pending_samples ws \<noteq> [] \<and> FLUSH_INTERVAL \<le> it_elapsed_at it - ws_last_flush ws)
         then (ws\<lparr>ws_db := flush_samples (it_ok_samples it) (ws_pending_samples ws) (ws_db ws),
                  ws_pending_samples := [], ws_last_flush := it_flushed_at it\<rparr>,
               log_dropped_pressure dropped)
         else st)"

definition flush_events :: "iteration \<Rightarrow> writer_state \<Rightarrow> writer_state" where
  "flush_events it ws =
     (if ws_pending_events ws \<noteq> []
      then ws\<lparr>ws_db := flush_alert_events (it_ok_events it) (ws_pending_events ws) (ws_db ws),
              ws_pending_events := []\<rparr>
      else ws)"

definition prune_due :: "u64 option \<Rightarrow> iteration \<Rightarrow> writer_state \<Rightarrow> writer_state" where
  "prune_due retention it ws =
     (case maybe_prune (it_ok_prune1 it) (it_ok_prune2 it) (it_wall_micros it) retention
             (ws_last_prune ws) (it_prune_at it) (ws_db ws) of
        (db, lp) \<Rightarrow> ws\<lparr>ws_db := db, ws_last_prune := lp\<rparr>)"

text \<open>One pass of the loop; the flag says whether it continues.\<close>

definition writer_step ::
    "u64 option \<Rightarrow> iteration \<Rightarrow> (writer_state \<times> u64) \<Rightarrow> (writer_state \<times> u64) \<times> bool" where
  "writer_step retention it st =
     (let (ws, dropped) = st
      in case it_recv it of
           Disconnected \<Rightarrow> ((final_flush it ws, log_dropped_pressure dropped), False)
         | r \<Rightarrow>
             let ws1 = (case r of Got rec \<Rightarrow> writer_receive rec ws | _ \<Rightarrow> ws);
                 (ws2, dropped2) = flush_due it (ws1, dropped)
             in ((prune_due retention it (flush_events it ws2), dropped2), True))"

fun run_writer ::
    "u64 option \<Rightarrow> iteration list \<Rightarrow> (writer_state \<times> u64) \<Rightarrow> (writer_state \<times> u64)" where
  "run_writer retention [] st = st"
| "run_writer retention (it # its) st =
     (case writer_step retention it st of
        (st', True) \<Rightarrow> run_writer retention its st'
      | (st', False) \<Rightarrow> st')"

section \<open>Queries\<close>

definition query_limit :: "u32 option \<Rightarrow> nat" where
  "query_limit max_points =
     unat (word_clamp 1 10000 (case max_points of None \<Rightarrow> 500 | Some n \<Rightarrow> n))"

text \<open>The rows of one sensor in a window, in time order (\<^verbatim>\<open>WHERE ... ORDER BY ts\<close>).\<close>

definition window_rows :: "SensorId \<Rightarrow> int \<Rightarrow> int \<Rightarrow> database \<Rightarrow> (int \<times> sample_row) list" where
  "window_rows sensor since until db =
     sort_key fst
       (map (\<lambda>((_, ts), row). (ts, row))
          (filter (\<lambda>((s, ts), _). s = sensor \<and> since \<le> ts \<and> ts \<le> until) (db_samples db)))"

definition bucket_of :: "nat \<Rightarrow> nat \<Rightarrow> nat \<Rightarrow> nat" where
  "bucket_of limit n i = (i * limit) div n"

text \<open>
  The rows that are first in their bucket, row \<open>i\<close> (its \<^verbatim>\<open>rn\<close> less one) being in bucket
  \<open>(i * limit) div n\<close> for \<open>n\<close> rows in all.
\<close>

definition downsample :: "nat \<Rightarrow> 'r list \<Rightarrow> 'r list" where
  "downsample limit rows =
     take limit
       (map (nth rows)
          (filter (\<lambda>i. \<forall>j \<in> set [0..<i].
                     bucket_of limit (length rows) j \<noteq> bucket_of limit (length rows) i)
             [0..<length rows]))"

definition row_reading :: "sample_row \<Rightarrow> Reading" where
  "row_reading row =
     (case row of
        (Some v, _, _) \<Rightarrow> Scalar v
      | (None, Some v, _) \<Rightarrow> Counter (u64_of_i64 v)
      | (None, None, Some v) \<Rightarrow> State v
      | (None, None, None) \<Rightarrow> Scalar (Fin 0))"

text \<open>\<open>db\<close> is the database file as the read-only connection sees it, \<open>None\<close> when it cannot be opened.\<close>

definition history_query ::
    "string \<Rightarrow> database option \<Rightarrow> string \<Rightarrow> int \<Rightarrow> int \<Rightarrow> u32 option \<Rightarrow> (Sample list, string) result" where
  "history_query db_path db sensor since_micros until_micros max_points =
     (case SensorId_try_new sensor of
        Err _ \<Rightarrow> Err (''invalid sensor id for query: '' @ debug_str sensor)
      | Ok sensor_id \<Rightarrow>
          (case db of
             None \<Rightarrow> Err (''open '' @ db_path @ '' for query'')
           | Some d \<Rightarrow>
               Ok (map (\<lambda>(ts, row). \<lparr>sample_sensor = sensor_id, sample_ts_micros = u64_of_i64 ts,
                          sample_reading = row_reading row\<rparr>)
                     (downsample (query_limit max_points)
                        (window_rows sensor_id since_micros until_micros d)))))"

definition retention_from_env :: "string option \<Rightarrow> u64 option" where
  "retention_from_env raw =
     (case raw of
        None \<Rightarrow> Some (30 * 86400)
      | Some s \<Rightarrow>
          if trim s = ''0'' then None
          else case parse_duration_dhm (trim s) of
                 Some d \<Rightarrow> Some d
               | None \<Rightarrow> Some (30 * 86400))"

section \<open>The queue never blocks and never overflows\<close>

lemma channel_send_fold:
  assumes "ch_open c" and "length (ch_queue c) \<le> QUEUE_CAPACITY"
  shows "fold channel_send rs c =
    c\<lparr>ch_queue := ch_queue c @ take (QUEUE_CAPACITY - length (ch_queue c)) rs,
      ch_dropped := ch_dropped c + of_nat (length rs - (QUEUE_CAPACITY - length (ch_queue c)))\<rparr>"
  using assms
proof (induction rs arbitrary: c)
  case (Cons r rs)
  show ?case
  proof (cases "QUEUE_CAPACITY \<le> length (ch_queue c)")
    case True
    with Cons.prems have "channel_send r c = c\<lparr>ch_dropped := ch_dropped c + 1\<rparr>"
      by (simp add: channel_send_def)
    with True Cons.prems show ?thesis by (simp add: Cons.IH algebra_simps)
  next
    case False
    then obtain k where k: "QUEUE_CAPACITY - length (ch_queue c) = Suc k" by (metis diff_is_0_eq not0_implies_Suc)
    then have "QUEUE_CAPACITY - Suc (length (ch_queue c)) = k" by simp
    moreover have "channel_send r c = c\<lparr>ch_queue := ch_queue c @ [r]\<rparr>"
      using False Cons.prems by (simp add: channel_send_def)
    ultimately show ?thesis using False Cons.prems k by (simp add: Cons.IH)
  qed
qed simp

text \<open>
  A burst of records sent to a live history channel is queued in order up to the capacity
  and the excess is counted as dropped, one for one; the queue never exceeds its capacity and
  no send waits. A channel whose writer is gone is left alone.
\<close>

theorem history_queue_bounded:
  assumes "ch_open c" and "length (ch_queue c) \<le> QUEUE_CAPACITY"
  shows "ch_queue (fold channel_send rs c) = ch_queue c @ take (QUEUE_CAPACITY - length (ch_queue c)) rs
    \<and> length (ch_queue (fold channel_send rs c)) \<le> QUEUE_CAPACITY
    \<and> ch_dropped (fold channel_send rs c) =
        ch_dropped c + of_nat (length rs - (QUEUE_CAPACITY - length (ch_queue c)))
    \<and> (\<not> ch_open c' \<longrightarrow> fold channel_send rs c' = c')"
proof -
  have "fold channel_send rs c' = c'" if "\<not> ch_open c'" for c'
    using that by (induction rs) (simp_all add: channel_send_def)
  then show ?thesis using assms by (simp add: channel_send_fold)
qed

definition demo_event :: AlertEvent where
  "demo_event = \<lparr>ev_rule = ''r'', ev_ts_micros = 0, ev_kind = Fired\<rparr>"

theorem history_queue_bounded_witness:
  "ch_queue (fold channel_send [RecAlertEvent demo_event, RecAlertEvent demo_event]
       \<lparr>ch_queue = [], ch_open = True, ch_dropped = 0\<rparr>)
     = [RecAlertEvent demo_event, RecAlertEvent demo_event]"
  using history_queue_bounded [of "\<lparr>ch_queue = [], ch_open = True, ch_dropped = 0\<rparr>"
      "[RecAlertEvent demo_event, RecAlertEvent demo_event]"]
  by (simp add: QUEUE_CAPACITY_def)

section \<open>Batching is transparent\<close>

text \<open>The abstract writer: every record is written at once.\<close>

definition apply_record :: "HistoryRecord \<Rightarrow> database \<Rightarrow> database" where
  "apply_record r db =
     (case r of RecSample s \<Rightarrow> insert_sample s db | RecAlertEvent e \<Rightarrow> insert_alert_event e db)"

definition received :: "iteration list \<Rightarrow> HistoryRecord list" where
  "received its = concat (map (\<lambda>it. case it_recv it of Got r \<Rightarrow> [r] | _ \<Rightarrow> []) its)"

definition contents :: "writer_state \<Rightarrow> database" where
  "contents ws =
     fold insert_alert_event (ws_pending_events ws) (fold insert_sample (ws_pending_samples ws) (ws_db ws))"

lemma insert_commute:
  "insert_sample s (insert_alert_event e db) = insert_alert_event e (insert_sample s db)"
  by (simp add: insert_sample_def insert_alert_event_def)

lemma fold_insert_commute:
  "insert_sample s (fold insert_alert_event es db) = fold insert_alert_event es (insert_sample s db)"
  by (induction es arbitrary: db) (simp_all add: insert_commute)

lemma folds_insert_commute:
  "fold insert_sample ss (fold insert_alert_event es db) = fold insert_alert_event es (fold insert_sample ss db)"
  by (induction ss arbitrary: db) (simp_all add: fold_insert_commute)

lemma contents_receive: "contents (writer_receive r ws) = apply_record r (contents ws)"
  by (cases r) (simp_all add: contents_def writer_receive_def apply_record_def fold_insert_commute)

lemma contents_flush_due: "it_ok_samples it \<Longrightarrow> contents (fst (flush_due it (ws, n))) = contents ws"
  by (simp add: flush_due_def contents_def flush_samples_def)

lemma contents_flush_events: "it_ok_events it \<Longrightarrow> contents (flush_events it ws) = contents ws"
  by (simp add: flush_events_def contents_def flush_alert_events_def folds_insert_commute)

lemma prune_due_None [simp]: "prune_due None it ws = ws"
  by (simp add: prune_due_def maybe_prune_def)

lemma contents_final_flush:
  "it_ok_samples it \<Longrightarrow> it_ok_events it \<Longrightarrow> ws_db (final_flush it ws) = contents ws"
  by (simp add: final_flush_def contents_def flush_samples_def flush_alert_events_def Let_def)

lemma writer_step_contents:
  assumes "it_recv it \<noteq> Disconnected" "it_ok_samples it" "it_ok_events it"
  shows "\<exists>ws' n'. writer_step None it (ws, n) = ((ws', n'), True)
    \<and> contents ws' = fold apply_record (received [it]) (contents ws)"
proof -
  let ?ws1 = "case it_recv it of Got rec \<Rightarrow> writer_receive rec ws | _ \<Rightarrow> ws"
  obtain ws2 n2 where f: "flush_due it (?ws1, n) = (ws2, n2)" by (cases "flush_due it (?ws1, n)")
  have "writer_step None it (ws, n) = ((flush_events it ws2, n2), True)"
    using assms(1) f by (cases "it_recv it") (simp_all add: writer_step_def)
  moreover have "contents ws2 = contents ?ws1"
    using contents_flush_due [OF assms(2), of ?ws1 n] f by simp
  moreover have "contents ?ws1 = fold apply_record (received [it]) (contents ws)"
    by (cases "it_recv it") (simp_all add: received_def contents_receive)
  ultimately show ?thesis by (simp add: contents_flush_events assms(3))
qed


definition demo_iteration :: "recv \<Rightarrow> iteration" where
  "demo_iteration r =
     \<lparr>it_recv = r, it_elapsed_at = 5, it_flushed_at = 6, it_prune_at = 7, it_wall_micros = 8,
      it_ok_samples = True, it_ok_events = True, it_ok_prune1 = True, it_ok_prune2 = True\<rparr>"


section \<open>Downsampling\<close>

lemma length_first_occurrences:
  "length (filter (\<lambda>i. \<forall>j \<in> set [0..<i]. f j \<noteq> f i) [0..<n]) = card (f ` {0..<n})"
proof (induction n)
  case (Suc n)
  have "f ` {0..<Suc n} = insert (f n) (f ` {0..<n})" by (auto simp: less_Suc_eq)
  moreover have "f n \<in> f ` {0..<n} \<longleftrightarrow> \<not> (\<forall>j \<in> set [0..<n]. f j \<noteq> f n)"
    unfolding image_iff set_upt by metis
  ultimately show ?case using Suc by (auto simp: card_insert_if)
qed simp

lemma ceil_div_bounds:
  fixes b t l :: nat
  assumes "0 < l"
  shows "b * t \<le> ((b * t + l - 1) div l) * l" and "((b * t + l - 1) div l) * l < b * t + l"
proof -
  let ?x = "b * t + l - 1"
  have "?x = (?x div l) * l + ?x mod l" and "?x mod l < l" using assms by simp_all
  then show "b * t \<le> (?x div l) * l" and "(?x div l) * l < b * t + l" using assms by linarith+
qed

lemma card_buckets:
  assumes "0 < l"
  shows "card (bucket_of l t ` {0..<t}) = min t l"
proof (cases "t \<le> l")
  case True
  have "inj_on (bucket_of l t) {0..<t}"
  proof (rule linorder_inj_onI)
    fix i j assume ij: "i < j" and "i \<in> {0..<t}" and "j \<in> {0..<t}"
    then have t: "0 < t" by auto
    have "i * l + t \<le> j * l" using ij True by (metis add_le_mono le_trans mult_Suc Suc_leI add.commute mult_le_mono1 order_refl)
    then have "(i * l) div t < (j * l) div t"
      using t by (metis div_add_self2 div_le_mono less_eq_Suc_le add.commute Suc_eq_plus1 plus_1_eq_Suc less_numeral_extra(3))
    then show "bucket_of l t i \<noteq> bucket_of l t j" by (simp add: bucket_of_def)
  qed auto
  then show ?thesis using True by (simp add: card_image)
next
  case False
  have "bucket_of l t ` {0..<t} = {0..<l}"
  proof (intro equalityI subsetI)
    fix b assume "b \<in> bucket_of l t ` {0..<t}"
    then obtain i where i: "i < t" and "b = i * l div t" by (auto simp: bucket_of_def)
    moreover have "i * l < l * t" using mult_strict_right_mono [OF i assms] by (simp add: mult.commute)
    ultimately show "b \<in> {0..<l}" by (simp add: div_less_iff_less_mult)
  next
    fix b assume "b \<in> {0..<l}"
    then have b: "b < l" by simp
    let ?i = "(b * t + l - 1) div l"
    note c = ceil_div_bounds [OF assms, of b t]
    have "?i * l < b * t + t" using c(2) False by linarith
    moreover have "b * t + t \<le> l * t" using b by (metis Suc_leI add.commute mult_Suc mult_le_mono1)
    ultimately have "?i < t" by (metis less_le_trans mult.commute mult_less_cancel2)
    moreover have "bucket_of l t ?i = b"
      unfolding bucket_of_def
    proof (rule div_nat_eqI)
      show "t * b \<le> ?i * l" using c(1) by (simp add: mult.commute)
      show "?i * l < t * Suc b" using \<open>?i * l < b * t + t\<close> by (simp add: mult.commute add.commute)
    qed
    ultimately show "b \<in> bucket_of l t ` {0..<t}" by force
  qed
  then show ?thesis using False by simp
qed

lemma length_downsample: "0 < l \<Longrightarrow> length (downsample l rows) = min (length rows) l"
  by (simp add: downsample_def length_first_occurrences card_buckets del: set_upt)

lemma subseq_downsample: "subseq (downsample l rows) rows"
proof -
  have "subseq (map (nth rows) (filter P [0..<length rows])) (map (nth rows) [0..<length rows])" for P
    by (intro subseq_map subseq_filter_left)
  then show ?thesis
    unfolding downsample_def map_nth by (meson take_is_prefix prefix_imp_subseq subseq_order.trans)
qed

lemma downsample_all: "0 < l \<Longrightarrow> length rows \<le> l \<Longrightarrow> downsample l rows = rows"
  by (metis length_downsample min.absorb1 subseq_downsample subseq_same_length)

lemma hd_downsample:
  assumes "0 < l" "rows \<noteq> []"
  shows "hd (downsample l rows) = hd rows"
proof -
  obtain n where n: "length rows = Suc n" using assms(2) by (cases rows) auto
  obtain k where "l = Suc k" using assms(1) by (cases l) auto
  with n assms(2) show ?thesis
    by (simp add: downsample_def upt_rec [of 0] hd_conv_nth del: upt_Suc)
qed

lemma query_limit_bounds: "0 < query_limit mp \<and> query_limit mp \<le> 10000"
proof -
  have "1 \<le> word_clamp 1 10000 x \<and> word_clamp 1 10000 x \<le> 10000" for x :: u32
    by (rule word_clamp_bounds) simp
  then have "1 \<le> unat (word_clamp 1 10000 x) \<and> unat (word_clamp 1 10000 x) \<le> 10000" for x :: u32
    by (simp add: word_le_nat_alt)
  then show ?thesis unfolding query_limit_def by (metis One_nat_def Suc_le_lessD)
qed

lemma sorted_subseq: "subseq xs ys \<Longrightarrow> sorted (map f ys) \<Longrightarrow> sorted (map f xs)"
  for f :: "'a \<Rightarrow> 'b::linorder"
proof (induction rule: list_emb.induct)
  case (list_emb_Cons2 x y xs ys)
  moreover have "set xs \<subseteq> set ys" using list_emb_Cons2.hyps(2) by (metis notin_set_nthsI subseq_conv_nths subsetI)
  ultimately show ?case by auto
qed auto

lemma window_rows_in:
  "(ts, row) \<in> set (window_rows sensor since until db) \<Longrightarrow> since \<le> ts \<and> ts \<le> until
     \<and> ((sensor, ts), row) \<in> set (db_samples db)"
  by (auto simp: window_rows_def)

text \<open>
  C25: A history query returns exactly \<open>min\<close> of the number of stored rows of the sensor in the
  window and the (clamped) point limit: all rows when they fit, otherwise one per bucket of
  the window, never more than the limit. The rows come from the window and are in time order,
  the oldest row of the window is always among them.
\<close>

theorem query_downsampling:
  assumes "SensorId_try_new sensor = Ok sid"
  shows "\<exists>rows samples. history_query path (Some db) sensor since until mp = Ok samples
    \<and> rows = downsample (query_limit mp) (window_rows sid since until db)
    \<and> samples = map (\<lambda>(ts, row). \<lparr>sample_sensor = sid, sample_ts_micros = u64_of_i64 ts,
                     sample_reading = row_reading row\<rparr>) rows
    \<and> length rows = min (length (window_rows sid since until db)) (query_limit mp)
    \<and> query_limit mp \<le> 10000
    \<and> subseq rows (window_rows sid since until db) \<and> sorted (map fst rows)
    \<and> (length (window_rows sid since until db) \<le> query_limit mp \<longrightarrow> rows = window_rows sid since until db)
    \<and> (window_rows sid since until db \<noteq> [] \<longrightarrow> rows \<noteq> [] \<and> hd rows = hd (window_rows sid since until db))"
proof -
  let ?w = "window_rows sid since until db" and ?l = "query_limit mp"
  have l: "0 < ?l" and u: "?l \<le> 10000" using query_limit_bounds by auto
  have s: "sorted (map fst (downsample ?l ?w))"
    by (rule sorted_subseq [OF subseq_downsample]) (simp add: window_rows_def)
  have "downsample ?l ?w \<noteq> []" if "?w \<noteq> []"
    using length_downsample [OF l, of ?w] that l by (metis length_0_conv min_def not_less0)
  then show ?thesis
    using assms u s length_downsample [OF l, of ?w] subseq_downsample [of ?l ?w] downsample_all [OF l, of ?w]
      hd_downsample [OF l, of ?w]
    by (simp add: history_query_def)
qed

definition demo_db :: database where
  "demo_db = \<lparr>db_samples = [((''a'', 3), (Some (Fin 3), None, None)), ((''a'', 1), (Some (Fin 1), None, None)),
     ((''b'', 2), (None, Some 7, None)), ((''a'', 2), (None, None, Some ''up''))], db_alert_events = []\<rparr>"

theorem query_downsampling_witness:
  "\<exists>samples. history_query ''h.db'' (Some demo_db) ''a'' 0 9 (Some 2) = Ok samples \<and> length samples = 2"
proof -
  have i: "SensorId_try_new ''a'' = Ok ''a''" by code_simp
  have w: "length (window_rows ''a'' 0 9 demo_db) = 3" and l: "query_limit (Some 2) = 2" by code_simp+
  from query_downsampling [OF i, of "''h.db''" demo_db 0 9 "Some 2"] w l
  show ?thesis by (auto simp del: length_0_conv)
qed

section \<open>What is recorded is read back\<close>

lemma u64_i64_round_trip [simp]: "u64_of_i64 (i64_of w) = w"
  by (simp add: u64_of_i64_def i64_of_def)

lemma i64_of_inj: "i64_of a = i64_of b \<longleftrightarrow> a = b"
  by (metis u64_i64_round_trip)

lemma filter_key_singleton:
  "distinct (map fst m) \<Longrightarrow> map_of m k = Some v \<Longrightarrow> filter (\<lambda>p. fst p = k) m = [(k, v)]"
proof (induction m)
  case (Cons p m)
  then show ?case by (auto simp: filter_empty_conv map_of_eq_None_iff) (metis fst_conv image_eqI)+
qed simp

lemma window_rows_point:
  assumes "distinct (map fst (db_samples db))" "map_of (db_samples db) (sensor, t) = Some row"
  shows "window_rows sensor t t db = [(t, row)]"
proof -
  have "filter (\<lambda>((s, ts), _). s = sensor \<and> t \<le> ts \<and> ts \<le> t) (db_samples db) =
      filter (\<lambda>p. fst p = (sensor, t)) (db_samples db)"
    by (rule filter_cong) (auto simp: case_prod_beta prod_eq_iff)
  then show ?thesis using filter_key_singleton [OF assms] by (simp add: window_rows_def)
qed

lemma query_point:
  assumes "distinct (map fst (db_samples db))" and "SensorId_try_new sensor = Ok sensor"
    and "map_of (db_samples db) (sensor, t) = Some row"
  shows "history_query path (Some db) sensor t t mp =
    Ok [\<lparr>sample_sensor = sensor, sample_ts_micros = u64_of_i64 t, sample_reading = row_reading row\<rparr>]"
proof -
  have "downsample (query_limit mp) [(t, row)] = [(t, row)]"
    using query_limit_bounds [of mp] by (intro downsample_all) auto
  then show ?thesis using assms by (simp add: history_query_def window_rows_point)
qed

text \<open>
  A scalar (other than NaN), counter or state sample that is recorded and flushed is what
  a query of its instant returns, for every 64-bit timestamp and counter value: the casts to
  SQLite's signed integers lose nothing, and a later sample with the same key replaces it.
\<close>

theorem history_round_trip:
  assumes "distinct (map fst (db_samples db))" and "SensorId_try_new (sample_sensor s) = Ok (sample_sensor s)"
    and "historic_of s = Some h" and "sample_reading s \<noteq> Scalar NaN"
  shows "history_query path (Some (flush_samples True [h] db)) (sample_sensor s)
           (i64_of (sample_ts_micros s)) (i64_of (sample_ts_micros s)) mp = Ok [s]"
proof -
  let ?row = "(sqlite_real (hs_scalar h), map_option i64_of (hs_counter h), hs_state h)"
  have h: "hs_sensor h = sample_sensor s" "hs_ts_micros h = sample_ts_micros s"
    and r: "row_reading ?row = sample_reading s"
    using assms(3,4)
    by (auto simp: historic_of_def Let_def row_reading_def sqlite_real_def split: Reading.splits fl.splits)
  let ?db = "flush_samples True [h] db"
  have "distinct (map fst (db_samples ?db))"
    using assms(1) by (simp add: flush_samples_def insert_sample_def hm.wf_ins)
  moreover have "map_of (db_samples ?db) (sample_sensor s, i64_of (sample_ts_micros s)) = Some ?row"
    by (simp add: flush_samples_def insert_sample_def h hm.get_ins)
  ultimately show ?thesis using query_point [OF _ assms(2)] r by simp
qed

theorem history_round_trip_witness:
  "history_query ''h.db'' (Some (flush_samples True [\<lparr>hs_sensor = ''a'', hs_ts_micros = - 1, hs_scalar = None,
       hs_counter = Some (- 2), hs_state = None\<rparr>] demo_db)) ''a'' (i64_of (- 1)) (i64_of (- 1)) None
   = Ok [\<lparr>sample_sensor = ''a'', sample_ts_micros = - 1, sample_reading = Counter (- 2)\<rparr>]"
proof -
  have "SensorId_try_new ''a'' = Ok ''a''" by code_simp
  then show ?thesis
    using history_round_trip [where db = demo_db and mp = None and path = "''h.db''"
        and s = "\<lparr>sample_sensor = ''a'', sample_ts_micros = - 1, sample_reading = Counter (- 2)\<rparr>"]
    by (simp add: demo_db_def historic_of_def)
qed

text \<open>
  C40: A scalar NaN (which a plugin may report) is stored as \<^verbatim>\<open>NULL\<close> and read back as the value
  zero: the query cannot tell a missing value from a measured zero.
\<close>

theorem nan_reads_back_as_zero:
  assumes "distinct (map fst (db_samples db))" and "SensorId_try_new (sample_sensor s) = Ok (sample_sensor s)"
    and "sample_reading s = Scalar NaN" and "historic_of s = Some h"
  shows "history_query path (Some (flush_samples True [h] db)) (sample_sensor s)
           (i64_of (sample_ts_micros s)) (i64_of (sample_ts_micros s)) mp
         = Ok [s\<lparr>sample_reading := Scalar (Fin 0)\<rparr>]"
proof -
  have h: "h = \<lparr>hs_sensor = sample_sensor s, hs_ts_micros = sample_ts_micros s, hs_scalar = Some NaN,
      hs_counter = None, hs_state = None\<rparr>"
    using assms(3,4) by (simp add: historic_of_def)
  let ?db = "flush_samples True [h] db"
  have "distinct (map fst (db_samples ?db))"
    using assms(1) by (simp add: flush_samples_def insert_sample_def hm.wf_ins)
  moreover have "map_of (db_samples ?db) (sample_sensor s, i64_of (sample_ts_micros s)) = Some (None, None, None)"
    by (simp add: flush_samples_def insert_sample_def h hm.get_ins sqlite_real_def)
  ultimately show ?thesis using query_point [OF _ assms(2)] by (simp add: row_reading_def)
qed

theorem nan_reads_back_as_zero_witness:
  "history_query ''h.db'' (Some (flush_samples True [\<lparr>hs_sensor = ''a'', hs_ts_micros = 5, hs_scalar = Some NaN,
       hs_counter = None, hs_state = None\<rparr>] demo_db)) ''a'' (i64_of 5) (i64_of 5) None
   = Ok [\<lparr>sample_sensor = ''a'', sample_ts_micros = 5, sample_reading = Scalar (Fin 0)\<rparr>]"
proof -
  have "SensorId_try_new ''a'' = Ok ''a''" by code_simp
  then show ?thesis
    using nan_reads_back_as_zero [where db = demo_db and mp = None and path = "''h.db''"
        and s = "\<lparr>sample_sensor = ''a'', sample_ts_micros = 5, sample_reading = Scalar NaN\<rparr>"]
    by (simp add: demo_db_def historic_of_def)
qed

section \<open>Retention\<close>

lemma i64_of_small: "unat w < 2 ^ 63 \<Longrightarrow> i64_of w = int (unat w)"
proof -
  assume a: "unat w < 2 ^ 63"
  have u: "uint w = int (unat w)" by (rule uint_nat)
  have l: "uint w < 2 ^ 63" unfolding u using a by (metis of_nat_less_numeral_power_cancel_iff)
  have "- (2 ^ 63) \<le> (0::int)" by simp
  also have "0 \<le> uint w" by (rule unsigned_greater_eq)
  finally have g: "- (2 ^ 63) \<le> uint w" .
  have n: "LENGTH(64) - Suc 0 = 63" by simp
  show ?thesis unfolding i64_of_def sint_uint n signed_take_bit_int_eq_self [OF g l] by (rule u)
qed

text \<open>
  A due prune removes exactly the rows (samples and alert events) older than the retention
  window and keeps every other row, when the window's microseconds fit in 64 bits and the clock
  is before the year 294,000. A prune that is not due, or no retention, changes nothing.
\<close>

theorem prune_exact:
  assumes "PRUNE_INTERVAL \<le> now - last_prune" and "unat secs * 1000000 < 2 ^ 64" and "unat wall < 2 ^ 63"
  shows "maybe_prune True True wall (Some secs) last_prune now db =
      (\<lparr>db_samples = filter (\<lambda>((_, ts), _). int (unat wall - unat secs * 1000000) \<le> ts) (db_samples db),
        db_alert_events = filter (\<lambda>((_, ts), _). int (unat wall - unat secs * 1000000) \<le> ts) (db_alert_events db)\<rparr>,
       now)
    \<and> maybe_prune ok1 ok2 wall None last_prune now db = (db, last_prune)
    \<and> (n - last_prune < PRUNE_INTERVAL \<longrightarrow>
         maybe_prune ok1 ok2 wall (Some secs) last_prune n db = (db, last_prune))"
proof -
  have "unat (of_nat (unat secs * 1000000) :: u64) = unat secs * 1000000"
    using assms(2)
    by (simp only: unsigned_of_nat take_bit_nat_eq_self len_num1 len_bit0) (simp add: take_bit_nat_eq_self)
  moreover define cut where "cut = saturating_sub wall (of_nat (unat secs * 1000000) :: u64)"
  ultimately have c: "unat cut = unat wall - unat secs * 1000000" by (simp only: unat_saturating_sub)
  then have "unat cut < 2 ^ 63" using assms(3) by linarith
  then have k: "i64_of cut = int (unat wall - unat secs * 1000000)" by (simp only: i64_of_small c)
  have "maybe_prune True True wall (Some secs) last_prune now db = (snd (prune_older_than True True cut db), now)"
    unfolding maybe_prune_def cut_def option.case Let_def using assms(1) by (simp only: if_False not_less [symmetric])
  moreover have "snd (prune_older_than True True cut db) =
      \<lparr>db_samples = filter (\<lambda>((_, ts), _). int (unat wall - unat secs * 1000000) \<le> ts) (db_samples db),
        db_alert_events = filter (\<lambda>((_, ts), _). int (unat wall - unat secs * 1000000) \<le> ts) (db_alert_events db)\<rparr>"
    unfolding k [symmetric] by (cases db) (simp add: prune_older_than_def case_prod_unfold not_less)
  moreover have "maybe_prune ok1 ok2 wall None last_prune now db = (db, last_prune)"
    by (simp add: maybe_prune_def)
  moreover have "maybe_prune ok1 ok2 wall (Some secs) last_prune n db = (db, last_prune)"
    if "n - last_prune < PRUNE_INTERVAL"
    unfolding maybe_prune_def option.case using that by (simp only: if_True)
  ultimately show ?thesis by presburger
qed

theorem prune_exact_witness:
  "fst (maybe_prune True True 10000000 (Some 3) 0 4000000000000
     \<lparr>db_samples = [((''a'', 6999999), (None, None, None)), ((''a'', 7000000), (None, None, None))], db_alert_events = []\<rparr>)
   = \<lparr>db_samples = [((''a'', 7000000), (None, None, None))], db_alert_events = []\<rparr>"
  using prune_exact [of 4000000000000 0 3 10000000
      "\<lparr>db_samples = [((''a'', 6999999), (None, None, None)), ((''a'', 7000000), (None, None, None))], db_alert_events = []\<rparr>"]
  by (simp add: PRUNE_INTERVAL_def)

text \<open>
  C37: A retention window of more than 584,542 years is accepted, and its microseconds are
  truncated to 64 bits: with \<^verbatim>\<open>LINSIGHT_HISTORY_RETENTION=213503983d\<close> the writer deletes a row that is
  only 28 hours old instead of keeping everything.
\<close>

theorem huge_retention_prunes_recent_rows:
  "retention_from_env (Some ''213503983d'') = Some 18446744131200
   \<and> fst (maybe_prune True True 1000000000000000 (Some 18446744131200) 0 PRUNE_INTERVAL
        \<lparr>db_samples = [((''cpu.util'', 1000000000000000 - 100800000000), (Some (Fin 1), None, None))], db_alert_events = []\<rparr>)
     = \<lparr>db_samples = [], db_alert_events = []\<rparr>"
  by code_simp

end
