(* ===== verification/Storage.thy ===== *)
theory Storage
  imports Plugin_Host
begin

text \<open>
  Files: the atomic JSON write of \<^verbatim>\<open>linsight-core/src/atomic_write.rs\<close> and the nickname store of
  \<^verbatim>\<open>apps/linsightd/src/nickname_store.rs\<close>. The file system is the map from paths to contents;
  every system call the code makes is one step that may fail, and a failed write may have
  written a prefix. An operation returns its result and every state the file system passed
  through, the last one being the state it leaves behind. JSON is a parameter.
\<close>

section \<open>The file system\<close>

type_synonym files = "string \<Rightarrow> string option"

datatype fs_call =
    CreateDirAll string | OpenNew string | WriteAll string string | SyncAll string
  | RenameFile string string | RemoveFile string | OpenTruncate string | SetMode string

text \<open>Which calls fail, with which error, and how much a failing write has written.\<close>

record fs_env =
  io_fault :: "fs_call \<Rightarrow> string option"
  io_partial :: nat

fun fs_effect :: "fs_call \<Rightarrow> files \<Rightarrow> files" where
  "fs_effect (CreateDirAll d) m = m"
| "fs_effect (OpenNew p) m = m(p \<mapsto> [])"
| "fs_effect (WriteAll p b) m = m(p \<mapsto> b)"
| "fs_effect (SyncAll p) m = m"
| "fs_effect (RenameFile a b) m = (m(b := m a))(a := None)"
| "fs_effect (RemoveFile p) m = m(p := None)"
| "fs_effect (OpenTruncate p) m = m(p \<mapsto> [])"
| "fs_effect (SetMode p) m = m"

fun fs_fail_effect :: "nat \<Rightarrow> fs_call \<Rightarrow> files \<Rightarrow> files" where
  "fs_fail_effect n (WriteAll p b) m = m(p \<mapsto> take n b)"
| "fs_fail_effect n c m = m"

fun fs_refuses :: "fs_call \<Rightarrow> files \<Rightarrow> bool" where
  "fs_refuses (OpenNew p) m = (m p \<noteq> None)"
| "fs_refuses (RenameFile a b) m = (m a = None)"
| "fs_refuses c m = False"

definition do_call :: "fs_env \<Rightarrow> fs_call \<Rightarrow> files \<Rightarrow> (unit, string) result \<times> files" where
  "do_call env c m =
     (case io_fault env c of
        Some e \<Rightarrow> (Err e, fs_fail_effect (io_partial env) c m)
      | None \<Rightarrow> if fs_refuses c m then (Err ''refused'', m) else (Ok (), fs_effect c m))"

fun run_calls :: "fs_env \<Rightarrow> fs_call list \<Rightarrow> files \<Rightarrow> (unit, string) result \<times> files list" where
  "run_calls env [] m = (Ok (), [m])"
| "run_calls env (c # cs) m =
     (case do_call env c m of
        (Err e, m') \<Rightarrow> (Err e, [m, m'])
      | (Ok _, m') \<Rightarrow> (case run_calls env cs m' of (r, t) \<Rightarrow> (r, m # t)))"

section \<open>Paths\<close>

definition file_name :: "string \<Rightarrow> string" where
  "file_name path = rev (takeWhile (\<lambda>c. c \<noteq> CHR ''/'') (rev path))"

definition path_parent :: "string \<Rightarrow> string option" where
  "path_parent path =
     (if CHR ''/'' \<in> set path
      then Some (take (length path - length (file_name path) - 1) path) else Some [])"

text \<open>\<^verbatim>\<open>Path::with_extension\<close> on a path with a file name.\<close>

definition with_extension :: "string \<Rightarrow> string \<Rightarrow> string" where
  "with_extension path ext =
     (case path_extension (file_name path) of
        None \<Rightarrow> path @ ''.'' @ ext
      | Some e \<Rightarrow> take (length path - length e) path @ ext)"

section \<open>Atomic writes (atomic_write.rs)\<close>

definition tmp_path :: "nat \<Rightarrow> u64 \<Rightarrow> string \<Rightarrow> string" where
  "tmp_path pid suffix path =
     with_extension path (''json.tmp.'' @ show_nat pid @ ''.'' @ show_nat (unat suffix))"

text \<open>
  \<open>serialized\<close> is what \<^verbatim>\<open>serde_json::to_string_pretty\<close> returns for the value. The counter is the
  process-wide \<^verbatim>\<open>TMP_COUNTER\<close>.
\<close>

definition atomic_write_json ::
    "fs_env \<Rightarrow> nat \<Rightarrow> string \<Rightarrow> (string, string) result \<Rightarrow> u64 \<Rightarrow> files \<Rightarrow>
     (unit, string) result \<times> u64 \<times> files list" where
  "atomic_write_json env pid path serialized counter m =
     (case run_calls env (case path_parent path of None \<Rightarrow> [] | Some d \<Rightarrow> [CreateDirAll d]) m of
        (Err e, t) \<Rightarrow> (Err e, counter, t)
      | (Ok _, t) \<Rightarrow>
          let tmp = tmp_path pid counter path; counter' = counter + 1
          in case serialized of
               Err e \<Rightarrow> (Err e, counter', t)
             | Ok body \<Rightarrow>
                 (case run_calls env [OpenNew tmp, WriteAll tmp body, SyncAll tmp] (last t) of
                    (Err e, t2) \<Rightarrow> (Err e, counter', t @ t2)
                  | (Ok _, t2) \<Rightarrow>
                      (case do_call env (RenameFile tmp path) (last t2) of
                         (Ok _, m') \<Rightarrow> (Ok (), counter', t @ t2 @ [m'])
                       | (Err e, m') \<Rightarrow>
                           (Err e, counter', t @ t2 @ [m', snd (do_call env (RemoveFile tmp) m')]))))"

section \<open>The nickname store (nickname_store.rs)\<close>

definition CURRENT_SCHEMA_VERSION :: u32 where
  "CURRENT_SCHEMA_VERSION = 1"

record NicknameStore =
  ns_schema_version :: u32
  ns_nicknames :: "(string \<times> string) list"

definition NicknameStore_default :: NicknameStore where
  "NicknameStore_default = \<lparr>ns_schema_version = CURRENT_SCHEMA_VERSION, ns_nicknames = []\<rparr>"

definition NicknameStore_load ::
    "fs_env \<Rightarrow> (string \<Rightarrow> NicknameStore option) \<Rightarrow> string \<Rightarrow> files \<Rightarrow> NicknameStore \<times> files" where
  "NicknameStore_load env parse path m =
     (case m path of
        None \<Rightarrow> (NicknameStore_default, m)
      | Some raw \<Rightarrow>
          (case parse raw of
             Some store \<Rightarrow> (store, m)
           | None \<Rightarrow>
               (NicknameStore_default,
                snd (do_call env (RenameFile path (with_extension path ''json.bad'')) m))))"

definition NicknameStore_save ::
    "fs_env \<Rightarrow> nat \<Rightarrow> (NicknameStore \<Rightarrow> (string, string) result) \<Rightarrow> string \<Rightarrow> NicknameStore \<Rightarrow>
     u64 \<Rightarrow> files \<Rightarrow> (unit, string) result \<times> u64 \<times> files list" where
  "NicknameStore_save env pid print path store counter m =
     atomic_write_json env pid path (print store) counter m"

section \<open>Lemmas\<close>

lemma path_extension_Some:
  assumes "path_extension name = Some e"
  shows "\<exists>stem. name = stem @ ''.'' @ e \<and> CHR ''.'' \<notin> set e"
proof -
  have e: "e = rev (takeWhile (\<lambda>c. c \<noteq> CHR ''.'') (rev name))" and dot: "CHR ''.'' \<in> set name"
    using assms by (auto simp: path_extension_def Let_def split: if_splits)
  obtain a b where n: "name = a @ CHR ''.'' # b" "CHR ''.'' \<notin> set b"
    using split_list_last [OF dot] by blast
  then have "e = b" unfolding e by (auto simp: takeWhile_append)
  with n show ?thesis by auto
qed

lemma with_extension_neq:
  assumes "CHR ''.'' \<in> set ext"
  shows "with_extension path ext \<noteq> path"
proof (cases "path_extension (file_name path)")
  case None
  then show ?thesis by (simp add: with_extension_def)
next
  case (Some e)
  obtain d where d: "path = d @ file_name path"
    unfolding file_name_def by (metis rev_append rev_rev_ident takeWhile_dropWhile_id)
  obtain stem where s: "file_name path = stem @ ''.'' @ e" and e: "CHR ''.'' \<notin> set e"
    using path_extension_Some [OF Some] by blast
  have p: "path = (d @ stem @ ''.'') @ e" using d s by simp
  then have "take (length path - length e) path = d @ stem @ ''.''" by simp
  then have "with_extension path ext = (d @ stem @ ''.'') @ ext"
    by (simp add: with_extension_def Some)
  then show ?thesis using assms e p by (metis same_append_eq)
qed

lemma tmp_path_neq: "tmp_path pid n path \<noteq> path"
  unfolding tmp_path_def by (rule with_extension_neq) simp

lemma run_calls_other:
  assumes "run_calls env cs m = (r, t)" and "\<forall>c \<in> set cs. \<forall>m. \<forall>q \<noteq> tmp. fs_effect c m q = m q
    \<and> fs_fail_effect (io_partial env) c m q = m q"
  shows "t \<noteq> [] \<and> (\<forall>m' \<in> set t. \<forall>q. q \<noteq> tmp \<longrightarrow> m' q = m q)"
  using assms
proof (induction cs arbitrary: m r t)
  case (Cons c cs)
  show ?case
  proof (cases "do_call env c m")
    case (Pair res m1)
    have m1: "m1 q = m q" if "q \<noteq> tmp" for q
      using Pair Cons.prems(2) that by (auto simp: do_call_def split: option.splits if_splits)
    show ?thesis
    proof (cases res)
      case (Err e)
      with Cons.prems(1) Pair m1 show ?thesis by auto
    next
      case (Ok u)
      obtain r2 t2 where "run_calls env cs m1 = (r2, t2)" by (cases "run_calls env cs m1")
      with Cons Pair Ok m1 show ?thesis by fastforce
    qed
  qed
qed auto

lemma run_calls_tmp_Ok:
  "run_calls env [OpenNew tmp, WriteAll tmp body, SyncAll tmp] m = (Ok u, t) \<Longrightarrow> last t tmp = Some body"
  by (auto simp: do_call_def split: option.splits if_splits prod.splits result.splits)

lemma atomic_write_states:
  assumes w: "atomic_write_json env pid path serialized counter m = (r, counter', trace)"
  shows "trace \<noteq> []
    \<and> (\<forall>m' \<in> set trace. (m' path = m path \<or> (\<exists>body. serialized = Ok body \<and> m' path = Some body))
         \<and> (\<forall>q. q \<noteq> path \<and> q \<noteq> tmp_path pid counter path \<longrightarrow> m' q = m q))
    \<and> (case r of
         Ok _ \<Rightarrow> (\<exists>body. serialized = Ok body \<and> last trace path = Some body)
                \<and> last trace (tmp_path pid counter path) = None
       | Err _ \<Rightarrow> last trace path = m path)"
proof -
  let ?tmp = "tmp_path pid counter path"
  obtain r0 t0 where c0: "run_calls env (case path_parent path of None \<Rightarrow> [] | Some d \<Rightarrow> [CreateDirAll d]) m = (r0, t0)"
    by (cases "run_calls env (case path_parent path of None \<Rightarrow> [] | Some d \<Rightarrow> [CreateDirAll d]) m")
  have t0: "t0 \<noteq> []" "\<forall>m' \<in> set t0. \<forall>q. q \<noteq> ?tmp \<longrightarrow> m' q = m q"
    using run_calls_other [OF c0, of ?tmp] by (cases "path_parent path"; simp)+
  have p: "path \<noteq> ?tmp" using tmp_path_neq by metis
  have l0: "last t0 q = m q" if "q \<noteq> ?tmp" for q using t0 that by auto
  show ?thesis
  proof (cases "\<exists>body. r0 = Ok () \<and> serialized = Ok body")
    case False
    then have "trace = t0 \<and> (\<exists>e. r = Err e)"
      using w c0 by (cases r0; cases serialized) (auto simp: atomic_write_json_def Let_def)
    then show ?thesis using t0 p l0 by auto
  next
    case True
    then obtain body where b: "r0 = Ok ()" "serialized = Ok body" by blast
    let ?cs = "[OpenNew ?tmp, WriteAll ?tmp body, SyncAll ?tmp]"
    obtain r1 t1 where c1: "run_calls env ?cs (last t0) = (r1, t1)" by (cases "run_calls env ?cs (last t0)")
    have t1: "t1 \<noteq> []" "\<forall>m' \<in> set t1. \<forall>q. q \<noteq> ?tmp \<longrightarrow> m' q = m q"
      using run_calls_other [OF c1, of ?tmp] l0 by auto
    have l1: "last t1 q = m q" if "q \<noteq> ?tmp" for q using t1 that by auto
    show ?thesis
    proof (cases r1)
      case (Err e)
      then have "trace = t0 @ t1 \<and> r = Err e" using w c0 c1 b by (auto simp: atomic_write_json_def Let_def)
      then show ?thesis using t0 t1 p l1 by auto
    next
      case (Ok u)
      then have lt: "last t1 ?tmp = Some body" using run_calls_tmp_Ok c1 by metis
      obtain r2 m2 where c2: "do_call env (RenameFile ?tmp path) (last t1) = (r2, m2)"
        by (cases "do_call env (RenameFile ?tmp path) (last t1)")
      show ?thesis
      proof (cases r2)
        case r2: (Ok u)
        then have m2: "m2 = ((last t1)(path := Some body))(?tmp := None)"
          using c2 lt by (auto simp: do_call_def split: option.splits if_splits)
        have "trace = t0 @ t1 @ [m2] \<and> r = Ok ()"
          using w c0 c1 c2 b Ok r2 by (auto simp: atomic_write_json_def Let_def)
        then show ?thesis using t0 t1 p l1 m2 b by auto
      next
        case r2: (Err e)
        then have m2: "m2 = last t1" using c2 by (auto simp: do_call_def split: option.splits if_splits)
        let ?m3 = "snd (do_call env (RemoveFile ?tmp) m2)"
        have m3: "?m3 q = m q" if "q \<noteq> ?tmp" for q
          using that l1 by (auto simp: m2 do_call_def split: option.splits)
        have "trace = t0 @ t1 @ [m2, ?m3] \<and> r = Err e"
          using w c0 c1 c2 b Ok r2 by (auto simp: atomic_write_json_def Let_def)
        then show ?thesis using t0 t1 p l1 m2 m3 by auto
      qed
    qed
  qed
qed

text \<open>
  C26: At every moment of an atomic write, whichever system call fails and however much a
  failing write has written, the target file holds either its previous contents or the whole
  new body, and no file but the target and the temporary sibling changes. When the call
  reports success the new body is in place and the temporary file is gone; when it reports an
  error the target is as it was.
\<close>

theorem atomic_write_all_or_nothing:
  assumes w: "atomic_write_json env pid path serialized counter m = (r, counter', trace)"
  shows "trace \<noteq> []
    \<and> (\<forall>m' \<in> set trace. (m' path = m path \<or> (\<exists>body. serialized = Ok body \<and> m' path = Some body))
         \<and> (\<forall>q. q \<noteq> path \<and> q \<noteq> tmp_path pid counter path \<longrightarrow> m' q = m q))
    \<and> (case r of
         Ok _ \<Rightarrow> (\<exists>body. serialized = Ok body \<and> last trace path = Some body)
                \<and> last trace (tmp_path pid counter path) = None
       | Err _ \<Rightarrow> last trace path = m path)"
  using assms by (rule atomic_write_states)

theorem atomic_write_all_or_nothing_witness:
  "\<exists>trace. atomic_write_json \<lparr>io_fault = (\<lambda>c. None), io_partial = 0\<rparr> 7 ''a/h.json'' (Ok ''{}'') 3
       [''a/h.json'' \<mapsto> ''old''] = (Ok (), 4, trace)
     \<and> last trace ''a/h.json'' = Some ''{}'' \<and> last trace (tmp_path 7 3 ''a/h.json'') = None"
proof -
  let ?env = "\<lparr>io_fault = (\<lambda>c. None), io_partial = 0\<rparr>" and ?m = "[''a/h.json'' \<mapsto> ''old'']"
  have p: "tmp_path 7 3 ''a/h.json'' = ''a/h.json.tmp.7.3''" by code_simp
  have q: "path_parent ''a/h.json'' = Some ''a''" by code_simp
  obtain trace where t: "atomic_write_json ?env 7 ''a/h.json'' (Ok ''{}'') 3 ?m = (Ok (), 4, trace)"
    by (simp add: atomic_write_json_def q p do_call_def Let_def)
  from atomic_write_all_or_nothing [OF t] t show ?thesis by auto
qed

text \<open>
  C11: What the nickname store saves it loads: after a save that reports success the file
  parses back to the store that was saved, for every JSON library that parses what it prints;
  and a file that does not parse yields the default store while its contents are kept under
  the \<^verbatim>\<open>.json.bad\<close> name (when the rename succeeds).
\<close>

theorem nickname_store_round_trip:
  assumes "\<And>st b. print st = Ok b \<Longrightarrow> parse b = Some st"
  shows "(NicknameStore_save env pid print path store counter m = (Ok (), counter', trace) \<longrightarrow>
            NicknameStore_load env' parse path (last trace) = (store, last trace))
       \<and> (files path = Some raw \<and> parse raw = None \<and>
            io_fault env' (RenameFile path (with_extension path ''json.bad'')) = None \<longrightarrow>
            (\<exists>files'. NicknameStore_load env' parse path files = (NicknameStore_default, files')
               \<and> files' (with_extension path ''json.bad'') = Some raw \<and> files' path = None))"
proof (intro conjI impI)
  assume "NicknameStore_save env pid print path store counter m = (Ok (), counter', trace)"
  from atomic_write_states [OF this [unfolded NicknameStore_save_def]] assms
  show "NicknameStore_load env' parse path (last trace) = (store, last trace)"
    by (auto simp: NicknameStore_load_def)
next
  assume "files path = Some raw \<and> parse raw = None \<and>
    io_fault env' (RenameFile path (with_extension path ''json.bad'')) = None"
  moreover have "with_extension path ''json.bad'' \<noteq> path" by (rule with_extension_neq) simp
  ultimately show "\<exists>files'. NicknameStore_load env' parse path files = (NicknameStore_default, files')
      \<and> files' (with_extension path ''json.bad'') = Some raw \<and> files' path = None"
    by (simp add: NicknameStore_load_def do_call_def)
qed

theorem nickname_store_round_trip_witness:
  "\<exists>files'. NicknameStore_load \<lparr>io_fault = (\<lambda>c. None), io_partial = 0\<rparr>
       (\<lambda>s. if s = ''{}'' then Some NicknameStore_default else None) ''h.json'' [''h.json'' \<mapsto> ''garbage'']
       = (NicknameStore_default, files')
     \<and> files' (with_extension ''h.json'' ''json.bad'') = Some ''garbage'' \<and> files' ''h.json'' = None"
proof -
  let ?print = "\<lambda>st. if st = NicknameStore_default then Ok ''{}'' else Err ''unsupported''"
  let ?parse = "\<lambda>s. if s = ''{}'' then Some NicknameStore_default else None"
  have h: "\<And>st b. ?print st = Ok b \<Longrightarrow> ?parse b = Some st" by (auto split: if_splits)
  show ?thesis
    using nickname_store_round_trip [where print = ?print and parse = ?parse and path = "''h.json''"
        and env' = "\<lparr>io_fault = (\<lambda>c. None), io_partial = 0\<rparr>"
        and files = "[''h.json'' \<mapsto> ''garbage'']" and raw = "''garbage''", OF h]
    by simp
qed

end
