(* ===== verification/Alert_Text.thy ===== *)
theory Alert_Text
  imports Core_Types "HOL-Library.Char_ord" "HOL-Library.List_Lexorder"
begin

unbundle bit_operations_syntax

text \<open>
  The text handling of \<^verbatim>\<open>apps/linsightd/src/alerts.rs\<close>: the argv tokenizer of \<^verbatim>\<open>exec:\<close> targets,
  durations, the sensor names of an expression, and the check of webhook URLs with the address
  parser of the standard library it uses. A \<^verbatim>\<open>Duration\<close> is its nanoseconds.
\<close>

section \<open>shell_split\<close>

text \<open>The inner loops: the characters of a quoted segment are appended to the current token.\<close>

fun read_single_quoted :: "string \<Rightarrow> string \<Rightarrow> (string \<times> string, string) result" where
  "read_single_quoted [] current = Err ''unterminated single quote''"
| "read_single_quoted (c # cs) current =
     (if c = CHR 0x27 then Ok (current, cs) else read_single_quoted cs (current @ [c]))"

fun read_double_quoted :: "string \<Rightarrow> string \<Rightarrow> (string \<times> string, string) result" where
  "read_double_quoted [] current = Err ''unterminated double quote''"
| "read_double_quoted (c # cs) current =
     (if c = CHR 0x22 then Ok (current, cs)
      else if c = CHR 0x5C then
        (case cs of
           [] \<Rightarrow> Err ''unterminated escape in double quote''
         | e # cs' \<Rightarrow>
             if e \<in> {CHR 0x5C, CHR 0x22, CHR ''$'', CHR 0x60}
             then read_double_quoted cs' (current @ [e])
             else read_double_quoted cs' (current @ [CHR 0x5C, e]))
      else read_double_quoted cs (current @ [c]))"

lemma length_read_single_quoted:
  "read_single_quoted cs cur = Ok (cur', rest) \<Longrightarrow> length rest < length cs"
  by (induction cs cur rule: read_single_quoted.induct) (auto split: if_splits simp: less_SucI)

lemma length_read_double_quoted:
  "read_double_quoted cs cur = Ok (cur', rest) \<Longrightarrow> length rest < length cs"
  by (induction cs cur rule: read_double_quoted.induct)
    (auto split: if_splits list.splits simp: less_SucI)

definition is_split_space :: "char \<Rightarrow> bool" where
  "is_split_space c = (c = CHR '' '' \<or> c = CHR 0x09 \<or> c = CHR 0x0A)"

function shell_loop :: "string \<Rightarrow> string list \<Rightarrow> string \<Rightarrow> bool \<Rightarrow> (string list, string) result" where
  "shell_loop [] argv current in_token = Ok (if in_token then argv @ [current] else argv)"
| "shell_loop (c # cs) argv current in_token =
     (if is_split_space c \<and> \<not> in_token then shell_loop cs argv current in_token
      else if is_split_space c then shell_loop cs (argv @ [current]) [] False
      else if c = CHR 0x27 then
        (case read_single_quoted cs current of
           Err e \<Rightarrow> Err e
         | Ok (cur, rest) \<Rightarrow> shell_loop rest argv cur True)
      else if c = CHR 0x22 then
        (case read_double_quoted cs current of
           Err e \<Rightarrow> Err e
         | Ok (cur, rest) \<Rightarrow> shell_loop rest argv cur True)
      else if c = CHR 0x5C then
        (case cs of
           [] \<Rightarrow> Err ''trailing backslash''
         | ch # rest \<Rightarrow> shell_loop rest argv (current @ [ch]) True)
      else shell_loop cs argv (current @ [c]) True)"
  by pat_completeness auto
termination
  by (relation "measure (\<lambda>(cs, _). length cs)")
    (auto dest!: length_read_single_quoted length_read_double_quoted simp: less_Suc_eq)

definition shell_split :: "string \<Rightarrow> (string list, string) result" where
  "shell_split input = shell_loop input [] [] False"

section \<open>Durations\<close>

text \<open>
  \<^verbatim>\<open>str::parse::<f64>\<close> on a text of digits and dots (all that reaches it): at most one dot, at
  least one digit, the nearest \<^verbatim>\<open>f64\<close>.
\<close>

definition parse_f64_decimal :: "string \<Rightarrow> fl option" where
  "parse_f64_decimal s =
     (let (whole, frac) = (case split_once CHR ''.'' s of None \<Rightarrow> (s, []) | Some p \<Rightarrow> p)
      in if (whole = [] \<and> frac = []) \<or> \<not> list_all is_ascii_digit whole \<or> \<not> list_all is_ascii_digit frac
         then None
         else Some (round_f64 (of_nat (dec_value (whole @ frac)) / 10 ^ length frac)))"

text \<open>\<^verbatim>\<open>Duration::from_secs_f64\<close>: to the nearest nanosecond, panics on what does not fit.\<close>

fun from_secs_f64 :: "fl \<Rightarrow> nat exec" where
  "from_secs_f64 (Fin x) =
     (let n = round_half_even (x * 1000000000)
      in if x < 0 \<or> 2 ^ 64 * 1000000000 \<le> n then Panics else Returns (nat n))"
| "from_secs_f64 _ = Panics"

definition parse_duration :: "string \<Rightarrow> (nat, string) result exec" where
  "parse_duration s0 =
     (let s = trim s0;
          num = takeWhile (\<lambda>c. is_ascii_digit c \<or> c = CHR ''.'') s;
          unit = dropWhile (\<lambda>c. is_ascii_digit c \<or> c = CHR ''.'') s
      in case parse_f64_decimal num of
           None \<Rightarrow> Returns (Err (''invalid number in '' @ debug_str s))
         | Some n \<Rightarrow>
             (let secs =
                (if unit = [] \<or> unit = ''s'' then Some n
                 else if unit = ''ms'' then Some (fl_div n (Fin 1000))
                 else if unit = ''m'' then Some (fl_mul n (Fin 60))
                 else if unit = ''h'' then Some (fl_mul n (Fin 3600))
                 else None)
              in case secs of
                   None \<Rightarrow> Returns (Err (''unknown duration unit '' @ debug_str unit))
                 | Some x \<Rightarrow>
                     (case from_secs_f64 x of Panics \<Rightarrow> Panics | Returns d \<Rightarrow> Returns (Ok d))))"

text \<open>
  \<^verbatim>\<open>Duration::as_secs_f64\<close>: the whole seconds, plus the nanoseconds over \<open>10^9\<close>, each rounded.
\<close>

definition as_secs_f64 :: "nat \<Rightarrow> fl" where
  "as_secs_f64 d =
     (case (round_f64 (of_nat (d div 1000000000)), round_f64 (of_nat (d mod 1000000000) / 1000000000)) of
        (Fin a, Fin b) \<Rightarrow> round_f64 (a + b)
      | (x, _) \<Rightarrow> x)"

definition F64_EPSILON :: rat where
  "F64_EPSILON = 1 / 2 ^ 52"

text \<open>\<open>secs % k\<close> for a non-negative \<open>secs\<close> is exact.\<close>

definition is_multiple :: "rat \<Rightarrow> rat \<Rightarrow> bool" where
  "is_multiple secs k = (secs - k * of_int \<lfloor>secs / k\<rfloor> < F64_EPSILON)"

text \<open>The last branch prints an \<^verbatim>\<open>f64\<close>; how is a parameter.\<close>

definition format_duration :: "(fl \<Rightarrow> string) \<Rightarrow> nat \<Rightarrow> string" where
  "format_duration show_f64 d =
     (case as_secs_f64 d of
        Fin secs \<Rightarrow>
          if 3600 \<le> secs \<and> is_multiple secs 3600
          then show_nat (unat (fl_to_u64 (Fin secs)) div 3600) @ ''h''
          else if 60 \<le> secs \<and> is_multiple secs 60
          then show_nat (unat (fl_to_u64 (Fin secs)) div 60) @ ''m''
          else if 1 \<le> secs \<and> is_multiple secs 1
          then show_nat (unat (fl_to_u64 (Fin secs))) @ ''s''
          else if fl_le (round_f64 (1 / 1000)) (Fin secs)
          then show_nat (d div 1000000) @ ''ms''
          else show_f64 (Fin secs) @ ''s''
      | x \<Rightarrow> show_f64 x @ ''s'')"

definition opt_format_duration :: "(fl \<Rightarrow> string) \<Rightarrow> nat \<Rightarrow> string option" where
  "opt_format_duration show_f64 d = (if d = 0 then None else Some (format_duration show_f64 d))"

definition opt_parse_duration :: "string option \<Rightarrow> (nat, string) result exec" where
  "opt_parse_duration s =
     (case s of
        Some t \<Rightarrow> if t \<noteq> [] then parse_duration t else Returns (Ok 0)
      | None \<Rightarrow> Returns (Ok 0))"

section \<open>Sensor references\<close>

definition push_if_sensor_token :: "string \<Rightarrow> string list \<Rightarrow> string list" where
  "push_if_sensor_token token out =
     (if CHR ''.'' \<notin> set token then out
      else if \<not> is_ascii_alphabetic (hd token) then out
      else out @ [token])"

fun ref_loop :: "string \<Rightarrow> string \<Rightarrow> string list \<Rightarrow> string list" where
  "ref_loop [] current out = push_if_sensor_token current out"
| "ref_loop (c # cs) current out =
     (if is_ascii_alphanumeric c \<or> c = CHR ''.'' \<or> c = CHR ''_''
      then ref_loop cs (current @ [c]) out
      else ref_loop cs [] (push_if_sensor_token current out))"

definition extract_sensor_refs :: "string \<Rightarrow> string list" where
  "extract_sensor_refs expr = remdups_adj (sort (ref_loop expr [] []))"

section \<open>Addresses\<close>

datatype ip_addr = V4 "u8 list" | V6 "u16 list"

text \<open>
  The parser of \<^verbatim>\<open>core::net\<close>: each reader takes the text still to parse and returns a value and
  the rest, or \<open>None\<close> with nothing consumed.
\<close>

definition read_given_char :: "char \<Rightarrow> string \<Rightarrow> string option" where
  "read_given_char c s = (case s of [] \<Rightarrow> None | x # r \<Rightarrow> if x = c then Some r else None)"

definition read_number ::
    "(char \<Rightarrow> bool) \<Rightarrow> (string \<Rightarrow> nat) \<Rightarrow> nat \<Rightarrow> bool \<Rightarrow> nat \<Rightarrow> string \<Rightarrow> (nat \<times> string) option" where
  "read_number is_digit val_of max_digits allow_zero_prefix bound s =
     (let ds = takeWhile is_digit s
      in if ds = [] \<or> max_digits < length ds \<or> bound \<le> val_of ds
            \<or> (\<not> allow_zero_prefix \<and> hd ds = CHR ''0'' \<and> 1 < length ds)
         then None else Some (val_of ds, drop (length ds) s))"

definition read_octet :: "string \<Rightarrow> (nat \<times> string) option" where
  "read_octet s = read_number is_ascii_digit dec_value 3 False 256 s"

definition read_segment :: "string \<Rightarrow> (nat \<times> string) option" where
  "read_segment s = read_number is_hex_digit hex_value 4 True 65536 s"

fun read_octets :: "nat \<Rightarrow> string \<Rightarrow> (u8 list \<times> string) option" where
  "read_octets 0 s = Some ([], s)"
| "read_octets (Suc n) s =
     (case read_octet s of
        None \<Rightarrow> None
      | Some (o1, r) \<Rightarrow>
          if n = 0 then Some ([of_nat o1], r)
          else case read_given_char CHR ''.'' r of
                 None \<Rightarrow> None
               | Some r' \<Rightarrow> map_option (\<lambda>(os, t). (of_nat o1 # os, t)) (read_octets n r'))"

definition read_ipv4 :: "string \<Rightarrow> (u8 list \<times> string) option" where
  "read_ipv4 s = read_octets 4 s"

definition ipv4_groups :: "u8 list \<Rightarrow> u16 list" where
  "ipv4_groups os =
     [push_bit 8 (ucast (os ! 0)) OR ucast (os ! 1), push_bit 8 (ucast (os ! 2)) OR ucast (os ! 3)]"

text \<open>
  \<^verbatim>\<open>read_groups\<close> from group \<open>i\<close> on, with room for \<open>room\<close> more: the groups, whether they ended
  in an embedded IPv4 address, and the rest.
\<close>

fun read_groups :: "nat \<Rightarrow> nat \<Rightarrow> string \<Rightarrow> u16 list \<times> bool \<times> string" where
  "read_groups i 0 s = ([], False, s)"
| "read_groups i (Suc room) s =
     (case (if i = 0 then Some s else read_given_char CHR '':'' s) of
        None \<Rightarrow> ([], False, s)
      | Some s' \<Rightarrow>
          (case (if 0 < room then read_ipv4 s' else None) of
             Some (os, r) \<Rightarrow> (ipv4_groups os, True, r)
           | None \<Rightarrow>
               (case read_segment s' of
                  None \<Rightarrow> ([], False, s)
                | Some (g, r) \<Rightarrow>
                    (case read_groups (Suc i) room r of
                       (gs, v4, t) \<Rightarrow> (of_nat g # gs, v4, t)))))"

definition read_ipv6 :: "string \<Rightarrow> (u16 list \<times> string) option" where
  "read_ipv6 s =
     (let (head, head_ipv4, r) = read_groups 0 8 s
      in if length head = 8 then Some (head, r)
         else if head_ipv4 then None
         else case strip_prefix ''::'' r of
                None \<Rightarrow> None
              | Some r' \<Rightarrow>
                  (let (tail, _, t) = read_groups 0 (8 - (length head + 1)) r'
                   in Some (head @ replicate (8 - length head - length tail) 0 @ tail, t)))"

definition parse_ip_addr :: "string \<Rightarrow> ip_addr option" where
  "parse_ip_addr s =
     (case read_ipv4 s of
        Some (os, []) \<Rightarrow> Some (V4 os)
      | Some _ \<Rightarrow> None
      | None \<Rightarrow> (case read_ipv6 s of Some (gs, []) \<Rightarrow> Some (V6 gs) | _ \<Rightarrow> None))"

definition is_ipv6_link_local :: "u16 list \<Rightarrow> bool" where
  "is_ipv6_link_local segments = (segments ! 0 AND 0xFFC0 = 0xFE80)"

definition is_ipv6_unique_local :: "u16 list \<Rightarrow> bool" where
  "is_ipv6_unique_local segments = (segments ! 0 AND 0xFE00 = 0xFC00)"

definition is_restricted_ip :: "ip_addr \<Rightarrow> bool" where
  "is_restricted_ip ip =
     (case ip of
        V4 os \<Rightarrow>
          os ! 0 = 127
          \<or> (os ! 0 = 169 \<and> os ! 1 = 254)
          \<or> os ! 0 = 10 \<or> (os ! 0 = 172 \<and> 16 \<le> os ! 1 \<and> os ! 1 \<le> 31) \<or> (os ! 0 = 192 \<and> os ! 1 = 168)
          \<or> os = [0, 0, 0, 0]
      | V6 gs \<Rightarrow>
          gs = [0, 0, 0, 0, 0, 0, 0, 1] \<or> is_ipv6_link_local gs \<or> is_ipv6_unique_local gs
          \<or> gs = [0, 0, 0, 0, 0, 0, 0, 0])"

definition rsplit_last :: "char \<Rightarrow> string \<Rightarrow> string" where
  "rsplit_last d s = last (split_char d s)"

definition looks_like_numeric_host :: "string \<Rightarrow> bool" where
  "looks_like_numeric_host host =
     (if host = [] then False
      else if starts_with ''0x'' host \<or> starts_with ''0X'' host then True
      else let lst = rsplit_last CHR ''.'' host in lst \<noteq> [] \<and> list_all is_ascii_digit lst)"

text \<open>The texts of the errors name the address; the model keeps which check refused.\<close>

datatype WebhookError = BadScheme | BadIpv6Literal | RestrictedHost ip_addr | NumericHost string

definition webhook_host :: "string \<Rightarrow> (string, WebhookError) result" where
  "webhook_host host_port =
     (case strip_prefix ''['' host_port of
        Some after_lbracket \<Rightarrow>
          (case split_once CHR '']'' after_lbracket of
             Some (inner, _) \<Rightarrow> Ok inner
           | None \<Rightarrow> Err BadIpv6Literal)
      | None \<Rightarrow> Ok (hd (split_char CHR '':'' host_port)))"

definition validate_webhook_url :: "string \<Rightarrow> (unit, WebhookError) result" where
  "validate_webhook_url raw =
     (case (case strip_prefix ''http://'' raw of Some r \<Rightarrow> Some r | None \<Rightarrow> strip_prefix ''https://'' raw) of
        None \<Rightarrow> Err BadScheme
      | Some rest \<Rightarrow>
          let authority = hd (split_char CHR ''/'' rest);
              host_port = rsplit_last CHR ''@'' authority
          in case webhook_host host_port of
               Err e \<Rightarrow> Err e
             | Ok host_inner \<Rightarrow>
                 (case parse_ip_addr host_inner of
                    Some ip \<Rightarrow> if is_restricted_ip ip then Err (RestrictedHost ip) else Ok ()
                  | None \<Rightarrow> if looks_like_numeric_host host_inner then Err (NumericHost host_inner) else Ok ()))"

section \<open>Quoted arguments come back\<close>

text \<open>The usual way to quote an argument: single quotes, with a quote character escaped outside them.\<close>

definition shell_quote :: "string \<Rightarrow> string" where
  "shell_quote s =
     CHR 0x27 # concat (map (\<lambda>c. if c = CHR 0x27 then [CHR 0x27, CHR 0x5C, CHR 0x27, CHR 0x27] else [c]) s)
     @ [CHR 0x27]"

fun shell_join :: "string list \<Rightarrow> string" where
  "shell_join [] = []"
| "shell_join [a] = shell_quote a"
| "shell_join (a # as) = shell_quote a @ '' '' @ shell_join as"

lemma not_split_space: "\<not> is_split_space CHR 0x27" "\<not> is_split_space CHR 0x5C" "is_split_space CHR '' ''"
  by (simp_all add: is_split_space_def)

text \<open>Inside a single-quoted segment the loop returns to the segment after every escaped quote.\<close>

lemma read_quoted_body:
  "(case read_single_quoted
       (concat (map (\<lambda>c. if c = CHR 0x27 then [CHR 0x27, CHR 0x5C, CHR 0x27, CHR 0x27] else [c]) s)
         @ CHR 0x27 # rest) cur of
      Err e \<Rightarrow> Err e | Ok (cur', r) \<Rightarrow> shell_loop r argv cur' True)
   = shell_loop rest argv (cur @ s) True"
proof (induction s arbitrary: cur)
  case (Cons c s)
  show ?case
  proof (cases "c = CHR 0x27")
    case True
    then show ?thesis using Cons.IH [of "cur @ [c]"] by (simp add: not_split_space)
  next
    case False
    then show ?thesis using Cons.IH [of "cur @ [c]"] by simp
  qed
qed simp

lemma shell_loop_quote: "shell_loop (shell_quote a @ rest) argv [] False = shell_loop rest argv a True"
  using read_quoted_body [where s = a and rest = rest and cur = "[]" and argv = argv]
  by (simp add: shell_quote_def not_split_space)

text \<open>
  Quoting the arguments of a command and joining them with spaces gives a text that the
  tokenizer splits back into exactly those arguments, whatever characters they contain (spaces,
  quotes, backslashes, dollar signs and semicolons included) and also when some are empty.
\<close>

theorem shell_split_quote: "shell_split (shell_join as) = Ok as"
proof -
  have "shell_loop (shell_join as) argv [] False = Ok (argv @ as)" for argv
  proof (induction as arbitrary: argv rule: shell_join.induct)
    case (2 a)
    show ?case using shell_loop_quote [where a = a and rest = "[]" and argv = argv] by simp
  next
    case (3 a b as)
    then show ?case
      using shell_loop_quote [where a = a and rest = "'' '' @ shell_join (b # as)" and argv = argv] by (simp add: not_split_space)
  qed simp
  then show ?thesis by (simp add: shell_split_def)
qed

section \<open>Durations\<close>

lemma as_secs_whole:
  assumes "n < 2 ^ 53"
  shows "as_secs_f64 (n * 1000000000) = Fin (of_nat n)"
  using assms round_f64_of_nat [of 0] round_f64_of_nat [of n] by (simp add: as_secs_f64_def)

lemma is_multiple_nat: "0 < k \<Longrightarrow> is_multiple (of_nat n) (of_nat k) \<longleftrightarrow> k dvd n"
proof -
  assume k: "0 < k"
  have "\<lfloor>(of_nat n :: rat) / of_nat k\<rfloor> = int (n div k)"
    by (metis floor_divide_of_nat_eq)
  then have "of_nat n - of_nat k * of_int \<lfloor>(of_nat n :: rat) / of_nat k\<rfloor> = of_nat n - (of_nat (k * (n div k)) :: rat)"
    by simp
  also have "\<dots> = of_nat (n mod k)"
    by (metis minus_mult_div_eq_mod of_nat_diff times_div_less_eq_dividend)
  finally have "is_multiple (of_nat n) (of_nat k) \<longleftrightarrow> (of_nat (n mod k) :: rat) < 1 / 2 ^ 52"
    by (simp add: is_multiple_def F64_EPSILON_def)
  also have "\<dots> \<longleftrightarrow> n mod k = 0"
  proof (cases "n mod k")
    case (Suc m)
    have "(1::rat) \<le> of_nat (Suc m)" by simp
    moreover have "1 / 2 ^ 52 < (1::rat)" by simp
    ultimately show ?thesis using Suc by (metis leD nat.simps(3) less_trans less_le_not_le)
  qed simp
  finally show ?thesis by (simp add: dvd_eq_mod_eq_0)
qed

lemma round_half_even_int: "round_half_even (of_int k) = k"
  by (simp add: round_half_even_def)

lemma from_secs_whole:
  assumes "n < 2 ^ 53"
  shows "from_secs_f64 (Fin (of_nat n)) = Returns (n * 1000000000)"
proof -
  have "(of_nat n :: rat) * 1000000000 = of_int (int (n * 1000000000))" by simp
  then have "round_half_even ((of_nat n :: rat) * 1000000000) = int (n * 1000000000)"
    by (simp only: round_half_even_int)
  moreover have "int (n * 1000000000) < 2 ^ 64 * 1000000000" using assms by simp
  ultimately show ?thesis by (simp add: Let_def)
qed

lemma parse_f64_show_nat: "n < 2 ^ 53 \<Longrightarrow> parse_f64_decimal (show_nat n) = Some (Fin (of_nat n))"
proof -
  assume n: "n < 2 ^ 53"
  have d: "list_all is_ascii_digit (show_nat n)" by (rule show_nat_digits)
  then have "CHR ''.'' \<notin> set (show_nat n)" by (auto simp: list_all_iff is_ascii_digit_def)
  then have "split_once CHR ''.'' (show_nat n) = None" by (simp add: split_once_None)
  with d n show ?thesis by (simp add: parse_f64_decimal_def round_f64_of_nat)
qed

lemma number_and_unit:
  assumes "u \<in> {''s'', ''m'', ''h'', ''ms''}"
  shows "trim (show_nat n @ u) = show_nat n @ u"
    and "takeWhile (\<lambda>c. is_ascii_digit c \<or> c = CHR ''.'') (show_nat n @ u) = show_nat n"
    and "dropWhile (\<lambda>c. is_ascii_digit c \<or> c = CHR ''.'') (show_nat n @ u) = u"
proof -
  have u: "list_all (\<lambda>c. \<not> is_ascii_digit c \<and> \<not> is_whitespace c) u" "u \<noteq> []" "\<not> is_ascii_digit (hd u)" "hd u \<noteq> CHR ''.''"
    using assms by (auto simp: is_ascii_digit_def is_whitespace_def)
  then show "trim (show_nat n @ u) = show_nat n @ u" by (rule_tac parse_digits_unit(1))
  have "\<forall>c \<in> set (show_nat n). is_ascii_digit c" using show_nat_digits [of n] by (simp add: list_all_iff)
  with u show "takeWhile (\<lambda>c. is_ascii_digit c \<or> c = CHR ''.'') (show_nat n @ u) = show_nat n"
    and "dropWhile (\<lambda>c. is_ascii_digit c \<or> c = CHR ''.'') (show_nat n @ u) = u"
    by (cases u; simp add: takeWhile_append dropWhile_append)+
qed

lemma parse_duration_unit:
  assumes "(u, k) \<in> {(''s'', 1), (''m'', 60), (''h'', 3600)}" and "n * k < 2 ^ 53"
  shows "parse_duration (show_nat n @ u) = Returns (Ok (n * k * 1000000000))"
proof -
  have u: "u \<in> {''s'', ''m'', ''h'', ''ms''}" and "n \<le> n * k" using assms(1) by auto
  then have n: "n < 2 ^ 53" using assms(2) by linarith
  have m: "fl_mul (Fin (of_nat n)) (Fin (of_nat k)) = Fin (of_nat (n * k))"
    using round_f64_of_nat [OF assms(2)] by simp
  note p = number_and_unit [OF u] parse_f64_show_nat [OF n] from_secs_whole [OF assms(2)]
  from assms(1) consider "u = ''s''" "k = 1" | "u = ''m''" "k = 60" | "u = ''h''" "k = 3600" by auto
  then show ?thesis
    by cases (use p m in \<open>simp_all add: parse_duration_def del: fl_mul.simps from_secs_f64.simps\<close>)
qed

lemma whole_seconds_round_trip:
  assumes "n < 2 ^ 53"
  shows "opt_parse_duration (opt_format_duration show_f64 (n * 1000000000)) = Returns (Ok (n * 1000000000))"
proof (cases "n = 0")
  case True
  then show ?thesis by (simp add: opt_parse_duration_def opt_format_duration_def)
next
  case False
  have t: "unat (fl_to_u64 (Fin (of_nat n))) = n"
    using unat_fl_to_u64 [of n "of_nat n" "Suc n"] assms by (simp del: fl_to_u64.simps)
  note a = as_secs_whole [OF assms]
  have m: "is_multiple (of_nat n) 3600 \<longleftrightarrow> 3600 dvd n" "is_multiple (of_nat n) 60 \<longleftrightarrow> 60 dvd n"
    "is_multiple (of_nat n) 1"
    using is_multiple_nat [of 3600 n] is_multiple_nat [of 60 n] is_multiple_nat [of 1 n] by simp_all
  have ge: "3600 \<le> (of_nat n :: rat) \<longleftrightarrow> 3600 \<le> n" "60 \<le> (of_nat n :: rat) \<longleftrightarrow> 60 \<le> n" "1 \<le> (of_nat n :: rat)"
    using of_nat_le_iff [of 3600 n, where 'a = rat] of_nat_le_iff [of 60 n, where 'a = rat] False by simp_all
  define k u where "k = (if 3600 \<le> n \<and> 3600 dvd n then 3600 else if 60 \<le> n \<and> 60 dvd n then 60 else (1::nat))"
    and "u = (if 3600 \<le> n \<and> 3600 dvd n then ''h'' else if 60 \<le> n \<and> 60 dvd n then ''m'' else ''s'')"
  have f: "format_duration show_f64 (n * 1000000000) = show_nat (n div k) @ u"
    using m ge t a by (simp add: format_duration_def k_def u_def del: fl_to_u64.simps)
  have "k dvd n" by (simp add: k_def)
  then have "n div k * k = n" by simp
  moreover have "(u, k) \<in> {(''s'', 1), (''m'', 60), (''h'', 3600)}" by (simp add: k_def u_def)
  ultimately have "parse_duration (show_nat (n div k) @ u) = Returns (Ok (n * 1000000000))"
    using parse_duration_unit [of u k "n div k"] assms by simp
  with False f show ?thesis by (simp add: opt_parse_duration_def opt_format_duration_def)
qed

text \<open>
  C32: A whole number of seconds below \<open>2^53\<close> (and zero, which is written as absent) survives
  being formatted for the configuration file and parsed back, through the hour, the minute and
  the second form alike.
\<close>

theorem duration_round_trip:
  assumes "n < 2 ^ 53"
  shows "opt_parse_duration (opt_format_duration show_f64 (n * 1000000000)) = Returns (Ok (n * 1000000000))"
  using assms by (rule whole_seconds_round_trip)

theorem duration_round_trip_witness:
  "opt_parse_duration (opt_format_duration (\<lambda>_. []) (5400 * 1000000000)) = Returns (Ok (5400 * 1000000000))"
  by (rule duration_round_trip) simp

lemma round_f64_huge: "round_f64 99999999999999999999 = Fin 100000000000000000000"
proof -
  have "quantum 99999999999999999999 = 16384" by code_simp
  moreover have "round_half_even (99999999999999999999 / 16384) = 6103515625000000" by code_simp
  ultimately have "round_mag 99999999999999999999 = 100000000000000000000"
    by (simp add: round_mag_def)
  then show ?thesis by (simp add: round_f64_def Let_def)
qed

text \<open>
  C40: A duration text with a number too large for a \<^verbatim>\<open>Duration\<close> makes the conversion panic instead
  of returning the parse error: a client that upserts a rule with the hold time
  \<^verbatim>\<open>99999999999999999999s\<close> ends the thread that serves it.
\<close>

theorem huge_duration_panics:
  "opt_parse_duration (Some ''99999999999999999999s'') = Panics"
proof -
  let ?t = "''99999999999999999999s''"
  have "trim ?t = ?t" and "takeWhile (\<lambda>c. is_ascii_digit c \<or> c = CHR ''.'') ?t = ''99999999999999999999''"
    and "dropWhile (\<lambda>c. is_ascii_digit c \<or> c = CHR ''.'') ?t = ''s''"
    and "split_once CHR ''.'' ''99999999999999999999'' = None"
    and "list_all is_ascii_digit ''99999999999999999999''"
    and "dec_value ''99999999999999999999'' = 99999999999999999999"
    by code_simp+
  moreover have "round_half_even (100000000000000000000 * 1000000000) = 100000000000000000000000000000"
    using round_half_even_int [of 100000000000000000000000000000] by simp
  ultimately show ?thesis
    by (simp add: opt_parse_duration_def parse_duration_def parse_f64_decimal_def round_f64_huge)
qed

section \<open>Restricted webhook hosts\<close>

lemma split_char_single: "split_char d s = [w] \<Longrightarrow> d \<notin> set s"
  by (induction s arbitrary: w) (auto split: if_splits list.splits)

lemma last_split_char: "d \<notin> set b \<Longrightarrow> last (split_char d (a @ d # b)) = b"
proof (induction a)
  case Nil
  then show ?case by (simp add: split_char_absent)
next
  case (Cons c a)
  obtain w ws where w: "split_char d (a @ d # b) = w # ws" by (cases "split_char d (a @ d # b)") auto
  moreover have "ws \<noteq> []" using split_char_single [of d "a @ d # b" w] w by auto
  ultimately show ?case using Cons by (cases "c = d") (auto simp: split_char_append)
qed

lemma validate_webhook_url_scheme:
  assumes "scheme = ''http://'' \<or> scheme = ''https://''"
  shows "validate_webhook_url (scheme @ r) =
    (case webhook_host (rsplit_last CHR ''@'' (hd (split_char CHR ''/'' r))) of
       Err e \<Rightarrow> Err e
     | Ok host_inner \<Rightarrow>
         (case parse_ip_addr host_inner of
            Some ip \<Rightarrow> if is_restricted_ip ip then Err (RestrictedHost ip) else Ok ()
          | None \<Rightarrow> if looks_like_numeric_host host_inner then Err (NumericHost host_inner) else Ok ()))"
  using assms by (elim disjE) (simp_all add: validate_webhook_url_def Let_def)

text \<open>The forms in which an address can stand in a URL: bare, or in brackets.\<close>

definition host_form :: "string \<Rightarrow> string \<Rightarrow> bool" where
  "host_form host txt \<longleftrightarrow>
     (txt = host \<and> host \<noteq> [] \<and> (\<forall>c \<in> set host. c \<notin> set ''/@:['')) \<or>
     (txt = ''['' @ host @ '']'' \<and> (\<forall>c \<in> set host. c \<notin> set ''/@]''))"

definition port_form :: "string \<Rightarrow> bool" where
  "port_form port \<longleftrightarrow> port = [] \<or> (hd port = CHR '':'' \<and> (\<forall>c \<in> set port. c \<notin> set ''/@''))"

lemma webhook_host_form:
  assumes "host_form host txt" and "port_form port"
  shows "webhook_host (txt @ port) = Ok host"
  using assms(1) unfolding host_form_def
proof
  assume h: "txt = host \<and> host \<noteq> [] \<and> (\<forall>c \<in> set host. c \<notin> set ''/@:['')"
  then have "strip_prefix ''['' (host @ port) = None" by (cases host) auto
  moreover have "hd (split_char CHR '':'' (host @ port)) = host"
    using h assms(2) by (cases port) (auto simp: hd_split_char port_form_def takeWhile_append intro: takeWhile_eq_all_conv [THEN iffD2])
  ultimately show ?thesis using h by (simp add: webhook_host_def)
next
  assume h: "txt = ''['' @ host @ '']'' \<and> (\<forall>c \<in> set host. c \<notin> set ''/@]'')"
  then have "split_once CHR '']'' (host @ '']'' @ port) = Some (host, port)"
    by (auto simp: split_once_Some)
  then show ?thesis using h by (simp add: webhook_host_def)
qed

lemma host_form_chars:
  assumes "host_form host txt"
  shows "\<forall>c \<in> set txt. c \<noteq> CHR ''/'' \<and> c \<noteq> CHR ''@''"
proof -
  from assms consider "txt = host" "\<forall>c \<in> set host. c \<notin> set ''/@:[''"
    | "txt = ''['' @ host @ '']''" "\<forall>c \<in> set host. c \<notin> set ''/@]''"
    unfolding host_form_def by blast
  then show ?thesis by cases auto
qed

lemma port_form_chars: "port_form port \<Longrightarrow> \<forall>c \<in> set port. c \<noteq> CHR ''/'' \<and> c \<noteq> CHR ''@''"
  unfolding port_form_def by auto

text \<open>
  No URL whose host is a restricted address (loopback, link-local, private, unique-local
  or unspecified, in dotted or bracketed form) is accepted, whatever user information, port
  and path surround the host.
\<close>

theorem webhook_restricted_refused:
  assumes "parse_ip_addr host = Some ip" and "is_restricted_ip ip" and "host_form host txt"
    and "scheme = ''http://'' \<or> scheme = ''https://''"
    and "userinfo = [] \<or> (\<exists>u. userinfo = u @ ''@'' \<and> CHR ''/'' \<notin> set u)"
    and "port_form port" and "path = [] \<or> hd path = CHR ''/''"
  shows "validate_webhook_url (scheme @ userinfo @ txt @ port @ path) = Err (RestrictedHost ip)"
proof -
  let ?auth = "userinfo @ txt @ port"
  have tp: "\<forall>c \<in> set (txt @ port). c \<noteq> CHR ''/'' \<and> c \<noteq> CHR ''@''"
    using host_form_chars [OF assms(3)] port_form_chars [OF assms(6)] unfolding set_append by (metis UnE)
  have at: "CHR ''@'' \<notin> set (txt @ port)" using tp by metis
  have "CHR ''/'' \<notin> set userinfo" using assms(5) by (elim disjE exE conjE) simp_all
  then have ui: "\<forall>c \<in> set userinfo. c \<noteq> CHR ''/''" by metis
  have "takeWhile (\<lambda>c. c \<noteq> CHR ''/'') (?auth @ path) = ?auth @ takeWhile (\<lambda>c. c \<noteq> CHR ''/'') path"
    by (rule takeWhile_append2) (use ui tp in \<open>metis UnE set_append\<close>)
  moreover have "takeWhile (\<lambda>c. c \<noteq> CHR ''/'') path = []" using assms(7) by (cases path) simp_all
  ultimately have a: "hd (split_char CHR ''/'' (userinfo @ txt @ port @ path)) = ?auth"
    by (simp only: hd_split_char append_assoc append_Nil2)
  from assms(5) have u: "rsplit_last CHR ''@'' ?auth = txt @ port"
  proof
    assume "userinfo = []"
    then show ?thesis using split_char_absent [OF at] by (simp add: rsplit_last_def)
  next
    assume "\<exists>u. userinfo = u @ ''@'' \<and> CHR ''/'' \<notin> set u"
    then obtain v where "userinfo = v @ ''@''" by blast
    then show ?thesis using last_split_char [OF at, of v] by (simp add: rsplit_last_def)
  qed
  show ?thesis
    unfolding validate_webhook_url_scheme [OF assms(4)] a u webhook_host_form [OF assms(3,6)]
    using assms(1,2) by simp
qed

theorem webhook_restricted_refused_witness:
  "validate_webhook_url (''https://'' @ ''user@'' @ ''127.0.0.1'' @ '':8080'' @ ''/hook'') = Err (RestrictedHost (V4 [127, 0, 0, 1]))"
proof (rule webhook_restricted_refused)
  show "parse_ip_addr ''127.0.0.1'' = Some (V4 [127, 0, 0, 1])" and "is_restricted_ip (V4 [127, 0, 0, 1])"
    by code_simp+
  show "''user@'' = [] \<or> (\<exists>u. ''user@'' = u @ ''@'' \<and> CHR ''/'' \<notin> set u)"
    by (intro disjI2 exI [of _ "''user''"]) simp
qed (simp_all add: host_form_def port_form_def)

text \<open>
  The host is cut at the first slash only. A URL whose authority ends in a query or a
  fragment instead, and an IPv4 address written as an IPv4-mapped IPv6 literal, pass the check
  although they name the loopback host.
\<close>

theorem webhook_check_bypassed:
  "validate_webhook_url ''http://127.0.0.1?x'' = Ok () \<and> validate_webhook_url ''http://127.0.0.1#x'' = Ok ()
   \<and> validate_webhook_url ''http://[::ffff:127.0.0.1]/'' = Ok ()"
  by code_simp

section \<open>Sensor references\<close>

definition ref_char :: "char \<Rightarrow> bool" where
  "ref_char c \<longleftrightarrow> is_ascii_alphanumeric c \<or> c = CHR ''.'' \<or> c = CHR ''_''"

definition good_token :: "string \<Rightarrow> bool" where
  "good_token t \<longleftrightarrow> CHR ''.'' \<in> set t \<and> is_ascii_alphabetic (hd t) \<and> (\<forall>c \<in> set t. ref_char c)"

text \<open>A maximal run of name characters.\<close>

definition token_of :: "string \<Rightarrow> string \<Rightarrow> bool" where
  "token_of t s \<longleftrightarrow>
     (\<exists>a b. s = a @ t @ b \<and> (a = [] \<or> \<not> ref_char (last a)) \<and> (b = [] \<or> \<not> ref_char (hd b)))"

lemma token_of_run: "\<forall>c \<in> set cur. ref_char c \<Longrightarrow> t \<noteq> [] \<Longrightarrow> token_of t cur \<longleftrightarrow> t = cur"
proof
  assume c: "\<forall>c \<in> set cur. ref_char c" and "t \<noteq> []" and "token_of t cur"
  then obtain a b where e: "cur = a @ t @ b" and ab: "a = [] \<or> \<not> ref_char (last a)" "b = [] \<or> \<not> ref_char (hd b)"
    by (auto simp: token_of_def)
  have "a = []" using ab(1) c e by (metis UnCI last_in_set set_append)
  moreover have "b = []" using ab(2) c e by (metis UnCI hd_in_set set_append)
  ultimately show "t = cur" using e by simp
next
  assume "t = cur"
  then show "token_of t cur" unfolding token_of_def by (intro exI [of _ "[]"]) simp
qed

lemma token_of_break:
  assumes "\<forall>x \<in> set cur. ref_char x" "\<not> ref_char c" "\<forall>x \<in> set t. ref_char x" "t \<noteq> []"
  shows "token_of t (cur @ c # cs) \<longleftrightarrow> t = cur \<or> token_of t cs"
proof
  assume "token_of t (cur @ c # cs)"
  then obtain a b where e: "cur @ c # cs = a @ t @ b"
    and a: "a = [] \<or> \<not> ref_char (last a)" and b: "b = [] \<or> \<not> ref_char (hd b)"
    by (auto simp: token_of_def)
  from e consider us where "cur = a @ us" "us @ c # cs = t @ b" | us where "cur @ us = a" "c # cs = us @ t @ b"
    by (auto simp: append_eq_append_conv2)
  then show "t = cur \<or> token_of t cs"
  proof cases
    case 1
    then have a0: "a = []" using a assms(1) by (metis UnCI last_in_set set_append)
    from 1(2) consider vs where "us = t @ vs" "vs @ c # cs = b" | vs where "us @ vs = t" "c # cs = vs @ b"
      by (auto simp: append_eq_append_conv2)
    then show ?thesis
    proof cases
      case (1 vs)
      then have "vs = []" using b assms(1) \<open>cur = a @ us\<close>
        by (metis UnCI append_is_Nil_conv hd_append2 hd_in_set list.distinct(1) set_append)
      with 1 \<open>cur = a @ us\<close> a0 show ?thesis by simp
    next
      case (2 vs)
      then have "vs = [] \<or> c \<in> set t" by (cases vs) auto
      then have "vs = []" using assms(2,3) by blast
      with 2 \<open>cur = a @ us\<close> a0 show ?thesis by simp
    qed
  next
    case (2 us)
    show ?thesis
    proof (cases us)
      case Nil
      with 2 assms(2,3,4) show ?thesis by (cases t) auto
    next
      case (Cons x us')
      with 2 have "x = c" "cs = us' @ t @ b" by auto
      moreover have "us' = [] \<or> \<not> ref_char (last us')" using a 2 Cons by (cases us') auto
      ultimately show ?thesis using b by (auto simp: token_of_def)
    qed
  qed
next
  assume "t = cur \<or> token_of t cs"
  then show "token_of t (cur @ c # cs)"
  proof
    assume "t = cur"
    then show ?thesis
      unfolding token_of_def by (intro exI [of _ "[]"] exI [of _ "c # cs"]) (simp add: assms(2))
  next
    assume "token_of t cs"
    then obtain a b where "cs = a @ t @ b" "a = [] \<or> \<not> ref_char (last a)" "b = [] \<or> \<not> ref_char (hd b)"
      by (auto simp: token_of_def)
    then show ?thesis
      unfolding token_of_def by (intro exI [of _ "cur @ c # a"] exI [of _ b]) (auto simp: assms(2))
  qed
qed

lemma set_push_if: "\<forall>c \<in> set cur. ref_char c \<Longrightarrow>
    set (push_if_sensor_token cur out) = set out \<union> {t. good_token t \<and> t = cur}"
  by (auto simp: push_if_sensor_token_def good_token_def)

lemma set_ref_loop:
  "\<forall>c \<in> set cur. ref_char c \<Longrightarrow>
   set (ref_loop cs cur out) = set out \<union> {t. good_token t \<and> token_of t (cur @ cs)}"
proof (induction cs arbitrary: cur out)
  case Nil
  have "good_token t \<Longrightarrow> t \<noteq> []" for t by (auto simp: good_token_def)
  with Nil show ?case by (auto simp: set_push_if token_of_run)
next
  case (Cons c cs)
  have g: "good_token t \<Longrightarrow> t \<noteq> [] \<and> (\<forall>x \<in> set t. ref_char x)" for t by (auto simp: good_token_def)
  show ?case
  proof (cases "ref_char c")
    case True
    then show ?thesis using Cons.IH [of "cur @ [c]"] Cons.prems by (simp add: ref_char_def)
  next
    case False
    then have "set (ref_loop (c # cs) cur out) = set (ref_loop cs [] (push_if_sensor_token cur out))"
      by (simp add: ref_char_def)
    also have "\<dots> = set out \<union> {t. good_token t \<and> t = cur} \<union> {t. good_token t \<and> token_of t cs}"
      using Cons.IH [of "[]"] set_push_if [OF Cons.prems] by simp
    also have "\<dots> = set out \<union> {t. good_token t \<and> token_of t (cur @ c # cs)}"
      using g token_of_break [OF Cons.prems False] by blast
    finally show ?thesis .
  qed
qed

text \<open>
  The sensor references of an expression are exactly its maximal runs of letters, digits,
  dots and underscores that contain a dot and start with a letter, each once and in order; so a
  rule is re-evaluated for every dotted name it mentions and never for a number.
\<close>

theorem extract_sensor_refs_exact:
  "set (extract_sensor_refs expr) = {t. good_token t \<and> token_of t expr}
   \<and> sorted (extract_sensor_refs expr) \<and> distinct (extract_sensor_refs expr)"
proof -
  have "set (extract_sensor_refs expr) = {t. good_token t \<and> token_of t expr}"
    using set_ref_loop [of "[]" expr "[]"] by (simp add: extract_sensor_refs_def)
  moreover have "distinct (remdups_adj xs)" if "sorted xs" for xs :: "string list"
    using that by (induction xs rule: remdups_adj.induct) auto
  ultimately show ?thesis by (simp add: extract_sensor_refs_def sorted_remdups_adj)
qed

end
