(* ===== verification/Alert_Engine.thy ===== *)
theory Alert_Engine
  imports Alert_Text History Storage Protocol
begin

text \<open>
  The alert engine of \<^verbatim>\<open>apps/linsightd/src/alerts.rs\<close>: rules and their debouncing state, the values
  seen, the ring of events, evaluation of the rules a sample affects, and the rule requests.
  The evalexpr crate is a parameter (its context and its evaluator), as are toml and serde_json.
  Instants are nanoseconds. What lies outside the engine and is changed by it (the history
  channels, the running webhook posts) is a record that the operations return updated.
\<close>

section \<open>Parameters and state\<close>

record 'c evalexpr =
  ex_new :: 'c
  ex_set_value :: "string \<Rightarrow> fl \<Rightarrow> 'c \<Rightarrow> 'c"
  ex_eval_boolean :: "string \<Rightarrow> 'c \<Rightarrow> (bool, string) result exec"

definition MAX_EXPR_LEN :: nat where
  "MAX_EXPR_LEN = 4096"

definition EVENT_CAPACITY :: nat where
  "EVENT_CAPACITY = 512"

definition MAX_CONCURRENT_WEBHOOKS :: nat where
  "MAX_CONCURRENT_WEBHOOKS = 8"

definition VALUES_CAP :: nat where
  "VALUES_CAP = 4096"

datatype EvalOutcome = EvalOk bool | EvalErr string | EvalTimeout | EvalPanic

datatype NotifyJob = Desktop string string | Exec string string "string list"

record 'c EvalJob =
  job_idx :: nat
  job_rewritten_expr :: string
  job_ctx :: 'c

record RuleConfig =
  rc_name :: string
  rc_expr :: string
  rc_for :: "string option"
  rc_cooldown :: "string option"
  rc_notify :: "string list"
  rc_enabled :: "bool option"

record CompiledRule =
  cr_name :: string
  cr_expr :: string
  cr_rewritten_expr :: string
  cr_for_duration :: nat
  cr_cooldown :: nat
  cr_notify :: "string list"
  cr_enabled :: bool
  cr_triggered_at :: "nat option"
  cr_fired :: bool
  cr_last_fired_at :: "nat option"
  cr_referenced_sensors :: "string list"

record 'c AlertEngine =
  ae_rules :: "CompiledRule list"
  ae_values :: "(string \<times> fl) list"
  ae_ctx :: 'c
  ae_events :: "AlertEvent list"
  ae_event_writer :: "HistoryWriter option"

text \<open>What the engine changes outside itself.\<close>

record alert_world =
  aw_channels :: channels
  aw_webhooks :: nat
  aw_posts :: "(string \<times> string \<times> string) list"

text \<open>What one evaluation reads from outside: the clocks, and how many webhook posts have ended.\<close>

record alert_clock =
  ac_now :: nat
  ac_wall_micros :: u64
  ac_finished :: "string \<Rightarrow> nat"

section \<open>Evaluation\<close>

definition expr_too_long :: "string \<Rightarrow> EvalOutcome" where
  "expr_too_long e = EvalErr (''expression too long ('' @ show_nat (str_len e) @ '' bytes, limit 4096)'')"

definition eval_single :: "'c evalexpr \<Rightarrow> string \<Rightarrow> 'c \<Rightarrow> EvalOutcome" where
  "eval_single E rewritten_expr ctx =
     (if MAX_EXPR_LEN < str_len rewritten_expr then expr_too_long rewritten_expr
      else case ex_eval_boolean E rewritten_expr ctx of
             Returns (Ok b) \<Rightarrow> EvalOk b
           | Returns (Err e) \<Rightarrow> EvalErr e
           | Panics \<Rightarrow> EvalPanic)"

text \<open>\<open>in_time\<close>: whether the worker answered within \<^verbatim>\<open>EVAL_TIMEOUT\<close>.\<close>

definition eval_limited :: "'c evalexpr \<Rightarrow> bool \<Rightarrow> string \<Rightarrow> 'c \<Rightarrow> EvalOutcome" where
  "eval_limited E in_time rewritten_expr ctx =
     (if MAX_EXPR_LEN < str_len rewritten_expr then expr_too_long rewritten_expr
      else if \<not> in_time then EvalTimeout
      else case ex_eval_boolean E rewritten_expr ctx of
             Returns (Ok b) \<Rightarrow> EvalOk b
           | Returns (Err e) \<Rightarrow> EvalErr e
           | Panics \<Rightarrow> EvalPanic)"

definition rewrite_expr :: "string \<Rightarrow> string" where
  "rewrite_expr e = str_replace_char CHR ''.'' ''__'' e"

section \<open>Notifications\<close>

definition fire_webhook ::
    "alert_clock \<Rightarrow> string \<Rightarrow> string \<Rightarrow> string \<Rightarrow> string \<Rightarrow> alert_world \<Rightarrow> alert_world" where
  "fire_webhook clk target name expr url w =
     (case validate_webhook_url url of
        Err _ \<Rightarrow> w
      | Ok _ \<Rightarrow>
          let active = aw_webhooks w - ac_finished clk target
          in if MAX_CONCURRENT_WEBHOOKS \<le> active then w\<lparr>aw_webhooks := active\<rparr>
             else w\<lparr>aw_webhooks := active + 1, aw_posts := aw_posts w @ [(url, name, expr)]\<rparr>)"

fun build_notifications ::
    "alert_clock \<Rightarrow> string \<Rightarrow> string \<Rightarrow> string list \<Rightarrow> alert_world \<Rightarrow> NotifyJob list \<times> alert_world" where
  "build_notifications clk name expr [] w = ([], w)"
| "build_notifications clk name expr (target # ts) w =
     (if target = ''desktop'' then
        (case build_notifications clk name expr ts w of (js, w') \<Rightarrow> (Desktop name expr # js, w'))
      else case strip_prefix ''exec:'' target of
             Some cmd \<Rightarrow>
               (case build_notifications clk name expr ts w of
                  (js, w') \<Rightarrow>
                    (case shell_split cmd of
                       Ok argv \<Rightarrow> if argv = [] then (js, w') else (Exec name target argv # js, w')
                     | Err _ \<Rightarrow> (js, w')))
           | None \<Rightarrow>
               (case strip_prefix ''webhook:'' target of
                  Some url \<Rightarrow>
                    build_notifications clk name expr ts (fire_webhook clk target name expr url w)
                | None \<Rightarrow> build_notifications clk name expr ts w))"

section \<open>The engine\<close>

definition push_event ::
    "AlertEvent \<Rightarrow> 'c AlertEngine \<times> alert_world \<Rightarrow> 'c AlertEngine \<times> alert_world" where
  "push_event ev st =
     (let (eng, w) = st;
          kept = (if length (ae_events eng) = EVENT_CAPACITY then butlast (ae_events eng) else ae_events eng);
          w' = (case ae_event_writer eng of
                  None \<Rightarrow> w
                | Some h \<Rightarrow> w\<lparr>aw_channels := record_alert_event h ev (aw_channels w)\<rparr>)
      in (eng\<lparr>ae_events := ev # kept\<rparr>, w'))"

definition prune_unreferenced_values :: "'c evalexpr \<Rightarrow> 'c AlertEngine \<Rightarrow> 'c AlertEngine" where
  "prune_unreferenced_values E eng =
     (let referenced = concat (map cr_referenced_sensors (ae_rules eng));
          values = filter (\<lambda>(k, _). k \<in> set referenced) (ae_values eng)
      in if length values < length (ae_values eng)
         then eng\<lparr>ae_values := values,
                  ae_ctx := fold (\<lambda>(k, v). ex_set_value E (rewrite_expr k) v) values (ex_new E)\<rparr>
         else eng\<lparr>ae_values := values\<rparr>)"

definition reading_value :: "Reading \<Rightarrow> fl option" where
  "reading_value r = (case r of Scalar v \<Rightarrow> Some v | Counter v \<Rightarrow> Some (fl_of_u64 v) | _ \<Rightarrow> None)"

definition observe :: "'c evalexpr \<Rightarrow> Sample \<Rightarrow> 'c AlertEngine \<Rightarrow> 'c EvalJob list \<times> 'c AlertEngine" where
  "observe E sample eng =
     (case reading_value (sample_reading sample) of
        None \<Rightarrow> ([], eng)
      | Some val \<Rightarrow>
          let i = sample_sensor sample;
              eng1 = (if \<not> hm_contains (ae_values eng) i \<and> VALUES_CAP \<le> length (ae_values eng)
                      then prune_unreferenced_values E eng else eng);
              eng2 = eng1\<lparr>ae_values := AList.update i val (ae_values eng1),
                          ae_ctx := ex_set_value E (rewrite_expr i) val (ae_ctx eng1)\<rparr>
          in (map (\<lambda>(idx, rule). \<lparr>job_idx = idx, job_rewritten_expr = cr_rewritten_expr rule,
                      job_ctx = ae_ctx eng2\<rparr>)
                (filter (\<lambda>(_, rule). cr_enabled rule \<and> i \<in> set (cr_referenced_sensors rule))
                   (List.enumerate 0 (ae_rules eng2))),
              eng2))"

text \<open>Indexing \<^verbatim>\<open>self.rules[idx]\<close> out of range is \<open>Panics\<close>.\<close>

definition apply_eval_result ::
    "alert_clock \<Rightarrow> nat \<Rightarrow> EvalOutcome \<Rightarrow> 'c AlertEngine \<times> alert_world \<Rightarrow>
     (NotifyJob list \<times> 'c AlertEngine \<times> alert_world) exec" where
  "apply_eval_result clk idx outcome st =
     (let (eng, w) = st
      in if length (ae_rules eng) \<le> idx then Panics
         else
           let rule = ae_rules eng ! idx; now = ac_now clk; set_rule = (\<lambda>r e. e\<lparr>ae_rules := (ae_rules e)[idx := r]\<rparr>)
           in case outcome of
                EvalOk True \<Rightarrow>
                  (let new_triggered_at = (case cr_triggered_at rule of None \<Rightarrow> now | Some t \<Rightarrow> t);
                       rule1 = rule\<lparr>cr_triggered_at := Some new_triggered_at\<rparr>;
                       within_cooldown = (case cr_last_fired_at rule of
                          None \<Rightarrow> False | Some lf \<Rightarrow> now - lf < cr_cooldown rule)
                   in if \<not> cr_fired rule \<and> cr_for_duration rule \<le> now - new_triggered_at \<and> \<not> within_cooldown
                      then
                        (let eng1 = set_rule (rule1\<lparr>cr_fired := True, cr_last_fired_at := Some now\<rparr>) eng;
                             (jobs, w1) = build_notifications clk (cr_name rule) (cr_expr rule) (cr_notify rule) w;
                             (eng2, w2) = push_event \<lparr>ev_rule = cr_name rule, ev_ts_micros = ac_wall_micros clk,
                                            ev_kind = Fired\<rparr> (eng1, w1)
                         in Returns (jobs, eng2, w2))
                      else Returns ([], set_rule rule1 eng, w))
              | EvalOk False \<Rightarrow>
                  (let eng1 = set_rule (rule\<lparr>cr_triggered_at := None, cr_fired := False\<rparr>) eng
                   in if cr_fired rule
                      then Returns ([], push_event \<lparr>ev_rule = cr_name rule, ev_ts_micros = ac_wall_micros clk,
                                          ev_kind = Cleared\<rparr> (eng1, w))
                      else Returns ([], eng1, w))
              | _ \<Rightarrow> Returns ([], eng, w))"

text \<open>
  \<^verbatim>\<open>on_sample\<close> without another thread in between: every affected rule is evaluated on the
  context of the observation, its outcome (or the timeout) applied in order. \<open>clk\<close> and \<open>in_time\<close>
  give the clock and the punctuality for each job.
\<close>

fun apply_jobs ::
    "'c evalexpr \<Rightarrow> (nat \<Rightarrow> alert_clock) \<Rightarrow> (nat \<Rightarrow> bool) \<Rightarrow> 'c EvalJob list \<Rightarrow> 'c AlertEngine \<times> alert_world \<Rightarrow>
     (NotifyJob list \<times> 'c AlertEngine \<times> alert_world) exec" where
  "apply_jobs E clk in_time [] st = Returns ([], st)"
| "apply_jobs E clk in_time (job # jobs) st =
     (let outcome = (if in_time (job_idx job) then eval_single E (job_rewritten_expr job) (job_ctx job)
                     else EvalTimeout)
      in exec_bind (apply_eval_result (clk (job_idx job)) (job_idx job) outcome st)
           (\<lambda>(n1, st1). exec_bind (apply_jobs E clk in_time jobs st1)
              (\<lambda>(n2, st2). Returns (n1 @ n2, st2))))"

definition on_sample ::
    "'c evalexpr \<Rightarrow> (nat \<Rightarrow> alert_clock) \<Rightarrow> (nat \<Rightarrow> bool) \<Rightarrow> Sample \<Rightarrow> 'c AlertEngine \<times> alert_world \<Rightarrow>
     (NotifyJob list \<times> 'c AlertEngine \<times> alert_world) exec" where
  "on_sample E clk in_time sample st =
     (case observe E sample (fst st) of
        (jobs, eng) \<Rightarrow> apply_jobs E clk in_time jobs (eng, snd st))"

definition set_event_writer :: "HistoryWriter option \<Rightarrow> 'c AlertEngine \<Rightarrow> 'c AlertEngine" where
  "set_event_writer writer eng = eng\<lparr>ae_event_writer := writer\<rparr>"

section \<open>Requests\<close>

definition list_events :: "u32 option \<Rightarrow> 'c AlertEngine \<Rightarrow> AlertEvent list" where
  "list_events limit eng =
     (case limit of None \<Rightarrow> ae_events eng | Some n \<Rightarrow> take (unat n) (ae_events eng))"

definition list_events_json ::
    "(AlertEvent list \<Rightarrow> string option) \<Rightarrow> u32 option \<Rightarrow> 'c AlertEngine \<Rightarrow> string" where
  "list_events_json to_json limit eng =
     (case to_json (list_events limit eng) of Some s \<Rightarrow> s | None \<Rightarrow> ''[]'')"

definition list_rules_json :: "(fl \<Rightarrow> string) \<Rightarrow> 'c AlertEngine \<Rightarrow> AlertRuleJson list" where
  "list_rules_json show_f64 eng =
     map (\<lambda>r. \<lparr>json_name = cr_name r, json_expr = cr_expr r,
               json_for_duration = opt_format_duration show_f64 (cr_for_duration r),
               json_cooldown = opt_format_duration show_f64 (cr_cooldown r),
               json_notify = cr_notify r, json_enabled = cr_enabled r\<rparr>)
       (ae_rules eng)"

definition fresh_rule ::
    "string \<Rightarrow> string \<Rightarrow> nat \<Rightarrow> nat \<Rightarrow> string list \<Rightarrow> bool \<Rightarrow> CompiledRule" where
  "fresh_rule name expr for_d cooldown notify enabled =
     \<lparr>cr_name = name, cr_expr = expr, cr_rewritten_expr = rewrite_expr expr, cr_for_duration = for_d,
      cr_cooldown = cooldown, cr_notify = notify, cr_enabled = enabled, cr_triggered_at = None,
      cr_fired = False, cr_last_fired_at = None, cr_referenced_sensors = extract_sensor_refs expr\<rparr>"

text \<open>Updates the first rule of that name, or appends one.\<close>

fun upsert_in ::
    "string \<Rightarrow> string \<Rightarrow> nat \<Rightarrow> nat \<Rightarrow> string list \<Rightarrow> bool option \<Rightarrow> CompiledRule list \<Rightarrow> CompiledRule list" where
  "upsert_in name expr for_d cooldown notify enabled [] =
     [fresh_rule name expr for_d cooldown notify (case enabled of None \<Rightarrow> True | Some e \<Rightarrow> e)]"
| "upsert_in name expr for_d cooldown notify enabled (r # rs) =
     (if cr_name r = name
      then r\<lparr>cr_expr := expr, cr_rewritten_expr := rewrite_expr expr, cr_notify := notify,
             cr_referenced_sensors := extract_sensor_refs expr, cr_for_duration := for_d,
             cr_cooldown := cooldown,
             cr_enabled := (case enabled of None \<Rightarrow> cr_enabled r | Some e \<Rightarrow> e),
             cr_triggered_at := None, cr_fired := False, cr_last_fired_at := None\<rparr> # rs
      else r # upsert_in name expr for_d cooldown notify enabled rs)"

definition upsert_rule ::
    "string \<Rightarrow> string \<Rightarrow> string option \<Rightarrow> string option \<Rightarrow> string list \<Rightarrow> bool option \<Rightarrow>
     'c AlertEngine \<Rightarrow> ((unit, string) result \<times> 'c AlertEngine) exec" where
  "upsert_rule name expr for_duration cooldown notify enabled eng =
     exec_bind (opt_parse_duration for_duration) (\<lambda>fd.
       case fd of
         Err e \<Rightarrow> Returns (Err e, eng)
       | Ok f \<Rightarrow>
           exec_bind (opt_parse_duration cooldown) (\<lambda>cd.
             case cd of
               Err e \<Rightarrow> Returns (Err e, eng)
             | Ok c \<Rightarrow>
                 Returns (Ok (), eng\<lparr>ae_rules := upsert_in name expr f c notify enabled (ae_rules eng)\<rparr>)))"

definition delete_rule :: "string \<Rightarrow> 'c AlertEngine \<Rightarrow> (bool, string) result \<times> 'c AlertEngine" where
  "delete_rule name eng =
     (let rules = filter (\<lambda>r. cr_name r \<noteq> name) (ae_rules eng)
      in (Ok (length rules < length (ae_rules eng)), eng\<lparr>ae_rules := rules\<rparr>))"

section \<open>Configuration\<close>

definition rule_config :: "(fl \<Rightarrow> string) \<Rightarrow> CompiledRule \<Rightarrow> RuleConfig" where
  "rule_config show_f64 r =
     \<lparr>rc_name = cr_name r, rc_expr = cr_expr r,
      rc_for = opt_format_duration show_f64 (cr_for_duration r),
      rc_cooldown = opt_format_duration show_f64 (cr_cooldown r), rc_notify = cr_notify r,
      rc_enabled = (if cr_enabled r then None else Some False)\<rparr>"

text \<open>The file is opened with truncation, written and chmodded in place. The result is the trace of file states.\<close>

definition save_config ::
    "fs_env \<Rightarrow> (fl \<Rightarrow> string) \<Rightarrow> (RuleConfig list \<Rightarrow> (string, string) result) \<Rightarrow> string \<Rightarrow> 'c AlertEngine \<Rightarrow>
     files \<Rightarrow> (unit, string) result \<times> files list" where
  "save_config env show_f64 to_toml path eng m =
     (case to_toml (map (rule_config show_f64) (ae_rules eng)) of
        Err e \<Rightarrow> (Err (''serialize: '' @ e), [m])
      | Ok toml_str \<Rightarrow>
          (case do_call env (OpenTruncate path) m of
             (Err e, m1) \<Rightarrow> (Err (''open: '' @ e), [m, m1])
           | (Ok _, m1) \<Rightarrow>
               (case do_call env (WriteAll path toml_str) m1 of
                  (Err e, m2) \<Rightarrow> (Err (''write: '' @ e), [m, m1, m2])
                | (Ok _, m2) \<Rightarrow>
                    (case do_call env (SetMode path) m2 of
                       (Err e, m3) \<Rightarrow> (Err (''chmod: '' @ e), [m, m1, m2, m3])
                     | (Ok _, m3) \<Rightarrow> (Ok (), [m, m1, m2, m3])))))"

fun compile_rules :: "RuleConfig list \<Rightarrow> (CompiledRule list, string) result exec" where
  "compile_rules [] = Returns (Ok [])"
| "compile_rules (r # rs) =
     exec_bind (opt_parse_duration (rc_for r)) (\<lambda>fd.
       case fd of
         Err _ \<Rightarrow> Returns (Err (''rule '' @ rc_name r @ '': bad `for`''))
       | Ok f \<Rightarrow>
           exec_bind (opt_parse_duration (rc_cooldown r)) (\<lambda>cd.
             case cd of
               Err _ \<Rightarrow> Returns (Err (''rule '' @ rc_name r @ '': bad `cooldown`''))
             | Ok c \<Rightarrow>
                 exec_bind (compile_rules rs) (\<lambda>rest.
                   case rest of
                     Err e \<Rightarrow> Returns (Err e)
                   | Ok crs \<Rightarrow>
                       Returns (Ok (fresh_rule (rc_name r) (rc_expr r) f c (rc_notify r)
                          (case rc_enabled r of None \<Rightarrow> True | Some e \<Rightarrow> e) # crs)))))"

definition alerts_load ::
    "'c evalexpr \<Rightarrow> (string \<Rightarrow> (RuleConfig list, string) result) \<Rightarrow> string \<Rightarrow> files \<Rightarrow>
     ('c AlertEngine, string) result exec" where
  "alerts_load E from_toml path m =
     (case m path of
        None \<Rightarrow> Returns (Err (''read '' @ path))
      | Some content \<Rightarrow>
          (case from_toml content of
             Err _ \<Rightarrow> Returns (Err (''parse '' @ path))
           | Ok rules \<Rightarrow>
               exec_bind (compile_rules rules) (\<lambda>r.
                 case r of
                   Err e \<Rightarrow> Returns (Err e)
                 | Ok compiled \<Rightarrow>
                     Returns (Ok \<lparr>ae_rules = compiled, ae_values = [], ae_ctx = ex_new E, ae_events = [],
                                  ae_event_writer = None\<rparr>))))"

section \<open>The rule machine\<close>

text \<open>
  The abstract specification of one rule: what an evaluation does to the rule and whether it
  produces an event.
\<close>

definition rule_machine :: "nat \<Rightarrow> bool \<Rightarrow> CompiledRule \<Rightarrow> CompiledRule \<times> AlertEventKind option" where
  "rule_machine now holds r =
     (if holds then
        (let t = (case cr_triggered_at r of None \<Rightarrow> now | Some t \<Rightarrow> t);
             quiet = (case cr_last_fired_at r of None \<Rightarrow> True | Some lf \<Rightarrow> cr_cooldown r \<le> now - lf)
         in if \<not> cr_fired r \<and> cr_for_duration r \<le> now - t \<and> quiet
            then (r\<lparr>cr_triggered_at := Some t, cr_fired := True, cr_last_fired_at := Some now\<rparr>, Some Fired)
            else (r\<lparr>cr_triggered_at := Some t\<rparr>, None))
      else (r\<lparr>cr_triggered_at := None, cr_fired := False\<rparr>, if cr_fired r then Some Cleared else None))"

definition log_event :: "CompiledRule \<Rightarrow> u64 \<Rightarrow> AlertEventKind option \<Rightarrow> AlertEvent list \<Rightarrow> AlertEvent list" where
  "log_event r ts k evs =
     (case k of
        None \<Rightarrow> evs
      | Some kind \<Rightarrow> take EVENT_CAPACITY (\<lparr>ev_rule = cr_name r, ev_ts_micros = ts, ev_kind = kind\<rparr> # evs))"

lemma push_event_ring:
  assumes "length (ae_events eng) \<le> EVENT_CAPACITY"
  shows "ae_events (fst (push_event ev (eng, w))) = take EVENT_CAPACITY (ev # ae_events eng)"
    and "ae_rules (fst (push_event ev (eng, w))) = ae_rules eng"
    and "ae_values (fst (push_event ev (eng, w))) = ae_values eng"
    and "ae_ctx (fst (push_event ev (eng, w))) = ae_ctx eng"
  using assms
  by (auto simp: push_event_def Let_def EVENT_CAPACITY_def butlast_conv_take take_Cons split: nat.splits)

text \<open>The engine implements the machine, for the evaluated rule and only for it.\<close>

lemma apply_eval_refines:
  assumes "idx < length (ae_rules eng)" and "length (ae_events eng) \<le> EVENT_CAPACITY"
  obtains jobs eng' w' where "apply_eval_result clk idx (EvalOk b) (eng, w) = Returns (jobs, eng', w')"
    and "ae_rules eng' = (ae_rules eng)[idx := fst (rule_machine (ac_now clk) b (ae_rules eng ! idx))]"
    and "ae_events eng' = log_event (ae_rules eng ! idx) (ac_wall_micros clk)
           (snd (rule_machine (ac_now clk) b (ae_rules eng ! idx))) (ae_events eng)"
    and "ae_values eng' = ae_values eng" and "ae_ctx eng' = ae_ctx eng"
    and "(jobs \<noteq> [] \<longrightarrow> snd (rule_machine (ac_now clk) b (ae_rules eng ! idx)) = Some Fired)"
proof -
  let ?r = "ae_rules eng ! idx"
  obtain js w1 where bn: "build_notifications clk (cr_name ?r) (cr_expr ?r) (cr_notify ?r) w = (js, w1)"
    by (cases "build_notifications clk (cr_name ?r) (cr_expr ?r) (cr_notify ?r) w")
  have ring: "ae_events (fst (push_event ev (eng\<lparr>ae_rules := rs\<rparr>, v))) = take EVENT_CAPACITY (ev # ae_events eng)"
    "ae_rules (fst (push_event ev (eng\<lparr>ae_rules := rs\<rparr>, v))) = rs"
    "ae_values (fst (push_event ev (eng\<lparr>ae_rules := rs\<rparr>, v))) = ae_values eng"
    "ae_ctx (fst (push_event ev (eng\<lparr>ae_rules := rs\<rparr>, v))) = ae_ctx eng" for ev rs v
    using push_event_ring [of "eng\<lparr>ae_rules := rs\<rparr>" ev v] assms(2) by simp_all
  let ?m = "rule_machine (ac_now clk) b ?r"
  show thesis
  proof (cases "snd ?m")
    case None
    then have "apply_eval_result clk idx (EvalOk b) (eng, w) =
        Returns ([], eng\<lparr>ae_rules := (ae_rules eng)[idx := fst ?m]\<rparr>, w)"
      using assms(1)
      by (cases b) (auto simp: apply_eval_result_def rule_machine_def Let_def not_le split: option.splits if_splits)
    with None that show thesis by (simp add: log_event_def)
  next
    case (Some k)
    let ?st = "push_event \<lparr>ev_rule = cr_name ?r, ev_ts_micros = ac_wall_micros clk, ev_kind = k\<rparr>
      (eng\<lparr>ae_rules := (ae_rules eng)[idx := fst ?m]\<rparr>, if b then w1 else w)"
    have "apply_eval_result clk idx (EvalOk b) (eng, w) =
        Returns (if b then js else [], fst ?st, snd ?st) \<and> (b \<longrightarrow> k = Fired)"
      using assms(1) Some bn
      by (cases b) (auto simp: apply_eval_result_def rule_machine_def Let_def not_le case_prod_beta
          split: option.splits if_splits)
    with Some ring that [of "if b then js else []" "fst ?st" "snd ?st"] show thesis
      by (cases b) (simp_all add: log_event_def)
  qed
qed


definition demo_eval :: "unit evalexpr" where
  "demo_eval = \<lparr>ex_new = (), ex_set_value = (\<lambda>_ _ c. c), ex_eval_boolean = (\<lambda>_ _. Returns (Ok True))\<rparr>"

definition demo_rule :: CompiledRule where
  "demo_rule = fresh_rule ''hot'' ''cpu.temp > 85'' 0 0 [''desktop''] True"

definition demo_engine :: "unit AlertEngine" where
  "demo_engine = \<lparr>ae_rules = [demo_rule], ae_values = [], ae_ctx = (), ae_events = [], ae_event_writer = None\<rparr>"

definition demo_world :: alert_world where
  "demo_world = \<lparr>aw_channels = [], aw_webhooks = 0, aw_posts = []\<rparr>"

definition demo_clock :: "nat \<Rightarrow> alert_clock" where
  "demo_clock t = \<lparr>ac_now = t, ac_wall_micros = of_nat t, ac_finished = (\<lambda>_. 0)\<rparr>"


section \<open>The event log\<close>

fun alternating :: "AlertEvent list \<Rightarrow> bool" where
  "alternating (a # b # es) = (ev_kind a \<noteq> ev_kind b \<and> alternating (b # es))"
| "alternating es = True"

definition events_of :: "string \<Rightarrow> AlertEvent list \<Rightarrow> AlertEvent list" where
  "events_of name evs = filter (\<lambda>e. ev_rule e = name) evs"

text \<open>
  The log of a rule, newest first, alternates, and its newest entry says whether the rule is
  firing. Old entries may have left the ring.
\<close>

definition rule_log_ok :: "AlertEvent list \<Rightarrow> CompiledRule \<Rightarrow> bool" where
  "rule_log_ok evs r \<longleftrightarrow>
     alternating (events_of (cr_name r) evs)
     \<and> (events_of (cr_name r) evs \<noteq> [] \<longrightarrow> (ev_kind (hd (events_of (cr_name r) evs)) = Fired \<longleftrightarrow> cr_fired r))"

definition alert_inv :: "'c AlertEngine \<Rightarrow> bool" where
  "alert_inv eng \<longleftrightarrow>
     distinct (map cr_name (ae_rules eng)) \<and> length (ae_events eng) \<le> EVENT_CAPACITY
     \<and> (\<forall>r \<in> set (ae_rules eng). rule_log_ok (ae_events eng) r)"

lemma alternating_Cons: "alternating es \<Longrightarrow> es = [] \<or> ev_kind (hd es) \<noteq> ev_kind e \<Longrightarrow> alternating (e # es)"
  by (cases es) auto

lemma alternating_take: "alternating es \<Longrightarrow> alternating (take n es)"
proof (induction es arbitrary: n rule: alternating.induct)
  case (1 a b es)
  consider "n = 0" | "n = 1" | k where "n = Suc (Suc k)" by (cases n; cases "n - 1") auto
  then show ?case
  proof cases
    case (3 k)
    then show ?thesis using 1(1) [of "Suc k"] 1(2) by simp
  qed (simp_all add: take_Cons)
qed (auto simp: take_Cons split: nat.splits)

lemma events_of_take: "\<exists>k. events_of name (take n evs) = take k (events_of name evs)"
  unfolding events_of_def
  by (metis append_take_drop_id filter_append append_eq_conv_conj)

lemma rule_log_ok_take: "rule_log_ok evs r \<Longrightarrow> rule_log_ok (take n evs) r"
proof -
  assume r: "rule_log_ok evs r"
  obtain k where "events_of (cr_name r) (take n evs) = take k (events_of (cr_name r) evs)"
    using events_of_take by blast
  with r show ?thesis
    by (cases k) (auto simp: rule_log_ok_def alternating_take hd_take)
qed

lemma rule_machine_fields:
  "cr_name (fst (rule_machine now b r)) = cr_name r"
  "cr_fired (fst (rule_machine now b r)) =
     (case snd (rule_machine now b r) of None \<Rightarrow> cr_fired r | Some k \<Rightarrow> k = Fired)"
  "snd (rule_machine now b r) = Some k \<Longrightarrow> (k = Fired) = (\<not> cr_fired r)"
  by (auto simp: rule_machine_def Let_def split: if_splits option.splits)

lemma rule_log_ok_step:
  assumes "rule_log_ok evs r"
  shows "rule_log_ok (log_event r ts (snd (rule_machine now b r)) evs) (fst (rule_machine now b r))"
proof (cases "snd (rule_machine now b r)")
  case None
  with assms show ?thesis by (simp add: log_event_def rule_log_ok_def rule_machine_fields)
next
  case (Some k)
  let ?e = "\<lparr>ev_rule = cr_name r, ev_ts_micros = ts, ev_kind = k\<rparr>"
  have "events_of (cr_name r) evs = [] \<or> ev_kind (hd (events_of (cr_name r) evs)) \<noteq> k"
    using assms rule_machine_fields(3) [OF Some] by (cases k) (auto simp: rule_log_ok_def)
  then have "alternating (events_of (cr_name r) (?e # evs))"
    using assms alternating_Cons [of "events_of (cr_name r) evs" ?e]
    by (simp add: events_of_def rule_log_ok_def)
  then have "rule_log_ok (?e # evs) (fst (rule_machine now b r))"
    using Some by (simp add: rule_log_ok_def rule_machine_fields events_of_def)
  with Some show ?thesis by (simp only: log_event_def option.case rule_log_ok_take)
qed

lemma rule_log_ok_other:
  assumes "rule_log_ok evs r'" "cr_name r' \<noteq> cr_name r"
  shows "rule_log_ok (log_event r ts k evs) r'"
proof (cases k)
  case (Some kind)
  have "rule_log_ok (\<lparr>ev_rule = cr_name r, ev_ts_micros = ts, ev_kind = kind\<rparr> # evs) r'"
    using assms by (simp add: rule_log_ok_def events_of_def)
  with Some show ?thesis by (simp only: log_event_def option.case rule_log_ok_take)
qed (use assms in \<open>simp add: log_event_def\<close>)

lemma alert_inv_apply:
  assumes inv: "alert_inv eng" and idx: "idx < length (ae_rules eng)"
  shows "\<exists>jobs eng' w'. apply_eval_result clk idx outcome (eng, w) = Returns (jobs, eng', w')
    \<and> alert_inv eng' \<and> map cr_name (ae_rules eng') = map cr_name (ae_rules eng)"
proof (cases outcome)
  case (EvalOk b)
  let ?r = "ae_rules eng ! idx" and ?m = "rule_machine (ac_now clk) b (ae_rules eng ! idx)"
  have len: "length (ae_events eng) \<le> EVENT_CAPACITY" and dist: "distinct (map cr_name (ae_rules eng))"
    using inv by (auto simp: alert_inv_def)
  obtain jobs eng' w' where a: "apply_eval_result clk idx (EvalOk b) (eng, w) = Returns (jobs, eng', w')"
    and rs: "ae_rules eng' = (ae_rules eng)[idx := fst ?m]"
    and es: "ae_events eng' = log_event ?r (ac_wall_micros clk) (snd ?m) (ae_events eng)"
    by (rule apply_eval_refines [OF idx len])
  have names: "map cr_name (ae_rules eng') = map cr_name (ae_rules eng)"
    using idx by (simp add: rs map_update rule_machine_fields list_update_same_conv)
  have l: "length (ae_events eng') \<le> EVENT_CAPACITY"
    using len by (simp add: es log_event_def split: option.splits)
  have "rule_log_ok (ae_events eng') (ae_rules eng' ! j)" if j: "j < length (ae_rules eng')" for j
  proof -
    have ok: "rule_log_ok (ae_events eng) (ae_rules eng ! j)"
      using inv j by (simp add: alert_inv_def rs)
    show ?thesis
    proof (cases "j = idx")
      case True
      with ok idx show ?thesis by (simp add: rs es rule_log_ok_step)
    next
      case False
      then have "cr_name (ae_rules eng ! j) \<noteq> cr_name ?r"
        using dist j idx by (simp add: rs distinct_conv_nth)
      with ok False show ?thesis by (simp add: rs es rule_log_ok_other)
    qed
  qed
  then have "alert_inv eng'"
    using dist names l unfolding alert_inv_def by (metis in_set_conv_nth)
  with a names EvalOk show ?thesis by blast
qed (use inv idx in \<open>simp_all add: apply_eval_result_def Let_def\<close>)

lemma observe_keeps:
  "observe E s eng = (jobs, eng') \<Longrightarrow> ae_rules eng' = ae_rules eng \<and> ae_events eng' = ae_events eng
     \<and> (\<forall>j \<in> set jobs. job_idx j < length (ae_rules eng))"
  by (auto simp: observe_def prune_unreferenced_values_def Let_def in_set_enumerate_eq
      split: option.splits if_splits)

lemma apply_jobs_inv:
  assumes "alert_inv eng" and "\<forall>j \<in> set jobs. job_idx j < length (ae_rules eng)"
  shows "\<exists>ns eng' w'. apply_jobs E clk in_time jobs (eng, w) = Returns (ns, eng', w')
    \<and> alert_inv eng' \<and> map cr_name (ae_rules eng') = map cr_name (ae_rules eng)"
  using assms
proof (induction jobs arbitrary: eng w)
  case (Cons j jobs)
  let ?o = "if in_time (job_idx j) then eval_single E (job_rewritten_expr j) (job_ctx j) else EvalTimeout"
  obtain n1 e1 w1 where a: "apply_eval_result (clk (job_idx j)) (job_idx j) ?o (eng, w) = Returns (n1, e1, w1)"
    and i: "alert_inv e1" and n: "map cr_name (ae_rules e1) = map cr_name (ae_rules eng)"
    using alert_inv_apply [of eng "job_idx j" "clk (job_idx j)" ?o w] Cons.prems by auto
  have "length (ae_rules e1) = length (ae_rules eng)" using n by (metis length_map)
  with Cons.IH [OF i, of w1] Cons.prems obtain n2 e2 w2 where
    "apply_jobs E clk in_time jobs (e1, w1) = Returns (n2, e2, w2)" "alert_inv e2"
    "map cr_name (ae_rules e2) = map cr_name (ae_rules e1)" by auto
  with a n show ?case by (simp add: Let_def)
qed simp

text \<open>Without another thread in between, processing a sample never indexes out of range.\<close>

lemma apply_eval_result_returns:
  assumes "idx < length (ae_rules eng)"
  shows "\<exists>ns eng' w'. apply_eval_result clk idx outcome (eng, w) = Returns (ns, eng', w')
    \<and> length (ae_rules eng') = length (ae_rules eng)"
proof (cases outcome)
  case (EvalOk b)
  show ?thesis
  proof (cases b)
    case True
    obtain jobs w1 where "build_notifications clk (cr_name (ae_rules eng ! idx)) (cr_expr (ae_rules eng ! idx))
        (cr_notify (ae_rules eng ! idx)) w = (jobs, w1)" by (metis surj_pair)
    with assms EvalOk True show ?thesis by (simp add: apply_eval_result_def Let_def push_event_def)
  next
    case False
    with assms EvalOk show ?thesis by (simp add: apply_eval_result_def Let_def push_event_def)
  qed
qed (use assms in \<open>simp_all add: apply_eval_result_def\<close>)

lemma apply_jobs_returns:
  assumes "\<forall>j \<in> set jobs. job_idx j < length (ae_rules eng)"
  shows "\<exists>ns eng' w'. apply_jobs E clk in_time jobs (eng, w) = Returns (ns, eng', w')"
  using assms
proof (induction jobs arbitrary: eng w)
  case (Cons j jobs)
  let ?o = "if in_time (job_idx j) then eval_single E (job_rewritten_expr j) (job_ctx j) else EvalTimeout"
  obtain n1 e1 w1 where a: "apply_eval_result (clk (job_idx j)) (job_idx j) ?o (eng, w) = Returns (n1, e1, w1)"
    and l: "length (ae_rules e1) = length (ae_rules eng)"
    using apply_eval_result_returns [of "job_idx j" eng] Cons.prems by fastforce
  with Cons.IH [of e1 w1] Cons.prems obtain n2 e2 w2 where
    "apply_jobs E clk in_time jobs (e1, w1) = Returns (n2, e2, w2)" by auto
  with a show ?case by (simp add: Let_def)
qed simp

lemma on_sample_returns: "\<exists>ns eng' w'. on_sample E clk in_time s (eng, w) = Returns (ns, eng', w')"
proof -
  obtain jobs e0 where o: "observe E s eng = (jobs, e0)" by (cases "observe E s eng")
  with apply_jobs_returns [of jobs e0] observe_keeps [OF o] show ?thesis by (simp add: on_sample_def)
qed
text \<open>A run of the engine over samples, with the clock and the punctuality of every evaluation.\<close>

fun run_samples ::
    "'c evalexpr \<Rightarrow> ((nat \<Rightarrow> alert_clock) \<times> (nat \<Rightarrow> bool) \<times> Sample) list \<Rightarrow> 'c AlertEngine \<times> alert_world \<Rightarrow>
     (NotifyJob list \<times> 'c AlertEngine \<times> alert_world) exec" where
  "run_samples E [] st = Returns ([], st)"
| "run_samples E ((clk, in_time, s) # steps) st =
     exec_bind (on_sample E clk in_time s st) (\<lambda>(n1, st1).
       exec_bind (run_samples E steps st1) (\<lambda>(n2, st2). Returns (n1 @ n2, st2)))"

lemma run_samples_inv:
  assumes "alert_inv eng"
  shows "\<exists>ns eng' w'. run_samples E steps (eng, w) = Returns (ns, eng', w')
    \<and> alert_inv eng' \<and> map cr_name (ae_rules eng') = map cr_name (ae_rules eng)"
  using assms
proof (induction steps arbitrary: eng w)
  case (Cons st steps)
  obtain clk it s where st: "st = (clk, it, s)" by (cases st)
  obtain jobs e0 where o: "observe E s eng = (jobs, e0)" by (cases "observe E s eng")
  note k = observe_keeps [OF o]
  have i0: "alert_inv e0" using Cons.prems k by (simp add: alert_inv_def)
  have j0: "\<forall>j \<in> set jobs. job_idx j < length (ae_rules e0)" using k by simp
  obtain n1 e1 w1 where a: "apply_jobs E clk it jobs (e0, w) = Returns (n1, e1, w1)"
    and i1: "alert_inv e1" and m1: "map cr_name (ae_rules e1) = map cr_name (ae_rules e0)"
    using apply_jobs_inv [OF i0 j0, of E clk it w] by blast
  obtain n2 e2 w2 where r: "run_samples E steps (e1, w1) = Returns (n2, e2, w2)"
    and i2: "alert_inv e2" and m2: "map cr_name (ae_rules e2) = map cr_name (ae_rules e1)"
    using Cons.IH [OF i1, of w1] by blast
  have "run_samples E (st # steps) (eng, w) = Returns (n1 @ n2, e2, w2)"
    using st o a r by (simp add: on_sample_def)
  moreover have "map cr_name (ae_rules e2) = map cr_name (ae_rules eng)" using m1 m2 k by simp
  ultimately show ?case using i2 by blast
qed simp



section \<open>Hold time and cooldown\<close>

text \<open>Evaluations of one rule in sequence, with their clocks.\<close>

fun run_outcomes ::
    "nat \<Rightarrow> (alert_clock \<times> bool) list \<Rightarrow> 'c AlertEngine \<times> alert_world \<Rightarrow> ('c AlertEngine \<times> alert_world) exec" where
  "run_outcomes idx [] st = Returns st"
| "run_outcomes idx ((clk, b) # obs) st =
     exec_bind (apply_eval_result clk idx (EvalOk b) st) (\<lambda>(_, st1). run_outcomes idx obs st1)"

text \<open>The trailing run of true outcomes.\<close>

definition holding :: "(alert_clock \<times> bool) list \<Rightarrow> (alert_clock \<times> bool) list" where
  "holding obs = rev (takeWhile snd (rev obs))"

definition run_machine :: "(alert_clock \<times> bool) list \<Rightarrow> CompiledRule \<Rightarrow> CompiledRule" where
  "run_machine obs r = fold (\<lambda>(clk, b) r. fst (rule_machine (ac_now clk) b r)) obs r"

lemma rule_machine_config:
  "cr_for_duration (fst (rule_machine now b r)) = cr_for_duration r"
  "cr_cooldown (fst (rule_machine now b r)) = cr_cooldown r"
  by (auto simp: rule_machine_def Let_def)

lemma run_machine_snoc:
  "run_machine (obs @ [(clk, b)]) r = fst (rule_machine (ac_now clk) b (run_machine obs r))"
  by (simp add: run_machine_def)

lemma run_machine_config:
  "cr_for_duration (run_machine obs r) = cr_for_duration r" "cr_cooldown (run_machine obs r) = cr_cooldown r"
proof (induction obs rule: rev_induct)
  case Nil
  case 1 show ?case by (simp add: run_machine_def)
  case 2 show ?case by (simp add: run_machine_def)
next
  case (snoc x obs)
  obtain clk b where "x = (clk, b)" by (cases x)
  with snoc show "cr_for_duration (run_machine (obs @ [x]) r) = cr_for_duration r"
    and "cr_cooldown (run_machine (obs @ [x]) r) = cr_cooldown r"
    by (simp_all add: run_machine_snoc rule_machine_config)
qed

lemma run_machine_triggered:
  assumes "cr_triggered_at r = None"
  shows "cr_triggered_at (run_machine obs r) =
    (case holding obs of [] \<Rightarrow> None | (clk, _) # _ \<Rightarrow> Some (ac_now clk))"
proof (induction obs rule: rev_induct)
  case Nil
  then show ?case using assms by (simp add: run_machine_def holding_def)
next
  case (snoc x obs)
  obtain clk b where x: "x = (clk, b)" by (cases x)
  have h: "holding (obs @ [x]) = (if b then holding obs @ [x] else [])" by (simp add: holding_def x)
  have "cr_triggered_at (run_machine (obs @ [x]) r) =
      (if b then Some (case cr_triggered_at (run_machine obs r) of None \<Rightarrow> ac_now clk | Some t \<Rightarrow> t) else None)"
    by (simp add: x run_machine_snoc rule_machine_def Let_def)
  then show ?case using snoc h x by (auto split: list.splits)
qed

lemma run_outcomes_machine:
  assumes "idx < length (ae_rules eng)" and "length (ae_events eng) \<le> EVENT_CAPACITY"
  shows "\<exists>eng' w'. run_outcomes idx obs (eng, w) = Returns (eng', w')
    \<and> idx < length (ae_rules eng') \<and> length (ae_events eng') \<le> EVENT_CAPACITY
    \<and> ae_rules eng' ! idx = run_machine obs (ae_rules eng ! idx)"
  using assms
proof (induction obs arbitrary: eng w)
  case (Cons x obs)
  obtain clk b where x: "x = (clk, b)" by (cases x)
  let ?r = "ae_rules eng ! idx" and ?m = "rule_machine (ac_now clk) b (ae_rules eng ! idx)"
  obtain jobs e1 w1 where a: "apply_eval_result clk idx (EvalOk b) (eng, w) = Returns (jobs, e1, w1)"
    and r1: "ae_rules e1 = (ae_rules eng)[idx := fst ?m]"
    and v1: "ae_events e1 = log_event ?r (ac_wall_micros clk) (snd ?m) (ae_events eng)"
    by (rule apply_eval_refines [OF Cons.prems])
  have l: "idx < length (ae_rules e1)" "length (ae_events e1) \<le> EVENT_CAPACITY" "ae_rules e1 ! idx = fst ?m"
    using Cons.prems by (auto simp: r1 v1 log_event_def split: option.splits)
  have "run_machine (x # obs) ?r = run_machine obs (ae_rules e1 ! idx)" by (simp add: run_machine_def x l(3))
  moreover have "run_outcomes idx (x # obs) (eng, w) = run_outcomes idx obs (e1, w1)" using a x by simp
  ultimately show ?case using Cons.IH [OF l(1,2), of w1] by simp
qed (simp add: run_machine_def)

lemma rule_machine_fires:
  assumes "snd (rule_machine now b r) = Some Fired"
  shows "b \<and> \<not> cr_fired r \<and> (\<forall>lf. cr_last_fired_at r = Some lf \<longrightarrow> cr_cooldown r \<le> now - lf)
    \<and> cr_for_duration r \<le> now - (case cr_triggered_at r of None \<Rightarrow> now | Some t \<Rightarrow> t)"
  using assms by (auto simp: rule_machine_def Let_def split: if_splits option.splits)



section \<open>The value map stays bounded\<close>

definition referenced :: "'c AlertEngine \<Rightarrow> string set" where
  "referenced eng = (\<Union>r \<in> set (ae_rules eng). set (cr_referenced_sensors r))"

definition values_bounded :: "'c AlertEngine \<Rightarrow> bool" where
  "values_bounded eng \<longleftrightarrow>
     distinct (map fst (ae_values eng))
     \<and> length (ae_values eng) \<le> max VALUES_CAP (card (referenced eng) + 1)"

lemma length_le_card_keys:
  "distinct (map fst m) \<Longrightarrow> fst ` set m \<subseteq> S \<Longrightarrow> finite S \<Longrightarrow> length m \<le> card S"
  by (metis card_mono distinct_card length_map list.set_map)

lemma prune_values:
  assumes "distinct (map fst (ae_values eng))"
  shows "distinct (map fst (ae_values (prune_unreferenced_values E eng)))"
    and "length (ae_values (prune_unreferenced_values E eng)) \<le> card (referenced eng)"
    and "ae_rules (prune_unreferenced_values E eng) = ae_rules eng"
proof -
  let ?f = "filter (\<lambda>(k, _). k \<in> set (concat (map cr_referenced_sensors (ae_rules eng)))) (ae_values eng)"
  have v: "ae_values (prune_unreferenced_values E eng) = ?f"
    by (simp add: prune_unreferenced_values_def Let_def)
  show d: "distinct (map fst (ae_values (prune_unreferenced_values E eng)))"
    unfolding v using assms by (rule distinct_keys_filter)
  have "fst ` set ?f \<subseteq> referenced eng" by (auto simp: referenced_def)
  moreover have "finite (referenced eng)" by (simp add: referenced_def)
  ultimately show "length (ae_values (prune_unreferenced_values E eng)) \<le> card (referenced eng)"
    using d v by (metis length_le_card_keys)
  show "ae_rules (prune_unreferenced_values E eng) = ae_rules eng"
    by (simp add: prune_unreferenced_values_def Let_def)
qed

text \<open>
  C30: However many distinct sensor names the plugins emit, the engine remembers at most
  \<^verbatim>\<open>VALUES_CAP\<close> values, or as many as the rules refer to and one more if that is larger; observing
  a sample keeps that bound and records the sample's value.
\<close>

theorem observe_bounded:
  assumes "values_bounded eng" and "observe E s eng = (jobs, eng')"
  shows "values_bounded eng'
    \<and> (\<forall>v. reading_value (sample_reading s) = Some v \<longrightarrow> map_of (ae_values eng') (sample_sensor s) = Some v)"
proof (cases "reading_value (sample_reading s)")
  case None
  with assms show ?thesis by (simp add: observe_def)
next
  case (Some v)
  let ?i = "sample_sensor s"
  let ?c = "\<not> hm_contains (ae_values eng) ?i \<and> VALUES_CAP \<le> length (ae_values eng)"
  define e1 where "e1 = (if ?c then prune_unreferenced_values E eng else eng)"
  have d: "distinct (map fst (ae_values eng))" using assms(1) by (simp add: values_bounded_def)
  have vals: "ae_values eng' = AList.update ?i v (ae_values e1)" and rules: "ae_rules eng' = ae_rules e1"
    using assms(2) Some by (auto simp: observe_def Let_def e1_def)
  have d1: "distinct (map fst (ae_values e1))" and r1: "ae_rules e1 = ae_rules eng"
    using d prune_values(1,3) by (auto simp: e1_def)
  have len: "length (AList.update ?i v (ae_values e1)) =
      (if map_of (ae_values e1) ?i = None then Suc (length (ae_values e1)) else length (ae_values e1))"
    by (rule hm.length_iter_ins [OF d1])
  have "length (AList.update ?i v (ae_values e1)) \<le> max VALUES_CAP (card (referenced eng) + 1)"
  proof (cases ?c)
    case True
    then have "length (ae_values e1) \<le> card (referenced eng)" using prune_values(2) [OF d] by (simp add: e1_def)
    then show ?thesis using len by (cases "map_of (ae_values e1) ?i = None") auto
  next
    case False
    then have "e1 = eng" unfolding e1_def by (simp only: if_False)
    with False assms(1) len show ?thesis
      by (auto simp: hm_contains_def values_bounded_def split: if_splits)
  qed
  then show ?thesis
    using d1 vals rules r1 Some by (simp add: values_bounded_def referenced_def hm.wf_ins hm.get_ins)
qed

theorem observe_bounded_witness:
  "values_bounded (snd (observe demo_eval
     \<lparr>sample_sensor = ''cpu.temp'', sample_ts_micros = 1, sample_reading = Scalar (Fin 90)\<rparr> demo_engine))"
proof -
  have "values_bounded demo_engine" by (simp add: values_bounded_def demo_engine_def)
  from observe_bounded [OF this prod.collapse [symmetric]] show ?thesis by blast
qed

section \<open>Rule requests\<close>

lemma upsert_in_names:
  "map cr_name (upsert_in n e f c nt en rs) =
     (if n \<in> set (map cr_name rs) then map cr_name rs else map cr_name rs @ [n])"
  by (induction rs) (auto simp: fresh_rule_def)

lemma upsert_in_other:
  "filter (\<lambda>r. cr_name r \<noteq> n) (upsert_in n e f c nt en rs) = filter (\<lambda>r. cr_name r \<noteq> n) rs"
  by (induction rs) (auto simp: fresh_rule_def)

lemma upsert_in_found:
  "\<exists>r. find (\<lambda>r. cr_name r = n) (upsert_in n e f c nt en rs) = Some r \<and> cr_name r = n \<and> cr_expr r = e
     \<and> cr_rewritten_expr r = rewrite_expr e \<and> cr_for_duration r = f \<and> cr_cooldown r = c \<and> cr_notify r = nt
     \<and> cr_referenced_sensors r = extract_sensor_refs e
     \<and> \<not> cr_fired r \<and> cr_triggered_at r = None \<and> cr_last_fired_at r = None
     \<and> cr_enabled r = (case en of Some b \<Rightarrow> b
          | None \<Rightarrow> (case find (\<lambda>r. cr_name r = n) rs of Some q \<Rightarrow> cr_enabled q | None \<Rightarrow> True))"
  by (induction rs) (auto simp: fresh_rule_def split: option.splits)

text \<open>
  A rule request either is refused with the engine unchanged (a duration does not parse) or
  leaves a rule of that name with the new expression, durations and targets and its firing state
  reset, keeping the enabled flag when the request does not name it; all other rules stay as
  they are and in order. Deleting afterwards restores them and reports the rule as found.
\<close>

theorem upsert_delete_rule:
  assumes "upsert_rule name expr fd cd notify enabled eng = Returns (res, eng')"
  shows "(case res of
     Err _ \<Rightarrow> eng' = eng
   | Ok _ \<Rightarrow>
       (\<exists>f c r. opt_parse_duration fd = Returns (Ok f) \<and> opt_parse_duration cd = Returns (Ok c)
          \<and> find (\<lambda>r. cr_name r = name) (ae_rules eng') = Some r
          \<and> cr_expr r = expr \<and> cr_for_duration r = f \<and> cr_cooldown r = c \<and> cr_notify r = notify
          \<and> \<not> cr_fired r \<and> cr_triggered_at r = None
          \<and> cr_enabled r = (case enabled of Some b \<Rightarrow> b
               | None \<Rightarrow> (case find (\<lambda>r. cr_name r = name) (ae_rules eng) of Some q \<Rightarrow> cr_enabled q | None \<Rightarrow> True)))
       \<and> filter (\<lambda>r. cr_name r \<noteq> name) (ae_rules eng') = filter (\<lambda>r. cr_name r \<noteq> name) (ae_rules eng)
       \<and> delete_rule name eng' = (Ok True, eng'\<lparr>ae_rules := filter (\<lambda>r. cr_name r \<noteq> name) (ae_rules eng)\<rparr>))"
proof (cases res)
  case (Err e)
  with assms show ?thesis
    by (cases "opt_parse_duration fd"; cases "opt_parse_duration cd")
      (auto simp: upsert_rule_def split: result.splits)
next
  case (Ok u)
  with assms obtain f c where d: "opt_parse_duration fd = Returns (Ok f)" "opt_parse_duration cd = Returns (Ok c)"
    and e: "eng' = eng\<lparr>ae_rules := upsert_in name expr f c notify enabled (ae_rules eng)\<rparr>"
    by (cases "opt_parse_duration fd"; cases "opt_parse_duration cd")
      (auto simp: upsert_rule_def split: result.splits)
  let ?rs = "upsert_in name expr f c notify enabled (ae_rules eng)"
  note fnd = upsert_in_found [of name expr f c notify enabled "ae_rules eng"]
  then obtain r where "r \<in> set ?rs" "cr_name r = name" by (metis find_SomeD)
  then have "length (filter (\<lambda>r. cr_name r \<noteq> name) ?rs) < length ?rs"
    by (intro length_filter_le_remove) auto
  then have del: "delete_rule name eng' = (Ok True, eng'\<lparr>ae_rules := filter (\<lambda>r. cr_name r \<noteq> name) (ae_rules eng)\<rparr>)"
    using upsert_in_other [of name expr f c notify enabled "ae_rules eng"]
    by (simp add: delete_rule_def e Let_def)
  have oth: "filter (\<lambda>r. cr_name r \<noteq> name) (ae_rules eng') = filter (\<lambda>r. cr_name r \<noteq> name) (ae_rules eng)"
    by (simp add: e upsert_in_other)
  show ?thesis using Ok d e fnd del oth by simp blast
qed

theorem upsert_delete_rule_witness:
  "case upsert_rule ''cold'' ''cpu.temp < 5'' None None [] None demo_engine of
     Returns (Ok _, eng') \<Rightarrow> fst (delete_rule ''cold'' eng') = Ok True | _ \<Rightarrow> False"
proof -
  have u: "upsert_rule ''cold'' ''cpu.temp < 5'' None None [] None demo_engine =
      Returns (Ok (), demo_engine\<lparr>ae_rules := upsert_in ''cold'' ''cpu.temp < 5'' 0 0 [] None (ae_rules demo_engine)\<rparr>)"
    by (simp add: upsert_rule_def opt_parse_duration_def)
  from upsert_delete_rule [OF u] u show ?thesis by simp
qed

section \<open>Saving and loading the configuration\<close>

definition whole_seconds :: "nat \<Rightarrow> bool" where
  "whole_seconds d \<longleftrightarrow> (\<exists>n < 2 ^ 53. d = n * 1000000000)"

lemma compile_rule_configs:
  assumes "\<forall>r \<in> set rs. whole_seconds (cr_for_duration r) \<and> whole_seconds (cr_cooldown r)"
  shows "compile_rules (map (rule_config show_f64) rs) =
    Returns (Ok (map (\<lambda>r. fresh_rule (cr_name r) (cr_expr r) (cr_for_duration r) (cr_cooldown r)
                       (cr_notify r) (cr_enabled r)) rs))"
  using assms
proof (induction rs)
  case (Cons r rs)
  have "opt_parse_duration (opt_format_duration show_f64 d) = Returns (Ok d)" if "whole_seconds d" for d
    using that whole_seconds_round_trip by (auto simp: whole_seconds_def)
  with Cons show ?case by (simp add: rule_config_def)
qed simp

text \<open>
  A configuration saved by the engine and loaded again has the same rules in the same order
  (names, expressions, hold times, cooldowns, targets, enabled flags) with their firing state
  reset, when the file operations succeed, the durations are whole seconds and the TOML library
  parses what it prints.
\<close>

theorem alert_config_round_trip:
  assumes "\<And>c t. to_toml c = Ok t \<Longrightarrow> from_toml t = Ok c"
    and "\<forall>r \<in> set (ae_rules eng). whole_seconds (cr_for_duration r) \<and> whole_seconds (cr_cooldown r)"
    and "save_config env show_f64 to_toml path eng m = (Ok (), trace)"
  shows "alerts_load E from_toml path (last trace) =
    Returns (Ok \<lparr>ae_rules = map (\<lambda>r. fresh_rule (cr_name r) (cr_expr r) (cr_for_duration r) (cr_cooldown r)
                                 (cr_notify r) (cr_enabled r)) (ae_rules eng),
                 ae_values = [], ae_ctx = ex_new E, ae_events = [], ae_event_writer = None\<rparr>)"
proof -
  obtain t where t: "to_toml (map (rule_config show_f64) (ae_rules eng)) = Ok t"
    using assms(3) by (cases "to_toml (map (rule_config show_f64) (ae_rules eng))") (auto simp: save_config_def)
  have "last trace path = Some t"
    using assms(3) t
    by (auto simp: save_config_def do_call_def split: option.splits if_splits prod.splits result.splits)
  then show ?thesis
    using assms(1) [OF t] compile_rule_configs [OF assms(2), of show_f64] by (simp add: alerts_load_def)
qed

theorem alert_config_round_trip_witness:
  "alerts_load demo_eval
     (\<lambda>s. if s = ''t'' then Ok (map (rule_config (\<lambda>_. [])) (ae_rules demo_engine)) else Err ''parse'') ''a.toml''
     (last (snd (save_config \<lparr>io_fault = (\<lambda>c. None), io_partial = 0\<rparr> (\<lambda>_. [])
        (\<lambda>c. if c = map (rule_config (\<lambda>_. [])) (ae_rules demo_engine) then Ok ''t'' else Err ''print'')
        ''a.toml'' demo_engine Map.empty)))
   = Returns (Ok demo_engine)"
proof -
  let ?c = "map (rule_config (\<lambda>_. [])) (ae_rules demo_engine)"
  let ?to = "\<lambda>c. if c = ?c then Ok ''t'' else Err ''print''" and ?from = "\<lambda>s. if s = ''t'' then Ok ?c else Err ''parse''"
  let ?env = "\<lparr>io_fault = (\<lambda>c. None), io_partial = 0\<rparr>"
  obtain trace where t: "save_config ?env (\<lambda>_. []) ?to ''a.toml'' demo_engine Map.empty = (Ok (), trace)"
    by (simp add: save_config_def do_call_def)
  have h: "?to c = Ok x \<Longrightarrow> ?from x = Ok c" for c x by (auto split: if_splits)
  have w: "\<forall>r \<in> set (ae_rules demo_engine). whole_seconds (cr_for_duration r) \<and> whole_seconds (cr_cooldown r)"
    by (auto simp: demo_engine_def demo_rule_def fresh_rule_def whole_seconds_def)
  from alert_config_round_trip [where to_toml = ?to and from_toml = ?from and E = demo_eval, OF h w t] t
  show ?thesis by (simp add: demo_engine_def demo_rule_def fresh_rule_def demo_eval_def)
qed

section \<open>Evaluations that outlive their rule\<close>

text \<open>
  The index of an evaluated rule is fixed when the sample is observed and used after the
  engine lock was released: when the last rule is deleted in between, applying its outcome
  indexes past the end of the rule list and panics with the engine mutex held.
\<close>

theorem stale_rule_index_panics:
  assumes "ae_rules eng = rs @ [r]" and "\<forall>q \<in> set rs. cr_name q \<noteq> cr_name r"
    and "cr_enabled r" and "sample_sensor s \<in> set (cr_referenced_sensors r)"
    and "reading_value (sample_reading s) = Some v"
  shows "\<exists>job \<in> set (fst (observe E s eng)).
    apply_eval_result clk (job_idx job) outcome (snd (delete_rule (cr_name r) (snd (observe E s eng))), w) = Panics"
proof -
  obtain jobs e where o: "observe E s eng = (jobs, e)" by (cases "observe E s eng")
  have e: "ae_rules e = rs @ [r]" using observe_keeps [OF o] assms(1) by simp
  have "\<exists>j \<in> set jobs. job_idx j = length rs"
    using o assms(1,3,4,5)
    by (auto simp: observe_def prune_unreferenced_values_def Let_def enumerate_append_eq split: if_splits)
  then obtain j where j: "j \<in> set jobs" "job_idx j = length rs" by blast
  have "filter (\<lambda>q. cr_name q \<noteq> cr_name r) (rs @ [r]) = rs" using assms(2) by (simp add: filter_id_conv)
  with j e o show ?thesis by (auto simp: delete_rule_def apply_eval_result_def Let_def intro!: bexI [of _ j])
qed

theorem stale_rule_index_panics_witness:
  "\<exists>job \<in> set (fst (observe demo_eval
       \<lparr>sample_sensor = ''cpu.temp'', sample_ts_micros = 1, sample_reading = Scalar (Fin 90)\<rparr> demo_engine)).
     apply_eval_result (demo_clock 1) (job_idx job) (EvalOk True)
       (snd (delete_rule ''hot'' (snd (observe demo_eval
          \<lparr>sample_sensor = ''cpu.temp'', sample_ts_micros = 1, sample_reading = Scalar (Fin 90)\<rparr> demo_engine))), demo_world)
     = Panics"
proof -
  have "extract_sensor_refs ''cpu.temp > 85'' = [''cpu.temp'']" by code_simp
  then show ?thesis
    using stale_rule_index_panics [where eng = demo_engine and rs = "[]" and r = demo_rule and E = demo_eval
        and s = "\<lparr>sample_sensor = ''cpu.temp'', sample_ts_micros = 1, sample_reading = Scalar (Fin 90)\<rparr>"
        and v = "Fin 90" and clk = "demo_clock 1" and outcome = "EvalOk True" and w = demo_world]
    by (simp add: demo_engine_def demo_rule_def fresh_rule_def reading_value_def)
qed

end
