(* ===== verification/Scheduler.thy ===== *)
theory Scheduler
  imports Alert_Engine Plugin_Host
begin

text \<open>
  The scheduler of \<^verbatim>\<open>apps/linsightd/src/scheduler.rs\<close>: reference-counted subscriptions with a period
  each, the two phases of a tick, back-off of failing sensors, and the runtime switches. A
  \<^verbatim>\<open>BTreeMap\<close> is an association list read through its least key. The alert engine is the one the
  scheduler's handle owns. \<^verbatim>\<open>u64\<close> additions wrap, as in the release build.
\<close>

section \<open>State\<close>

datatype SchedError = UnknownSensorId string

record Subscription =
  sub_sensor :: SensorId
  sub_period_micros :: u64

record Entry =
  en_period_counts :: "(u64 \<times> u32) list"
  en_period_micros :: u64
  en_next_due_at_micros :: u64
  en_last_sampled_at_micros :: "u64 option"
  en_is_static :: bool
  en_unsupported_strikes :: u32
  en_timeout_strikes :: u32

record ('p, 'l, 'c) Scheduler =
  sch_host :: "('p, 'l) PluginHost"
  sch_entries :: "(SensorId \<times> Entry) list"
  sch_history :: "HistoryWriter option"
  sch_history_db_path :: "string option"
  sch_alerts_config_path :: "string option"
  sch_alerts :: "'c AlertEngine option"
  sch_prom_running :: bool

definition Scheduler_new :: "('p, 'l) PluginHost \<Rightarrow> ('p, 'l, 'c) Scheduler" where
  "Scheduler_new host =
     \<lparr>sch_host = host, sch_entries = [], sch_history = None, sch_history_db_path = None,
      sch_alerts_config_path = None, sch_alerts = None, sch_prom_running = False\<rparr>"

text \<open>\<^verbatim>\<open>keys().next()\<close> of a \<^verbatim>\<open>BTreeMap\<close>; the \<^verbatim>\<open>expect\<close> on an empty map would panic.\<close>

definition btree_first :: "(u64 \<times> 'v) list \<Rightarrow> u64 option" where
  "btree_first m = (case map fst m of [] \<Rightarrow> None | k # ks \<Rightarrow> Some (fold min ks k))"

section \<open>Subscriptions\<close>

text \<open>The effective rate, and from it the period; a NaN upper bound of \<^verbatim>\<open>clamp\<close> panics.\<close>

definition effective_rate :: "fl \<Rightarrow> fl option \<Rightarrow> fl exec" where
  "effective_rate native requested_rate_hz =
     exec_bind
       (case requested_rate_hz of
          Some r \<Rightarrow> exec_bind (fl_clamp r MIN_RATE_HZ native) (\<lambda>c. Returns (fl_min native c))
        | None \<Rightarrow> Returns native)
       (\<lambda>effective.
          Returns (if \<not> fl_is_finite effective \<or> fl_le effective (Fin 0) then MIN_RATE_HZ else effective))"

definition period_of_rate :: "fl \<Rightarrow> u64" where
  "period_of_rate effective = fl_to_u64 (fl_div (Fin 1000000) effective)"

definition bump :: "u64 \<Rightarrow> (u64 \<times> u32) list \<Rightarrow> (u64 \<times> u32) list" where
  "bump period m =
     AList.update period ((case map_of m period of None \<Rightarrow> 0 | Some c \<Rightarrow> c) + 1) m"

definition add_subscription :: "SensorId \<Rightarrow> u64 \<Rightarrow> bool \<Rightarrow> (SensorId \<times> Entry) list \<Rightarrow> (SensorId \<times> Entry) list" where
  "add_subscription i period is_static entries =
     (case map_of entries i of
        Some e \<Rightarrow>
          AList.update i
            (e\<lparr>en_period_counts := bump period (en_period_counts e),
               en_period_micros :=
                 (case btree_first (bump period (en_period_counts e)) of Some k \<Rightarrow> k | None \<Rightarrow> en_period_micros e),
               en_next_due_at_micros := 0\<rparr>) entries
      | None \<Rightarrow>
          AList.update i
            \<lparr>en_period_counts = [(period, 1)], en_period_micros = period, en_next_due_at_micros = 0,
             en_last_sampled_at_micros = None, en_is_static = is_static, en_unsupported_strikes = 0,
             en_timeout_strikes = 0\<rparr> entries)"

definition subscribe ::
    "SensorId \<Rightarrow> fl option \<Rightarrow> ('p, 'l, 'c) Scheduler \<Rightarrow>
     ((Subscription, SchedError) result \<times> ('p, 'l, 'c) Scheduler) exec" where
  "subscribe i requested_rate_hz sch =
     (case find (\<lambda>d. d_id d = i) (host_descriptors (sch_host sch)) of
        None \<Rightarrow> Returns (Err (UnknownSensorId i), sch)
      | Some descriptor \<Rightarrow>
          exec_bind (clamped_rate_hz descriptor) (\<lambda>native.
          exec_bind (effective_rate native requested_rate_hz) (\<lambda>effective.
            let period_micros = period_of_rate effective;
                is_static = (STATIC_TAG \<in> set (d_tags descriptor))
            in Returns (Ok \<lparr>sub_sensor = i, sub_period_micros = period_micros\<rparr>,
                 sch\<lparr>sch_entries := add_subscription i period_micros is_static (sch_entries sch)\<rparr>))))"

definition drop_count :: "u64 \<Rightarrow> (u64 \<times> u32) list \<Rightarrow> (u64 \<times> u32) list" where
  "drop_count period m =
     (case map_of m period of
        None \<Rightarrow> m
      | Some c \<Rightarrow>
          let c' = saturating_sub c 1
          in if c' = 0 then AList.delete period m else AList.update period c' m)"

definition drop_subscription :: "Subscription \<Rightarrow> (SensorId \<times> Entry) list \<Rightarrow> (SensorId \<times> Entry) list" where
  "drop_subscription s entries =
     (case map_of entries (sub_sensor s) of
        None \<Rightarrow> entries
      | Some e \<Rightarrow>
          let counts = drop_count (sub_period_micros s) (en_period_counts e)
          in case btree_first counts of
               None \<Rightarrow> AList.delete (sub_sensor s) entries
             | Some k \<Rightarrow>
                 let e1 = e\<lparr>en_period_counts := counts, en_period_micros := k\<rparr>;
                     e2 = (if en_is_static e then e1
                           else e1\<lparr>en_next_due_at_micros :=
                                     (case en_last_sampled_at_micros e of
                                        None \<Rightarrow> 0 | Some lst \<Rightarrow> saturating_add lst k)\<rparr>)
                 in AList.update (sub_sensor s) e2 entries)"

definition unsubscribe :: "Subscription \<Rightarrow> ('p, 'l, 'c) Scheduler \<Rightarrow> ('p, 'l, 'c) Scheduler" where
  "unsubscribe s sch = sch\<lparr>sch_entries := drop_subscription s (sch_entries sch)\<rparr>"

section \<open>Ticks\<close>

definition plan_entry :: "u64 \<Rightarrow> Entry \<Rightarrow> Entry" where
  "plan_entry now e =
     (if now < en_next_due_at_micros e then e
      else e\<lparr>en_next_due_at_micros := now + en_period_micros e\<rparr>)"

definition tick_plan :: "u64 \<Rightarrow> ('p, 'l, 'c) Scheduler \<Rightarrow> SensorId list \<times> ('p, 'l, 'c) Scheduler" where
  "tick_plan now_micros sch =
     (map fst (filter (\<lambda>(_, e). \<not> now_micros < en_next_due_at_micros e) (sch_entries sch)),
      sch\<lparr>sch_entries := hm_map_values (\<lambda>_. plan_entry now_micros) (sch_entries sch)\<rparr>)"

definition backoff_due :: "u64 \<Rightarrow> u64 \<Rightarrow> u32 \<Rightarrow> u64" where
  "backoff_due now period strikes = now + saturating_mul period (push_bit (unat (min strikes 8)) 1)"

text \<open>What the result of sampling does to the sensor's entry.\<close>

definition commit_entry :: "u64 \<Rightarrow> (Sample, PluginError) result \<Rightarrow> Entry \<Rightarrow> Entry" where
  "commit_entry now r e =
     (case r of
        Ok _ \<Rightarrow>
          (let e1 = e\<lparr>en_unsupported_strikes := 0, en_timeout_strikes := 0,
                      en_last_sampled_at_micros := Some now\<rparr>
           in if en_is_static e then e1\<lparr>en_next_due_at_micros := - 1\<rparr> else e1)
      | Err (Unsupported _) \<Rightarrow>
          (let n = saturating_add (en_unsupported_strikes e) 1
           in e\<lparr>en_unsupported_strikes := n,
                en_next_due_at_micros := backoff_due now (en_period_micros e) n\<rparr>)
      | Err (Timeout _) \<Rightarrow>
          (let n = saturating_add (en_timeout_strikes e) 1
           in e\<lparr>en_timeout_strikes := n,
                en_next_due_at_micros := backoff_due now (en_period_micros e) n\<rparr>)
      | Err _ \<Rightarrow> e\<lparr>en_next_due_at_micros := now + en_period_micros e\<rparr>)"

text \<open>The alert clock of the evaluations a sample causes, per sample.\<close>

type_synonym alert_timing = "Sample \<Rightarrow> (nat \<Rightarrow> alert_clock) \<times> (nat \<Rightarrow> bool)"

definition feed_sample ::
    "'c evalexpr \<Rightarrow> alert_timing \<Rightarrow> Sample \<Rightarrow> ('p, 'l, 'c) Scheduler \<times> alert_world \<Rightarrow>
     (NotifyJob list \<times> ('p, 'l, 'c) Scheduler \<times> alert_world) exec" where
  "feed_sample E timing sample st =
     (let (sch, w) = st;
          w1 = (case sch_history sch of
                  None \<Rightarrow> w
                | Some h \<Rightarrow> w\<lparr>aw_channels := history_record h sample (aw_channels w)\<rparr>)
      in case sch_alerts sch of
           None \<Rightarrow> Returns ([], sch, w1)
         | Some eng \<Rightarrow>
             exec_bind (on_sample E (fst (timing sample)) (snd (timing sample)) sample (eng, w1))
               (\<lambda>(jobs, eng', w2). Returns (jobs, sch\<lparr>sch_alerts := Some eng'\<rparr>, w2)))"

fun tick_commit ::
    "'c evalexpr \<Rightarrow> alert_timing \<Rightarrow> (SensorId \<times> (Sample, PluginError) result) list \<Rightarrow> u64 \<Rightarrow>
     ('p, 'l, 'c) Scheduler \<times> alert_world \<Rightarrow>
     (Sample list \<times> NotifyJob list \<times> ('p, 'l, 'c) Scheduler \<times> alert_world) exec" where
  "tick_commit E timing [] now st = Returns ([], [], st)"
| "tick_commit E timing ((i, r) # results) now st =
     (case map_of (sch_entries (fst st)) i of
        None \<Rightarrow> tick_commit E timing results now st
      | Some e \<Rightarrow>
          let sch1 = (fst st)\<lparr>sch_entries := AList.update i (commit_entry now r e) (sch_entries (fst st))\<rparr>
          in case r of
               Ok sample \<Rightarrow>
                 exec_bind (feed_sample E timing sample (sch1, snd st)) (\<lambda>(j1, st1).
                 exec_bind (tick_commit E timing results now st1) (\<lambda>(out, j2, st2).
                   Returns (sample # out, j1 @ j2, st2)))
             | Err _ \<Rightarrow> tick_commit E timing results now (sch1, snd st))"

definition scrape_targets :: "('p, 'l, 'c) Scheduler \<Rightarrow> (SensorDescriptor \<times> string) list exec" where
  "scrape_targets sch =
     (let ids = map (\<lambda>d. (d, plugin_id_for (sch_host sch) (d_id d))) (host_descriptors (sch_host sch))
      in if list_ex (\<lambda>(_, p). p = Panics) ids then Panics
         else Returns (map (\<lambda>(d, p). (d, case p of Returns (Some s) \<Rightarrow> s | _ \<Rightarrow> ''unknown'')) ids))"

definition sample_now ::
    "'p LinsightPlugin \<Rightarrow> SensorId \<Rightarrow> u64 \<Rightarrow> ('p, 'l, 'c) Scheduler \<Rightarrow>
     (Sample option \<times> ('p, 'l, 'c) Scheduler) exec" where
  "sample_now P i ts sch =
     exec_bind (sample_to P i ts (sch_host sch)) (\<lambda>(r, h). Returns (result_ok r, sch\<lparr>sch_host := h\<rparr>))"

section \<open>Switches\<close>

text \<open>
  \<open>spawned\<close> is what \<^verbatim>\<open>history::spawn\<close> returns: the number of a new channel, or an error.
\<close>

definition toggle_history ::
    "string \<Rightarrow> (HistoryWriter, string) result \<Rightarrow> bool \<Rightarrow> ('p, 'l, 'c) Scheduler \<times> alert_world \<Rightarrow>
     (unit, string) result \<times> ('p, 'l, 'c) Scheduler \<times> alert_world" where
  "toggle_history db_path spawned enable st =
     (let (sch, w) = st
      in if enable then
           (if sch_history sch \<noteq> None then (Ok (), sch, w)
            else case spawned of
                   Err e \<Rightarrow> (Err (''history spawn failed: '' @ e), sch, w)
                 | Ok writer \<Rightarrow>
                     (Ok (),
                      sch\<lparr>sch_alerts := map_option (set_event_writer (Some writer)) (sch_alerts sch),
                          sch_history := Some writer, sch_history_db_path := Some db_path\<rparr>,
                      w\<lparr>aw_channels := AList.update writer \<lparr>ch_queue = [], ch_open = True, ch_dropped = 0\<rparr>
                                         (aw_channels w)\<rparr>))
         else
           (Ok (),
            sch\<lparr>sch_alerts := map_option (set_event_writer None) (sch_alerts sch), sch_history := None,
                sch_history_db_path := None\<rparr>, w))"

definition toggle_alerts ::
    "'c evalexpr \<Rightarrow> (string \<Rightarrow> (RuleConfig list, string) result) \<Rightarrow> files \<Rightarrow> string \<Rightarrow> bool \<Rightarrow>
     ('p, 'l, 'c) Scheduler \<Rightarrow> ((unit, string) result \<times> ('p, 'l, 'c) Scheduler) exec" where
  "toggle_alerts E from_toml m toml_path enable sch =
     (if enable then
        (if sch_alerts sch \<noteq> None then Returns (Ok (), sch)
         else exec_bind (alerts_load E from_toml toml_path m) (\<lambda>loaded.
                case loaded of
                  Err e \<Rightarrow> Returns (Err (''alert load failed: '' @ e), sch)
                | Ok engine \<Rightarrow>
                    (let handle = (case sch_history sch of
                           None \<Rightarrow> engine | Some writer \<Rightarrow> set_event_writer (Some writer) engine)
                     in Returns (Ok (), sch\<lparr>sch_alerts := Some handle,
                                             sch_alerts_config_path := Some toml_path\<rparr>))))
      else Returns (Ok (), sch\<lparr>sch_alerts := None, sch_alerts_config_path := None\<rparr>))"

definition set_history_writer :: "HistoryWriter option \<Rightarrow> ('p, 'l, 'c) Scheduler \<Rightarrow> ('p, 'l, 'c) Scheduler" where
  "set_history_writer writer sch = sch\<lparr>sch_history := writer\<rparr>"

definition set_history_db_path :: "string option \<Rightarrow> ('p, 'l, 'c) Scheduler \<Rightarrow> ('p, 'l, 'c) Scheduler" where
  "set_history_db_path path sch = sch\<lparr>sch_history_db_path := path\<rparr>"

definition set_alert_engine :: "'c AlertEngine option \<Rightarrow> ('p, 'l, 'c) Scheduler \<Rightarrow> ('p, 'l, 'c) Scheduler" where
  "set_alert_engine engine sch = sch\<lparr>sch_alerts := engine\<rparr>"

definition set_alerts_config_path :: "string option \<Rightarrow> ('p, 'l, 'c) Scheduler \<Rightarrow> ('p, 'l, 'c) Scheduler" where
  "set_alerts_config_path path sch = sch\<lparr>sch_alerts_config_path := path\<rparr>"

definition set_prom_running :: "bool \<Rightarrow> ('p, 'l, 'c) Scheduler \<Rightarrow> ('p, 'l, 'c) Scheduler" where
  "set_prom_running running sch = sch\<lparr>sch_prom_running := running\<rparr>"

definition daemon_settings ::
    "string option \<Rightarrow> ('p, 'l, 'c) Scheduler \<Rightarrow> bool \<times> bool \<times> bool \<times> string option" where
  "daemon_settings prom_bind sch =
     (sch_history sch \<noteq> None, sch_alerts sch \<noteq> None, sch_prom_running sch, prom_bind)"

section \<open>Reference counts\<close>

text \<open>The least key of a tree map.\<close>

lemma fold_min_Min: "fold min ks (k::'a::linorder) = Min (set (k # ks))"
  by (metis Min.set_eq_fold)

lemma btree_first_eq: "m \<noteq> [] \<Longrightarrow> btree_first m = Some (Min (fst ` set m))"
  by (cases m) (auto simp: btree_first_def fold_min_Min)

lemma btree_first_Some:
  "btree_first m = Some k \<longleftrightarrow> k \<in> fst ` set m \<and> (\<forall>x \<in> fst ` set m. k \<le> x)"
proof (cases "m = []")
  case False
  then have "Min (fst ` set m) = k \<longleftrightarrow> k \<in> fst ` set m \<and> (\<forall>x \<in> fst ` set m. k \<le> x)"
    by (intro Min_eq_iff) auto
  with False show ?thesis by (simp add: btree_first_eq)
qed (simp add: btree_first_def)

lemma btree_first_None: "btree_first m = None \<longleftrightarrow> m = []"
  by (cases m) (auto simp: btree_first_def)

definition wf_entry_counts :: "Entry \<Rightarrow> bool" where
  "wf_entry_counts e \<longleftrightarrow>
     distinct (map fst (en_period_counts e)) \<and> list_all (\<lambda>(_, c). c \<noteq> 0) (en_period_counts e)
     \<and> btree_first (en_period_counts e) = Some (en_period_micros e)"

definition wf_entries :: "(SensorId \<times> Entry) list \<Rightarrow> bool" where
  "wf_entries es \<longleftrightarrow> distinct (map fst es) \<and> list_all (\<lambda>(_, e). wf_entry_counts e) es"

lemma list_all_alist:
  "distinct (map fst m) \<Longrightarrow> list_all (\<lambda>(k, v). P k v) m \<longleftrightarrow> (\<forall>k v. map_of m k = Some v \<longrightarrow> P k v)"
  by (auto simp: list_all_iff)

lemma wf_entries_alt:
  "wf_entries es \<longleftrightarrow> distinct (map fst es) \<and> (\<forall>i e. map_of es i = Some e \<longrightarrow> wf_entry_counts e)"
  using list_all_alist [of es "\<lambda>_ e. wf_entry_counts e"] unfolding wf_entries_def by blast

lemma wf_entry_counts_alt:
  "wf_entry_counts e \<longleftrightarrow>
     distinct (map fst (en_period_counts e)) \<and> (\<forall>p c. map_of (en_period_counts e) p = Some c \<longrightarrow> c \<noteq> 0)
     \<and> btree_first (en_period_counts e) = Some (en_period_micros e)"
  using list_all_alist [of "en_period_counts e" "\<lambda>_ c. c \<noteq> 0"] unfolding wf_entry_counts_def by blast

definition count_of :: "(u64 \<times> u32) list \<Rightarrow> u64 \<Rightarrow> nat" where
  "count_of m p = (case map_of m p of None \<Rightarrow> 0 | Some c \<Rightarrow> unat c)"

definition sub_count :: "(SensorId \<times> Entry) list \<Rightarrow> Subscription \<Rightarrow> nat" where
  "sub_count es s =
     (case map_of es (sub_sensor s) of None \<Rightarrow> 0 | Some e \<Rightarrow> count_of (en_period_counts e) (sub_period_micros s))"

lemma count_of_bump:
  "count_of m p < 2 ^ 32 - 1 \<Longrightarrow> count_of (bump p m) = (count_of m)(p := Suc (count_of m p))"
  by (auto simp: fun_eq_iff count_of_def bump_def update_conv' unat_word_ariths split: option.splits)

lemma count_of_drop:
  "count_of (drop_count p m) = (count_of m)(p := count_of m p - 1)"
  by (auto simp: fun_eq_iff count_of_def drop_count_def update_conv' delete_conv' Let_def word_nat_simps
      split: option.splits dest: arg_cong [where f = unat])


lemma wf_counts_bump:
  assumes "distinct (map fst m)" and "\<forall>p c. map_of m p = Some c \<longrightarrow> c \<noteq> 0" and "count_of m p < 2 ^ 32 - 1"
  shows "distinct (map fst (bump p m))" and "\<forall>q c. map_of (bump p m) q = Some c \<longrightarrow> c \<noteq> 0"
    and "bump p m \<noteq> []"
proof -
  show "distinct (map fst (bump p m))" using assms(1) by (simp add: bump_def distinct_update)
  show "\<forall>q c. map_of (bump p m) q = Some c \<longrightarrow> c \<noteq> 0"
  proof (intro allI impI)
    fix q c assume c: "map_of (bump p m) q = Some c"
    then have "unat c = count_of (bump p m) q" by (simp add: count_of_def)
    also have "\<dots> = (if q = p then Suc (count_of m p) else count_of m q)"
      using assms(3) by (simp add: count_of_bump)
    finally have u: "unat c = (if q = p then Suc (count_of m p) else count_of m q)" .
    show "c \<noteq> 0"
    proof (cases "q = p")
      case False
      with c have "map_of m q = Some c" by (simp add: bump_def update_conv')
      with assms(2) show ?thesis by blast
    qed (use u in auto)
  qed
  have "map_of (bump p m) p \<noteq> None" by (simp add: bump_def update_conv')
  then show "bump p m \<noteq> []" by auto
qed

lemma wf_counts_drop:
  assumes "distinct (map fst m)" and "\<forall>p c. map_of m p = Some c \<longrightarrow> c \<noteq> 0"
  shows "distinct (map fst (drop_count p m))" and "\<forall>q c. map_of (drop_count p m) q = Some c \<longrightarrow> c \<noteq> 0"
  using assms
  by (auto simp: drop_count_def Let_def distinct_update distinct_delete update_conv' delete_conv'
      simp del: map_of_eq_Some_iff split: option.splits if_splits)

lemma wf_entriesD: "wf_entries es \<Longrightarrow> map_of es i = Some e \<Longrightarrow> wf_entry_counts e"
  by (auto simp: wf_entries_alt)

lemma wf_entries_update: "wf_entries es \<Longrightarrow> wf_entry_counts e \<Longrightarrow> wf_entries (AList.update i e es)"
  by (auto simp: wf_entries_alt distinct_update update_conv')

lemma wf_entries_delete: "wf_entries es \<Longrightarrow> wf_entries (AList.delete i es)"
  by (auto simp: wf_entries_alt distinct_delete delete_conv')

lemma wf_add_subscription:
  assumes "wf_entries es" and "sub_count es s < 2 ^ 32 - 1"
  shows "wf_entries (add_subscription (sub_sensor s) (sub_period_micros s) st es)"
proof (cases "map_of es (sub_sensor s)")
  case None
  have "wf_entry_counts \<lparr>en_period_counts = [(p, 1)], en_period_micros = p, en_next_due_at_micros = 0,
      en_last_sampled_at_micros = None, en_is_static = st, en_unsupported_strikes = 0, en_timeout_strikes = 0\<rparr>" for p
    by (simp add: wf_entry_counts_def btree_first_def)
  with None assms(1) show ?thesis by (simp add: add_subscription_def wf_entries_update)
next
  case (Some e)
  have e: "wf_entry_counts e" using wf_entriesD [OF assms(1) Some] .
  have c: "count_of (en_period_counts e) (sub_period_micros s) < 2 ^ 32 - 1"
    using assms(2) Some by (simp add: sub_count_def)
  note b = wf_counts_bump [OF _ _ c]
  from e b have "wf_entry_counts (e\<lparr>en_period_counts := bump (sub_period_micros s) (en_period_counts e),
       en_period_micros := (case btree_first (bump (sub_period_micros s) (en_period_counts e)) of
          Some k \<Rightarrow> k | None \<Rightarrow> en_period_micros e), en_next_due_at_micros := 0\<rparr>)"
    unfolding wf_entry_counts_alt by (auto simp: btree_first_None split: option.splits)
  with Some assms(1) show ?thesis by (simp add: add_subscription_def wf_entries_update)
qed

lemma wf_drop_subscription: "wf_entries es \<Longrightarrow> wf_entries (drop_subscription s es)"
proof (cases "map_of es (sub_sensor s)")
  case (Some e)
  assume wf: "wf_entries es"
  let ?c = "drop_count (sub_period_micros s) (en_period_counts e)"
  from wf_entriesD [OF wf Some] have d: "distinct (map fst ?c)" "\<forall>q c. map_of ?c q = Some c \<longrightarrow> c \<noteq> 0"
    unfolding wf_entry_counts_alt by (metis wf_counts_drop(1), metis wf_counts_drop(2))
  show ?thesis
  proof (cases "btree_first ?c")
    case None
    with Some wf show ?thesis by (simp add: drop_subscription_def wf_entries_delete)
  next
    case k: (Some k)
    have w: "wf_entry_counts x" if "en_period_counts x = ?c" "en_period_micros x = k" for x
      using d k that unfolding wf_entry_counts_alt by metis
    show ?thesis
      using Some k wf w by (simp add: drop_subscription_def Let_def wf_entries_update)
  qed
qed (simp add: drop_subscription_def)

lemma sub_count_add:
  assumes "sub_count es s < 2 ^ 32 - 1"
  shows "sub_count (add_subscription (sub_sensor s) (sub_period_micros s) st es) = (sub_count es)(s := Suc (sub_count es s))"
proof
  fix t :: Subscription
  have eq: "t = s \<longleftrightarrow> sub_sensor t = sub_sensor s \<and> sub_period_micros t = sub_period_micros s" by auto
  show "sub_count (add_subscription (sub_sensor s) (sub_period_micros s) st es) t = ((sub_count es)(s := Suc (sub_count es s))) t"
  proof (cases "map_of es (sub_sensor s)")
    case None
    then show ?thesis by (auto simp: sub_count_def add_subscription_def update_conv' eq count_of_def)
  next
    case (Some e)
    with assms have "count_of (bump (sub_period_micros s) (en_period_counts e)) =
       (count_of (en_period_counts e))(sub_period_micros s := Suc (count_of (en_period_counts e) (sub_period_micros s)))"
      by (intro count_of_bump) (simp add: sub_count_def)
    with Some show ?thesis by (auto simp: sub_count_def add_subscription_def update_conv' eq)
  qed
qed

lemma sub_count_drop:
  "sub_count (drop_subscription s es) = (sub_count es)(s := sub_count es s - 1)"
proof
  fix t :: Subscription
  have eq: "t = s \<longleftrightarrow> sub_sensor t = sub_sensor s \<and> sub_period_micros t = sub_period_micros s" by auto
  show "sub_count (drop_subscription s es) t = ((sub_count es)(s := sub_count es s - 1)) t"
  proof (cases "map_of es (sub_sensor s)")
    case None
    then show ?thesis by (auto simp: sub_count_def drop_subscription_def)
  next
    case (Some e)
    let ?c = "drop_count (sub_period_micros s) (en_period_counts e)"
    have c: "count_of ?c = (count_of (en_period_counts e))(sub_period_micros s := count_of (en_period_counts e) (sub_period_micros s) - 1)"
      by (rule count_of_drop)
    show ?thesis
    proof (cases "btree_first ?c")
      case None
      then have "count_of ?c p = 0" for p by (simp add: btree_first_None count_of_def)
      then have z: "count_of (en_period_counts e) p = 0 \<or> (p = sub_period_micros s \<and> count_of (en_period_counts e) p = 1)" for p
        using fun_cong [OF c, of p] by (auto split: if_splits)
      have "sub_count (drop_subscription s es) t = (if sub_sensor t = sub_sensor s then 0 else sub_count es t)"
        using None Some by (simp add: sub_count_def drop_subscription_def delete_conv')
      with z [of "sub_period_micros t"] Some show ?thesis by (auto simp: sub_count_def eq)
    next
      case k: (Some k)
      have "sub_count (drop_subscription s es) t =
          (if sub_sensor t = sub_sensor s then count_of ?c (sub_period_micros t) else sub_count es t)"
        using k Some by (simp add: sub_count_def drop_subscription_def update_conv' Let_def)
      with c Some show ?thesis by (auto simp: sub_count_def eq)
    qed
  qed
qed

text \<open>
  The contract of a reference-counted resource: acquiring raises the count of one key by one
  (below the capacity of the counter), releasing lowers it, and nothing else changes.
\<close>

locale refcounts =
  fixes acquire :: "'k \<Rightarrow> 's \<Rightarrow> 's"
    and release :: "'k \<Rightarrow> 's \<Rightarrow> 's"
    and count :: "'s \<Rightarrow> 'k \<Rightarrow> nat"
    and inv :: "'s \<Rightarrow> bool"
    and cap :: nat
  assumes count_acquire: "inv s \<Longrightarrow> count s k < cap \<Longrightarrow> count (acquire k s) = (count s)(k := Suc (count s k))"
    and inv_acquire: "inv s \<Longrightarrow> count s k < cap \<Longrightarrow> inv (acquire k s)"
    and count_release: "inv s \<Longrightarrow> count (release k s) = (count s)(k := count s k - 1)"
    and inv_release: "inv s \<Longrightarrow> inv (release k s)"
begin

lemma fold_acquire:
  assumes "inv s" and "\<And>k. count s k + count_list ks k \<le> cap"
  shows "inv (fold acquire ks s)" and "count (fold acquire ks s) k = count s k + count_list ks k"
  using assms
proof (induction ks arbitrary: s)
  case (Cons x ks)
  case 1
  have x: "count s x < cap" using 1(2) [of x] by simp
  then have "count (acquire x s) k + count_list ks k \<le> cap" for k
    using 1(2) [of k] by (auto simp: count_acquire [OF 1(1)])
  with Cons.IH(1) inv_acquire [OF 1(1) x] show ?case by simp
next
  case (Cons x ks)
  case 2
  have x: "count s x < cap" using 2(2) [of x] by simp
  then have "count (acquire x s) k + count_list ks k \<le> cap" for k
    using 2(2) [of k] by (auto simp: count_acquire [OF 2(1)])
  with Cons.IH(2) inv_acquire [OF 2(1) x] x show ?case by (simp add: count_acquire [OF 2(1)])
qed simp_all

lemma fold_release:
  assumes "inv s"
  shows "inv (fold release ks s)" and "count (fold release ks s) k = count s k - count_list ks k"
  using assms by (induction ks arbitrary: s) (auto simp: inv_release count_release)

text \<open>Releasing, in any order, what was acquired restores every count.\<close>

lemma balanced:
  assumes "inv s" and "\<And>k. count s k + count_list ks k \<le> cap" and "mset ks' = mset ks"
  shows "inv (fold release ks' (fold acquire ks s))"
    and "count (fold release ks' (fold acquire ks s)) k = count s k"
proof -
  note a = fold_acquire [OF assms(1,2)]
  have "count_list ks' k = count_list ks k" for k
    using assms(3) by (metis count_mset)
  with a fold_release [OF a(1)] show "inv (fold release ks' (fold acquire ks s))"
    and "count (fold release ks' (fold acquire ks s)) k = count s k" by simp_all
qed

text \<open>A holder that gives back all it holds leaves exactly the shares of the others.\<close>

lemma give_back:
  assumes "inv s" and "\<And>k. count s k = count_list ks k + others k"
  shows "count (fold release ks s) = others"
  using fold_release(2) [OF assms(1), of ks] assms(2) by (simp add: fun_eq_iff)

end

interpretation subs: refcounts
  "\<lambda>s. add_subscription (sub_sensor s) (sub_period_micros s) (st s)" drop_subscription sub_count wf_entries
  "2 ^ 32 - 1" for st
  by unfold_locales (simp_all add: sub_count_add sub_count_drop wf_add_subscription wf_drop_subscription)


section \<open>Rates and periods\<close>

definition rate_ok :: "fl \<Rightarrow> bool" where
  "rate_ok x \<longleftrightarrow> fl_le MIN_RATE_HZ x \<and> fl_le x MAX_RATE_HZ"

lemma rate_okE:
  assumes "rate_ok x"
  obtains r where "x = Fin r" and "13421773 / 134217728 \<le> r" and "r \<le> 20"
  using assms by (cases x) (auto simp: rate_ok_def MIN_RATE_HZ_def MAX_RATE_HZ_def)

lemma clamped_rate_ok:
  assumes "clamped_rate_hz d = Returns x"
  shows "x = NaN \<or> rate_ok x"
proof -
  have "fl_clamp v MIN_RATE_HZ MAX_RATE_HZ = Returns x \<Longrightarrow> x = NaN \<or> rate_ok x" for v
    by (cases v) (auto simp: fl_clamp_def rate_ok_def MIN_RATE_HZ_def MAX_RATE_HZ_def split: if_splits)
  with assms show ?thesis by (simp add: clamped_rate_hz_def)
qed

lemma clamped_rate_returns: "\<exists>x. clamped_rate_hz d = Returns x"
  by (simp add: clamped_rate_hz_def fl_clamp_def MIN_RATE_HZ_def MAX_RATE_HZ_def)

lemma effective_rate_ok:
  assumes "effective_rate native req = Returns x" and "native = NaN \<or> rate_ok native"
  shows "rate_ok x"
proof (cases "native = NaN")
  case True
  with assms show ?thesis
    by (auto simp: effective_rate_def fl_clamp_def rate_ok_def MIN_RATE_HZ_def MAX_RATE_HZ_def split: option.splits)
next
  case False
  with assms obtain r where "native = Fin r" "13421773 / 134217728 \<le> r" "r \<le> 20" by (blast elim: rate_okE)
  with assms show ?thesis
    by (cases req; cases "the req")
       (auto simp: effective_rate_def fl_clamp_def rate_ok_def MIN_RATE_HZ_def MAX_RATE_HZ_def split: if_splits)
qed

lemma effective_rate_returns:
  assumes "rate_ok native"
  shows "\<exists>x. effective_rate native req = Returns x"
proof -
  obtain r where "native = Fin r" "13421773 / 134217728 \<le> r" "r \<le> 20" using assms by (rule rate_okE)
  then show ?thesis by (cases req) (simp_all add: effective_rate_def fl_clamp_def MIN_RATE_HZ_def)
qed

lemma period_bounds:
  assumes "rate_ok x"
  shows "50000 \<le> unat (period_of_rate x)" and "unat (period_of_rate x) < 10000000"
proof -
  obtain r where r: "x = Fin r" "13421773 / 134217728 \<le> r" "r \<le> 20" using assms by (rule rate_okE)
  then have pos: "0 < r" by (meson order_less_le_trans zero_less_divide_iff zero_less_numeral)
  have lo: "of_nat 50000 \<le> 1000000 / r" and hi: "1000000 / r \<le> of_nat 10000000"
    using r pos by (simp_all add: field_simps)
  have "round_mag (1000000 / r) \<le> round_mag (1000000 / (13421773 / 134217728))"
    using r pos by (intro round_mag_mono divide_left_mono) auto
  also have "\<dots> < 10000000" by code_simp
  finally have lt: "round_mag (1000000 / r) < 10000000" .
  obtain q where q: "round_f64 (1000000 / r) = Fin q" "of_nat 50000 \<le> q" "q \<le> of_nat 10000000"
    using round_f64_between [OF lo hi] by auto
  have "q = round_mag (1000000 / r)"
    using q(1) pos by (auto simp: round_f64_def Let_def split: if_splits)
  with lt have lt': "q < of_nat 10000000" by simp
  have p: "period_of_rate x = fl_to_u64 (Fin q)"
    using r(1) pos q(1) by (simp add: period_of_rate_def)
  show "50000 \<le> unat (period_of_rate x)" and "unat (period_of_rate x) < 10000000"
    unfolding p using unat_fl_to_u64 [OF q(2) lt'] by simp_all
qed


section \<open>Ticks\<close>

lemma plan_entry_counts [simp]:
  "en_period_counts (plan_entry now e) = en_period_counts e"
  "en_period_micros (plan_entry now e) = en_period_micros e"
  by (simp_all add: plan_entry_def)

lemma commit_entry_counts [simp]:
  "en_period_counts (commit_entry now r e) = en_period_counts e"
  "en_period_micros (commit_entry now r e) = en_period_micros e"
  by (auto simp: commit_entry_def Let_def split: result.splits PluginError.splits)

lemma wf_entry_counts_cong:
  "en_period_counts e' = en_period_counts e \<Longrightarrow> en_period_micros e' = en_period_micros e \<Longrightarrow>
   wf_entry_counts e' = wf_entry_counts e"
  by (simp add: wf_entry_counts_def)

lemma tick_plan_entries:
  "map_of (sch_entries (snd (tick_plan now sch))) i = map_option (plan_entry now) (map_of (sch_entries sch) i)"
  by (simp add: tick_plan_def map_of_hm_map_values)

lemma tick_plan_due:
  assumes "distinct (map fst (sch_entries sch))"
  shows "i \<in> set (fst (tick_plan now sch)) \<longleftrightarrow>
    (\<exists>e. map_of (sch_entries sch) i = Some e \<and> en_next_due_at_micros e \<le> now)"
  using assms by (force simp: tick_plan_def)

lemma tick_plan_distinct: "distinct (map fst (sch_entries sch)) \<Longrightarrow> distinct (fst (tick_plan now sch))"
  by (simp add: tick_plan_def distinct_keys_filter)

lemma wf_tick_plan:
  assumes "wf_entries (sch_entries sch)"
  shows "wf_entries (sch_entries (snd (tick_plan now sch)))"
    and "sub_count (sch_entries (snd (tick_plan now sch))) = sub_count (sch_entries sch)"
proof -
  have "distinct (map fst (sch_entries (snd (tick_plan now sch))))"
    using assms by (simp add: tick_plan_def wf_entries_def)
  with assms show "wf_entries (sch_entries (snd (tick_plan now sch)))"
    by (auto simp: wf_entries_alt tick_plan_entries wf_entry_counts_cong [of "plan_entry _ _"] simp del: map_of_eq_Some_iff)
  show "sub_count (sch_entries (snd (tick_plan now sch))) = sub_count (sch_entries sch)"
    by (auto simp: sub_count_def tick_plan_entries fun_eq_iff split: option.splits)
qed

lemma feed_sample_returns:
  "\<exists>j sch' w'. feed_sample E timing sample (sch, w) = Returns (j, sch', w') \<and> sch_entries sch' = sch_entries sch
     \<and> sch_host sch' = sch_host sch"
proof (cases "sch_alerts sch")
  case None
  then show ?thesis by (simp add: feed_sample_def)
next
  case (Some eng)
  let ?w1 = "case sch_history sch of None \<Rightarrow> w | Some h \<Rightarrow> w\<lparr>aw_channels := history_record h sample (aw_channels w)\<rparr>"
  obtain ns eng' w' where "on_sample E (fst (timing sample)) (snd (timing sample)) sample (eng, ?w1) = Returns (ns, eng', w')"
    using on_sample_returns by blast
  with Some show ?thesis by (simp add: feed_sample_def)
qed

text \<open>What a commit does to the entries, one result after another.\<close>

fun commit_entries ::
    "u64 \<Rightarrow> (SensorId \<times> (Sample, PluginError) result) list \<Rightarrow> (SensorId \<times> Entry) list \<Rightarrow> (SensorId \<times> Entry) list" where
  "commit_entries now [] es = es"
| "commit_entries now ((i, r) # rs) es =
     commit_entries now rs
       (case map_of es i of None \<Rightarrow> es | Some e \<Rightarrow> AList.update i (commit_entry now r e) es)"

definition committed :: "(SensorId \<times> Entry) list \<Rightarrow> SensorId \<times> (Sample, PluginError) result \<Rightarrow> Sample option" where
  "committed es x = (if hm_contains es (fst x) then result_ok (snd x) else None)"

lemma committed_known: "map_of es i = Some e \<Longrightarrow> committed es (i, r) = result_ok r"
  and committed_unknown: "map_of es i = None \<Longrightarrow> committed es (i, r) = None"
  by (simp_all add: committed_def hm_contains_def)

lemma committed_update:
  "map_of es i = Some e \<Longrightarrow> committed (AList.update i e' es) = committed es"
  by (auto simp: committed_def fun_eq_iff hm_contains_def update_conv')

lemma tick_commit_spec:
  "\<exists>j sch' w'. tick_commit E timing results now (sch, w) =
       Returns (List.map_filter (committed (sch_entries sch)) results, j, sch', w')
     \<and> sch_entries sch' = commit_entries now results (sch_entries sch) \<and> sch_host sch' = sch_host sch"
proof (induction results arbitrary: sch w)
  case (Cons x results)
  obtain i r where x: "x = (i, r)" by (cases x)
  show ?case
  proof (cases "map_of (sch_entries sch) i")
    case None
    with Cons [of sch w] x show ?thesis
      by (simp add: map_filter_simps committed_unknown)
  next
    case (Some e)
    let ?es = "AList.update i (commit_entry now r e) (sch_entries sch)"
    let ?s1 = "sch\<lparr>sch_entries := ?es\<rparr>"
    note cu = committed_update [OF Some, of "commit_entry now r e"]
    show ?thesis
    proof (cases r)
      case (Ok sample)
      obtain j1 s2 w2 where f: "feed_sample E timing sample (?s1, w) = Returns (j1, s2, w2)"
        and e2: "sch_entries s2 = ?es" "sch_host s2 = sch_host sch"
        using feed_sample_returns [of E timing sample ?s1 w] by auto
      obtain j2 s3 w3 where t: "tick_commit E timing results now (s2, w2) =
          Returns (List.map_filter (committed (sch_entries s2)) results, j2, s3, w3)"
        and "sch_entries s3 = commit_entries now results (sch_entries s2)" "sch_host s3 = sch_host s2"
        using Cons [of s2 w2] by blast
      with e2 x Some Ok f cu show ?thesis
        by (simp add: map_filter_simps committed_known)
    next
      case (Err er)
      with Cons [of ?s1 w] x Some cu show ?thesis
        by (simp add: map_filter_simps committed_known)
    qed
  qed
qed (simp add: map_filter_simps)

lemma wf_commit_entries:
  assumes "wf_entries es"
  shows "wf_entries (commit_entries now rs es)" and "sub_count (commit_entries now rs es) = sub_count es"
  using assms
proof (induction now rs es rule: commit_entries.induct)
  case (2 now i r rs es)
  let ?es = "case map_of es i of None \<Rightarrow> es | Some e \<Rightarrow> AList.update i (commit_entry now r e) es"
  {
    case 1
    then have "wf_entries ?es"
      using wf_entriesD [OF 1] by (auto simp: wf_entry_counts_cong [of "commit_entry _ _ _"]
          intro!: wf_entries_update split: option.split)
    with 2 show ?case by simp
  next
    case 2
    then have "wf_entries ?es"
      using wf_entriesD [OF 2] by (auto simp: wf_entry_counts_cong [of "commit_entry _ _ _"]
          intro!: wf_entries_update split: option.split)
    moreover have "sub_count ?es = sub_count es"
      by (auto simp: sub_count_def fun_eq_iff update_conv' split: option.split)
    ultimately show ?case using "2.IH" by simp
  }
qed simp_all


section \<open>Reachable schedulers\<close>

text \<open>
  The states the scheduler reaches, with the subscriptions that are held: clients subscribe and
  give back what they hold, ticks are planned and committed with any results in between, and
  the switches are toggled. No subscription is held more than \<open>2 ^ 32 - 1\<close> times (the counter is
  a \<^verbatim>\<open>u32\<close>).
\<close>

inductive sched_reach ::
    "('p, 'l) PluginHost \<Rightarrow> Subscription list \<Rightarrow> ('p, 'l, 'c) Scheduler \<Rightarrow> bool" for host where
  init: "sched_reach host [] (Scheduler_new host)"
| subscribe: "sched_reach host toks sch \<Longrightarrow> subscribe i rate sch = Returns (Ok s, sch') \<Longrightarrow>
    count_list toks s < 2 ^ 32 - 1 \<Longrightarrow> sched_reach host (s # toks) sch'"
| unsubscribe: "sched_reach host toks sch \<Longrightarrow> s \<in> set toks \<Longrightarrow> sched_reach host (remove1 s toks) (unsubscribe s sch)"
| plan: "sched_reach host toks sch \<Longrightarrow> sched_reach host toks (snd (tick_plan now sch))"
| commit: "sched_reach host toks sch \<Longrightarrow> tick_commit E timing results now (sch, w) = Returns (out, jobs, sch', w') \<Longrightarrow>
    sched_reach host toks sch'"
| toggle_history: "sched_reach host toks sch \<Longrightarrow> toggle_history db_path spawned enable (sch, w) = (r, sch', w') \<Longrightarrow>
    sched_reach host toks sch'"
| toggle_alerts: "sched_reach host toks sch \<Longrightarrow> toggle_alerts E from_toml m toml_path enable sch = Returns (r, sch') \<Longrightarrow>
    sched_reach host toks sch'"

lemma toggle_history_entries:
  "toggle_history db_path spawned enable (sch, w) = (r, sch', w') \<Longrightarrow>
     sch_entries sch' = sch_entries sch \<and> sch_host sch' = sch_host sch"
  by (auto simp: toggle_history_def split: if_splits result.splits)

lemma toggle_alerts_entries:
  "toggle_alerts E from_toml m toml_path enable sch = Returns (r, sch') \<Longrightarrow>
     sch_entries sch' = sch_entries sch \<and> sch_host sch' = sch_host sch"
  by (cases "alerts_load E from_toml toml_path m")
     (auto simp: toggle_alerts_def Let_def split: if_splits result.splits)

lemma subscribe_OkD:
  assumes "subscribe i rate sch = Returns (Ok s, sch')"
  shows "\<exists>st. sub_sensor s = i \<and> sch_host sch' = sch_host sch
     \<and> sch_entries sch' = add_subscription (sub_sensor s) (sub_period_micros s) st (sch_entries sch)"
    and "50000 \<le> unat (sub_period_micros s) \<and> unat (sub_period_micros s) < 10000000"
proof -
  obtain d where d: "find (\<lambda>d. d_id d = i) (host_descriptors (sch_host sch)) = Some d"
    using assms by (auto simp: subscribe_def split: option.splits)
  obtain n where n: "clamped_rate_hz d = Returns n" using clamped_rate_returns by blast
  obtain x where x: "effective_rate n rate = Returns x"
    using assms d n by (cases "effective_rate n rate") (auto simp: subscribe_def)
  have s: "s = \<lparr>sub_sensor = i, sub_period_micros = period_of_rate x\<rparr>"
    and sch': "sch' = sch\<lparr>sch_entries := add_subscription i (period_of_rate x) (STATIC_TAG \<in> set (d_tags d)) (sch_entries sch)\<rparr>"
    using assms d n x by (auto simp: subscribe_def Let_def)
  show "\<exists>st. sub_sensor s = i \<and> sch_host sch' = sch_host sch
     \<and> sch_entries sch' = add_subscription (sub_sensor s) (sub_period_micros s) st (sch_entries sch)"
    by (rule exI [of _ "STATIC_TAG \<in> set (d_tags d)"]) (simp add: s sch')
  show "50000 \<le> unat (sub_period_micros s) \<and> unat (sub_period_micros s) < 10000000"
    using period_bounds [OF effective_rate_ok [OF x clamped_rate_ok [OF n]]] by (simp add: s)
qed

definition sched_inv :: "('p, 'l) PluginHost \<Rightarrow> Subscription list \<Rightarrow> ('p, 'l, 'c) Scheduler \<Rightarrow> bool" where
  "sched_inv host toks sch \<longleftrightarrow>
     sch_host sch = host \<and> wf_entries (sch_entries sch) \<and> sub_count (sch_entries sch) = count_list toks
     \<and> (\<forall>s \<in> set toks. 50000 \<le> unat (sub_period_micros s) \<and> unat (sub_period_micros s) < 10000000)"

lemma sched_inv_reach:
  assumes "sched_reach host toks sch"
  shows "sched_inv host toks sch"
  using assms
proof induction
  case init
  show ?case by (simp add: sched_inv_def Scheduler_new_def wf_entries_def sub_count_def fun_eq_iff)
next
  case (subscribe toks sch i rate s sch')
  from subscribe_OkD [OF subscribe(2)] obtain st where
    "sch_entries sch' = add_subscription (sub_sensor s) (sub_period_micros s) st (sch_entries sch)"
    "sch_host sch' = sch_host sch" "50000 \<le> unat (sub_period_micros s) \<and> unat (sub_period_micros s) < 10000000" by blast
  with subscribe(3,4) show ?case
    by (auto simp: sched_inv_def wf_add_subscription sub_count_add fun_eq_iff)
next
  case (unsubscribe toks sch s)
  have "count_list (remove1 s toks) k = (if k = s then count_list toks s - 1 else count_list toks k)" for k
    by (metis count_mset count_diff count_single diff_zero mset_remove1)
  moreover have "set (remove1 s toks) \<subseteq> set toks" by (rule set_remove1_subset)
  ultimately show ?case using unsubscribe(3)
    by (auto simp: sched_inv_def unsubscribe_def wf_drop_subscription sub_count_drop fun_eq_iff)
next
  case (plan toks sch now)
  then have "sch_host (snd (tick_plan now sch)) = host" by (simp add: sched_inv_def tick_plan_def)
  with plan show ?case using wf_tick_plan [of sch now] by (simp add: sched_inv_def)
next
  case (commit toks sch E timing results now w out jobs sch' w')
  with tick_commit_spec [of E timing results now sch w] have
    "sch_entries sch' = commit_entries now results (sch_entries sch)" "sch_host sch' = sch_host sch" by auto
  with commit show ?case by (simp add: sched_inv_def wf_commit_entries)
next
  case (toggle_history toks sch db_path spawned enable w r sch' w')
  then show ?case using toggle_history_entries by (fastforce simp: sched_inv_def)
next
  case (toggle_alerts toks sch E from_toml m toml_path enable r sch')
  then show ?case using toggle_alerts_entries by (fastforce simp: sched_inv_def)
qed

lemma subscription_mem:
  "p \<in> sub_period_micros ` {s \<in> A. sub_sensor s = i} \<longleftrightarrow> \<lparr>sub_sensor = i, sub_period_micros = p\<rparr> \<in> A"
proof
  assume "p \<in> sub_period_micros ` {s \<in> A. sub_sensor s = i}"
  then obtain s where s: "s \<in> A" "sub_sensor s = i" "sub_period_micros s = p" by blast
  then have "s = \<lparr>sub_sensor = i, sub_period_micros = p\<rparr>" by simp
  with s(1) show "\<lparr>sub_sensor = i, sub_period_micros = p\<rparr> \<in> A" by (simp only:)
next
  assume "\<lparr>sub_sensor = i, sub_period_micros = p\<rparr> \<in> A"
  then show "p \<in> sub_period_micros ` {s \<in> A. sub_sensor s = i}"
    by (intro image_eqI [of _ _ "\<lparr>sub_sensor = i, sub_period_micros = p\<rparr>"]) simp_all
qed

lemma period_keys:
  assumes "\<forall>p c. map_of m p = Some c \<longrightarrow> c \<noteq> 0"
  shows "p \<in> fst ` set m \<longleftrightarrow> 0 < count_of m p"
proof (cases "map_of m p")
  case None
  then have "p \<notin> fst ` set m" by (metis map_of_eq_None_iff)
  with None show ?thesis by (simp add: count_of_def)
next
  case (Some c)
  then have "p \<in> fst ` set m" by (metis map_of_eq_None_iff option.distinct(1))
  moreover have "0 < unat c" using assms Some by (simp add: unat_gt_0)
  ultimately show ?thesis using Some by (simp add: count_of_def)
qed

lemma wf_entry_countsD:
  assumes "wf_entry_counts e"
  shows "p \<in> fst ` set (en_period_counts e) \<longleftrightarrow> 0 < count_of (en_period_counts e) p"
    and "en_period_micros e = Min (fst ` set (en_period_counts e))" and "en_period_counts e \<noteq> []"
proof -
  show "p \<in> fst ` set (en_period_counts e) \<longleftrightarrow> 0 < count_of (en_period_counts e) p"
    using assms unfolding wf_entry_counts_alt by (intro period_keys) blast
  show ne: "en_period_counts e \<noteq> []"
    using assms by (auto simp: wf_entry_counts_def btree_first_def)
  show "en_period_micros e = Min (fst ` set (en_period_counts e))"
    using assms btree_first_eq [OF ne] by (simp add: wf_entry_counts_def)
qed

lemma sched_inv_entry:
  assumes "sched_inv host toks sch"
  shows "(\<exists>e. map_of (sch_entries sch) i = Some e) \<longleftrightarrow> (\<exists>s \<in> set toks. sub_sensor s = i)"
    and "map_of (sch_entries sch) i = Some e \<Longrightarrow>
      en_period_micros e = Min (sub_period_micros ` {s \<in> set toks. sub_sensor s = i})"
proof -
  have c: "0 < sub_count (sch_entries sch) s \<longleftrightarrow> s \<in> set toks" for s
  proof -
    have "sub_count (sch_entries sch) s = count_list toks s" using assms by (simp add: sched_inv_def)
    then show ?thesis using count_list_0_iff [of toks s] by (metis neq0_conv)
  qed
  have wf: "wf_entries (sch_entries sch)" using assms by (simp add: sched_inv_def)
  have keys: "fst ` set (en_period_counts e) = sub_period_micros ` {s \<in> set toks. sub_sensor s = i}"
    if e: "map_of (sch_entries sch) i = Some e" for e
  proof -
    have "p \<in> fst ` set (en_period_counts e) \<longleftrightarrow> p \<in> sub_period_micros ` {s \<in> set toks. sub_sensor s = i}" for p
    proof -
      have "count_of (en_period_counts e) p = sub_count (sch_entries sch) \<lparr>sub_sensor = i, sub_period_micros = p\<rparr>"
        by (simp add: sub_count_def e)
      then show ?thesis
        using wf_entry_countsD(1) [OF wf_entriesD [OF wf e], of p]
          c [of "\<lparr>sub_sensor = i, sub_period_micros = p\<rparr>"] subscription_mem [of p "set toks" i]
        by (simp only:)
    qed
    then show ?thesis by (rule set_eqI)
  qed
  show "(\<exists>e. map_of (sch_entries sch) i = Some e) \<longleftrightarrow> (\<exists>s \<in> set toks. sub_sensor s = i)"
  proof
    assume "\<exists>e. map_of (sch_entries sch) i = Some e"
    then obtain e where e: "map_of (sch_entries sch) i = Some e" by blast
    have "fst ` set (en_period_counts e) \<noteq> {}" using wf_entry_countsD(3) [OF wf_entriesD [OF wf e]] by simp
    then have "{s \<in> set toks. sub_sensor s = i} \<noteq> {}" unfolding keys [OF e] by (metis image_empty)
    then show "\<exists>s \<in> set toks. sub_sensor s = i" by auto
  next
    assume "\<exists>s \<in> set toks. sub_sensor s = i"
    then obtain s where "s \<in> set toks" "sub_sensor s = i" by blast
    with c [of s] show "\<exists>e. map_of (sch_entries sch) i = Some e"
      by (cases "map_of (sch_entries sch) (sub_sensor s)") (auto simp: sub_count_def)
  qed
  assume e: "map_of (sch_entries sch) i = Some e"
  show "en_period_micros e = Min (sub_period_micros ` {s \<in> set toks. sub_sensor s = i})"
    using wf_entry_countsD(2) [OF wf_entriesD [OF wf e]] keys [OF e] by simp
qed


lemma sched_entry_period:
  assumes "sched_inv host toks sch" and "map_of (sch_entries sch) i = Some e"
  shows "50000 \<le> unat (en_period_micros e)" and "unat (en_period_micros e) < 10000000"
proof -
  let ?P = "sub_period_micros ` {s \<in> set toks. sub_sensor s = i}"
  have "?P \<noteq> {}" using assms(2) sched_inv_entry(1) [OF assms(1), of i] by blast
  then have "Min ?P \<in> ?P" by (intro Min_in) auto
  then show "50000 \<le> unat (en_period_micros e)" and "unat (en_period_micros e) < 10000000"
    using assms sched_inv_entry(2) [OF assms] by (auto simp: sched_inv_def)
qed

section \<open>Properties\<close>

text \<open>
  C4: In every reachable state a sensor is scheduled exactly while some client holds a
  subscription for it, at the fastest period among the subscriptions held, and that period is
  between 50 ms and 10 s; ticks, back-off and the runtime switches never change this.
\<close>

theorem scheduled_iff_subscribed:
  assumes "sched_reach host toks sch"
  shows "case map_of (sch_entries sch) i of
      None \<Rightarrow> i \<notin> sub_sensor ` set toks
    | Some e \<Rightarrow> i \<in> sub_sensor ` set toks
        \<and> en_period_micros e = Min (sub_period_micros ` {s \<in> set toks. sub_sensor s = i})
        \<and> 50000 \<le> unat (en_period_micros e) \<and> unat (en_period_micros e) < 10000000"
proof (cases "map_of (sch_entries sch) i")
  case None
  with sched_inv_entry(1) [OF sched_inv_reach [OF assms], of i] show ?thesis by auto
next
  case (Some e)
  note inv = sched_inv_reach [OF assms]
  have "i \<in> sub_sensor ` set toks" using Some sched_inv_entry(1) [OF inv, of i] by auto
  with Some sched_inv_entry(2) [OF inv Some] sched_entry_period [OF inv Some] show ?thesis by auto
qed

text \<open>The unit host with one sensor at 2 Hz: a client subscribes at the native rate.\<close>

definition demo_sub :: Subscription where
  "demo_sub = \<lparr>sub_sensor = ''xe.gpu0.util'', sub_period_micros = 500000\<rparr>"


lemma period_2hz: "period_of_rate (Fin 2) = 500000"
  using round_f64_of_nat [of 500000] by (simp add: period_of_rate_def)

lemma demo_sched_subscribe:
  "\<exists>sch. subscribe ''xe.gpu0.util'' None (Scheduler_new demo_host :: (unit, unit, unit) Scheduler) = Returns (Ok demo_sub, sch)"
proof -
  have f: "find (\<lambda>d. d_id d = ''xe.gpu0.util'') (host_descriptors demo_host) = Some demo_descriptor"
    by code_simp
  have c: "clamped_rate_hz demo_descriptor = Returns (Fin 2)" and e: "effective_rate (Fin 2) None = Returns (Fin 2)"
    by (simp_all add: clamped_rate_hz_def demo_descriptor_def fl_clamp_def effective_rate_def MIN_RATE_HZ_def MAX_RATE_HZ_def)
  from f c e show ?thesis by (simp add: subscribe_def Scheduler_new_def period_2hz demo_sub_def)
qed

theorem scheduled_iff_subscribed_witness:
  "\<exists>sch :: (unit, unit, unit) Scheduler. sched_reach demo_host [demo_sub] sch
     \<and> (\<exists>e. map_of (sch_entries sch) ''xe.gpu0.util'' = Some e \<and> en_period_micros e = 500000)"
proof -
  obtain sch :: "(unit, unit, unit) Scheduler" where s: "subscribe ''xe.gpu0.util'' None (Scheduler_new demo_host) = Returns (Ok demo_sub, sch)"
    using demo_sched_subscribe by blast
  have r: "sched_reach demo_host [demo_sub] sch"
    using sched_reach.subscribe [OF sched_reach.init s] by simp
  have k: "{s \<in> set [demo_sub]. sub_sensor s = ''xe.gpu0.util''} = {demo_sub}" by (auto simp: demo_sub_def)
  from r scheduled_iff_subscribed [OF r, of "''xe.gpu0.util''"] show ?thesis
    unfolding k by (auto simp: demo_sub_def split: option.splits)
qed

lemma effective_le_native:
  assumes "effective_rate n req = Returns x" and "rate_ok n"
  shows "fl_le x n"
proof -
  obtain r where r: "n = Fin r" "13421773 / 134217728 \<le> r" "r \<le> 20" using assms(2) by (rule rate_okE)
  have "fl_le (fl_min (Fin r) y) (Fin r) \<and> (fl_min (Fin r) y = NInf \<or> fl_is_finite (fl_min (Fin r) y))" for y
    by (cases y) auto
  moreover have "fl_le MIN_RATE_HZ (Fin r)" using r by (simp add: MIN_RATE_HZ_def)
  ultimately show ?thesis using assms(1) r(1)
    by (cases req) (auto simp: effective_rate_def fl_clamp_def split: if_splits)
qed

lemma period_antimono:
  assumes "rate_ok x" and "rate_ok y" and "fl_le x y"
  shows "period_of_rate y \<le> period_of_rate x"
proof -
  obtain a where a: "x = Fin a" "13421773 / 134217728 \<le> a" using assms(1) by (rule rate_okE)
  obtain b where b: "y = Fin b" "13421773 / 134217728 \<le> b" using assms(2) by (rule rate_okE)
  have pos: "0 < a" "0 < b" using a(2) b(2) by (meson order_less_le_trans zero_less_divide_iff zero_less_numeral)+
  have q: "1000000 / b \<le> 1000000 / a" using assms(3) a b pos by (simp add: frac_le)
  have fin: "\<exists>m. period_of_rate (Fin r) = fl_to_u64 (Fin m) \<and> m = round_mag (1000000 / r) \<and> 0 \<le> m \<and> m < 2 ^ 64"
    if "13421773 / 134217728 \<le> r" "0 < r" for r
  proof -
    have "of_nat 0 \<le> 1000000 / r" and "1000000 / r \<le> of_nat 10000000" using that by (simp_all add: field_simps)
    then obtain m where m: "round_f64 (1000000 / r) = Fin m" "of_nat 0 \<le> m" "m \<le> of_nat 10000000"
      using round_f64_between [of 0 "1000000 / r" 10000000] by auto
    moreover have "m = round_mag (1000000 / r)"
      using m(1) that(2) by (auto simp: round_f64_def Let_def split: if_splits)
    ultimately show ?thesis using that(2) by (auto simp: period_of_rate_def)
  qed
  obtain ma where ma: "period_of_rate x = fl_to_u64 (Fin ma)" "ma = round_mag (1000000 / a)" "0 \<le> ma" "ma < 2 ^ 64"
    using fin [OF a(2) pos(1)] a(1) by blast
  obtain mb where mb: "period_of_rate y = fl_to_u64 (Fin mb)" "mb = round_mag (1000000 / b)" "0 \<le> mb" "mb < 2 ^ 64"
    using fin [OF b(2) pos(2)] b(1) by blast
  have "mb \<le> ma" unfolding ma(2) mb(2) using q pos by (intro round_mag_mono) auto
  then have "\<lfloor>mb\<rfloor> \<le> \<lfloor>ma\<rfloor>" by (rule floor_mono)
  moreover have "unat (fl_to_u64 (Fin m)) = nat \<lfloor>m\<rfloor>" if "0 \<le> m" "m < 2 ^ 64" for m
  proof -
    have "\<lfloor>m\<rfloor> < 2 ^ 64" using that(2) by (simp add: floor_less_iff)
    then show ?thesis using that(1) by (simp add: unat_eq_nat_uint unsigned_of_int take_bit_int_eq_self)
  qed
  ultimately show ?thesis using ma mb by (simp add: word_le_nat_alt)
qed

lemma clamped_rate_NaN: "clamped_rate_hz d = Returns n \<Longrightarrow> n = NaN \<longleftrightarrow> d_native_rate_hz d = NaN"
  by (cases "d_native_rate_hz d") (auto simp: clamped_rate_hz_def fl_clamp_def MIN_RATE_HZ_def MAX_RATE_HZ_def split: if_splits)

lemma subscribe_Some:
  assumes "find (\<lambda>d. d_id d = i) (host_descriptors (sch_host sch)) = Some d"
    and "clamped_rate_hz d = Returns n" and "effective_rate n rate = Returns x"
  shows "subscribe i rate sch = Returns (Ok \<lparr>sub_sensor = i, sub_period_micros = period_of_rate x\<rparr>,
     sch\<lparr>sch_entries := add_subscription i (period_of_rate x) (STATIC_TAG \<in> set (d_tags d)) (sch_entries sch)\<rparr>)"
  using assms by (simp add: subscribe_def Let_def)

text \<open>
  C29: \<^verbatim>\<open>subscribe\<close> on every branch. A sensor no plugin offers is refused with the scheduler
  unchanged. A sensor with a numeric native rate is subscribed whatever rate is requested (zero,
  negative, infinite and NaN included), at a period between 50 ms and 10 s that is never shorter
  than the native one. When a plugin reports a NaN native rate, a request without a rate is
  served every 10 s, but a request that names a rate reaches \<^verbatim>\<open>clamp\<close> with a NaN bound and
  panics.
\<close>

theorem subscribe_spec:
  fixes sch :: "('p, 'l, 'c) Scheduler"
  shows "case find (\<lambda>d. d_id d = i) (host_descriptors (sch_host sch)) of
      None \<Rightarrow> subscribe i rate sch = Returns (Err (UnknownSensorId i), sch)
    | Some d \<Rightarrow>
        (if d_native_rate_hz d = NaN \<and> rate \<noteq> None then subscribe i rate sch = Panics
         else \<exists>s sch'. subscribe i rate sch = Returns (Ok s, sch') \<and> sub_sensor s = i
           \<and> 50000 \<le> unat (sub_period_micros s) \<and> unat (sub_period_micros s) < 10000000
           \<and> (\<forall>n. clamped_rate_hz d = Returns n \<longrightarrow> n \<noteq> NaN \<longrightarrow> period_of_rate n \<le> sub_period_micros s))"
proof (cases "find (\<lambda>d. d_id d = i) (host_descriptors (sch_host sch))")
  case None
  then show ?thesis by (simp add: subscribe_def)
next
  case (Some d)
  obtain n where n: "clamped_rate_hz d = Returns n" using clamped_rate_returns by blast
  show ?thesis
  proof (cases "n = NaN")
    case True
    then have nan: "d_native_rate_hz d = NaN" using n clamped_rate_NaN by blast
    show ?thesis
    proof (cases rate)
      case None
      then have e: "effective_rate n rate = Returns MIN_RATE_HZ" by (simp add: True effective_rate_def)
      have ok: "rate_ok MIN_RATE_HZ" by (simp add: rate_ok_def MIN_RATE_HZ_def MAX_RATE_HZ_def)
      show ?thesis using Some n True None period_bounds [OF ok] subscribe_Some [OF Some n e] by auto
    next
      case r: (Some r)
      then show ?thesis using Some n nan True by (simp add: subscribe_def effective_rate_def fl_clamp_def MIN_RATE_HZ_def)
    qed
  next
    case False
    then have ok: "rate_ok n" and nn: "d_native_rate_hz d \<noteq> NaN"
      using clamped_rate_ok [OF n] clamped_rate_NaN n by blast+
    obtain x where x: "effective_rate n rate = Returns x" using effective_rate_returns [OF ok] by blast
    have xok: "rate_ok x" by (rule effective_rate_ok [OF x disjI2 [OF ok]])
    have "period_of_rate n \<le> period_of_rate x"
      by (rule period_antimono [OF xok ok effective_le_native [OF x ok]])
    with Some n nn period_bounds [OF xok] subscribe_Some [OF Some n x] show ?thesis by auto
  qed
qed

theorem subscribe_spec_witness:
  "\<exists>s sch'. subscribe ''xe.gpu0.util'' (Some NaN) (Scheduler_new demo_host :: (unit, unit, unit) Scheduler) = Returns (Ok s, sch')
     \<and> 500000 \<le> sub_period_micros s"
proof -
  have f: "find (\<lambda>d. d_id d = ''xe.gpu0.util'') (host_descriptors (sch_host (Scheduler_new demo_host))) = Some demo_descriptor"
    unfolding Scheduler_new_def Scheduler.simps by code_simp
  have c: "clamped_rate_hz demo_descriptor = Returns (Fin 2)" and n: "d_native_rate_hz demo_descriptor \<noteq> NaN"
    by (simp_all add: clamped_rate_hz_def demo_descriptor_def fl_clamp_def MIN_RATE_HZ_def MAX_RATE_HZ_def)
  from subscribe_spec [where i = "''xe.gpu0.util''" and rate = "Some NaN" and sch = "Scheduler_new demo_host :: (unit, unit, unit) Scheduler"] c n
  show ?thesis unfolding f by (auto simp: period_2hz)
qed


section \<open>The cadence\<close>

lemma map_of_commit_entries:
  assumes "distinct (map fst rs)"
  shows "map_of (commit_entries now rs es) i =
    (case map_of rs i of None \<Rightarrow> map_of es i | Some r \<Rightarrow> map_option (commit_entry now r) (map_of es i))"
  using assms
proof (induction now rs es rule: commit_entries.induct)
  case (2 now j r rs es)
  then have "map_of rs j = None" by (simp add: map_of_eq_None_iff)
  with 2 show ?case by (auto simp: update_conv' split: option.splits)
qed simp

text \<open>By how many periods the next sample of a sensor is deferred.\<close>

definition periods_deferred :: "Entry \<Rightarrow> (Sample, PluginError) result \<Rightarrow> nat" where
  "periods_deferred e r =
     (case r of
        Err (Unsupported _) \<Rightarrow> 2 ^ min (Suc (unat (en_unsupported_strikes e))) 8
      | Err (Timeout _) \<Rightarrow> 2 ^ min (Suc (unat (en_timeout_strikes e))) 8
      | _ \<Rightarrow> 1)"

lemma periods_deferred_le: "1 \<le> periods_deferred e r" "periods_deferred e r \<le> 256"
proof -
  have "(2::nat) ^ min k 8 \<le> 2 ^ 8" for k by (intro power_increasing) auto
  then have "(2::nat) ^ min k 8 \<le> 256" for k by simp
  then show "periods_deferred e r \<le> 256"
    unfolding periods_deferred_def by (simp only: split: result.split PluginError.split) auto
  show "1 \<le> periods_deferred e r"
    by (auto simp: periods_deferred_def split: result.split PluginError.split)
qed

lemma unat_shift_one: "n \<le> 8 \<Longrightarrow> unat (push_bit n 1 :: u64) = 2 ^ n"
proof -
  assume "n \<le> 8"
  then have "n \<in> {0, 1, 2, 3, 4, 5, 6, 7, 8}" by auto
  then show ?thesis by auto
qed

lemma backoff_due_unat:
  assumes "unat now + 256 * unat period < 2 ^ 64"
  shows "unat (backoff_due now period (saturating_add k 1)) = unat now + unat period * 2 ^ min (Suc (unat k)) 8"
proof -
  define n where "n = min (Suc (unat k)) 8"
  have n: "n \<le> 8" by (simp add: n_def)
  then have "(2::nat) ^ n \<le> 2 ^ 8" by (intro power_increasing) auto
  then have le: "unat period * 2 ^ n \<le> 256 * unat period" by simp
  have u: "unat (min (saturating_add k 1) 8) = n"
    using unat_saturating_add [of k 1] by (auto simp: n_def min_def word_le_nat_alt)
  have s: "unat (saturating_mul period (push_bit n 1)) = unat period * 2 ^ n"
  proof -
    have "unat period * 2 ^ n < 2 ^ 64" using assms le by linarith
    then have "min (unat period * 2 ^ n) (2 ^ LENGTH(64) - 1) = unat period * 2 ^ n" by (simp add: min_absorb1)
    then show ?thesis by (simp only: unat_saturating_mul unat_shift_one [OF n])
  qed
  have "unat now + unat period * 2 ^ n < 2 ^ 64" using assms le by linarith
  then have "unat (now + saturating_mul period (push_bit n 1)) = unat now + unat period * 2 ^ n"
    using unat_add_no_wrap [of now "saturating_mul period (push_bit n 1)"] by (simp add: s del: push_bit_of_1)
  then show ?thesis by (simp only: backoff_due_def u n_def [symmetric])
qed

lemma commit_entry_due:
  assumes "unat now + 256 * unat (en_period_micros e) < 2 ^ 64"
    and "unat (en_next_due_at_micros e) = unat now + unat (en_period_micros e)"
    and "\<not> (en_is_static e \<and> is_ok r)"
  shows "unat (en_next_due_at_micros (commit_entry now r e)) =
    unat now + unat (en_period_micros e) * periods_deferred e r"
proof -
  have p: "unat (now + en_period_micros e) = unat now + unat (en_period_micros e)"
    using assms(1) by (intro unat_add_no_wrap) simp
  show ?thesis
    using assms p
    by (auto simp: commit_entry_def periods_deferred_def Let_def backoff_due_unat split: result.splits PluginError.splits)
qed

lemma plan_entry_due:
  assumes "en_next_due_at_micros e \<le> now" and "unat now + unat (en_period_micros e) < 2 ^ 64"
  shows "unat (en_next_due_at_micros (plan_entry now e)) = unat now + unat (en_period_micros e)"
  using assms unat_add_no_wrap [of now "en_period_micros e"] by (auto simp: plan_entry_def)


lemma sched_inv_distinct: "sched_inv host toks sch \<Longrightarrow> distinct (map fst (sch_entries sch))"
  by (simp add: sched_inv_def wf_entries_def)

lemma subscribe_due:
  assumes "subscribe i rate sch = Returns (Ok s, sch')"
  shows "\<exists>e. map_of (sch_entries sch') i = Some e \<and> en_next_due_at_micros e = 0"
proof -
  obtain st where "sub_sensor s = i"
    "sch_entries sch' = add_subscription (sub_sensor s) (sub_period_micros s) st (sch_entries sch)"
    using subscribe_OkD(1) [OF assms] by blast
  then show ?thesis by (auto simp: add_subscription_def update_conv' split: option.splits)
qed

lemma not_planned_again:
  assumes "sched_inv host toks sch" and "unat now + 10000000 \<le> 2 ^ 64"
    and "i \<in> set (fst (tick_plan now sch))" and "map_of (sch_entries sch) i = Some e"
    and "now' < now + en_period_micros e"
  shows "i \<notin> set (fst (tick_plan now' (snd (tick_plan now sch))))"
proof -
  have due: "en_next_due_at_micros e \<le> now"
    using assms(3,4) tick_plan_due [OF sched_inv_distinct [OF assms(1)]] by auto
  have d: "distinct (map fst (sch_entries (snd (tick_plan now sch))))"
    using wf_tick_plan(1) [of sch now] assms(1) by (simp add: sched_inv_def wf_entries_def)
  have "en_next_due_at_micros (plan_entry now e) = now + en_period_micros e"
    using due by (auto simp: plan_entry_def)
  with assms(4,5) show ?thesis unfolding tick_plan_due [OF d] tick_plan_entries by (simp add: not_le)
qed

text \<open>
  C12: A tick plans each due sensor once, and exactly the due ones: those whose next due time
  has come. A sensor that is planned is not planned again before its period has elapsed, even
  when the first sampling is still in flight; a sensor subscribed to, for the first time or
  again, is due at the next tick, whatever the time.
\<close>

theorem tick_plan_exact:
  assumes "sched_reach host toks sch" and "unat now + 10000000 \<le> 2 ^ 64"
  shows "distinct (fst (tick_plan now sch))
    \<and> (\<forall>i. i \<in> set (fst (tick_plan now sch)) \<longleftrightarrow>
         (\<exists>e. map_of (sch_entries sch) i = Some e \<and> en_next_due_at_micros e \<le> now))
    \<and> (\<forall>i e now'. i \<in> set (fst (tick_plan now sch)) \<and> map_of (sch_entries sch) i = Some e
         \<and> unat now' < unat now + unat (en_period_micros e) \<longrightarrow>
           i \<notin> set (fst (tick_plan now' (snd (tick_plan now sch)))))
    \<and> (\<forall>i rate s sch' now'. subscribe i rate sch = Returns (Ok s, sch') \<and> count_list toks s < 2 ^ 32 - 1 \<longrightarrow>
           i \<in> set (fst (tick_plan now' sch')))"
proof (intro conjI allI impI)
  note inv = sched_inv_reach [OF assms(1)]
  note d = sched_inv_distinct [OF inv]
  show "distinct (fst (tick_plan now sch))" by (rule tick_plan_distinct [OF d])
  show "i \<in> set (fst (tick_plan now sch)) \<longleftrightarrow>
      (\<exists>e. map_of (sch_entries sch) i = Some e \<and> en_next_due_at_micros e \<le> now)" for i
    by (rule tick_plan_due [OF d])
  fix i
  {
    fix e and now' :: u64
    assume a: "i \<in> set (fst (tick_plan now sch)) \<and> map_of (sch_entries sch) i = Some e
      \<and> unat now' < unat now + unat (en_period_micros e)"
    then have "unat (now + en_period_micros e) = unat now + unat (en_period_micros e)"
      using sched_entry_period(2) [OF inv, of i e] assms(2) by (intro unat_add_no_wrap) simp
    with a show "i \<notin> set (fst (tick_plan now' (snd (tick_plan now sch))))"
      by (intro not_planned_again [OF inv assms(2)]) (auto simp: word_less_nat_alt)
  }
  fix rate s sch' now'
  assume a: "subscribe i rate sch = Returns (Ok s, sch') \<and> count_list toks s < 2 ^ 32 - 1"
  then have "sched_reach host (s # toks) sch'" using assms(1) sched_reach.subscribe by blast
  from subscribe_due a tick_plan_due [OF sched_inv_distinct [OF sched_inv_reach [OF this]]]
  show "i \<in> set (fst (tick_plan now' sch'))" by fastforce
qed

lemma demo_sched_reach:
  obtains sch :: "(unit, unit, unit) Scheduler" where "sched_reach demo_host [demo_sub] sch"
    and "subscribe ''xe.gpu0.util'' None (Scheduler_new demo_host) = Returns (Ok demo_sub, sch)"
proof -
  obtain sch :: "(unit, unit, unit) Scheduler" where s: "subscribe ''xe.gpu0.util'' None (Scheduler_new demo_host) = Returns (Ok demo_sub, sch)"
    using demo_sched_subscribe by blast
  moreover have "sched_reach demo_host [demo_sub] sch"
    using sched_reach.subscribe [OF sched_reach.init s] by simp
  ultimately show ?thesis using that by blast
qed

theorem tick_plan_exact_witness:
  "\<exists>sch :: (unit, unit, unit) Scheduler. sched_reach demo_host [demo_sub] sch
     \<and> ''xe.gpu0.util'' \<in> set (fst (tick_plan 7 sch)) \<and> ''xe.gpu0.util'' \<notin> set (fst (tick_plan 8 (snd (tick_plan 7 sch))))"
proof -
  obtain sch :: "(unit, unit, unit) Scheduler" where r: "sched_reach demo_host [demo_sub] sch"
    and s: "subscribe ''xe.gpu0.util'' None (Scheduler_new demo_host) = Returns (Ok demo_sub, sch)"
    by (rule demo_sched_reach)
  obtain e where e: "map_of (sch_entries sch) ''xe.gpu0.util'' = Some e" "en_next_due_at_micros e = 0"
    using subscribe_due [OF s] by blast
  have n: "unat (7::u64) + 10000000 \<le> 2 ^ 64" by simp
  note t = tick_plan_exact [OF r n]
  have p: "50000 \<le> unat (en_period_micros e)" by (rule sched_entry_period(1) [OF sched_inv_reach [OF r] e(1)])
  from t e have i: "''xe.gpu0.util'' \<in> set (fst (tick_plan 7 sch))" by auto
  moreover have "unat (8::u64) < unat (7::u64) + unat (en_period_micros e)" using p by simp
  ultimately have "''xe.gpu0.util'' \<notin> set (fst (tick_plan 8 (snd (tick_plan 7 sch))))" using t e by blast
  with i r show ?thesis by blast
qed


text \<open>
  C11: A commit never panics and returns exactly the samples that succeeded for sensors still
  subscribed, in the order of the results; results of sensors unsubscribed in the meantime are
  dropped. Each remaining entry is updated by its own result and by no other.
\<close>

theorem tick_commit_exact:
  assumes "distinct (map fst results)"
  shows "\<exists>jobs sch' w'. tick_commit E timing results now (sch, w) =
      Returns (List.map_filter (\<lambda>(i, r). if hm_contains (sch_entries sch) i then result_ok r else None) results,
        jobs, sch', w')
    \<and> (\<forall>i. map_of (sch_entries sch') i =
         (case map_of results i of
            None \<Rightarrow> map_of (sch_entries sch) i
          | Some r \<Rightarrow> map_option (commit_entry now r) (map_of (sch_entries sch) i)))"
proof -
  have "committed (sch_entries sch) = (\<lambda>(i, r). if hm_contains (sch_entries sch) i then result_ok r else None)"
    by (auto simp: committed_def fun_eq_iff)
  with tick_commit_spec [of E timing results now sch w] map_of_commit_entries [OF assms, of now "sch_entries sch"]
  show ?thesis by auto
qed

theorem tick_commit_exact_witness:
  "\<exists>jobs sch' w'. tick_commit \<lparr>ex_new = (), ex_set_value = (\<lambda>_ _ _. ()), ex_eval_boolean = (\<lambda>_ _. Panics)\<rparr>
       (\<lambda>_. ((\<lambda>_. \<lparr>ac_now = 0, ac_wall_micros = 0, ac_finished = (\<lambda>_. 0)\<rparr>), \<lambda>_. True))
       [(''a'', Ok \<lparr>sample_sensor = ''a'', sample_ts_micros = 5, sample_reading = Counter 1\<rparr>)] 5
       (Scheduler_new demo_host, \<lparr>aw_channels = [], aw_webhooks = 0, aw_posts = []\<rparr>) = Returns ([], jobs, sch', w')"
  using tick_commit_exact [of "[(''a'', Ok \<lparr>sample_sensor = ''a'', sample_ts_micros = 5, sample_reading = Counter 1\<rparr>)]"
      "\<lparr>ex_new = (), ex_set_value = (\<lambda>_ _ _. ()), ex_eval_boolean = (\<lambda>_ _. Panics)\<rparr>"
      "\<lambda>_. ((\<lambda>_. \<lparr>ac_now = 0, ac_wall_micros = 0, ac_finished = (\<lambda>_. 0)\<rparr>), \<lambda>_. True)" 5
      "Scheduler_new demo_host" "\<lparr>aw_channels = [], aw_webhooks = 0, aw_posts = []\<rparr>"]
  by (auto simp: map_filter_simps hm_contains_def Scheduler_new_def)

lemma due_after_tick:
  assumes "unat now + 256 * unat (en_period_micros e) < 2 ^ 64" and "en_next_due_at_micros e \<le> now"
    and "\<not> (en_is_static e \<and> is_ok r)"
  shows "unat (en_next_due_at_micros (commit_entry now r (plan_entry now e))) =
    unat now + unat (en_period_micros e) * periods_deferred e r"
proof -
  have p: "periods_deferred (plan_entry now e) r = periods_deferred e r"
    and s: "en_is_static (plan_entry now e) = en_is_static e"
    by (simp_all add: periods_deferred_def plan_entry_def split: result.split PluginError.split)
  have "unat (en_next_due_at_micros (plan_entry now e)) = unat now + unat (en_period_micros (plan_entry now e))"
    using assms plan_entry_due [of e now] by simp
  with commit_entry_due [of now "plan_entry now e" r] assms p s show ?thesis by simp
qed

text \<open>
  C13: No sensor starves. When a due sensor has been planned and its result committed, it is due
  again after its period; after \<open>2^k\<close> periods when it was unsupported or timed out \<open>k\<close> times in a
  row, but never after more than 256 periods; a success resets the strikes. Only a static
  sensor that was read successfully is parked, and a planned sensor whose sampling was dropped
  is due after one period.
\<close>

theorem sensor_due_again:
  assumes "sched_reach host toks sch" and "unat now + 2560000000 \<le> 2 ^ 64"
    and "i \<in> set (fst (tick_plan now sch))" and "map_of (sch_entries sch) i = Some e"
    and "distinct (map fst results)"
    and "tick_commit E timing results now (snd (tick_plan now sch), w) = Returns (out, jobs, sch', w')"
  shows "\<exists>e'. map_of (sch_entries sch') i = Some e'
    \<and> (case map_of results i of
         None \<Rightarrow> unat (en_next_due_at_micros e') = unat now + unat (en_period_micros e)
       | Some (Ok s) \<Rightarrow> en_unsupported_strikes e' = 0 \<and> en_timeout_strikes e' = 0
           \<and> (if en_is_static e then en_next_due_at_micros e' = - 1
              else unat (en_next_due_at_micros e') = unat now + unat (en_period_micros e))
       | Some (Err x) \<Rightarrow>
           unat (en_next_due_at_micros e') = unat now + unat (en_period_micros e) * periods_deferred e (Err x)
           \<and> unat (en_next_due_at_micros e') \<le> unat now + 256 * unat (en_period_micros e))"
proof -
  note inv = sched_inv_reach [OF assms(1)]
  have p: "unat (en_period_micros e) < 10000000" by (rule sched_entry_period(2) [OF inv assms(4)])
  with assms(2) have nw: "unat now + 256 * unat (en_period_micros e) < 2 ^ 64" by linarith
  have due: "en_next_due_at_micros e \<le> now"
    using assms(3,4) tick_plan_due [OF sched_inv_distinct [OF inv]] by auto
  have es: "sch_entries sch' = commit_entries now results (sch_entries (snd (tick_plan now sch)))"
    using tick_commit_spec [of E timing results now "snd (tick_plan now sch)" w] assms(6) by auto
  have m: "map_of (sch_entries sch') i = (case map_of results i of None \<Rightarrow> Some (plan_entry now e)
      | Some r \<Rightarrow> Some (commit_entry now r (plan_entry now e)))"
    unfolding es map_of_commit_entries [OF assms(5)] tick_plan_entries using assms(4)
    by (simp split: option.split)
  show ?thesis
  proof (cases "map_of results i")
    case None
    with m nw plan_entry_due [OF due] show ?thesis by simp
  next
    case (Some r)
    let ?e' = "commit_entry now r (plan_entry now e)"
    show ?thesis
    proof (cases r)
      case (Ok s)
      have "en_next_due_at_micros ?e' = - 1" if "en_is_static e"
        using that Ok by (simp add: commit_entry_def plan_entry_def)
      moreover have "unat (en_next_due_at_micros ?e') = unat now + unat (en_period_micros e)" if "\<not> en_is_static e"
        using that Ok due_after_tick [OF nw due, of r] by (simp add: periods_deferred_def)
      moreover have "en_unsupported_strikes ?e' = 0 \<and> en_timeout_strikes ?e' = 0"
        using Ok by (simp add: commit_entry_def Let_def)
      ultimately show ?thesis using m Some Ok by simp
    next
      case (Err x)
      have d: "unat (en_next_due_at_micros ?e') = unat now + unat (en_period_micros e) * periods_deferred e r"
        using Err due_after_tick [OF nw due, of r] by simp
      moreover have "unat (en_period_micros e) * periods_deferred e r \<le> unat (en_period_micros e) * 256"
        using periods_deferred_le(2) by (rule mult_le_mono2)
      ultimately show ?thesis using m Some Err by simp
    qed
  qed
qed

theorem sensor_due_again_witness:
  "\<exists>sch sch' e'. sched_reach demo_host [demo_sub] (sch :: (unit, unit, unit) Scheduler)
     \<and> (\<exists>jobs w. tick_commit \<lparr>ex_new = (), ex_set_value = (\<lambda>_ _ _. ()), ex_eval_boolean = (\<lambda>_ _. Panics)\<rparr>
         (\<lambda>_. ((\<lambda>_. \<lparr>ac_now = 0, ac_wall_micros = 0, ac_finished = (\<lambda>_. 0)\<rparr>), \<lambda>_. True))
         [(''xe.gpu0.util'', Err (Timeout ''hung''))] 1000
         (snd (tick_plan 1000 sch), \<lparr>aw_channels = [], aw_webhooks = 0, aw_posts = []\<rparr>) = Returns ([], jobs, sch', w))
     \<and> map_of (sch_entries sch') ''xe.gpu0.util'' = Some e' \<and> unat (en_next_due_at_micros e') = 1001000"
proof -
  let ?E = "\<lparr>ex_new = (), ex_set_value = (\<lambda>_ _ _. ()), ex_eval_boolean = (\<lambda>_ _. Panics)\<rparr>"
  let ?T = "\<lambda>_. ((\<lambda>_. \<lparr>ac_now = 0, ac_wall_micros = 0, ac_finished = (\<lambda>_. 0)\<rparr>), \<lambda>_. True)"
  let ?rs = "[(''xe.gpu0.util'', Err (Timeout ''hung''))]"
  let ?w = "\<lparr>aw_channels = [], aw_webhooks = 0, aw_posts = []\<rparr>"
  obtain sch :: "(unit, unit, unit) Scheduler" where r: "sched_reach demo_host [demo_sub] sch"
    and s: "subscribe ''xe.gpu0.util'' None (Scheduler_new demo_host) = Returns (Ok demo_sub, sch)"
    by (rule demo_sched_reach)
  obtain e where e: "map_of (sch_entries sch) ''xe.gpu0.util'' = Some e" "en_next_due_at_micros e = 0"
      "en_period_micros e = 500000" "en_timeout_strikes e = 0"
    using subscribe_OkD(1) [OF s] by (auto simp: add_subscription_def demo_sub_def Scheduler_new_def)
  have i: "''xe.gpu0.util'' \<in> set (fst (tick_plan 1000 sch))"
    using e tick_plan_due [OF sched_inv_distinct [OF sched_inv_reach [OF r]]] by auto
  obtain jobs sch' w' where c: "tick_commit ?E ?T ?rs 1000 (snd (tick_plan 1000 sch), ?w) = Returns ([], jobs, sch', w')"
    using tick_commit_spec [of ?E ?T ?rs 1000 "snd (tick_plan 1000 sch)" ?w]
    by (auto simp: map_filter_simps committed_def split: if_splits)
  have n: "unat (1000::u64) + 2560000000 \<le> 2 ^ 64" by simp
  have d: "distinct (map fst ?rs)" by simp
  from sensor_due_again [OF r n i e(1) d c] obtain e' where
    "map_of (sch_entries sch') ''xe.gpu0.util'' = Some e'" "unat (en_next_due_at_micros e') = 1001000"
    using e by (auto simp: periods_deferred_def)
  with r c show ?thesis by blast
qed

end
