(* ===== verification/Sampling.thy ===== *)
theory Sampling
  imports Scheduler
begin

text \<open>
  The sampling pool of \<^verbatim>\<open>apps/linsightd/src/transport/unix.rs\<close>: how one tick's plan is handed to a
  bounded number of worker threads and their results are collected until the deadline. The
  result channel is the sequence of what \<^verbatim>\<open>recv_timeout\<close> returns, stale results of earlier ticks
  included; the order in which a hash map is drained is a parameter.
\<close>

section \<open>The pool\<close>

definition SAMPLER_POOL_SIZE :: nat where
  "SAMPLER_POOL_SIZE = 8"

record SamplingJob =
  job_id :: SensorId
  job_ts_micros :: u64
  job_call_id :: u64

record SamplingResult =
  sr_call_id :: u64
  sr_sensor :: SensorId
  sr_result :: "(Sample, PluginError) result"

text \<open>What one pass of the collecting loop sees: the deadline check, then the receive.\<close>

datatype pool_event =
    DeadlinePassed
  | Received SamplingResult
  | RecvTimedOut
  | RecvDisconnected

record pool_state =
  ps_pending :: "SensorId list"
  ps_in_flight :: "SensorId list"
  ps_results :: "(SensorId \<times> (Sample, PluginError) result) list"
  ps_jobs :: "SamplingJob list"

definition hs_insert :: "'a \<Rightarrow> 'a list \<Rightarrow> 'a list" where
  "hs_insert x xs = (if x \<in> set xs then xs else x # xs)"

text \<open>
  Hands the next pending sensor to the workers; \<open>alive\<close> says whether the job channel still has
  a receiver, without which the sensor is reported as timed out at once.
\<close>

definition submit :: "bool \<Rightarrow> u64 \<Rightarrow> u64 \<Rightarrow> SensorId \<Rightarrow> pool_state \<Rightarrow> pool_state" where
  "submit alive call_id now i st =
     (if alive
      then st\<lparr>ps_in_flight := hs_insert i (ps_in_flight st),
              ps_jobs := ps_jobs st @ [\<lparr>job_id = i, job_ts_micros = now, job_call_id = call_id\<rparr>]\<rparr>
      else st\<lparr>ps_results := ps_results st @ [(i, Err (Timeout ''sampling pool shut down''))]\<rparr>)"

definition submit_next :: "bool \<Rightarrow> u64 \<Rightarrow> u64 \<Rightarrow> pool_state \<Rightarrow> pool_state" where
  "submit_next alive call_id now st =
     (case ps_pending st of
        [] \<Rightarrow> st
      | i # rest \<Rightarrow> submit alive call_id now i (st\<lparr>ps_pending := rest\<rparr>))"

definition seed :: "bool \<Rightarrow> u64 \<Rightarrow> u64 \<Rightarrow> nat \<Rightarrow> pool_state \<Rightarrow> pool_state" where
  "seed alive call_id now workers st = ((submit_next alive call_id now) ^^ (max workers 1)) st"

definition accept_result :: "bool \<Rightarrow> u64 \<Rightarrow> u64 \<Rightarrow> SamplingResult \<Rightarrow> pool_state \<Rightarrow> pool_state" where
  "accept_result alive call_id now r st =
     (if sr_call_id r \<noteq> call_id then st
      else if sr_sensor r \<in> set (ps_in_flight st)
      then submit_next alive call_id now
             (st\<lparr>ps_in_flight := removeAll (sr_sensor r) (ps_in_flight st),
                 ps_results := ps_results st @ [(sr_sensor r, sr_result r)]\<rparr>)
      else st)"

text \<open>The collecting loop ends when nothing is in flight, at the deadline, or when the channel fails.\<close>

fun collect :: "bool \<Rightarrow> u64 \<Rightarrow> u64 \<Rightarrow> pool_event list \<Rightarrow> pool_state \<Rightarrow> pool_state" where
  "collect alive call_id now [] st = st"
| "collect alive call_id now (ev # evs) st =
     (if ps_in_flight st = [] then st
      else case ev of
             Received r \<Rightarrow> collect alive call_id now evs (accept_result alive call_id now r st)
           | _ \<Rightarrow> st)"

definition timeout_text :: string where
  "timeout_text = ''sample did not complete within 10s''"

text \<open>The results, the jobs that were sent to the workers, and the id of the next call.\<close>

definition pool_sample ::
    "(SensorId list \<Rightarrow> SensorId list) \<Rightarrow> bool \<Rightarrow> nat \<Rightarrow> pool_event list \<Rightarrow> u64 \<Rightarrow> SensorId list \<Rightarrow> u64 \<Rightarrow>
     (SensorId \<times> (Sample, PluginError) result) list \<times> SamplingJob list \<times> u64" where
  "pool_sample drain alive workers evs next_call_id plan now =
     (let call_id = next_call_id;
          st = collect alive call_id now evs
                 (seed alive call_id now workers
                    \<lparr>ps_pending = plan, ps_in_flight = [], ps_results = [], ps_jobs = []\<rparr>)
      in (ps_results st @ map (\<lambda>i. (i, Err (Timeout timeout_text))) (drain (ps_in_flight st)),
          ps_jobs st, next_call_id + 1))"

text \<open>One worker: the job it took, answered with what the host returns.\<close>

definition run_worker ::
    "'p LinsightPlugin \<Rightarrow> SamplingJob \<Rightarrow> ('p, 'l) PluginHost \<Rightarrow> (SamplingResult \<times> ('p, 'l) PluginHost) exec" where
  "run_worker P job host =
     exec_bind (sample_to P (job_id job) (job_ts_micros job) host) (\<lambda>(r, h).
       Returns (\<lparr>sr_call_id = job_call_id job, sr_sensor = job_id job, sr_result = r\<rparr>, h))"

section \<open>What the pool guarantees\<close>

text \<open>
  Every planned sensor is in exactly one place: still pending, in flight, or answered once.
\<close>

definition pool_inv :: "SensorId list \<Rightarrow> nat \<Rightarrow> pool_state \<Rightarrow> bool" where
  "pool_inv plan workers st \<longleftrightarrow>
     mset (ps_pending st) + mset (ps_in_flight st) + mset (map fst (ps_results st)) = mset plan
     \<and> length (ps_in_flight st) \<le> max workers 1
     \<and> job_id ` set (ps_jobs st) \<subseteq> set (ps_in_flight st) \<union> set (map fst (ps_results st))"

lemma submit_next_inv:
  assumes "distinct plan" and "pool_inv plan workers st" and "length (ps_in_flight st) < max workers 1"
  shows "pool_inv plan workers (submit_next alive call_id now st)"
proof (cases "ps_pending st")
  case Nil
  with assms show ?thesis by (simp add: submit_next_def)
next
  case (Cons i rest)
  have m: "add_mset i (mset rest + mset (ps_in_flight st) + mset (map fst (ps_results st))) = mset plan"
    using assms(2) Cons by (simp add: pool_inv_def)
  have "count (mset plan) i \<le> 1" using assms(1) by (simp add: distinct_count_atmost_1)
  then have "count (mset (ps_in_flight st)) i = 0" unfolding m [symmetric] by simp
  then have "i \<notin> set (ps_in_flight st)" by (simp add: count_eq_zero_iff)
  moreover have "job_id ` set (ps_jobs st) \<subseteq> set (ps_in_flight st) \<union> set (map fst (ps_results st))"
    using assms(2) by (simp add: pool_inv_def)
  ultimately show ?thesis
    using m Cons assms(3) by (auto simp: pool_inv_def submit_next_def submit_def hs_insert_def)
qed

lemma submit_next_in_flight:
  "length (ps_in_flight (submit_next alive call_id now st)) \<le> Suc (length (ps_in_flight st))"
  by (simp add: submit_next_def submit_def hs_insert_def split: list.split)

lemma seed_inv:
  assumes "distinct plan"
  shows "pool_inv plan workers
    (seed alive call_id now workers \<lparr>ps_pending = plan, ps_in_flight = [], ps_results = [], ps_jobs = []\<rparr>)"
proof -
  let ?st = "\<lambda>n. ((submit_next alive call_id now) ^^ n) \<lparr>ps_pending = plan, ps_in_flight = [], ps_results = [], ps_jobs = []\<rparr>"
  have "n \<le> max workers 1 \<Longrightarrow> pool_inv plan workers (?st n) \<and> length (ps_in_flight (?st n)) \<le> n" for n
  proof (induction n)
    case 0
    show ?case by (simp add: pool_inv_def)
  next
    case (Suc n)
    then show ?case
      using submit_next_inv [OF assms, of workers "?st n"] submit_next_in_flight [of alive call_id now "?st n"] by simp
  qed
  then show ?thesis by (simp add: seed_def)
qed

lemma accept_result_inv:
  assumes "distinct plan" and "pool_inv plan workers st"
  shows "pool_inv plan workers (accept_result alive call_id now r st)"
proof (cases "sr_call_id r = call_id \<and> sr_sensor r \<in> set (ps_in_flight st)")
  case True
  let ?i = "sr_sensor r"
  let ?st = "st\<lparr>ps_in_flight := removeAll ?i (ps_in_flight st), ps_results := ps_results st @ [(?i, sr_result r)]\<rparr>"
  have "count (mset plan) ?i \<le> 1" using assms(1) by (simp add: distinct_count_atmost_1)
  moreover have "count (mset (ps_in_flight st)) ?i \<le> count (mset plan) ?i"
    using assms(2) by (metis pool_inv_def count_union le_add1 le_add2 order_trans)
  moreover have "0 < count (mset (ps_in_flight st)) ?i" using True by simp
  ultimately have one: "count (mset (ps_in_flight st)) ?i = 1" by linarith
  have rem: "add_mset ?i (mset (removeAll ?i (ps_in_flight st))) = mset (ps_in_flight st)"
    using one by (intro multiset_eqI) (auto simp: removeAll_filter_not_eq)
  have "mset (ps_pending ?st) + mset (ps_in_flight ?st) + mset (map fst (ps_results ?st)) =
      mset (ps_pending st) + add_mset ?i (mset (removeAll ?i (ps_in_flight st))) + mset (map fst (ps_results st))"
    by simp
  also have "\<dots> = mset plan" using assms(2) unfolding rem by (simp add: pool_inv_def)
  finally have m: "mset (ps_pending ?st) + mset (ps_in_flight ?st) + mset (map fst (ps_results ?st)) = mset plan" .
  have "length (ps_in_flight ?st) \<le> max workers 1"
    using assms(2) length_removeAll_less_eq [of ?i "ps_in_flight st"]
    by (auto simp: pool_inv_def simp del: length_removeAll_less_eq)
  moreover have "job_id ` set (ps_jobs ?st) \<subseteq> set (ps_in_flight ?st) \<union> set (map fst (ps_results ?st))"
    using assms(2) by (auto simp: pool_inv_def)
  ultimately have "pool_inv plan workers ?st" using m unfolding pool_inv_def by blast
  moreover have "length (ps_in_flight ?st) < max workers 1"
    using assms(2) length_removeAll_less [of ?i "ps_in_flight st"] True by (simp add: pool_inv_def)
  ultimately show ?thesis using True by (simp add: accept_result_def submit_next_inv [OF assms(1)])
next
  case False
  with assms(2) show ?thesis by (auto simp: accept_result_def)
qed

lemma collect_inv:
  "distinct plan \<Longrightarrow> pool_inv plan workers st \<Longrightarrow> pool_inv plan workers (collect alive call_id now evs st)"
  by (induction alive call_id now evs st rule: collect.induct)
     (auto simp: accept_result_inv split: pool_event.split)

text \<open>Where the answers come from.\<close>

definition answered_by :: "pool_event list \<Rightarrow> u64 \<Rightarrow> SensorId \<times> (Sample, PluginError) result \<Rightarrow> bool" where
  "answered_by evs call_id x \<longleftrightarrow>
     (\<exists>r. Received r \<in> set evs \<and> sr_call_id r = call_id \<and> x = (sr_sensor r, sr_result r))
     \<or> (\<exists>t. snd x = Err (Timeout t))"

lemma submit_next_answers:
  "set (ps_results (submit_next alive call_id now st)) \<subseteq>
     set (ps_results st) \<union> {x. \<exists>t. snd x = Err (Timeout t)}"
  by (auto simp: submit_next_def submit_def split: list.split)

lemma accept_result_answers:
  assumes "\<forall>x \<in> set (ps_results st). answered_by all call_id x" and "Received r \<in> set all"
  shows "\<forall>x \<in> set (ps_results (accept_result alive call_id now r st)). answered_by all call_id x"
proof (cases "sr_call_id r = call_id \<and> sr_sensor r \<in> set (ps_in_flight st)")
  case True
  let ?st = "st\<lparr>ps_in_flight := removeAll (sr_sensor r) (ps_in_flight st), ps_results := ps_results st @ [(sr_sensor r, sr_result r)]\<rparr>"
  have "answered_by all call_id (sr_sensor r, sr_result r)" using assms(2) True by (auto simp: answered_by_def)
  moreover have "answered_by all call_id x" if "\<exists>t. snd x = Err (Timeout t)" for x
    using that by (simp add: answered_by_def)
  ultimately have "\<forall>x \<in> set (ps_results ?st) \<union> {x. \<exists>t. snd x = Err (Timeout t)}. answered_by all call_id x"
    using assms(1) by auto
  with submit_next_answers [of alive call_id now ?st] True show ?thesis
    by (auto simp only: accept_result_def if_True if_False simp_thms)
next
  case False
  with assms(1) show ?thesis by (auto simp: accept_result_def)
qed

lemma collect_answers:
  assumes "\<forall>x \<in> set (ps_results st). answered_by all call_id x" and "set evs \<subseteq> set all"
  shows "\<forall>x \<in> set (ps_results (collect alive call_id now evs st)). answered_by all call_id x"
  using assms
proof (induction evs arbitrary: st)
  case (Cons ev evs)
  show ?case
  proof (cases "ps_in_flight st = [] \<or> (\<forall>r. ev \<noteq> Received r)")
    case True
    then have "collect alive call_id now (ev # evs) st = st" by (cases ev) auto
    with Cons.prems(1) show ?thesis by simp
  next
    case False
    then obtain r where r: "ev = Received r" "ps_in_flight st \<noteq> []" by auto
    with Cons.IH [OF accept_result_answers [OF Cons.prems(1), of r]] Cons.prems(2) show ?thesis by simp
  qed
qed simp

lemma seed_answers:
  assumes "ps_results st = []" and "x \<in> set (ps_results (seed alive call_id now workers st))"
  shows "\<exists>t. snd x = Err (Timeout t)"
proof -
  let ?T = "{x. \<exists>t. snd x = Err (Timeout t)} :: (SensorId \<times> (Sample, PluginError) result) set"
  have "set (ps_results (((submit_next alive call_id now) ^^ n) st)) \<subseteq> ?T" for n
  proof (induction n)
    case (Suc n)
    then show ?case
      using submit_next_answers [of alive call_id now "((submit_next alive call_id now) ^^ n) st"] by auto
  qed (simp add: assms(1))
  with assms(2) show ?thesis by (auto simp: seed_def)
qed

text \<open>
  C24: For a plan without duplicates (which is what the scheduler plans), whatever the workers
  answer, in whatever order, however late and whatever stale results of earlier ticks are
  still in the channel, the pool returns at most one result per planned sensor and none for
  any other; each is the worker's answer to this very call or a time-out; and a planned sensor without a result was never handed to a worker.
\<close>

theorem pool_sample_sound:
  assumes "distinct plan" and "\<And>xs. mset (drain xs) = mset xs"
    and "pool_sample drain alive workers evs call_id plan now = (results, jobs, next_id)"
  shows "distinct (map fst results) \<and> set (map fst results) \<subseteq> set plan
    \<and> (\<forall>x \<in> set results. answered_by evs call_id x)
    \<and> (\<forall>i \<in> set plan. i \<notin> set (map fst results) \<longrightarrow> i \<notin> job_id ` set jobs)"
proof -
  let ?st0 = "\<lparr>ps_pending = plan, ps_in_flight = [], ps_results = [], ps_jobs = []\<rparr>"
  let ?st1 = "seed alive call_id now workers ?st0"
  define st where "st = collect alive call_id now evs ?st1"
  have inv: "pool_inv plan workers st"
    unfolding st_def using assms(1) by (intro collect_inv seed_inv) auto
  have r: "results = ps_results st @ map (\<lambda>i. (i, Err (Timeout timeout_text))) (drain (ps_in_flight st))"
    and j: "jobs = ps_jobs st"
    using assms(3) by (auto simp: pool_sample_def st_def Let_def)
  have ids: "mset (map fst results) = mset (ps_in_flight st) + mset (map fst (ps_results st))"
    using assms(2) [of "ps_in_flight st"] by (simp add: r comp_def ac_simps)
  have plan: "mset plan = mset (ps_pending st) + mset (map fst results)"
    using inv ids by (simp add: pool_inv_def ac_simps)
  have d: "distinct (ps_pending st @ map fst results)"
    using assms(1) plan by (metis distinct_count_atmost_1 mset_append mset_eq_imp_distinct_iff)
  have "set_mset (mset plan) = set (ps_pending st) \<union> set (map fst results)" unfolding plan by simp
  then have s: "set plan = set (ps_pending st) \<union> set (map fst results)" by simp
  have "set_mset (mset (map fst results)) = set (ps_in_flight st) \<union> set (map fst (ps_results st))" unfolding ids by simp
  then have "job_id ` set jobs \<subseteq> set (map fst results)" using inv by (simp add: pool_inv_def j)
  moreover have "answered_by evs call_id x" if "x \<in> set results" for x
  proof -
    have "\<forall>x \<in> set (ps_results ?st1). answered_by evs call_id x"
      using seed_answers [of ?st0] by (auto simp: answered_by_def)
    from collect_answers [OF this, of evs alive now] that show ?thesis
      by (auto simp: r st_def answered_by_def)
  qed
  ultimately show ?thesis using d s by auto
qed

theorem pool_sample_sound_witness:
  "let (results, jobs, n) = pool_sample rev True 1
         [Received \<lparr>sr_call_id = 3, sr_sensor = ''a'', sr_result = Err (Timeout [])\<rparr>,
          Received \<lparr>sr_call_id = 4, sr_sensor = ''a'', sr_result = Err (Unsupported ''a'')\<rparr>, DeadlinePassed]
         4 [''a'', ''b'', ''c''] 7
   in map fst results = [''a'', ''b''] \<and> distinct (map fst results) \<and> ''c'' \<notin> job_id ` set jobs"
proof -
  let ?evs = "[Received \<lparr>sr_call_id = 3, sr_sensor = ''a'', sr_result = Err (Timeout [])\<rparr>,
          Received \<lparr>sr_call_id = 4, sr_sensor = ''a'', sr_result = Err (Unsupported ''a'')\<rparr>, DeadlinePassed]"
  obtain results jobs n where p: "pool_sample rev True 1 ?evs 4 [''a'', ''b'', ''c''] 7 = (results, jobs, n)"
    by (metis surj_pair)
  have "map fst (fst (pool_sample rev True 1 ?evs 4 [''a'', ''b'', ''c''] 7)) = [''a'', ''b'']" by code_simp
  with p have m: "map fst results = [''a'', ''b'']" by simp
  have d: "distinct [''a'', ''b'', ''c'']" by simp
  from pool_sample_sound [OF d _ p] m have "\<forall>i \<in> set [''a'', ''b'', ''c'']. i \<notin> {''a'', ''b''} \<longrightarrow> i \<notin> job_id ` set jobs"
    by (metis (no_types, lifting) list.simps(15) mset_rev set_empty2 list.set(1))
  then have "''c'' \<notin> job_id ` set jobs" by simp
  with p m show ?thesis by simp
qed

end
