(* ===== verification/Transport.thy ===== *)
theory Transport
  imports Sampling Registry Frame Storage
begin

text \<open>
  The client transport of \<^verbatim>\<open>apps/linsightd/src/transport/unix.rs\<close>: accepting connections, the
  handshake, the per-client subscription ledger, the outbound queues with their pump, the
  requests and the fan-out of samples. One record holds the state the threads share; each
  definition is what one thread does while it holds the locks, so the interleavings of the
  threads are sequences of these steps. A writer is the messages it has sent and a function
  that says which message fails.
\<close>

section \<open>State\<close>

definition ACCEPT_POLL_INTERVAL :: nat where
  "ACCEPT_POLL_INTERVAL = 100"

definition ACCEPT_BACKOFF_MAX :: nat where
  "ACCEPT_BACKOFF_MAX = 5000"

definition MAX_CLIENT_SESSIONS :: nat where
  "MAX_CLIENT_SESSIONS = 64"

definition OUTBOUND_QUEUE_CAP :: nat where
  "OUTBOUND_QUEUE_CAP = 1024"

definition PUMP_DRAIN_CAP :: nat where
  "PUMP_DRAIN_CAP = 256"

type_synonym ClientSubscriptions = "((SensorId \<times> u64) \<times> Subscription) list"

datatype OutboundMsg = OutSample Sample | OutSensorListBroadcast "SensorInfo list"

text \<open>A sink: the bounded queue, whether the pump still receives, and the session whose ledger it shares.\<close>

record ClientSink =
  sk_queue :: "OutboundMsg list"
  sk_receiver :: bool
  sk_session :: nat

record msg_writer =
  mw_sent :: "ServerMsg list"
  mw_fail :: "ServerMsg list \<Rightarrow> ServerMsg \<Rightarrow> FrameError option"

definition write_server :: "ServerMsg \<Rightarrow> msg_writer \<Rightarrow> (unit, FrameError) result \<times> msg_writer" where
  "write_server m w =
     (case mw_fail w (mw_sent w) m of
        Some e \<Rightarrow> (Err e, w)
      | None \<Rightarrow> (Ok (), w\<lparr>mw_sent := mw_sent w @ [m]\<rparr>))"

text \<open>
  \<open>se_releasing\<close> are the tokens a thread has taken out of its ledger but not yet given back to
  the scheduler, which it does under another lock.
\<close>

record session =
  se_client_id :: u64
  se_ledger :: ClientSubscriptions
  se_releasing :: "Subscription list"
  se_writer :: msg_writer
  se_pump_interval_ms :: u64

record ('p, 'l, 'c) Daemon =
  dm_sched :: "('p, 'l, 'c) Scheduler"
  dm_registry :: HardwareRegistry
  dm_clients :: "(u64 \<times> ClientSink) list"
  dm_sessions :: "(nat \<times> session) list"
  dm_live :: nat
  dm_next_client_id :: u64
  dm_world :: alert_world
  dm_files :: files
  dm_tmp_counter :: u64
  dm_prom_bind :: "string option"

text \<open>What a request uses of the outside: plugins, third-party codecs, paths, the system.\<close>

record ('p, 'c) services =
  sv_plugin :: "'p LinsightPlugin"
  sv_evalexpr :: "'c evalexpr"
  sv_show_f64 :: "fl \<Rightarrow> string"
  sv_to_toml :: "RuleConfig list \<Rightarrow> (string, string) result"
  sv_from_toml :: "string \<Rightarrow> (RuleConfig list, string) result"
  sv_events_json :: "AlertEvent list \<Rightarrow> string option"
  sv_print_store :: "NicknameStore \<Rightarrow> (string, string) result"
  sv_fs :: fs_env
  sv_pid :: nat
  sv_store_path :: string
  sv_alerts_path :: string
  sv_history_path :: string
  sv_spawned :: "(HistoryWriter, string) result"
  sv_history_db :: "database option"
  sv_in_time :: bool
  sv_now :: u64

section \<open>Accepting connections\<close>

definition auth_token_ok :: "string option \<Rightarrow> string option \<Rightarrow> bool" where
  "auth_token_ok expected provided =
     (case (expected, provided) of
        (Some e, Some p) \<Rightarrow> p = e
      | (Some _, None) \<Rightarrow> False
      | (None, _) \<Rightarrow> True)"

datatype accepted = RejectedUid | RejectedCapacity | SpawnFailed | Spawned

text \<open>\<open>uid\<close> is the peer's user id (\<open>None\<close> when it cannot be read); \<open>spawn_ok\<close> whether the thread starts.\<close>

definition accept_conn :: "u32 \<Rightarrow> u32 option \<Rightarrow> bool \<Rightarrow> nat \<Rightarrow> accepted \<times> nat" where
  "accept_conn daemon_uid uid spawn_ok live =
     (if uid \<noteq> Some daemon_uid then (RejectedUid, live)
      else if MAX_CLIENT_SESSIONS \<le> live then (RejectedCapacity, live)
      else if spawn_ok then (Spawned, live + 1) else (SpawnFailed, live))"

text \<open>The pause after the \<open>n\<close>-th consecutive error, in milliseconds.\<close>

definition accept_backoff :: "u32 \<Rightarrow> nat" where
  "accept_backoff consecutive_err =
     min (ACCEPT_POLL_INTERVAL * unat (push_bit (unat (min (saturating_sub consecutive_err 1) 8)) 1 :: u32))
       ACCEPT_BACKOFF_MAX"

section \<open>The handshake\<close>

definition welcome_plugins :: "('p, 'l, 'c) Scheduler \<Rightarrow> PluginInfo list" where
  "welcome_plugins sch =
     map (\<lambda>(meta, n). \<lparr>pi_plugin_id = pm_plugin_id meta, pi_display_name = pm_display_name meta,
             pi_version = pm_version meta, pi_sensor_count = n\<rparr>) (host_plugins (sch_host sch))"

text \<open>\<open>Ok True\<close>: the client is welcome; \<open>Ok False\<close>: it was sent a \<^verbatim>\<open>Bye\<close>.\<close>

definition handshake ::
    "string option \<Rightarrow> string \<Rightarrow> ClientMsg \<Rightarrow> ('p, 'l, 'c) Scheduler \<Rightarrow> msg_writer \<Rightarrow>
     (bool, FrameError) result \<times> msg_writer" where
  "handshake auth_token daemon_version first sch w =
     (case verify_hello first of
        Err e \<Rightarrow>
          (Ok False, snd (write_server (Bye (''handshake failed: '' @ handshake_error_to_string e)) w))
      | Ok (_, token) \<Rightarrow>
          if auth_token \<noteq> None \<and> \<not> auth_token_ok auth_token token
          then (Ok False, snd (write_server (Bye ''authentication failed'') w))
          else (case write_server (Welcome PROTOCOL_VERSION daemon_version (welcome_plugins sch)) w of
                  (Err e, w') \<Rightarrow> (Err e, w')
                | (Ok _, w') \<Rightarrow> (Ok True, w')))"

definition register_session :: "nat \<Rightarrow> msg_writer \<Rightarrow> ('p, 'l, 'c) Daemon \<Rightarrow> ('p, 'l, 'c) Daemon" where
  "register_session k w d =
     d\<lparr>dm_next_client_id := dm_next_client_id d + 1,
       dm_clients := AList.update (dm_next_client_id d)
                       \<lparr>sk_queue = [], sk_receiver = True, sk_session = k\<rparr> (dm_clients d),
       dm_sessions := AList.update k
                        \<lparr>se_client_id = dm_next_client_id d, se_ledger = [], se_releasing = [],
                         se_writer = w, se_pump_interval_ms = ucast PUMP_INTERVAL_DEFAULT_MS\<rparr> (dm_sessions d)\<rparr>"

section \<open>The catalogue\<close>

definition build_sensor_info ::
    "SensorDescriptor \<Rightarrow> ('p, 'l, 'c) Scheduler \<Rightarrow> HardwareRegistry \<Rightarrow> SensorInfo exec" where
  "build_sensor_info d sch registry =
     exec_bind (plugin_id_for (sch_host sch) (d_id d)) (\<lambda>p.
       let plugin_id = (case p of Some s \<Rightarrow> s | None \<Rightarrow> ''unknown'');
           device_key = (case d_device_key d of
                           Some k \<Rightarrow> Some k
                         | None \<Rightarrow> Option.bind (d_device_id d) (key_for registry plugin_id))
       in Returns \<lparr>info_id = d_id d, info_display_name = d_display_name d, info_unit = d_unit d,
            info_kind = d_kind d, info_category = d_category d, info_native_rate_hz = d_native_rate_hz d,
            info_min = d_min d, info_max = d_max d, info_device_id = d_device_id d,
            info_plugin_id = plugin_id, info_device_key = device_key,
            info_device_label = map_option (device_label_for registry) device_key,
            info_tags = d_tags d\<rparr>)"

fun exec_map :: "('a \<Rightarrow> 'b exec) \<Rightarrow> 'a list \<Rightarrow> 'b list exec" where
  "exec_map f [] = Returns []"
| "exec_map f (x # xs) =
     exec_bind (f x) (\<lambda>y. exec_bind (exec_map f xs) (\<lambda>ys. Returns (y # ys)))"

definition build_sensor_info_list ::
    "('p, 'l, 'c) Scheduler \<Rightarrow> HardwareRegistry \<Rightarrow> SensorInfo list exec" where
  "build_sensor_info_list sch registry =
     exec_map (\<lambda>d. build_sensor_info d sch registry) (host_descriptors (sch_host sch))"

section \<open>Outbound queues\<close>

datatype try_send_result = Sent | QueueFull | ReceiverGone

definition try_send :: "OutboundMsg \<Rightarrow> ClientSink \<Rightarrow> try_send_result \<times> ClientSink" where
  "try_send m sink =
     (if \<not> sk_receiver sink then (ReceiverGone, sink)
      else if OUTBOUND_QUEUE_CAP \<le> length (sk_queue sink) then (QueueFull, sink)
      else (Sent, sink\<lparr>sk_queue := sk_queue sink @ [m]\<rparr>))"

text \<open>The interested samples of one client; the flag says that its receiver is gone.\<close>

fun send_samples :: "Sample list \<Rightarrow> ClientSink \<Rightarrow> bool \<times> ClientSink" where
  "send_samples [] sink = (False, sink)"
| "send_samples (s # ss) sink =
     (case try_send (OutSample s) sink of
        (ReceiverGone, sink') \<Rightarrow> (True, sink')
      | (_, sink') \<Rightarrow> send_samples ss sink')"

definition interested :: "ClientSubscriptions \<Rightarrow> Sample list \<Rightarrow> Sample list" where
  "interested subs samples = filter (\<lambda>s. list_ex (\<lambda>((i, _), _). i = sample_sensor s) subs) samples"

definition ledger_of :: "('p, 'l, 'c) Daemon \<Rightarrow> nat \<Rightarrow> ClientSubscriptions" where
  "ledger_of d k = (case map_of (dm_sessions d) k of None \<Rightarrow> [] | Some se \<Rightarrow> se_ledger se)"

text \<open>
  The delivery of one tick. The sampler takes the list of sinks, each ledger and each queue under
  locks of their own; here they are read in one state.
\<close>

definition fan_out :: "Sample list \<Rightarrow> ('p, 'l, 'c) Daemon \<Rightarrow> ('p, 'l, 'c) Daemon" where
  "fan_out samples d =
     (if samples = [] then d
      else
        let sent = map (\<lambda>(i, sink). (i, send_samples (interested (ledger_of d (sk_session sink)) samples) sink))
                     (dm_clients d)
        in d\<lparr>dm_clients := map (\<lambda>(i, (_, sink)). (i, sink)) (filter (\<lambda>(_, (gone, _)). \<not> gone) sent)\<rparr>)"

definition broadcast_sensor_list :: "SensorInfo list \<Rightarrow> (u64 \<times> ClientSink) list \<Rightarrow> (u64 \<times> ClientSink) list" where
  "broadcast_sensor_list infos clients =
     map (\<lambda>(i, sink). (i, snd (try_send (OutSensorListBroadcast infos) sink)))
       (filter (\<lambda>(_, sink). fst (try_send (OutSensorListBroadcast infos) sink) \<noteq> ReceiverGone) clients)"

fun to_server :: "OutboundMsg \<Rightarrow> ServerMsg" where
  "to_server (OutSample s) = SampleMsg s"
| "to_server (OutSensorListBroadcast infos) = SensorListBroadcast infos"

text \<open>One tick of the pump: at most \<^verbatim>\<open>PUMP_DRAIN_CAP\<close> messages; a failed write ends the thread.\<close>

fun pump_drain :: "nat \<Rightarrow> OutboundMsg list \<Rightarrow> msg_writer \<Rightarrow> bool \<times> OutboundMsg list \<times> msg_writer" where
  "pump_drain 0 q w = (True, q, w)"
| "pump_drain (Suc n) [] w = (True, [], w)"
| "pump_drain (Suc n) (m # q) w =
     (case write_server (to_server m) w of
        (Err _, w') \<Rightarrow> (False, q, w')
      | (Ok _, w') \<Rightarrow> pump_drain n q w')"

definition pump_tick :: "nat \<Rightarrow> ('p, 'l, 'c) Daemon \<Rightarrow> ('p, 'l, 'c) Daemon" where
  "pump_tick k d =
     (case map_of (dm_sessions d) k of
        None \<Rightarrow> d
      | Some se \<Rightarrow>
          (case map_of (dm_clients d) (se_client_id se) of
             None \<Rightarrow> d
           | Some sink \<Rightarrow>
               if \<not> sk_receiver sink then d
               else (case pump_drain PUMP_DRAIN_CAP (sk_queue sink) (se_writer se) of
                  (ok, q, w) \<Rightarrow>
                    d\<lparr>dm_clients := AList.update (se_client_id se)
                                     (sink\<lparr>sk_queue := q, sk_receiver := ok\<rparr>) (dm_clients d),
                      dm_sessions := AList.update k (se\<lparr>se_writer := w\<rparr>) (dm_sessions d)\<rparr>)))"

section \<open>Subscribing\<close>

definition sched_error_to_string :: "SchedError \<Rightarrow> string" where
  "sched_error_to_string e = (case e of UnknownSensorId i \<Rightarrow> ''unknown sensor: '' @ i)"

text \<open>
  The loop of a \<^verbatim>\<open>Subscribe\<close> message, with the scheduler and the ledger locked: the rejected
  sensors, and the new scheduler and ledger.
\<close>

fun subscribe_all ::
    "SensorId list \<Rightarrow> fl option \<Rightarrow> ('p, 'l, 'c) Scheduler \<times> ClientSubscriptions \<Rightarrow>
     ((SensorId \<times> string) list \<times> ('p, 'l, 'c) Scheduler \<times> ClientSubscriptions) exec" where
  "subscribe_all [] rate_hz st = Returns ([], st)"
| "subscribe_all (i # sensors) rate_hz st =
     exec_bind (subscribe i rate_hz (fst st)) (\<lambda>(r, s1).
       case r of
         Err e \<Rightarrow>
           exec_bind (subscribe_all sensors rate_hz (s1, snd st)) (\<lambda>(degraded, st').
             Returns ((i, sched_error_to_string e) # degraded, st'))
       | Ok subscription \<Rightarrow>
           let key = (i, sub_period_micros subscription)
           in if hm_contains (snd st) key
              then subscribe_all sensors rate_hz (unsubscribe subscription s1, snd st)
              else subscribe_all sensors rate_hz (s1, AList.update key subscription (snd st)))"

fun write_degraded :: "(SensorId \<times> string) list \<Rightarrow> msg_writer \<Rightarrow> (unit, FrameError) result \<times> msg_writer" where
  "write_degraded [] w = (Ok (), w)"
| "write_degraded ((i, reason) # rest) w =
     (case write_server (SensorDegraded i reason) w of
        (Err e, w') \<Rightarrow> (Err e, w')
      | (Ok _, w') \<Rightarrow> write_degraded rest w')"

definition on_subscribe ::
    "nat \<Rightarrow> SensorId list \<Rightarrow> fl option \<Rightarrow> session \<Rightarrow> ('p, 'l, 'c) Daemon \<Rightarrow>
     ((unit, FrameError) result \<times> ('p, 'l, 'c) Daemon) exec" where
  "on_subscribe k sensors rate_hz se d =
     exec_bind (subscribe_all sensors rate_hz (dm_sched d, se_ledger se)) (\<lambda>(degraded, s1, ledger).
       case write_degraded degraded (se_writer se) of
         (r, w) \<Rightarrow>
           Returns (r, d\<lparr>dm_sched := s1,
             dm_sessions := AList.update k (se\<lparr>se_ledger := ledger, se_writer := w\<rparr>) (dm_sessions d)\<rparr>))"

text \<open>First phase of an \<^verbatim>\<open>Unsubscribe\<close>, under the ledger's lock: all tokens of the named sensors.\<close>

fun take_tokens :: "SensorId list \<Rightarrow> ClientSubscriptions \<Rightarrow> Subscription list \<times> ClientSubscriptions" where
  "take_tokens [] ledger = ([], ledger)"
| "take_tokens (i # sensors) ledger =
     (case take_tokens sensors (filter (\<lambda>((j, _), _). j \<noteq> i) ledger) of
        (removed, rest) \<Rightarrow> (map snd (filter (\<lambda>((j, _), _). j = i) ledger) @ removed, rest))"

definition unsubscribe_take :: "nat \<Rightarrow> SensorId list \<Rightarrow> session \<Rightarrow> ('p, 'l, 'c) Daemon \<Rightarrow> ('p, 'l, 'c) Daemon" where
  "unsubscribe_take k sensors se d =
     (case take_tokens sensors (se_ledger se) of
        (removed, ledger) \<Rightarrow>
          d\<lparr>dm_sessions := AList.update k (se\<lparr>se_ledger := ledger, se_releasing := removed\<rparr>) (dm_sessions d)\<rparr>)"

text \<open>Second phase, under the scheduler's lock; also the end of a session gives its tokens back so.\<close>

definition release_tokens :: "nat \<Rightarrow> session \<Rightarrow> ('p, 'l, 'c) Daemon \<Rightarrow> ('p, 'l, 'c) Daemon" where
  "release_tokens k se d =
     d\<lparr>dm_sched := fold unsubscribe (se_releasing se) (dm_sched d),
       dm_sessions := AList.update k (se\<lparr>se_releasing := []\<rparr>) (dm_sessions d)\<rparr>"

text \<open>The whole message, when no other thread runs between the phases.\<close>

definition on_unsubscribe :: "nat \<Rightarrow> SensorId list \<Rightarrow> ('p, 'l, 'c) Daemon \<Rightarrow> ('p, 'l, 'c) Daemon" where
  "on_unsubscribe k sensors d =
     (case map_of (dm_sessions d) k of
        None \<Rightarrow> d
      | Some se \<Rightarrow>
          let d1 = unsubscribe_take k sensors se d
          in case map_of (dm_sessions d1) k of None \<Rightarrow> d1 | Some se1 \<Rightarrow> release_tokens k se1 d1)"

section \<open>The end of a session\<close>

text \<open>The pump has stopped: the sink is removed and the ledger drained.\<close>

definition session_drain :: "nat \<Rightarrow> session \<Rightarrow> ('p, 'l, 'c) Daemon \<Rightarrow> ('p, 'l, 'c) Daemon" where
  "session_drain k se d =
     d\<lparr>dm_clients := AList.delete (se_client_id se) (dm_clients d),
       dm_sessions := AList.update k (se\<lparr>se_ledger := [], se_releasing := map snd (se_ledger se)\<rparr>) (dm_sessions d)\<rparr>"

text \<open>After the tokens are released, \<^verbatim>\<open>serve\<close> returns and the guard lowers the session count.\<close>

definition session_end :: "nat \<Rightarrow> ('p, 'l, 'c) Daemon \<Rightarrow> ('p, 'l, 'c) Daemon" where
  "session_end k d = d\<lparr>dm_sessions := AList.delete k (dm_sessions d), dm_live := dm_live d - 1\<rparr>"

definition close_session :: "nat \<Rightarrow> ('p, 'l, 'c) Daemon \<Rightarrow> ('p, 'l, 'c) Daemon" where
  "close_session k d =
     (case map_of (dm_sessions d) k of
        None \<Rightarrow> d
      | Some se \<Rightarrow>
          let d1 = session_drain k se d
          in case map_of (dm_sessions d1) k of
               None \<Rightarrow> d1
             | Some se1 \<Rightarrow> session_end k (release_tokens k se1 d1))"

section \<open>Requests\<close>

text \<open>Each request operation: its response and the state it leaves.\<close>

type_synonym ('p, 'l, 'c) answer =
  "((ResponsePayload, ProtoError) result \<times> ('p, 'l, 'c) Daemon) exec"

definition proto_err :: "ProtoErrorCode \<Rightarrow> string \<Rightarrow> (ResponsePayload, ProtoError) result" where
  "proto_err c msg = Err \<lparr>err_code = c, err_message = msg\<rparr>"

definition req_get_hardware :: "('p, 'l, 'c) Daemon \<Rightarrow> ('p, 'l, 'c) answer" where
  "req_get_hardware d =
     Returns (Ok (Hardware (snapshot (dm_registry d)) (nicknames_snapshot (dm_registry d))), d)"

definition req_get_sensor_info :: "string \<Rightarrow> ('p, 'l, 'c) Daemon \<Rightarrow> ('p, 'l, 'c) answer" where
  "req_get_sensor_info sensor d =
     (case SensorId_try_new sensor of
        Err e \<Rightarrow> Returns (proto_err UnknownSensor (''bad sensor id: '' @ core_error_to_string e), d)
      | Ok sensor_id \<Rightarrow>
          (case find (\<lambda>x. d_id x = sensor_id) (host_descriptors (sch_host (dm_sched d))) of
             None \<Rightarrow> Returns (proto_err UnknownSensor (''sensor not found: '' @ sensor_id), d)
           | Some x \<Rightarrow>
               exec_bind (build_sensor_info x (dm_sched d) (dm_registry d)) (\<lambda>info.
                 Returns (Ok (SensorInfoPayload info), d))))"

definition normalize_value :: "string option \<Rightarrow> (string option, NicknameError) result" where
  "normalize_value value = (case value of None \<Rightarrow> Ok None | Some v \<Rightarrow> validate_nickname v)"

definition req_set_nickname ::
    "('p, 'c) services \<Rightarrow> string \<Rightarrow> string option \<Rightarrow> ('p, 'l, 'c) Daemon \<Rightarrow> ('p, 'l, 'c) answer" where
  "req_set_nickname sv device_key value d =
     (case HardwareDeviceKey_try_new device_key of
        Err e \<Rightarrow> Returns (proto_err InvalidNickname (''bad device key: '' @ key_error_to_string e), d)
      | Ok key \<Rightarrow>
          (case normalize_value value of
             Err e \<Rightarrow> Returns (proto_err InvalidNickname (nickname_error_to_string e), d)
           | Ok normalized \<Rightarrow>
               (case set_nickname key normalized (dm_registry d) of
                  (Err e, reg) \<Rightarrow>
                    Returns (proto_err UnknownDevice (registry_error_to_string e), d\<lparr>dm_registry := reg\<rparr>)
                | (Ok _, reg) \<Rightarrow>
                    (case NicknameStore_save (sv_fs sv) (sv_pid sv) (sv_print_store sv) (sv_store_path sv)
                            \<lparr>ns_schema_version = 1, ns_nicknames = nicknames_snapshot reg\<rparr>
                            (dm_tmp_counter d) (dm_files d) of
                       (saved, counter, trace) \<Rightarrow>
                         let d1 = d\<lparr>dm_registry := reg, dm_tmp_counter := counter, dm_files := last trace\<rparr>
                         in case saved of
                              Err e \<Rightarrow> Returns (proto_err IoCode (''save failed: '' @ e), d1)
                            | Ok _ \<Rightarrow> Returns (Ok (NicknameSet device_key normalized), d1)))))"

definition req_get_history ::
    "('p, 'c) services \<Rightarrow> string \<Rightarrow> u64 \<Rightarrow> u64 \<Rightarrow> u32 option \<Rightarrow> ('p, 'l, 'c) Daemon \<Rightarrow> ('p, 'l, 'c) answer" where
  "req_get_history sv sensor since_micros until_micros max_points d =
     (case sch_history_db_path (dm_sched d) of
        None \<Rightarrow> Returns (proto_err Internal ''history not enabled on daemon'', d)
      | Some db_path \<Rightarrow>
          (case history_query db_path (sv_history_db sv) sensor (i64_of since_micros) (i64_of until_micros) max_points of
             Ok samples \<Rightarrow> Returns (Ok (ResponsePayload.History sensor samples), d)
           | Err e \<Rightarrow> Returns (proto_err IoCode (''history query failed: '' @ e), d)))"

definition req_list_alerts :: "('p, 'c) services \<Rightarrow> ('p, 'l, 'c) Daemon \<Rightarrow> ('p, 'l, 'c) answer" where
  "req_list_alerts sv d =
     Returns (Ok (AlertList (case sch_alerts (dm_sched d) of
        None \<Rightarrow> [] | Some eng \<Rightarrow> list_rules_json (sv_show_f64 sv) eng)), d)"

definition set_engine :: "'c AlertEngine \<Rightarrow> ('p, 'l, 'c) Daemon \<Rightarrow> ('p, 'l, 'c) Daemon" where
  "set_engine eng d = d\<lparr>dm_sched := (dm_sched d)\<lparr>sch_alerts := Some eng\<rparr>\<rparr>"

text \<open>A failed save of the configuration is only logged.\<close>

definition save_engine :: "('p, 'c) services \<Rightarrow> string \<Rightarrow> 'c AlertEngine \<Rightarrow> ('p, 'l, 'c) Daemon \<Rightarrow> ('p, 'l, 'c) Daemon" where
  "save_engine sv cfg_path eng d =
     d\<lparr>dm_files := last (snd (save_config (sv_fs sv) (sv_show_f64 sv) (sv_to_toml sv) cfg_path eng (dm_files d)))\<rparr>"

definition req_upsert_alert ::
    "('p, 'c) services \<Rightarrow> string \<Rightarrow> string \<Rightarrow> string option \<Rightarrow> string option \<Rightarrow> string list \<Rightarrow> bool option \<Rightarrow>
     ('p, 'l, 'c) Daemon \<Rightarrow> ('p, 'l, 'c) answer" where
  "req_upsert_alert sv name expr for_duration cooldown notify enabled d =
     (case sch_alerts (dm_sched d) of
        None \<Rightarrow> Returns (proto_err Internal ''alert engine not loaded'', d)
      | Some eng \<Rightarrow>
          (case sch_alerts_config_path (dm_sched d) of
             None \<Rightarrow> Returns (proto_err Internal ''alerts not configured'', d)
           | Some cfg_path \<Rightarrow>
               exec_bind (upsert_rule name expr for_duration cooldown notify enabled eng) (\<lambda>(r, eng').
                 case r of
                   Err e \<Rightarrow> Returns (proto_err Internal (''upsert failed: '' @ e), set_engine eng' d)
                 | Ok _ \<Rightarrow> Returns (Ok (AlertUpserted name), save_engine sv cfg_path eng' (set_engine eng' d)))))"

definition req_delete_alert ::
    "('p, 'c) services \<Rightarrow> string \<Rightarrow> ('p, 'l, 'c) Daemon \<Rightarrow> ('p, 'l, 'c) answer" where
  "req_delete_alert sv name d =
     (case sch_alerts (dm_sched d) of
        None \<Rightarrow> Returns (proto_err Internal ''alert engine not loaded'', d)
      | Some eng \<Rightarrow>
          (case sch_alerts_config_path (dm_sched d) of
             None \<Rightarrow> Returns (proto_err Internal ''alerts not configured'', d)
           | Some cfg_path \<Rightarrow>
               (case delete_rule name eng of
                  (Ok True, eng') \<Rightarrow>
                    Returns (Ok (AlertDeleted name), save_engine sv cfg_path eng' (set_engine eng' d))
                | (Ok False, eng') \<Rightarrow>
                    Returns (proto_err AlertNotFound (''rule '' @ [CHR 39] @ name @ [CHR 39] @ '' not found''),
                      set_engine eng' d)
                | (Err e, eng') \<Rightarrow> Returns (proto_err Internal (''delete failed: '' @ e), set_engine eng' d))))"

text \<open>Every sensor is sampled once for the context of a test; only scalars are bound.\<close>

fun test_context ::
    "('p, 'c) services \<Rightarrow> SensorDescriptor list \<Rightarrow> 'c \<times> ('p, 'l, 'c) Scheduler \<Rightarrow> ('c \<times> ('p, 'l, 'c) Scheduler) exec" where
  "test_context sv [] st = Returns st"
| "test_context sv (x # xs) st =
     exec_bind (sample_now (sv_plugin sv) (d_id x) (sv_now sv) (snd st)) (\<lambda>(sample, sch).
       test_context sv xs
         (case sample of
            Some s \<Rightarrow>
              (case sample_reading s of
                 Scalar v \<Rightarrow> ex_set_value (sv_evalexpr sv) (rewrite_expr (d_id x)) v (fst st)
               | _ \<Rightarrow> fst st)
          | None \<Rightarrow> fst st, sch))"

definition test_result :: "EvalOutcome \<Rightarrow> ResponsePayload" where
  "test_result outcome =
     (case outcome of
        EvalOk is_true \<Rightarrow> AlertTestResult is_true None
      | EvalErr e \<Rightarrow> AlertTestResult False (Some (''eval failed: '' @ e))
      | EvalTimeout \<Rightarrow> AlertTestResult False (Some ''expression evaluation timed out'')
      | EvalPanic \<Rightarrow> AlertTestResult False (Some ''expression evaluation panicked''))"

definition req_test_alert_expr ::
    "('p, 'c) services \<Rightarrow> string \<Rightarrow> ('p, 'l, 'c) Daemon \<Rightarrow> ('p, 'l, 'c) answer" where
  "req_test_alert_expr sv expr d =
     exec_bind (test_context sv (host_descriptors (sch_host (dm_sched d))) (ex_new (sv_evalexpr sv), dm_sched d))
       (\<lambda>(ctx, sch).
          Returns (Ok (test_result (eval_limited (sv_evalexpr sv) (sv_in_time sv) (rewrite_expr expr) ctx)),
            d\<lparr>dm_sched := sch\<rparr>))"

definition req_list_alert_events ::
    "('p, 'c) services \<Rightarrow> u32 option \<Rightarrow> ('p, 'l, 'c) Daemon \<Rightarrow> ('p, 'l, 'c) answer" where
  "req_list_alert_events sv limit d =
     Returns (Ok (AlertEventList (case sch_alerts (dm_sched d) of
        None \<Rightarrow> ''[]'' | Some eng \<Rightarrow> list_events_json (sv_events_json sv) limit eng)), d)"

definition req_get_daemon_settings :: "('p, 'l, 'c) Daemon \<Rightarrow> ('p, 'l, 'c) answer" where
  "req_get_daemon_settings d =
     (case daemon_settings (dm_prom_bind d) (dm_sched d) of
        (history, alerts, _, prom_bind) \<Rightarrow>
          Returns (Ok (DaemonSettings history alerts (prom_bind \<noteq> None) prom_bind), d))"

definition prom_toggle_errors :: "bool option \<Rightarrow> string list" where
  "prom_toggle_errors prom =
     (case prom of
        None \<Rightarrow> []
      | Some True \<Rightarrow>
          [''Prometheus toggle-on is not supported via RPC; set LINSIGHT_PROM_BIND and restart'']
      | Some False \<Rightarrow>
          [''Prometheus toggle-off is not supported via RPC; unset LINSIGHT_PROM_BIND and restart''])"

fun join_errors :: "string list \<Rightarrow> string" where
  "join_errors [] = []"
| "join_errors [e] = e"
| "join_errors (e # es) = e @ ''; '' @ join_errors es"

definition apply_history_toggle ::
    "('p, 'c) services \<Rightarrow> bool option \<Rightarrow> ('p, 'l, 'c) Daemon \<Rightarrow> string list \<times> ('p, 'l, 'c) Daemon" where
  "apply_history_toggle sv history d =
     (case history of
        None \<Rightarrow> ([], d)
      | Some v \<Rightarrow>
          (case toggle_history (sv_history_path sv) (sv_spawned sv) v (dm_sched d, dm_world d) of
             (r, sch, w) \<Rightarrow>
               (case r of Err e \<Rightarrow> [e] | Ok _ \<Rightarrow> [], d\<lparr>dm_sched := sch, dm_world := w\<rparr>)))"

definition apply_alerts_toggle ::
    "('p, 'c) services \<Rightarrow> bool option \<Rightarrow> ('p, 'l, 'c) Daemon \<Rightarrow> (string list \<times> ('p, 'l, 'c) Daemon) exec" where
  "apply_alerts_toggle sv alerts d =
     (case alerts of
        None \<Rightarrow> Returns ([], d)
      | Some v \<Rightarrow>
          exec_bind (toggle_alerts (sv_evalexpr sv) (sv_from_toml sv) (dm_files d) (sv_alerts_path sv) v (dm_sched d))
            (\<lambda>(r, sch). Returns (case r of Err e \<Rightarrow> [e] | Ok _ \<Rightarrow> [], d\<lparr>dm_sched := sch\<rparr>)))"

text \<open>The bind address is kept in an environment variable; setting one to a value with a NUL panics.\<close>

definition set_prom_bind :: "string option \<Rightarrow> ('p, 'l, 'c) Daemon \<Rightarrow> ('p, 'l, 'c) Daemon exec" where
  "set_prom_bind prom_bind d =
     (case prom_bind of
        None \<Rightarrow> Returns d
      | Some bind \<Rightarrow>
          if trim bind = [] then Returns (d\<lparr>dm_prom_bind := None\<rparr>)
          else if CHR 0x00 \<in> set bind then Panics
          else Returns (d\<lparr>dm_prom_bind := Some bind\<rparr>))"

definition req_set_daemon_settings ::
    "('p, 'c) services \<Rightarrow> bool option \<Rightarrow> bool option \<Rightarrow> bool option \<Rightarrow> string option \<Rightarrow>
     ('p, 'l, 'c) Daemon \<Rightarrow> ('p, 'l, 'c) answer" where
  "req_set_daemon_settings sv history alerts prom prom_bind d =
     (case apply_history_toggle sv history d of
        (e1, d1) \<Rightarrow>
          exec_bind (apply_alerts_toggle sv alerts d1) (\<lambda>(e2, d2).
            exec_bind (set_prom_bind prom_bind d2) (\<lambda>d3.
              let errors = e1 @ e2 @ prom_toggle_errors prom
              in case daemon_settings (dm_prom_bind d3) (dm_sched d3) of
                   (history_enabled, alerts_enabled, _, bind) \<Rightarrow>
                     Returns (if errors \<noteq> [] then proto_err Internal (join_errors errors)
                              else Ok (DaemonSettingsSet history_enabled alerts_enabled (bind \<noteq> None)), d3))))"

fun request_answer ::
    "('p, 'c) services \<Rightarrow> RequestOp \<Rightarrow> ('p, 'l, 'c) Daemon \<Rightarrow> ('p, 'l, 'c) answer" where
  "request_answer sv GetHardware d = req_get_hardware d"
| "request_answer sv (GetSensorInfo sensor) d = req_get_sensor_info sensor d"
| "request_answer sv (SetNickname device_key value) d = req_set_nickname sv device_key value d"
| "request_answer sv (SetPumpIntervalMs ms) d =
     Returns (Ok (PumpIntervalSet (word_clamp PUMP_INTERVAL_MIN_MS PUMP_INTERVAL_MAX_MS ms)), d)"
| "request_answer sv (GetHistory sensor since til max_points) d = req_get_history sv sensor since til max_points d"
| "request_answer sv ListAlerts d = req_list_alerts sv d"
| "request_answer sv (UpsertAlert name expr for_d cooldown notify enabled) d =
     req_upsert_alert sv name expr for_d cooldown notify enabled d"
| "request_answer sv (DeleteAlert name) d = req_delete_alert sv name d"
| "request_answer sv (TestAlertExpr expr) d = req_test_alert_expr sv expr d"
| "request_answer sv (ListAlertEvents limit) d = req_list_alert_events sv limit d"
| "request_answer sv GetDaemonSettings d = req_get_daemon_settings d"
| "request_answer sv (SetDaemonSettings history alerts prom prom_bind) d =
     req_set_daemon_settings sv history alerts prom prom_bind d"

text \<open>The pump interval of the session, for the one request that sets it.\<close>

fun new_pump_interval :: "RequestOp \<Rightarrow> u64 \<Rightarrow> u64" where
  "new_pump_interval (SetPumpIntervalMs ms) _ = ucast (word_clamp PUMP_INTERVAL_MIN_MS PUMP_INTERVAL_MAX_MS ms)"
| "new_pump_interval _ old = old"

text \<open>
  A request is answered by one \<^verbatim>\<open>Response\<close>; a nickname that was stored is then broadcast to every
  client, unless the response could not be written.
\<close>

fun announces :: "RequestOp \<Rightarrow> (ResponsePayload, ProtoError) result \<Rightarrow> bool" where
  "announces (SetNickname _ _) (Ok _) = True"
| "announces _ _ = False"

definition handle_request ::
    "('p, 'c) services \<Rightarrow> nat \<Rightarrow> u32 \<Rightarrow> RequestOp \<Rightarrow> session \<Rightarrow> ('p, 'l, 'c) Daemon \<Rightarrow>
     ((unit, FrameError) result \<times> ('p, 'l, 'c) Daemon) exec" where
  "handle_request sv k req_id op se d =
     exec_bind (request_answer sv op d) (\<lambda>(result, d1).
       case write_server (Response req_id result) (se_writer se) of
         (r, w) \<Rightarrow>
           let d2 = d1\<lparr>dm_sessions := AList.update k
                        (se\<lparr>se_writer := w, se_pump_interval_ms := new_pump_interval op (se_pump_interval_ms se)\<rparr>)
                        (dm_sessions d1)\<rparr>
           in if is_ok r \<and> announces op result
              then exec_bind (build_sensor_info_list (dm_sched d2) (dm_registry d2)) (\<lambda>infos.
                     Returns (r, d2\<lparr>dm_clients := broadcast_sensor_list infos (dm_clients d2)\<rparr>))
              else Returns (r, d2))"

section \<open>The read loop\<close>

text \<open>What a message does to the session: it goes on, or it ends (\<^verbatim>\<open>serve\<close> then closes it).\<close>

datatype loop_result = Continue | LoopEnd "(unit, FrameError) result"

definition continue_on_ok :: "(unit, FrameError) result \<Rightarrow> loop_result" where
  "continue_on_ok r = (if is_ok r then Continue else LoopEnd r)"

definition handle_client_msg ::
    "('p, 'c) services \<Rightarrow> nat \<Rightarrow> ClientMsg \<Rightarrow> session \<Rightarrow> ('p, 'l, 'c) Daemon \<Rightarrow>
     (loop_result \<times> ('p, 'l, 'c) Daemon) exec" where
  "handle_client_msg sv k msg se d =
     (case msg of
        ListSensors \<Rightarrow>
          exec_bind (build_sensor_info_list (dm_sched d) (dm_registry d)) (\<lambda>infos.
            case write_server (SensorList infos) (se_writer se) of
              (r, w) \<Rightarrow> Returns (continue_on_ok r,
                d\<lparr>dm_sessions := AList.update k (se\<lparr>se_writer := w\<rparr>) (dm_sessions d)\<rparr>))
      | Subscribe sensors rate_hz \<Rightarrow>
          exec_bind (on_subscribe k sensors rate_hz se d) (\<lambda>(r, d'). Returns (continue_on_ok r, d'))
      | Unsubscribe sensors \<Rightarrow> Returns (Continue, on_unsubscribe k sensors d)
      | Hello _ _ _ \<Rightarrow>
          (case write_server (Bye ''duplicate Hello'') (se_writer se) of
             (_, w) \<Rightarrow> Returns (LoopEnd (Ok ()),
               d\<lparr>dm_sessions := AList.update k (se\<lparr>se_writer := w\<rparr>) (dm_sessions d)\<rparr>))
      | Goodbye \<Rightarrow> Returns (LoopEnd (Ok ()), d)
      | Request req_id op \<Rightarrow>
          exec_bind (handle_request sv k req_id op se d) (\<lambda>(r, d'). Returns (continue_on_ok r, d')))"

section \<open>The sampler thread\<close>

definition now_micros :: "u64 option \<Rightarrow> u64" where
  "now_micros since_epoch = (case since_epoch of Some t \<Rightarrow> t | None \<Rightarrow> - 1)"

text \<open>The two phases that hold the scheduler's lock; the fan-out follows the second.\<close>

definition sampler_plan :: "u64 \<Rightarrow> ('p, 'l, 'c) Daemon \<Rightarrow> SensorId list \<times> ('p, 'l, 'c) Daemon" where
  "sampler_plan now d = (case tick_plan now (dm_sched d) of (plan, sch) \<Rightarrow> (plan, d\<lparr>dm_sched := sch\<rparr>))"

definition sampler_commit ::
    "'c evalexpr \<Rightarrow> alert_timing \<Rightarrow> (SensorId \<times> (Sample, PluginError) result) list \<Rightarrow> u64 \<Rightarrow>
     ('p, 'l, 'c) Daemon \<Rightarrow> (Sample list \<times> NotifyJob list \<times> ('p, 'l, 'c) Daemon) exec" where
  "sampler_commit E timing results now d =
     exec_bind (tick_commit E timing results now (dm_sched d, dm_world d)) (\<lambda>(samples, jobs, sch, w).
       Returns (samples, jobs, fan_out samples (d\<lparr>dm_sched := sch, dm_world := w\<rparr>)))"

end
