(* ===== verification/Sessions.thy ===== *)
theory Sessions
  imports Transport
begin

text \<open>
  The daemon as interleaved threads: the steps of \<open>Transport\<close> as a transition relation, its
  reachable states, and the invariant that ties the scheduler's reference counts to the
  ledgers of the client sessions. The proof rests on the contract \<open>refcounts\<close> that the scheduler's
  subscriptions satisfy.
\<close>

section \<open>Sums over association lists\<close>

lemma sum_update_known:
  "map_of m k = Some old \<Longrightarrow>
     sum_list (map f (AList.update k v m)) + f (k, old) = sum_list (map f m) + f (k, v)" for f :: "_ \<Rightarrow> nat"
  by (induction m) (auto split: if_splits)

lemma sum_update_new:
  "map_of m k = None \<Longrightarrow> sum_list (map f (AList.update k v m)) = sum_list (map f m) + f (k, v)" for f :: "_ \<Rightarrow> nat"
  by (induction m) (auto split: if_splits)

lemma sum_delete_known:
  "distinct (map fst m) \<Longrightarrow> map_of m k = Some old \<Longrightarrow>
     sum_list (map f (AList.delete k m)) + f (k, old) = sum_list (map f m)" for f :: "_ \<Rightarrow> nat"
proof (induction m)
  case (Cons x m)
  then show ?case
    by (cases "fst x = k") (auto simp: AList.delete_simps delete_idem map_of_eq_None_iff)
qed simp

lemma count_list_distinct: "distinct xs \<Longrightarrow> count_list xs x = (if x \<in> set xs then 1 else 0)"
  by (induction xs) auto

section \<open>The ledgers\<close>

definition ledger_ok :: "ClientSubscriptions \<Rightarrow> bool" where
  "ledger_ok l \<longleftrightarrow>
     distinct (map fst l) \<and> list_all (\<lambda>((i, p), s). sub_sensor s = i \<and> sub_period_micros s = p) l"

definition tokens :: "session \<Rightarrow> Subscription list" where
  "tokens se = map snd (se_ledger se) @ se_releasing se"

definition held :: "(nat \<times> session) list \<Rightarrow> Subscription \<Rightarrow> nat" where
  "held sessions s = sum_list (map (\<lambda>(_, se). count_list (tokens se) s) sessions)"

definition session_ok :: "session \<Rightarrow> bool" where
  "session_ok se \<longleftrightarrow> ledger_ok (se_ledger se) \<and> distinct (tokens se)"

lemma ledger_key: "ledger_ok l \<Longrightarrow> (k, s) \<in> set l \<Longrightarrow> k = (sub_sensor s, sub_period_micros s)"
  by (auto simp: ledger_ok_def list_all_iff)

lemma ledger_tokens_distinct: "ledger_ok l \<Longrightarrow> distinct (map snd l)"
proof -
  assume l: "ledger_ok l"
  have "map fst l = map (\<lambda>s. (sub_sensor s, sub_period_micros s)) (map snd l)"
    using ledger_key [OF l] by auto
  moreover have "distinct (map fst l)" using l by (simp add: ledger_ok_def)
  ultimately have "distinct (map (\<lambda>s. (sub_sensor s, sub_period_micros s)) (map snd l))" by (simp only:)
  then show ?thesis
    unfolding distinct_map [of "\<lambda>s. (sub_sensor s, sub_period_micros s)" "map snd l"] by (rule conjunct1)
qed

lemma ledger_mem:
  assumes "ledger_ok l"
  shows "s \<in> set (map snd l) \<longleftrightarrow> hm_contains l (sub_sensor s, sub_period_micros s)"
proof
  assume "s \<in> set (map snd l)"
  then obtain k where k: "(k, s) \<in> set l" by auto
  with ledger_key [OF assms k] have "(sub_sensor s, sub_period_micros s) \<in> fst ` set l" by force
  then show "hm_contains l (sub_sensor s, sub_period_micros s)"
    unfolding hm_contains_def by (metis map_of_eq_None_iff)
next
  assume "hm_contains l (sub_sensor s, sub_period_micros s)"
  then obtain t where "((sub_sensor s, sub_period_micros s), t) \<in> set l"
    by (auto simp: hm_contains_def dest: map_of_SomeD)
  moreover from ledger_key [OF assms this] have "t = s" by simp
  ultimately show "s \<in> set (map snd l)" by force
qed

lemma ledger_ok_insert:
  "ledger_ok l \<Longrightarrow> \<not> hm_contains l (sub_sensor s, sub_period_micros s) \<Longrightarrow>
     ledger_ok (AList.update (sub_sensor s, sub_period_micros s) s l)
     \<and> count_list (map snd (AList.update (sub_sensor s, sub_period_micros s) s l)) t
         = count_list (map snd l) t + (if t = s then 1 else 0)"
proof -
  assume l: "ledger_ok l" and n: "\<not> hm_contains l (sub_sensor s, sub_period_micros s)"
  have u: "AList.update k v l = l @ [(k, v)]" if "map_of l k = None" for k and v :: Subscription
    using that by (induction l) (auto split: if_splits)
  from n have "map_of l (sub_sensor s, sub_period_micros s) = None" by (simp add: hm_contains_def)
  then show ?thesis using l u by (auto simp: ledger_ok_def map_of_eq_None_iff)
qed

lemma subscribe_ErrD: "subscribe i rate sch = Returns (Err e, s1) \<Longrightarrow> s1 = sch"
  by (auto simp: subscribe_def Let_def exec_bind_Returns split: option.splits)

lemma subscribe_all_inv:
  assumes "subscribe_all sensors rate (sch, local) = Returns (degraded, sch', local')"
    and "wf_entries (sch_entries sch)" and "ledger_ok local"
    and "\<And>s. sub_count (sch_entries sch) s = count_list (map snd local) s + others s"
    and "\<And>s. others s \<le> 64"
  shows "wf_entries (sch_entries sch') \<and> ledger_ok local'
    \<and> (\<forall>s. sub_count (sch_entries sch') s = count_list (map snd local') s + others s)"
  using assms(1-4)
proof (induction sensors arbitrary: sch local degraded)
  case (Cons i sensors)
  obtain r s1 where r: "subscribe i rate sch = Returns (r, s1)"
    using Cons.prems(1) by (cases "subscribe i rate sch") auto
  show ?case
  proof (cases r)
    case (Err e)
    with r subscribe_ErrD have "s1 = sch" by blast
    then obtain dg where "subscribe_all sensors rate (sch, local) = Returns (dg, sch', local')"
      using Cons.prems(1) r Err by (auto simp: exec_bind_Returns)
    from Cons.IH [OF this Cons.prems(2-4)] show ?thesis .
  next
    case (Ok sub)
    with r have sub: "subscribe i rate sch = Returns (Ok sub, s1)" by simp
    obtain st where i: "sub_sensor sub = i"
      and e1: "sch_entries s1 = add_subscription (sub_sensor sub) (sub_period_micros sub) st (sch_entries sch)"
      using subscribe_OkD(1) [OF sub] by blast
    have "count_list (map snd local) sub \<le> 1"
      using ledger_tokens_distinct [OF Cons.prems(3)] by (simp add: count_list_distinct)
    then have c: "sub_count (sch_entries sch) sub < 2 ^ 32 - 1"
      using Cons.prems(4) [of sub] assms(5) [of sub] by simp
    have w1: "wf_entries (sch_entries s1)" unfolding e1 by (rule wf_add_subscription [OF Cons.prems(2) c])
    have c1: "sub_count (sch_entries s1) s = sub_count (sch_entries sch) s + (if s = sub then 1 else 0)" for s
      unfolding e1 sub_count_add [OF c] by simp
    show ?thesis
    proof (cases "hm_contains local (i, sub_period_micros sub)")
      case True
      let ?s2 = "unsubscribe sub s1"
      have e2: "sch_entries ?s2 = drop_subscription sub (sch_entries s1)" by (simp add: unsubscribe_def)
      have "subscribe_all sensors rate (?s2, local) = Returns (degraded, sch', local')"
        using Cons.prems(1) sub True by simp
      moreover have "wf_entries (sch_entries ?s2)" unfolding e2 by (rule wf_drop_subscription [OF w1])
      moreover have "sub_count (sch_entries ?s2) s = count_list (map snd local) s + others s" for s
        unfolding e2 sub_count_drop using Cons.prems(4) [of s] c1 [of s] by auto
      ultimately show ?thesis using Cons.IH Cons.prems(3) by blast
    next
      case False
      let ?l = "AList.update (i, sub_period_micros sub) sub local"
      have l: "ledger_ok ?l" "count_list (map snd ?l) t = count_list (map snd local) t + (if t = sub then 1 else 0)" for t
        using ledger_ok_insert [OF Cons.prems(3), of sub t] False i by auto
      have "subscribe_all sensors rate (s1, ?l) = Returns (degraded, sch', local')"
        using Cons.prems(1) sub False by simp
      moreover have "sub_count (sch_entries s1) s = count_list (map snd ?l) s + others s" for s
        using Cons.prems(4) [of s] c1 [of s] l(2) [of s] by auto
      ultimately show ?thesis using Cons.IH w1 l(1) by blast
    qed
  qed
qed simp


lemma ledger_ok_filter: "ledger_ok l \<Longrightarrow> ledger_ok (filter P l)"
  by (simp add: ledger_ok_def list_all_iff distinct_keys_filter)

lemma mset_partition:
  "mset (map snd (filter (\<lambda>((j, _), _). j \<noteq> i) l)) + mset (map snd (filter (\<lambda>((j, _), _). j = i) l)) = mset (map snd l)"
  by (induction l) auto

lemma take_tokens_spec:
  assumes "take_tokens sensors l = (removed, rest)"
  shows "rest = filter (\<lambda>x. fst (fst x) \<notin> set sensors) l \<and> mset (map snd rest) + mset removed = mset (map snd l)"
  using assms
proof (induction sensors arbitrary: l removed rest)
  case (Cons i sensors)
  let ?out = "filter (\<lambda>((j, _), _). j = i) l" and ?in = "filter (\<lambda>((j, _), _). j \<noteq> i) l"
  obtain rm where t: "take_tokens sensors ?in = (rm, rest)" and rm: "removed = map snd ?out @ rm"
    using Cons.prems(1) by (cases "take_tokens sensors ?in") simp
  have m: "mset (map snd ?in) + mset (map snd ?out) = mset (map snd l)"
    by (rule mset_partition)
  note ih = Cons.IH [OF t]
  have "mset (map snd rest) + mset removed = mset (map snd rest) + mset rm + mset (map snd ?out)"
    by (simp add: rm)
  also have "\<dots> = mset (map snd ?in) + mset (map snd ?out)" using conjunct2 [OF ih] by (simp only:)
  also have "\<dots> = mset (map snd l)" by (rule m)
  finally have "mset (map snd rest) + mset removed = mset (map snd l)" .
  moreover have "rest = filter (\<lambda>x. fst (fst x) \<notin> set (i # sensors)) l"
  proof -
    have "rest = filter (\<lambda>x. fst (fst x) \<notin> set sensors) ?in" using ih by blast
    also have "\<dots> = filter (\<lambda>x. fst (fst x) \<notin> set (i # sensors)) l"
      unfolding filter_filter by (rule filter_cong) auto
    finally show ?thesis .
  qed
  ultimately show ?case by blast
qed simp

lemma fold_unsubscribe:
  "sch_entries (fold unsubscribe toks sch) = fold drop_subscription toks (sch_entries sch)
   \<and> sch_host (fold unsubscribe toks sch) = sch_host sch \<and> sch_alerts (fold unsubscribe toks sch) = sch_alerts sch"
  by (induction toks arbitrary: sch) (auto simp: unsubscribe_def)

section \<open>Requests leave subscriptions alone\<close>

definition same_subs :: "('p, 'l, 'c) Daemon \<Rightarrow> ('p, 'l, 'c) Daemon \<Rightarrow> bool" where
  "same_subs d d' \<longleftrightarrow>
     sch_entries (dm_sched d') = sch_entries (dm_sched d) \<and> dm_sessions d' = dm_sessions d
     \<and> dm_live d' = dm_live d \<and> dm_clients d' = dm_clients d"

lemma same_subs_refl [simp]: "same_subs d d"
  by (simp add: same_subs_def)

lemma test_context_entries:
  "test_context sv xs st = Returns (ctx, sch) \<Longrightarrow> sch_entries sch = sch_entries (snd st)"
proof (induction sv xs st rule: test_context.induct)
  case (2 sv x xs st)
  then show ?case by (auto simp: exec_bind_Returns sample_now_def)
qed simp

lemma set_engine_subs: "same_subs d (set_engine eng d)"
  and save_engine_subs: "same_subs d (save_engine sv path eng' (set_engine eng d))"
  by (simp_all add: same_subs_def set_engine_def save_engine_def)

lemma request_same_subs:
  assumes "request_answer sv op d = Returns (result, d')"
  shows "same_subs d d'"
proof (cases op)
  case (SetNickname key v)
  with assms show ?thesis
    by (auto simp: req_set_nickname_def same_subs_def Let_def split: result.splits prod.splits)
next
  case (GetSensorInfo sensor)
  with assms show ?thesis
    by (auto simp: req_get_sensor_info_def exec_bind_Returns split: result.splits option.splits)
next
  case (GetHistory sensor since til max_points)
  with assms show ?thesis by (auto simp: req_get_history_def split: option.splits result.splits)
next
  case (UpsertAlert name expr for_d cooldown notify enabled)
  show ?thesis
  proof (cases "sch_alerts (dm_sched d) = None \<or> sch_alerts_config_path (dm_sched d) = None")
    case True
    with assms UpsertAlert show ?thesis by (auto simp: req_upsert_alert_def split: option.split_asm)
  next
    case False
    then obtain eng path where e: "sch_alerts (dm_sched d) = Some eng" "sch_alerts_config_path (dm_sched d) = Some path" by auto
    with assms UpsertAlert obtain r eng' where u: "upsert_rule name expr for_d cooldown notify enabled eng = Returns (r, eng')"
      by (auto simp: req_upsert_alert_def exec_bind_Returns)
    with e assms UpsertAlert show ?thesis
      by (cases r) (auto simp: req_upsert_alert_def set_engine_subs save_engine_subs)
  qed
next
  case (DeleteAlert name)
  with assms show ?thesis
    by (auto simp: req_delete_alert_def set_engine_subs save_engine_subs
        split: option.split_asm result.split_asm prod.split_asm bool.split_asm)
next
  case (TestAlertExpr expr)
  with assms show ?thesis
    by (auto simp: req_test_alert_expr_def exec_bind_Returns same_subs_def dest: test_context_entries)
next
  case (SetDaemonSettings history alerts prom prom_bind)
  obtain e1 d1 where h: "apply_history_toggle sv history d = (e1, d1)" by (metis surj_pair)
  obtain e2 d2 where a: "apply_alerts_toggle sv alerts d1 = Returns (e2, d2)" and d': "set_prom_bind prom_bind d2 = Returns d'"
    using assms SetDaemonSettings h by (auto simp: req_set_daemon_settings_def exec_bind_Returns Let_def daemon_settings_def)
  have "same_subs d d1"
    using h by (auto simp: apply_history_toggle_def same_subs_def dest: toggle_history_entries split: option.splits prod.splits)
  moreover have "same_subs d1 d2"
    using a by (auto simp: apply_alerts_toggle_def same_subs_def exec_bind_Returns dest: toggle_alerts_entries split: option.splits)
  moreover have "same_subs d2 d'" using d' by (auto simp: set_prom_bind_def same_subs_def split: option.splits if_splits)
  ultimately show ?thesis by (simp add: same_subs_def)
qed (use assms in \<open>auto simp: req_get_hardware_def req_list_alerts_def req_list_alert_events_def
    req_get_daemon_settings_def split: prod.splits\<close>)


section \<open>Reachable daemons\<close>

definition daemon_inv :: "('p, 'l, 'c) Daemon \<Rightarrow> bool" where
  "daemon_inv d \<longleftrightarrow>
     wf_entries (sch_entries (dm_sched d)) \<and> distinct (map fst (dm_sessions d))
     \<and> list_all (\<lambda>(_, se). session_ok se) (dm_sessions d)
     \<and> length (dm_sessions d) \<le> dm_live d \<and> dm_live d \<le> MAX_CLIENT_SESSIONS
     \<and> sub_count (sch_entries (dm_sched d)) = held (dm_sessions d)
     \<and> list_all (\<lambda>(_, sink). length (sk_queue sink) \<le> OUTBOUND_QUEUE_CAP) (dm_clients d)"

text \<open>The parts of the invariant that a step on one session must re-establish.\<close>

lemma held_update:
  "map_of sessions k = Some se \<Longrightarrow>
     held (AList.update k se' sessions) s + count_list (tokens se) s = held sessions s + count_list (tokens se') s"
  unfolding held_def using sum_update_known [of sessions k se "\<lambda>(_, se). count_list (tokens se) s" se'] by simp

lemma held_new:
  "map_of sessions k = None \<Longrightarrow> held (AList.update k se sessions) s = held sessions s + count_list (tokens se) s"
  unfolding held_def using sum_update_new [of sessions k "\<lambda>(_, se). count_list (tokens se) s" se] by simp

lemma held_delete:
  "distinct (map fst sessions) \<Longrightarrow> map_of sessions k = Some se \<Longrightarrow>
     held (AList.delete k sessions) s + count_list (tokens se) s = held sessions s"
  unfolding held_def using sum_delete_known [of sessions k se "\<lambda>(_, se). count_list (tokens se) s"] by simp

lemma held_le:
  assumes "list_all (\<lambda>(_, se). session_ok se) sessions"
  shows "held sessions s \<le> length sessions"
  using assms
proof (induction sessions)
  case (Cons x sessions)
  have "count_list (tokens (snd x)) s \<le> 1"
    using Cons.prems by (auto simp: session_ok_def count_list_distinct)
  with Cons show ?case by (auto simp: held_def)
qed (simp add: held_def)

lemma list_all_update:
  "list_all (\<lambda>(_, v). P v) m \<Longrightarrow> P v \<Longrightarrow> list_all (\<lambda>(_, v). P v) (AList.update k v m)"
  by (induction m) auto

lemma list_all_delete: "list_all (\<lambda>(_, v). P v) m \<Longrightarrow> list_all (\<lambda>(_, v). P v) (AList.delete k m)"
  by (induction m) auto

lemma length_update_known: "map_of m k \<noteq> None \<Longrightarrow> length (AList.update k v m) = length m"
  by (induction m) auto

lemma length_update_new: "map_of m k = None \<Longrightarrow> length (AList.update k v m) = Suc (length m)"
  by (induction m) (auto split: if_splits)

lemma length_delete_known:
  "distinct (map fst m) \<Longrightarrow> map_of m k \<noteq> None \<Longrightarrow> Suc (length (AList.delete k m)) = length m"
proof (induction m)
  case (Cons x m)
  then show ?case by (cases "fst x = k") (auto simp: map_of_eq_None_iff delete_idem)
qed simp

lemma session_okD: "daemon_inv d \<Longrightarrow> map_of (dm_sessions d) k = Some se \<Longrightarrow> session_ok se"
  by (auto simp: daemon_inv_def list_all_iff dest: map_of_SomeD)

text \<open>A step that replaces one session, and gives the scheduler counts that match.\<close>

lemma daemon_inv_session:
  assumes "daemon_inv d" and "map_of (dm_sessions d) k = Some se" and "session_ok se'"
    and "wf_entries (sch_entries sch')"
    and "\<And>s. sub_count (sch_entries sch') s + count_list (tokens se) s
           = sub_count (sch_entries (dm_sched d)) s + count_list (tokens se') s"
    and "list_all (\<lambda>(_, sink). length (sk_queue sink) \<le> OUTBOUND_QUEUE_CAP) clients"
    and "dm_sched d' = sch'" "dm_sessions d' = AList.update k se' (dm_sessions d)" "dm_live d' = dm_live d" "dm_clients d' = clients"
  shows "daemon_inv d'"
proof -
  have c: "sub_count (sch_entries (dm_sched d)) s = held (dm_sessions d) s" for s
    using assms(1) by (simp add: daemon_inv_def)
  have "sub_count (sch_entries sch') s = held (AList.update k se' (dm_sessions d)) s" for s
    using assms(5) [of s] held_update [OF assms(2), of se' s] c [of s] by linarith
  then have "sub_count (sch_entries sch') = held (AList.update k se' (dm_sessions d))" by (rule ext)
  with assms show ?thesis
    by (simp add: daemon_inv_def distinct_update length_update_known list_all_update)
qed

lemma daemon_inv_same:
  assumes "daemon_inv d" and "sch_entries (dm_sched d') = sch_entries (dm_sched d)"
    and "dm_sessions d' = dm_sessions d" and "dm_live d' = dm_live d"
    and "list_all (\<lambda>(_, sink). length (sk_queue sink) \<le> OUTBOUND_QUEUE_CAP) (dm_clients d')"
  shows "daemon_inv d'"
  using assms by (simp add: daemon_inv_def)


subsection \<open>Queues\<close>

lemma try_send_bound:
  "length (sk_queue sink) \<le> OUTBOUND_QUEUE_CAP \<Longrightarrow> length (sk_queue (snd (try_send m sink))) \<le> OUTBOUND_QUEUE_CAP"
  by (simp add: try_send_def)

lemma send_samples_bound:
  "length (sk_queue sink) \<le> OUTBOUND_QUEUE_CAP \<Longrightarrow> length (sk_queue (snd (send_samples ss sink))) \<le> OUTBOUND_QUEUE_CAP"
proof (induction ss sink rule: send_samples.induct)
  case (2 s ss sink)
  obtain r sink' where t: "try_send (OutSample s) sink = (r, sink')" by (metis surj_pair)
  have "length (sk_queue sink') \<le> OUTBOUND_QUEUE_CAP" using try_send_bound [OF 2(3), of "OutSample s"] t by simp
  with 2 t show ?case by (cases r) auto
qed simp

abbreviation queues_bounded :: "(u64 \<times> ClientSink) list \<Rightarrow> bool" where
  "queues_bounded \<equiv> list_all (\<lambda>(_, sink). length (sk_queue sink) \<le> OUTBOUND_QUEUE_CAP)"

lemma fan_out_bound: "queues_bounded (dm_clients d) \<Longrightarrow> queues_bounded (dm_clients (fan_out samples d))"
  by (auto simp: fan_out_def Let_def list_all_iff intro: order_trans [OF _ send_samples_bound]
      dest: arg_cong [where f = snd]) (metis case_prodD send_samples_bound snd_conv)

lemma broadcast_bound: "queues_bounded clients \<Longrightarrow> queues_bounded (broadcast_sensor_list infos clients)"
  by (auto simp: broadcast_sensor_list_def list_all_iff try_send_bound)

lemma pump_drain_bound: "pump_drain n q w = (ok, q', w') \<Longrightarrow> length q' \<le> length q"
  by (induction n q w rule: pump_drain.induct) (auto split: prod.splits result.splits)

lemma fan_out_other: "dm_sched (fan_out samples d) = dm_sched d" "dm_sessions (fan_out samples d) = dm_sessions d"
  "dm_live (fan_out samples d) = dm_live d"
  by (simp_all add: fan_out_def Let_def)

subsection \<open>Steps\<close>

text \<open>
  The threads' steps: accepting, the handshake, what a session does with a message, the two
  phases of giving tokens back, the pump, and the two phases of a tick. \<open>k\<close> names the session
  thread.
\<close>

inductive daemon_step :: "('p, 'l, 'c) Daemon \<Rightarrow> ('p, 'l, 'c) Daemon \<Rightarrow> bool" where
  accept: "accept_conn daemon_uid uid spawn_ok (dm_live d) = (a, live) \<Longrightarrow> daemon_step d (d\<lparr>dm_live := live\<rparr>)"
| refuse: "length (dm_sessions d) < dm_live d \<Longrightarrow> daemon_step d (d\<lparr>dm_live := dm_live d - 1\<rparr>)"
| greet: "length (dm_sessions d) < dm_live d \<Longrightarrow> map_of (dm_sessions d) k = None \<Longrightarrow>
    handshake auth_token daemon_version first (dm_sched d) w = (Ok True, w') \<Longrightarrow>
    daemon_step d (register_session k w' d)"
| client_msg: "map_of (dm_sessions d) k = Some se \<Longrightarrow> se_releasing se = [] \<Longrightarrow>
    (\<nexists>sensors. msg = Unsubscribe sensors) \<Longrightarrow>
    handle_client_msg sv k msg se d = Returns (r, d') \<Longrightarrow> daemon_step d d'"
| unsubscribe: "map_of (dm_sessions d) k = Some se \<Longrightarrow> se_releasing se = [] \<Longrightarrow>
    daemon_step d (unsubscribe_take k sensors se d)"
| release: "map_of (dm_sessions d) k = Some se \<Longrightarrow> daemon_step d (release_tokens k se d)"
| pump: "daemon_step d (pump_tick k d)"
| plan: "sampler_plan now d = (plan, d') \<Longrightarrow> daemon_step d d'"
| commit: "sampler_commit E timing results now d = Returns (samples, jobs, d') \<Longrightarrow> daemon_step d d'"
| drain: "map_of (dm_sessions d) k = Some se \<Longrightarrow> se_releasing se = [] \<Longrightarrow> daemon_step d (session_drain k se d)"
| finish: "map_of (dm_sessions d) k = Some se \<Longrightarrow> se_ledger se = [] \<Longrightarrow> se_releasing se = [] \<Longrightarrow>
    daemon_step d (session_end k d)"

inductive daemon_reach :: "('p, 'l, 'c) Daemon \<Rightarrow> bool" where
  start: "sch_entries (dm_sched d) = [] \<Longrightarrow> dm_sessions d = [] \<Longrightarrow> dm_clients d = [] \<Longrightarrow> dm_live d = 0 \<Longrightarrow> daemon_reach d"
| step: "daemon_reach d \<Longrightarrow> daemon_step d d' \<Longrightarrow> daemon_reach d'"

lemma inv_subscribe:
  assumes "daemon_inv d" and "map_of (dm_sessions d) k = Some se" and "se_releasing se = []"
    and "on_subscribe k sensors rate se d = Returns (r, d')"
  shows "daemon_inv d'"
proof -
  obtain dg sch' l' where s: "subscribe_all sensors rate (dm_sched d, se_ledger se) = Returns (dg, sch', l')"
    using assms(4) by (auto simp: on_subscribe_def exec_bind_Returns)
  obtain w where d': "d' = d\<lparr>dm_sched := sch', dm_sessions := AList.update k (se\<lparr>se_ledger := l', se_writer := w\<rparr>) (dm_sessions d)\<rparr>"
    using assms(4) s by (auto simp: on_subscribe_def split: prod.splits)
  have ok: "session_ok se" by (rule session_okD [OF assms(1,2)])
  have c: "sub_count (sch_entries (dm_sched d)) s = held (dm_sessions d) s" for s
    using assms(1) by (simp add: daemon_inv_def)
  have h: "held (dm_sessions d) s \<le> 64" for s
    using held_le [of "dm_sessions d" s] assms(1) by (simp add: daemon_inv_def MAX_CLIENT_SESSIONS_def)
  have t: "count_list (tokens se) s = count_list (map snd (se_ledger se)) s" for s
    using assms(3) by (simp add: tokens_def)
  define others where "others s = held (dm_sessions d) s - count_list (tokens se) s" for s
  have le: "count_list (tokens se) s \<le> held (dm_sessions d) s" for s
    using held_update [OF assms(2), of "se\<lparr>se_ledger := []\<rparr>" s] assms(3) by (simp add: tokens_def)
  have inv: "wf_entries (sch_entries sch') \<and> ledger_ok l'
    \<and> (\<forall>s. sub_count (sch_entries sch') s = count_list (map snd l') s + others s)"
  proof (rule subscribe_all_inv [OF s])
    show "wf_entries (sch_entries (dm_sched d))" using assms(1) by (simp add: daemon_inv_def)
    show "ledger_ok (se_ledger se)" using ok by (simp add: session_ok_def)
    show "sub_count (sch_entries (dm_sched d)) s = count_list (map snd (se_ledger se)) s + others s" for s
      using le [of s] by (simp add: c others_def t)
    show "others s \<le> 64" for s using h [of s] by (simp add: others_def)
  qed
  show ?thesis
  proof (rule daemon_inv_session [OF assms(1,2), where sch' = sch' and se' = "se\<lparr>se_ledger := l', se_writer := w\<rparr>" and clients = "dm_clients d"])
    show "session_ok (se\<lparr>se_ledger := l', se_writer := w\<rparr>)"
      using inv ledger_tokens_distinct assms(3) by (simp add: session_ok_def tokens_def)
    show "sub_count (sch_entries sch') s + count_list (tokens se) s =
        sub_count (sch_entries (dm_sched d)) s + count_list (tokens (se\<lparr>se_ledger := l', se_writer := w\<rparr>)) s" for s
      using inv le [of s] assms(3) by (simp add: c others_def tokens_def)
    show "list_all (\<lambda>(_, sink). length (sk_queue sink) \<le> OUTBOUND_QUEUE_CAP) (dm_clients d)"
      using assms(1) by (simp add: daemon_inv_def)
  qed (simp_all add: d' inv)
qed


lemma inv_writer:
  assumes "daemon_inv d" and "map_of (dm_sessions d) k = Some se"
    and "se_ledger se' = se_ledger se" and "se_releasing se' = se_releasing se"
    and "sch_entries (dm_sched d') = sch_entries (dm_sched d)" and "queues_bounded (dm_clients d')"
    and "dm_sessions d' = AList.update k se' (dm_sessions d)" and "dm_live d' = dm_live d"
  shows "daemon_inv d'"
proof -
  have t: "tokens se' = tokens se" using assms(3,4) by (simp add: tokens_def)
  have "session_ok se'" using session_okD [OF assms(1,2)] t assms(3) by (simp add: session_ok_def)
  moreover have "wf_entries (sch_entries (dm_sched d'))" using assms(1,5) by (simp add: daemon_inv_def)
  ultimately show ?thesis
    using assms(5-8) by (intro daemon_inv_session [OF assms(1,2), of se' "dm_sched d'" "dm_clients d'"]) (simp_all add: t)
qed

lemma inv_request:
  assumes "daemon_inv d" and "map_of (dm_sessions d) k = Some se"
    and "handle_request sv k req_id op se d = Returns (r, d')"
  shows "daemon_inv d'"
proof -
  obtain result d1 where a: "request_answer sv op d = Returns (result, d1)"
    using assms(3) by (auto simp: handle_request_def exec_bind_Returns)
  note same = request_same_subs [OF a]
  obtain wr w where ww: "write_server (Response req_id result) (se_writer se) = (wr, w)" by (metis surj_pair)
  let ?se' = "se\<lparr>se_writer := w, se_pump_interval_ms := new_pump_interval op (se_pump_interval_ms se)\<rparr>"
  let ?d2 = "d1\<lparr>dm_sessions := AList.update k ?se' (dm_sessions d1)\<rparr>"
  have q: "queues_bounded (dm_clients d1)" using assms(1) same by (simp add: daemon_inv_def same_subs_def)
  have "dm_sched d' = dm_sched ?d2 \<and> dm_sessions d' = dm_sessions ?d2 \<and> dm_live d' = dm_live ?d2
      \<and> queues_bounded (dm_clients d')"
    using assms(3) a ww q by (auto simp: handle_request_def exec_bind_Returns Let_def broadcast_bound split: if_splits)
  with same show ?thesis
    by (intro inv_writer [OF assms(1,2), of ?se']) (auto simp: same_subs_def)
qed

lemma inv_client_msg:
  assumes "daemon_inv d" and "map_of (dm_sessions d) k = Some se" and "se_releasing se = []"
    and "handle_client_msg sv k msg se d = Returns (r, d')" and "\<nexists>sensors. msg = Unsubscribe sensors"
  shows "daemon_inv d'"
proof (cases msg)
  case (Subscribe sensors rate)
  with assms(4) obtain r' where "on_subscribe k sensors rate se d = Returns (r', d')"
    by (auto simp: handle_client_msg_def exec_bind_Returns)
  then show ?thesis by (rule inv_subscribe [OF assms(1-3)])
next
  case (Request req_id op)
  with assms(4) obtain r' where "handle_request sv k req_id op se d = Returns (r', d')"
    by (auto simp: handle_client_msg_def exec_bind_Returns)
  then show ?thesis by (rule inv_request [OF assms(1,2)])
next
  case (Hello v n t)
  obtain wr w where ww: "write_server (Bye ''duplicate Hello'') (se_writer se) = (wr, w)" by (metis surj_pair)
  with assms(4) Hello have "d' = d\<lparr>dm_sessions := AList.update k (se\<lparr>se_writer := w\<rparr>) (dm_sessions d)\<rparr>"
    by (simp add: handle_client_msg_def)
  with assms(1) show ?thesis
    by (intro inv_writer [OF assms(1,2), of "se\<lparr>se_writer := w\<rparr>"]) (auto simp: daemon_inv_def)
next
  case ListSensors
  with assms(4) obtain infos where i: "build_sensor_info_list (dm_sched d) (dm_registry d) = Returns infos"
    by (auto simp: handle_client_msg_def exec_bind_Returns)
  obtain wr w where "write_server (SensorList infos) (se_writer se) = (wr, w)" by (metis surj_pair)
  with assms(4) ListSensors i have "d' = d\<lparr>dm_sessions := AList.update k (se\<lparr>se_writer := w\<rparr>) (dm_sessions d)\<rparr>"
    by (simp add: handle_client_msg_def)
  with assms(1) show ?thesis
    by (intro inv_writer [OF assms(1,2), of "se\<lparr>se_writer := w\<rparr>"]) (auto simp: daemon_inv_def)
qed (use assms in \<open>auto simp: handle_client_msg_def\<close>)

lemma inv_unsubscribe_take:
  assumes "daemon_inv d" and "map_of (dm_sessions d) k = Some se" and "se_releasing se = []"
  shows "daemon_inv (unsubscribe_take k sensors se d)"
proof -
  obtain rm rest where t: "take_tokens sensors (se_ledger se) = (rm, rest)" by (metis surj_pair)
  let ?se' = "se\<lparr>se_ledger := rest, se_releasing := rm\<rparr>"
  note ts = take_tokens_spec [OF t]
  have ok: "session_ok se" by (rule session_okD [OF assms(1,2)])
  have m: "mset (tokens ?se') = mset (tokens se)"
    using conjunct2 [OF ts] assms(3) by (simp add: tokens_def del: mset_map)
  then have "distinct (tokens ?se')" using ok by (metis mset_eq_imp_distinct_iff session_ok_def)
  moreover have "ledger_ok rest" using ts ok ledger_ok_filter by (auto simp: session_ok_def)
  ultimately have "session_ok ?se'" by (simp add: session_ok_def)
  moreover have "count_list (tokens ?se') s = count_list (tokens se) s" for s using m by (metis count_mset)
  ultimately show ?thesis
    using assms(1)
    by (intro daemon_inv_session [OF assms(1,2), of ?se' "dm_sched d" "dm_clients d"])
       (simp_all add: unsubscribe_take_def t daemon_inv_def)
qed

lemma inv_release:
  assumes "daemon_inv d" and "map_of (dm_sessions d) k = Some se"
  shows "daemon_inv (release_tokens k se d)"
proof -
  let ?se' = "se\<lparr>se_releasing := []\<rparr>" and ?sch = "fold unsubscribe (se_releasing se) (dm_sched d)"
  have ok: "session_ok se" by (rule session_okD [OF assms])
  have wf: "wf_entries (sch_entries (dm_sched d))" using assms(1) by (simp add: daemon_inv_def)
  have e: "sch_entries ?sch = fold drop_subscription (se_releasing se) (sch_entries (dm_sched d))"
    using fold_unsubscribe by blast
  have le: "count_list (tokens se) s \<le> sub_count (sch_entries (dm_sched d)) s" for s
    using held_update [OF assms(2), of "se\<lparr>se_ledger := [], se_releasing := []\<rparr>" s] assms(1)
    by (simp add: tokens_def daemon_inv_def)
  have c: "sub_count (sch_entries ?sch) s + count_list (tokens se) s =
      sub_count (sch_entries (dm_sched d)) s + count_list (tokens ?se') s" for s
    unfolding e subs.fold_release(2) [OF wf] using le [of s] by (simp add: tokens_def)
  have "wf_entries (sch_entries ?sch)" unfolding e by (rule subs.fold_release(1) [OF wf])
  moreover have "session_ok ?se'" using ok by (simp add: session_ok_def tokens_def)
  ultimately show ?thesis
    using assms(1) c
    by (intro daemon_inv_session [OF assms, of ?se' ?sch "dm_clients d"]) (simp_all add: release_tokens_def daemon_inv_def)
qed

lemma inv_pump:
  assumes "daemon_inv d"
  shows "daemon_inv (pump_tick k d)"
proof (cases "\<exists>se sink. map_of (dm_sessions d) k = Some se \<and> map_of (dm_clients d) (se_client_id se) = Some sink \<and> sk_receiver sink")
  case True
  then obtain se sink where se: "map_of (dm_sessions d) k = Some se"
    and sk: "map_of (dm_clients d) (se_client_id se) = Some sink" "sk_receiver sink" by blast
  obtain ok q w where p: "pump_drain PUMP_DRAIN_CAP (sk_queue sink) (se_writer se) = (ok, q, w)" by (metis surj_pair)
  have b: "queues_bounded (dm_clients d)" using assms by (simp add: daemon_inv_def)
  then have "length (sk_queue sink) \<le> OUTBOUND_QUEUE_CAP" using map_of_SomeD [OF sk(1)] by (auto simp: list_all_iff)
  then have "length q \<le> OUTBOUND_QUEUE_CAP" using pump_drain_bound [OF p] by simp
  with b have "queues_bounded (AList.update (se_client_id se) (sink\<lparr>sk_queue := q, sk_receiver := ok\<rparr>) (dm_clients d))"
    by (intro list_all_update) simp_all
  with se sk p show ?thesis
    by (intro inv_writer [OF assms se, of "se\<lparr>se_writer := w\<rparr>"]) (simp_all add: pump_tick_def)
next
  case False
  then have "pump_tick k d = d" by (auto simp: pump_tick_def split: option.split)
  with assms show ?thesis by simp
qed

lemma inv_step:
  assumes "daemon_step d d'" and "daemon_inv d"
  shows "daemon_inv d'"
  using assms
proof (cases rule: daemon_step.cases)
  case (accept daemon_uid uid spawn_ok a live)
  then have "dm_live d \<le> live \<and> live \<le> max (dm_live d) MAX_CLIENT_SESSIONS"
    by (auto simp: accept_conn_def split: if_splits)
  with accept(1) assms(2) show ?thesis by (auto simp: daemon_inv_def)
next
  case (greet k auth_token daemon_version first w w')
  let ?se = "\<lparr>se_client_id = dm_next_client_id d, se_ledger = [], se_releasing = [], se_writer = w',
       se_pump_interval_ms = ucast PUMP_INTERVAL_DEFAULT_MS\<rparr>"
  have "tokens ?se = []" "session_ok ?se" by (simp_all add: tokens_def session_ok_def ledger_ok_def)
  with greet assms(2) show ?thesis
    by (auto simp: register_session_def daemon_inv_def distinct_update list_all_update length_update_new held_new fun_eq_iff)
next
  case (client_msg k se msg sv r)
  show ?thesis by (rule inv_client_msg [OF assms(2) client_msg(1,2,4,3)])
next
  case (unsubscribe k se sensors)
  with assms(2) show ?thesis by (simp add: inv_unsubscribe_take)
next
  case (release k se)
  with assms(2) show ?thesis by (simp add: inv_release)
next
  case (plan now plan)
  then have d': "d' = d\<lparr>dm_sched := snd (tick_plan now (dm_sched d))\<rparr>"
    by (auto simp: sampler_plan_def split: prod.splits)
  have "wf_entries (sch_entries (dm_sched d))" using assms(2) by (simp add: daemon_inv_def)
  from wf_tick_plan [OF this, of now] assms(2) show ?thesis by (simp add: d' daemon_inv_def)
next
  case (commit E timing results now samples jobs)
  then obtain sch w where t: "tick_commit E timing results now (dm_sched d, dm_world d) = Returns (samples, jobs, sch, w)"
    and d': "d' = fan_out samples (d\<lparr>dm_sched := sch, dm_world := w\<rparr>)"
    by (auto simp: sampler_commit_def exec_bind_Returns)
  have wf: "wf_entries (sch_entries (dm_sched d))" using assms(2) by (simp add: daemon_inv_def)
  have "sch_entries sch = commit_entries now results (sch_entries (dm_sched d))"
    using tick_commit_spec [of E timing results now "dm_sched d" "dm_world d"] t by auto
  with wf_commit_entries [OF wf, of now results] assms(2) show ?thesis
    using fan_out_bound [of "d\<lparr>dm_sched := sch, dm_world := w\<rparr>" samples]
    by (simp add: d' daemon_inv_def fan_out_other)
next
  case (drain k se)
  let ?se' = "se\<lparr>se_ledger := [], se_releasing := map snd (se_ledger se)\<rparr>"
  have t: "tokens ?se' = tokens se" using drain by (simp add: tokens_def)
  have "session_ok ?se'"
    using session_okD [OF assms(2) drain(2)] t by (simp add: session_ok_def ledger_ok_def)
  with drain assms(2) t show ?thesis
    by (intro daemon_inv_session [OF assms(2) drain(2), of ?se' "dm_sched d" "AList.delete (se_client_id se) (dm_clients d)"])
       (simp_all add: session_drain_def daemon_inv_def list_all_delete)
next
  case (finish k se)
  have d: "distinct (map fst (dm_sessions d))" using assms(2) by (simp add: daemon_inv_def)
  have "held (AList.delete k (dm_sessions d)) = held (dm_sessions d)"
    using held_delete [OF d finish(2)] finish by (simp add: tokens_def fun_eq_iff)
  moreover have "Suc (length (AList.delete k (dm_sessions d))) = length (dm_sessions d)"
    using length_delete_known [OF d] finish(2) by simp
  ultimately show ?thesis using finish assms(2)
    by (auto simp: session_end_def daemon_inv_def distinct_delete list_all_delete)
next
  case (pump k)
  with assms(2) show ?thesis by (simp add: inv_pump)
next
  case refuse
  with assms(2) show ?thesis by (auto simp: daemon_inv_def)
qed

lemma inv_reach: "daemon_reach d \<Longrightarrow> daemon_inv d"
proof (induction rule: daemon_reach.induct)
  case (start d)
  then show ?case
    by (simp add: daemon_inv_def wf_entries_def held_def sub_count_def fun_eq_iff)
next
  case (step d d')
  then show ?case using inv_step by blast
qed


lemma held_eq:
  assumes "list_all (\<lambda>(_, se). session_ok se) sessions"
  shows "held sessions s = length (filter (\<lambda>(_, se). s \<in> set (tokens se)) sessions)"
  using assms
proof (induction sessions)
  case (Cons x sessions)
  have "count_list (tokens (snd x)) s = (if s \<in> set (tokens (snd x)) then 1 else 0)"
    using Cons.prems by (intro count_list_distinct) (auto simp: session_ok_def)
  with Cons show ?case by (auto simp: held_def)
qed (simp add: held_def)

lemma scheduled_iff_counted:
  assumes "wf_entries es"
  shows "hm_contains es i \<longleftrightarrow> (\<exists>s. sub_sensor s = i \<and> 0 < sub_count es s)"
proof
  assume "hm_contains es i"
  then obtain e where e: "map_of es i = Some e" by (auto simp: hm_contains_def)
  note w = wf_entry_countsD [OF wf_entriesD [OF assms e]]
  obtain p where "p \<in> fst ` set (en_period_counts e)" using w(3) by (cases "en_period_counts e") auto
  then have "0 < sub_count es \<lparr>sub_sensor = i, sub_period_micros = p\<rparr>"
    using w(1) [of p] by (simp add: sub_count_def e)
  then show "\<exists>s. sub_sensor s = i \<and> 0 < sub_count es s"
    by (intro exI [of _ "\<lparr>sub_sensor = i, sub_period_micros = p\<rparr>"]) simp
next
  assume "\<exists>s. sub_sensor s = i \<and> 0 < sub_count es s"
  then show "hm_contains es i" by (auto simp: hm_contains_def sub_count_def split: option.splits)
qed

lemma daemon_inv_counts:
  assumes "daemon_inv d"
  shows "sub_count (sch_entries (dm_sched d)) s = length (filter (\<lambda>(_, se). s \<in> set (tokens se)) (dm_sessions d))"
    and "hm_contains (sch_entries (dm_sched d)) i \<longleftrightarrow>
      (\<exists>(_, se) \<in> set (dm_sessions d). i \<in> sub_sensor ` set (tokens se))"
proof -
  show c: "sub_count (sch_entries (dm_sched d)) s = length (filter (\<lambda>(_, se). s \<in> set (tokens se)) (dm_sessions d))" for s
    using assms held_eq by (simp add: daemon_inv_def)
  have wf: "wf_entries (sch_entries (dm_sched d))" using assms by (simp add: daemon_inv_def)
  have "0 < sub_count (sch_entries (dm_sched d)) s \<longleftrightarrow> (\<exists>(_, se) \<in> set (dm_sessions d). s \<in> set (tokens se))" for s
    unfolding c by (auto simp: filter_empty_conv)
  then show "hm_contains (sch_entries (dm_sched d)) i \<longleftrightarrow>
      (\<exists>(_, se) \<in> set (dm_sessions d). i \<in> sub_sensor ` set (tokens se))"
    unfolding scheduled_iff_counted [OF wf] by (auto simp: case_prod_beta)
qed

section \<open>The fan-out\<close>

lemma send_samples_spec:
  "send_samples ss sink =
     (if ss = [] then (False, sink)
      else if \<not> sk_receiver sink then (True, sink)
      else (False, sink\<lparr>sk_queue := sk_queue sink @ take (OUTBOUND_QUEUE_CAP - length (sk_queue sink)) (map OutSample ss)\<rparr>))"
proof (induction ss arbitrary: sink)
  case (Cons s ss)
  show ?case
  proof (cases "sk_receiver sink")
    case True
    show ?thesis
    proof (cases "OUTBOUND_QUEUE_CAP \<le> length (sk_queue sink)")
      case True
      with \<open>sk_receiver sink\<close> Cons [of sink] show ?thesis by (simp add: try_send_def)
    next
      case False
      then have "OUTBOUND_QUEUE_CAP - length (sk_queue sink) = Suc (OUTBOUND_QUEUE_CAP - Suc (length (sk_queue sink)))" by simp
      with False \<open>sk_receiver sink\<close> Cons [of "sink\<lparr>sk_queue := sk_queue sink @ [OutSample s]\<rparr>"] show ?thesis
        by (simp add: try_send_def)
    qed
  qed (simp add: try_send_def)
qed simp

lemma map_of_surviving:
  assumes "distinct (map fst m)" and "map_of m c = Some x"
  shows "map_of (map (\<lambda>(i, (_, y)). (i, y)) (filter (\<lambda>(_, (gone, _)). \<not> gone) (map (\<lambda>(i, z). (i, f z)) m))) c =
     (if fst (f x) then None else Some (snd (f x)))"
  using assms
proof (induction m)
  case (Cons a m)
  have n: "map_of (map (\<lambda>(i, (_, y)). (i, y)) (filter (\<lambda>(_, (gone, _)). \<not> gone) (map (\<lambda>(i, z). (i, f z)) m))) c = None"
    if "c \<notin> fst ` set m"
    using that by (auto simp: map_of_eq_None_iff image_iff)
  obtain k v where a: "a = (k, v)" by (cases a)
  obtain g y where f: "f v = (g, y)" by (cases "f v")
  show ?case
  proof (cases "k = c")
    case True
    with Cons.prems a have "c \<notin> fst ` set m" "x = v" by auto
    with n True a f show ?thesis by simp
  next
    case False
    with Cons a f show ?thesis by simp
  qed
qed simp

section \<open>The pump\<close>

lemma pump_drain_reliable:
  assumes "\<And>sent m. mw_fail w sent m = None"
  shows "pump_drain n q w = (True, drop n q, w\<lparr>mw_sent := mw_sent w @ map to_server (take n q)\<rparr>)"
  using assms
proof (induction n q w rule: pump_drain.induct)
  case (3 n m q w)
  let ?w = "w\<lparr>mw_sent := mw_sent w @ [to_server m]\<rparr>"
  have "write_server (to_server m) w = (Ok (), ?w)" using 3(2) by (simp add: write_server_def)
  with 3(1) [OF this [symmetric] refl] 3(2) show ?case by simp
qed simp_all

lemma pump_tick_reliable:
  assumes "map_of (dm_sessions d) k = Some se" and "map_of (dm_clients d) (se_client_id se) = Some sink"
    and "sk_receiver sink" and "\<And>sent m. mw_fail (se_writer se) sent m = None"
  shows "pump_tick k d =
    d\<lparr>dm_clients := AList.update (se_client_id se) (sink\<lparr>sk_queue := drop PUMP_DRAIN_CAP (sk_queue sink), sk_receiver := True\<rparr>) (dm_clients d),
      dm_sessions := AList.update k (se\<lparr>se_writer := (se_writer se)\<lparr>mw_sent := mw_sent (se_writer se)
        @ map to_server (take PUMP_DRAIN_CAP (sk_queue sink))\<rparr>\<rparr>) (dm_sessions d)\<rparr>"
  using assms(1-3) pump_drain_reliable [OF assms(4), of PUMP_DRAIN_CAP "sk_queue sink"] by (simp add: pump_tick_def)

section \<open>Requests are answered\<close>

lemma plugin_id_for_returns: "wf_host h \<Longrightarrow> \<exists>p. plugin_id_for h i = Returns p"
  by (auto simp: plugin_id_for_def wf_host_def split: option.splits)

lemma build_sensor_info_returns:
  "wf_host (sch_host sch) \<Longrightarrow> \<exists>info. build_sensor_info x sch reg = Returns info"
  using plugin_id_for_returns [of "sch_host sch" "d_id x"] by (auto simp: build_sensor_info_def Let_def)

lemma exec_map_returns: "(\<And>x. \<exists>y. f x = Returns y) \<Longrightarrow> \<exists>ys. exec_map f xs = Returns ys"
proof (induction xs)
  case (Cons x xs)
  from Cons.prems obtain y where "f x = Returns y" by blast
  with Cons show ?case by auto
qed simp

lemma build_sensor_info_list_returns:
  "wf_host (sch_host sch) \<Longrightarrow> \<exists>infos. build_sensor_info_list sch reg = Returns infos"
  unfolding build_sensor_info_list_def by (rule exec_map_returns) (rule build_sensor_info_returns)

lemma test_context_returns:
  "wf_host (sch_host (snd st)) \<Longrightarrow> \<exists>ctx sch. test_context sv xs st = Returns (ctx, sch) \<and> wf_host (sch_host sch)"
proof (induction sv xs st rule: test_context.induct)
  case (1 sv st)
  then show ?case by (cases st) simp
next
  case (2 sv x xs st)
  obtain r h where s: "sample_to (sv_plugin sv) (d_id x) (sv_now sv) (sch_host (snd st)) = Returns (r, h)" and h: "wf_host h"
    using sample_to_total [OF 2(2)] by blast
  show ?case using 2(1) s h by (simp add: sample_now_def)
qed

text \<open>
  Two requests can panic: in the parser of a duration and, for an address with a NUL, when the
  environment variable is set. Every other request is sound.
\<close>

fun sound_request :: "('p, 'c) services \<Rightarrow> RequestOp \<Rightarrow> ('p, 'l, 'c) Daemon \<Rightarrow> bool" where
  "sound_request sv (UpsertAlert _ _ for_d cooldown _ _) d \<longleftrightarrow>
     opt_parse_duration for_d \<noteq> Panics \<and> opt_parse_duration cooldown \<noteq> Panics"
| "sound_request sv (SetDaemonSettings _ _ _ prom_bind) d \<longleftrightarrow>
     alerts_load (sv_evalexpr sv) (sv_from_toml sv) (sv_alerts_path sv) (dm_files d) \<noteq> Panics
     \<and> (\<forall>bind. prom_bind = Some bind \<longrightarrow> CHR 0x00 \<notin> set bind)"
| "sound_request sv _ d \<longleftrightarrow> True"

lemma upsert_rule_returns:
  "opt_parse_duration for_d \<noteq> Panics \<Longrightarrow> opt_parse_duration cooldown \<noteq> Panics \<Longrightarrow>
     \<exists>r eng'. upsert_rule name expr for_d cooldown notify enabled eng = Returns (r, eng')"
  by (cases "opt_parse_duration for_d"; cases "opt_parse_duration cooldown")
     (auto simp: upsert_rule_def split: result.split)

lemma toggle_alerts_returns:
  "alerts_load E from_toml path m \<noteq> Panics \<Longrightarrow> \<exists>r sch'. toggle_alerts E from_toml m path enable sch = Returns (r, sch')"
  by (cases "alerts_load E from_toml path m") (auto simp: toggle_alerts_def Let_def split: result.split)

lemma set_engine_host: "sch_host (dm_sched (set_engine eng d)) = sch_host (dm_sched d)"
  and save_engine_host: "sch_host (dm_sched (save_engine sv path eng d)) = sch_host (dm_sched d)"
  by (simp_all add: set_engine_def save_engine_def)

lemma set_settings_returns:
  assumes "alerts_load (sv_evalexpr sv) (sv_from_toml sv) (sv_alerts_path sv) (dm_files d) \<noteq> Panics"
    and "\<forall>bind. prom_bind = Some bind \<longrightarrow> CHR 0x00 \<notin> set bind"
  shows "\<exists>result d'. req_set_daemon_settings sv history alerts prom prom_bind d = Returns (result, d')
    \<and> sch_host (dm_sched d') = sch_host (dm_sched d)"
proof -
  obtain e1 d1 where h: "apply_history_toggle sv history d = (e1, d1)" by (metis surj_pair)
  have d1: "dm_files d1 = dm_files d" "sch_host (dm_sched d1) = sch_host (dm_sched d)"
    using h by (auto simp: apply_history_toggle_def dest: toggle_history_entries split: option.splits prod.splits)
  have "\<exists>e2 d2. apply_alerts_toggle sv alerts d1 = Returns (e2, d2) \<and> sch_host (dm_sched d2) = sch_host (dm_sched d1)"
  proof (cases alerts)
    case (Some v)
    obtain r sch' where "toggle_alerts (sv_evalexpr sv) (sv_from_toml sv) (dm_files d1) (sv_alerts_path sv) v (dm_sched d1) = Returns (r, sch')"
      using toggle_alerts_returns [OF assms(1)] d1(1) by metis
    with toggle_alerts_entries [OF this] Some show ?thesis by (simp add: apply_alerts_toggle_def)
  qed (simp add: apply_alerts_toggle_def)
  then obtain e2 d2 where a: "apply_alerts_toggle sv alerts d1 = Returns (e2, d2)" "sch_host (dm_sched d2) = sch_host (dm_sched d1)"
    by blast
  moreover obtain d3 where "set_prom_bind prom_bind d2 = Returns d3" "sch_host (dm_sched d3) = sch_host (dm_sched d2)"
    using assms(2) by (cases prom_bind; cases "trim (the prom_bind) = []") (auto simp: set_prom_bind_def)
  ultimately show ?thesis using h d1 by (simp add: req_set_daemon_settings_def daemon_settings_def Let_def)
qed

lemma request_answer_returns:
  assumes "wf_host (sch_host (dm_sched d))" and "sound_request sv op d"
  shows "\<exists>result d'. request_answer sv op d = Returns (result, d') \<and> wf_host (sch_host (dm_sched d'))"
proof (cases op)
  case (GetSensorInfo sensor)
  have "\<exists>result. req_get_sensor_info sensor d = Returns (result, d)"
  proof (cases "SensorId_try_new sensor")
    case (Ok i)
    show ?thesis
    proof (cases "find (\<lambda>x. d_id x = i) (host_descriptors (sch_host (dm_sched d)))")
      case (Some x)
      obtain info where "build_sensor_info x (dm_sched d) (dm_registry d) = Returns info"
        using build_sensor_info_returns [OF assms(1)] by blast
      with Ok Some show ?thesis by (simp add: req_get_sensor_info_def)
    qed (use Ok in \<open>simp add: req_get_sensor_info_def\<close>)
  qed (simp add: req_get_sensor_info_def)
  with GetSensorInfo assms(1) show ?thesis by auto
next
  case (UpsertAlert name expr for_d cooldown notify enabled)
  obtain r eng' where u: "upsert_rule name expr for_d cooldown notify enabled (the (sch_alerts (dm_sched d))) = Returns (r, eng')"
    using upsert_rule_returns [of for_d cooldown name expr notify enabled "the (sch_alerts (dm_sched d))"]
      assms(2) UpsertAlert by auto
  show ?thesis
  proof (cases "sch_alerts (dm_sched d) = None \<or> sch_alerts_config_path (dm_sched d) = None")
    case False
    with u UpsertAlert assms(1) show ?thesis
      by (cases r) (auto simp: req_upsert_alert_def set_engine_host save_engine_host)
  qed (use UpsertAlert assms(1) in \<open>auto simp: req_upsert_alert_def split: option.split\<close>)
next
  case (TestAlertExpr expr)
  obtain ctx sch where "test_context sv (host_descriptors (sch_host (dm_sched d))) (ex_new (sv_evalexpr sv), dm_sched d) = Returns (ctx, sch)"
    and "wf_host (sch_host sch)"
    using test_context_returns [of "(ex_new (sv_evalexpr sv), dm_sched d)" sv "host_descriptors (sch_host (dm_sched d))"]
      assms(1) by auto
  with TestAlertExpr show ?thesis by (simp add: req_test_alert_expr_def)
next
  case (SetDaemonSettings history alerts prom prom_bind)
  then show ?thesis using set_settings_returns [of sv d prom_bind history alerts prom] assms by auto
qed (use assms(1) in \<open>auto simp: req_get_hardware_def req_list_alerts_def req_list_alert_events_def
    req_get_daemon_settings_def req_delete_alert_def set_engine_host save_engine_host req_set_nickname_def
    req_get_history_def Let_def daemon_settings_def delete_rule_def
    split: prod.split option.split result.split bool.split\<close>)

section \<open>Properties\<close>

text \<open>
  C3: Whatever the clients, the sampler and the pumps do and however their steps interleave,
  the scheduler's reference count of every subscription is the number of sessions that hold it
  (or are about to give it back): duplicate subscribes are not counted twice, tokens are given
  back exactly once, and a sensor is scheduled exactly while some session holds it. There are
  never more than 64 live sessions and 1024 queued messages per client.
\<close>

theorem subscriptions_balanced:
  assumes "daemon_reach d"
  shows "(\<forall>s. sub_count (sch_entries (dm_sched d)) s = length (filter (\<lambda>(_, se). s \<in> set (tokens se)) (dm_sessions d)))
    \<and> (\<forall>i. hm_contains (sch_entries (dm_sched d)) i \<longleftrightarrow>
         (\<exists>(_, se) \<in> set (dm_sessions d). i \<in> sub_sensor ` set (tokens se)))
    \<and> length (dm_sessions d) \<le> dm_live d \<and> dm_live d \<le> MAX_CLIENT_SESSIONS
    \<and> (\<forall>(_, sink) \<in> set (dm_clients d). length (sk_queue sink) \<le> OUTBOUND_QUEUE_CAP)"
proof -
  have inv: "daemon_inv d" by (rule inv_reach [OF assms])
  from daemon_inv_counts [OF inv] inv show ?thesis by (auto simp: daemon_inv_def list_all_iff)
qed


definition quiet_writer :: msg_writer where
  "quiet_writer = \<lparr>mw_sent = [], mw_fail = (\<lambda>_ _. None)\<rparr>"

definition demo_daemon :: "(unit, unit, unit) Daemon" where
  "demo_daemon =
     \<lparr>dm_sched = Scheduler_new demo_host, dm_registry = registry_build (devices_by_plugin demo_host) [],
      dm_clients = [], dm_sessions = [], dm_live = 0, dm_next_client_id = 0,
      dm_world = \<lparr>aw_channels = [], aw_webhooks = 0, aw_posts = []\<rparr>, dm_files = (\<lambda>_. None),
      dm_tmp_counter = 0, dm_prom_bind = None\<rparr>"

lemma demo_daemon_subscribed:
  obtains d :: "(unit, unit, unit) Daemon" where "daemon_reach d" and "map fst (dm_sessions d) = [0]"
    and "hm_contains (sch_entries (dm_sched d)) ''xe.gpu0.util''"
proof -
  have r0: "daemon_reach demo_daemon" by (rule daemon_reach.start) (simp_all add: demo_daemon_def Scheduler_new_def)
  have r1: "daemon_reach (demo_daemon\<lparr>dm_live := 1\<rparr>)"
    by (rule daemon_reach.step [OF r0 daemon_step.accept [of 0 "Some 0" True]])
       (simp add: accept_conn_def demo_daemon_def MAX_CLIENT_SESSIONS_def)
  let ?w = "quiet_writer\<lparr>mw_sent := [Welcome PROTOCOL_VERSION [] (welcome_plugins (dm_sched demo_daemon))]\<rparr>"
  have h: "handshake None [] (Hello PROTOCOL_VERSION [] None) (dm_sched (demo_daemon\<lparr>dm_live := 1\<rparr>)) quiet_writer = (Ok True, ?w)"
    by (simp add: handshake_def verify_hello_def write_server_def quiet_writer_def)
  let ?d2 = "register_session 0 ?w (demo_daemon\<lparr>dm_live := 1\<rparr>)"
  have r2: "daemon_reach ?d2"
    by (rule daemon_reach.step [OF r1 daemon_step.greet [OF _ _ h]]) (simp_all add: demo_daemon_def)
  let ?se = "\<lparr>se_client_id = 0, se_ledger = [], se_releasing = [], se_writer = ?w, se_pump_interval_ms = ucast PUMP_INTERVAL_DEFAULT_MS\<rparr>"
  have se: "map_of (dm_sessions ?d2) 0 = Some ?se"
    by (simp add: register_session_def demo_daemon_def)
  obtain sch :: "(unit, unit, unit) Scheduler" where s: "subscribe ''xe.gpu0.util'' None (Scheduler_new demo_host) = Returns (Ok demo_sub, sch)"
    using demo_sched_subscribe by blast
  let ?se3 = "?se\<lparr>se_ledger := [((''xe.gpu0.util'', 500000), demo_sub)]\<rparr>"
  let ?d3 = "?d2\<lparr>dm_sched := sch, dm_sessions := AList.update 0 ?se3 (dm_sessions ?d2)\<rparr>"
  have p: "sub_period_micros demo_sub = 500000" by (simp add: demo_sub_def)
  have "dm_sched ?d2 = Scheduler_new demo_host" by (simp add: register_session_def demo_daemon_def)
  then have "on_subscribe 0 [''xe.gpu0.util''] None ?se ?d2 = Returns (Ok (), ?d3)"
    using s by (simp add: on_subscribe_def hm_contains_def p)
  then have m: "handle_client_msg sv 0 (Subscribe [''xe.gpu0.util''] None) ?se ?d2 = Returns (Continue, ?d3)" for sv
    by (simp add: handle_client_msg_def continue_on_ok_def)
  have r3: "daemon_reach ?d3"
    by (rule daemon_reach.step [OF r2 daemon_step.client_msg [OF se _ _ m]]) simp_all
  have f: "map fst (dm_sessions ?d3) = [0]" by (simp add: register_session_def demo_daemon_def)
  obtain e where "map_of (sch_entries sch) ''xe.gpu0.util'' = Some e" using subscribe_due [OF s] by blast
  then have "hm_contains (sch_entries (dm_sched ?d3)) ''xe.gpu0.util''" by (simp add: hm_contains_def)
  with r3 f show ?thesis by (rule that)
qed

theorem subscriptions_balanced_witness:
  "\<exists>d :: (unit, unit, unit) Daemon. daemon_reach d \<and> hm_contains (sch_entries (dm_sched d)) ''xe.gpu0.util''
     \<and> (\<exists>(_, se) \<in> set (dm_sessions d). ''xe.gpu0.util'' \<in> sub_sensor ` set (tokens se))"
proof -
  obtain d :: "(unit, unit, unit) Daemon" where d: "daemon_reach d"
    and h: "hm_contains (sch_entries (dm_sched d)) ''xe.gpu0.util''" by (rule demo_daemon_subscribed)
  from subscriptions_balanced [OF d] h
  have "\<exists>(_, se) \<in> set (dm_sessions d). ''xe.gpu0.util'' \<in> sub_sensor ` set (tokens se)" by blast
  with d h show ?thesis by blast
qed

text \<open>
  C8: The fan-out of a tick: every connected client whose pump is alive gets, appended to its
  queue in order, exactly the samples of the sensors in its ledger, as many as fit into the
  queue (the rest is dropped, not the client); a client whose pump is gone is removed as soon as
  a sample is due to it, and no other client is affected.
\<close>

theorem fan_out_exact:
  assumes "distinct (map fst (dm_clients d))" and "map_of (dm_clients d) c = Some sink"
  shows "map_of (dm_clients (fan_out samples d)) c =
     (let mine = filter (\<lambda>s. sample_sensor s \<in> (\<lambda>x. fst (fst x)) ` set (ledger_of d (sk_session sink))) samples
      in if mine = [] then Some sink
         else if \<not> sk_receiver sink then None
         else Some (sink\<lparr>sk_queue := sk_queue sink @ take (OUTBOUND_QUEUE_CAP - length (sk_queue sink)) (map OutSample mine)\<rparr>))"
proof -
  let ?L = "ledger_of d (sk_session sink)"
  let ?mine = "filter (\<lambda>s. sample_sensor s \<in> (\<lambda>x. fst (fst x)) ` set ?L) samples"
  have i: "interested ?L samples = ?mine"
    unfolding interested_def by (rule filter_cong) (auto simp: list_ex_iff, force+)
  show ?thesis
  proof (cases "samples = []")
    case True
    with assms(2) show ?thesis by (simp add: fan_out_def)
  next
    case False
    let ?f = "\<lambda>sink. send_samples (interested (ledger_of d (sk_session sink)) samples) sink"
    have "map_of (dm_clients (fan_out samples d)) c = (if fst (?f sink) then None else Some (snd (?f sink)))"
      using False map_of_surviving [OF assms, of ?f] by (simp add: fan_out_def Let_def)
    then show ?thesis unfolding i send_samples_spec Let_def by simp
  qed
qed

theorem fan_out_exact_witness:
  "\<exists>d :: (unit, unit, unit) Daemon.
     map_of (dm_clients (fan_out
       [\<lparr>sample_sensor = ''cpu.util'', sample_ts_micros = 1, sample_reading = Counter 3\<rparr>,
        \<lparr>sample_sensor = ''mem.used'', sample_ts_micros = 1, sample_reading = Counter 4\<rparr>] d)) 7 =
     Some \<lparr>sk_queue = [OutSample \<lparr>sample_sensor = ''mem.used'', sample_ts_micros = 1, sample_reading = Counter 4\<rparr>],
           sk_receiver = True, sk_session = 2\<rparr>"
proof -
  let ?d = "demo_daemon\<lparr>dm_clients := [(7, \<lparr>sk_queue = [], sk_receiver = True, sk_session = 2\<rparr>)],
    dm_sessions := [(2, \<lparr>se_client_id = 7, se_ledger = [((''mem.used'', 5), \<lparr>sub_sensor = ''mem.used'', sub_period_micros = 5\<rparr>)],
      se_releasing = [], se_writer = quiet_writer, se_pump_interval_ms = 50\<rparr>)]\<rparr>"
  show ?thesis
    using fan_out_exact [of ?d 7 "\<lparr>sk_queue = [], sk_receiver = True, sk_session = 2\<rparr>"
      "[\<lparr>sample_sensor = ''cpu.util'', sample_ts_micros = 1, sample_reading = Counter 3\<rparr>,
        \<lparr>sample_sensor = ''mem.used'', sample_ts_micros = 1, sample_reading = Counter 4\<rparr>]"]
    by (intro exI [of _ ?d]) (simp add: ledger_of_def OUTBOUND_QUEUE_CAP_def)
qed

text \<open>
  C14: Queued messages are delivered: on a connection that does not fail, \<open>n\<close> ticks of a client's pump
  have written the first \<open>256 * n\<close> messages of its queue, in order and each once, and left the
  rest queued; so a queue, which holds at most 1024, is empty after four ticks.
\<close>

theorem pump_delivers:
  assumes "map_of (dm_sessions d) k = Some se" and "map_of (dm_clients d) (se_client_id se) = Some sink"
    and "sk_receiver sink" and "\<And>sent m. mw_fail (se_writer se) sent m = None"
  shows "\<exists>se' sink'. map_of (dm_sessions ((pump_tick k ^^ n) d)) k = Some se'
    \<and> map_of (dm_clients ((pump_tick k ^^ n) d)) (se_client_id se) = Some sink'
    \<and> mw_sent (se_writer se') = mw_sent (se_writer se) @ map to_server (take (PUMP_DRAIN_CAP * n) (sk_queue sink))
    \<and> sk_queue sink' = drop (PUMP_DRAIN_CAP * n) (sk_queue sink)
    \<and> (length (sk_queue sink) \<le> OUTBOUND_QUEUE_CAP \<and> 4 \<le> n \<longrightarrow> sk_queue sink' = [])"
proof -
  have "\<exists>se' sink'. map_of (dm_sessions ((pump_tick k ^^ n) d)) k = Some se'
    \<and> map_of (dm_clients ((pump_tick k ^^ n) d)) (se_client_id se) = Some sink'
    \<and> se_client_id se' = se_client_id se \<and> sk_receiver sink' \<and> mw_fail (se_writer se') = mw_fail (se_writer se)
    \<and> mw_sent (se_writer se') = mw_sent (se_writer se) @ map to_server (take (PUMP_DRAIN_CAP * n) (sk_queue sink))
    \<and> sk_queue sink' = drop (PUMP_DRAIN_CAP * n) (sk_queue sink)"
  proof (induction n)
    case (Suc n)
    then obtain se1 sink1 where
      s1: "map_of (dm_sessions ((pump_tick k ^^ n) d)) k = Some se1"
        "map_of (dm_clients ((pump_tick k ^^ n) d)) (se_client_id se) = Some sink1"
        "se_client_id se1 = se_client_id se" "sk_receiver sink1" "mw_fail (se_writer se1) = mw_fail (se_writer se)"
        "mw_sent (se_writer se1) = mw_sent (se_writer se) @ map to_server (take (PUMP_DRAIN_CAP * n) (sk_queue sink))"
        "sk_queue sink1 = drop (PUMP_DRAIN_CAP * n) (sk_queue sink)"
      by blast
    have step: "pump_tick k ((pump_tick k ^^ n) d) = ((pump_tick k ^^ n) d)
       \<lparr>dm_clients := AList.update (se_client_id se) (sink1\<lparr>sk_queue := drop PUMP_DRAIN_CAP (sk_queue sink1), sk_receiver := True\<rparr>)
          (dm_clients ((pump_tick k ^^ n) d)),
        dm_sessions := AList.update k (se1\<lparr>se_writer := (se_writer se1)\<lparr>mw_sent := mw_sent (se_writer se1)
          @ map to_server (take PUMP_DRAIN_CAP (sk_queue sink1))\<rparr>\<rparr>) (dm_sessions ((pump_tick k ^^ n) d))\<rparr>"
      using pump_tick_reliable [OF s1(1), of sink1] s1(2-5) assms(4) by simp
    have "take (PUMP_DRAIN_CAP * Suc n) xs = take (PUMP_DRAIN_CAP * n) xs @ take PUMP_DRAIN_CAP (drop (PUMP_DRAIN_CAP * n) xs)" for xs :: "OutboundMsg list"
      by (simp add: take_add [symmetric] add.commute)
    with s1 show ?case by (simp add: step update_conv' add.commute)
  qed (use assms(1-3) in simp)
  then show ?thesis by (fastforce simp: PUMP_DRAIN_CAP_def OUTBOUND_QUEUE_CAP_def)
qed

theorem pump_delivers_witness:
  "\<exists>(d :: (unit, unit, unit) Daemon) se' sink'.
     map_of (dm_sessions ((pump_tick 0 ^^ 4) d)) 0 = Some se' \<and> map_of (dm_clients ((pump_tick 0 ^^ 4) d)) 7 = Some sink'
     \<and> mw_sent (se_writer se') = replicate 300 (SensorListBroadcast []) \<and> sk_queue sink' = []"
proof -
  let ?sink = "\<lparr>sk_queue = replicate 300 (OutSensorListBroadcast []), sk_receiver = True, sk_session = 0\<rparr>"
  let ?se = "\<lparr>se_client_id = 7, se_ledger = [], se_releasing = [], se_writer = quiet_writer, se_pump_interval_ms = 50\<rparr>"
  let ?d = "demo_daemon\<lparr>dm_clients := [(7, ?sink)], dm_sessions := [(0, ?se)]\<rparr>"
  have "\<exists>se' sink'. map_of (dm_sessions ((pump_tick 0 ^^ 4) ?d)) 0 = Some se'
    \<and> map_of (dm_clients ((pump_tick 0 ^^ 4) ?d)) (se_client_id ?se) = Some sink'
    \<and> mw_sent (se_writer se') = mw_sent (se_writer ?se) @ map to_server (take (PUMP_DRAIN_CAP * 4) (sk_queue ?sink))
    \<and> sk_queue sink' = drop (PUMP_DRAIN_CAP * 4) (sk_queue ?sink)
    \<and> (length (sk_queue ?sink) \<le> OUTBOUND_QUEUE_CAP \<and> 4 \<le> (4 :: nat) \<longrightarrow> sk_queue sink' = [])"
    by (rule pump_delivers) (simp_all add: quiet_writer_def)
  then show ?thesis
    by (intro exI [of _ ?d]) (simp add: quiet_writer_def PUMP_DRAIN_CAP_def OUTBOUND_QUEUE_CAP_def)
qed

text \<open>
  C15: The handshake decides on the first message alone. A client is served exactly when that message is
  a \<^verbatim>\<open>Hello\<close> of the daemon's protocol version that carries the configured token, if one is
  configured, and the \<^verbatim>\<open>Welcome\<close> could be written; every other client is sent at most one \<^verbatim>\<open>Bye\<close>
  and never a \<^verbatim>\<open>Welcome\<close>.
\<close>

theorem handshake_gate:
  "(fst (handshake auth version first sch w) = Ok True \<longleftrightarrow>
      (\<exists>name token. first = Hello PROTOCOL_VERSION name token \<and> (auth = None \<or> token = auth)
         \<and> mw_fail w (mw_sent w) (Welcome PROTOCOL_VERSION version (welcome_plugins sch)) = None))
   \<and> (\<exists>sent. mw_sent (snd (handshake auth version first sch w)) = mw_sent w @ sent
        \<and> (case fst (handshake auth version first sch w) of
             Ok True \<Rightarrow> sent = [Welcome PROTOCOL_VERSION version (welcome_plugins sch)]
           | Ok False \<Rightarrow> sent = [] \<or> (\<exists>reason. sent = [Bye reason])
           | Err _ \<Rightarrow> sent = []))"
proof (cases "verify_hello first")
  case (Err e)
  then have "\<nexists>n t. first = Hello PROTOCOL_VERSION n t" using verify_hello_Ok [of first] by auto
  with Err show ?thesis by (auto simp: handshake_def write_server_def split: option.splits)
next
  case (Ok nt)
  obtain name token where nt: "nt = (name, token)" by (cases nt)
  with Ok have f: "first = Hello PROTOCOL_VERSION name token" using verify_hello_Ok by blast
  have a: "(auth \<noteq> None \<and> \<not> auth_token_ok auth token) \<longleftrightarrow> \<not> (auth = None \<or> token = auth)"
    by (auto simp: auth_token_ok_def split: option.splits)
  show ?thesis
    unfolding handshake_def Ok nt result.case prod.case a
    using f by (auto simp: write_server_def split: option.splits)
qed

lemma handle_request_answered:
  assumes "wf_host (sch_host (dm_sched d))" and "sound_request sv op d"
  shows "\<exists>r d' result d1 se'. handle_request sv k req_id op se d = Returns (r, d') \<and> request_answer sv op d = Returns (result, d1)
    \<and> map_of (dm_sessions d') k = Some se' \<and> se_ledger se' = se_ledger se
    \<and> mw_sent (se_writer se') = mw_sent (se_writer se) @ (if is_ok r then [Response req_id result] else [])
    \<and> (is_ok r \<longleftrightarrow> mw_fail (se_writer se) (mw_sent (se_writer se)) (Response req_id result) = None)
    \<and> sch_entries (dm_sched d') = sch_entries (dm_sched d) \<and> wf_host (sch_host (dm_sched d'))"
proof -
  obtain result d1 where a: "request_answer sv op d = Returns (result, d1)" and wf: "wf_host (sch_host (dm_sched d1))"
    using request_answer_returns [OF assms] by blast
  have e: "sch_entries (dm_sched d1) = sch_entries (dm_sched d)" using request_same_subs [OF a] by (simp add: same_subs_def)
  obtain infos where i: "build_sensor_info_list (dm_sched d1) reg = Returns (infos reg)" for reg
    using build_sensor_info_list_returns [OF wf] by metis
  define w where "w = snd (write_server (Response req_id result) (se_writer se))"
  define r where "r = fst (write_server (Response req_id result) (se_writer se))"
  define se' where "se' = se\<lparr>se_writer := w, se_pump_interval_ms := new_pump_interval op (se_pump_interval_ms se)\<rparr>"
  define d2 where "d2 = d1\<lparr>dm_sessions := AList.update k se' (dm_sessions d1)\<rparr>"
  have rw: "write_server (Response req_id result) (se_writer se) = (r, w)" by (simp add: r_def w_def)
  have sent: "mw_sent w = mw_sent (se_writer se) @ (if is_ok r then [Response req_id result] else [])"
    "is_ok r \<longleftrightarrow> mw_fail (se_writer se) (mw_sent (se_writer se)) (Response req_id result) = None"
    by (auto simp: r_def w_def write_server_def split: option.split)
  have "\<exists>cl. handle_request sv k req_id op se d = Returns (r, d2\<lparr>dm_clients := cl\<rparr>)"
    unfolding handle_request_def a exec_bind.simps prod.case rw Let_def
    using i [of "dm_registry d1"] by (auto simp: d2_def se'_def intro: exI [of _ "dm_clients d1"])
  then obtain cl where "handle_request sv k req_id op se d = Returns (r, d2\<lparr>dm_clients := cl\<rparr>)" ..
  moreover have "map_of (dm_sessions (d2\<lparr>dm_clients := cl\<rparr>)) k = Some se'" by (simp add: d2_def update_conv')
  moreover have "se_ledger se' = se_ledger se" and "mw_sent (se_writer se') = mw_sent w" by (simp_all add: se'_def)
  ultimately show ?thesis using sent e wf
    by (intro exI [of _ r] exI [of _ "d2\<lparr>dm_clients := cl\<rparr>"] exI [of _ result] exI [of _ d1] exI [of _ se'] conjI) (simp_all add: d2_def a)
qed



end
