(* ===== verification/Prom.thy ===== *)
theory Prom
  imports Scheduler Registry
begin

text \<open>
  The Prometheus exporter of \<^verbatim>\<open>apps/linsightd/src/prom.rs\<close>: its HTTP request reader with the
  limits on lines and headers, the scrape, and the text exposition. A connection's input is
  the list of what successive reads deliver; the end of the list is the end of the stream.
\<close>

section \<open>Reading a request\<close>

definition MAX_PROM_CONNECTIONS :: nat where
  "MAX_PROM_CONNECTIONS = 10"

definition MAX_REQUEST_LINE_BYTES :: nat where
  "MAX_REQUEST_LINE_BYTES = 2048"

definition MAX_HEADER_BYTES :: nat where
  "MAX_HEADER_BYTES = 16 * 1024"

datatype prom_read = ReadData bytes | ReadTimedOut | ReadFailed string

datatype RequestReadError = TooLong | ReadTimeout | ReadIo string

definition newline :: u8 where
  "newline = 10"

definition line_end :: "bytes \<Rightarrow> nat" where
  "line_end chunk =
     (if newline \<in> set chunk then length (takeWhile (\<lambda>b. b \<noteq> newline) chunk) + 1 else length chunk)"

text \<open>The pending input after \<open>n\<close> bytes of the buffered chunk are consumed.\<close>

definition consume :: "nat \<Rightarrow> bytes \<Rightarrow> prom_read list \<Rightarrow> prom_read list" where
  "consume n chunk rest = (if n < length chunk then ReadData (drop n chunk) # rest else rest)"

fun read_weight :: "prom_read \<Rightarrow> nat" where
  "read_weight (ReadData chunk) = Suc (length chunk)"
| "read_weight _ = 1"

lemma line_end_pos: "chunk \<noteq> [] \<Longrightarrow> 0 < line_end chunk"
  by (simp add: line_end_def)

lemma consume_weight:
  "0 < n \<Longrightarrow> sum_list (map read_weight (consume n chunk rest)) < sum_list (map read_weight (ReadData chunk # rest))"
  by (auto simp: consume_def)

function read_limited_line ::
    "nat \<Rightarrow> bytes \<Rightarrow> prom_read list \<Rightarrow> (bytes option, RequestReadError) result \<times> prom_read list" where
  "read_limited_line max_bytes out [] = (Ok (if out = [] then None else Some out), [])"
| "read_limited_line max_bytes out (ReadTimedOut # rest) = (Err ReadTimeout, rest)"
| "read_limited_line max_bytes out (ReadFailed e # rest) = (Err (ReadIo e), rest)"
| "read_limited_line max_bytes out (ReadData chunk # rest) =
     (if chunk = [] then (Ok (if out = [] then None else Some out), ReadData chunk # rest)
      else
        let n = line_end chunk
        in if max_bytes < length out + n then (Err TooLong, ReadData chunk # rest)
           else
             let out' = out @ take n chunk
             in if last out' = newline then (Ok (Some out'), consume n chunk rest)
                else read_limited_line max_bytes out' (consume n chunk rest))"
  by pat_completeness auto
termination
proof (relation "measure (\<lambda>(_, _, input). sum_list (map read_weight input))", goal_cases)
  case (2 max_bytes out chunk rest n out')
  have "sum_list (map read_weight (consume n chunk rest)) < sum_list (map read_weight (ReadData chunk # rest))"
    by (rule consume_weight) (use 2 line_end_pos in simp)
  then show ?case by simp
qed simp

datatype header_end = HeadersDone | HeadersTooLong | HeadersTimeout | HeadersIo string

lemma read_limited_line_nonempty:
  "read_limited_line max_bytes out input = (Ok (Some line), rest) \<Longrightarrow> line \<noteq> []"
proof (induction max_bytes out input rule: read_limited_line.induct)
  case (4 max_bytes out chunk rest')
  then show ?case by (auto simp: Let_def line_end_def split: if_splits)
qed (auto split: if_splits)

function read_headers :: "nat \<Rightarrow> prom_read list \<Rightarrow> header_end \<times> prom_read list" where
  "read_headers header_bytes input =
     (let remaining = MAX_HEADER_BYTES - header_bytes
      in if remaining = 0 then (HeadersTooLong, input)
         else
           case read_limited_line remaining [] input of
             (Ok (Some line), rest) \<Rightarrow>
               if line = [13, 10] \<or> line = [10] then (HeadersDone, rest)
               else read_headers (header_bytes + length line) rest
           | (Ok None, rest) \<Rightarrow> (HeadersDone, rest)
           | (Err TooLong, rest) \<Rightarrow> (HeadersTooLong, rest)
           | (Err ReadTimeout, rest) \<Rightarrow> (HeadersTimeout, rest)
           | (Err (ReadIo e), rest) \<Rightarrow> (HeadersIo e, rest))"
  by pat_completeness auto
termination
  by (relation "measure (\<lambda>(header_bytes, _). MAX_HEADER_BYTES - header_bytes)")
     (auto dest!: read_limited_line_nonempty [OF sym] intro!: diff_less_mono2)

declare read_headers.simps [simp del]

text \<open>\<^verbatim>\<open>std::str::from_utf8\<close>: the code points of a valid encoding.\<close>

definition cont_byte :: "u8 \<Rightarrow> bool" where
  "cont_byte b = (128 \<le> b \<and> b < 192)"

fun from_utf8 :: "bytes \<Rightarrow> nat list option" where
  "from_utf8 [] = Some []"
| "from_utf8 (a # bs) =
     (if a < 128 then map_option (Cons (unat a)) (from_utf8 bs)
      else if 194 \<le> a \<and> a < 224 then
        (case bs of
           b # r \<Rightarrow>
             if cont_byte b
             then map_option (Cons ((unat a - 192) * 64 + (unat b - 128))) (from_utf8 r) else None
         | _ \<Rightarrow> None)
      else if 224 \<le> a \<and> a < 240 then
        (case bs of
           b # c # r \<Rightarrow>
             let p = (unat a - 224) * 4096 + (unat b - 128) * 64 + (unat c - 128)
             in if cont_byte b \<and> cont_byte c \<and> 2048 \<le> p \<and> \<not> (55296 \<le> p \<and> p \<le> 57343)
                then map_option (Cons p) (from_utf8 r) else None
         | _ \<Rightarrow> None)
      else if 240 \<le> a \<and> a < 245 then
        (case bs of
           b # c # d # r \<Rightarrow>
             let p = (unat a - 240) * 262144 + (unat b - 128) * 4096 + (unat c - 128) * 64 + (unat d - 128)
             in if cont_byte b \<and> cont_byte c \<and> cont_byte d \<and> 65536 \<le> p \<and> p \<le> 1114111
                then map_option (Cons p) (from_utf8 r) else None
         | _ \<Rightarrow> None)
      else None)"

definition code_point_whitespace :: "nat \<Rightarrow> bool" where
  "code_point_whitespace p =
     (9 \<le> p \<and> p \<le> 13 \<or> p \<in> {32, 133, 160, 5760, 8232, 8233, 8239, 8287, 12288} \<or> 8192 \<le> p \<and> p \<le> 8202)"

definition code_point_words :: "nat list \<Rightarrow> nat list list" where
  "code_point_words s =
     filter (\<lambda>w. w \<noteq> []) (foldr (\<lambda>c acc. if code_point_whitespace c then [] # acc
                                   else (c # hd acc) # tl acc) s [[]])"

section \<open>The exposition\<close>

definition push_escaped_label :: "string \<Rightarrow> string" where
  "push_escaped_label s =
     concat (map (\<lambda>c. if c = CHR 0x5C then [CHR 0x5C, CHR 0x5C]
                      else if c = CHR 0x22 then [CHR 0x5C, CHR 0x22]
                      else if c = CHR 0x0A then [CHR 0x5C, CHR ''n'']
                      else [c]) s)"

definition sanitize_metric_name :: "string \<Rightarrow> string" where
  "sanitize_metric_name s =
     ''linsight_'' @ map (\<lambda>c. if is_ascii_alphanumeric c then c else CHR ''_'') s"

abbreviation quote :: char where
  "quote \<equiv> CHR 0x22"

abbreviation newline_char :: char where
  "newline_char \<equiv> CHR 0x0A"

definition emit_sample_line ::
    "string \<Rightarrow> string \<Rightarrow> HardwareDeviceKey option \<Rightarrow> string \<Rightarrow> string" where
  "emit_sample_line metric unit device_key val =
     metric @ ''{unit='' @ [quote] @ push_escaped_label unit
     @ (case device_key of
          None \<Rightarrow> []
        | Some k \<Rightarrow> [quote] @ '',device_key='' @ [quote] @ push_escaped_label k)
     @ [quote] @ ''} '' @ val @ [newline_char]"

type_synonym ScrapeRow = "SensorDescriptor \<times> Sample option \<times> string \<times> HardwareDeviceKey option"

definition metric_header :: "string \<Rightarrow> string \<Rightarrow> string \<Rightarrow> string" where
  "metric_header metric help kind =
     ''# HELP '' @ metric @ '' '' @ help @ [newline_char] @ ''# TYPE '' @ metric @ '' '' @ kind @ [newline_char]"

definition render_row :: "(fl \<Rightarrow> string) \<Rightarrow> ScrapeRow \<Rightarrow> string" where
  "render_row show_f64 row =
     (case row of (d, sample, _, device_key) \<Rightarrow>
        case sample of
          None \<Rightarrow> []
        | Some s \<Rightarrow>
            let metric = sanitize_metric_name (d_id d); unit = symbol (d_unit d);
                key = (case device_key of Some k \<Rightarrow> Some k | None \<Rightarrow> d_device_key d)
            in case sample_reading s of
                 Scalar v \<Rightarrow>
                   metric_header metric (d_display_name d) ''gauge'' @ emit_sample_line metric unit key (show_f64 v)
               | Counter v \<Rightarrow>
                   metric_header metric (d_display_name d) ''counter''
                   @ emit_sample_line metric unit key (show_nat (unat v))
               | _ \<Rightarrow> [])"

definition render_device :: "(string \<times> string) list \<Rightarrow> HardwareDevice \<Rightarrow> string" where
  "render_device nicknames dev =
     (let nickname = (case map_of nicknames (dev_key dev) of Some n \<Rightarrow> n | None \<Rightarrow> []);
          vendor = (case dev_vendor dev of Some v \<Rightarrow> v | None \<Rightarrow> [])
      in ''linsight_hardware_info{device_key='' @ [quote] @ push_escaped_label (dev_key dev)
         @ [quote] @ '',category='' @ [quote] @ hw_category_as_str (dev_category dev)
         @ [quote] @ '',model='' @ [quote] @ push_escaped_label (dev_model dev)
         @ [quote] @ '',vendor='' @ [quote] @ push_escaped_label vendor
         @ [quote] @ '',nickname='' @ [quote] @ push_escaped_label nickname
         @ [quote] @ '',plugin_id='' @ [quote] @ push_escaped_label (dev_plugin_id dev)
         @ [quote] @ ''} 1'' @ [newline_char])"

definition render ::
    "(fl \<Rightarrow> string) \<Rightarrow> HardwareDevice list \<Rightarrow> (string \<times> string) list \<Rightarrow> ScrapeRow list \<Rightarrow> string" where
  "render show_f64 devices nicknames rows =
     ''# linsight Prometheus exporter'' @ [newline_char]
     @ concat (map (render_row show_f64) rows)
     @ ''# HELP linsight_hardware_info Static hardware metadata'' @ [newline_char]
     @ ''# TYPE linsight_hardware_info gauge'' @ [newline_char]
     @ concat (map (render_device nicknames) devices)"

section \<open>The scrape\<close>

text \<open>Each target is sampled once; the plugin host keeps the state the plugins are left in.\<close>

fun collect_scrape_rows ::
    "'p LinsightPlugin \<Rightarrow> u64 \<Rightarrow> (SensorDescriptor \<times> string) list \<Rightarrow> ('p, 'l) PluginHost \<Rightarrow>
     (ScrapeRow list \<times> ('p, 'l) PluginHost) exec" where
  "collect_scrape_rows P now [] h = Returns ([], h)"
| "collect_scrape_rows P now ((d, plugin_id) # targets) h =
     exec_bind (sample_to P (d_id d) now h) (\<lambda>(r, h').
     exec_bind (collect_scrape_rows P now targets h') (\<lambda>(rows, h'').
       Returns ((d, result_ok r, plugin_id, None) # rows, h'')))"

definition resolve_row :: "HardwareRegistry \<Rightarrow> ScrapeRow \<Rightarrow> ScrapeRow" where
  "resolve_row reg row =
     (case row of (d, sample, plugin_id, _) \<Rightarrow>
        (d, sample, plugin_id,
         case d_device_key d of
           Some k \<Rightarrow> Some k
         | None \<Rightarrow> Option.bind (d_device_id d) (key_for reg plugin_id)))"

definition render_for_scrape ::
    "'p LinsightPlugin \<Rightarrow> (fl \<Rightarrow> string) \<Rightarrow> u64 option \<Rightarrow> HardwareRegistry \<Rightarrow> ('p, 'l, 'c) Scheduler \<Rightarrow>
     (string \<times> ('p, 'l, 'c) Scheduler) exec" where
  "render_for_scrape P show_f64 since_epoch reg sch =
     (let now = (case since_epoch of Some t \<Rightarrow> t | None \<Rightarrow> 0)
      in exec_bind (scrape_targets sch) (\<lambda>targets.
         exec_bind (collect_scrape_rows P now targets (sch_host sch)) (\<lambda>(rows, h).
           Returns (render show_f64 (snapshot reg) (nicknames_snapshot reg) (map (resolve_row reg) rows),
             sch\<lparr>sch_host := h\<rparr>))))"

section \<open>Answering a request\<close>

datatype prom_reply = NoReply | Reply string | ReplyIo string

abbreviation crlf2 :: string where
  "crlf2 \<equiv> [CHR 0x0D, CHR 0x0A, CHR 0x0D, CHR 0x0A]"

definition status_reply :: "string \<Rightarrow> prom_reply" where
  "status_reply status = Reply (''HTTP/1.0 '' @ status @ crlf2)"

definition ok_reply :: "string \<Rightarrow> prom_reply" where
  "ok_reply body =
     Reply (''HTTP/1.0 200 OK'' @ [CHR 0x0D, CHR 0x0A] @ ''Content-Type: text/plain; version=0.0.4''
       @ [CHR 0x0D, CHR 0x0A] @ ''Content-Length: '' @ show_nat (str_len body) @ crlf2 @ body)"

text \<open>What the request asks for, once it has been read; \<open>None\<close> when it is to be refused with the status.\<close>

definition request_status :: "bytes \<Rightarrow> string option" where
  "request_status line =
     (case from_utf8 line of
        None \<Rightarrow> Some ''400 Bad Request''
      | Some text \<Rightarrow>
          let parts = code_point_words text
          in if length parts < 3 \<or> parts ! 0 \<noteq> map of_char ''GET'' then Some ''405 Method Not Allowed''
             else if parts ! 1 \<noteq> map of_char ''/metrics'' then Some ''404 Not Found''
             else None)"

definition serve_one ::
    "'p LinsightPlugin \<Rightarrow> (fl \<Rightarrow> string) \<Rightarrow> u64 option \<Rightarrow> HardwareRegistry \<Rightarrow> prom_read list \<Rightarrow>
     ('p, 'l, 'c) Scheduler \<Rightarrow> (prom_reply \<times> ('p, 'l, 'c) Scheduler) exec" where
  "serve_one P show_f64 since_epoch reg input sch =
     (case read_limited_line MAX_REQUEST_LINE_BYTES [] input of
        (Ok None, _) \<Rightarrow> Returns (NoReply, sch)
      | (Err TooLong, _) \<Rightarrow> Returns (status_reply ''400 Bad Request'', sch)
      | (Err ReadTimeout, _) \<Rightarrow> Returns (status_reply ''408 Request Timeout'', sch)
      | (Err (ReadIo e), _) \<Rightarrow> Returns (ReplyIo e, sch)
      | (Ok (Some line), rest) \<Rightarrow>
          (case fst (read_headers 0 rest) of
             HeadersTooLong \<Rightarrow> Returns (status_reply ''400 Bad Request'', sch)
           | HeadersTimeout \<Rightarrow> Returns (status_reply ''408 Request Timeout'', sch)
           | HeadersIo e \<Rightarrow> Returns (ReplyIo e, sch)
           | HeadersDone \<Rightarrow>
               (case request_status line of
                  Some status \<Rightarrow> Returns (status_reply status, sch)
                | None \<Rightarrow>
                    exec_bind (render_for_scrape P show_f64 since_epoch reg sch) (\<lambda>(body, sch').
                      Returns (ok_reply body, sch')))))"

text \<open>Admission: whether a connection gets a slot, and the number of slots then in use.\<close>

definition prom_admit :: "nat \<Rightarrow> bool \<times> nat" where
  "prom_admit active = (if MAX_PROM_CONNECTIONS \<le> active then (False, active) else (True, active + 1))"

section \<open>Requests do not depend on how they are segmented\<close>

text \<open>The reference: the first line of the whole input.\<close>

definition first_line :: "nat \<Rightarrow> bytes \<Rightarrow> (bytes option, RequestReadError) result" where
  "first_line max_bytes input =
     (if input = [] then Ok None
      else if max_bytes < line_end input then Err TooLong
      else Ok (Some (take (line_end input) input)))"

abbreviation segments :: "bytes list \<Rightarrow> prom_read list" where
  "segments chunks \<equiv> map ReadData chunks"

lemma takeWhile_line: "newline \<notin> set out \<Longrightarrow> takeWhile (\<lambda>b. b \<noteq> newline) (out @ xs) = out @ takeWhile (\<lambda>b. b \<noteq> newline) xs"
  by (induction out) auto

lemma takeWhile_in: "newline \<in> set chunk \<Longrightarrow> takeWhile (\<lambda>b. b \<noteq> newline) (chunk @ r) = takeWhile (\<lambda>b. b \<noteq> newline) chunk"
  by (induction chunk) auto

lemma line_end_le: "line_end chunk \<le> length chunk"
proof (cases "newline \<in> set chunk")
  case True
  then obtain a b where "chunk = a @ newline # b" "newline \<notin> set a" by (auto dest: split_list_first)
  then show ?thesis by (simp add: line_end_def takeWhile_line)
qed (simp add: line_end_def)

lemma line_end_append_newline:
  "newline \<in> set chunk \<Longrightarrow> newline \<notin> set out \<Longrightarrow> line_end (out @ chunk @ r) = length out + line_end chunk"
  by (simp add: line_end_def takeWhile_line takeWhile_in)

lemma line_end_append: "newline \<notin> set out \<Longrightarrow> line_end (out @ chunk) = length out + line_end chunk"
  by (simp add: line_end_def takeWhile_line)

lemma last_line: "newline \<in> set chunk \<Longrightarrow> last (out @ take (line_end chunk) chunk) = newline"
proof -
  assume "newline \<in> set chunk"
  then obtain a b where ab: "chunk = a @ newline # b" "newline \<notin> set a" by (auto dest: split_list_first)
  then have "line_end chunk = Suc (length a)" by (simp add: line_end_def takeWhile_line)
  with ab show ?thesis by simp
qed

lemma consume_segments:
  assumes "n \<le> length chunk" and "[] \<notin> set chunks"
  obtains chunks' where "consume n chunk (segments chunks) = segments chunks'" "[] \<notin> set chunks'"
    "concat chunks' = drop n chunk @ concat chunks"
proof (cases "n < length chunk")
  case True
  with assms show ?thesis by (intro that [of "drop n chunk # chunks"]) (auto simp: consume_def)
next
  case False
  with assms show ?thesis by (intro that [of chunks]) (auto simp: consume_def)
qed

lemma read_limited_line_segments:
  assumes "[] \<notin> set chunks" and "newline \<notin> set out" and "length out \<le> max_bytes"
  shows "fst (read_limited_line max_bytes out (segments chunks)) = first_line max_bytes (out @ concat chunks)
    \<and> (is_ok (first_line max_bytes (out @ concat chunks)) \<longrightarrow>
        (\<exists>chunks'. snd (read_limited_line max_bytes out (segments chunks)) = segments chunks' \<and> [] \<notin> set chunks'
           \<and> concat chunks' = drop (line_end (out @ concat chunks)) (out @ concat chunks)))"
  using assms
proof (induction chunks arbitrary: out)
  case Nil
  then show ?case by (auto simp: first_line_def line_end_def)
next
  case (Cons chunk chunks)
  from Cons.prems have c: "chunk \<noteq> []" "[] \<notin> set chunks" by auto
  let ?n = "line_end chunk"
  show ?case
  proof (cases "newline \<in> set chunk")
    case True
    have le: "line_end (out @ chunk @ concat chunks) = length out + ?n"
      by (rule line_end_append_newline) (use True Cons.prems in auto)
    obtain chunks' where ch: "consume ?n chunk (segments chunks) = segments chunks'" "[] \<notin> set chunks'"
      "concat chunks' = drop ?n chunk @ concat chunks" using line_end_le [of chunk] c(2) by (rule consume_segments)
    have "take (length out + ?n) (out @ chunk @ concat chunks) = out @ take ?n chunk"
      using line_end_le [of chunk] by simp
    with c True le ch last_line [OF True, of out] show ?thesis
      using line_end_le [of chunk] by (auto simp: first_line_def Let_def)
  next
    case False
    then have n: "?n = length chunk" by (simp add: line_end_def)
    have le: "line_end (out @ chunk @ concat chunks) = length (out @ chunk) + line_end (concat chunks)"
      using line_end_append [of "out @ chunk" "concat chunks"] False Cons.prems by simp
    show ?thesis
    proof (cases "max_bytes < length out + length chunk")
      case True
      then show ?thesis using c n le by (simp add: first_line_def)
    next
      case small: False
      have "last (out @ chunk) \<noteq> newline" using False c(1) by (metis last_appendR last_in_set)
      then have "read_limited_line max_bytes out (segments (chunk # chunks)) = read_limited_line max_bytes (out @ chunk) (segments chunks)"
        using c n small by (simp add: Let_def consume_def)
      with Cons.IH [OF c(2), of "out @ chunk"] False Cons.prems(2) small show ?thesis by simp
    qed
  qed
qed

lemma read_line_result:
  assumes "[] \<notin> set chunks"
  shows "fst (read_limited_line m [] (segments chunks)) = first_line m (concat chunks)"
  using read_limited_line_segments [OF assms, of "[]" m] by simp

lemma read_line_rest:
  assumes "[] \<notin> set chunks" and "first_line m (concat chunks) = Ok x"
  obtains r where "read_limited_line m [] (segments chunks) = (Ok x, segments r)" "[] \<notin> set r"
    "concat r = drop (line_end (concat chunks)) (concat chunks)"
proof -
  from read_limited_line_segments [OF assms(1), of "[]" m] assms(2) obtain r where
    "snd (read_limited_line m [] (segments chunks)) = segments r" "[] \<notin> set r"
    "concat r = drop (line_end (concat chunks)) (concat chunks)" by auto
  moreover have "fst (read_limited_line m [] (segments chunks)) = Ok x"
    using read_line_result [OF assms(1), of m] assms(2) by simp
  ultimately show ?thesis by (intro that [of r]) (auto simp: prod_eq_iff)
qed

lemma read_headers_step:
  assumes "[] \<notin> set chunks" and "n < MAX_HEADER_BYTES"
  shows "fst (read_headers n (segments chunks)) =
    (case first_line (MAX_HEADER_BYTES - n) (concat chunks) of
       Ok None \<Rightarrow> HeadersDone
     | Ok (Some line) \<Rightarrow>
         if line = [13, 10] \<or> line = [10] then HeadersDone
         else fst (read_headers (n + length line) (snd (read_limited_line (MAX_HEADER_BYTES - n) [] (segments chunks))))
     | Err TooLong \<Rightarrow> HeadersTooLong
     | Err ReadTimeout \<Rightarrow> HeadersTimeout
     | Err (ReadIo e) \<Rightarrow> HeadersIo e)"
proof -
  obtain r rest where l: "read_limited_line (MAX_HEADER_BYTES - n) [] (segments chunks) = (r, rest)" by fastforce
  with read_line_result [OF assms(1), of "MAX_HEADER_BYTES - n"]
  have r: "first_line (MAX_HEADER_BYTES - n) (concat chunks) = r" by simp
  show ?thesis
    unfolding r read_headers.simps [of n] Let_def l using assms(2)
    by (simp split: result.split option.split RequestReadError.split)
qed

lemma read_headers_segments:
  assumes "[] \<notin> set chunks" and "[] \<notin> set chunks'" and "concat chunks = concat chunks'"
  shows "fst (read_headers n (segments chunks)) = fst (read_headers n (segments chunks'))"
  using assms
proof (induction "MAX_HEADER_BYTES - n" arbitrary: n chunks chunks' rule: less_induct)
  case less
  let ?m = "MAX_HEADER_BYTES - n"
  show ?case
  proof (cases "n < MAX_HEADER_BYTES")
    case False
    then show ?thesis by (simp add: read_headers.simps [of n])
  next
    case True
    have ih: "fst (read_headers (n + length line) (snd (read_limited_line ?m [] (segments chunks))))
        = fst (read_headers (n + length line) (snd (read_limited_line ?m [] (segments chunks'))))"
      if f: "first_line ?m (concat chunks) = Ok (Some line)" for line
    proof -
      from f have nonempty: "line \<noteq> []" by (auto simp: first_line_def line_end_def split: if_splits)
      obtain r where r: "read_limited_line ?m [] (segments chunks) = (Ok (Some line), segments r)" "[] \<notin> set r"
        "concat r = drop (line_end (concat chunks)) (concat chunks)" using less.prems(1) f by (rule read_line_rest)
      have "first_line ?m (concat chunks') = Ok (Some line)" using f less.prems(3) by simp
      then obtain r' where r': "read_limited_line ?m [] (segments chunks') = (Ok (Some line), segments r')" "[] \<notin> set r'"
        "concat r' = drop (line_end (concat chunks')) (concat chunks')" using less.prems(2) by (metis read_line_rest)
      have "fst (read_headers (n + length line) (segments r)) = fst (read_headers (n + length line) (segments r'))"
      proof (rule less.hyps)
        show "MAX_HEADER_BYTES - (n + length line) < ?m"
          using True nonempty by (intro diff_less_mono2) auto
        show "concat r = concat r'" using r(3) r'(3) less.prems(3) by simp
      qed (fact r(2) r'(2))+
      with r(1) r'(1) show ?thesis by simp
    qed
    show ?thesis
      unfolding read_headers_step [OF less.prems(1) True] read_headers_step [OF less.prems(2) True] less.prems(3) [symmetric]
      using ih by (simp split: result.split option.split RequestReadError.split)
  qed
qed

section \<open>Reading the exposition back\<close>

text \<open>A reference reader of the text format: a label value up to its closing quote, a sample line, a body.\<close>

fun read_label :: "string \<Rightarrow> (string \<times> string) option" where
  "read_label [] = None"
| "read_label (c # s) =
     (if c = quote then Some ([], s)
      else if c = CHR 0x5C then
        (case s of
           [] \<Rightarrow> None
         | e # r \<Rightarrow> map_option (\<lambda>(v, t). ((if e = CHR ''n'' then newline_char else e) # v, t)) (read_label r))
      else map_option (\<lambda>(v, t). (c # v, t)) (read_label s))"

definition parse_sample_line :: "string \<Rightarrow> (string \<times> string \<times> string option \<times> string) option" where
  "parse_sample_line line =
     (let metric = takeWhile (\<lambda>c. c \<noteq> CHR ''{'') line
      in case strip_prefix (''{unit='' @ [quote]) (dropWhile (\<lambda>c. c \<noteq> CHR ''{'') line) of
           None \<Rightarrow> None
         | Some r \<Rightarrow>
             (case read_label r of
                None \<Rightarrow> None
              | Some (unit, r1) \<Rightarrow>
                  (case strip_prefix ''} '' r1 of
                     Some val \<Rightarrow> Some (metric, unit, None, val)
                   | None \<Rightarrow>
                       (case strip_prefix ('',device_key='' @ [quote]) r1 of
                          None \<Rightarrow> None
                        | Some r2 \<Rightarrow>
                            (case read_label r2 of
                               None \<Rightarrow> None
                             | Some (key, r3) \<Rightarrow>
                                 map_option (\<lambda>val. (metric, unit, Some key, val)) (strip_prefix ''} '' r3))))))"

definition body_lines :: "string \<Rightarrow> string list" where
  "body_lines body = butlast (split_char newline_char body)"

definition parse_samples :: "string \<Rightarrow> (string \<times> string \<times> string option \<times> string) list" where
  "parse_samples body =
     List.map_filter parse_sample_line (filter (\<lambda>l. \<not> starts_with ''#'' l) (body_lines body))"

text \<open>What a row of the scrape means: the sample it exposes.\<close>

definition exposed :: "(fl \<Rightarrow> string) \<Rightarrow> ScrapeRow \<Rightarrow> (string \<times> string \<times> string option \<times> string) option" where
  "exposed show_f64 row =
     (case row of (d, sample, _, device_key) \<Rightarrow>
        let key = (case device_key of Some k \<Rightarrow> Some k | None \<Rightarrow> d_device_key d);
            expose = (\<lambda>val. Some (sanitize_metric_name (d_id d), symbol (d_unit d), key, val))
        in case map_option sample_reading sample of
             Some (Scalar v) \<Rightarrow> expose (show_f64 v)
           | Some (Counter v) \<Rightarrow> expose (show_nat (unat v))
           | _ \<Rightarrow> None)"

lemma body_lines_append: "newline_char \<notin> set l \<Longrightarrow> body_lines (l @ newline_char # r) = l # body_lines r"
  by (simp add: body_lines_def split_char_append)

lemma body_lines_Nil [simp]: "body_lines [] = []"
  by (simp add: body_lines_def)

lemma parse_samples_comment: "newline_char \<notin> set l \<Longrightarrow> parse_samples (CHR ''#'' # l @ newline_char # r) = parse_samples r"
  using body_lines_append [of "CHR ''#'' # l" r] by (simp add: parse_samples_def starts_with_def)

lemma parse_samples_line:
  "newline_char \<notin> set l \<Longrightarrow> \<not> starts_with ''#'' l \<Longrightarrow>
     parse_samples (l @ newline_char # r) = (case parse_sample_line l of None \<Rightarrow> parse_samples r | Some x \<Rightarrow> x # parse_samples r)"
  by (simp add: parse_samples_def body_lines_append map_filter_simps split: option.split)

lemma read_label_escaped: "read_label (push_escaped_label s @ quote # r) = Some (s, r)"
  by (induction s) (auto simp: push_escaped_label_def)

lemma escaped_no_newline: "newline_char \<notin> set (push_escaped_label s)"
  by (auto simp: push_escaped_label_def)

definition sample_line :: "string \<Rightarrow> string \<Rightarrow> string option \<Rightarrow> string \<Rightarrow> string" where
  "sample_line metric unit key val =
     metric @ ''{unit='' @ quote # push_escaped_label unit
     @ (case key of None \<Rightarrow> [] | Some k \<Rightarrow> quote # '',device_key='' @ quote # push_escaped_label k)
     @ quote # ''} '' @ val"

lemma emit_sample_line_eq: "emit_sample_line metric unit key val = sample_line metric unit key val @ [newline_char]"
  by (simp add: emit_sample_line_def sample_line_def split: option.split)

lemma split_metric:
  "c \<notin> set metric \<Longrightarrow> takeWhile (\<lambda>x. x \<noteq> c) (metric @ c # r) = metric"
  "c \<notin> set metric \<Longrightarrow> dropWhile (\<lambda>x. x \<noteq> c) (metric @ c # r) = c # r"
  by (induction metric) auto

lemma parse_emitted:
  assumes "CHR ''{'' \<notin> set metric"
  shows "parse_sample_line (sample_line metric unit key val) = Some (metric, unit, key, val)"
  using split_metric [OF assms] by (cases key) (simp_all add: sample_line_def parse_sample_line_def Let_def read_label_escaped)

lemma sanitized_chars:
  "c \<in> set (sanitize_metric_name i) \<Longrightarrow> is_ascii_alphanumeric c \<or> c = CHR ''_''"
  by (auto simp: sanitize_metric_name_def rust_simps)

lemma sanitized_plain: "CHR ''{'' \<notin> set (sanitize_metric_name i)" "newline_char \<notin> set (sanitize_metric_name i)"
  using sanitized_chars by (fastforce simp: rust_simps)+

lemma show_nat_no_newline: "newline_char \<notin> set (show_nat n)"
  using show_nat_digits [of n] by (auto simp: list_all_iff rust_simps)

lemma parse_metric_header:
  assumes "newline_char \<notin> set help" and "newline_char \<notin> set kind"
  shows "parse_samples (metric_header (sanitize_metric_name i) help kind @ r) = parse_samples r"
proof -
  let ?m = "sanitize_metric_name i"
  have "metric_header ?m help kind @ r = CHR ''#'' # ('' HELP '' @ ?m @ '' '' @ help) @ newline_char #
      CHR ''#'' # ('' TYPE '' @ ?m @ '' '' @ kind) @ newline_char # r"
    by (simp add: metric_header_def)
  moreover have "newline_char \<notin> set ('' HELP '' @ ?m @ '' '' @ help)" "newline_char \<notin> set ('' TYPE '' @ ?m @ '' '' @ kind)"
    using assms sanitized_plain(2) [of i] by simp_all
  ultimately show ?thesis by (simp only: parse_samples_comment not_False_eq_True)
qed

lemma parse_sample_line_rest:
  assumes "newline_char \<notin> set val"
  shows "parse_samples (emit_sample_line (sanitize_metric_name i) unit key val @ r) =
    (sanitize_metric_name i, unit, key, val) # parse_samples r"
proof -
  let ?l = "sample_line (sanitize_metric_name i) unit key val"
  have n: "newline_char \<notin> set ?l"
    using assms sanitized_plain(2) [of i] escaped_no_newline by (cases key) (simp_all add: sample_line_def)
  have h: "\<not> starts_with ''#'' ?l" by (simp add: sample_line_def sanitize_metric_name_def starts_with_def)
  show ?thesis
    unfolding emit_sample_line_eq append_assoc append_Cons append_Nil parse_samples_line [OF n h]
    using parse_emitted [OF sanitized_plain(1)] by simp
qed

lemma parse_row:
  assumes "newline_char \<notin> set (d_display_name (fst row))" and "\<And>x. newline_char \<notin> set (show_f64 x)"
  shows "parse_samples (render_row show_f64 row @ r) =
    (case exposed show_f64 row of None \<Rightarrow> parse_samples r | Some x \<Rightarrow> x # parse_samples r)"
proof -
  obtain d sample p k where row: "row = (d, sample, p, k)" by (cases row) auto
  show ?thesis
  proof (cases sample)
    case (Some s)
    with assms row show ?thesis
      by (cases "sample_reading s")
         (simp_all add: render_row_def exposed_def Let_def parse_metric_header parse_sample_line_rest show_nat_no_newline)
  qed (simp add: row render_row_def exposed_def Let_def)
qed

lemma parse_device: "parse_samples (render_device nicknames dev @ r) = parse_samples r"
proof -
  define body where "body = push_escaped_label (dev_key dev) @ quote # '',category='' @ quote # hw_category_as_str (dev_category dev)
      @ quote # '',model='' @ quote # push_escaped_label (dev_model dev)
      @ quote # '',vendor='' @ quote # push_escaped_label (case dev_vendor dev of Some v \<Rightarrow> v | None \<Rightarrow> [])
      @ quote # '',nickname='' @ quote # push_escaped_label (case map_of nicknames (dev_key dev) of Some n \<Rightarrow> n | None \<Rightarrow> [])
      @ quote # '',plugin_id='' @ quote # push_escaped_label (dev_plugin_id dev) @ quote # ''} 1''"
  let ?l = "''linsight_hardware_info'' @ CHR ''{'' # ''device_key='' @ quote # body"
  have e: "render_device nicknames dev = ?l @ [newline_char]"
    by (simp add: render_device_def Let_def body_def)
  have c: "newline_char \<notin> set (hw_category_as_str x)" for x by (cases x) (simp_all add: hw_category_as_str_def)
  have n: "newline_char \<notin> set ?l" using escaped_no_newline c by (simp add: body_def)
  have h: "\<not> starts_with ''#'' ?l" by (simp add: starts_with_def)
  have "dropWhile (\<lambda>x. x \<noteq> CHR ''{'') ?l = CHR ''{'' # ''device_key='' @ quote # body"
    by (rule split_metric(2)) simp
  then have p: "parse_sample_line ?l = None" unfolding parse_sample_line_def Let_def by simp
  show ?thesis unfolding e append_assoc append_Cons append_Nil
    using parse_samples_line [OF n h, of r] p by simp
qed

lemma parse_rows:
  assumes "\<forall>row \<in> set rows. newline_char \<notin> set (d_display_name (fst row))" and "\<And>x. newline_char \<notin> set (show_f64 x)"
  shows "parse_samples (concat (map (render_row show_f64) rows) @ r) = List.map_filter (exposed show_f64) rows @ parse_samples r"
  using assms(1)
proof (induction rows)
  case (Cons row rows)
  then show ?case
    using parse_row [of row show_f64, OF _ assms(2)] by (auto simp: map_filter_simps split: option.split)
qed (simp add: map_filter_simps)

lemma parse_devices: "parse_samples (concat (map (render_device nicknames) devices)) = []"
proof (induction devices)
  case (Cons dev devices)
  then show ?case by (simp add: parse_device)
qed (simp add: parse_samples_def map_filter_simps)

section \<open>Requests are answered\<close>

lemma collect_scrape_rows_returns:
  assumes "wf_host h"
  shows "\<exists>rows h'. collect_scrape_rows P now targets h = Returns (rows, h') \<and> wf_host h'
     \<and> map fst rows = map fst targets"
  using assms
proof (induction P now targets h rule: collect_scrape_rows.induct)
  case (2 P now d plugin_id targets h)
  obtain r h' where "sample_to P (d_id d) now h = Returns (r, h')" "wf_host h'"
    using sample_to_total [OF 2(2)] by blast
  with 2(1) show ?case by fastforce
qed simp

lemma scrape_targets_returns:
  assumes "wf_host (sch_host sch)"
  shows "\<exists>targets. scrape_targets sch = Returns targets \<and> map fst targets = host_descriptors (sch_host sch)"
proof -
  have "plugin_id_for (sch_host sch) i \<noteq> Panics" for i
    using assms by (auto simp: plugin_id_for_def wf_host_def split: option.split)
  then show ?thesis by (auto simp: scrape_targets_def list_ex_iff case_prod_beta comp_def)
qed

lemma render_for_scrape_returns:
  assumes "wf_host (sch_host sch)"
  shows "\<exists>body sch'. render_for_scrape P show_f64 since reg sch = Returns (body, sch') \<and> wf_host (sch_host sch')
    \<and> sch_entries sch' = sch_entries sch"
proof -
  obtain targets where t: "scrape_targets sch = Returns targets" using scrape_targets_returns [OF assms] by blast
  obtain rows h where "collect_scrape_rows P (case since of Some t \<Rightarrow> t | None \<Rightarrow> 0) targets (sch_host sch) = Returns (rows, h)" "wf_host h"
    using collect_scrape_rows_returns [OF assms] by blast
  with t show ?thesis by (simp add: render_for_scrape_def Let_def)
qed

section \<open>Properties\<close>



text \<open>
  C40: The display name of a sensor is written into its \<^verbatim>\<open>HELP\<close> line as it is: a plugin whose
  display name holds a line feed forges samples of any name and value in the daemon's scrape.
\<close>

theorem help_text_forges_samples:
  "parse_samples (render show_f64 [] [] [(demo_descriptor\<lparr>d_display_name := ''x'' @ newline_char # ''up{unit='' @ quote # quote # ''} 1''\<rparr>,
       Some \<lparr>sample_sensor = ''xe.gpu0.util'', sample_ts_micros = 1, sample_reading = Counter 7\<rparr>, ''xe'', None)])
     = [(''up'', [], None, ''1''), (''linsight_xe_gpu0_util'', ''Mb/s'', Some ''pci:0000:06:00.0'', ''7'')]"
  by code_simp


definition demo_request :: bytes where
  "demo_request = [71, 69, 84, 32, 47, 120, 32, 72, 13, 10, 13, 10]"


text \<open>
  C39: On a consistent plugin host every request gets an answer: the scrape page exactly for a
  request line within its limit that asks \<^verbatim>\<open>GET /metrics\<close>, followed by headers within theirs, and
  otherwise an error status or, when the peer sent nothing or the connection failed, no answer.
  No request panics, whatever bytes it holds, and none changes what is scheduled.
\<close>

theorem prom_request_answered:
  assumes "wf_host (sch_host sch)"
  shows "\<exists>reply sch'. serve_one P show_f64 since reg input sch = Returns (reply, sch')
    \<and> wf_host (sch_host sch') \<and> sch_entries sch' = sch_entries sch
    \<and> ((\<exists>body. reply = ok_reply body) \<longleftrightarrow>
         (\<exists>line rest. read_limited_line MAX_REQUEST_LINE_BYTES [] input = (Ok (Some line), rest)
            \<and> fst (read_headers 0 rest) = HeadersDone \<and> request_status line = None))
    \<and> ((\<nexists>body. reply = ok_reply body) \<longrightarrow> sch' = sch
         \<and> (reply = NoReply \<or> (\<exists>e. reply = ReplyIo e)
            \<or> reply \<in> status_reply ` {''400 Bad Request'', ''404 Not Found'', ''405 Method Not Allowed'', ''408 Request Timeout''}))"
proof -
  obtain body sch' where b: "render_for_scrape P show_f64 since reg sch = Returns (body, sch')"
    "wf_host (sch_host sch')" "sch_entries sch' = sch_entries sch" using render_for_scrape_returns [OF assms] by blast
  have ne: "status_reply s \<noteq> ok_reply body" if "s \<in> {''400 Bad Request'', ''404 Not Found'', ''405 Method Not Allowed'', ''408 Request Timeout''}" for s body
    using that by (auto simp: status_reply_def ok_reply_def)
  have st: "request_status line = Some s \<Longrightarrow> s \<in> {''400 Bad Request'', ''404 Not Found'', ''405 Method Not Allowed''}" for line s
    by (auto simp: request_status_def Let_def split: option.splits if_splits)
  obtain r rest where r: "read_limited_line MAX_REQUEST_LINE_BYTES [] input = (r, rest)" by fastforce
  have e: "NoReply \<noteq> ok_reply body" "ReplyIo x \<noteq> ok_reply body" for x body by (simp_all add: ok_reply_def)
  show ?thesis
  proof (cases r)
    case (Err err)
    with r assms ne e show ?thesis by (cases err) (auto simp: serve_one_def)
  next
    case (Ok l)
    show ?thesis
    proof (cases l)
      case None
      with r Ok assms e show ?thesis by (simp add: serve_one_def)
    next
      case (Some line)
      show ?thesis
      proof (cases "fst (read_headers 0 rest)")
        case HeadersDone
        with r Ok Some b assms st ne show ?thesis
          by (cases "request_status line") (auto simp: serve_one_def)
      qed (use r Ok Some assms ne e in \<open>auto simp: serve_one_def\<close>)
    qed
  qed
qed

theorem prom_request_answered_witness:
  "\<forall>P show_f64 since reg. \<exists>reply sch'.
     serve_one P show_f64 since reg [ReadData demo_request] (Scheduler_new demo_host :: (unit, unit, unit) Scheduler)
     = Returns (reply, sch') \<and> wf_host (sch_host sch')"
proof (intro allI)
  fix P show_f64 since reg
  show "\<exists>reply sch'.
     serve_one P show_f64 since reg [ReadData demo_request] (Scheduler_new demo_host :: (unit, unit, unit) Scheduler)
     = Returns (reply, sch') \<and> wf_host (sch_host sch')"
    using prom_request_answered [of "Scheduler_new demo_host :: (unit, unit, unit) Scheduler" P show_f64 since reg "[ReadData demo_request]"]
      demo_host_wf by (auto simp: Scheduler_new_def)
qed

end
