(* ===== verification/Rust_Num.thy ===== *)
theory Rust_Num
  imports Rust_Str Float64 "HOL-Library.Char_ord" "HOL-Library.List_Lexorder"
begin

text \<open>
  More of Rust's standard library, for the sensor crates, the clients and the GUI models:
  searching strings from the end, signed and fixed-precision numbers, the text of an \<^verbatim>\<open>f64\<close>,
  further float operations, and \<^verbatim>\<open>BTreeMap\<close> as an association list sorted by its keys.
\<close>

section \<open>Strings\<close>

definition strip_suffix :: "string \<Rightarrow> string \<Rightarrow> string option" where
  "strip_suffix p s = map_option rev (strip_prefix (rev p) (rev s))"

definition ends_with :: "string \<Rightarrow> string \<Rightarrow> bool" where
  "ends_with p s = (strip_suffix p s \<noteq> None)"

definition rsplit_once :: "char \<Rightarrow> string \<Rightarrow> (string \<times> string) option" where
  "rsplit_once d s = map_option (\<lambda>(b, a). (rev a, rev b)) (split_once d (rev s))"

fun split_once_str :: "string \<Rightarrow> string \<Rightarrow> (string \<times> string) option" where
  "split_once_str p s =
     (case strip_prefix p s of
        Some r \<Rightarrow> Some ([], r)
      | None \<Rightarrow> (case s of [] \<Rightarrow> None | c # t \<Rightarrow> map_option (\<lambda>(a, b). (c # a, b)) (split_once_str p t)))"

declare split_once_str.simps [simp del]

definition contains_str :: "string \<Rightarrow> string \<Rightarrow> bool" where
  "contains_str p s = (split_once_str p s \<noteq> None)"

text \<open>\<^verbatim>\<open>str::replace\<close>: the matches from left to right, none overlapping (the patterns used are not empty).\<close>

function str_replace :: "string \<Rightarrow> string \<Rightarrow> string \<Rightarrow> string" where
  "str_replace p r s =
     (if p = [] then s
      else case strip_prefix p s of
             Some t \<Rightarrow> r @ str_replace p r t
           | None \<Rightarrow> (case s of [] \<Rightarrow> [] | c # t \<Rightarrow> c # str_replace p r t))"
  by pat_completeness auto

termination str_replace
  by (relation "measure (\<lambda>(p, r, s). length s)") (auto simp: strip_prefix_Some)

declare str_replace.simps [simp del]

definition is_ascii_uppercase :: "char \<Rightarrow> bool" where
  "is_ascii_uppercase c = (65 \<le> char_code c \<and> char_code c \<le> 90)"

definition str_to_lowercase :: "string \<Rightarrow> string" where
  "str_to_lowercase s = map to_ascii_lowercase s"

lemma strip_suffix_Some: "strip_suffix p s = Some r \<longleftrightarrow> s = r @ p"
  by (auto simp: strip_suffix_def strip_prefix_Some) (metis rev_append rev_rev_ident)

lemma rsplit_once_Some: "rsplit_once d s = Some (a, b) \<longleftrightarrow> s = a @ d # b \<and> d \<notin> set b"
proof -
  have "rsplit_once d s = Some (a, b) \<longleftrightarrow> split_once d (rev s) = Some (rev b, rev a)"
    by (force simp: rsplit_once_def)
  also have "\<dots> \<longleftrightarrow> rev s = rev b @ d # rev a \<and> d \<notin> set b" by (simp add: split_once_Some)
  also have "rev s = rev b @ d # rev a \<longleftrightarrow> s = a @ d # b"
    by (metis append.assoc append_Cons append_Nil rev.simps(2) rev_append rev_rev_ident)
  finally show ?thesis .
qed

section \<open>Integers and floats\<close>

text \<open>A signed decimal number within the bounds of an \<^verbatim>\<open>iN\<close> type.\<close>

definition parse_int :: "nat \<Rightarrow> string \<Rightarrow> int option" where
  "parse_int w s =
     (let neg = (case s of c # r \<Rightarrow> c = CHR ''-'' | [] \<Rightarrow> False);
          d = (if neg then tl s else drop_plus s);
          v = (if neg then - int (dec_value d) else int (dec_value d))
      in if d \<noteq> [] \<and> list_all is_ascii_digit d \<and> - (2 ^ (w - 1)) \<le> v \<and> v < 2 ^ (w - 1)
         then Some v else None)"

definition show_int :: "int \<Rightarrow> string" where
  "show_int i = (if i < 0 then CHR ''-'' # show_nat (nat (- i)) else show_nat (nat i))"

text \<open>\<^verbatim>\<open>str::parse::<f64>\<close>: sign, \<^verbatim>\<open>inf\<close>, \<^verbatim>\<open>nan\<close> in any case, or digits with a point and an exponent.\<close>

definition parse_exponent :: "string \<Rightarrow> int option" where
  "parse_exponent s =
     (case s of
        [] \<Rightarrow> None
      | c # r \<Rightarrow>
          (let d = (if c = CHR ''-'' \<or> c = CHR ''+'' then r else s)
           in if d \<noteq> [] \<and> list_all is_ascii_digit d
              then Some (if c = CHR ''-'' then - int (dec_value d) else int (dec_value d)) else None))"

definition parse_f64_unsigned :: "string \<Rightarrow> rat option" where
  "parse_f64_unsigned s =
     (let mantissa = takeWhile (\<lambda>c. c \<noteq> CHR ''e'' \<and> c \<noteq> CHR ''E'') s;
          rest = dropWhile (\<lambda>c. c \<noteq> CHR ''e'' \<and> c \<noteq> CHR ''E'') s;
          (whole, frac) = (case split_once CHR ''.'' mantissa of None \<Rightarrow> (mantissa, []) | Some p \<Rightarrow> p)
      in if whole = [] \<and> frac = [] \<or> \<not> list_all is_ascii_digit whole \<or> \<not> list_all is_ascii_digit frac
         then None
         else map_option (\<lambda>e. of_nat (dec_value (whole @ frac)) / 10 ^ length frac * 10 powi e)
                (if rest = [] then Some 0 else parse_exponent (tl rest)))"

fun fl_neg :: "fl \<Rightarrow> fl" where
  "fl_neg NaN = NaN"
| "fl_neg PInf = NInf"
| "fl_neg NInf = PInf"
| "fl_neg (Fin a) = Fin (- a)"

definition parse_f64 :: "string \<Rightarrow> fl option" where
  "parse_f64 s =
     (let neg = (case s of c # r \<Rightarrow> c = CHR ''-'' | [] \<Rightarrow> False);
          d = (if neg then tl s else drop_plus s);
          v = (if str_to_lowercase d \<in> {''inf'', ''infinity''} then Some PInf
               else if str_to_lowercase d = ''nan'' then Some NaN
               else map_option round_f64 (parse_f64_unsigned d))
      in map_option (if neg then fl_neg else id) v)"

fun fl_abs :: "fl \<Rightarrow> fl" where
  "fl_abs (Fin a) = Fin \<bar>a\<bar>"
| "fl_abs NInf = PInf"
| "fl_abs x = x"

fun fl_add :: "fl \<Rightarrow> fl \<Rightarrow> fl" where
  "fl_add (Fin a) (Fin b) = round_f64 (a + b)"
| "fl_add NaN y = NaN"
| "fl_add x NaN = NaN"
| "fl_add PInf NInf = NaN"
| "fl_add NInf PInf = NaN"
| "fl_add (Fin a) y = y"
| "fl_add x y = x"

definition fl_sub :: "fl \<Rightarrow> fl \<Rightarrow> fl" where
  "fl_sub x y = fl_add x (fl_neg y)"

text \<open>\<^verbatim>\<open>f64::max\<close> ignores a NaN operand.\<close>

fun fl_max :: "fl \<Rightarrow> fl \<Rightarrow> fl" where
  "fl_max NaN y = y"
| "fl_max x NaN = x"
| "fl_max x y = (if fl_le x y then y else x)"

text \<open>\<^verbatim>\<open>f64::round\<close> (halves away from zero), the cast \<^verbatim>\<open>f64 as i64\<close>, and casts of integers.\<close>

fun fl_round :: "fl \<Rightarrow> fl" where
  "fl_round (Fin a) = Fin (of_int (if a < 0 then - \<lfloor>1 / 2 - a\<rfloor> else \<lfloor>a + 1 / 2\<rfloor>))"
| "fl_round x = x"

fun fl_to_i64 :: "fl \<Rightarrow> int" where
  "fl_to_i64 NaN = 0"
| "fl_to_i64 NInf = - (2 ^ 63)"
| "fl_to_i64 PInf = 2 ^ 63 - 1"
| "fl_to_i64 (Fin a) = max (- (2 ^ 63)) (min (2 ^ 63 - 1) (if a < 0 then \<lceil>a\<rceil> else \<lfloor>a\<rfloor>))"

definition fl_of_int :: "int \<Rightarrow> fl" where
  "fl_of_int i = round_f64 (of_int i)"

text \<open>
  \<^verbatim>\<open>{:.p}\<close> prints the exact number rounded to \<^verbatim>\<open>p\<close> digits, halves to even; a negative number keeps
  its sign when it rounds to zero.
\<close>

definition show_fixed_mag :: "nat \<Rightarrow> rat \<Rightarrow> string" where
  "show_fixed_mag p x =
     (let n = nat (round_half_even (x * 10 ^ p)); frac = show_nat (n mod 10 ^ p)
      in show_nat (n div 10 ^ p)
         @ (if p = 0 then [] else CHR ''.'' # replicate (p - length frac) CHR ''0'' @ frac))"

fun show_fixed :: "nat \<Rightarrow> fl \<Rightarrow> string" where
  "show_fixed p NaN = ''NaN''"
| "show_fixed p PInf = ''inf''"
| "show_fixed p NInf = ''-inf''"
| "show_fixed p (Fin a) = (if a < 0 then CHR ''-'' # show_fixed_mag p (- a) else show_fixed_mag p a)"

section \<open>BTreeMap\<close>

fun bt_insert :: "'k::linorder \<Rightarrow> 'v \<Rightarrow> ('k \<times> 'v) list \<Rightarrow> ('k \<times> 'v) list" where
  "bt_insert k v [] = [(k, v)]"
| "bt_insert k v ((k', v') # m) =
     (if k < k' then (k, v) # (k', v') # m else if k = k' then (k, v) # m else (k', v') # bt_insert k v m)"

text \<open>\<^verbatim>\<open>entry(k).or_insert(d)\<close>, then a change of the value in place.\<close>

definition bt_entry :: "'k::linorder \<Rightarrow> 'v \<Rightarrow> ('v \<Rightarrow> 'v) \<Rightarrow> ('k \<times> 'v) list \<Rightarrow> ('k \<times> 'v) list" where
  "bt_entry k d f m = bt_insert k (f (case map_of m k of None \<Rightarrow> d | Some v \<Rightarrow> v)) m"

definition bt_wf :: "('k::linorder \<times> 'v) list \<Rightarrow> bool" where
  "bt_wf m = sorted_wrt (<) (map fst m)"

lemma bt_insert_keys: "set (map fst (bt_insert k v m)) = insert k (set (map fst m))"
  by (induction k v m rule: bt_insert.induct) auto

lemma bt_wf_insert: "bt_wf m \<Longrightarrow> bt_wf (bt_insert k v m)"
proof (induction k v m rule: bt_insert.induct)
  case (2 k v k' v' m)
  then show ?case using bt_insert_keys [of k v m] by (auto simp: bt_wf_def)
qed (simp add: bt_wf_def)

lemma map_of_bt_insert: "bt_wf m \<Longrightarrow> map_of (bt_insert k v m) = (map_of m)(k \<mapsto> v)"
proof (induction k v m rule: bt_insert.induct)
  case (2 k v k' v' m)
  then show ?case by (auto simp: bt_wf_def fun_eq_iff)
qed (simp add: bt_wf_def)

lemma bt_wf_entry: "bt_wf m \<Longrightarrow> bt_wf (bt_entry k d f m)"
  by (simp add: bt_entry_def bt_wf_insert)

lemma map_of_bt_entry:
  "bt_wf m \<Longrightarrow> map_of (bt_entry k d f m) k' =
     (if k' = k then Some (f (case map_of m k of None \<Rightarrow> d | Some v \<Rightarrow> v)) else map_of m k')"
  by (simp add: bt_entry_def map_of_bt_insert)

lemma bt_wf_Nil [simp]: "bt_wf []"
  by (simp add: bt_wf_def)

lemma bt_keys: "bt_wf m \<Longrightarrow> map fst m = sorted_list_of_set (dom (map_of m))"
  unfolding bt_wf_def dom_map_of_conv_image_fst
  by (metis list.set_map sorted_list_of_set.idem_if_sorted_distinct strict_sorted_iff)

text \<open>A sorted map is determined by what it looks up to.\<close>

lemma bt_eqI:
  assumes "bt_wf m" "bt_wf m'" "map_of m = map_of m'"
  shows "m = m'"
proof -
  have keys: "map fst m = map fst m'" using bt_keys [OF assms(1)] bt_keys [OF assms(2)] assms(3) by simp
  have d: "distinct (map fst m)" "distinct (map fst m')"
    using assms(1,2) by (auto simp: bt_wf_def strict_sorted_iff)
  have "map snd m = map (\<lambda>k. the (map_of m k)) (map fst m)" if "distinct (map fst m)" for m :: "('a \<times> 'b) list"
    using that by (auto simp: distinct_map_fst_Some)
  then show ?thesis using keys d assms(3) by (metis pair_list_eqI)
qed

end
