(* ===== verification/Overview.thy ===== *)
theory Overview
  imports Protocol Rust_Num "HOL-Library.Sublist" "HOL-Library.Product_Lexorder"
begin

text \<open>
  The overview page of the GUI, \<^verbatim>\<open>apps/linsight-gui/src/qobjects/overview_model.rs\<close>: the tiles and
  the samples applied to them, the throughput of network interfaces and disks, the texts it
  shows, the sample pump with its reconnects, the queue that coalesces updates for the Qt
  thread, and the parser of the bundled licence notices. serde_json is the parameter \<open>J\<close>; the
  Qt object is the list of the actions it is sent. U+2026, outside the modelled character range,
  is the constant \<open>ELLIPSIS\<close>.
\<close>

section \<open>Texts\<close>

definition ELLIPSIS :: string where
  "ELLIPSIS = [CHR 0x85]"

record 'j gui_json =
  gui_to_json :: "Cell \<Rightarrow> 'j option"
  gui_null :: 'j
  gui_display :: "fl \<Rightarrow> string"

definition json_or_empty :: "string option \<Rightarrow> string" where
  "json_or_empty s = (case s of Some t \<Rightarrow> t | None \<Rightarrow> ''[]'')"

definition format_bytes :: "(fl \<Rightarrow> string) \<Rightarrow> fl \<Rightarrow> string" where
  "format_bytes show_f64 v =
     (let x = fl_abs v
      in if fl_le (Fin (1024 ^ 4)) x then show_fixed 2 (fl_div v (Fin (1024 ^ 4))) @ '' TiB''
         else if fl_le (Fin (1024 ^ 3)) x then show_fixed 2 (fl_div v (Fin (1024 ^ 3))) @ '' GiB''
         else if fl_le (Fin (1024 ^ 2)) x then show_fixed 2 (fl_div v (Fin (1024 ^ 2))) @ '' MiB''
         else if fl_le (Fin 1024) x then show_fixed 2 (fl_div v (Fin 1024)) @ '' KiB''
         else show_f64 v @ '' B'')"

definition format_bytes_capacity :: "(fl \<Rightarrow> string) \<Rightarrow> fl \<Rightarrow> string" where
  "format_bytes_capacity show_f64 v =
     (let x = fl_abs v
      in if fl_le (Fin (1024 ^ 4)) x
         then show_int (fl_to_i64 (fl_round (fl_div v (Fin (1024 ^ 4))))) @ '' TB''
         else if fl_le (Fin (1024 ^ 3)) x
         then show_int (fl_to_i64 (fl_round (fl_div v (Fin (1024 ^ 3))))) @ '' GB''
         else format_bytes show_f64 v)"

definition format_hertz :: "fl \<Rightarrow> string" where
  "format_hertz v =
     (let x = fl_abs v
      in if fl_le (Fin 1000000000) x then show_fixed 2 (fl_div v (Fin 1000000000)) @ '' GHz''
         else if fl_le (Fin 1000000) x then show_fixed 0 (fl_div v (Fin 1000000)) @ '' MHz''
         else if fl_le (Fin 1000) x then show_fixed 0 (fl_div v (Fin 1000)) @ '' kHz''
         else show_fixed 0 v @ '' Hz'')"

definition format_scalar :: "(fl \<Rightarrow> string) \<Rightarrow> fl \<Rightarrow> Unit \<Rightarrow> string" where
  "format_scalar show_f64 v unit =
     (case unit of
        Percent \<Rightarrow> show_fixed 1 v @ ''%''
      | Celsius \<Rightarrow> show_fixed 1 v @ [CHR 0xB0, CHR ''C'']
      | Bytes \<Rightarrow> format_bytes show_f64 v
      | BytesPerSec \<Rightarrow> show_int (fl_to_i64 v) @ '' B/s''
      | Hertz \<Rightarrow> format_hertz v
      | Watts \<Rightarrow> show_fixed 1 v @ '' W''
      | Volts \<Rightarrow> show_fixed 3 v @ '' V''
      | Rpm \<Rightarrow> show_fixed 0 v @ '' rpm''
      | Count \<Rightarrow> show_f64 v
      | Custom s \<Rightarrow> show_f64 v @ '' '' @ s)"

definition format_counter :: "(fl \<Rightarrow> string) \<Rightarrow> u64 \<Rightarrow> Unit \<Rightarrow> string" where
  "format_counter show_f64 v unit =
     (case unit of Bytes \<Rightarrow> format_bytes show_f64 (fl_of_u64 v) | _ \<Rightarrow> show_nat (unat v))"

definition json_rows :: "'j gui_json \<Rightarrow> TableRow list \<Rightarrow> 'j list list" where
  "json_rows J rows =
     map (\<lambda>row. map (\<lambda>c. case gui_to_json J c of Some j \<Rightarrow> j | None \<Rightarrow> gui_null J) (cells row)) rows"

definition format_reading_with_rows :: "'j gui_json \<Rightarrow> Reading \<Rightarrow> Unit \<Rightarrow> bool \<Rightarrow> string \<times> 'j list list" where
  "format_reading_with_rows J r unit is_static =
     (let bytes_capacity = (is_static \<and> unit = Bytes); show_f64 = gui_display J
      in case r of
           Scalar v \<Rightarrow> (if bytes_capacity then format_bytes_capacity show_f64 v else format_scalar show_f64 v unit, [])
         | Counter v \<Rightarrow>
             (if bytes_capacity then format_bytes_capacity show_f64 (fl_of_u64 v) else format_counter show_f64 v unit, [])
         | State s \<Rightarrow> (s, [])
         | Table rows \<Rightarrow> (''<'' @ show_nat (length rows) @ '' rows>'', json_rows J rows))"

definition serialize_category :: "Category \<Rightarrow> string" where
  "serialize_category c =
     (case c of CatCpu \<Rightarrow> ''cpu'' | CatGpu \<Rightarrow> ''gpu'' | CatMemory \<Rightarrow> ''memory'' | CatStorage \<Rightarrow> ''storage''
      | CatNetwork \<Rightarrow> ''network'' | CatCustom \<Rightarrow> ''custom'')"

definition serialize_kind :: "SensorKind \<Rightarrow> string" where
  "serialize_kind k =
     (case k of KindScalar \<Rightarrow> ''scalar'' | KindCounter \<Rightarrow> ''counter'' | KindTable \<Rightarrow> ''table'' | KindState \<Rightarrow> ''state'')"

definition info_label_for :: "SensorInfo \<Rightarrow> string option" where
  "info_label_for info =
     (case info_device_label info of Some d \<Rightarrow> if d \<noteq> [] then Some d else None | None \<Rightarrow> None)"

definition parent_device_for :: "SensorInfo \<Rightarrow> string option" where
  "parent_device_for info =
     (case List.map_filter (strip_prefix ''parent:'') (info_tags info) of [] \<Rightarrow> None | s # _ \<Rightarrow> Some s)"

definition PROC_KEYS :: "string list" where
  "PROC_KEYS = [''pid'', ''name'', ''cpu'', ''mem'', ''rss'', ''threads'', ''state'']"

definition serialize_proc_rows ::
  "((string \<times> 'j) list list \<Rightarrow> string option) \<Rightarrow> 'j \<Rightarrow> 'j list list \<Rightarrow> string" where
  "serialize_proc_rows to_string null rows =
     json_or_empty (to_string
       (map (\<lambda>row. map (\<lambda>(i, key). (key, if i < length row then row ! i else null)) (enumerate 0 PROC_KEYS)) rows))"

section \<open>Tiles\<close>

record 'j TileJson =
  tile_id :: string
  tile_category :: string
  tile_device :: "string option"
  tile_name :: string
  tile_device_label :: "string option"
  tile_parent_device :: "string option"
  tile_text :: string
  tile_kind :: string
  tile_unit :: string
  tile_sparkline :: "fl list"
  tile_rows :: "'j list list"
  tile_last_raw :: u64
  tile_last_ts :: u64

record NetworkInterfaceJson =
  ni_iface :: string
  ni_rx_bytes :: fl
  ni_tx_bytes :: fl
  ni_rx_packets :: fl
  ni_tx_packets :: fl
  ni_rx_errors :: fl
  ni_tx_errors :: fl
  ni_rx_dropped :: fl
  ni_tx_dropped :: fl
  ni_link_state :: string
  ni_speed_mbps :: fl

record DiskRateJson =
  dr_device :: string
  dr_read :: fl
  dr_written :: fl

record 'j SampleState =
  ss_tiles :: "(string \<times> 'j TileJson) list"
  ss_id_order :: "string list"
  ss_units :: "(string \<times> Unit) list"
  ss_static_ids :: "string list"
  ss_net_prev :: "(string \<times> u64 \<times> u64) list"
  ss_disk_prev :: "(string \<times> u64 \<times> u64) list"
  ss_disk_hold :: "(string \<times> u64 \<times> fl) list"
  ss_dirty :: "string list"

definition serialize_tiles ::
  "('j TileJson list \<Rightarrow> string option) \<Rightarrow> string list \<Rightarrow> (string \<times> 'j TileJson) list \<Rightarrow> string" where
  "serialize_tiles to_string order tiles = json_or_empty (to_string (List.map_filter (map_of tiles) order))"

definition new_tile :: "SensorInfo \<Rightarrow> 'j TileJson" where
  "new_tile info =
     \<lparr>tile_id = info_id info, tile_category = serialize_category (info_category info),
      tile_device = info_device_id info, tile_name = info_display_name info,
      tile_device_label = info_label_for info, tile_parent_device = parent_device_for info,
      tile_text = ELLIPSIS, tile_kind = serialize_kind (info_kind info),
      tile_unit = symbol (info_unit info), tile_sparkline = [], tile_rows = [],
      tile_last_raw = 0, tile_last_ts = 0\<rparr>"

definition build_step :: "SensorInfo \<Rightarrow> 'j SampleState \<Rightarrow> 'j SampleState" where
  "build_step info st =
     st\<lparr>ss_static_ids :=
          (if STATIC_TAG \<in> set (info_tags info) then List.insert (info_id info) (ss_static_ids st) else ss_static_ids st),
        ss_id_order := ss_id_order st @ [info_id info],
        ss_units := AList.update (info_id info) (info_unit info) (ss_units st),
        ss_tiles := AList.update (info_id info) (new_tile info) (ss_tiles st)\<rparr>"

definition build_sample_state :: "SensorInfo list \<Rightarrow> 'j SampleState" where
  "build_sample_state infos =
     fold build_step infos
       \<lparr>ss_tiles = [], ss_id_order = [], ss_units = [], ss_static_ids = [], ss_net_prev = [], ss_disk_prev = [],
        ss_disk_hold = [], ss_dirty = []\<rparr>"

definition SPARKLINE_MAX_POINTS :: nat where
  "SPARKLINE_MAX_POINTS = 30"

definition push_point :: "fl \<Rightarrow> fl list \<Rightarrow> fl list" where
  "push_point v sparkline =
     (let s = sparkline @ [v] in if SPARKLINE_MAX_POINTS < length s then tl s else s)"

definition sampled_tile :: "string \<Rightarrow> 'j list list \<Rightarrow> Sample \<Rightarrow> 'j TileJson \<Rightarrow> 'j TileJson" where
  "sampled_tile text rows sample tile =
     (let t = tile\<lparr>tile_text := text, tile_rows := rows, tile_last_ts := sample_ts_micros sample\<rparr>
      in case sample_reading sample of
           Counter v \<Rightarrow> t\<lparr>tile_last_raw := v\<rparr>
         | Scalar v \<Rightarrow> t\<lparr>tile_sparkline := push_point v (tile_sparkline t)\<rparr>
         | _ \<Rightarrow> t)"

definition apply_sample :: "'j gui_json \<Rightarrow> Sample \<Rightarrow> 'j SampleState \<Rightarrow> 'j SampleState" where
  "apply_sample J sample st =
     (let id = sample_sensor sample;
          unit = (case map_of (ss_units st) id of Some u \<Rightarrow> u | None \<Rightarrow> Count);
          (text, rows) = format_reading_with_rows J (sample_reading sample) unit (id \<in> set (ss_static_ids st))
      in case map_of (ss_tiles st) id of
           None \<Rightarrow> st
         | Some tile \<Rightarrow>
             st\<lparr>ss_tiles := AList.update id (sampled_tile text rows sample tile) (ss_tiles st),
                ss_dirty := List.insert id (ss_dirty st)\<rparr>)"

text \<open>What \<^verbatim>\<open>try_recv\<close> still finds in the channel is the list it is given.\<close>

fun drain_loop :: "'j gui_json \<Rightarrow> (u64 \<times> Sample) list \<Rightarrow> nat \<times> u64 \<times> 'j SampleState \<Rightarrow> nat \<times> u64 \<times> 'j SampleState" where
  "drain_loop J [] acc = acc"
| "drain_loop J ((g, smp) # rx) (count, current_g, st) =
     (if g < current_g then drain_loop J rx (count, current_g, st)
      else drain_loop J rx (count + 1, if current_g < g then g else current_g, apply_sample J smp st))"

definition drain_into_state ::
  "'j gui_json \<Rightarrow> (u64 \<times> Sample) list \<Rightarrow> Sample \<Rightarrow> u64 \<Rightarrow> 'j SampleState \<Rightarrow> nat \<times> u64 \<times> 'j SampleState" where
  "drain_into_state J rx first current_g st = drain_loop J rx (1, current_g, apply_sample J first st)"

definition dirty_ids :: "'j SampleState \<Rightarrow> string list" where
  "dirty_ids st =
     fold (\<lambda>sid ids. case map_of (ss_tiles st) sid of
                       Some t \<Rightarrow> if tile_last_ts t \<noteq> 0 then List.insert sid ids else ids
                     | None \<Rightarrow> ids)
       (ss_static_ids st) (ss_dirty st)"

definition take_dirty_tiles_json ::
  "('j TileJson list \<Rightarrow> string option) \<Rightarrow> 'j SampleState \<Rightarrow> string \<times> 'j SampleState" where
  "take_dirty_tiles_json to_string st =
     (let ids = dirty_ids st
      in (if ids = [] then ''[]'' else json_or_empty (to_string (List.map_filter (map_of (ss_tiles st)) ids)),
          st\<lparr>ss_dirty := []\<rparr>))"

section \<open>Throughput\<close>

definition counter_rate :: "(u64 \<times> u64) option \<Rightarrow> u64 \<Rightarrow> u64 \<Rightarrow> fl" where
  "counter_rate prev ts raw =
     (if ts = 0 then Fin 0
      else case prev of
             None \<Rightarrow> Fin 0
           | Some (prev_ts, prev_val) \<Rightarrow>
               (let delta_val = saturating_sub raw prev_val; delta_us = saturating_sub ts prev_ts
                in if 0 < delta_us
                   then fl_div (fl_of_u64 delta_val) (fl_div (fl_of_u64 delta_us) (Fin 1000000)) else Fin 0))"

definition NET_METRICS :: "string list" where
  "NET_METRICS =
     [''rx_bytes'', ''tx_bytes'', ''rx_packets'', ''tx_packets'', ''rx_errors'', ''tx_errors'', ''rx_dropped'', ''tx_dropped'']"

definition net_default :: "string \<Rightarrow> NetworkInterfaceJson" where
  "net_default iface =
     \<lparr>ni_iface = iface, ni_rx_bytes = Fin 0, ni_tx_bytes = Fin 0, ni_rx_packets = Fin 0, ni_tx_packets = Fin 0,
      ni_rx_errors = Fin 0, ni_tx_errors = Fin 0, ni_rx_dropped = Fin 0, ni_tx_dropped = Fin 0,
      ni_link_state = [], ni_speed_mbps = Fin 0\<rparr>"

definition set_net_rate :: "string \<Rightarrow> fl \<Rightarrow> NetworkInterfaceJson \<Rightarrow> NetworkInterfaceJson" where
  "set_net_rate metric rate e =
     (if metric = ''rx_bytes'' then e\<lparr>ni_rx_bytes := rate\<rparr>
      else if metric = ''tx_bytes'' then e\<lparr>ni_tx_bytes := rate\<rparr>
      else if metric = ''rx_packets'' then e\<lparr>ni_rx_packets := rate\<rparr>
      else if metric = ''tx_packets'' then e\<lparr>ni_tx_packets := rate\<rparr>
      else if metric = ''rx_errors'' then e\<lparr>ni_rx_errors := rate\<rparr>
      else if metric = ''tx_errors'' then e\<lparr>ni_tx_errors := rate\<rparr>
      else if metric = ''rx_dropped'' then e\<lparr>ni_rx_dropped := rate\<rparr>
      else if metric = ''tx_dropped'' then e\<lparr>ni_tx_dropped := rate\<rparr>
      else e)"

definition parse_speed :: "string \<Rightarrow> fl" where
  "parse_speed text =
     (case split_whitespace text of
        [] \<Rightarrow> Fin (- 1)
      | s # _ \<Rightarrow> (case parse_f64 s of Some v \<Rightarrow> v | None \<Rightarrow> Fin (- 1)))"

definition update_net_entry :: "string \<Rightarrow> fl \<Rightarrow> string \<Rightarrow> NetworkInterfaceJson \<Rightarrow> NetworkInterfaceJson" where
  "update_net_entry metric rate text e =
     (if metric \<in> set NET_METRICS then set_net_rate metric rate e
      else if metric = ''link_state'' then e\<lparr>ni_link_state := text\<rparr>
      else if metric = ''speed_mbps'' then e\<lparr>ni_speed_mbps := parse_speed text\<rparr>
      else e)"

type_synonym net_acc = "(string \<times> NetworkInterfaceJson) list \<times> (string \<times> u64 \<times> u64) list"

definition net_step :: "(string \<times> 'j TileJson) list \<Rightarrow> string \<Rightarrow> net_acc \<Rightarrow> net_acc" where
  "net_step tiles sid acc =
     (case strip_prefix ''net.'' sid of
        None \<Rightarrow> acc
      | Some rest \<Rightarrow>
          (case rsplit_once CHR ''.'' rest of
             None \<Rightarrow> acc
           | Some (iface, metric) \<Rightarrow>
               (case map_of tiles sid of
                  None \<Rightarrow> acc
                | Some tile \<Rightarrow>
                    (let (by_iface, prev) = acc; ts = tile_last_ts tile; raw = tile_last_raw tile;
                         rate = counter_rate (map_of prev sid) ts raw
                     in (bt_entry iface (net_default iface) (update_net_entry metric rate (tile_text tile)) by_iface,
                         if metric \<in> set NET_METRICS then AList.update sid (ts, raw) prev else prev)))))"

definition net_ids :: "(string \<times> 'j TileJson) list \<Rightarrow> string list" where
  "net_ids tiles = filter (starts_with ''net.'') (map fst tiles)"

definition compute_network_rates ::
  "(NetworkInterfaceJson list \<Rightarrow> string option) \<Rightarrow> 'j SampleState \<Rightarrow> string \<times> 'j SampleState" where
  "compute_network_rates to_string st =
     (let (by_iface, prev) = fold (net_step (ss_tiles st)) (net_ids (ss_tiles st)) ([], ss_net_prev st)
      in (json_or_empty (to_string (map snd by_iface)),
          st\<lparr>ss_net_prev := filter (\<lambda>(id, _). id \<in> set (net_ids (ss_tiles st))) prev\<rparr>))"

definition HOLD_US :: u64 where
  "HOLD_US = 5000000"

definition is_disk_rate_id :: "string \<Rightarrow> bool" where
  "is_disk_rate_id sid =
     ((starts_with ''disk.'' sid \<or> starts_with ''nvme.'' sid) \<and> (ends_with ''.bytes_read'' sid \<or> ends_with ''.bytes_written'' sid))"

definition hold_rate :: "fl \<Rightarrow> u64 \<Rightarrow> (u64 \<times> fl) option \<Rightarrow> fl" where
  "hold_rate raw_rate ts hold =
     (if fl_lt (Fin 0) raw_rate then raw_rate
      else case hold of
             Some (hold_ts, rate) \<Rightarrow> if saturating_sub ts hold_ts < HOLD_US then rate else Fin 0
           | None \<Rightarrow> Fin 0)"

type_synonym disk_acc =
  "(string \<times> DiskRateJson) list \<times> (string \<times> u64 \<times> u64) list \<times> (string \<times> u64 \<times> fl) list"

definition disk_step :: "(string \<times> 'j TileJson) list \<Rightarrow> string \<Rightarrow> disk_acc \<Rightarrow> disk_acc" where
  "disk_step tiles sid acc =
     (case rsplit_once CHR ''.'' sid of
        None \<Rightarrow> acc
      | Some (_, metric) \<Rightarrow>
          (case map_of tiles sid of
             None \<Rightarrow> acc
           | Some tile \<Rightarrow>
               (if tile_device tile \<in> {None, Some []} then acc
                else
                  (let device = the (tile_device tile); (by_device, prev, hold) = acc;
                       ts = tile_last_ts tile; raw = tile_last_raw tile;
                       raw_rate = counter_rate (map_of prev sid) ts raw;
                       hold' = (if fl_lt (Fin 0) raw_rate then AList.update sid (ts, raw_rate) hold else hold);
                       rate = hold_rate raw_rate ts (map_of hold sid)
                   in (bt_entry device \<lparr>dr_device = device, dr_read = Fin 0, dr_written = Fin 0\<rparr>
                         (\<lambda>e. if metric = ''bytes_read'' then e\<lparr>dr_read := rate\<rparr>
                              else if metric = ''bytes_written'' then e\<lparr>dr_written := rate\<rparr> else e) by_device,
                       AList.update sid (ts, raw) prev, hold')))))"

definition compute_disk_rates ::
  "(DiskRateJson list \<Rightarrow> string option) \<Rightarrow> 'j SampleState \<Rightarrow> string \<times> 'j SampleState" where
  "compute_disk_rates to_string st =
     (let tiles = ss_tiles st;
          active = filter (\<lambda>id. starts_with ''disk.'' id \<or> starts_with ''nvme.'' id) (map fst tiles);
          (by_device, prev, hold) =
            fold (disk_step tiles) (filter is_disk_rate_id (map fst tiles)) ([], ss_disk_prev st, ss_disk_hold st)
      in (json_or_empty (to_string (map snd by_device)),
          st\<lparr>ss_disk_prev := filter (\<lambda>(id, _). id \<in> set active) prev,
             ss_disk_hold := filter (\<lambda>(id, _). id \<in> set active) hold\<rparr>))"

section \<open>The sample pump\<close>

record SampleUiUpdate =
  up_tiles_changed_json :: string
  up_network_json :: string
  up_disk_json :: string
  up_cpu_text :: "string option"
  up_mem_text :: "string option"
  up_cpu_temp_text :: "string option"
  up_cpu_freq_text :: "string option"
  up_processes_json :: string

record 'j json_printers =
  print_tiles :: "'j TileJson list \<Rightarrow> string option"
  print_net :: "NetworkInterfaceJson list \<Rightarrow> string option"
  print_disk :: "DiskRateJson list \<Rightarrow> string option"
  print_rows :: "(string \<times> 'j) list list \<Rightarrow> string option"

datatype pump_event =
    PumpReceived u64 Sample "(u64 \<times> Sample) list"
  | PumpTimeout bool
  | PumpDisconnected

text \<open>What the pump asks of the Qt thread, the coalescing queue and the workspace.\<close>

datatype pump_action =
    SetConnected bool | ResetPage string | QueueUpdate SampleUiUpdate | ReplaceSubscriptions "SensorId list"

record 'j pump =
  pm_last_alive :: bool
  pm_current_g :: u64
  pm_state :: "'j SampleState"

definition auto_subs :: "SensorInfo list \<Rightarrow> SensorId list" where
  "auto_subs infos = filter (\<lambda>id. id \<noteq> ''proc.list'') (map info_id infos)"

definition render_update ::
  "'j gui_json \<Rightarrow> 'j json_printers \<Rightarrow> 'j SampleState \<Rightarrow> SampleUiUpdate \<times> 'j SampleState" where
  "render_update J P st =
     (let (delta_json, st1) = take_dirty_tiles_json (print_tiles P) st;
          (network_json, st2) = compute_network_rates (print_net P) st1;
          (disk_json, st3) = compute_disk_rates (print_disk P) st2;
          text = (\<lambda>id. map_option tile_text (map_of (ss_tiles st3) id))
      in (\<lparr>up_tiles_changed_json = delta_json, up_network_json = network_json, up_disk_json = disk_json,
           up_cpu_text = text ''cpu.util'', up_mem_text = text ''mem.used_bytes'',
           up_cpu_temp_text = text ''cpu.temp_c'', up_cpu_freq_text = text ''cpu.freq_hz'',
           up_processes_json =
             (case map_of (ss_tiles st3) ''proc.list'' of
                Some t \<Rightarrow> serialize_proc_rows (print_rows P) (gui_null J) (tile_rows t) | None \<Rightarrow> ''[]'')\<rparr>,
          st3))"

definition pump_rebuild ::
  "'j json_printers \<Rightarrow> SensorInfo list \<Rightarrow> u64 \<Rightarrow> 'j pump \<Rightarrow> pump_action list \<times> 'j pump" where
  "pump_rebuild P infos g p =
     (if pm_current_g p < g
      then (let st = build_sample_state infos
            in ([ReplaceSubscriptions (auto_subs infos),
                 ResetPage (serialize_tiles (print_tiles P) (ss_id_order st) (ss_tiles st))],
                p\<lparr>pm_current_g := g, pm_state := st\<rparr>))
      else ([], p))"

text \<open>One turn of the pump's loop; \<open>None\<close> is the end of the thread.\<close>

definition pump_turn ::
  "'j gui_json \<Rightarrow> 'j json_printers \<Rightarrow> SensorInfo list \<Rightarrow> pump_event \<Rightarrow> 'j pump \<Rightarrow> pump_action list \<times> 'j pump option" where
  "pump_turn J P infos ev p =
     (case ev of
        PumpReceived g first rx \<Rightarrow>
          (if g < pm_current_g p then ([], Some p)
           else
             (let (acts, p1) = pump_rebuild P infos g p;
                  alive = (if pm_last_alive p1 then [] else [SetConnected True]);
                  (_, g2, st2) = drain_into_state J rx first (pm_current_g p1) (pm_state p1);
                  (update, st3) = render_update J P st2
              in (acts @ alive @ [QueueUpdate update],
                  Some \<lparr>pm_last_alive = True, pm_current_g = g2, pm_state = st3\<rparr>)))
      | PumpTimeout alive_now \<Rightarrow>
          (if alive_now \<noteq> pm_last_alive p
           then ([SetConnected alive_now], Some (p\<lparr>pm_last_alive := alive_now\<rparr>)) else ([], Some p))
      | PumpDisconnected \<Rightarrow> ([SetConnected False], None))"

text \<open>The catalogue thread: a broadcast renames the tiles it knows.\<close>

definition rename_tile :: "SensorInfo \<Rightarrow> 'j SampleState \<Rightarrow> 'j SampleState" where
  "rename_tile info st =
     (case map_of (ss_tiles st) (info_id info) of
        None \<Rightarrow> st
      | Some tile \<Rightarrow>
          st\<lparr>ss_tiles := AList.update (info_id info)
               (tile\<lparr>tile_name := info_display_name info, tile_device_label := info_label_for info,
                      tile_parent_device := parent_device_for info\<rparr>) (ss_tiles st)\<rparr>)"

definition catalogue_refresh ::
  "'j json_printers \<Rightarrow> u64 \<Rightarrow> u64 \<times> SensorInfo list \<Rightarrow> 'j SampleState \<Rightarrow> string option \<times> 'j SampleState" where
  "catalogue_refresh P generation msg st =
     (let (g, fresh) = msg
      in if g < generation then (None, st)
         else (let st' = fold rename_tile fresh st
               in (Some (serialize_tiles (print_tiles P) (ss_id_order st') (ss_tiles st')), st')))"


section \<open>The coalescing queue\<close>

text \<open>
  \<^verbatim>\<open>CoalescedSampleUiQueue\<close>: the last update not yet shown, and the flag that says whether somebody
  has taken on to queue a closure on the Qt thread. The lock and the atomic flag are separate, so
  the operations are composed of atomic steps that other threads may interleave with.
\<close>

record 'u ui_queue =
  uq_pending :: "'u option"
  uq_queued :: bool

definition put_pending :: "'u \<Rightarrow> 'u ui_queue \<Rightarrow> 'u ui_queue" where
  "put_pending u q = q\<lparr>uq_pending := Some u\<rparr>"

definition swap_queued :: "'u ui_queue \<Rightarrow> bool \<times> 'u ui_queue" where
  "swap_queued q = (\<not> uq_queued q, q\<lparr>uq_queued := True\<rparr>)"

definition take_pending :: "'u ui_queue \<Rightarrow> 'u option \<times> 'u ui_queue" where
  "take_pending q = (uq_pending q, q\<lparr>uq_pending := None\<rparr>)"

definition unset_queued :: "'u ui_queue \<Rightarrow> 'u ui_queue" where
  "unset_queued q = q\<lparr>uq_queued := False\<rparr>"

definition queue_store :: "'u \<Rightarrow> 'u ui_queue \<Rightarrow> bool \<times> 'u ui_queue" where
  "queue_store u q = swap_queued (put_pending u q)"

definition finish_and_should_requeue :: "'u ui_queue \<Rightarrow> bool \<times> 'u ui_queue" where
  "finish_and_should_requeue q =
     (let q1 = unset_queued q in if uq_pending q1 = None then (False, q1) else swap_queued q1)"

definition clear_after_queue_error :: "'u ui_queue \<Rightarrow> 'u ui_queue" where
  "clear_after_queue_error q = unset_queued (snd (take_pending q))"

text \<open>
  The two threads: the pump stores an update and, when it was first, queues a drain; the Qt thread
  runs the drains one at a time. \<open>ui_closures\<close> counts the drains in Qt's event queue, the histories
  record what was stored and what was shown.
\<close>

datatype producer_pc = PIdle | PStored | PMustQueue

datatype drainer_pc = DIdle | DFinish | DCheck | DSwap | DMustQueue

record 'u ui =
  ui_queue :: "'u ui_queue"
  ui_producer :: producer_pc
  ui_drainer :: drainer_pc
  ui_closures :: nat
  ui_stored :: "'u list"
  ui_shown :: "'u list"

definition ui_start :: "'u ui" where
  "ui_start =
     \<lparr>ui_queue = \<lparr>uq_pending = None, uq_queued = False\<rparr>, ui_producer = PIdle, ui_drainer = DIdle,
      ui_closures = 0, ui_stored = [], ui_shown = []\<rparr>"

text \<open>A new update arrives.\<close>

definition ui_store :: "'u \<Rightarrow> 'u ui \<Rightarrow> 'u ui" where
  "ui_store u s =
     s\<lparr>ui_queue := put_pending u (ui_queue s), ui_producer := PStored, ui_stored := ui_stored s @ [u]\<rparr>"

text \<open>The pump's next step (\<^verbatim>\<open>queue_sample_ui_update\<close>), while the Qt object lives.\<close>

fun producer_step :: "'u ui \<Rightarrow> 'u ui option" where
  "producer_step s =
     (case ui_producer s of
        PIdle \<Rightarrow> None
      | PStored \<Rightarrow>
          (let (first, q) = swap_queued (ui_queue s)
           in Some (s\<lparr>ui_queue := q, ui_producer := (if first then PMustQueue else PIdle)\<rparr>))
      | PMustQueue \<Rightarrow> Some (s\<lparr>ui_closures := Suc (ui_closures s), ui_producer := PIdle\<rparr>))"

text \<open>The Qt thread's next step (\<^verbatim>\<open>queue_sample_ui_drain\<close>).\<close>

fun drainer_step :: "'u ui \<Rightarrow> 'u ui option" where
  "drainer_step s =
     (case ui_drainer s of
        DIdle \<Rightarrow>
          (case ui_closures s of
             0 \<Rightarrow> None
           | Suc n \<Rightarrow>
               (let (update, q) = take_pending (ui_queue s)
                in Some (s\<lparr>ui_queue := q, ui_closures := n, ui_drainer := DFinish,
                           ui_shown := ui_shown s @ (case update of Some u \<Rightarrow> [u] | None \<Rightarrow> [])\<rparr>)))
      | DFinish \<Rightarrow> Some (s\<lparr>ui_queue := unset_queued (ui_queue s), ui_drainer := DCheck\<rparr>)
      | DCheck \<Rightarrow> Some (s\<lparr>ui_drainer := (if uq_pending (ui_queue s) = None then DIdle else DSwap)\<rparr>)
      | DSwap \<Rightarrow>
          (let (first, q) = swap_queued (ui_queue s)
           in Some (s\<lparr>ui_queue := q, ui_drainer := (if first then DMustQueue else DIdle)\<rparr>))
      | DMustQueue \<Rightarrow> Some (s\<lparr>ui_closures := Suc (ui_closures s), ui_drainer := DIdle\<rparr>))"

inductive ui_step :: "'u ui \<Rightarrow> 'u ui \<Rightarrow> bool" where
  Producer: "producer_step s = Some s' \<Longrightarrow> ui_step s s'"
| Drainer: "drainer_step s = Some s' \<Longrightarrow> ui_step s s'"

inductive ui_reach :: "'u ui \<Rightarrow> bool" where
  Start: "ui_reach ui_start"
| Store: "ui_reach s \<Longrightarrow> ui_producer s = PIdle \<Longrightarrow> ui_reach (ui_store u s)"
| Step: "ui_reach s \<Longrightarrow> ui_step s s' \<Longrightarrow> ui_reach s'"

definition ui_tokens :: "'u ui \<Rightarrow> nat" where
  "ui_tokens s =
     ui_closures s + (if ui_producer s = PMustQueue then 1 else 0)
     + (if ui_drainer s = DFinish \<or> ui_drainer s = DMustQueue then 1 else 0)"

text \<open>What the histories say of the update that is still pending.\<close>

definition hist_ok :: "'u list \<Rightarrow> 'u option \<Rightarrow> 'u list \<Rightarrow> bool" where
  "hist_ok shown pending stored =
     (subseq (shown @ (case pending of Some u \<Rightarrow> [u] | None \<Rightarrow> [])) stored
      \<and> (stored \<noteq> [] \<longrightarrow>
           (case pending of Some u \<Rightarrow> u = last stored | None \<Rightarrow> shown \<noteq> [] \<and> last shown = last stored)))"

definition ui_inv :: "'u ui \<Rightarrow> bool" where
  "ui_inv s =
     (let q = ui_queue s
      in ui_tokens s = (if uq_queued q then 1 else 0)
       \<and> (uq_pending q \<noteq> None \<longrightarrow> uq_queued q \<or> ui_producer s = PStored \<or> ui_drainer s = DCheck \<or> ui_drainer s = DSwap)
       \<and> (ui_drainer s = DSwap \<longrightarrow> uq_pending q \<noteq> None)
       \<and> hist_ok (ui_shown s) (uq_pending q) (ui_stored s))"

lemmas ui_defs = put_pending_def swap_queued_def take_pending_def unset_queued_def ui_store_def ui_tokens_def

lemma subseq_appendD: "subseq (xs @ ys) zs \<Longrightarrow> subseq xs zs"
  by (metis list_emb_append2 list_emb_appendD subseq_order.order_refl append_Nil2 list_emb_append_mono list_emb_Nil subseq_order.trans)

lemma hist_ok_store: "hist_ok shown pending stored \<Longrightarrow> hist_ok shown (Some u) (stored @ [u])"
  by (auto simp: hist_ok_def subseq_append dest: subseq_appendD)

lemma hist_ok_take: "hist_ok shown pending stored \<Longrightarrow> hist_ok (shown @ (case pending of Some u \<Rightarrow> [u] | None \<Rightarrow> [])) None stored"
  by (auto simp: hist_ok_def split: option.splits)

lemma ui_inv_start: "ui_inv ui_start"
  by (simp add: ui_inv_def ui_start_def ui_tokens_def hist_ok_def)

lemma ui_inv_store: "ui_inv s \<Longrightarrow> ui_producer s = PIdle \<Longrightarrow> ui_inv (ui_store u s)"
  by (auto simp: ui_inv_def Let_def ui_defs intro: hist_ok_store)

lemma ui_inv_producer:
  assumes "ui_inv s" "producer_step s = Some s'"
  shows "ui_inv s'"
  using assms by (cases "ui_producer s") (auto simp: ui_inv_def Let_def ui_defs split: if_splits)

lemma ui_inv_drainer:
  assumes "ui_inv s" "drainer_step s = Some s'"
  shows "ui_inv s'"
proof (cases "ui_drainer s")
  case DIdle
  then obtain n where n: "ui_closures s = Suc n" using assms(2) by (cases "ui_closures s") auto
  show ?thesis using assms DIdle n by (auto simp: ui_inv_def Let_def ui_defs intro: hist_ok_take split: if_splits)
qed (use assms in \<open>auto simp: ui_inv_def Let_def ui_defs split: if_splits\<close>)

lemma ui_inv_reach: "ui_reach s \<Longrightarrow> ui_inv s"
  by (induction rule: ui_reach.induct)
    (auto simp: ui_inv_start ui_inv_store simp del: producer_step.simps drainer_step.simps
      elim!: ui_step.cases dest: ui_inv_producer ui_inv_drainer)


text \<open>While nothing new is stored the two threads finish: a weight bounds the steps that are left.\<close>

definition ui_weight :: "'u ui \<Rightarrow> nat" where
  "ui_weight s =
     (if uq_pending (ui_queue s) = None then 0 else 30)
     + 5 * ui_closures s
     + (case ui_producer s of PIdle \<Rightarrow> 0 | PStored \<Rightarrow> 7 | PMustQueue \<Rightarrow> 6)
     + (case ui_drainer s of
          DIdle \<Rightarrow> 0 | DFinish \<Rightarrow> if uq_pending (ui_queue s) = None then 4 else 9
        | DCheck \<Rightarrow> if uq_pending (ui_queue s) = None then 3 else 8 | DSwap \<Rightarrow> 7 | DMustQueue \<Rightarrow> 6)"

lemma producer_weight: "ui_inv s \<Longrightarrow> producer_step s = Some s' \<Longrightarrow> ui_weight s' < ui_weight s"
  by (cases "ui_producer s") (auto simp: ui_weight_def Let_def ui_defs split: if_splits)

lemma drainer_weight:
  assumes "ui_inv s" "drainer_step s = Some s'"
  shows "ui_weight s' < ui_weight s"
proof (cases "ui_drainer s")
  case DIdle
  then obtain n where n: "ui_closures s = Suc n" using assms(2) by (cases "ui_closures s") auto
  show ?thesis using assms DIdle n by (auto simp: ui_weight_def Let_def ui_defs split: if_splits)
next
  case DSwap
  then have "uq_pending (ui_queue s) \<noteq> None" using assms(1) by (simp add: ui_inv_def Let_def)
  then show ?thesis using assms(2) DSwap by (auto simp: ui_weight_def Let_def ui_defs split: if_splits)
qed (use assms in \<open>auto simp: ui_weight_def Let_def ui_defs split: if_splits\<close>)

lemma ui_step_weight: "ui_inv s \<Longrightarrow> ui_step s s' \<Longrightarrow> ui_weight s' < ui_weight s"
  by (auto elim!: ui_step.cases simp del: producer_step.simps drainer_step.simps intro: producer_weight drainer_weight)

lemma ui_weight_le:
  assumes "ui_inv s"
  shows "ui_weight s \<le> 51"
proof -
  have "ui_tokens s \<le> 1" using assms by (simp add: ui_inv_def Let_def)
  then show ?thesis by (auto simp: ui_weight_def ui_tokens_def split: producer_pc.splits drainer_pc.splits if_splits)
qed

inductive ui_run :: "nat \<Rightarrow> 'u ui \<Rightarrow> 'u ui \<Rightarrow> bool" where
  Stop: "ui_run 0 s s"
| Go: "ui_step s s' \<Longrightarrow> ui_run n s' s'' \<Longrightarrow> ui_run (Suc n) s s''"

lemma ui_run_weight: "ui_run n s s' \<Longrightarrow> ui_reach s \<Longrightarrow> ui_reach s' \<and> n + ui_weight s' \<le> ui_weight s \<and> ui_stored s' = ui_stored s"
proof (induction rule: ui_run.induct)
  case (Go s s' n s'')
  have "ui_weight s' < ui_weight s" by (rule ui_step_weight [OF ui_inv_reach [OF Go.prems] Go.hyps(1)])
  moreover have "ui_stored s' = ui_stored s" using Go.hyps(1)
    by cases (auto split: producer_pc.split_asm drainer_pc.split_asm nat.split_asm simp: Let_def split_beta)
  ultimately show ?case using Go.IH ui_reach.Step [OF Go.prems Go.hyps(1)] by auto
qed simp

lemma ui_stuck:
  assumes "ui_inv s" "\<nexists>s'. ui_step s s'"
  shows "ui_producer s = PIdle" "ui_drainer s = DIdle" "ui_closures s = 0" "uq_pending (ui_queue s) = None"
proof -
  have none: "producer_step s = None" "drainer_step s = None"
    using assms(2) ui_step.intros by (metis not_Some_eq)+
  show p: "ui_producer s = PIdle" using none(1) by (cases "ui_producer s") (auto simp: Let_def split_beta)
  show d: "ui_drainer s = DIdle" using none(2) by (cases "ui_drainer s") (auto simp: Let_def split_beta split: nat.split_asm)
  show c: "ui_closures s = 0" using none(2) d by (auto simp: Let_def split_beta split: nat.split_asm)
  show "uq_pending (ui_queue s) = None" using assms(1) p d c
    by (auto simp: ui_inv_def Let_def ui_tokens_def split: if_splits)
qed

text \<open>
  C33: No update is lost and none is shown twice or out of order. However the pump and the Qt thread
  interleave between the lock and the flag, at most one drain is under way, what was shown is a
  subsequence of what was stored, and once nothing new arrives both threads stop within 51 steps,
  with the latest update shown.
\<close>

theorem ui_updates_shown:
  assumes "ui_reach s"
  shows "ui_tokens s \<le> 1 \<and> subseq (ui_shown s) (ui_stored s)
    \<and> (\<forall>n s'. ui_run n s s' \<longrightarrow> n \<le> 51
         \<and> ((\<nexists>s''. ui_step s' s'') \<longrightarrow> ui_stored s \<noteq> [] \<longrightarrow> ui_shown s' \<noteq> [] \<and> last (ui_shown s') = last (ui_stored s)))"
proof -
  note inv = ui_inv_reach [OF assms]
  have "n \<le> 51 \<and> ((\<nexists>s''. ui_step s' s'') \<longrightarrow> ui_stored s \<noteq> [] \<longrightarrow>
      ui_shown s' \<noteq> [] \<and> last (ui_shown s') = last (ui_stored s))" if "ui_run n s s'" for n s'
  proof -
    have r: "ui_reach s'" "n + ui_weight s' \<le> ui_weight s" "ui_stored s' = ui_stored s"
      using ui_run_weight [OF that assms] by auto
    have "hist_ok (ui_shown s') None (ui_stored s')" if "\<nexists>s''. ui_step s' s''"
      using ui_inv_reach [OF r(1)] ui_stuck [OF ui_inv_reach [OF r(1)] that] by (simp add: ui_inv_def Let_def)
    then show ?thesis using r ui_weight_le [OF inv] by (auto simp: hist_ok_def)
  qed
  moreover have "subseq (ui_shown s) (ui_stored s)"
    using inv by (auto simp: ui_inv_def Let_def hist_ok_def dest: subseq_appendD)
  ultimately show ?thesis using inv by (auto simp: ui_inv_def Let_def)
qed


section \<open>Network rates\<close>

text \<open>The sensor of a metric of an interface, and the rates the page should show for it.\<close>

definition net_id :: "string \<Rightarrow> string \<Rightarrow> string" where
  "net_id iface metric = ''net.'' @ iface @ CHR ''.'' # metric"

definition rate_in :: "(string \<times> 'j TileJson) list \<Rightarrow> (string \<times> u64 \<times> u64) list \<Rightarrow> string set \<Rightarrow> string \<Rightarrow> string \<Rightarrow> fl" where
  "rate_in tiles prev D i m =
     (case map_of tiles (net_id i m) of
        Some t \<Rightarrow> if net_id i m \<in> D then counter_rate (map_of prev (net_id i m)) (tile_last_ts t) (tile_last_raw t) else Fin 0
      | None \<Rightarrow> Fin 0)"

definition text_in :: "(string \<times> 'j TileJson) list \<Rightarrow> string set \<Rightarrow> string \<Rightarrow> string \<Rightarrow> string option" where
  "text_in tiles D i m = (if net_id i m \<in> D then map_option tile_text (map_of tiles (net_id i m)) else None)"

definition rates_in :: "(string \<times> 'j TileJson) list \<Rightarrow> (string \<times> u64 \<times> u64) list \<Rightarrow> string set \<Rightarrow> string \<Rightarrow> NetworkInterfaceJson" where
  "rates_in tiles prev D i =
     (let r = rate_in tiles prev D i
      in \<lparr>ni_iface = i, ni_rx_bytes = r ''rx_bytes'', ni_tx_bytes = r ''tx_bytes'', ni_rx_packets = r ''rx_packets'',
          ni_tx_packets = r ''tx_packets'', ni_rx_errors = r ''rx_errors'', ni_tx_errors = r ''tx_errors'',
          ni_rx_dropped = r ''rx_dropped'', ni_tx_dropped = r ''tx_dropped'',
          ni_link_state = (case text_in tiles D i ''link_state'' of Some t \<Rightarrow> t | None \<Rightarrow> []),
          ni_speed_mbps = (case text_in tiles D i ''speed_mbps'' of Some t \<Rightarrow> parse_speed t | None \<Rightarrow> Fin 0)\<rparr>)"

definition iface_rates :: "'j SampleState \<Rightarrow> string \<Rightarrow> NetworkInterfaceJson" where
  "iface_rates st = rates_in (ss_tiles st) (ss_net_prev st) UNIV"

definition ifaces :: "'j SampleState \<Rightarrow> string set" where
  "ifaces st = {i. \<exists>m. CHR ''.'' \<notin> set m \<and> net_id i m \<in> set (map fst (ss_tiles st))}"

lemma net_id_inj: "CHR ''.'' \<notin> set a \<Longrightarrow> CHR ''.'' \<notin> set b \<Longrightarrow> net_id i a = net_id j b \<longleftrightarrow> i = j \<and> a = b"
  by (auto simp: net_id_def) (metis option.inject prod.inject rsplit_once_Some)+

lemma net_id_split: "strip_prefix ''net.'' sid = Some rest \<and> rsplit_once CHR ''.'' rest = Some (i, m)
    \<longleftrightarrow> sid = net_id i m \<and> rest = i @ CHR ''.'' # m \<and> CHR ''.'' \<notin> set m"
  by (auto simp: strip_prefix_Some rsplit_once_Some net_id_def)

lemma net_metric_no_dot: "m \<in> set NET_METRICS \<Longrightarrow> CHR ''.'' \<notin> set m"
  by (auto simp: NET_METRICS_def)

lemma net_step_id:
  assumes "CHR ''.'' \<notin> set m" "map_of tiles (net_id i m) = Some t"
  shows "net_step tiles (net_id i m) (by, prev) =
     (bt_entry i (net_default i) (update_net_entry m (counter_rate (map_of prev (net_id i m)) (tile_last_ts t) (tile_last_raw t)) (tile_text t)) by,
      if m \<in> set NET_METRICS then AList.update (net_id i m) (tile_last_ts t, tile_last_raw t) prev else prev)"
proof -
  have "strip_prefix ''net.'' (net_id i m) = Some (i @ CHR ''.'' # m)" "rsplit_once CHR ''.'' (i @ CHR ''.'' # m) = Some (i, m)"
    using net_id_split [of "net_id i m" "i @ CHR ''.'' # m" i m] assms(1) by auto
  then show ?thesis using assms(2) by (simp add: net_step_def Let_def)
qed

lemma net_step_other:
  assumes "\<And>i m. sid = net_id i m \<Longrightarrow> CHR ''.'' \<in> set m"
  shows "net_step tiles sid acc = acc"
proof -
  have "rsplit_once CHR ''.'' rest = None" if "strip_prefix ''net.'' sid = Some rest" for rest
    using assms net_id_split that by (cases "rsplit_once CHR ''.'' rest") fastforce+
  then show ?thesis by (simp add: net_step_def split: option.splits)
qed

lemma rates_in_cong:
  assumes "\<And>m. CHR ''.'' \<notin> set m \<Longrightarrow> net_id i m \<in> D \<longleftrightarrow> net_id i m \<in> D'"
  shows "rates_in tiles prev D i = rates_in tiles prev D' i"
proof -
  have "rate_in tiles prev D i m = rate_in tiles prev D' i m" "text_in tiles D i m = text_in tiles D' i m"
    if "CHR ''.'' \<notin> set m" for m using assms [OF that] by (simp_all only: rate_in_def text_in_def)
  then show ?thesis by (simp add: rates_in_def Let_def)
qed

lemma rates_in_empty:
  assumes "\<And>m. CHR ''.'' \<notin> set m \<Longrightarrow> net_id i m \<notin> D"
  shows "rates_in tiles prev D i = net_default i"
proof -
  have "rate_in tiles prev D i m = Fin 0" "text_in tiles D i m = None"
    if "CHR ''.'' \<notin> set m" for m using assms [OF that] by (simp_all add: rate_in_def text_in_def split: option.splits)
  then show ?thesis by (simp add: rates_in_def net_default_def Let_def)
qed

lemma rates_in_insert:
  assumes m: "CHR ''.'' \<notin> set m" and t: "map_of tiles (net_id i m) = Some t" and new: "net_id i m \<notin> D"
  shows "rates_in tiles prev (insert (net_id i m) D) i =
    update_net_entry m (counter_rate (map_of prev (net_id i m)) (tile_last_ts t) (tile_last_raw t)) (tile_text t) (rates_in tiles prev D i)"
    (is "_ = update_net_entry m ?r _ _")
proof -
  define E where "E = insert (net_id i m) D"
  have rate: "rate_in tiles prev E i a = (if a = m then ?r else rate_in tiles prev D i a)"
    and label: "text_in tiles E i a = (if a = m then Some (tile_text t) else text_in tiles D i a)"
    if "CHR ''.'' \<notin> set a" for a
    using net_id_inj [OF that m, of i i] t new by (auto simp: E_def rate_in_def text_in_def split: option.splits)
  note unfold = update_net_entry_def rates_in_def Let_def rate label
  have "rates_in tiles prev E i = update_net_entry m ?r (tile_text t) (rates_in tiles prev D i)"
  proof (cases "m \<in> set NET_METRICS")
    case True
    then show ?thesis unfolding NET_METRICS_def
      by (simp only: set_simps insert_iff empty_iff) (elim disjE FalseE; simp add: unfold set_net_rate_def NET_METRICS_def)
  next
    case False
    then have "a \<noteq> m" if "a \<in> set NET_METRICS" for a using that by blast
    then show ?thesis using False by (auto simp: NET_METRICS_def unfold)
  qed
  then show ?thesis by (simp add: E_def)
qed

definition net_prev_in :: "(string \<times> 'j TileJson) list \<Rightarrow> (string \<times> u64 \<times> u64) list \<Rightarrow> string set \<Rightarrow> string \<Rightarrow> (u64 \<times> u64) option" where
  "net_prev_in tiles prev D k =
     (case map_of tiles k of
        Some t \<Rightarrow> if k \<in> D \<and> (\<exists>i m. m \<in> set NET_METRICS \<and> k = net_id i m) then Some (tile_last_ts t, tile_last_raw t) else map_of prev k
      | None \<Rightarrow> map_of prev k)"

lemma fold_net_step:
  assumes "distinct sids" "set sids \<subseteq> set (map fst tiles)"
    and "fold (net_step tiles) sids ([], prev) = (by_iface, prev')"
  shows "bt_wf by_iface
    \<and> (\<forall>i. map_of by_iface i = (if \<exists>m. CHR ''.'' \<notin> set m \<and> net_id i m \<in> set sids then Some (rates_in tiles prev (set sids) i) else None))
    \<and> (\<forall>k. map_of prev' k = net_prev_in tiles prev (set sids) k)"
  using assms
proof (induction sids arbitrary: by_iface prev' rule: rev_induct)
  case Nil
  then show ?case by (auto simp: net_prev_in_def split: option.splits)
next
  case (snoc sid sids)
  obtain b p where bp: "fold (net_step tiles) sids ([], prev) = (b, p)" by (cases "fold (net_step tiles) sids ([], prev)")
  have IH: "bt_wf b"
    "map_of b i = (if \<exists>m. CHR ''.'' \<notin> set m \<and> net_id i m \<in> set sids then Some (rates_in tiles prev (set sids) i) else None)"
    "map_of p k = net_prev_in tiles prev (set sids) k" for i k
    using snoc.IH [OF _ _ bp] snoc.prems by auto
  have step: "net_step tiles sid (b, p) = (by_iface, prev')" using snoc.prems(3) bp by simp
  show ?case
  proof (cases "\<exists>i m. sid = net_id i m \<and> CHR ''.'' \<notin> set m")
    case True
    then obtain i m where im: "sid = net_id i m" "CHR ''.'' \<notin> set m" by auto
    obtain t where t: "map_of tiles (net_id i m) = Some t" using snoc.prems(2) im
      by (metis in_set_conv_decomp map_of_eq_None_iff not_Some_eq list.set_map subset_eq)
    have new: "net_id i m \<notin> set sids" using snoc.prems(1) im by auto
    have old: "map_of p (net_id i m) = map_of prev (net_id i m)" using new by (simp add: IH(3) net_prev_in_def t)
    let ?f = "update_net_entry m (counter_rate (map_of prev (net_id i m)) (tile_last_ts t) (tile_last_raw t)) (tile_text t)"
    have at: "(case map_of b i of None \<Rightarrow> net_default i | Some v \<Rightarrow> v) = rates_in tiles prev (set sids) i"
    proof (cases "\<exists>m. CHR ''.'' \<notin> set m \<and> net_id i m \<in> set sids")
      case False
      then have "rates_in tiles prev (set sids) i = net_default i" by (intro rates_in_empty) auto
      then show ?thesis using False by (simp add: IH(2))
    qed (simp add: IH(2))
    have by_iface: "by_iface = bt_entry i (net_default i) ?f b"
      and prev': "prev' = (if m \<in> set NET_METRICS then AList.update (net_id i m) (tile_last_ts t, tile_last_raw t) p else p)"
      using step by (simp_all add: im(1) net_step_id [where i = i and m = m, OF im(2) t] old)
    have "map_of by_iface j = (if \<exists>m. CHR ''.'' \<notin> set m \<and> net_id j m \<in> set (sids @ [sid])
        then Some (rates_in tiles prev (set (sids @ [sid])) j) else None)" for j
    proof (cases "j = i")
      case True
      then show ?thesis using im rates_in_insert [OF im(2) t new]
        by (auto simp: by_iface map_of_bt_entry [OF IH(1)] at)
    next
      case False
      then have "net_id j n \<noteq> sid" if "CHR ''.'' \<notin> set n" for n using net_id_inj [OF that im(2)] im(1) by simp
      moreover from this have "rates_in tiles prev (set (sids @ [sid])) j = rates_in tiles prev (set sids) j"
        by (intro rates_in_cong) auto
      ultimately show ?thesis using False by (auto simp: by_iface map_of_bt_entry [OF IH(1)] IH(2))
    qed
    moreover have "map_of prev' k = net_prev_in tiles prev (set (sids @ [sid])) k" for k
      using im t net_id_inj [OF net_metric_no_dot im(2)] net_id_inj [OF im(2) net_metric_no_dot]
      by (auto simp: prev' update_conv' IH(3) net_prev_in_def split: option.splits)
    ultimately show ?thesis by (auto simp: by_iface intro: bt_wf_entry [OF IH(1)])
  next
    case False
    have "net_step tiles sid (b, p) = (b, p)" by (rule net_step_other) (use False in auto)
    then have eq: "by_iface = b" "prev' = p" using step by auto
    have no: "net_id i m \<noteq> sid" if "CHR ''.'' \<notin> set m" for i m using False that by auto
    then have "rates_in tiles prev (set (sids @ [sid])) i = rates_in tiles prev (set sids) i" for i
      by (intro rates_in_cong) auto
    moreover have "net_prev_in tiles prev (set (sids @ [sid])) k = net_prev_in tiles prev (set sids) k" for k
      using no net_metric_no_dot by (auto simp: net_prev_in_def split: option.splits)
    moreover have "(\<exists>m. CHR ''.'' \<notin> set m \<and> net_id i m \<in> set (sids @ [sid])) \<longleftrightarrow> (\<exists>m. CHR ''.'' \<notin> set m \<and> net_id i m \<in> set sids)" for i
      using no by fastforce
    ultimately show ?thesis using IH by (simp only: eq) blast
  qed
qed

lemma net_ids_iff: "sid \<in> set (net_ids tiles) \<longleftrightarrow> sid \<in> set (map fst tiles) \<and> starts_with ''net.'' sid"
  by (auto simp: net_ids_def)

lemma starts_net_id: "starts_with ''net.'' (net_id i m)"
  by (simp add: starts_with_def net_id_def)


lemma ifaces_iff: "i \<in> ifaces st \<longleftrightarrow> (\<exists>m. CHR ''.'' \<notin> set m \<and> net_id i m \<in> set (net_ids (ss_tiles st)))"
  by (auto simp: ifaces_def net_ids_iff starts_net_id)

lemma rates_in_all: "rates_in tiles prev (set (net_ids tiles)) i = rates_in tiles prev UNIV i"
proof -
  have known: "map_of tiles k = Some t \<Longrightarrow> k \<in> set (map fst tiles)" for k t
    by (metis map_of_eq_None_iff option.distinct(1) list.set_map)
  have "rate_in tiles prev (set (net_ids tiles)) i m = rate_in tiles prev UNIV i m"
    "text_in tiles (set (net_ids tiles)) i m = text_in tiles UNIV i m" for m
    using known by (auto simp: rate_in_def text_in_def net_ids_iff starts_net_id map_of_eq_None_iff split: option.splits)
  then show ?thesis by (simp add: rates_in_def Let_def)
qed

lemma map_of_filter_ids: "map_of (filter (\<lambda>(k, _). k \<in> S) m) k = (if k \<in> S then map_of m k else None)"
  by (induction m) auto

text \<open>
  The network page shows, whatever order the hash map yields its sensors in, exactly one row per
  interface, in the order of their names, with the rate of each of its eight counters since the
  previous tick, its link state and its speed; afterwards the previous counters are the current
  ones, and interfaces that are gone leave nothing behind.
\<close>

theorem network_rates_exact:
  assumes "distinct (map fst (ss_tiles st))"
  shows "\<exists>prev. compute_network_rates to_string st =
      (json_or_empty (to_string (map (iface_rates st) (sorted_list_of_set (ifaces st)))), st\<lparr>ss_net_prev := prev\<rparr>)
    \<and> (\<forall>k. map_of prev k =
         (if \<not> starts_with ''net.'' k then None
          else case map_of (ss_tiles st) k of
                 None \<Rightarrow> None
               | Some t \<Rightarrow> if \<exists>i m. m \<in> set NET_METRICS \<and> k = net_id i m then Some (tile_last_ts t, tile_last_raw t)
                           else map_of (ss_net_prev st) k))"
proof -
  let ?tiles = "ss_tiles st" and ?ids = "net_ids (ss_tiles st)"
  obtain b p where bp: "fold (net_step ?tiles) ?ids ([], ss_net_prev st) = (b, p)" by (cases "fold (net_step ?tiles) ?ids ([], ss_net_prev st)")
  have d: "distinct ?ids" "set ?ids \<subseteq> set (map fst ?tiles)" using assms by (auto simp: net_ids_def)
  have b: "bt_wf b" and at: "map_of b i = (if i \<in> ifaces st then Some (iface_rates st i) else None)"
    and p: "map_of p k = net_prev_in ?tiles (ss_net_prev st) (set ?ids) k" for i k
    using fold_net_step [OF d bp] by (auto simp: ifaces_iff rates_in_all iface_rates_def)
  have keys: "map fst b = sorted_list_of_set (ifaces st)"
    unfolding bt_keys [OF b] by (rule arg_cong [where f = sorted_list_of_set]) (auto simp: at split: if_splits)
  have row: "snd kv = iface_rates st (fst kv)" if "kv \<in> set b" for kv
  proof -
    have "map_of b (fst kv) = Some (snd kv)" using that b by (simp add: bt_wf_def strict_sorted_iff)
    then show ?thesis by (simp add: at split: if_splits)
  qed
  have "map snd b = map (iface_rates st) (map fst b)" by (simp add: row)
  then have rows: "map snd b = map (iface_rates st) (sorted_list_of_set (ifaces st))" by (simp only: keys)
  have "map_of (filter (\<lambda>(sid, _). sid \<in> set ?ids) p) k =
         (if \<not> starts_with ''net.'' k then None
          else case map_of (ss_tiles st) k of
                 None \<Rightarrow> None
               | Some t \<Rightarrow> if \<exists>i m. m \<in> set NET_METRICS \<and> k = net_id i m then Some (tile_last_ts t, tile_last_raw t)
                           else map_of (ss_net_prev st) k)" for k
  proof -
    have "k \<in> set ?ids \<longleftrightarrow> starts_with ''net.'' k \<and> (\<exists>t. map_of ?tiles k = Some t)"
      unfolding net_ids_iff list.set_map by (metis map_of_eq_None_iff not_Some_eq)
    then show ?thesis unfolding map_of_filter_ids p net_prev_in_def by (auto split: option.splits)
  qed
  then show ?thesis using rows by (auto simp: compute_network_rates_def bp)
qed


section \<open>Tiles stay bounded and current\<close>

lemma push_point_last:
  assumes "sparkline = drop (length vs - SPARKLINE_MAX_POINTS) vs"
  shows "push_point v sparkline = drop (length (vs @ [v]) - SPARKLINE_MAX_POINTS) (vs @ [v])"
proof (cases "length vs < 30")
  case False
  then obtain n where n: "length vs = n + 30" by (metis add.commute le_Suc_ex not_less)
  then have "drop (Suc n) vs = tl (drop n vs)" "drop n vs \<noteq> []" by (auto simp: drop_Suc tl_drop)
  then show ?thesis using n assms by (simp add: push_point_def Let_def SPARKLINE_MAX_POINTS_def Suc_diff_le)
qed (use assms in \<open>simp add: push_point_def Let_def SPARKLINE_MAX_POINTS_def\<close>)

lemma apply_sample_tile:
  "\<exists>shown rows. \<forall>sid. map_of (ss_tiles (apply_sample J s st)) sid =
     (if sid = sample_sensor s then map_option (sampled_tile shown rows s) (map_of (ss_tiles st) sid) else map_of (ss_tiles st) sid)"
proof -
  obtain t r where "format_reading_with_rows J (sample_reading s)
      (case map_of (ss_units st) (sample_sensor s) of Some u \<Rightarrow> u | None \<Rightarrow> Count) (sample_sensor s \<in> set (ss_static_ids st)) = (t, r)"
    by fastforce
  then have "\<forall>sid. map_of (ss_tiles (apply_sample J s st)) sid =
     (if sid = sample_sensor s then map_option (sampled_tile t r s) (map_of (ss_tiles st) sid) else map_of (ss_tiles st) sid)"
    by (auto simp: apply_sample_def Let_def update_conv' split: option.splits)
  then show ?thesis by blast
qed

lemma apply_sample_fields:
  "ss_id_order (apply_sample J s st) = ss_id_order st" "ss_net_prev (apply_sample J s st) = ss_net_prev st"
  by (simp_all add: apply_sample_def Let_def split_beta split: option.splits)

lemma build_state_tiles:
  "map_of (ss_tiles (fold build_step infos st)) sid =
     (case find (\<lambda>info. info_id info = sid) (rev infos) of Some info \<Rightarrow> Some (new_tile info) | None \<Rightarrow> map_of (ss_tiles st) sid)"
  by (induction infos rule: rev_induct) (auto simp: build_step_def update_conv')

lemma build_state_order: "ss_id_order (build_sample_state infos) = map info_id infos"
proof -
  have "ss_id_order (fold build_step infos st) = ss_id_order st @ map info_id infos" for st :: "'a SampleState"
    by (induction infos arbitrary: st) (simp_all add: build_step_def)
  then show ?thesis by (simp add: build_sample_state_def)
qed

text \<open>The scalars of a sensor among the samples, oldest first.\<close>

definition scalar_of :: "Reading \<Rightarrow> fl list" where
  "scalar_of r = (case r of Scalar v \<Rightarrow> [v] | _ \<Rightarrow> [])"

definition scalars_of :: "string \<Rightarrow> Sample list \<Rightarrow> fl list" where
  "scalars_of sid samples = concat (map (\<lambda>s. if sample_sensor s = sid then scalar_of (sample_reading s) else []) samples)"

lemma sampled_sparkline:
  "tile_sparkline (sampled_tile shown rows s t) = (case sample_reading s of Scalar v \<Rightarrow> push_point v (tile_sparkline t) | _ \<Rightarrow> tile_sparkline t)"
  by (simp add: sampled_tile_def Let_def split: Reading.splits)

text \<open>
  Each tile's sparkline is exactly the last thirty scalars its sensor sent since the tile was
  built, oldest first, whatever the other sensors sent in between.
\<close>

theorem sparkline_window:
  assumes "sid \<in> set (map info_id infos)"
  shows "\<exists>tile. map_of (ss_tiles (fold (apply_sample J) samples (build_sample_state infos))) sid = Some tile
    \<and> tile_sparkline tile = drop (length (scalars_of sid samples) - SPARKLINE_MAX_POINTS) (scalars_of sid samples)"
proof (induction samples rule: rev_induct)
  case Nil
  have "find (\<lambda>info. info_id info = sid) (rev infos) \<noteq> None" using assms by (auto simp: find_None_iff)
  then show ?case by (auto simp: build_sample_state_def build_state_tiles scalars_of_def new_tile_def)
next
  case (snoc s samples)
  let ?st = "fold (apply_sample J) samples (build_sample_state infos)"
  obtain tile where tile: "map_of (ss_tiles ?st) sid = Some tile"
    "tile_sparkline tile = drop (length (scalars_of sid samples) - SPARKLINE_MAX_POINTS) (scalars_of sid samples)"
    using snoc.IH by auto
  obtain shown rows where "map_of (ss_tiles (apply_sample J s ?st)) sid =
     (if sid = sample_sensor s then map_option (sampled_tile shown rows s) (map_of (ss_tiles ?st) sid) else map_of (ss_tiles ?st) sid)"
    using apply_sample_tile [of J s ?st] by blast
  then show ?case using tile push_point_last [OF tile(2)]
    by (auto simp: scalars_of_def scalar_of_def sampled_sparkline split: Reading.splits)
qed

section \<open>Two defects\<close>

text \<open>
  Before a counter has its first sample the page ticks with time stamp 0 and remembers that as the
  previous sample.
\<close>

lemma counter_rate_epoch:
  "0 < ts \<Longrightarrow> counter_rate (Some (0, 0)) ts v = fl_div (fl_of_u64 v) (fl_div (fl_of_u64 ts) (Fin 1000000))"
  by (auto simp: counter_rate_def saturating_sub_def Let_def)

text \<open>
  The first rate shown for an interface is wrong: if the page ticked once before the first
  sample of the byte counter, it shows the bytes since boot divided by the seconds since 1970, not
  zero.
\<close>

theorem first_rate_since_epoch:
  assumes "distinct (map fst (ss_tiles st))"
    and tile: "map_of (ss_tiles st) (net_id i ''rx_bytes'') = Some t" "tile_last_ts t = 0" "tile_last_raw t = 0"
    and ts: "0 < ts"
  shows "let ticked = snd (compute_network_rates to_string st);
             first = \<lparr>sample_sensor = net_id i ''rx_bytes'', sample_ts_micros = ts, sample_reading = Counter v\<rparr>
         in ni_rx_bytes (iface_rates (apply_sample J first ticked) i) = fl_div (fl_of_u64 v) (fl_div (fl_of_u64 ts) (Fin 1000000))"
proof -
  define st' where "st' = apply_sample J \<lparr>sample_sensor = net_id i ''rx_bytes'', sample_ts_micros = ts, sample_reading = Counter v\<rparr>
      (snd (compute_network_rates to_string st))"
  obtain prev where c: "snd (compute_network_rates to_string st) = st\<lparr>ss_net_prev := prev\<rparr>"
    and prev: "\<And>k. map_of prev k = (if \<not> starts_with ''net.'' k then None
          else case map_of (ss_tiles st) k of
                 None \<Rightarrow> None
               | Some t \<Rightarrow> if \<exists>i m. m \<in> set NET_METRICS \<and> k = net_id i m then Some (tile_last_ts t, tile_last_raw t)
                           else map_of (ss_net_prev st) k)"
    using network_rates_exact [OF assms(1), of to_string] by auto
  have "map_of prev (net_id i ''rx_bytes'') = Some (0, 0)"
    using tile by (auto simp: prev starts_net_id NET_METRICS_def)
  moreover obtain shown rows where "map_of (ss_tiles st') (net_id i ''rx_bytes'') = Some (sampled_tile shown rows
      \<lparr>sample_sensor = net_id i ''rx_bytes'', sample_ts_micros = ts, sample_reading = Counter v\<rparr> t)"
    using apply_sample_tile [of J "\<lparr>sample_sensor = net_id i ''rx_bytes'', sample_ts_micros = ts, sample_reading = Counter v\<rparr>"
        "st\<lparr>ss_net_prev := prev\<rparr>"] tile(1) by (auto simp: st'_def c)
  ultimately show ?thesis unfolding Let_def st'_def [symmetric]
    by (simp add: iface_rates_def rates_in_def Let_def rate_in_def sampled_tile_def apply_sample_fields st'_def c counter_rate_epoch [OF ts])
qed


text \<open>The pump over a list of events, each with the catalogue the workspace holds at that moment.\<close>

fun pump_run ::
  "'j gui_json \<Rightarrow> 'j json_printers \<Rightarrow> (SensorInfo list \<times> pump_event) list \<Rightarrow> 'j pump \<Rightarrow> pump_action list \<times> 'j pump option" where
  "pump_run J P [] p = ([], Some p)"
| "pump_run J P ((infos, ev) # evs) p =
     (case pump_turn J P infos ev p of
        (acts, None) \<Rightarrow> (acts, None)
      | (acts, Some p') \<Rightarrow> (let (acts', r) = pump_run J P evs p' in (acts @ acts', r)))"

definition event_within :: "u64 \<Rightarrow> pump_event \<Rightarrow> bool" where
  "event_within g ev = (case ev of PumpReceived g' _ _ \<Rightarrow> g' \<le> g | _ \<Rightarrow> True)"

lemma drain_loop_spec:
  "drain_loop J rx (n, g, st) = (n', g', st') \<Longrightarrow>
     g \<le> g' \<and> (\<forall>m \<in> set rx. fst m \<le> g') \<and> ss_id_order st' = ss_id_order st"
  by (induction rx arbitrary: n g st)
    (fastforce simp: apply_sample_fields split: if_splits)+

lemma drain_spec:
  "drain_into_state J rx first g st = (n', g', st') \<Longrightarrow>
     g \<le> g' \<and> (\<forall>m \<in> set rx. fst m \<le> g') \<and> ss_id_order st' = ss_id_order st"
  unfolding drain_into_state_def by (drule drain_loop_spec) (simp add: apply_sample_fields)

lemma render_order: "render_update J P st = (u, st') \<Longrightarrow> ss_id_order st' = ss_id_order st"
  by (auto simp: render_update_def take_dirty_tiles_json_def compute_network_rates_def compute_disk_rates_def Let_def split_beta)

lemma pump_turn_within:
  assumes "event_within (pm_current_g p) ev" "pump_turn J P infos ev p = (acts, Some p')"
  shows "(\<forall>subs. ReplaceSubscriptions subs \<notin> set acts) \<and> pm_current_g p \<le> pm_current_g p'
    \<and> ss_id_order (pm_state p') = ss_id_order (pm_state p)
    \<and> (case ev of PumpReceived g first rx \<Rightarrow> g = pm_current_g p \<longrightarrow> (\<forall>m \<in> set rx. fst m \<le> pm_current_g p') | _ \<Rightarrow> True)"
proof (cases ev)
  case (PumpReceived g first rx)
  show ?thesis
  proof (cases "g < pm_current_g p")
    case False
    then have g: "g = pm_current_g p" using assms(1) PumpReceived by (simp add: event_within_def)
    obtain n g2 st2 where d: "drain_into_state J rx first (pm_current_g p) (pm_state p) = (n, g2, st2)"
      by (cases "drain_into_state J rx first (pm_current_g p) (pm_state p)") auto
    obtain u st3 where r: "render_update J P st2 = (u, st3)" by fastforce
    have "acts = (if pm_last_alive p then [] else [SetConnected True]) @ [QueueUpdate u]"
      "p' = \<lparr>pm_last_alive = True, pm_current_g = g2, pm_state = st3\<rparr>"
      using assms(2) g by (auto simp: PumpReceived pump_turn_def pump_rebuild_def d r)
    then show ?thesis using drain_spec [OF d] render_order [OF r] by (auto simp: PumpReceived)
  qed (use assms PumpReceived in \<open>auto simp: pump_turn_def\<close>)
qed (use assms in \<open>auto simp: pump_turn_def split: if_splits\<close>)

lemma pump_run_within:
  assumes "\<And>infos ev. (infos, ev) \<in> set evs \<Longrightarrow> event_within g ev" "g \<le> pm_current_g p"
    and "pump_run J P evs p = (acts, Some p')"
  shows "(\<forall>subs. ReplaceSubscriptions subs \<notin> set acts) \<and> ss_id_order (pm_state p') = ss_id_order (pm_state p)"
  using assms
proof (induction evs arbitrary: p acts)
  case (Cons e evs)
  obtain infos ev where e: "e = (infos, ev)" by fastforce
  obtain a p1 b where t: "pump_turn J P infos ev p = (a, Some p1)" "pump_run J P evs p1 = (b, Some p')" "acts = a @ b"
    using Cons.prems(3) by (auto simp: e split: prod.splits option.splits)
  have "event_within (pm_current_g p) ev"
    using Cons.prems(1) [of infos ev] Cons.prems(2) by (auto simp: e event_within_def split: pump_event.splits)
  note one = pump_turn_within [OF this t(1)]
  have "(\<forall>subs. ReplaceSubscriptions subs \<notin> set b) \<and> ss_id_order (pm_state p') = ss_id_order (pm_state p1)"
  proof (rule Cons.IH [OF _ _ t(2)])
    show "g \<le> pm_current_g p1" using one Cons.prems(2) order_trans by blast
  qed (use Cons.prems(1) in auto)
  then show ?case using one t(3) by auto
qed simp

text \<open>
  A reconnect is missed when the new host's first sample is drained behind a sample of the old
  host: the drain advances the generation without rebuilding, so as long as that connection lives
  the page keeps the old host's tiles and the new host's subscriptions are never made.
\<close>

theorem reconnect_missed_in_drain:
  assumes turn: "pump_turn J P infos (PumpReceived (pm_current_g p) first rx) p = (acts, Some p1)"
    and new: "(g, sample) \<in> set rx" "pm_current_g p < g"
    and later: "\<And>infos ev. (infos, ev) \<in> set evs \<Longrightarrow> event_within g ev" "pump_run J P evs p1 = (acts', Some p2)"
  shows "g \<le> pm_current_g p1 \<and> ss_id_order (pm_state p2) = ss_id_order (pm_state p)
    \<and> (\<forall>subs. ReplaceSubscriptions subs \<notin> set (acts @ acts'))"
proof -
  have one: "(\<forall>subs. ReplaceSubscriptions subs \<notin> set acts) \<and> ss_id_order (pm_state p1) = ss_id_order (pm_state p)
      \<and> (\<forall>m \<in> set rx. fst m \<le> pm_current_g p1)"
    using pump_turn_within [OF _ turn] by (simp add: event_within_def)
  then have "g \<le> pm_current_g p1" using new(1) by auto
  then show ?thesis using one pump_run_within [OF later(1) _ later(2)] by auto
qed

text \<open>
  Received directly, the first sample of a newer connection rebuilds the page from the
  catalogue of the new host and replaces the subscriptions by all its sensors but the process list.
\<close>

theorem reconnect_rebuilds:
  assumes "pm_current_g p < g" "pump_turn J P infos (PumpReceived g first rx) p = (acts, Some p')"
  shows "ReplaceSubscriptions (filter (\<lambda>id. id \<noteq> ''proc.list'') (map info_id infos)) \<in> set acts
    \<and> ss_id_order (pm_state p') = map info_id infos \<and> g \<le> pm_current_g p'"
proof -
  obtain n g2 st2 where d: "drain_into_state J rx first g (build_sample_state infos) = (n, g2, st2)"
    by (cases "drain_into_state J rx first g (build_sample_state infos)") auto
  obtain u st3 where r: "render_update J P st2 = (u, st3)" by fastforce
  have "\<not> g < pm_current_g p" using assms(1) by simp
  then show ?thesis using assms drain_spec [OF d] render_order [OF r]
    by (auto simp: pump_turn_def pump_rebuild_def Let_def d r auto_subs_def build_state_order)
qed

section \<open>The bundled licence notices\<close>

record ThirdPartyCredit =
  tp_name :: string
  tp_version :: string
  tp_license :: string
  tp_url :: string

definition license_section_to_spdx :: "string \<Rightarrow> string" where
  "license_section_to_spdx title =
     (if title = ''Apache License 2.0'' then ''Apache-2.0''
      else if title = ''BSD 3-Clause &quot;New&quot; or &quot;Revised&quot; License'' then ''BSD-3-Clause''
      else if title = ''BSD Zero Clause License'' then ''0BSD''
      else if title = ''Community Data License Agreement Permissive 2.0'' then ''CDLA-Permissive-2.0''
      else if title = ''GNU Affero General Public License v3.0 only'' then ''AGPL-3.0-only''
      else if title = ''GNU General Public License v3.0 only'' then ''GPL-3.0-only''
      else if title = ''ISC License'' then ''ISC''
      else if title = ''MIT License'' then ''MIT''
      else if title = ''Unicode License v3'' then ''Unicode-3.0''
      else if title = ''zlib License'' then ''Zlib''
      else str_replace ''&gt;'' ''>'' (str_replace ''&lt;'' ''<'' (str_replace ''&amp;'' ''&''
             (str_replace ''&quot;'' [CHR 0x22] title))))"

definition parse_used_by_line :: "string \<Rightarrow> string \<Rightarrow> ThirdPartyCredit option" where
  "parse_used_by_line line license =
     (case strip_prefix ''- [`'' line of
        None \<Rightarrow> None
      | Some body \<Rightarrow>
          (case split_once_str ''`]('' body of
             None \<Rightarrow> None
           | Some (label, rest) \<Rightarrow>
               (case strip_suffix '')'' rest of
                  None \<Rightarrow> None
                | Some url \<Rightarrow>
                    map_option (\<lambda>(name, version). \<lparr>tp_name = name, tp_version = version, tp_license = license, tp_url = url\<rparr>)
                      (rsplit_once CHR '' '' label))))"

type_synonym credit_state = "string \<times> bool \<times> bool \<times> ThirdPartyCredit list"

definition credit_line :: "string \<Rightarrow> credit_state \<Rightarrow> credit_state" where
  "credit_line line s =
     (let (license, in_texts, in_used_by, entries) = s; trimmed = trim line
      in if trimmed = ''## License Texts'' then (license, True, in_used_by, entries)
         else if \<not> in_texts then s
         else case strip_prefix ''### '' trimmed of
           Some title \<Rightarrow> (license_section_to_spdx title, in_texts, False, entries)
         | None \<Rightarrow>
             if trimmed = ''Used by:'' then (license, in_texts, license \<noteq> [], entries)
             else if \<not> in_used_by then s
             else if starts_with ''```'' trimmed \<or> trimmed = ''---'' then (license, in_texts, False, entries)
             else case parse_used_by_line trimmed license of
               Some entry \<Rightarrow> (license, in_texts, in_used_by, entries @ [entry])
             | None \<Rightarrow> s)"

definition third_party_credit_entries :: "string \<Rightarrow> ThirdPartyCredit list" where
  "third_party_credit_entries s =
     sort_key (\<lambda>e. (tp_name e, tp_version e, tp_license e))
       (snd (snd (snd (fold credit_line (str_lines s) ([], False, False, [])))))"

lemma split_once_str_first:
  assumes "\<And>u v. a @ p = u @ p @ v \<Longrightarrow> v = []" "p \<noteq> []"
  shows "split_once_str p (a @ p @ b) = Some (a, b)"
  using assms(1)
proof (induction a)
  case Nil
  then show ?case by (simp add: split_once_str.simps [of p "p @ b"])
next
  case (Cons c a)
  have "strip_prefix p (c # a @ p @ b) = None"
  proof (rule ccontr)
    assume "strip_prefix p (c # a @ p @ b) \<noteq> None"
    then obtain r where "c # a @ p @ b = p @ r" by (auto simp: strip_prefix_Some)
    then have "take (length p) (c # a @ p) = p" by (metis append_assoc append_eq_conv_conj append_Cons take_append take_all_iff diff_is_0_eq le_add2 length_Cons length_append append_Nil2 take_0 le_SucI)
    then have "(c # a) @ p = [] @ p @ drop (length p) (c # a @ p)" by (metis append_take_drop_id append_Cons append_Nil)
    then show False using Cons.prems [of "[]" "drop (length p) (c # a @ p)"] assms(2) by simp
  qed
  moreover have "split_once_str p (a @ p @ b) = Some (a, b)"
    using Cons.IH Cons.prems by (metis append_Cons)
  ultimately show ?case by (simp add: split_once_str.simps [of p "c # a @ p @ b"])
qed

text \<open>An entry printed the way cargo-about prints it is read back.\<close>

lemma used_by_round_trip:
  assumes "CHR ''`'' \<notin> set name" "CHR ''`'' \<notin> set version" "CHR '' '' \<notin> set version"
  shows "parse_used_by_line (''- [`'' @ name @ '' '' @ version @ ''`]('' @ url @ '')'') license =
    Some \<lparr>tp_name = name, tp_version = version, tp_license = license, tp_url = url\<rparr>"
proof -
  have "split_once_str ''`]('' ((name @ '' '' @ version) @ ''`]('' @ url @ '')'') = Some (name @ '' '' @ version, url @ '')'')"
  proof (rule split_once_str_first)
    fix u v
    assume "(name @ '' '' @ version) @ ''`]('' = u @ ''`]('' @ v"
    then have "name @ '' '' @ version @ ''`]('' = u @ CHR ''`'' # ''](''  @ v" by simp
    then have "''](''  = ''](''  @ v"
      using append_Cons_eq_iff [of "CHR ''`''" "name @ '' '' @ version" "''](''" u "''](''  @ v"] assms(1,2) by simp
    then show "v = []" by simp
  qed simp
  moreover have "rsplit_once CHR '' '' (name @ '' '' @ version) = Some (name, version)"
    using assms(3) by (simp add: rsplit_once_Some)
  moreover have "strip_suffix '')'' (url @ '')'') = Some url" by (simp add: strip_suffix_Some)
  ultimately show ?thesis by (simp add: parse_used_by_line_def)
qed


section \<open>Instances\<close>

definition demo_info :: SensorInfo where
  "demo_info =
     \<lparr>info_id = ''net.eth0.rx_bytes'', info_display_name = ''RX'', info_unit = Bytes, info_kind = KindCounter,
      info_category = CatNetwork, info_native_rate_hz = Fin 1, info_min = None, info_max = None, info_device_id = None,
      info_plugin_id = ''net'', info_device_key = None, info_device_label = None, info_tags = []\<rparr>"

definition demo_gui_json :: "unit gui_json" where
  "demo_gui_json = \<lparr>gui_to_json = (\<lambda>_. None), gui_null = (), gui_display = (\<lambda>_. [])\<rparr>"

definition demo_printers :: "unit json_printers" where
  "demo_printers = \<lparr>print_tiles = (\<lambda>_. None), print_net = (\<lambda>_. None), print_disk = (\<lambda>_. None), print_rows = (\<lambda>_. None)\<rparr>"

definition demo_sample :: "u64 \<Rightarrow> Reading \<Rightarrow> Sample" where
  "demo_sample ts r = \<lparr>sample_sensor = ''net.eth0.rx_bytes'', sample_ts_micros = ts, sample_reading = r\<rparr>"

definition demo_tiles :: "unit SampleState" where
  "demo_tiles = build_sample_state [demo_info]"

definition demo_pump :: "unit pump" where
  "demo_pump = \<lparr>pm_last_alive = True, pm_current_g = 1, pm_state = demo_tiles\<rparr>"

lemma pump_turn_goes_on: "\<exists>acts p'. pump_turn J P infos (PumpReceived g first rx) p = (acts, Some p')"
  by (auto simp: pump_turn_def Let_def split_beta)

lemma demo_tiles_eq: "ss_tiles demo_tiles = [(''net.eth0.rx_bytes'', new_tile demo_info)]" "ss_id_order demo_tiles = [''net.eth0.rx_bytes'']"
  by (simp_all add: demo_tiles_def build_sample_state_def build_step_def demo_info_def)

theorem ui_updates_shown_witness:
  "ui_tokens (ui_store (7::nat) ui_start) \<le> 1 \<and> subseq [] (ui_stored (ui_store (7::nat) ui_start))"
  using ui_updates_shown [of "ui_store (7::nat) ui_start"] ui_reach.Store [OF ui_reach.Start, of "7::nat"]
  by (simp add: ui_start_def ui_store_def)

theorem network_rates_exact_witness:
  "\<exists>prev. compute_network_rates (\<lambda>_. None) demo_tiles = (''[]'', demo_tiles\<lparr>ss_net_prev := prev\<rparr>)"
  using network_rates_exact [of demo_tiles "\<lambda>_. None"] by (auto simp: demo_tiles_eq json_or_empty_def)

theorem sparkline_window_witness:
  "\<exists>tile. map_of (ss_tiles (fold (apply_sample demo_gui_json) [demo_sample 1 (Scalar (Fin 2)), demo_sample 2 (Scalar NaN)]
       (build_sample_state [demo_info]))) ''net.eth0.rx_bytes'' = Some tile
     \<and> tile_sparkline tile = [Fin 2, NaN]"
  using sparkline_window [of "''net.eth0.rx_bytes''" "[demo_info]" demo_gui_json "[demo_sample 1 (Scalar (Fin 2)), demo_sample 2 (Scalar NaN)]"]
  by (simp add: demo_info_def demo_sample_def scalars_of_def scalar_of_def SPARKLINE_MAX_POINTS_def)

theorem first_rate_since_epoch_witness:
  "ni_rx_bytes (iface_rates (apply_sample demo_gui_json
       \<lparr>sample_sensor = net_id ''eth0'' ''rx_bytes'', sample_ts_micros = 2000000, sample_reading = Counter 4000\<rparr>
       (snd (compute_network_rates (\<lambda>_. None) demo_tiles))) ''eth0'')
   = fl_div (fl_of_u64 4000) (fl_div (fl_of_u64 2000000) (Fin 1000000))"
  using first_rate_since_epoch [where st = demo_tiles and i = "''eth0''" and t = "new_tile demo_info" and ts = 2000000
      and J = demo_gui_json and v = 4000 and to_string = "\<lambda>_. None"]
  by (simp add: demo_tiles_eq net_id_def new_tile_def)

theorem reconnect_rebuilds_witness:
  "\<exists>acts p'. pump_turn demo_gui_json demo_printers [demo_info] (PumpReceived 2 (demo_sample 5 (Counter 1)) []) demo_pump = (acts, Some p')
     \<and> ReplaceSubscriptions [''net.eth0.rx_bytes''] \<in> set acts \<and> 2 \<le> pm_current_g p'"
proof -
  obtain acts p' where t: "pump_turn demo_gui_json demo_printers [demo_info] (PumpReceived 2 (demo_sample 5 (Counter 1)) []) demo_pump = (acts, Some p')"
    using pump_turn_goes_on by blast
  from reconnect_rebuilds [OF _ this] have "ReplaceSubscriptions [''net.eth0.rx_bytes''] \<in> set acts \<and> 2 \<le> pm_current_g p'"
    by (auto simp: demo_pump_def demo_info_def)
  then show ?thesis using t by blast
qed

theorem reconnect_missed_in_drain_witness:
  "\<exists>acts p'. pump_turn demo_gui_json demo_printers [] (PumpReceived 1 (demo_sample 5 (Counter 1)) [(2, demo_sample 6 (Counter 9))]) demo_pump = (acts, Some p')
     \<and> 2 \<le> pm_current_g p' \<and> ss_id_order (pm_state p') = [''net.eth0.rx_bytes'']"
proof -
  have g: "pm_current_g demo_pump = 1" by (simp add: demo_pump_def)
  obtain acts p' where t: "pump_turn demo_gui_json demo_printers [] (PumpReceived (pm_current_g demo_pump) (demo_sample 5 (Counter 1)) [(2, demo_sample 6 (Counter 9))]) demo_pump = (acts, Some p')"
    using pump_turn_goes_on by blast
  from reconnect_missed_in_drain [where evs = "[]", OF this, of 2 "demo_sample 6 (Counter 9)" "[]" p'] t show ?thesis
    by (simp add: g demo_pump_def demo_tiles_eq)
qed

end
