(* ===== verification/Client.thy ===== *)
theory Client
  imports Sessions Rust_Num
begin

text \<open>
  The GUI's protocol client, \<^verbatim>\<open>apps/linsight-gui/src/client.rs\<close>: the check of an SSH target, the
  handshake, the typed requests, and the correlation of responses with the callers that wait for
  them. Callers on several threads and the dispatcher that reads the socket interleave as the
  steps of a transition system. Starting \<^verbatim>\<open>ssh\<close> or a daemon is I/O; a frame that cannot be sent or
  read is an error of the step that needs it.
\<close>

section \<open>Connecting\<close>

definition validate_ssh_target :: "string \<Rightarrow> (unit, string) result" where
  "validate_ssh_target target =
     (let host_part = (case rsplit_once CHR ''@'' target of Some (_, h) \<Rightarrow> h | None \<Rightarrow> target);
          host = (case split_once CHR '':'' host_part of Some (h, _) \<Rightarrow> h | None \<Rightarrow> host_part)
      in if target = [] then Err ''empty SSH target''
         else if starts_with ''-'' target
         then Err (''invalid SSH target: '' @ debug_str target @ '' starts with '' @ [CHR 0x27] @ ''-'' @ [CHR 0x27] @ ''; possible option injection'')
         else if starts_with ''-'' host
         then Err (''invalid SSH host: '' @ debug_str host @ '' starts with '' @ [CHR 0x27] @ ''-'' @ [CHR 0x27] @ ''; possible option injection'')
         else if list_ex is_control target then Err ''invalid SSH target: contains control characters''
         else Ok ())"

text \<open>What the remote shell printed, once \<^verbatim>\<open>ssh\<close> succeeded.\<close>

definition remote_socket_path :: "string \<Rightarrow> (string, string) result" where
  "remote_socket_path stdout =
     (let path = trim stdout in if path = [] then Err ''remote returned empty socket path'' else Ok path)"

datatype connect_error =
    SocketError FrameError
  | ProtocolMismatch u32
  | DaemonRefused string
  | UnexpectedHandshakeReply ServerMsg
  | UnexpectedListReply ServerMsg

definition check_welcome :: "ServerMsg \<Rightarrow> (unit, connect_error) result" where
  "check_welcome m =
     (case m of
        Welcome protocol_version _ _ \<Rightarrow>
          if protocol_version = PROTOCOL_VERSION then Ok () else Err (ProtocolMismatch protocol_version)
      | Bye reason \<Rightarrow> Err (DaemonRefused reason)
      | other \<Rightarrow> Err (UnexpectedHandshakeReply other))"

definition check_list :: "ServerMsg \<Rightarrow> (SensorInfo list, connect_error) result" where
  "check_list m = (case m of SensorList infos \<Rightarrow> Ok infos | other \<Rightarrow> Err (UnexpectedListReply other))"

text \<open>
  The handshake: the two messages the client writes (\<open>writes\<close> says how writing them ends) and the
  next two it reads. The result is the first catalogue.
\<close>

definition finish_handshake ::
  "(ClientMsg \<Rightarrow> FrameError option) \<Rightarrow> (ServerMsg, FrameError) result \<Rightarrow> (ServerMsg, FrameError) result \<Rightarrow>
   (SensorInfo list, connect_error) result" where
  "finish_handshake writes read1 read2 =
     (case writes (Hello PROTOCOL_VERSION ''linsight-gui'' None) of
        Some e \<Rightarrow> Err (SocketError e)
      | None \<Rightarrow>
          result_bind (result_map_err SocketError read1) (\<lambda>m1.
          result_bind (check_welcome m1) (\<lambda>_.
            case writes ListSensors of
              Some e \<Rightarrow> Err (SocketError e)
            | None \<Rightarrow> result_bind (result_map_err SocketError read2) check_list)))"

section \<open>Typed requests\<close>

datatype rpc_error = RpcServer string | UnexpectedPayload ResponsePayload | RpcTimeout | RpcSend FrameError

record 'r rpc =
  rpc_op :: RequestOp
  rpc_extract :: "ResponsePayload \<Rightarrow> ('r, ResponsePayload) result"

definition get_hardware :: "(HardwareDevice list \<times> (string \<times> string) list) rpc" where
  "get_hardware =
     \<lparr>rpc_op = GetHardware,
      rpc_extract = (\<lambda>p. case p of Hardware devices nicknames \<Rightarrow> Ok (devices, nicknames) | other \<Rightarrow> Err other)\<rparr>"

definition set_nickname_rpc :: "string \<Rightarrow> string option \<Rightarrow> unit rpc" where
  "set_nickname_rpc device_key nickname =
     \<lparr>rpc_op = SetNickname device_key nickname,
      rpc_extract = (\<lambda>p. case p of NicknameSet _ _ \<Rightarrow> Ok () | other \<Rightarrow> Err other)\<rparr>"

definition get_history :: "string \<Rightarrow> u64 \<Rightarrow> u64 \<Rightarrow> u32 option \<Rightarrow> Sample list rpc" where
  "get_history sensor since_micros until_micros max_points =
     \<lparr>rpc_op = GetHistory sensor since_micros until_micros max_points,
      rpc_extract = (\<lambda>p. case p of History _ samples \<Rightarrow> Ok samples | other \<Rightarrow> Err other)\<rparr>"

definition list_alerts :: "AlertRuleJson list rpc" where
  "list_alerts = \<lparr>rpc_op = ListAlerts, rpc_extract = (\<lambda>p. case p of AlertList rules \<Rightarrow> Ok rules | other \<Rightarrow> Err other)\<rparr>"

definition list_alert_events :: "u32 option \<Rightarrow> string rpc" where
  "list_alert_events limit =
     \<lparr>rpc_op = ListAlertEvents limit,
      rpc_extract = (\<lambda>p. case p of AlertEventList events_json \<Rightarrow> Ok events_json | other \<Rightarrow> Err other)\<rparr>"

definition upsert_alert ::
  "string \<Rightarrow> string \<Rightarrow> string option \<Rightarrow> string option \<Rightarrow> string list \<Rightarrow> bool option \<Rightarrow> string rpc" where
  "upsert_alert name expr for_duration cooldown notify enabled =
     \<lparr>rpc_op = UpsertAlert name expr for_duration cooldown notify enabled,
      rpc_extract = (\<lambda>p. case p of AlertUpserted n \<Rightarrow> Ok n | other \<Rightarrow> Err other)\<rparr>"

definition delete_alert :: "string \<Rightarrow> string rpc" where
  "delete_alert name =
     \<lparr>rpc_op = DeleteAlert name, rpc_extract = (\<lambda>p. case p of AlertDeleted n \<Rightarrow> Ok n | other \<Rightarrow> Err other)\<rparr>"

definition test_alert_expr :: "string \<Rightarrow> (bool \<times> string option) rpc" where
  "test_alert_expr expr =
     \<lparr>rpc_op = TestAlertExpr expr,
      rpc_extract = (\<lambda>p. case p of AlertTestResult is_true e \<Rightarrow> Ok (is_true, e) | other \<Rightarrow> Err other)\<rparr>"

definition set_pump_interval_rpc :: "u32 \<Rightarrow> u32 rpc" where
  "set_pump_interval_rpc ms =
     \<lparr>rpc_op = SetPumpIntervalMs ms,
      rpc_extract = (\<lambda>p. case p of PumpIntervalSet applied \<Rightarrow> Ok applied | other \<Rightarrow> Err other)\<rparr>"

definition get_daemon_settings :: "(bool \<times> bool \<times> bool \<times> string option) rpc" where
  "get_daemon_settings =
     \<lparr>rpc_op = GetDaemonSettings,
      rpc_extract = (\<lambda>p. case p of DaemonSettings h a pr b \<Rightarrow> Ok (h, a, pr, b) | other \<Rightarrow> Err other)\<rparr>"

definition set_daemon_settings ::
  "bool option \<Rightarrow> bool option \<Rightarrow> bool option \<Rightarrow> string option \<Rightarrow> (bool \<times> bool \<times> bool) rpc" where
  "set_daemon_settings history alerts prom prom_bind =
     \<lparr>rpc_op = SetDaemonSettings history alerts prom prom_bind,
      rpc_extract = (\<lambda>p. case p of DaemonSettingsSet h a pr \<Rightarrow> Ok (h, a, pr) | other \<Rightarrow> Err other)\<rparr>"

text \<open>How a wait for a response can end, and what the caller makes of it.\<close>

datatype outcome = Answered "(ResponsePayload, ProtoError) result" | TimedOut | SendFailed FrameError

definition rpc_result :: "'r rpc \<Rightarrow> outcome \<Rightarrow> ('r, rpc_error) result" where
  "rpc_result rpc out =
     (case out of
        Answered (Ok payload) \<Rightarrow> result_map_err UnexpectedPayload (rpc_extract rpc payload)
      | Answered (Err e) \<Rightarrow> Err (RpcServer (err_message e))
      | TimedOut \<Rightarrow> Err RpcTimeout
      | SendFailed e \<Rightarrow> Err (RpcSend e))"

section \<open>Correlating responses\<close>

text \<open>
  A call is registered in the inflight table before its request is written; then its caller waits
  on a channel of its own, \<open>call_mail\<close>, until the response arrives or the time is up; a caller
  that gave up still has to remove its entry.
\<close>

datatype call_phase = Registered | Waiting | Expired | Finished outcome

record call =
  call_id :: u32
  call_op :: RequestOp
  call_mail :: "(ResponsePayload, ProtoError) result option"
  call_phase :: call_phase

record listener =
  li_open :: bool
  li_mail :: "SensorInfo list list"

text \<open>
  The client: the messages written, the catalogue, the inflight table (from the id of a request to
  the index of its call), the next id, the calls ever made, the listeners of the catalogue, the
  sample channel and whether its receiver and the dispatcher live. \<open>cl_read\<close> records what the
  dispatcher has read.
\<close>

record client =
  cl_sent :: "ClientMsg list"
  cl_catalogue :: "SensorInfo list"
  cl_inflight :: "(u32 \<times> nat) list"
  cl_next_req_id :: u32
  cl_calls :: "call list"
  cl_listeners :: "listener list"
  cl_samples :: "Sample list"
  cl_rx_open :: bool
  cl_reading :: bool
  cl_read :: "ServerMsg list"

definition SAMPLE_CHANNEL_CAP :: nat where
  "SAMPLE_CHANNEL_CAP = 512"

definition client_new :: "SensorInfo list \<Rightarrow> client" where
  "client_new infos =
     \<lparr>cl_sent = [Hello PROTOCOL_VERSION ''linsight-gui'' None, ListSensors], cl_catalogue = infos, cl_inflight = [],
      cl_next_req_id = 1, cl_calls = [], cl_listeners = [], cl_samples = [], cl_rx_open = True, cl_reading = True,
      cl_read = []\<rparr>"

definition client_send :: "ClientMsg \<Rightarrow> FrameError option \<Rightarrow> client \<Rightarrow> (unit, FrameError) result \<times> client" where
  "client_send m fault c =
     (case fault of Some e \<Rightarrow> (Err e, c) | None \<Rightarrow> (Ok (), c\<lparr>cl_sent := cl_sent c @ [m]\<rparr>))"

definition client_subscribe :: "SensorId list \<Rightarrow> FrameError option \<Rightarrow> client \<Rightarrow> (unit, FrameError) result \<times> client" where
  "client_subscribe sensors = client_send (Subscribe sensors None)"

definition client_unsubscribe :: "SensorId list \<Rightarrow> FrameError option \<Rightarrow> client \<Rightarrow> (unit, FrameError) result \<times> client" where
  "client_unsubscribe sensors = client_send (Unsubscribe sensors)"

definition keepalive :: "FrameError option \<Rightarrow> client \<Rightarrow> (unit, FrameError) result \<times> client" where
  "keepalive = client_send (Subscribe [] None)"

definition subscribe_catalogue :: "client \<Rightarrow> client" where
  "subscribe_catalogue c = c\<lparr>cl_listeners := cl_listeners c @ [\<lparr>li_open = True, li_mail = []\<rparr>]\<rparr>"

text \<open>The steps of \<^verbatim>\<open>request_rpc\<close>.\<close>

definition set_phase :: "nat \<Rightarrow> call_phase \<Rightarrow> client \<Rightarrow> client" where
  "set_phase n p c = c\<lparr>cl_calls := (cl_calls c)[n := (cl_calls c ! n)\<lparr>call_phase := p\<rparr>]\<rparr>"

definition call_begin :: "RequestOp \<Rightarrow> client \<Rightarrow> client" where
  "call_begin op c =
     (let req_id = cl_next_req_id c
      in c\<lparr>cl_next_req_id := req_id + 1,
           cl_calls := cl_calls c @ [\<lparr>call_id = req_id, call_op = op, call_mail = None, call_phase = Registered\<rparr>],
           cl_inflight := AList.update req_id (length (cl_calls c)) (cl_inflight c)\<rparr>)"

definition call_write :: "nat \<Rightarrow> FrameError option \<Rightarrow> client \<Rightarrow> client" where
  "call_write n fault c =
     (let cal = cl_calls c ! n
      in case client_send (Request (call_id cal) (call_op cal)) fault c of
           (Err e, c1) \<Rightarrow> set_phase n (Finished (SendFailed e)) (c1\<lparr>cl_inflight := AList.delete (call_id cal) (cl_inflight c1)\<rparr>)
         | (Ok _, c1) \<Rightarrow> set_phase n Waiting c1)"

definition call_receive :: "nat \<Rightarrow> client \<Rightarrow> client" where
  "call_receive n c =
     (case call_mail (cl_calls c ! n) of Some r \<Rightarrow> set_phase n (Finished (Answered r)) c | None \<Rightarrow> c)"

definition call_reap :: "nat \<Rightarrow> client \<Rightarrow> client" where
  "call_reap n c =
     set_phase n (Finished TimedOut) (c\<lparr>cl_inflight := AList.delete (call_id (cl_calls c ! n)) (cl_inflight c)\<rparr>)"

text \<open>The dispatcher: one message, and whether it goes on reading.\<close>

definition deliver :: "nat \<Rightarrow> (ResponsePayload, ProtoError) result \<Rightarrow> client \<Rightarrow> client" where
  "deliver n result c = c\<lparr>cl_calls := (cl_calls c)[n := (cl_calls c ! n)\<lparr>call_mail := Some result\<rparr>]\<rparr>"

definition notify_listeners :: "SensorInfo list \<Rightarrow> listener list \<Rightarrow> listener list" where
  "notify_listeners infos ls = map (\<lambda>l. l\<lparr>li_mail := li_mail l @ [infos]\<rparr>) (filter li_open ls)"

definition dispatch_msg :: "ServerMsg \<Rightarrow> client \<Rightarrow> bool \<times> client" where
  "dispatch_msg m c =
     (case m of
        SampleMsg s \<Rightarrow> if cl_rx_open c then (True, c\<lparr>cl_samples := cl_samples c @ [s]\<rparr>) else (False, c)
      | Response req_id result \<Rightarrow>
          (True, (case map_of (cl_inflight c) req_id of
                    Some n \<Rightarrow> deliver n result (c\<lparr>cl_inflight := AList.delete req_id (cl_inflight c)\<rparr>)
                  | None \<Rightarrow> c))
      | SensorListBroadcast infos \<Rightarrow>
          (True, c\<lparr>cl_catalogue := infos, cl_listeners := notify_listeners infos (cl_listeners c)\<rparr>)
      | SensorDegraded _ _ \<Rightarrow> (True, c)
      | Bye _ \<Rightarrow> (False, c)
      | Welcome _ _ _ \<Rightarrow> (True, c)
      | SensorList _ \<Rightarrow> (True, c))"

definition dispatch :: "(ServerMsg, FrameError) result \<Rightarrow> client \<Rightarrow> client" where
  "dispatch r c =
     (case r of
        Err _ \<Rightarrow> c\<lparr>cl_reading := False\<rparr>
      | Ok m \<Rightarrow> (case dispatch_msg m (c\<lparr>cl_read := cl_read c @ [m]\<rparr>) of (go, c') \<Rightarrow> c'\<lparr>cl_reading := go\<rparr>))"

text \<open>
  A sample blocks the dispatcher while the channel is full, so its step is then not enabled. The
  time of a wait may be up whenever no response has arrived.
\<close>

definition phase_is :: "nat \<Rightarrow> call_phase \<Rightarrow> client \<Rightarrow> bool" where
  "phase_is n p c \<longleftrightarrow> n < length (cl_calls c) \<and> call_phase (cl_calls c ! n) = p"

inductive client_step :: "client \<Rightarrow> client \<Rightarrow> bool" where
  Begin: "client_step c (call_begin op c)"
| Write: "phase_is n Registered c \<Longrightarrow> client_step c (call_write n fault c)"
| Receive: "phase_is n Waiting c \<Longrightarrow> client_step c (call_receive n c)"
| Expire: "phase_is n Waiting c \<Longrightarrow> call_mail (cl_calls c ! n) = None \<Longrightarrow> client_step c (set_phase n Expired c)"
| Reap: "phase_is n Expired c \<Longrightarrow> client_step c (call_reap n c)"
| Dispatch: "cl_reading c \<Longrightarrow> (\<And>s. r = Ok (SampleMsg s) \<Longrightarrow> cl_rx_open c \<Longrightarrow> length (cl_samples c) < SAMPLE_CHANNEL_CAP) \<Longrightarrow>
    client_step c (dispatch r c)"
| Send: "(\<nexists>req_id op. m = Request req_id op) \<Longrightarrow> client_step c (snd (client_send m fault c))"
| TakeSample: "cl_samples c = s # ss \<Longrightarrow> client_step c (c\<lparr>cl_samples := ss\<rparr>)"
| CloseRx: "client_step c (c\<lparr>cl_rx_open := False\<rparr>)"
| Listen: "client_step c (subscribe_catalogue c)"
| Unlisten: "client_step c (c\<lparr>cl_listeners := (cl_listeners c)[i := \<lparr>li_open = False, li_mail = []\<rparr>]\<rparr>)"

inductive client_reach :: "client \<Rightarrow> bool" where
  Start: "client_reach (client_new infos)"
| Step: "client_reach c \<Longrightarrow> client_step c c' \<Longrightarrow> client_reach c'"


section \<open>Lemmas\<close>

definition pending :: "call \<Rightarrow> bool" where
  "pending cal \<longleftrightarrow> call_mail cal = None \<and> (\<nexists>out. call_phase cal = Finished out)"

definition call_ok :: "ClientMsg list \<Rightarrow> ServerMsg list \<Rightarrow> nat \<Rightarrow> call \<Rightarrow> bool" where
  "call_ok sent read n cal \<longleftrightarrow>
     call_id cal = of_nat (n + 1)
     \<and> (\<forall>r. call_mail cal = Some r \<longrightarrow> Response (call_id cal) r \<in> set read)
     \<and> (\<forall>r. call_phase cal = Finished (Answered r) \<longrightarrow> call_mail cal = Some r)
     \<and> (call_phase cal = Registered \<or> (\<exists>e. call_phase cal = Finished (SendFailed e))
        \<or> Request (call_id cal) (call_op cal) \<in> set sent)"

definition table_ok :: "call list \<Rightarrow> (u32 \<times> nat) list \<Rightarrow> bool" where
  "table_ok calls tab \<longleftrightarrow>
     distinct (map fst tab)
     \<and> (\<forall>i n. map_of tab i = Some n \<longrightarrow> n < length calls \<and> call_id (calls ! n) = i \<and> pending (calls ! n))
     \<and> (length calls < 2 ^ 32 \<longrightarrow> (\<forall>n < length calls. pending (calls ! n) \<longrightarrow> map_of tab (call_id (calls ! n)) = Some n))"

definition client_inv :: "client \<Rightarrow> bool" where
  "client_inv c \<longleftrightarrow>
     cl_next_req_id c = of_nat (length (cl_calls c) + 1)
     \<and> (\<forall>n < length (cl_calls c). call_ok (cl_sent c) (cl_read c) n (cl_calls c ! n))
     \<and> table_ok (cl_calls c) (cl_inflight c)
     \<and> length (cl_samples c) \<le> SAMPLE_CHANNEL_CAP"

lemma call_ok_mono: "call_ok sent read n cal \<Longrightarrow> set sent \<subseteq> set sent' \<Longrightarrow> set read \<subseteq> set read' \<Longrightarrow> call_ok sent' read' n cal"
  by (auto simp: call_ok_def)

lemma word_of_nat_inj: "m < 2 ^ 32 \<Longrightarrow> n < 2 ^ 32 \<Longrightarrow> (of_nat m :: u32) = of_nat n \<longleftrightarrow> m = n"
proof -
  have "unat (of_nat k :: u32) = k" if "k < 2 ^ 32" for k using that by (simp add: unat_of_nat)
  then show "m < 2 ^ 32 \<Longrightarrow> n < 2 ^ 32 \<Longrightarrow> (of_nat m :: u32) = of_nat n \<longleftrightarrow> m = n" by metis
qed

lemma ids_distinct:
  assumes "\<forall>n < length calls. call_ok sent read n (calls ! n)" "length calls < 2 ^ 32" "m < length calls" "n < length calls"
  shows "call_id (calls ! m) = call_id (calls ! n) \<longleftrightarrow> m = n"
  using assms word_of_nat_inj [of "m + 1" "n + 1"] by (auto simp: call_ok_def)

text \<open>A call that changes without finishing keeps its entry; one that finishes loses it.\<close>

lemma table_ok_keep:
  assumes "table_ok calls tab" "n < length calls" "call_id cal = call_id (calls ! n)" "pending cal = pending (calls ! n)"
  shows "table_ok (calls[n := cal]) tab"
proof -
  have "call_id (calls[n := cal] ! m) = call_id (calls ! m)" "pending (calls[n := cal] ! m) = pending (calls ! m)"
    if "m < length calls" for m using that assms(2-4) by (simp_all add: nth_list_update)
  then show ?thesis using assms(1) by (simp add: table_ok_def)
qed

lemma table_okD:
  assumes "table_ok calls tab"
  shows "distinct (map fst tab)"
    and "map_of tab i = Some n \<Longrightarrow> n < length calls \<and> call_id (calls ! n) = i \<and> pending (calls ! n)"
    and "length calls < 2 ^ 32 \<Longrightarrow> n < length calls \<Longrightarrow> pending (calls ! n) \<Longrightarrow> map_of tab (call_id (calls ! n)) = Some n"
  using assms by (auto simp: table_ok_def)

lemma table_okI:
  assumes "distinct (map fst tab)"
    and "\<And>i n. map_of tab i = Some n \<Longrightarrow> n < length calls \<and> call_id (calls ! n) = i \<and> pending (calls ! n)"
    and "\<And>n. length calls < 2 ^ 32 \<Longrightarrow> n < length calls \<Longrightarrow> pending (calls ! n) \<Longrightarrow> map_of tab (call_id (calls ! n)) = Some n"
  shows "table_ok calls tab"
  using assms by (auto simp: table_ok_def)

lemma table_ok_done:
  assumes t: "table_ok calls tab" "\<forall>n < length calls. call_ok sent read n (calls ! n)"
    and n: "n < length calls" "call_id cal = call_id (calls ! n)" "\<not> pending cal"
  shows "table_ok (calls[n := cal]) (AList.delete (call_id (calls ! n)) tab)"
proof (rule table_okI)
  show "distinct (map fst (AList.delete (call_id (calls ! n)) tab))" by (rule distinct_delete [OF table_okD(1) [OF t(1)]])
next
  fix i m
  assume "map_of (AList.delete (call_id (calls ! n)) tab) i = Some m"
  then have "map_of tab i = Some m" "i \<noteq> call_id (calls ! n)" by (auto simp: delete_conv' split: if_splits)
  then show "m < length (calls[n := cal]) \<and> call_id (calls[n := cal] ! m) = i \<and> pending (calls[n := cal] ! m)"
    using table_okD(2) [OF t(1), of i m] by (cases "m = n") auto
next
  fix m
  assume m: "length (calls[n := cal]) < 2 ^ 32" "m < length (calls[n := cal])" "pending (calls[n := cal] ! m)"
  then have ne: "m \<noteq> n" using n by auto
  then have "call_id (calls ! m) \<noteq> call_id (calls ! n)" using ids_distinct [OF t(2) _ _ n(1), of m] m by simp
  then show "map_of (AList.delete (call_id (calls ! n)) tab) (call_id (calls[n := cal] ! m)) = Some m"
    using table_okD(3) [OF t(1), of m] m ne by (simp add: delete_conv')
qed

lemma inv_begin:
  assumes "client_inv c"
  shows "client_inv (call_begin op c)"
proof -
  let ?n = "length (cl_calls c)" and ?tab = "cl_inflight c"
  let ?cal = "\<lparr>call_id = cl_next_req_id c, call_op = op, call_mail = None, call_phase = Registered\<rparr>"
  have ok: "\<forall>n < ?n. call_ok (cl_sent c) (cl_read c) n (cl_calls c ! n)" and t: "table_ok (cl_calls c) ?tab"
    and nxt: "cl_next_req_id c = of_nat (?n + 1)" using assms by (simp_all add: client_inv_def)
  have new: "call_ok (cl_sent c) (cl_read c) ?n ?cal" by (simp add: call_ok_def nxt)
  have "call_id (cl_calls c ! m) \<noteq> cl_next_req_id c" if "m < ?n" "Suc ?n < 2 ^ 32" for m
    using ok that word_of_nat_inj [of "m + 1" "?n + 1"] by (auto simp: call_ok_def nxt)
  then have "table_ok (cl_calls c @ [?cal]) (AList.update (cl_next_req_id c) ?n ?tab)"
    using t by (auto simp: table_ok_def update_conv' nth_append less_Suc_eq pending_def intro: distinct_update)
  then show ?thesis using assms ok new
    by (auto simp: client_inv_def call_begin_def Let_def nth_append less_Suc_eq nxt)
qed

lemma inv_phase:
  assumes inv: "client_inv c" and n: "n < length (cl_calls c)"
    and tab: "table_ok ((cl_calls c)[n := (cl_calls c ! n)\<lparr>call_phase := p\<rparr>]) tab"
    and p: "p = Registered \<or> (\<exists>e. p = Finished (SendFailed e)) \<or> Request (call_id (cl_calls c ! n)) (call_op (cl_calls c ! n)) \<in> set sent"
      "\<And>r. p = Finished (Answered r) \<Longrightarrow> call_mail (cl_calls c ! n) = Some r"
    and sent: "set (cl_sent c) \<subseteq> set sent"
  shows "client_inv (set_phase n p (c\<lparr>cl_inflight := tab, cl_sent := sent\<rparr>))"
proof -
  have "call_ok sent (cl_read c) m ((cl_calls c)[n := (cl_calls c ! n)\<lparr>call_phase := p\<rparr>] ! m)" if "m < length (cl_calls c)" for m
  proof (cases "m = n")
    case True
    then show ?thesis using inv n p by (auto simp: client_inv_def call_ok_def)
  next
    case False
    then show ?thesis using inv that call_ok_mono [OF _ sent] by (auto simp: client_inv_def)
  qed
  then show ?thesis using inv tab by (simp add: client_inv_def set_phase_def)
qed

lemma inv_write:
  assumes "client_inv c" "phase_is n Registered c"
  shows "client_inv (call_write n fault c)"
proof -
  let ?cal = "cl_calls c ! n"
  have n: "n < length (cl_calls c)" "call_phase ?cal = Registered" using assms(2) by (simp_all add: phase_is_def)
  have ok: "\<forall>n < length (cl_calls c). call_ok (cl_sent c) (cl_read c) n (cl_calls c ! n)" and t: "table_ok (cl_calls c) (cl_inflight c)"
    using assms(1) by (simp_all add: client_inv_def)
  show ?thesis
  proof (cases fault)
    case None
    have "table_ok ((cl_calls c)[n := ?cal\<lparr>call_phase := Waiting\<rparr>]) (cl_inflight c)"
      by (rule table_ok_keep [OF t n(1)]) (simp_all add: pending_def n(2))
    from inv_phase [OF assms(1) n(1) this, of "cl_sent c @ [Request (call_id ?cal) (call_op ?cal)]"]
    show ?thesis by (simp add: call_write_def client_send_def None Let_def subset_iff set_phase_def)
  next
    case (Some e)
    have "table_ok ((cl_calls c)[n := ?cal\<lparr>call_phase := Finished (SendFailed e)\<rparr>]) (AList.delete (call_id ?cal) (cl_inflight c))"
      by (rule table_ok_done [OF t ok n(1)]) (simp_all add: pending_def)
    from inv_phase [OF assms(1) n(1) this, of "cl_sent c"]
    show ?thesis by (simp add: call_write_def client_send_def Some Let_def set_phase_def)
  qed
qed


lemma client_invD:
  assumes "client_inv c"
  shows "\<forall>n < length (cl_calls c). call_ok (cl_sent c) (cl_read c) n (cl_calls c ! n)"
    and "table_ok (cl_calls c) (cl_inflight c)"
  using assms by (simp_all add: client_inv_def)

text \<open>A call that already wrote its request changes its phase.\<close>

lemma inv_written:
  assumes inv: "client_inv c" and n: "n < length (cl_calls c)"
    and w: "call_phase (cl_calls c ! n) = Waiting \<or> call_phase (cl_calls c ! n) = Expired"
    and p: "\<And>r. p = Finished (Answered r) \<Longrightarrow> call_mail (cl_calls c ! n) = Some r"
    and tab: "table_ok ((cl_calls c)[n := (cl_calls c ! n)\<lparr>call_phase := p\<rparr>]) tab"
  shows "client_inv (set_phase n p (c\<lparr>cl_inflight := tab\<rparr>))"
proof -
  have "Request (call_id (cl_calls c ! n)) (call_op (cl_calls c ! n)) \<in> set (cl_sent c)"
    using client_invD(1) [OF inv] n w by (auto simp: call_ok_def)
  from inv_phase [OF inv n tab _ p, of "cl_sent c"] this show ?thesis by (simp add: set_phase_def)
qed

lemma inv_receive:
  assumes "client_inv c" "phase_is n Waiting c"
  shows "client_inv (call_receive n c)"
proof (cases "call_mail (cl_calls c ! n)")
  case (Some r)
  have n: "n < length (cl_calls c)" "call_phase (cl_calls c ! n) = Waiting" using assms(2) by (simp_all add: phase_is_def)
  have "table_ok ((cl_calls c)[n := (cl_calls c ! n)\<lparr>call_phase := Finished (Answered r)\<rparr>]) (cl_inflight c)"
    by (rule table_ok_keep [OF client_invD(2) [OF assms(1)] n(1)]) (simp_all add: pending_def Some)
  from inv_written [OF assms(1) n(1) _ _ this] n(2) Some show ?thesis by (simp add: call_receive_def)
qed (use assms in \<open>simp add: call_receive_def\<close>)

lemma inv_expire:
  assumes "client_inv c" "phase_is n Waiting c"
  shows "client_inv (set_phase n Expired c)"
proof -
  have n: "n < length (cl_calls c)" "call_phase (cl_calls c ! n) = Waiting" using assms(2) by (simp_all add: phase_is_def)
  have "table_ok ((cl_calls c)[n := (cl_calls c ! n)\<lparr>call_phase := Expired\<rparr>]) (cl_inflight c)"
    by (rule table_ok_keep [OF client_invD(2) [OF assms(1)] n(1)]) (simp_all add: pending_def n(2))
  from inv_written [OF assms(1) n(1) _ _ this] n(2) show ?thesis by simp
qed

lemma inv_reap:
  assumes "client_inv c" "phase_is n Expired c"
  shows "client_inv (call_reap n c)"
proof -
  have n: "n < length (cl_calls c)" "call_phase (cl_calls c ! n) = Expired" using assms(2) by (simp_all add: phase_is_def)
  have "table_ok ((cl_calls c)[n := (cl_calls c ! n)\<lparr>call_phase := Finished TimedOut\<rparr>])
      (AList.delete (call_id (cl_calls c ! n)) (cl_inflight c))"
    by (rule table_ok_done [OF client_invD(2,1) [OF assms(1)] n(1)]) (simp_all add: pending_def)
  from inv_written [OF assms(1) n(1) _ _ this] n(2) show ?thesis by (simp add: call_reap_def)
qed

lemma inv_read:
  assumes "client_inv c" "set (cl_read c) \<subseteq> set read"
  shows "client_inv (c\<lparr>cl_read := read\<rparr>)"
  using assms call_ok_mono [OF _ subset_refl assms(2)] by (auto simp: client_inv_def)

lemma inv_deliver:
  assumes inv: "client_inv c" and at: "map_of (cl_inflight c) i = Some n" and r: "Response i result \<in> set (cl_read c)"
  shows "client_inv (deliver n result (c\<lparr>cl_inflight := AList.delete i (cl_inflight c)\<rparr>))"
proof -
  let ?cal = "cl_calls c ! n"
  have n: "n < length (cl_calls c)" "call_id ?cal = i" "pending ?cal"
    using table_okD(2) [OF client_invD(2) [OF inv] at] by auto
  have "table_ok ((cl_calls c)[n := ?cal\<lparr>call_mail := Some result\<rparr>]) (AList.delete (call_id ?cal) (cl_inflight c))"
    by (rule table_ok_done [OF client_invD(2,1) [OF inv] n(1)]) (simp_all add: pending_def)
  moreover have "call_ok (cl_sent c) (cl_read c) m ((cl_calls c)[n := ?cal\<lparr>call_mail := Some result\<rparr>] ! m)"
    if "m < length (cl_calls c)" for m
  proof (cases "m = n")
    case True
    have "call_ok (cl_sent c) (cl_read c) n ?cal" using client_invD(1) [OF inv] n(1) by simp
    then show ?thesis using True n r that by (auto simp: call_ok_def pending_def)
  next
    case False
    then show ?thesis using client_invD(1) [OF inv] that by simp
  qed
  ultimately show ?thesis using inv n(2) by (simp add: client_inv_def deliver_def)
qed

lemma inv_dispatch:
  assumes inv: "client_inv c"
    and room: "\<And>s. r = Ok (SampleMsg s) \<Longrightarrow> cl_rx_open c \<Longrightarrow> length (cl_samples c) < SAMPLE_CHANNEL_CAP"
  shows "client_inv (dispatch r c)"
proof (cases r)
  case (Ok m)
  let ?c = "c\<lparr>cl_read := cl_read c @ [m]\<rparr>"
  have c: "client_inv ?c" by (rule inv_read [OF inv]) auto
  have "client_inv (snd (dispatch_msg m ?c))"
  proof (cases m)
    case (Response i result)
    then show ?thesis using c inv_deliver [OF c, of i _ result]
      by (auto simp: dispatch_msg_def split: option.splits)
  qed (use c room Ok in \<open>auto simp: dispatch_msg_def client_inv_def\<close>)
  then have "client_inv (snd (dispatch_msg m ?c)\<lparr>cl_reading := b\<rparr>)" for b by (simp add: client_inv_def)
  then show ?thesis by (simp add: dispatch_def Ok split_beta)
qed (use inv in \<open>simp add: dispatch_def client_inv_def\<close>)

lemma inv_send: "client_inv c \<Longrightarrow> client_inv (snd (client_send m fault c))"
  using call_ok_mono [of "cl_sent c" "cl_read c" _ _ "cl_sent c @ [m]" "cl_read c"]
  by (cases fault) (auto simp: client_send_def client_inv_def)

lemma inv_same:
  "client_inv c \<Longrightarrow> client_inv (c\<lparr>cl_rx_open := b\<rparr>)"
  "client_inv c \<Longrightarrow> client_inv (c\<lparr>cl_listeners := ls\<rparr>)"
  "client_inv c \<Longrightarrow> client_inv (subscribe_catalogue c)"
  "client_inv c \<Longrightarrow> cl_samples c = s # ss \<Longrightarrow> client_inv (c\<lparr>cl_samples := ss\<rparr>)"
  by (simp_all add: client_inv_def subscribe_catalogue_def)

lemma inv_client_step: "client_step c c' \<Longrightarrow> client_inv c \<Longrightarrow> client_inv c'"
  by (induction rule: client_step.induct)
    (blast intro: inv_begin inv_write inv_receive inv_expire inv_reap inv_dispatch inv_send inv_same)+

lemma inv_client_reach: "client_reach c \<Longrightarrow> client_inv c"
proof (induction rule: client_reach.induct)
  case (Start infos)
  then show ?case by (simp add: client_inv_def client_new_def table_ok_def)
qed (rule inv_client_step)

section \<open>Properties\<close>

text \<open>
  C17: Responses reach the caller they are for, however callers, time-outs and the dispatcher
  interleave: on a connection of fewer than 2^32 requests a caller that is answered gets the result
  of a response that carries the id of its own request, which was written before and belongs to no
  other call; a call is in the inflight table exactly while it still waits for its response, so a
  finished or timed-out call leaves nothing behind.
\<close>

theorem rpc_correlation:
  assumes "client_reach c" and "length (cl_calls c) < 2 ^ 32" and "n < length (cl_calls c)"
  shows "(\<forall>result. call_phase (cl_calls c ! n) = Finished (Answered result) \<longrightarrow>
        Response (call_id (cl_calls c ! n)) result \<in> set (cl_read c)
        \<and> Request (call_id (cl_calls c ! n)) (call_op (cl_calls c ! n)) \<in> set (cl_sent c))
    \<and> (\<forall>m < length (cl_calls c). call_id (cl_calls c ! m) = call_id (cl_calls c ! n) \<longrightarrow> m = n)
    \<and> map_of (cl_inflight c) (call_id (cl_calls c ! n)) = (if pending (cl_calls c ! n) then Some n else None)
    \<and> length (cl_samples c) \<le> SAMPLE_CHANNEL_CAP"
proof -
  note inv = inv_client_reach [OF assms(1)]
  note ok = client_invD(1) [OF inv] and tab = client_invD(2) [OF inv]
  have "call_ok (cl_sent c) (cl_read c) n (cl_calls c ! n)" using ok assms(3) by simp
  moreover have "map_of (cl_inflight c) (call_id (cl_calls c ! n)) = None" if "\<not> pending (cl_calls c ! n)"
  proof (cases "map_of (cl_inflight c) (call_id (cl_calls c ! n))")
    case (Some m)
    then have "m < length (cl_calls c)" "call_id (cl_calls c ! m) = call_id (cl_calls c ! n)" "pending (cl_calls c ! m)"
      using table_okD(2) [OF tab Some] by auto
    then show ?thesis using ids_distinct [OF ok assms(2) _ assms(3)] that by auto
  qed simp
  ultimately show ?thesis using ids_distinct [OF ok assms(2) _ assms(3)] table_okD(3) [OF tab assms(2,3)] inv
    by (auto simp: call_ok_def client_inv_def)
qed

text \<open>
  C0: What \<^verbatim>\<open>validate_ssh_target\<close> accepts cannot be taken for an option by \<^verbatim>\<open>ssh\<close>: the target is not empty
  and neither it nor its host starts with a dash, and it holds no control character.
\<close>

theorem ssh_target_safe:
  "validate_ssh_target target = Ok () \<longleftrightarrow>
     target \<noteq> [] \<and> hd target \<noteq> CHR ''-''
     \<and> (let host_part = (case rsplit_once CHR ''@'' target of Some (_, h) \<Rightarrow> h | None \<Rightarrow> target)
        in \<not> starts_with ''-'' (takeWhile (\<lambda>c. c \<noteq> CHR '':'') host_part))
     \<and> (\<forall>c \<in> set target. \<not> is_control c)"
proof -
  have host: "(case split_once CHR '':'' h of Some (a, _) \<Rightarrow> a | None \<Rightarrow> h) = takeWhile (\<lambda>c. c \<noteq> CHR '':'') h" for h
    by (induction h) (auto split: option.splits)
  have dash: "starts_with ''-'' t \<longleftrightarrow> t \<noteq> [] \<and> hd t = CHR ''-''" for t
    by (cases t) (auto simp: starts_with_def)
  show ?thesis unfolding validate_ssh_target_def Let_def host
    by (auto simp: dash list_ex_iff)
qed

text \<open>
  C38: Renaming a device while another client connects breaks that client's handshake: the daemon
  registers the client for broadcasts before it answers \<^verbatim>\<open>ListSensors\<close>, and the client takes any other
  message for a protocol error, whatever it reads afterwards.
\<close>

theorem handshake_broken_by_rename:
  assumes reliable: "\<And>sent m. mw_fail w sent m = None" and "mw_sent w = [Welcome PROTOCOL_VERSION v plugins]"
  shows "let d1 = register_session k w d;
             d2 = d1\<lparr>dm_clients := broadcast_sensor_list infos (dm_clients d1)\<rparr>
    in \<exists>se. map_of (dm_sessions (pump_tick k d2)) k = Some se
    \<and> mw_sent (se_writer se) = [Welcome PROTOCOL_VERSION v plugins, SensorListBroadcast infos]
    \<and> (\<forall>writes. writes (Hello PROTOCOL_VERSION ''linsight-gui'' None) = None \<and> writes ListSensors = None \<longrightarrow>
         finish_handshake writes (Ok (mw_sent (se_writer se) ! 0)) (Ok (mw_sent (se_writer se) ! 1))
           = Err (UnexpectedListReply (SensorListBroadcast infos)))"
proof -
  define d1 where "d1 = register_session k w d"
  define d2 where "d2 = d1\<lparr>dm_clients := broadcast_sensor_list infos (dm_clients d1)\<rparr>"
  have gone: "fst (try_send m sink) = ReceiverGone \<longleftrightarrow> \<not> sk_receiver sink" for m sink by (simp add: try_send_def)
  have at: "map_of (broadcast_sensor_list infos cl) i = Some (snd (try_send (OutSensorListBroadcast infos) sink))"
    if "map_of cl i = Some sink" "sk_receiver sink" for cl i sink
    using that by (induction cl) (auto simp: broadcast_sensor_list_def gone split: if_splits)
  let ?i = "dm_next_client_id d"
  have s: "map_of (dm_sessions d2) k = Some \<lparr>se_client_id = ?i, se_ledger = [], se_releasing = [], se_writer = w,
      se_pump_interval_ms = ucast PUMP_INTERVAL_DEFAULT_MS\<rparr>"
    by (simp add: d2_def d1_def register_session_def update_conv')
  have "map_of (dm_clients d2) ?i = Some \<lparr>sk_queue = [OutSensorListBroadcast infos], sk_receiver = True, sk_session = k\<rparr>"
    using at [of "dm_clients d1" ?i "\<lparr>sk_queue = [], sk_receiver = True, sk_session = k\<rparr>"]
    by (simp add: d2_def d1_def register_session_def update_conv' try_send_def OUTBOUND_QUEUE_CAP_def)
  then show ?thesis unfolding Let_def d1_def [symmetric] d2_def [symmetric] using pump_tick_reliable [OF s] reliable assms(2)
    by (simp add: update_conv' PUMP_DRAIN_CAP_def finish_handshake_def check_welcome_def check_list_def)
qed



section \<open>Instances\<close>

definition demo_client :: client where
  "demo_client = call_write 0 None (call_begin (GetSensorInfo ''xe.gpu0.util'') (client_new []))"

lemma demo_client_reach: "client_reach demo_client"
proof -
  have 1: "client_reach (call_begin (GetSensorInfo ''xe.gpu0.util'') (client_new []))"
    by (rule client_reach.Step [OF client_reach.Start client_step.Begin])
  show ?thesis unfolding demo_client_def
    by (rule client_reach.Step [OF 1 client_step.Write]) (simp add: phase_is_def call_begin_def client_new_def)
qed

lemma demo_client_calls: "cl_calls demo_client = [\<lparr>call_id = 1, call_op = GetSensorInfo ''xe.gpu0.util'', call_mail = None, call_phase = Waiting\<rparr>]"
  by (simp add: demo_client_def call_write_def call_begin_def client_new_def client_send_def set_phase_def Let_def)

theorem rpc_correlation_witness: "map_of (cl_inflight demo_client) 1 = Some 0"
  using rpc_correlation [OF demo_client_reach, of 0] by (simp add: demo_client_calls pending_def)

theorem handshake_broken_by_rename_witness:
  "let w = \<lparr>mw_sent = [Welcome PROTOCOL_VERSION ''1'' []], mw_fail = (\<lambda>_ _. None)\<rparr>;
       d1 = register_session 3 w demo_daemon;
       d2 = d1\<lparr>dm_clients := broadcast_sensor_list [] (dm_clients d1)\<rparr>
   in \<exists>se. map_of (dm_sessions (pump_tick 3 d2)) 3 = Some se
     \<and> finish_handshake (\<lambda>_. None) (Ok (mw_sent (se_writer se) ! 0)) (Ok (mw_sent (se_writer se) ! 1))
         = Err (UnexpectedListReply (SensorListBroadcast []))"
  using handshake_broken_by_rename [where w = "\<lparr>mw_sent = [Welcome PROTOCOL_VERSION ''1'' []], mw_fail = (\<lambda>_ _. None)\<rparr>"
      and v = "''1''" and plugins = "[]" and k = 3 and d = demo_daemon and infos = "[]"]
  by (simp add: Let_def) metis


end
