(* ===== verification/Workspace.thy ===== *)
theory Workspace
  imports Client Overview
begin

text \<open>
  The GUI's connection manager, \<^verbatim>\<open>apps/linsight-gui/src/workspace.rs\<close>: the subscriptions it replays on
  a reconnect, the generation that tags what each connection forwards, the flag that says whether
  the connection lives, and the supervisor that keeps it alive. Every connection made is an entry
  of \<open>ws_links\<close>, with the messages it was sent. Operations that take several locks are composed of
  atomic steps that other threads may interleave with.
\<close>

section \<open>State\<close>

datatype forwarder = NotStarted | Forwarding u64 | Checked bool | Ended

record link =
  ln_sent :: "ClientMsg list"
  ln_reading :: bool
  ln_samples :: "Sample list"
  ln_forwarder :: forwarder

record workspace =
  ws_links :: "link list"
  ws_client :: nat
  ws_subscriptions :: "SensorId list"
  ws_pump_interval_ms :: u32
  ws_active_target :: string
  ws_generation :: u64
  ws_alive :: bool
  ws_bridge :: "(u64 \<times> Sample) list"

definition BRIDGE_CHANNEL_CAP :: nat where
  "BRIDGE_CHANNEL_CAP = 512"

definition link_new :: link where
  "link_new = \<lparr>ln_sent = [], ln_reading = True, ln_samples = [], ln_forwarder = NotStarted\<rparr>"

definition workspace_new :: "string \<Rightarrow> workspace" where
  "workspace_new initial_target =
     \<lparr>ws_links = [link_new\<lparr>ln_forwarder := Forwarding 1\<rparr>], ws_client = 0, ws_subscriptions = [],
      ws_pump_interval_ms = PUMP_INTERVAL_DEFAULT_MS, ws_active_target = initial_target, ws_generation = 1,
      ws_alive = True, ws_bridge = []\<rparr>"

definition update_link :: "nat \<Rightarrow> (link \<Rightarrow> link) \<Rightarrow> workspace \<Rightarrow> workspace" where
  "update_link i f ws = ws\<lparr>ws_links := (ws_links ws)[i := f (ws_links ws ! i)]\<rparr>"

definition send_to :: "nat \<Rightarrow> ClientMsg \<Rightarrow> FrameError option \<Rightarrow> workspace \<Rightarrow> (unit, FrameError) result \<times> workspace" where
  "send_to i m fault ws =
     (case fault of
        Some e \<Rightarrow> (Err e, ws)
      | None \<Rightarrow> (Ok (), update_link i (\<lambda>l. l\<lparr>ln_sent := ln_sent l @ [m]\<rparr>) ws))"

section \<open>Subscriptions\<close>

definition remember_subs :: "SensorId list \<Rightarrow> SensorId list \<Rightarrow> SensorId list" where
  "remember_subs sensors subs = fold (\<lambda>s subs. if s \<in> set subs then subs else subs @ [s]) sensors subs"

definition forget_subs :: "SensorId list \<Rightarrow> SensorId list \<Rightarrow> SensorId list" where
  "forget_subs sensors subs = filter (\<lambda>s. s \<notin> set sensors) subs"

definition ws_subscribe :: "SensorId list \<Rightarrow> FrameError option \<Rightarrow> workspace \<Rightarrow> (unit, FrameError) result \<times> workspace" where
  "ws_subscribe sensors fault ws =
     (if sensors = [] then (Ok (), ws)
      else send_to (ws_client ws) (Subscribe sensors None) fault
             (ws\<lparr>ws_subscriptions := remember_subs sensors (ws_subscriptions ws)\<rparr>))"

definition ws_unsubscribe :: "SensorId list \<Rightarrow> FrameError option \<Rightarrow> workspace \<Rightarrow> (unit, FrameError) result \<times> workspace" where
  "ws_unsubscribe sensors fault ws =
     (if sensors = [] then (Ok (), ws)
      else send_to (ws_client ws) (Unsubscribe sensors) fault
             (ws\<lparr>ws_subscriptions := forget_subs sensors (ws_subscriptions ws)\<rparr>))"

definition replace_subscriptions ::
  "SensorId list \<Rightarrow> FrameError option \<Rightarrow> FrameError option \<Rightarrow> workspace \<Rightarrow> (unit, FrameError) result \<times> workspace" where
  "replace_subscriptions sensors fault1 fault2 ws =
     (let old = ws_subscriptions ws;
          ws1 = ws\<lparr>ws_subscriptions := []\<rparr>;
          ws2 = (if old = [] then ws1 else snd (send_to (ws_client ws1) (Unsubscribe old) fault1 ws1))
      in if sensors = [] then (Ok (), ws2)
         else send_to (ws_client ws2) (Subscribe sensors None) fault2 (ws2\<lparr>ws_subscriptions := sensors\<rparr>))"

text \<open>\<open>answer\<close> is how the request to the daemon ended.\<close>

definition ws_set_pump_interval :: "u32 \<Rightarrow> (u32, rpc_error) result \<Rightarrow> workspace \<Rightarrow> (u32, rpc_error) result \<times> workspace" where
  "ws_set_pump_interval ms answer ws =
     (case answer of Err e \<Rightarrow> (Err e, ws) | Ok applied \<Rightarrow> (Ok applied, ws\<lparr>ws_pump_interval_ms := applied\<rparr>))"

definition send_keepalive :: "FrameError option \<Rightarrow> workspace \<Rightarrow> (unit, FrameError) result \<times> workspace" where
  "send_keepalive fault ws = send_to (ws_client ws) (Subscribe [] None) fault ws"

section \<open>Reconnecting\<close>

datatype reconnect_target = LocalDaemon | SshDaemon string | UnsupportedTarget string

definition parse_target :: "string \<Rightarrow> reconnect_target" where
  "parse_target target =
     (if target = ''local'' then LocalDaemon
      else case strip_prefix ''ssh://'' target of
             Some url \<Rightarrow> SshDaemon (''ssh://'' @ url)
           | None \<Rightarrow> UnsupportedTarget (''unsupported reconnect target: '' @ target))"

datatype reconnect_error = ReplayFailed FrameError | IntervalFailed rpc_error

text \<open>
  The two halves of \<^verbatim>\<open>reconnect_with_client\<close>, which the reconnect lock keeps from overlapping with
  another reconnect, but not with anything else: the replay on the new client, the next entry of
  \<open>ws_links\<close>, and the switch to it. The result of the first half is the generation to publish.
\<close>

definition reconnect_replay ::
  "FrameError option \<Rightarrow> (u32, rpc_error) result \<Rightarrow> workspace \<Rightarrow> (nat \<times> u64, reconnect_error) result \<times> workspace" where
  "reconnect_replay fault answer ws =
     (let i = length (ws_links ws);
          ws1 = ws\<lparr>ws_links := ws_links ws @ [link_new]\<rparr>;
          new_generation = saturating_add (ws_generation ws) 1;
          subs = ws_subscriptions ws; pump_ms = ws_pump_interval_ms ws
      in case (if subs = [] then (Ok (), ws1) else send_to i (Subscribe subs None) fault ws1) of
           (Err e, ws2) \<Rightarrow> (Err (ReplayFailed e), ws2)
         | (Ok _, ws2) \<Rightarrow>
             (if pump_ms = PUMP_INTERVAL_DEFAULT_MS then (Ok (i, new_generation), ws2)
              else (case answer of
                      Err e \<Rightarrow> (Err (IntervalFailed e), ws2)
                    | Ok _ \<Rightarrow> (Ok (i, new_generation),
                               update_link i (\<lambda>l. l\<lparr>ln_sent := ln_sent l @ [Request 1 (SetPumpIntervalMs pump_ms)]\<rparr>) ws2))))"

definition reconnect_commit :: "nat \<Rightarrow> u64 \<Rightarrow> string \<Rightarrow> workspace \<Rightarrow> workspace" where
  "reconnect_commit i g target ws =
     (let old = ws_client ws;
          ws1 = ws\<lparr>ws_generation := g, ws_alive := True, ws_client := i\<rparr>;
          ws2 = update_link old (\<lambda>l. l\<lparr>ln_sent := ln_sent l @ [Goodbye]\<rparr>) ws1
      in (update_link i (\<lambda>l. l\<lparr>ln_forwarder := Forwarding g\<rparr>) ws2)\<lparr>ws_active_target := target\<rparr>)"

definition reconnect_with_client ::
  "FrameError option \<Rightarrow> (u32, rpc_error) result \<Rightarrow> string \<Rightarrow> workspace \<Rightarrow> (unit, reconnect_error) result \<times> workspace" where
  "reconnect_with_client fault answer target ws =
     (case reconnect_replay fault answer ws of
        (Err e, ws1) \<Rightarrow> (Err e, ws1)
      | (Ok (i, g), ws1) \<Rightarrow> (Ok (), reconnect_commit i g target ws1))"

text \<open>The steps of a connection's sample forwarder; the last two are separate atomic operations.\<close>

definition forward_sample :: "nat \<Rightarrow> workspace \<Rightarrow> workspace option" where
  "forward_sample i ws =
     (let l = ws_links ws ! i
      in case (ln_forwarder l, ln_samples l) of
           (Forwarding g, s # ss) \<Rightarrow>
             if length (ws_bridge ws) < BRIDGE_CHANNEL_CAP
             then Some ((update_link i (\<lambda>l. l\<lparr>ln_samples := ss\<rparr>) ws)\<lparr>ws_bridge := ws_bridge ws @ [(g, s)]\<rparr>)
             else None
         | _ \<Rightarrow> None)"

definition forwarder_check :: "nat \<Rightarrow> workspace \<Rightarrow> workspace option" where
  "forwarder_check i ws =
     (let l = ws_links ws ! i
      in case ln_forwarder l of
           Forwarding g \<Rightarrow>
             if ln_samples l = [] \<and> \<not> ln_reading l
             then Some (update_link i (\<lambda>l. l\<lparr>ln_forwarder := Checked (ws_generation ws = g)\<rparr>) ws) else None
         | _ \<Rightarrow> None)"

definition forwarder_end :: "nat \<Rightarrow> workspace \<Rightarrow> workspace option" where
  "forwarder_end i ws =
     (case ln_forwarder (ws_links ws ! i) of
        Checked mine \<Rightarrow>
          Some ((update_link i (\<lambda>l. l\<lparr>ln_forwarder := Ended\<rparr>) ws)\<lparr>ws_alive := (if mine then False else ws_alive ws)\<rparr>)
      | _ \<Rightarrow> None)"

section \<open>The supervisor\<close>

text \<open>Times are in milliseconds since the thread started.\<close>

definition SUPERVISOR_TICK :: nat where "SUPERVISOR_TICK = 1000"
definition KEEPALIVE_INTERVAL :: nat where "KEEPALIVE_INTERVAL = 600000"
definition RECONNECT_BACKOFF_MAX :: nat where "RECONNECT_BACKOFF_MAX = 15000"

record supervisor =
  sv_last_keepalive :: nat
  sv_backoff :: nat

datatype supervisor_action = SendKeepalive | NoAction | Reconnected | RetryAfter nat

definition supervisor_new :: supervisor where
  "supervisor_new = \<lparr>sv_last_keepalive = 0, sv_backoff = 1000\<rparr>"

text \<open>What one turn does after its sleep, at time \<open>now\<close>; \<open>reconnected\<close> is the time a reconnect ends, if it succeeds.\<close>

definition supervisor_turn :: "bool \<Rightarrow> nat \<Rightarrow> nat option \<Rightarrow> supervisor \<Rightarrow> supervisor_action \<times> supervisor" where
  "supervisor_turn alive now reconnected sv =
     (if alive
      then (if KEEPALIVE_INTERVAL \<le> now - sv_last_keepalive sv
            then (SendKeepalive, sv\<lparr>sv_backoff := 1000, sv_last_keepalive := now\<rparr>)
            else (NoAction, sv\<lparr>sv_backoff := 1000\<rparr>))
      else case reconnected of
             Some done_at \<Rightarrow> (Reconnected, \<lparr>sv_last_keepalive = done_at, sv_backoff = 1000\<rparr>)
           | None \<Rightarrow> (RetryAfter (sv_backoff sv), sv\<lparr>sv_backoff := min (sv_backoff sv * 2) RECONNECT_BACKOFF_MAX\<rparr>))"


section \<open>What the daemon holds\<close>

text \<open>The sensors a session is subscribed to after the messages of its client.\<close>

definition session_step :: "ClientMsg \<Rightarrow> SensorId set \<Rightarrow> SensorId set" where
  "session_step m S = (case m of Subscribe ss _ \<Rightarrow> S \<union> set ss | Unsubscribe ss \<Rightarrow> S - set ss | _ \<Rightarrow> S)"

definition session_subs :: "ClientMsg list \<Rightarrow> SensorId set" where
  "session_subs sent = fold session_step sent {}"

definition current_link :: "workspace \<Rightarrow> link" where
  "current_link ws = ws_links ws ! ws_client ws"

datatype ws_op =
    OpSubscribe "SensorId list"
  | OpUnsubscribe "SensorId list"
  | OpReplace "SensorId list"
  | OpInterval u32 "(u32, rpc_error) result"
  | OpKeepalive
  | OpReconnect string "FrameError option" "(u32, rpc_error) result"

text \<open>One operation at a time, on a connection whose writes succeed.\<close>

definition run_op :: "ws_op \<Rightarrow> workspace \<Rightarrow> workspace" where
  "run_op op ws =
     (case op of
        OpSubscribe ss \<Rightarrow> snd (ws_subscribe ss None ws)
      | OpUnsubscribe ss \<Rightarrow> snd (ws_unsubscribe ss None ws)
      | OpReplace ss \<Rightarrow> snd (replace_subscriptions ss None None ws)
      | OpInterval ms answer \<Rightarrow> snd (ws_set_pump_interval ms answer ws)
      | OpKeepalive \<Rightarrow> snd (send_keepalive None ws)
      | OpReconnect target fault answer \<Rightarrow> snd (reconnect_with_client fault answer target ws))"

definition replayed :: "workspace \<Rightarrow> bool" where
  "replayed ws \<longleftrightarrow> ws_client ws < length (ws_links ws) \<and> session_subs (ln_sent (current_link ws)) = set (ws_subscriptions ws)"

lemma session_subs_snoc: "session_subs (ms @ [m]) = session_step m (session_subs ms)"
  by (simp add: session_subs_def)

lemma session_subs_Nil: "session_subs [] = {}"
  by (simp add: session_subs_def)

lemma set_remember: "set (remember_subs sensors subs) = set subs \<union> set sensors"
  by (induction sensors arbitrary: subs) (auto simp: remember_subs_def)

lemma set_forget: "set (forget_subs sensors subs) = set subs - set sensors"
  by (auto simp: forget_subs_def)

lemma current_update:
  "i < length (ws_links ws) \<Longrightarrow> ws_client (update_link i f ws) = ws_client ws
     \<and> ws_links (update_link i f ws) ! j = (if j = i then f (ws_links ws ! i) else ws_links ws ! j)
     \<and> length (ws_links (update_link i f ws)) = length (ws_links ws)
     \<and> ws_subscriptions (update_link i f ws) = ws_subscriptions ws
     \<and> ws_generation (update_link i f ws) = ws_generation ws \<and> ws_alive (update_link i f ws) = ws_alive ws
     \<and> ws_bridge (update_link i f ws) = ws_bridge ws"
  by (simp add: update_link_def nth_list_update)

lemma send_to_None: "send_to i m None ws = (Ok (), update_link i (\<lambda>l. l\<lparr>ln_sent := ln_sent l @ [m]\<rparr>) ws)"
  by (simp add: send_to_def)

lemmas replay_defs = replayed_def current_link_def session_subs_snoc session_step_def

lemma replayed_subscribe: "replayed ws \<Longrightarrow> replayed (snd (ws_subscribe ss None ws))"
  by (auto simp: ws_subscribe_def send_to_None replay_defs current_update set_remember)

lemma replayed_unsubscribe: "replayed ws \<Longrightarrow> replayed (snd (ws_unsubscribe ss None ws))"
  by (auto simp: ws_unsubscribe_def send_to_None replay_defs current_update set_forget)

lemma replayed_replace: "replayed ws \<Longrightarrow> replayed (snd (replace_subscriptions ss None None ws))"
  by (auto simp: replace_subscriptions_def Let_def send_to_None replay_defs current_update)

text \<open>The replay leaves the old connection alone and subscribes the new one to what was remembered.\<close>

lemma replay_spec:
  assumes "reconnect_replay fault answer ws = (r, ws')"
  shows "ws_client ws' = ws_client ws \<and> ws_subscriptions ws' = ws_subscriptions ws \<and> ws_generation ws' = ws_generation ws
    \<and> ws_alive ws' = ws_alive ws \<and> ws_bridge ws' = ws_bridge ws
    \<and> length (ws_links ws') = Suc (length (ws_links ws)) \<and> (\<forall>j < length (ws_links ws). ws_links ws' ! j = ws_links ws ! j)
    \<and> ln_forwarder (ws_links ws' ! length (ws_links ws)) = NotStarted \<and> ln_reading (ws_links ws' ! length (ws_links ws))
    \<and> (\<forall>i g. r = Ok (i, g) \<longrightarrow> i = length (ws_links ws) \<and> g = saturating_add (ws_generation ws) 1
         \<and> session_subs (ln_sent (ws_links ws' ! i)) = set (ws_subscriptions ws))"
proof (cases "ws_subscriptions ws = []")
  case True
  show ?thesis
    using assms
    by (auto simp: True reconnect_replay_def Let_def update_link_def link_new_def nth_append session_subs_def session_step_def
        split: if_splits result.splits)
next
  case False
  then show ?thesis
    using assms
    by (cases fault)
      (auto simp: reconnect_replay_def Let_def send_to_def update_link_def link_new_def nth_append session_subs_def session_step_def
        nth_list_update split: if_splits result.splits)
qed

lemma replayed_reconnect:
  assumes "replayed ws"
  shows "replayed (snd (reconnect_with_client fault answer target ws))"
proof -
  obtain r ws1 where rp: "reconnect_replay fault answer ws = (r, ws1)" by fastforce
  note spec = replay_spec [OF rp]
  have client: "ws_client ws < length (ws_links ws)" using assms by (simp add: replayed_def)
  show ?thesis
  proof (cases r)
    case (Ok ig)
    then obtain i g where ig: "r = Ok (i, g)" by (cases ig) auto
    then have "i = length (ws_links ws)" "session_subs (ln_sent (ws_links ws1 ! i)) = set (ws_subscriptions ws1)" using spec by auto
    then show ?thesis using spec client
      by (auto simp: reconnect_with_client_def rp ig reconnect_commit_def Let_def replayed_def current_link_def update_link_def nth_list_update)
  next
    case (Err e)
    then show ?thesis using assms spec client by (auto simp: reconnect_with_client_def rp replayed_def current_link_def)
  qed
qed

lemma replayed_op: "replayed ws \<Longrightarrow> replayed (run_op op ws)"
proof (cases op)
  case (OpInterval ms answer)
  then show "replayed ws \<Longrightarrow> ?thesis" by (cases answer) (simp_all add: run_op_def ws_set_pump_interval_def replayed_def current_link_def)
next
  case OpKeepalive
  then show "replayed ws \<Longrightarrow> ?thesis"
    by (simp add: run_op_def send_keepalive_def send_to_None replay_defs current_update)
qed (simp_all add: run_op_def replayed_subscribe replayed_unsubscribe replayed_replace replayed_reconnect)



section \<open>Threads\<close>

text \<open>
  The states the workspace can reach when its operations, the two halves of a reconnect, the
  forwarders, the pump and the sockets interleave. The second component is a replay that awaits its
  commit.
\<close>

inductive ws_reach :: "workspace \<Rightarrow> (nat \<times> u64) option \<Rightarrow> bool" where
  Start: "ws_reach (workspace_new target) None"
| Subscribe: "ws_reach ws r \<Longrightarrow> ws_reach (snd (ws_subscribe ss fault ws)) r"
| Unsubscribe: "ws_reach ws r \<Longrightarrow> ws_reach (snd (ws_unsubscribe ss fault ws)) r"
| Replace: "ws_reach ws r \<Longrightarrow> ws_reach (snd (replace_subscriptions ss fault1 fault2 ws)) r"
| Interval: "ws_reach ws r \<Longrightarrow> ws_reach (snd (ws_set_pump_interval ms answer ws)) r"
| Keepalive: "ws_reach ws r \<Longrightarrow> ws_reach (snd (send_keepalive fault ws)) r"
| Replay: "ws_reach ws None \<Longrightarrow> reconnect_replay fault answer ws = (res, ws') \<Longrightarrow> ws_reach ws' (result_ok res)"
| Commit: "ws_reach ws (Some (i, g)) \<Longrightarrow> ws_reach (reconnect_commit i g target ws) None"
| Forward: "ws_reach ws r \<Longrightarrow> i < length (ws_links ws) \<Longrightarrow> forward_sample i ws = Some ws' \<Longrightarrow> ws_reach ws' r"
| Check: "ws_reach ws r \<Longrightarrow> i < length (ws_links ws) \<Longrightarrow> forwarder_check i ws = Some ws' \<Longrightarrow> ws_reach ws' r"
| Stop: "ws_reach ws r \<Longrightarrow> i < length (ws_links ws) \<Longrightarrow> forwarder_end i ws = Some ws' \<Longrightarrow> ws_reach ws' r"
| Sample: "ws_reach ws r \<Longrightarrow> i < length (ws_links ws) \<Longrightarrow> ws_reach (update_link i (\<lambda>l. l\<lparr>ln_samples := ln_samples l @ [s]\<rparr>) ws) r"
| Hangup: "ws_reach ws r \<Longrightarrow> i < length (ws_links ws) \<Longrightarrow> ws_reach (update_link i (\<lambda>l. l\<lparr>ln_reading := False\<rparr>) ws) r"
| Pump: "ws_reach ws r \<Longrightarrow> ws_bridge ws = m # ms \<Longrightarrow> ws_reach (ws\<lparr>ws_bridge := ms\<rparr>) r"

definition gens_ok :: "workspace \<Rightarrow> bool" where
  "gens_ok ws \<longleftrightarrow>
     ws_client ws < length (ws_links ws)
     \<and> (\<forall>i < length (ws_links ws). \<forall>g. ln_forwarder (ws_links ws ! i) = Forwarding g \<longrightarrow>
          unat g \<le> unat (ws_generation ws) \<and> (unat (ws_generation ws) < 2 ^ 64 - 1 \<longrightarrow> g = ws_generation ws \<longrightarrow> i = ws_client ws))
     \<and> (\<forall>m \<in> set (ws_bridge ws). unat (fst m) \<le> unat (ws_generation ws))
     \<and> length (ws_bridge ws) \<le> BRIDGE_CHANNEL_CAP"

definition replay_ok :: "workspace \<Rightarrow> (nat \<times> u64) option \<Rightarrow> bool" where
  "replay_ok ws r \<longleftrightarrow>
     (\<forall>i g. r = Some (i, g) \<longrightarrow> i < length (ws_links ws) \<and> i \<noteq> ws_client ws \<and> g = saturating_add (ws_generation ws) 1
        \<and> ln_forwarder (ws_links ws ! i) = NotStarted)"

text \<open>Steps that leave generations, forwarders and the bridge alone.\<close>

definition same_gens :: "workspace \<Rightarrow> workspace \<Rightarrow> bool" where
  "same_gens ws ws' \<longleftrightarrow>
     ws_client ws' = ws_client ws \<and> ws_generation ws' = ws_generation ws \<and> ws_bridge ws' = ws_bridge ws
     \<and> map ln_forwarder (ws_links ws') = map ln_forwarder (ws_links ws)"

lemma same_gens_nth:
  assumes "same_gens ws ws'"
  shows "length (ws_links ws') = length (ws_links ws)"
    and "i < length (ws_links ws) \<Longrightarrow> ln_forwarder (ws_links ws' ! i) = ln_forwarder (ws_links ws ! i)"
proof -
  have m: "map ln_forwarder (ws_links ws') = map ln_forwarder (ws_links ws)" using assms by (simp add: same_gens_def)
  show len: "length (ws_links ws') = length (ws_links ws)" using m by (rule map_eq_imp_length_eq)
  show "i < length (ws_links ws) \<Longrightarrow> ln_forwarder (ws_links ws' ! i) = ln_forwarder (ws_links ws ! i)"
    using m len by (metis nth_map)
qed

lemma gens_ok_same: "gens_ok ws \<Longrightarrow> replay_ok ws r \<Longrightarrow> same_gens ws ws' \<Longrightarrow> gens_ok ws' \<and> replay_ok ws' r"
  using same_gens_nth [of ws ws'] by (auto simp: gens_ok_def replay_ok_def same_gens_def)

lemma same_gens_link: "(\<And>l. ln_forwarder (f l) = ln_forwarder l) \<Longrightarrow> same_gens ws (update_link i f ws)"
  by (simp add: same_gens_def update_link_def map_update list_update_same_conv) (metis list_update_id length_map list_update_beyond nth_map not_le)

lemma same_gens_send: "same_gens ws (snd (send_to i m fault ws))"
  by (cases fault) (auto simp: send_to_def intro: same_gens_link, simp add: same_gens_def)

lemma same_gens_trans: "same_gens a b \<Longrightarrow> same_gens b c \<Longrightarrow> same_gens a c"
  by (simp add: same_gens_def)

lemma same_gens_subs: "same_gens ws (ws\<lparr>ws_subscriptions := ss\<rparr>)"
  by (simp add: same_gens_def)

lemma same_gens_ops:
  "same_gens ws (snd (ws_subscribe ss fault ws))" "same_gens ws (snd (ws_unsubscribe ss fault ws))"
  "same_gens ws (snd (replace_subscriptions ss fault1 fault2 ws))" "same_gens ws (snd (ws_set_pump_interval ms answer ws))"
  "same_gens ws (snd (send_keepalive fault ws))"
proof -
  note s = same_gens_trans [OF same_gens_subs same_gens_send]
  show "same_gens ws (snd (ws_subscribe ss fault ws))" "same_gens ws (snd (ws_unsubscribe ss fault ws))"
    by (simp_all add: ws_subscribe_def ws_unsubscribe_def s) (simp_all add: same_gens_def)
  show "same_gens ws (snd (replace_subscriptions ss fault1 fault2 ws))"
    using s same_gens_trans [OF s s] by (simp add: replace_subscriptions_def Let_def same_gens_subs)
  show "same_gens ws (snd (ws_set_pump_interval ms answer ws))"
    by (cases answer) (simp_all add: ws_set_pump_interval_def same_gens_def)
  show "same_gens ws (snd (send_keepalive fault ws))" by (simp add: send_keepalive_def same_gens_send)
qed

lemma gens_okI:
  assumes "ws_client ws < length (ws_links ws)"
    and "\<And>i g. i < length (ws_links ws) \<Longrightarrow> ln_forwarder (ws_links ws ! i) = Forwarding g \<Longrightarrow> unat g \<le> unat (ws_generation ws)"
    and "\<And>i. i < length (ws_links ws) \<Longrightarrow> ln_forwarder (ws_links ws ! i) = Forwarding (ws_generation ws) \<Longrightarrow>
      unat (ws_generation ws) < 2 ^ 64 - 1 \<Longrightarrow> i = ws_client ws"
    and "\<And>m. m \<in> set (ws_bridge ws) \<Longrightarrow> unat (fst m) \<le> unat (ws_generation ws)"
    and "length (ws_bridge ws) \<le> BRIDGE_CHANNEL_CAP"
  shows "gens_ok ws"
  using assms unfolding gens_ok_def by blast

lemma gens_okD:
  assumes "gens_ok ws"
  shows "ws_client ws < length (ws_links ws)"
    and "i < length (ws_links ws) \<Longrightarrow> ln_forwarder (ws_links ws ! i) = Forwarding g \<Longrightarrow> unat g \<le> unat (ws_generation ws)"
    and "i < length (ws_links ws) \<Longrightarrow> ln_forwarder (ws_links ws ! i) = Forwarding (ws_generation ws) \<Longrightarrow>
      unat (ws_generation ws) < 2 ^ 64 - 1 \<Longrightarrow> i = ws_client ws"
    and "m \<in> set (ws_bridge ws) \<Longrightarrow> unat (fst m) \<le> unat (ws_generation ws)"
    and "length (ws_bridge ws) \<le> BRIDGE_CHANNEL_CAP"
  using assms unfolding gens_ok_def by blast+

lemma gens_ok_replay:
  assumes g: "gens_ok ws" and rp: "reconnect_replay fault answer ws = (res, ws')"
  shows "gens_ok ws' \<and> replay_ok ws' (result_ok res)"
proof -
  have eq: "ws_client ws' = ws_client ws" "ws_generation ws' = ws_generation ws" "ws_bridge ws' = ws_bridge ws"
    "length (ws_links ws') = Suc (length (ws_links ws))"
    and links: "\<And>j. j < length (ws_links ws) \<Longrightarrow> ws_links ws' ! j = ws_links ws ! j"
    and new: "ln_forwarder (ws_links ws' ! length (ws_links ws)) = NotStarted"
    and res: "\<And>i g. res = Ok (i, g) \<Longrightarrow> i = length (ws_links ws) \<and> g = saturating_add (ws_generation ws) 1"
    using replay_spec [OF rp] by blast+
  have f: "j < length (ws_links ws) \<and> ln_forwarder (ws_links ws ! j) = Forwarding g"
    if "j < length (ws_links ws')" "ln_forwarder (ws_links ws' ! j) = Forwarding g" for j g
  proof -
    have "j \<noteq> length (ws_links ws)" using that(2) new by auto
    then have "j < length (ws_links ws)" using that(1) eq(4) by simp
    then show ?thesis using links that(2) by simp
  qed
  have "gens_ok ws'"
  proof (rule gens_okI)
    show "ws_client ws' < length (ws_links ws')" using gens_okD(1) [OF g] eq by simp
    show "unat h \<le> unat (ws_generation ws')" if "i < length (ws_links ws')" "ln_forwarder (ws_links ws' ! i) = Forwarding h" for i h
      using gens_okD(2) [OF g] f [OF that] unfolding eq(2) by blast
    show "i = ws_client ws'" if "i < length (ws_links ws')" "ln_forwarder (ws_links ws' ! i) = Forwarding (ws_generation ws')"
      "unat (ws_generation ws') < 2 ^ 64 - 1" for i
      using gens_okD(3) [OF g, of i] f [OF that(1,2)] that(3) unfolding eq by blast
  qed (use gens_okD(4,5) [OF g] eq in auto)
  moreover have "replay_ok ws' (result_ok res)"
  proof (cases res)
    case (Ok ig)
    obtain i h where ig: "ig = (i, h)" by fastforce
    show ?thesis using res [of i h] new gens_okD(1) [OF g] by (simp add: Ok ig replay_ok_def eq)
  qed (simp add: replay_ok_def)
  ultimately show ?thesis by blast
qed

lemma gens_ok_commit:
  assumes g: "gens_ok ws" and r: "replay_ok ws (Some (i, g))"
  shows "gens_ok (reconnect_commit i g target ws)"
proof -
  have i: "i < length (ws_links ws)" "i \<noteq> ws_client ws" "g = saturating_add (ws_generation ws) 1" using r by (auto simp: replay_ok_def)
  have "unat (ws_generation ws) < 2 ^ LENGTH(64)" by (rule unsigned_less)
  then have le: "unat (ws_generation ws) \<le> unat g" "unat g < 2 ^ 64 - 1 \<Longrightarrow> unat (ws_generation ws) < unat g"
    using i(3) by (simp_all add: unat_saturating_add)
  let ?ws = "reconnect_commit i g target ws"
  have f: "ln_forwarder (ws_links ?ws ! j) = (if j = i then Forwarding g else ln_forwarder (ws_links ws ! j))" if "j < length (ws_links ws)" for j
    using that i(1) gens_okD(1) [OF g] by (auto simp: reconnect_commit_def Let_def update_link_def nth_list_update)
  have rest: "ws_client ?ws = i" "ws_generation ?ws = g" "ws_bridge ?ws = ws_bridge ws" "length (ws_links ?ws) = length (ws_links ws)"
    by (simp_all add: reconnect_commit_def Let_def update_link_def)
  show ?thesis
  proof (rule gens_okI, unfold rest)
    show "i < length (ws_links ws)" by (rule i(1))
    show "unat h \<le> unat g" if j: "j < length (ws_links ws)" "ln_forwarder (ws_links ?ws ! j) = Forwarding h" for j h
    proof (cases "j = i")
      case False
      then have "unat h \<le> unat (ws_generation ws)" using gens_okD(2) [OF g j(1)] f [OF j(1)] j(2) by simp
      then show ?thesis using le(1) by simp
    qed (use f [OF j(1)] j(2) in simp)
    show "j = i" if j: "j < length (ws_links ws)" "ln_forwarder (ws_links ?ws ! j) = Forwarding g" "unat g < 2 ^ 64 - 1" for j
    proof (rule ccontr)
      assume "j \<noteq> i"
      then have "unat g \<le> unat (ws_generation ws)" using gens_okD(2) [OF g j(1)] f [OF j(1)] j(2) by simp
      then show False using le(2) [OF j(3)] by simp
    qed
    show "unat (fst m) \<le> unat g" if "m \<in> set (ws_bridge ws)" for m using gens_okD(4) [OF g that] le(1) by simp
  qed (rule gens_okD(5) [OF g])
qed

lemma forward_gens:
  assumes "gens_ok ws" "replay_ok ws r" "i < length (ws_links ws)" "forward_sample i ws = Some ws'"
  shows "gens_ok ws' \<and> replay_ok ws' r"
proof -
  obtain g s ss where l: "ln_forwarder (ws_links ws ! i) = Forwarding g" "ln_samples (ws_links ws ! i) = s # ss"
      "length (ws_bridge ws) < BRIDGE_CHANNEL_CAP"
      "ws' = (update_link i (\<lambda>l. l\<lparr>ln_samples := ss\<rparr>) ws)\<lparr>ws_bridge := ws_bridge ws @ [(g, s)]\<rparr>"
    using assms(4) by (auto simp: forward_sample_def Let_def split: forwarder.splits list.splits if_splits)
  let ?ws = "update_link i (\<lambda>l. l\<lparr>ln_samples := ss\<rparr>) ws"
  have s: "gens_ok ?ws \<and> replay_ok ?ws r" by (rule gens_ok_same [OF assms(1,2) same_gens_link]) simp
  have "unat g \<le> unat (ws_generation ws)" using assms(1,3) l(1) by (auto simp: gens_ok_def)
  then show ?thesis using s l(3) by (auto simp: l(4) gens_ok_def replay_ok_def update_link_def)
qed

lemma forwarder_gone_gens:
  assumes "gens_ok ws" "replay_ok ws r" "i < length (ws_links ws)"
    and "ln_forwarder (ws_links ws ! i) \<noteq> NotStarted" "\<And>g. f \<noteq> Forwarding g"
  shows "gens_ok (update_link i (\<lambda>l. l\<lparr>ln_forwarder := f\<rparr>) ws) \<and> replay_ok (update_link i (\<lambda>l. l\<lparr>ln_forwarder := f\<rparr>) ws) r"
  using assms by (auto simp: gens_ok_def replay_ok_def update_link_def nth_list_update)

lemma check_end_gens:
  assumes "gens_ok ws" "replay_ok ws r" "i < length (ws_links ws)"
    and "forwarder_check i ws = Some ws' \<or> forwarder_end i ws = Some ws'"
  shows "gens_ok ws' \<and> replay_ok ws' r"
proof -
  have started: "ln_forwarder (ws_links ws ! i) \<noteq> NotStarted"
    using assms(4) by (auto simp: forwarder_check_def forwarder_end_def Let_def)
  obtain f a where f: "\<And>g. f \<noteq> Forwarding g" "ws' = (update_link i (\<lambda>l. l\<lparr>ln_forwarder := f\<rparr>) ws)\<lparr>ws_alive := a\<rparr>"
  proof -
    from assms(4) consider b where "ws' = update_link i (\<lambda>l. l\<lparr>ln_forwarder := Checked b\<rparr>) ws"
      | b where "ws' = (update_link i (\<lambda>l. l\<lparr>ln_forwarder := Ended\<rparr>) ws)\<lparr>ws_alive := b\<rparr>"
      by (auto simp: forwarder_check_def forwarder_end_def Let_def split: forwarder.splits if_splits)
    then show thesis
    proof cases
      case (1 b)
      then have "ws' = (update_link i (\<lambda>l. l\<lparr>ln_forwarder := Checked b\<rparr>) ws)\<lparr>ws_alive := ws_alive ws'\<rparr>" by simp
      then show thesis by (rule that [rotated]) simp
    next
      case (2 b)
      then show thesis using that [of Ended] by simp
    qed
  qed
  from forwarder_gone_gens [OF assms(1-3) started f(1)] show ?thesis by (simp add: f(2) gens_ok_def replay_ok_def)
qed

lemma ws_reach_ok: "ws_reach ws r \<Longrightarrow> gens_ok ws \<and> replay_ok ws r"
proof (induction rule: ws_reach.induct)
  case (Start target)
  then show ?case by (simp add: gens_ok_def replay_ok_def workspace_new_def)
next
  case (Replay ws fault answer res ws')
  then show ?case using gens_ok_replay by blast
next
  case (Commit ws i g target)
  then show ?case using gens_ok_commit by (simp add: replay_ok_def)
next
  case (Pump ws r m ms)
  then show ?case by (simp add: gens_ok_def replay_ok_def)
next
  case (Sample ws r i s)
  show ?case by (rule gens_ok_same [OF Sample.IH [THEN conjunct1] Sample.IH [THEN conjunct2]]) (rule same_gens_link, simp)
next
  case (Hangup ws r i)
  show ?case by (rule gens_ok_same [OF Hangup.IH [THEN conjunct1] Hangup.IH [THEN conjunct2]]) (rule same_gens_link, simp)
next
  case (Forward ws r i ws')
  then show ?case using forward_gens by blast
next
  case (Check ws r i ws')
  then show ?case using check_end_gens by blast
next
  case (Stop ws r i ws')
  then show ?case using check_end_gens by blast
qed (elim conjE, erule (1) gens_ok_same, rule same_gens_ops)+


text \<open>
  Whatever threads do, the bridge to the pump holds at most its capacity, no sample on it carries
  a generation that has not been published, and only the current connection forwards with the
  current generation; so a forwarder that finds its connection dead after a reconnect leaves the
  new connection's flag alone.
\<close>

theorem generations_published:
  assumes "ws_reach ws r"
  shows "length (ws_bridge ws) \<le> BRIDGE_CHANNEL_CAP
    \<and> (\<forall>m \<in> set (ws_bridge ws). fst m \<le> ws_generation ws)
    \<and> (unat (ws_generation ws) < 2 ^ 64 - 1 \<longrightarrow>
        (\<forall>i ws1 ws2. i < length (ws_links ws) \<longrightarrow> i \<noteq> ws_client ws \<longrightarrow> forwarder_check i ws = Some ws1 \<longrightarrow>
           forwarder_end i ws1 = Some ws2 \<longrightarrow> ws_alive ws2 = ws_alive ws))"
proof -
  have g: "gens_ok ws" using ws_reach_ok [OF assms] by blast
  have "ws_alive ws2 = ws_alive ws"
    if a: "unat (ws_generation ws) < 2 ^ 64 - 1" "i < length (ws_links ws)" "i \<noteq> ws_client ws" "forwarder_check i ws = Some ws1"
      "forwarder_end i ws1 = Some ws2" for i ws1 ws2
  proof -
    obtain h where h: "ln_forwarder (ws_links ws ! i) = Forwarding h"
      "ws1 = update_link i (\<lambda>l. l\<lparr>ln_forwarder := Checked (ws_generation ws = h)\<rparr>) ws"
      using a(4) by (auto simp: forwarder_check_def Let_def split: forwarder.splits if_splits)
    have "ws_generation ws \<noteq> h" using gens_okD(3) [OF g a(2) _ a(1)] h(1) a(3) by blast
    then show ?thesis using a(2,5) by (auto simp: forwarder_end_def h(2) update_link_def)
  qed
  moreover have "\<forall>m \<in> set (ws_bridge ws). fst m \<le> ws_generation ws"
    using gens_okD(4) [OF g] unfolding word_le_nat_alt by blast
  ultimately show ?thesis using gens_okD(5) [OF g] by blast
qed

text \<open>
  The comment on the generation says a defunct connection's forwarder cannot clear the flag of a
  newer connection; it can. The forwarder reads the generation and clears the flag in two steps:
  if a reconnect succeeds in between, the flag says dead although the new connection lives, and the
  supervisor drops it again.
\<close>

theorem stale_forwarder_clears_flag:
  assumes check: "forwarder_check (ws_client ws) ws = Some ws1" "ln_forwarder (current_link ws) = Forwarding (ws_generation ws)"
    and rec: "reconnect_with_client fault answer target ws1 = (Ok (), ws2)"
    and client: "ws_client ws < length (ws_links ws)"
  shows "\<exists>ws3. forwarder_end (ws_client ws) ws2 = Some ws3 \<and> \<not> ws_alive ws3 \<and> ws_client ws3 \<noteq> ws_client ws
    \<and> ws_generation ws3 = saturating_add (ws_generation ws) 1 \<and> ln_reading (current_link ws3)"
proof -
  let ?c = "ws_client ws"
  have ws1: "ws1 = update_link ?c (\<lambda>l. l\<lparr>ln_forwarder := Checked True\<rparr>) ws"
    using check by (auto simp: forwarder_check_def Let_def current_link_def split: if_splits)
  have c1: "ws_client ws1 = ?c" "ws_generation ws1 = ws_generation ws" "length (ws_links ws1) = length (ws_links ws)"
    "ln_forwarder (ws_links ws1 ! ?c) = Checked True" using client by (simp_all add: ws1 current_update)
  obtain i g w where rp: "reconnect_replay fault answer ws1 = (Ok (i, g), w)" "ws2 = reconnect_commit i g target w"
    using rec by (auto simp: reconnect_with_client_def split: prod.splits result.splits)
  note spec = replay_spec [OF rp(1)]
  have i: "i = length (ws_links ws)" "g = saturating_add (ws_generation ws) 1" using spec c1 by auto
  have w: "ws_client w = ?c" "length (ws_links w) = Suc (length (ws_links ws))" "ln_forwarder (ws_links w ! ?c) = Checked True"
    "ln_reading (ws_links w ! i)" using spec c1 client i by auto
  have "ln_forwarder (ws_links ws2 ! ?c) = Checked True" "ws_client ws2 = i" "ws_generation ws2 = g"
    "ln_reading (ws_links ws2 ! i)" "length (ws_links ws2) = length (ws_links w)"
    using w client i(1) by (auto simp: rp(2) reconnect_commit_def Let_def update_link_def nth_list_update)
  then show ?thesis using i client w
    by (simp add: forwarder_end_def current_link_def update_link_def)
qed

text \<open>
  C37: A subscription made while a reconnect is between replaying and switching is lost: it goes to
  the old connection, the new one was replayed without it, and nothing makes up for it although the
  GUI remembers the sensor as subscribed.
\<close>

theorem subscription_lost_in_reconnect:
  assumes "reconnect_replay fault answer ws = (Ok (i, g), ws1)" and "ws_client ws < length (ws_links ws)"
    and "s \<notin> set (ws_subscriptions ws)"
  shows "let ws3 = reconnect_commit i g target (snd (ws_subscribe [s] None ws1))
    in s \<in> set (ws_subscriptions ws3) \<and> s \<notin> session_subs (ln_sent (current_link ws3))"
proof -
  note spec = replay_spec [OF assms(1)]
  have i: "i = length (ws_links ws)" "session_subs (ln_sent (ws_links ws1 ! i)) = set (ws_subscriptions ws)" using spec by auto
  show ?thesis using spec i assms(2,3)
    by (auto simp: Let_def ws_subscribe_def send_to_None reconnect_commit_def update_link_def current_link_def nth_list_update
        remember_subs_def)
qed

text \<open>
  C0: Reconnecting ends the process list. When the pump sees the first sample of a new connection it
  replaces the remembered subscriptions by all sensors but \<^verbatim>\<open>proc.list\<close>; if the process page is open,
  its stream is unsubscribed, and stays so: a later reconnect does not replay it either.
\<close>

theorem reconnect_ends_process_list:
  assumes "''proc.list'' \<in> set (ws_subscriptions ws)" and "replayed ws"
    and "pm_current_g p < g" "pump_turn J P infos (PumpReceived g first rx) p = (acts, Some p')"
    and "ReplaceSubscriptions subs \<in> set acts"
  shows "let ws' = snd (replace_subscriptions subs None None ws)
    in ''proc.list'' \<in> session_subs (ln_sent (current_link ws))
     \<and> ''proc.list'' \<notin> session_subs (ln_sent (current_link ws')) \<and> ''proc.list'' \<notin> set (ws_subscriptions ws')"
proof -
  have "\<not> g < pm_current_g p" using assms(3) by simp
  then have "subs = auto_subs infos" using assms(3-5)
    by (auto simp: pump_turn_def pump_rebuild_def Let_def split: prod.splits if_splits)
  then have "''proc.list'' \<notin> set (ws_subscriptions (snd (replace_subscriptions subs None None ws)))"
    by (simp add: replace_subscriptions_def Let_def send_to_None auto_subs_def update_link_def)
  then show ?thesis using assms(1,2) replayed_replace [OF assms(2), of subs] by (simp add: replayed_def Let_def)
qed

text \<open>
  C0: After \<open>n\<close> failed reconnects in a row the supervisor waits \<open>2^n\<close> seconds, at most fifteen; while
  the connection lives it sends a keepalive exactly when the last one, or the last reconnect, is
  ten minutes old.
\<close>

fun supervise :: "(bool \<times> nat \<times> nat option) list \<Rightarrow> supervisor \<Rightarrow> supervisor" where
  "supervise [] sv = sv"
| "supervise ((alive, now, reconnected) # evs) sv = supervise evs (snd (supervisor_turn alive now reconnected sv))"

theorem supervisor_schedule:
  "(\<forall>n. fst (supervisor_turn False t None (supervise (replicate n (False, t, None)) supervisor_new)) = RetryAfter (min (2 ^ n * 1000) RECONNECT_BACKOFF_MAX))
   \<and> (\<forall>sv now. fst (supervisor_turn True now None sv) = SendKeepalive \<longleftrightarrow> KEEPALIVE_INTERVAL \<le> now - sv_last_keepalive sv)"
proof -
  have double: "min (2 ^ n * min (b * 2) m) m = min (2 ^ Suc n * b) m" for n b m :: nat
  proof (cases "b * 2 \<le> m")
    case False
    have "1 * (b * 2) \<le> 2 ^ n * (b * 2)" by (rule mult_le_mono1) simp
    moreover have "2 ^ Suc n * b = 2 ^ n * (b * 2)" by simp
    ultimately have "m \<le> 2 ^ Suc n * b" using False by linarith
    moreover have "m \<le> 2 ^ n * min (b * 2) m" using False by simp
    ultimately show ?thesis by (simp only: min_absorb2)
  next
    case True
    have "2 ^ Suc n * b = 2 ^ n * (b * 2)" by simp
    then show ?thesis by (simp only: min_absorb1 [OF True])
  qed
  have "sv_backoff (supervise (replicate n (False, t, None)) sv) = min (2 ^ n * sv_backoff sv) RECONNECT_BACKOFF_MAX"
    if "sv_backoff sv \<le> RECONNECT_BACKOFF_MAX" for n sv
    using that
  proof (induction n arbitrary: sv)
    case (Suc n)
    have "sv_backoff (supervise (replicate (Suc n) (False, t, None)) sv)
        = min (2 ^ n * min (sv_backoff sv * 2) RECONNECT_BACKOFF_MAX) RECONNECT_BACKOFF_MAX"
      using Suc.IH [of "sv\<lparr>sv_backoff := min (sv_backoff sv * 2) RECONNECT_BACKOFF_MAX\<rparr>"] by (simp add: supervisor_turn_def)
    then show ?case by (simp only: double)
  qed simp
  from this [of supervisor_new] show ?thesis
    by (auto simp: supervisor_turn_def supervisor_new_def RECONNECT_BACKOFF_MAX_def)
qed

section \<open>Instances\<close>

definition dying_workspace :: workspace where
  "dying_workspace = update_link 0 (\<lambda>l. l\<lparr>ln_reading := False\<rparr>) (workspace_new ''local'')"

theorem generations_published_witness: "length (ws_bridge dying_workspace) \<le> BRIDGE_CHANNEL_CAP"
  using generations_published [OF ws_reach.Hangup [OF ws_reach.Start [of "''local''"], of 0]]
  by (simp add: dying_workspace_def workspace_new_def)

theorem stale_forwarder_clears_flag_witness:
  "\<exists>ws1 ws2 ws3. forwarder_check 0 dying_workspace = Some ws1 \<and> reconnect_with_client None (Ok 0) ''local'' ws1 = (Ok (), ws2)
     \<and> forwarder_end 0 ws2 = Some ws3 \<and> \<not> ws_alive ws3"
proof -
  have c: "ws_client dying_workspace = 0" by (simp add: dying_workspace_def update_link_def workspace_new_def)
  obtain ws1 where 1: "forwarder_check 0 dying_workspace = Some ws1"
    by (simp add: forwarder_check_def dying_workspace_def update_link_def workspace_new_def link_new_def)
  obtain ws2 where 2: "reconnect_with_client None (Ok 0) ''local'' ws1 = (Ok (), ws2)"
    by (cases "ws_subscriptions ws1 = []"; cases "ws_pump_interval_ms ws1 = PUMP_INTERVAL_DEFAULT_MS")
      (auto simp: reconnect_with_client_def reconnect_replay_def Let_def send_to_def)
  have "ln_forwarder (current_link dying_workspace) = Forwarding (ws_generation dying_workspace)"
    "ws_client dying_workspace < length (ws_links dying_workspace)"
    by (simp_all add: dying_workspace_def update_link_def workspace_new_def current_link_def link_new_def)
  from stale_forwarder_clears_flag [OF _ this(1) 2 this(2)] 1 2 show ?thesis by (auto simp: c)
qed

theorem subscription_lost_in_reconnect_witness:
  "\<exists>ws1. reconnect_replay None (Ok 0) (workspace_new ''local'') = (Ok (1, 2), ws1)
     \<and> ''cpu.util'' \<notin> session_subs (ln_sent (current_link (reconnect_commit 1 2 ''local'' (snd (ws_subscribe [''cpu.util''] None ws1)))))"
proof -
  obtain ws1 where 1: "reconnect_replay None (Ok 0) (workspace_new ''local'') = (Ok (1, 2), ws1)"
    by (simp add: reconnect_replay_def workspace_new_def Let_def saturating_add_def)
  from subscription_lost_in_reconnect [OF this, of "''cpu.util''" "''local''"] 1 show ?thesis
    by (simp add: workspace_new_def Let_def)
qed

theorem reconnect_ends_process_list_witness:
  "\<exists>ws. ''proc.list'' \<in> session_subs (ln_sent (current_link ws))
     \<and> ''proc.list'' \<notin> set (ws_subscriptions (snd (replace_subscriptions [''net.eth0.rx_bytes''] None None ws)))"
proof -
  let ?ws = "snd (ws_subscribe [''proc.list''] None (workspace_new ''local''))"
  obtain acts p' where t: "pump_turn demo_gui_json demo_printers [demo_info] (PumpReceived 2 (demo_sample 5 (Counter 1)) []) demo_pump = (acts, Some p')"
    using pump_turn_goes_on by blast
  have "ReplaceSubscriptions [''net.eth0.rx_bytes''] \<in> set acts"
    using t by (auto simp: pump_turn_def pump_rebuild_def demo_pump_def Let_def auto_subs_def demo_info_def split: prod.splits)
  moreover have "replayed ?ws" "''proc.list'' \<in> set (ws_subscriptions ?ws)"
    by (rule replayed_subscribe)
      (simp_all add: replayed_def workspace_new_def link_new_def current_link_def session_subs_Nil ws_subscribe_def send_to_None
        update_link_def remember_subs_def)
  ultimately show ?thesis using reconnect_ends_process_list [of ?ws demo_pump 2, OF _ _ _ t]
    by (auto simp: demo_pump_def Let_def)
qed

end
