(* ===== verification/Tunnel.thy ===== *)
theory Tunnel
  imports Frame Rust_Num
begin

unbundle bit_operations_syntax

text \<open>
  The mTLS tunnel, \<^verbatim>\<open>apps/linsight-tunnel/src/main.rs\<close>: which client certificates a server accepts, the
  name a client expects of its server, the mode a private key may have, the connection limit, and
  the relay of bytes between the TLS stream and the Unix socket. TLS and X.509 are rustls and
  x509-parser: a certificate is the result of its chain validation, its common name and its DNS
  names. The relay is driven by the list of the events its two streams have.
\<close>

section \<open>Admission\<close>

definition wildcard_match :: "string \<Rightarrow> string \<Rightarrow> bool" where
  "wildcard_match pattern name =
     (case strip_prefix ''*.'' pattern of
        Some suffix \<Rightarrow>
          (case split_once CHR ''.'' name of
             Some (first, rest) \<Rightarrow> first \<noteq> [] \<and> eq_ignore_ascii_case rest suffix
           | None \<Rightarrow> False)
      | None \<Rightarrow> eq_ignore_ascii_case pattern name)"

record client_cert =
  cert_chain :: "(unit, string) result"
  cert_cn :: "string option"
  cert_dns_sans :: "string list"

record allowlist =
  allow_cn :: "string list"
  allow_san :: "string list"

definition verify_client_cert :: "allowlist \<Rightarrow> client_cert \<Rightarrow> (unit, string) result" where
  "verify_client_cert al c =
     (case cert_chain c of
        Err e \<Rightarrow> Err e
      | Ok _ \<Rightarrow>
          if allow_cn al = [] \<and> allow_san al = [] then Ok ()
          else if allow_cn al \<noteq> []
                \<and> (case cert_cn c of Some cn \<Rightarrow> list_ex (\<lambda>p. wildcard_match p cn) (allow_cn al) | None \<Rightarrow> False)
          then Ok ()
          else if allow_san al \<noteq> [] \<and> list_ex (\<lambda>san. list_ex (\<lambda>p. wildcard_match p san) (allow_san al)) (cert_dns_sans c)
          then Ok ()
          else Err ''ApplicationVerificationFailure'')"

text \<open>\<^verbatim>\<open>load_key\<close> checks the mode before it parses the file; the mode is printed in octal.\<close>

fun show_octal :: "nat \<Rightarrow> string" where
  "show_octal n = (if n < 8 then [char_of (48 + n)] else show_octal (n div 8) @ [char_of (48 + n mod 8)])"

declare show_octal.simps [simp del]

definition load_key :: "string \<Rightarrow> (u32, string) result \<Rightarrow> ('k, string) result \<Rightarrow> ('k, string) result" where
  "load_key path mode key =
     (case mode of
        Err e \<Rightarrow> Err (''stat '' @ path @ '': '' @ e)
      | Ok m \<Rightarrow>
          if m AND 63 \<noteq> 0
          then Err (''private key '' @ path @ '' has overly permissive mode ''
                 @ (let o8 = show_octal (unat m) in replicate (4 - length o8) CHR ''0'' @ o8)
                 @ '' (group/other bits set); run: chmod 600 '' @ path)
          else result_map_err (\<lambda>e. ''parsing key from '' @ path @ '': '' @ e) key)"

text \<open>The SNI name: given, or the host part of \<^verbatim>\<open>--server\<close> without brackets.\<close>

definition sni_host :: "string option \<Rightarrow> string \<Rightarrow> (string, string) result" where
  "sni_host server_name server =
     (case server_name of
        Some s \<Rightarrow> Ok s
      | None \<Rightarrow>
          (case rsplit_once CHR '':'' server of
             Some (h, _) \<Rightarrow> Ok (trim_end_matches_char (\<lambda>c. c = CHR '']'') (dropWhile (\<lambda>c. c = CHR ''['') h))
           | None \<Rightarrow> Err ''--server must be host:port''))"

text \<open>
  The server's connections: a permit is taken before the TLS handshake and given back when the
  task ends. The handshake has no time limit; a relay that moves no byte for \<^verbatim>\<open>IDLE_TIMEOUT\<close>
  milliseconds ends. The client mode accepts in the same way.
\<close>

definition IDLE_TIMEOUT :: nat where
  "IDLE_TIMEOUT = 300000"

datatype conn = Handshaking | Relaying nat

datatype accept_event = Accept | AcceptFailed | HandshakeDone nat | HandshakeFailed nat | Transfer nat | Closed nat | Elapsed nat

record tunnel_server =
  ts_permits :: nat
  ts_conns :: "conn option list"

definition conn_is :: "nat \<Rightarrow> (conn \<Rightarrow> bool) \<Rightarrow> tunnel_server \<Rightarrow> bool" where
  "conn_is i P s = (i < length (ts_conns s) \<and> (case ts_conns s ! i of Some c \<Rightarrow> P c | None \<Rightarrow> False))"

definition end_conn :: "nat \<Rightarrow> tunnel_server \<Rightarrow> tunnel_server" where
  "end_conn i s = s\<lparr>ts_permits := ts_permits s + 1, ts_conns := (ts_conns s)[i := None]\<rparr>"

definition age :: "nat \<Rightarrow> conn option \<Rightarrow> conn option" where
  "age ms c =
     (case c of
        Some (Relaying idle) \<Rightarrow> if IDLE_TIMEOUT \<le> idle + ms then None else Some (Relaying (idle + ms))
      | _ \<Rightarrow> c)"

definition expired :: "nat \<Rightarrow> conn option \<Rightarrow> bool" where
  "expired ms c = (c \<noteq> None \<and> age ms c = None)"

definition accept_step :: "accept_event \<Rightarrow> tunnel_server \<Rightarrow> tunnel_server" where
  "accept_step ev s =
     (case ev of
        Accept \<Rightarrow>
          if ts_permits s = 0 then s
          else s\<lparr>ts_permits := ts_permits s - 1, ts_conns := ts_conns s @ [Some Handshaking]\<rparr>
      | AcceptFailed \<Rightarrow> s
      | HandshakeDone i \<Rightarrow>
          if conn_is i (\<lambda>c. c = Handshaking) s then s\<lparr>ts_conns := (ts_conns s)[i := Some (Relaying 0)]\<rparr> else s
      | HandshakeFailed i \<Rightarrow> if conn_is i (\<lambda>c. c = Handshaking) s then end_conn i s else s
      | Transfer i \<Rightarrow>
          if conn_is i (\<lambda>c. c \<noteq> Handshaking) s then s\<lparr>ts_conns := (ts_conns s)[i := Some (Relaying 0)]\<rparr> else s
      | Closed i \<Rightarrow> if conn_is i (\<lambda>c. c \<noteq> Handshaking) s then end_conn i s else s
      | Elapsed ms \<Rightarrow>
          s\<lparr>ts_permits := ts_permits s + length (filter (expired ms) (ts_conns s)), ts_conns := map (age ms) (ts_conns s)\<rparr>)"

definition server_start :: "nat \<Rightarrow> tunnel_server" where
  "server_start max_connections = \<lparr>ts_permits = max_connections, ts_conns = []\<rparr>"

section \<open>The relay\<close>

text \<open>An I/O error: whether its kind is \<^verbatim>\<open>TimedOut\<close>, and its message.\<close>

datatype relay_error = RelayError (timed_out: bool) (relay_message: string)

text \<open>
  A read ends with the time-out, the end of the stream, data, or an error. \<open>written\<close> says how
  writing that data to the other side ended: all of it, or a prefix and an error.
\<close>

datatype relay_read = ReadIdle | ReadEof | ReadBytes bytes "(nat \<times> relay_error) option" | ReadError relay_error

datatype side = SideA | SideB

record relay =
  rl_a_done :: bool
  rl_b_done :: bool
  rl_to_b :: bytes
  rl_to_a :: bytes
  rl_a_to_b :: u64
  rl_b_to_a :: u64

definition relay_new :: relay where
  "relay_new = \<lparr>rl_a_done = False, rl_b_done = False, rl_to_b = [], rl_to_a = [], rl_a_to_b = 0, rl_b_to_a = 0\<rparr>"

definition written_part :: "bytes \<Rightarrow> (nat \<times> relay_error) option \<Rightarrow> bytes" where
  "written_part data w = (case w of None \<Rightarrow> data | Some (k, _) \<Rightarrow> take k data)"

text \<open>One turn of the loop; a side that is done is not polled.\<close>

definition relay_step :: "side \<Rightarrow> relay_read \<Rightarrow> relay \<Rightarrow> (unit, relay_error) result \<times> relay" where
  "relay_step sd r st =
     (case r of
        ReadIdle \<Rightarrow> (Err (RelayError True ''idle timeout''), st)
      | ReadError e \<Rightarrow> (Err e, st)
      | ReadEof \<Rightarrow> (Ok (), case sd of SideA \<Rightarrow> st\<lparr>rl_a_done := True\<rparr> | SideB \<Rightarrow> st\<lparr>rl_b_done := True\<rparr>)
      | ReadBytes data w \<Rightarrow>
          (let st1 = (case sd of SideA \<Rightarrow> st\<lparr>rl_to_b := rl_to_b st @ written_part data w\<rparr>
                               | SideB \<Rightarrow> st\<lparr>rl_to_a := rl_to_a st @ written_part data w\<rparr>)
           in case w of
                Some (_, e) \<Rightarrow> (Err e, st1)
              | None \<Rightarrow>
                  (Ok (), case sd of
                            SideA \<Rightarrow> st1\<lparr>rl_a_to_b := rl_a_to_b st1 + of_nat (length data)\<rparr>
                          | SideB \<Rightarrow> st1\<lparr>rl_b_to_a := rl_b_to_a st1 + of_nat (length data)\<rparr>)))"

definition side_done :: "side \<Rightarrow> relay \<Rightarrow> bool" where
  "side_done sd st = (case sd of SideA \<Rightarrow> rl_a_done st | SideB \<Rightarrow> rl_b_done st)"

text \<open>\<open>None\<close>: the events so far leave the relay running (or one of them cannot happen).\<close>

fun copy_bidirectional_idle ::
  "(side \<times> relay_read) list \<Rightarrow> relay \<Rightarrow> (u64 \<times> u64, relay_error) result option \<times> relay" where
  "copy_bidirectional_idle evs st =
     (if rl_a_done st \<and> rl_b_done st then (Some (Ok (rl_a_to_b st, rl_b_to_a st)), st)
      else case evs of
             [] \<Rightarrow> (None, st)
           | (sd, r) # rest \<Rightarrow>
               (if side_done sd st then (None, st)
                else case relay_step sd r st of
                       (Err e, st') \<Rightarrow> (Some (Err e), st')
                     | (Ok _, st') \<Rightarrow> copy_bidirectional_idle rest st'))"

declare copy_bidirectional_idle.simps [simp del]

text \<open>How a connection's task ends: any time-out closes the tunnel without an error.\<close>

definition tunnel_result :: "(u64 \<times> u64, relay_error) result \<Rightarrow> (unit, relay_error) result" where
  "tunnel_result r = (case r of Ok _ \<Rightarrow> Ok () | Err e \<Rightarrow> if timed_out e then Ok () else Err e)"

section \<open>Matching names by label\<close>

text \<open>The reference: names label by label, a leading star standing for any one label.\<close>

fun labels_match :: "string list \<Rightarrow> string list \<Rightarrow> bool" where
  "labels_match (p # q # ps) (l # m # ls) =
     ((if p = ''*'' then l \<noteq> [] else eq_ignore_ascii_case p l) \<and> list_all2 eq_ignore_ascii_case (q # ps) (m # ls))"
| "labels_match ps ls = (list_all2 eq_ignore_ascii_case ps ls \<and> \<not> (\<exists>q qs. ps = ''*'' # q # qs))"

lemma lower_dot: "to_ascii_lowercase c = CHR ''.'' \<longleftrightarrow> c = CHR ''.''"
proof -
  have "of_char (to_ascii_lowercase c) = (46 :: nat) \<longleftrightarrow> of_char c = (46 :: nat)"
    by (auto simp: to_ascii_lowercase_def of_char_of)
  moreover have "of_char CHR ''.'' = (46 :: nat)" by simp
  ultimately show ?thesis by (metis char_of_char)
qed

lemma split_char_lower: "split_char CHR ''.'' (map to_ascii_lowercase s) = map (map to_ascii_lowercase) (split_char CHR ''.'' s)"
  by (induction s) (auto simp: lower_dot split: list.splits)

lemma split_char_join: "tl (concat (map (\<lambda>w. d # w) (split_char d s))) = s"
proof (induction s)
  case (Cons c s)
  obtain w ws where w: "split_char d s = w # ws" by (cases "split_char d s") auto
  then show ?case using Cons by auto
qed simp

lemma split_char_inj: "split_char d a = split_char d b \<longleftrightarrow> a = b"
  using split_char_join [of d a] split_char_join [of d b] by metis

lemma eq_ci_labels: "eq_ignore_ascii_case a b \<longleftrightarrow> list_all2 eq_ignore_ascii_case (split_char CHR ''.'' a) (split_char CHR ''.'' b)"
proof -
  have "eq_ignore_ascii_case a b \<longleftrightarrow>
      map (map to_ascii_lowercase) (split_char CHR ''.'' a) = map (map to_ascii_lowercase) (split_char CHR ''.'' b)"
    unfolding eq_ignore_ascii_case_def split_char_lower [symmetric] split_char_inj ..
  also have "\<dots> \<longleftrightarrow> list_all2 eq_ignore_ascii_case (split_char CHR ''.'' a) (split_char CHR ''.'' b)"
    by (auto simp: list_all2_conv_all_nth list_eq_iff_nth_eq eq_ignore_ascii_case_def)
  finally show ?thesis .
qed

lemma split_char_head:
  "split_char d s = (case split_once d s of None \<Rightarrow> [s] | Some (a, b) \<Rightarrow> a # split_char d b)"
proof (cases "split_once d s")
  case None
  then show ?thesis using split_char_absent [OF iffD1 [OF split_once_None None]] by simp
next
  case (Some ab)
  obtain a b where ab: "ab = (a, b)" by fastforce
  then have "s = a @ d # b" "d \<notin> set a" using Some by (auto simp: split_once_Some)
  then show ?thesis using Some ab by (simp add: split_char_append)
qed

lemma star_prefix: "strip_prefix ''*.'' p = Some suffix \<longleftrightarrow> split_once CHR ''.'' p = Some (''*'', suffix)"
  by (auto simp: strip_prefix_Some split_once_Some)

text \<open>
  C35: \<^verbatim>\<open>wildcard_match\<close> compares names label by label, ignoring the case of ASCII letters, where a first
  label that is exactly a star, in a pattern of at least two labels, stands for any one label that
  is not empty. In particular a star never matches across a dot.
\<close>

theorem wildcard_match_labels:
  "wildcard_match pattern name \<longleftrightarrow> labels_match (split_char CHR ''.'' pattern) (split_char CHR ''.'' name)"
proof (cases "strip_prefix ''*.'' pattern")
  case (Some suffix)
  then have p: "split_char CHR ''.'' pattern = ''*'' # split_char CHR ''.'' suffix"
    using split_char_head [of "CHR ''.''" pattern] by (simp add: star_prefix)
  obtain q qs where q: "split_char CHR ''.'' suffix = q # qs" by (cases "split_char CHR ''.'' suffix") auto
  show ?thesis
  proof (cases "split_once CHR ''.'' name")
    case None
    then show ?thesis using split_char_head [of "CHR ''.''" name] by (simp add: wildcard_match_def Some p q)
  next
    case (Some lr)
    obtain l r where lr: "lr = (l, r)" by fastforce
    obtain m ms where m: "split_char CHR ''.'' r = m # ms" by (cases "split_char CHR ''.'' r") auto
    have n: "split_char CHR ''.'' name = l # m # ms" using split_char_head [of "CHR ''.''" name] by (simp add: Some lr m)
    have sym: "eq_ignore_ascii_case r suffix \<longleftrightarrow> eq_ignore_ascii_case suffix r" by (auto simp: eq_ignore_ascii_case_def)
    show ?thesis using \<open>strip_prefix ''*.'' pattern = Some suffix\<close>
      by (simp add: wildcard_match_def Some lr sym eq_ci_labels [of suffix r] p q n m)
  qed
next
  case None
  have not_star: "\<not> (\<exists>q qs. split_char CHR ''.'' pattern = ''*'' # q # qs)"
  proof
    assume "\<exists>q qs. split_char CHR ''.'' pattern = ''*'' # q # qs"
    then obtain b where "split_once CHR ''.'' pattern = Some (''*'', b)"
      using split_char_head [of "CHR ''.''" pattern] by (auto split: option.splits)
    then show False using None star_prefix [of pattern b] by simp
  qed
  have "labels_match ps ls \<longleftrightarrow> list_all2 eq_ignore_ascii_case ps ls" if "\<not> (\<exists>q qs. ps = ''*'' # q # qs)" for ps ls
    using that by (induction ps ls rule: labels_match.induct) auto
  from this [OF not_star] show ?thesis by (simp add: wildcard_match_def None eq_ci_labels [of pattern name])
qed


text \<open>
  A server accepts a client certificate exactly when its chain validates and, if there is an
  allow list, its common name or one of its DNS names matches an entry of the list for that field.
\<close>

theorem client_cert_accepted:
  "verify_client_cert al c = Ok () \<longleftrightarrow>
     cert_chain c = Ok ()
     \<and> (allow_cn al = [] \<and> allow_san al = []
        \<or> (\<exists>cn p. cert_cn c = Some cn \<and> p \<in> set (allow_cn al) \<and> wildcard_match p cn)
        \<or> (\<exists>san p. san \<in> set (cert_dns_sans c) \<and> p \<in> set (allow_san al) \<and> wildcard_match p san))"
  by (cases "cert_chain c"; cases "cert_cn c") (auto simp: verify_client_cert_def list_ex_iff)

text \<open>
  C0: The documentation of \<^verbatim>\<open>--allow-cn\<close> promises an exact match of the common name; an entry may be a
  wildcard and case is ignored.
\<close>

theorem allow_cn_not_exact:
  "verify_client_cert \<lparr>allow_cn = [''*.example.com''], allow_san = []\<rparr>
     \<lparr>cert_chain = Ok (), cert_cn = Some ''Mallory.EXAMPLE.com'', cert_dns_sans = []\<rparr> = Ok ()"
  by code_simp

text \<open>
  A key file is used only when its mode gives no permission to group or others.
\<close>

theorem load_key_private:
  "load_key path mode key = Ok k \<longleftrightarrow> (\<exists>m. mode = Ok m \<and> (\<forall>i < 6. \<not> bit m i)) \<and> key = Ok k"
proof -
  have "m AND 63 = 0 \<longleftrightarrow> (\<forall>i < 6. \<not> bit m i)" for m :: u32
  proof -
    have k: "(63 :: u32) = mask 6" by (simp add: mask_eq_exp_minus_1)
    have b: "bit (m AND 63) i \<longleftrightarrow> bit m i \<and> i < 6" for i unfolding k by (auto simp: bit_and_iff bit_mask_iff)
    have "m AND 63 = 0 \<longleftrightarrow> (\<forall>i. \<not> bit (m AND 63) i)"
      by (metis bit_0_eq bot_apply bot_bool_def bit_word_eqI)
    then show ?thesis using b by blast
  qed
  then show ?thesis by (cases mode; cases key) (auto simp: load_key_def)
qed

lemma sni_host_round_trip:
  assumes "CHR '':'' \<notin> set port" and "h \<noteq> [] \<Longrightarrow> hd h \<noteq> CHR ''['' \<and> last h \<noteq> CHR '']''"
  shows "sni_host None (h @ '':'' @ port) = Ok h" "sni_host None (''['' @ h @ '']:'' @ port) = Ok h"
proof -
  have s: "rsplit_once CHR '':'' (h @ '':'' @ port) = Some (h, port)" "rsplit_once CHR '':'' (''['' @ h @ '']:'' @ port) = Some (''['' @ h @ '']'', port)"
    using assms(1) by (simp_all add: rsplit_once_Some)
  have d: "dropWhile (\<lambda>c. c = CHR ''['') h = h" using assms(2) by (cases h) auto
  have t: "trim_end_matches_char (\<lambda>c. c = CHR '']'') h = h"
    using assms(2) by (cases h rule: rev_cases) (auto simp: trim_end_matches_char_def)
  show "sni_host None (h @ '':'' @ port) = Ok h" by (simp add: sni_host_def s [simplified] d t)
  have "dropWhile (\<lambda>c. c = CHR ''['') (h @ '']'') = h @ '']''" using assms(2) by (cases h) auto
  moreover have "trim_end_matches_char (\<lambda>c. c = CHR '']'') (h @ '']'') = h" using t by (simp add: trim_end_matches_char_def)
  ultimately show "sni_host None (''['' @ h @ '']:'' @ port) = Ok h" by (simp add: sni_host_def s [simplified])
qed

section \<open>Connections\<close>

definition live_conns :: "tunnel_server \<Rightarrow> nat" where
  "live_conns s = length (filter (\<lambda>c. c \<noteq> None) (ts_conns s))"

lemma live_update:
  "i < length cs \<Longrightarrow> length (filter P (cs[i := c])) + (if P (cs ! i) then 1 else 0) = length (filter P cs) + (if P c then 1 else 0)"
proof (induction cs arbitrary: i)
  case (Cons x cs)
  then show ?case by (cases i) auto
qed simp

lemma live_age: "length (filter (expired ms) cs) + length (filter (\<lambda>c. c \<noteq> None) (map (age ms) cs)) = length (filter (\<lambda>c. c \<noteq> None) cs)"
  by (induction cs) (auto simp: expired_def age_def split: option.splits conn.splits)

lemma accept_step_balance: "ts_permits (accept_step ev s) + live_conns (accept_step ev s) = ts_permits s + live_conns s"
proof (cases ev)
  case (HandshakeDone i)
  then show ?thesis using live_update [of i "ts_conns s" "\<lambda>c. c \<noteq> None" "Some (Relaying 0)"]
    by (auto simp: accept_step_def live_conns_def conn_is_def split: option.splits)
next
  case (HandshakeFailed i)
  then show ?thesis using live_update [of i "ts_conns s" "\<lambda>c. c \<noteq> None" None]
    by (auto simp: accept_step_def live_conns_def conn_is_def end_conn_def split: option.splits)
next
  case (Transfer i)
  then show ?thesis using live_update [of i "ts_conns s" "\<lambda>c. c \<noteq> None" "Some (Relaying 0)"]
    by (auto simp: accept_step_def live_conns_def conn_is_def split: option.splits)
next
  case (Closed i)
  then show ?thesis using live_update [of i "ts_conns s" "\<lambda>c. c \<noteq> None" None]
    by (auto simp: accept_step_def live_conns_def conn_is_def end_conn_def split: option.splits)
next
  case (Elapsed ms)
  then show ?thesis using live_age [of ms "ts_conns s"] by (simp add: accept_step_def live_conns_def)
qed (auto simp: accept_step_def live_conns_def)

text \<open>
  C36: The tunnel never has more connections than \<^verbatim>\<open>--max-connections\<close>, and every permit not in use can
  be taken again; but connections that never finish their TLS handshake keep theirs: once they
  hold them all, no time and no further attempt makes room for anybody else.
\<close>

theorem handshake_slots_held:
  "live_conns (fold accept_step evs (server_start n)) + ts_permits (fold accept_step evs (server_start n)) = n
   \<and> (ts_permits s = 0 \<and> (\<forall>c \<in> set (ts_conns s). c = None \<or> c = Some Handshaking) \<longrightarrow>
        (\<forall>i \<in> set waits. \<forall>j. i \<noteq> HandshakeDone j \<and> i \<noteq> HandshakeFailed j) \<longrightarrow> fold accept_step waits s = s)"
proof
  have "ts_permits (fold accept_step evs s) + live_conns (fold accept_step evs s) = ts_permits s + live_conns s" for s
    by (induction evs arbitrary: s) (simp_all add: accept_step_balance)
  from this [of "server_start n"]
  show "live_conns (fold accept_step evs (server_start n)) + ts_permits (fold accept_step evs (server_start n)) = n"
    by (simp add: server_start_def live_conns_def)
  have "accept_step ev s = s"
    if held: "ts_permits s = 0" "\<forall>c \<in> set (ts_conns s). c = None \<or> c = Some Handshaking"
      and ev: "\<forall>j. ev \<noteq> HandshakeDone j \<and> ev \<noteq> HandshakeFailed j" for ev
  proof -
    have no: "\<not> conn_is i (\<lambda>c. c \<noteq> Handshaking) s" for i using held(2) by (auto simp: conn_is_def split: option.splits) (metis nth_mem option.distinct(1) option.inject)
    have "map (age ms) (ts_conns s) = ts_conns s" for ms by (rule map_idI) (use held(2) in \<open>auto simp: age_def\<close>)
    moreover have "filter (expired ms) (ts_conns s) = []" for ms using held(2) by (auto simp: filter_empty_conv expired_def age_def)
    ultimately show ?thesis using held(1) ev no by (cases ev) (auto simp: accept_step_def)
  qed
  then show "ts_permits s = 0 \<and> (\<forall>c \<in> set (ts_conns s). c = None \<or> c = Some Handshaking) \<longrightarrow>
        (\<forall>i \<in> set waits. \<forall>j. i \<noteq> HandshakeDone j \<and> i \<noteq> HandshakeFailed j) \<longrightarrow> fold accept_step waits s = s"
    by (induction waits) auto
qed

theorem handshake_slots_held_witness:
  "ts_permits (fold accept_step [Accept, Accept, Accept] (server_start 2)) = 0
   \<and> fold accept_step [Elapsed 86400000, Accept, Closed 0, Elapsed 86400000] (fold accept_step [Accept, Accept, Accept] (server_start 2))
     = fold accept_step [Accept, Accept, Accept] (server_start 2)"
proof -
  let ?s = "fold accept_step [Accept, Accept, Accept] (server_start 2)"
  have s: "?s = \<lparr>ts_permits = 0, ts_conns = [Some Handshaking, Some Handshaking]\<rparr>" by code_simp
  have "fold accept_step [Elapsed 86400000, Accept, Closed 0, Elapsed 86400000] ?s = ?s"
    unfolding s by (rule handshake_slots_held [where n = 2 and evs = "[]", THEN conjunct2, THEN mp, THEN mp]) auto
  then show ?thesis using s by simp
qed

section \<open>The relay is transparent\<close>

text \<open>The data read from one side, in order.\<close>

definition read_from :: "side \<Rightarrow> (side \<times> relay_read) list \<Rightarrow> bytes" where
  "read_from sd evs = concat (map (\<lambda>(s, r). if s = sd then (case r of ReadBytes data _ \<Rightarrow> data | _ \<Rightarrow> []) else []) evs)"

definition sent_to :: "side \<Rightarrow> relay \<Rightarrow> bytes" where
  "sent_to sd st = (case sd of SideA \<Rightarrow> rl_to_a st | SideB \<Rightarrow> rl_to_b st)"

definition other_side :: "side \<Rightarrow> side" where
  "other_side sd = (case sd of SideA \<Rightarrow> SideB | SideB \<Rightarrow> SideA)"

lemma read_from_Cons: "read_from sd ((s, e) # rest) = (if s = sd then case e of ReadBytes d _ \<Rightarrow> d | _ \<Rightarrow> [] else []) @ read_from sd rest"
  by (simp add: read_from_def)

lemma relay_step_sent:
  "relay_step s e st = (u, st1) \<Longrightarrow> sent_to (other_side sd) st1 = sent_to (other_side sd) st
     @ (if s = sd then case e of ReadBytes d w \<Rightarrow> written_part d w | _ \<Rightarrow> [] else [])"
  by (cases s; cases sd; cases e) (auto simp: relay_step_def sent_to_def other_side_def Let_def split: option.splits)

definition moved :: "side \<Rightarrow> relay \<Rightarrow> u64" where
  "moved sd st = (case sd of SideA \<Rightarrow> rl_a_to_b st | SideB \<Rightarrow> rl_b_to_a st)"

lemma relay_step_Ok:
  assumes "relay_step s e st = (Ok x, st1)"
  shows "sent_to (other_side sd) st1 = sent_to (other_side sd) st @ read_from sd [(s, e)]"
    and "moved sd st1 = moved sd st + of_nat (length (read_from sd [(s, e)]))"
  using assms
  by (cases s; cases sd; cases e;
      auto simp: relay_step_def sent_to_def other_side_def moved_def read_from_def written_part_def Let_def split: option.splits)+

lemma written_part_prefix: "\<exists>q. d = written_part d w @ q"
proof (cases w)
  case (Some ke)
  then show ?thesis by (cases ke) (auto simp: written_part_def intro!: exI [of _ "drop (fst ke) d"])
qed (simp add: written_part_def)

lemma relay_cases:
  assumes "copy_bidirectional_idle evs st = (r, st')"
  obtains (stop) "st' = st" "r = None \<or> r = Some (Ok (moved SideA st, moved SideB st))"
  | (err) s e rest err where "evs = (s, e) # rest" "relay_step s e st = (Err err, st')" "r = Some (Err err)"
  | (step) s e rest x st1 where "evs = (s, e) # rest" "relay_step s e st = (Ok x, st1)"
      "copy_bidirectional_idle rest st1 = (r, st')"
proof (cases "rl_a_done st \<and> rl_b_done st \<or> evs = [] \<or> side_done (fst (hd evs)) st")
  case True
  then show ?thesis using assms stop
    by (auto simp: copy_bidirectional_idle.simps [of evs st] moved_def split: list.splits if_splits)
next
  case False
  then obtain s e rest where ev: "evs = (s, e) # rest" "\<not> side_done s st" by (cases evs) auto
  obtain u st1 where u: "relay_step s e st = (u, st1)" by fastforce
  have c: "copy_bidirectional_idle evs st = (case u of Err e \<Rightarrow> (Some (Err e), st1) | Ok _ \<Rightarrow> copy_bidirectional_idle rest st1)"
    using False ev(2) copy_bidirectional_idle.simps [of "(s, e) # rest" st] by (auto simp: ev(1) u split: result.splits)
  show ?thesis
  proof (cases u)
    case (Ok x)
    show ?thesis by (rule step [of s e rest x st1]) (use assms c ev u Ok in auto)
  next
    case (Err e')
    show ?thesis by (rule err [of s e rest e']) (use assms c ev u Err in auto)
  qed
qed

lemma relay_prefix:
  "copy_bidirectional_idle evs st = (r, st') \<Longrightarrow>
     \<exists>p q. sent_to (other_side sd) st' = sent_to (other_side sd) st @ p \<and> read_from sd evs = p @ q"
proof (induction evs arbitrary: st)
  case Nil
  then show ?case by (cases rule: relay_cases) auto
next
  case (Cons ev evs)
  from Cons.prems show ?case
  proof (cases rule: relay_cases)
    case (err s e rest err)
    then show ?thesis
      using relay_step_sent [OF err(2), of sd] written_part_prefix
      by (cases e; cases "s = sd") (auto simp: read_from_Cons, metis append.assoc)
  next
    case (step s e rest x st1)
    then obtain p q where "sent_to (other_side sd) st' = sent_to (other_side sd) st1 @ p" "read_from sd evs = p @ q"
      using Cons.IH by (metis list.inject)
    moreover have "sent_to (other_side sd) st1 = sent_to (other_side sd) st @ read_from sd [(s, e)]"
      by (rule relay_step_Ok [OF step(2)])
    moreover have "read_from sd (ev # evs) = read_from sd [(s, e)] @ read_from sd evs" using step(1) by (simp add: read_from_def)
    ultimately show ?thesis by auto
  qed auto
qed

lemma relay_complete:
  "copy_bidirectional_idle evs st = (Some (Ok (m, n)), st') \<Longrightarrow>
     \<exists>used rest. evs = used @ rest
       \<and> (\<forall>sd. sent_to (other_side sd) st' = sent_to (other_side sd) st @ read_from sd used
              \<and> moved sd st' = moved sd st + of_nat (length (read_from sd used)))
       \<and> m = moved SideA st' \<and> n = moved SideB st'"
proof (induction evs arbitrary: st)
  case Nil
  then show ?case by (cases rule: relay_cases) (auto simp: read_from_def)
next
  case (Cons ev evs)
  from Cons.prems show ?case
  proof (cases rule: relay_cases)
    case stop
    then show ?thesis by (intro exI [of _ "[]"] exI [of _ "ev # evs"]) (auto simp: read_from_def)
  next
    case (step s e rest x st1)
    then obtain used rest' where u: "evs = used @ rest'" "m = moved SideA st'" "n = moved SideB st'"
        "\<And>sd. sent_to (other_side sd) st' = sent_to (other_side sd) st1 @ read_from sd used"
        "\<And>sd. moved sd st' = moved sd st1 + of_nat (length (read_from sd used))"
      using Cons.IH by (metis list.inject)
    have "read_from sd (ev # used) = read_from sd [(s, e)] @ read_from sd used" for sd
      using step(1) by (simp add: read_from_def)
    then show ?thesis using u step(1) relay_step_Ok [OF step(2)]
      by (intro exI [of _ "ev # used"] exI [of _ rest']) simp
  qed simp
qed

text \<open>
  Whatever the order and the sizes of the reads, the relay sends to each side a prefix of what it
  read from the other, and when it ends without an error it has sent everything it read, and its two
  totals are the lengths modulo 2^64.
\<close>

theorem relay_transparent:
  assumes "copy_bidirectional_idle evs relay_new = (r, st)"
  shows "(\<exists>q. read_from SideA evs = rl_to_b st @ q) \<and> (\<exists>q. read_from SideB evs = rl_to_a st @ q)
     \<and> (\<forall>m n. r = Some (Ok (m, n)) \<longrightarrow>
          (\<exists>used rest. evs = used @ rest \<and> rl_to_b st = read_from SideA used \<and> rl_to_a st = read_from SideB used
             \<and> m = of_nat (length (rl_to_b st)) \<and> n = of_nat (length (rl_to_a st))))"
proof (intro conjI allI impI)
  note new = sent_to_def other_side_def moved_def relay_new_def
  show "\<exists>q. read_from SideA evs = rl_to_b st @ q" "\<exists>q. read_from SideB evs = rl_to_a st @ q"
    using relay_prefix [OF assms, of SideA] relay_prefix [OF assms, of SideB] by (auto simp: new)
  fix m n assume "r = Some (Ok (m, n))"
  from relay_complete [OF assms [unfolded this]] obtain used rest where u: "evs = used @ rest"
      "m = moved SideA st" "n = moved SideB st"
      "\<And>sd. sent_to (other_side sd) st = sent_to (other_side sd) relay_new @ read_from sd used"
      "\<And>sd. moved sd st = moved sd relay_new + of_nat (length (read_from sd used))" by blast
  then show "\<exists>used rest. evs = used @ rest \<and> rl_to_b st = read_from SideA used \<and> rl_to_a st = read_from SideB used
           \<and> m = of_nat (length (rl_to_b st)) \<and> n = of_nat (length (rl_to_a st))"
    using u(4) [of SideA] u(4) [of SideB] u(5) [of SideA] u(5) [of SideB]
    by (intro exI [of _ used] exI [of _ rest]) (simp add: new)
qed

theorem relay_transparent_witness:
  "\<exists>used rest. [(SideA, ReadBytes [1, 2] None), (SideB, ReadBytes [9] None), (SideA, ReadBytes [3] None), (SideB, ReadEof), (SideA, ReadEof)] = used @ rest
     \<and> [1, 2, 3] = read_from SideA used \<and> [9] = read_from SideB used"
proof -
  have "copy_bidirectional_idle
      [(SideA, ReadBytes [1, 2] None), (SideB, ReadBytes [9] None), (SideA, ReadBytes [3] None), (SideB, ReadEof), (SideA, ReadEof)] relay_new
      = (Some (Ok (3, 1)), \<lparr>rl_a_done = True, rl_b_done = True, rl_to_b = [1, 2, 3], rl_to_a = [9], rl_a_to_b = 3, rl_b_to_a = 1\<rparr>)"
    by code_simp
  from relay_transparent [OF this] show ?thesis by simp
qed

lemma concat_prefix:
  "p @ t = concat (map f bs) \<Longrightarrow>
     \<exists>k q. k \<le> length bs \<and> p = concat (map f (take k bs)) @ q \<and> (if k < length bs then \<exists>u. u \<noteq> [] \<and> f (bs ! k) = q @ u else q = [])"
proof (induction bs arbitrary: p)
  case (Cons b bs)
  from Cons.prems have "p @ t = f b @ concat (map f bs)" by simp
  then consider (inside) u where "u \<noteq> []" "f b = p @ u" | (past) p' where "p = f b @ p'" "p' @ t = concat (map f bs)"
  proof -
    assume eq: "p @ t = f b @ concat (map f bs)"
    show ?thesis
    proof (cases "length p < length (f b)")
      case True
      then have "f b = p @ drop (length p) (f b)" "drop (length p) (f b) \<noteq> []"
        using arg_cong [OF eq, of "take (length p)"] by (auto simp: append_eq_conv_conj [symmetric]) (metis append_take_drop_id)
      then show ?thesis using inside by blast
    next
      case False
      then have "p = f b @ drop (length (f b)) p" "drop (length (f b)) p @ t = concat (map f bs)"
        using eq by (auto simp: append_eq_append_conv_if split: if_splits) (metis append_take_drop_id)
      then show ?thesis using past by blast
    qed
  qed
  then show ?case
  proof cases
    case inside
    then show ?thesis by (intro exI [of _ 0] exI [of _ p]) auto
  next
    case past
    from Cons.IH [OF past(2)] obtain k q where k: "k \<le> length bs" "p' = concat (map f (take k bs)) @ q"
        "if k < length bs then \<exists>u. u \<noteq> [] \<and> f (bs ! k) = q @ u else q = []" by blast
    then show ?thesis using past(1) by (intro exI [of _ "Suc k"] exI [of _ q]) (auto split: if_splits)
  qed
qed simp



end
