(* ===== verification/Sensor_Lib.thy ===== *)
theory Sensor_Lib
  imports Mirror Rust_Num
begin

text \<open>
  What the built-in sensor plugins of \<^verbatim>\<open>crates/linsight-sensors\<close> share. The kernel's files are a
  parameter, a function from paths to what a call finds there at one moment; an \<open>env\<close> is that and
  the clock. A plugin is an \<open>init\<close> and a \<open>sample\<close> on its own state, wrapped in the same way in every
  crate; the locale \<open>sensor_plugin\<close> says what the host gets of it.
\<close>

section \<open>Files\<close>

text \<open>
  What a path holds: an error, a text, or bytes that are not UTF-8 (with the text of that error).
  A directory lists the names of its readable entries, in any order; \<open>DirMissing\<close> is a path that is
  not a directory.
\<close>

datatype sysfile = FileError string | FileText string | FileBinary string

datatype dir = DirMissing | DirError string | DirNames "string list"

record env =
  env_file :: "string \<Rightarrow> sysfile"
  env_dir :: "string \<Rightarrow> dir"
  env_exists :: "string \<Rightarrow> bool"
  env_link :: "string \<Rightarrow> string option"
  env_now :: nat

text \<open>\<^verbatim>\<open>sysroot.join(rel)\<close>, or the absolute path without a sysroot.\<close>

definition sys_path :: "string option \<Rightarrow> string \<Rightarrow> string" where
  "sys_path sysroot rel = (case sysroot of Some r \<Rightarrow> path_join r rel | None \<Rightarrow> ''/'' @ rel)"

text \<open>\<^verbatim>\<open>fs::read_to_string\<close>, with the text of the error.\<close>

definition read_to_string :: "env \<Rightarrow> string \<Rightarrow> (string, string) result" where
  "read_to_string E p =
     (case env_file E p of
        FileError e \<Rightarrow> Err e
      | FileBinary _ \<Rightarrow> Err ''stream did not contain valid UTF-8''
      | FileText s \<Rightarrow> Ok s)"

text \<open>The entries of \<^verbatim>\<open>read_dir(p).ok()\<close>, flattened; a directory holds a name once.\<close>

definition read_dir :: "env \<Rightarrow> string \<Rightarrow> string list option" where
  "read_dir E p = (case env_dir E p of DirNames ns \<Rightarrow> Some (remdups ns) | _ \<Rightarrow> None)"

text \<open>\<^verbatim>\<open>Path::is_dir\<close>.\<close>

definition is_dir :: "env \<Rightarrow> string \<Rightarrow> bool" where
  "is_dir E p = (env_dir E p \<noteq> DirMissing)"

text \<open>
  The small reads stop after \<open>n\<close> bytes; a character cut by the limit makes the text invalid.
\<close>

fun utf8_prefix :: "nat \<Rightarrow> string \<Rightarrow> string option" where
  "utf8_prefix n [] = Some []"
| "utf8_prefix n (c # s) =
     (if n = 0 then Some []
      else let w = (if char_code c < 128 then 1 else 2)
           in if n < w then None else map_option (Cons c) (utf8_prefix (n - w) s))"

definition read_small_file :: "nat \<Rightarrow> env \<Rightarrow> string \<Rightarrow> (string, PluginError) result" where
  "read_small_file n E p =
     (case env_file E p of
        FileError e \<Rightarrow> Err (PluginIo (p @ '': '' @ e))
      | FileBinary e \<Rightarrow> Err (PluginParse (p @ '': '' @ e))
      | FileText s \<Rightarrow>
          (case utf8_prefix n s of
             Some t \<Rightarrow> Ok t
           | None \<Rightarrow> Err (PluginParse (p @ '': incomplete utf-8 byte sequence''))))"

text \<open>\<^verbatim>\<open>read_int::<T>\<close> with the parser of \<^verbatim>\<open>T\<close>.\<close>

definition read_int :: "(string \<Rightarrow> 'a option) \<Rightarrow> nat \<Rightarrow> env \<Rightarrow> string \<Rightarrow> ('a, PluginError) result" where
  "read_int parse n E p =
     (case read_small_file n E p of
        Err e \<Rightarrow> Err e
      | Ok s \<Rightarrow>
          (case parse (trim s) of
             Some v \<Rightarrow> Ok v
           | None \<Rightarrow> Err (PluginParse (p @ '': invalid integer''))))"

text \<open>The text of a \<^verbatim>\<open>ParseIntError\<close>; a minus sign is no digit to an unsigned type.\<close>

definition int_error :: "bool \<Rightarrow> string \<Rightarrow> string" where
  "int_error sg s =
     (let neg = (sg \<and> starts_with ''-'' s); d = (if neg then tl s else drop_plus s)
      in if s = [] then ''cannot parse integer from empty string''
         else if d = [] \<or> \<not> list_all is_ascii_digit d then ''invalid digit found in string''
         else if neg then ''number too small to fit in target type''
         else ''number too large to fit in target type'')"

text \<open>A whole file as one number, with \<^verbatim>\<open>path: error\<close> messages.\<close>

definition read_parsed :: "bool \<Rightarrow> (string \<Rightarrow> 'a option) \<Rightarrow> env \<Rightarrow> string \<Rightarrow> ('a, PluginError) result" where
  "read_parsed sg parse E p =
     (case read_to_string E p of
        Err e \<Rightarrow> Err (PluginIo (p @ '': '' @ e))
      | Ok s \<Rightarrow>
          (case parse (trim s) of
             Some v \<Rightarrow> Ok v
           | None \<Rightarrow> Err (PluginParse (p @ '': '' @ int_error sg (trim s)))))"

section \<open>Plugins\<close>

text \<open>The version every crate of the workspace has.\<close>

definition CARGO_PKG_VERSION :: string where
  "CARGO_PKG_VERSION = ''1.20.5''"

text \<open>The \<^verbatim>\<open>f32\<close> nearest to 0.2.\<close>

definition RATE_0_2 :: fl where
  "RATE_0_2 = Fin (13421773 / 67108864)"

definition no_device :: "HardwareDeviceKey \<Rightarrow> HardwareCategory \<Rightarrow> string \<Rightarrow> string \<Rightarrow> HardwareDevice" where
  "no_device key cat model pid =
     \<lparr>dev_key = key, dev_category = cat, dev_model = model, dev_vendor = None, dev_location = None,
      dev_plugin_id = [], dev_plugin_device_id = pid, dev_sensor_ids = []\<rparr>"

text \<open>The \<^verbatim>\<open>LinsightPlugin\<close> implementation around \<^verbatim>\<open>init_inner\<close> and \<^verbatim>\<open>sample_inner\<close>.\<close>

definition as_plugin ::
    "'j json_lib \<Rightarrow> ('j PluginCtx \<Rightarrow> 'p \<Rightarrow> (PluginManifest, PluginError) result exec \<times> 'p) \<Rightarrow>
     (SensorId \<Rightarrow> 'p \<Rightarrow> (Reading, PluginError) result exec \<times> 'p) \<Rightarrow> 'p LinsightPlugin" where
  "as_plugin J init sample =
     \<lparr>plugin_init =
        (\<lambda>p ctx. case init (PluginCtx_from J ctx) p of
                   (Panics, p') \<Rightarrow> (Panics, p')
                 | (Returns (Ok m), p') \<Rightarrow> (Returns (Ok (RPluginManifest_from m)), p')
                 | (Returns (Err e), p') \<Rightarrow> (Returns (Err (RPluginError_from e)), p')),
      plugin_sample =
        (\<lambda>p i. case sample (rid_value i) p of
                 (Panics, p') \<Rightarrow> (Panics, p')
               | (Returns (Ok r), p') \<Rightarrow> (Returns (Ok (RReading_from r)), p')
               | (Returns (Err e), p') \<Rightarrow> (Returns (Err (RPluginError_from e)), p')),
      plugin_shutdown = (\<lambda>p. p)\<rparr>"

text \<open>The first of a list that is refused, with the reason: a loop with \<^verbatim>\<open>?\<close>.\<close>

fun first_err :: "('d \<Rightarrow> ('a, 'e) result) \<Rightarrow> 'd list \<Rightarrow> ('d \<times> 'e) option" where
  "first_err f [] = None"
| "first_err f (d # ds) = (case f d of Err e \<Rightarrow> Some (d, e) | Ok _ \<Rightarrow> first_err f ds)"

lemma first_err_None: "first_err f ds = None \<longleftrightarrow> (\<forall>d \<in> set ds. \<exists>a. f d = Ok a)"
  by (induction ds) (auto split: result.split)

section \<open>What the host gets\<close>

text \<open>The fields of a device that the host fills in do not cross the boundary.\<close>

definition host_view :: "PluginManifest \<Rightarrow> PluginManifest" where
  "host_view m = m\<lparr>m_devices := map (\<lambda>d. d\<lparr>dev_plugin_id := [], dev_sensor_ids := []\<rparr>) (m_devices m)\<rparr>"

definition id_ok :: "string \<Rightarrow> bool" where
  "id_ok s \<longleftrightarrow> s \<noteq> [] \<and> (\<forall>c \<in> set s. \<not> is_whitespace c)"

text \<open>What the host accepts, and a manifest whose ids also name its sensors uniquely.\<close>

definition acceptable_manifest :: "PluginManifest \<Rightarrow> bool" where
  "acceptable_manifest m \<longleftrightarrow>
     (\<forall>s \<in> set (m_sensors m). id_ok (d_id s))
     \<and> (\<forall>d \<in> set (m_devices m). wf_key (dev_key d)) \<and> distinct (map dev_key (m_devices m))
     \<and> (\<forall>s \<in> set (m_sensors m). \<forall>k. d_device_key s = Some k \<longrightarrow> k \<in> dev_key ` set (m_devices m))"

definition good_manifest :: "PluginManifest \<Rightarrow> bool" where
  "good_manifest m \<longleftrightarrow> acceptable_manifest m \<and> distinct (map d_id (m_sensors m))"

lemma good_manifestI:
  assumes "\<And>s. s \<in> set (m_sensors m) \<Longrightarrow> id_ok (d_id s)" and "distinct (map d_id (m_sensors m))"
    and "\<And>d. d \<in> set (m_devices m) \<Longrightarrow> wf_key (dev_key d)" and "distinct (map dev_key (m_devices m))"
    and "\<And>s k. s \<in> set (m_sensors m) \<Longrightarrow> d_device_key s = Some k \<Longrightarrow> k \<in> dev_key ` set (m_devices m)"
  shows "good_manifest m"
  using assms by (auto simp: good_manifest_def acceptable_manifest_def)

lemma id_ok_try_new: "id_ok s \<longleftrightarrow> SensorId_try_new s = Ok s"
  by (auto simp: id_ok_def SensorId_try_new_def list_ex_iff)

lemma PluginManifest_host_view:
  assumes "acceptable_manifest m"
  shows "PluginManifest_from (RPluginManifest_from m) = Returns (host_view m)"
proof -
  let ?hv = "\<lambda>d. d\<lparr>dev_plugin_id := [], dev_sensor_ids := []\<rparr>"
  have same: "RHardwareDevice_from (?hv d) = RHardwareDevice_from d" for d
    by (simp add: RHardwareDevice_from_def)
  have "list_all device_ok (map ?hv (m_devices m))"
    using assms by (auto simp: list_all_iff acceptable_manifest_def device_ok_def)
  from device.vec_from_to [OF this]
  have d: "svec_into_std HardwareDevice_from (map RHardwareDevice_from (m_devices m)) = Returns (map ?hv (m_devices m))"
    by (simp add: same comp_def)
  have "list_all descriptor_ok (m_sensors m)"
    using assms by (fastforce simp: list_all_iff acceptable_manifest_def descriptor_ok_def split: option.split)
  note s = descriptor.vec_from_to [OF this]
  show ?thesis using d s by (simp add: PluginManifest_from_def RPluginManifest_from_def host_view_def)
qed

lemma validate_acceptable:
  assumes "acceptable_manifest m"
  shows "validate_sensor_ids pid (rm_sensors (RPluginManifest_from m)) = Ok ()"
    "validate_manifest (RPluginManifest_from m) = Ok ()"
proof -
  show "validate_sensor_ids pid (rm_sensors (RPluginManifest_from m)) = Ok ()"
    using assms
    by (simp add: validate_sensor_ids_Ok RPluginManifest_from_def RSensorDescriptor_from_def RSensorId_from_def
        id_ok_try_new [symmetric] acceptable_manifest_def)
  have k: "rdev_key (RHardwareDevice_from d) = dev_key d" for d by (simp add: RHardwareDevice_from_def)
  have k': "rdev_key \<circ> RHardwareDevice_from = dev_key" by (simp add: fun_eq_iff k)
  show "validate_manifest (RPluginManifest_from m) = Ok ()"
    using assms
    by (auto simp: validate_manifest_Ok RPluginManifest_from_def RSensorDescriptor_from_def k k'
        acceptable_manifest_def image_image)
qed

text \<open>
  The contract of a built-in plugin: it does not panic and the host accepts its manifests.
\<close>

locale builtin_plugin =
  fixes init :: "'j PluginCtx \<Rightarrow> 'p \<Rightarrow> (PluginManifest, PluginError) result exec \<times> 'p"
    and sample :: "SensorId \<Rightarrow> 'p \<Rightarrow> (Reading, PluginError) result exec \<times> 'p"
  assumes init_acceptable: "init ctx p = (Returns (Ok m), p') \<Longrightarrow> acceptable_manifest m"
    and init_returns: "fst (init ctx p) \<noteq> Panics"
    and sample_returns: "fst (sample i p) \<noteq> Panics"
begin

lemma accepted:
  assumes "init (PluginCtx_from J (RPluginCtx_from J ctx)) p = (Returns (Ok m), p')"
  shows "host_init J (as_plugin J init sample) p ctx = (Returns (Ok (host_view m)), p')"
  using init_acceptable [OF assms]
  by (simp add: host_init_def as_plugin_def assms validate_acceptable PluginManifest_host_view)

lemma refused:
  assumes "init (PluginCtx_from J (RPluginCtx_from J ctx)) p = (Returns (Err e), p')"
  shows "host_init J (as_plugin J init sample) p ctx = (Returns (Err (PluginError_from (RPluginError_from e))), p')"
  by (simp add: host_init_def as_plugin_def assms)

lemma sampled:
  "host_sample (as_plugin J init sample) p i =
     (case sample i p of
        (Returns (Ok r), p') \<Rightarrow> (Returns (Ok r), p')
      | (Returns (Err e), p') \<Rightarrow> (Returns (Err (PluginError_from (RPluginError_from e))), p'))"
proof (cases "sample i p")
  case (Pair r p')
  obtain x where "r = Returns x" using sample_returns [of i p] Pair by (cases r) auto
  then show ?thesis using Pair
    by (cases x) (simp_all add: host_sample_def as_plugin_def RSensorId_from_def reading.from_to)
qed

text \<open>A built-in plugin is never reported as panicking.\<close>

lemma never_panics:
  "fst (host_init J (as_plugin J init sample) p ctx) \<noteq> Returns (Err (PluginPanic msg))"
  "fst (host_sample (as_plugin J init sample) p i) \<noteq> Returns (Err (PluginPanic msg))"
proof -
  have e: "PluginError_from (RPluginError_from e) \<noteq> PluginPanic msg" for e
    by (cases e) (simp_all add: PluginError_from_def)
  obtain r p' where r: "init (PluginCtx_from J (RPluginCtx_from J ctx)) p = (Returns r, p')"
    using init_returns [of "PluginCtx_from J (RPluginCtx_from J ctx)" p]
    by (metis exec.exhaust fst_conv surj_pair)
  then show "fst (host_init J (as_plugin J init sample) p ctx) \<noteq> Returns (Err (PluginPanic msg))"
    by (cases r) (simp_all add: accepted refused e)
  show "fst (host_sample (as_plugin J init sample) p i) \<noteq> Returns (Err (PluginPanic msg))"
    using sample_returns [of i p] e by (auto simp: sampled split: prod.split exec.split result.split)
qed

end

text \<open>Most plugins also give every sensor an id of its own.\<close>

locale sensor_plugin = builtin_plugin init sample
  for init :: "'j PluginCtx \<Rightarrow> 'p \<Rightarrow> (PluginManifest, PluginError) result exec \<times> 'p"
    and sample :: "SensorId \<Rightarrow> 'p \<Rightarrow> (Reading, PluginError) result exec \<times> 'p" +
  assumes init_distinct: "init ctx p = (Returns (Ok m), p') \<Longrightarrow> distinct (map d_id (m_sensors m))"
begin

lemma init_good: "init ctx p = (Returns (Ok m), p') \<Longrightarrow> good_manifest m"
  by (simp add: good_manifest_def init_acceptable init_distinct)

lemma unique_sensor:
  "init ctx p = (Returns (Ok m), p') \<Longrightarrow> s \<in> set (m_sensors m) \<Longrightarrow> t \<in> set (m_sensors m) \<Longrightarrow> d_id s = d_id t \<Longrightarrow> s = t"
  using init_distinct by (metis distinct_map inj_onD)

end

lemma sensor_pluginI:
  assumes "\<And>ctx p m p'. init ctx p = (Returns (Ok m), p') \<Longrightarrow> good_manifest m"
    and "\<And>ctx p. fst (init ctx p) \<noteq> Panics" and "\<And>i p. fst (sample i p) \<noteq> Panics"
  shows "sensor_plugin init sample"
  by unfold_locales (use assms in \<open>auto simp: good_manifest_def\<close>)

section \<open>Sensors per device\<close>

text \<open>
  Most ids are \<^verbatim>\<open><plugin>.<device>.<metric>\<close>; the device may hold dots, so an id is taken apart at its
  last one.
\<close>

definition metric_id :: "string \<Rightarrow> string \<Rightarrow> string \<Rightarrow> SensorId" where
  "metric_id prefix name metric = prefix @ name @ CHR ''.'' # metric"

definition split_metric_id :: "string \<Rightarrow> SensorId \<Rightarrow> (string \<times> string) option" where
  "split_metric_id prefix sensor = Option.bind (strip_prefix prefix sensor) (rsplit_once CHR ''.'')"

lemma split_metric_id: "CHR ''.'' \<notin> set m \<Longrightarrow> split_metric_id p (metric_id p n m) = Some (n, m)"
proof -
  assume m: "CHR ''.'' \<notin> set m"
  have "strip_prefix p (metric_id p n m) = Some (n @ CHR ''.'' # m)" by (simp add: strip_prefix_Some metric_id_def)
  moreover have "rsplit_once CHR ''.'' (n @ CHR ''.'' # m) = Some (n, m)" using m by (simp add: rsplit_once_Some)
  ultimately show ?thesis unfolding split_metric_id_def by simp
qed

lemma metric_id_inj:
  "CHR ''.'' \<notin> set m \<Longrightarrow> CHR ''.'' \<notin> set m' \<Longrightarrow> metric_id p n m = metric_id p n' m' \<longleftrightarrow> n = n' \<and> m = m'"
  using split_metric_id [of m p n] split_metric_id [of m' p n'] by (metis option.inject prod.inject)

lemma id_ok_metric_id: "id_ok p \<Longrightarrow> id_ok n \<Longrightarrow> id_ok m \<Longrightarrow> id_ok (metric_id p n m)"
proof -
  have "\<not> is_whitespace CHR ''.''" by code_simp
  then show "id_ok p \<Longrightarrow> id_ok n \<Longrightarrow> id_ok m \<Longrightarrow> id_ok (metric_id p n m)"
    unfolding id_ok_def metric_id_def by (simp add: ball_Un)
qed

lemma key_char_no_ws: "key_char_ok c \<Longrightarrow> \<not> is_whitespace c"
  by (auto simp: key_char_ok_def is_ascii_alphanumeric_def is_ascii_alphabetic_def is_ascii_digit_def is_whitespace_def)

lemma wf_key_chars:
  assumes "wf_key (scheme @ CHR '':'' # n)" and "CHR '':'' \<notin> set scheme"
  shows "n \<noteq> [] \<and> (\<forall>c \<in> set n. key_char_ok c)"
proof -
  obtain sc rest where k: "scheme @ CHR '':'' # n = sc @ CHR '':'' # rest" "sc \<in> set ALLOWED_SCHEMES"
      "rest \<noteq> []" "\<forall>c \<in> set rest. key_char_ok c"
    using assms(1) unfolding wf_key_def by blast
  have "split_once CHR '':'' (scheme @ CHR '':'' # n) = Some (scheme, n)" unfolding split_once_Some using assms(2) by blast
  moreover have "split_once CHR '':'' (sc @ CHR '':'' # rest) = Some (sc, rest)" by (rule split_once_scheme [OF k(2)])
  ultimately have "rest = n" unfolding k(1) by simp
  then show ?thesis using k(3,4) by blast
qed

lemma wf_key_name:
  assumes "wf_key (scheme @ CHR '':'' # n)" and "CHR '':'' \<notin> set scheme"
  shows "id_ok n"
  using wf_key_chars [OF assms] key_char_no_ws unfolding id_ok_def by blast

lemma good_manifest_metrics:
  assumes names: "distinct (map name ds)" and metrics: "distinct metrics"
    and m: "\<And>m. m \<in> set metrics \<Longrightarrow> id_ok m \<and> CHR ''.'' \<notin> set m" and p: "id_ok p"
    and scheme: "CHR '':'' \<notin> set scheme"
    and wf: "\<And>d. d \<in> set ds \<Longrightarrow> wf_key (scheme @ CHR '':'' # name d)"
    and dev: "\<And>d. d \<in> set ds \<Longrightarrow> dev_key (dev d) = scheme @ CHR '':'' # name d"
    and ids: "\<And>d. d \<in> set ds \<Longrightarrow> map d_id (sens d) = map (metric_id p (name d)) metrics"
    and keys: "\<And>d s. d \<in> set ds \<Longrightarrow> s \<in> set (sens d) \<Longrightarrow> d_device_key s = Some (scheme @ CHR '':'' # name d)"
  shows "good_manifest \<lparr>m_plugin_id = a, m_display_name = b, m_version = c, m_sensors = concat (map sens ds), m_devices = map dev ds\<rparr>"
proof (rule good_manifestI, simp_all)
  have in_ids: "\<exists>m \<in> set metrics. d_id s = metric_id p (name d) m" if "d \<in> set ds" "s \<in> set (sens d)" for d s
  proof -
    have "d_id s \<in> set (map d_id (sens d))" using that(2) by simp
    then show ?thesis unfolding ids [OF that(1)] by auto
  qed
  show "id_ok (d_id s)" if "\<exists>d \<in> set ds. s \<in> set (sens d)" for s
    using that in_ids id_ok_metric_id [OF p] wf_key_name [OF wf scheme] m by metis
  have "map d_id (concat (map sens ds)) = concat (map (\<lambda>d. map (metric_id p (name d)) metrics) ds)"
    using ids by (induction ds) auto
  moreover have "distinct (concat (map (\<lambda>d. map (metric_id p (name d)) metrics) ds))"
    using names
  proof (induction ds)
    case (Cons d ds)
    have "distinct (map (metric_id p (name d)) metrics)"
      using metrics m by (auto simp: distinct_map inj_on_def metric_id_inj)
    moreover have "metric_id p (name d) x \<noteq> metric_id p (name d') y" if "d' \<in> set ds" "x \<in> set metrics" "y \<in> set metrics" for d' x y
      using Cons.prems that m metric_id_inj [of x y] by force
    ultimately show ?case using Cons by auto
  qed simp
  ultimately show "distinct (map d_id (concat (map sens ds)))" by simp
  show "wf_key (dev_key d)" if "d \<in> dev ` set ds" for d using that dev wf by auto
  have "map (dev_key \<circ> dev) ds = map (\<lambda>d. scheme @ CHR '':'' # name d) ds" using dev by simp
  then show "distinct (map (dev_key \<circ> dev) ds)" using names by (auto simp: distinct_map inj_on_def)
  show "k \<in> dev_key ` dev ` set ds" if "\<exists>d \<in> set ds. s \<in> set (sens d)" "d_device_key s = Some k" for s k
    using that keys dev by (force simp: image_iff)
qed

section \<open>Lemmas on files and ids\<close>

lemma utf8_prefix_ascii:
  "\<forall>c \<in> set s. char_code c < 128 \<Longrightarrow> utf8_prefix n s = Some (take n s)"
proof (induction s arbitrary: n)
  case (Cons c s)
  then show ?case by (cases n) auto
qed simp

lemma id_ok_append: "id_ok (a @ b) \<longleftrightarrow> (a \<noteq> [] \<or> b \<noteq> []) \<and> (a = [] \<or> id_ok a) \<and> (b = [] \<or> id_ok b)"
  by (auto simp: id_ok_def)

lemma wf_key_payload:
  assumes "HardwareDeviceKey_try_new s = Ok k"
  shows "k = s \<and> wf_key s"
  using assms key_try_new_Ok by auto

text \<open>Plugins whose sensors depend on the device and whose keys are not made of the name.\<close>

lemma good_manifest_devices:
  assumes names: "distinct (map name ds)" and keys: "distinct (map key ds)" and p: "id_ok p"
    and wf: "\<And>d. d \<in> set ds \<Longrightarrow> id_ok (name d) \<and> wf_key (key d) \<and> dev_key (dev d) = key d"
    and metrics: "\<And>d. d \<in> set ds \<Longrightarrow> distinct (metrics d) \<and> (\<forall>m \<in> set (metrics d). id_ok m \<and> CHR ''.'' \<notin> set m)"
    and ids: "\<And>d. d \<in> set ds \<Longrightarrow> map d_id (sens d) = map (metric_id p (name d)) (metrics d)"
    and dks: "\<And>d s. d \<in> set ds \<Longrightarrow> s \<in> set (sens d) \<Longrightarrow> d_device_key s = Some (key d)"
  shows "good_manifest \<lparr>m_plugin_id = a, m_display_name = b, m_version = c, m_sensors = concat (map sens ds), m_devices = map dev ds\<rparr>"
proof (rule good_manifestI, simp_all)
  have in_ids: "\<exists>m \<in> set (metrics d). d_id s = metric_id p (name d) m" if "d \<in> set ds" "s \<in> set (sens d)" for d s
  proof -
    have "d_id s \<in> set (map d_id (sens d))" using that(2) by simp
    then show ?thesis unfolding ids [OF that(1)] by auto
  qed
  show "id_ok (d_id s)" if "\<exists>d \<in> set ds. s \<in> set (sens d)" for s
    using that in_ids id_ok_metric_id [OF p] wf metrics by metis
  have "map d_id (concat (map sens ds)) = concat (map (\<lambda>d. map (metric_id p (name d)) (metrics d)) ds)"
    using ids by (induction ds) auto
  moreover have "distinct (concat (map (\<lambda>d. map (metric_id p (name d)) (metrics d)) ds))"
    using names metrics
  proof (induction ds)
    case (Cons d ds)
    have "distinct (map (metric_id p (name d)) (metrics d))"
      using Cons.prems(2) [of d] by (auto simp: distinct_map inj_on_def metric_id_inj)
    moreover have "metric_id p (name d) x \<noteq> metric_id p (name d') y"
      if "d' \<in> set ds" "x \<in> set (metrics d)" "y \<in> set (metrics d')" for d' x y
      using Cons.prems that metric_id_inj [of x y] by force
    moreover have "distinct (concat (map (\<lambda>d. map (metric_id p (name d)) (metrics d)) ds))"
      by (rule Cons.IH) (use Cons.prems in auto)
    ultimately show ?case by (auto simp: image_iff)
  qed simp
  ultimately show "distinct (map d_id (concat (map sens ds)))" by simp
  show "wf_key (dev_key d)" if "d \<in> dev ` set ds" for d using that wf by auto
  have "map (dev_key \<circ> dev) ds = map key ds" using wf by simp
  then show "distinct (map (dev_key \<circ> dev) ds)" by (simp only: keys)
  show "k \<in> dev_key ` dev ` set ds" if "\<exists>d \<in> set ds. s \<in> set (sens d)" "d_device_key s = Some k" for s k
    using that dks wf by (force simp: image_iff)
qed

section \<open>Floats in range\<close>

text \<open>A value below a power of two within range stays below it.\<close>

lemma round_f64_le_powi:
  assumes "0 \<le> x" and "x \<le> 2 ^ k" and "k < 1024"
  obtains r where "round_f64 x = Fin r" and "0 \<le> r" and "r \<le> 2 ^ k"
proof -
  have "flog2 (2 powi int k) \<le> int k"
  proof (rule ccontr)
    assume "\<not> flog2 (2 powi int k) \<le> int k"
    then have "(2::rat) powi int k < 2 powi flog2 (2 powi int k)" by (intro power_int_strict_increasing) simp_all
    moreover have "2 powi flog2 (2 powi int k) \<le> (2::rat) powi int k" by (rule flog2_bounds) (simp del: power_int_of_nat)
    ultimately show False by simp
  qed
  then have "round_mag (2 powi int k) \<le> 2 powi int k" by (intro round_mag_le_powi) (simp_all del: power_int_of_nat)
  moreover have "round_mag x \<le> round_mag (2 powi int k)" using assms(1,2) by (intro round_mag_mono) simp_all
  ultimately have "round_mag x \<le> 2 ^ k" by simp
  moreover have "(2::rat) ^ k < 2 ^ 1024" using assms(3) by (intro power_strict_increasing) simp_all
  ultimately have "round_f64 x = Fin (sgn x * round_mag x)" using assms(1) by (auto simp: round_f64_def Let_def)
  moreover have "sgn x * round_mag x = round_mag x" using assms(1) by (cases "x = 0") auto
  ultimately show ?thesis using that \<open>round_mag x \<le> 2 ^ k\<close> round_mag_nonneg [OF assms(1)] by metis
qed

lemma fl_of_u64_range:
  obtains r where "fl_of_u64 w = Fin r" and "0 \<le> r" and "r \<le> 2 ^ 64" and "w \<noteq> 0 \<Longrightarrow> 1 \<le> r"
proof -
  have "unat w < 2 ^ 64" using unsigned_less [of w] by simp
  then have le: "(of_nat (unat w) :: rat) \<le> 2 ^ 64"
    by (metis less_imp_le of_nat_le_iff of_nat_numeral of_nat_power)
  obtain r where r: "fl_of_u64 w = Fin r" "0 \<le> r" "r \<le> 2 ^ 64"
    using round_f64_le_powi [OF of_nat_0_le_iff le] unfolding fl_of_u64_def by auto
  have "1 \<le> r" if "w \<noteq> 0"
  proof -
    have "1 \<le> unat w" using that by (simp add: Suc_le_eq unat_gt_0)
    then have "(of_nat 1 :: rat) \<le> of_nat (unat w)" by (rule of_nat_mono)
    then have u: "1 \<le> (of_nat (unat w) :: rat)" by (simp only: of_nat_1)
    have "1 \<le> round_mag (of_nat (unat w))"
      using round_mag_mono [of 1 "of_nat (unat w)"] round_mag_of_nat [of 1] u by simp
    moreover have "fl_of_u64 w = Fin (round_mag (of_nat (unat w)))"
      using r(1) u by (auto simp: fl_of_u64_def round_f64_def Let_def split: if_splits)
    ultimately show ?thesis using r(1) by simp
  qed
  then show ?thesis using that r by blast
qed

lemma fl_mul_range:
  assumes "0 \<le> x" "x \<le> 2 ^ i" "0 \<le> y" "y \<le> 2 ^ j" and "i + j < 1024"
  obtains r where "fl_mul (Fin x) (Fin y) = Fin r" and "0 \<le> r" and "r \<le> 2 ^ (i + j)"
proof -
  have "x * y \<le> 2 ^ (i + j)" using assms by (simp add: power_add mult_mono)
  moreover have "0 \<le> x * y" using assms by simp
  ultimately show ?thesis using round_f64_le_powi [of "x * y" "i + j"] assms(5) that by auto
qed

end
