(* ===== verification/Sensors_Cpu.thy ===== *)
theory Sensors_Cpu
  imports Sensor_Lib
begin

text \<open>
  The CPU and memory plugins, \<^verbatim>\<open>crates/linsight-sensors/cpu\<close> and \<^verbatim>\<open>mem\<close>: the parsers of
  \<^verbatim>\<open>/proc/stat\<close> and \<^verbatim>\<open>/proc/meminfo\<close>, the utilization between two snapshots, the caches, the
  discovery of temperature and frequency files, and the manifests.
\<close>

section \<open>proc_stat.rs\<close>

datatype StatError = MissingAggregate | TooShort | BadNumber string | StatIo string

definition stat_error_to_string :: "StatError \<Rightarrow> string" where
  "stat_error_to_string e =
     (case e of
        MissingAggregate \<Rightarrow> ''missing aggregate cpu line''
      | TooShort \<Rightarrow> ''aggregate cpu line too short (need >= 8 fields)''
      | BadNumber s \<Rightarrow> ''non-numeric field in cpu line: '' @ s
      | StatIo s \<Rightarrow> ''io: '' @ s)"

text \<open>\<^verbatim>\<open>Stat\<close>; \<^verbatim>\<open>CoreStat\<close> has the same fields and the same two methods.\<close>

record Stat =
  st_user :: u64
  st_nice :: u64
  st_system :: u64
  st_idle :: u64
  st_iowait :: u64
  st_irq :: u64
  st_softirq :: u64
  st_steal :: u64

type_synonym CoreStat = Stat

definition stat_total :: "Stat \<Rightarrow> u64" where
  "stat_total s = st_user s + st_nice s + st_system s + st_idle s + st_iowait s + st_irq s + st_softirq s + st_steal s"

definition stat_busy :: "Stat \<Rightarrow> u64" where
  "stat_busy s = stat_total s - st_idle s - st_iowait s"

text \<open>The next \<open>n\<close> fields, in order; the first that is missing or not a number is the error.\<close>

fun parse_fields :: "nat \<Rightarrow> string list \<Rightarrow> (u64 list, StatError) result" where
  "parse_fields n toks =
     (if n = 0 then Ok []
      else case toks of
             [] \<Rightarrow> Err TooShort
           | t # ts \<Rightarrow>
               (case parse_u64 t of
                  None \<Rightarrow> Err (BadNumber t)
                | Some v \<Rightarrow> result_bind (parse_fields (n - 1) ts) (\<lambda>vs. Ok (v # vs))))"

declare parse_fields.simps [simp del]

definition stat_of :: "u64 list \<Rightarrow> Stat" where
  "stat_of v =
     \<lparr>st_user = v ! 0, st_nice = v ! 1, st_system = v ! 2, st_idle = v ! 3, st_iowait = v ! 4, st_irq = v ! 5,
      st_softirq = v ! 6, st_steal = v ! 7\<rparr>"

definition parse_proc_stat :: "string \<Rightarrow> (Stat, StatError) result" where
  "parse_proc_stat s =
     (case str_lines s of
        [] \<Rightarrow> Err MissingAggregate
      | line # _ \<Rightarrow>
          (case split_whitespace line of
             [] \<Rightarrow> Err MissingAggregate
           | first # toks \<Rightarrow>
               if first \<noteq> ''cpu'' then Err MissingAggregate
               else result_bind (parse_fields 8 toks) (\<lambda>v. Ok (stat_of v))))"

definition parse_core_stat :: "string \<Rightarrow> (CoreStat, StatError) result" where
  "parse_core_stat line =
     (case split_whitespace line of
        [] \<Rightarrow> Err MissingAggregate
      | _ # toks \<Rightarrow> result_bind (parse_fields 8 toks) (\<lambda>v. Ok (stat_of v)))"

definition core_util_between :: "CoreStat \<Rightarrow> CoreStat \<Rightarrow> fl" where
  "core_util_between a b =
     (let dt = saturating_sub (stat_total b) (stat_total a)
      in if dt = 0 then Fin 0
         else let db = saturating_sub (stat_busy b) (stat_busy a)
              in fl_div (fl_mul (Fin 100) (fl_of_u64 db)) (fl_of_u64 dt))"

definition util_between :: "Stat \<Rightarrow> Stat \<Rightarrow> fl" where
  "util_between a b = core_util_between a b"

text \<open>
  One line of the loop: \<open>None\<close> where the loop continues with the next. \<^verbatim>\<open>strip_prefix\<close> with a
  character predicate removes one character.
\<close>

definition core_line :: "string \<Rightarrow> (u32 \<times> CoreStat, StatError) result option" where
  "core_line trimmed =
     (case strip_prefix ''cpu'' trimmed of
        None \<Rightarrow> None
      | Some rest \<Rightarrow>
          (case rest of
             [] \<Rightarrow> None
           | c # digits \<Rightarrow>
               if \<not> is_ascii_digit c then None
               else if digits \<noteq> [] \<and> \<not> is_ascii_whitespace (hd digits) then None
               else Some (case (case split_whitespace rest of t # _ \<Rightarrow> parse_u32 t | [] \<Rightarrow> None) of
                            None \<Rightarrow> Err (BadNumber trimmed)
                          | Some idx \<Rightarrow> result_bind (parse_core_stat trimmed) (\<lambda>st. Ok (idx, st)))))"

fun parse_core_lines :: "string list \<Rightarrow> (u32 \<times> CoreStat) list \<Rightarrow> ((u32 \<times> CoreStat) list, StatError) result" where
  "parse_core_lines [] cores = Ok cores"
| "parse_core_lines (line # ls) cores =
     (case core_line (trim line) of
        None \<Rightarrow> parse_core_lines ls cores
      | Some (Err e) \<Rightarrow> Err e
      | Some (Ok c) \<Rightarrow> parse_core_lines ls (cores @ [c]))"

definition parse_core_stats :: "string \<Rightarrow> ((u32 \<times> CoreStat) list, StatError) result" where
  "parse_core_stats s = result_bind (parse_core_lines (str_lines s) []) (\<lambda>cores. Ok (sort_key fst cores))"

record ProcStatSnapshot =
  ps_aggregate :: Stat
  ps_cores :: "(u32 \<times> CoreStat) list"

definition read_proc_stat :: "env \<Rightarrow> string option \<Rightarrow> (string, StatError) result" where
  "read_proc_stat E sysroot =
     (let p = sys_path sysroot ''proc/stat''
      in result_map_err (\<lambda>e. StatIo (''reading '' @ p @ '': '' @ e)) (read_to_string E p))"

definition read_proc_core_stats :: "env \<Rightarrow> string option \<Rightarrow> ((u32 \<times> CoreStat) list, StatError) result" where
  "read_proc_core_stats E sysroot = result_bind (read_proc_stat E sysroot) parse_core_stats"

definition read_proc_stat_snapshot :: "env \<Rightarrow> string option \<Rightarrow> (ProcStatSnapshot, StatError) result" where
  "read_proc_stat_snapshot E sysroot =
     result_bind (read_proc_stat E sysroot) (\<lambda>s.
     result_bind (parse_proc_stat s) (\<lambda>a.
     result_bind (parse_core_stats s) (\<lambda>cs. Ok \<lparr>ps_aggregate = a, ps_cores = cs\<rparr>)))"

section \<open>The CPU plugin\<close>

definition PROC_STAT_CACHE_TTL :: nat where
  "PROC_STAT_CACHE_TTL = 50000000"

definition SMALL_FILE_BUF :: nat where
  "SMALL_FILE_BUF = 64"

primrec first_some :: "('a \<Rightarrow> 'b option) \<Rightarrow> 'a list \<Rightarrow> 'b option" where
  "first_some f [] = None"
| "first_some f (x # xs) = (case f x of Some y \<Rightarrow> Some y | None \<Rightarrow> first_some f xs)"

definition model_name_line :: "string \<Rightarrow> string option" where
  "model_name_line line =
     (case strip_prefix ''model name'' line of
        Some rest \<Rightarrow>
          (case split_once CHR '':'' rest of
             Some (_, v) \<Rightarrow> if trim v \<noteq> [] then Some (trim v) else None
           | None \<Rightarrow> None)
      | None \<Rightarrow> None)"

definition cpu_model_name :: "env \<Rightarrow> string option \<Rightarrow> string option" where
  "cpu_model_name E sysroot =
     (case read_to_string E (sys_path sysroot ''proc/cpuinfo'') of
        Ok text' \<Rightarrow> first_some model_name_line (str_lines text')
      | Err _ \<Rightarrow> None)"

definition preferred_labels :: "string \<Rightarrow> string list option" where
  "preferred_labels name =
     (if name = ''coretemp'' then Some [''Package id 0'']
      else if name = ''k10temp'' \<or> name = ''zenpower'' then Some [''Tctl'', ''Tdie'']
      else None)"

definition temp_label_file :: "env \<Rightarrow> string \<Rightarrow> string list \<Rightarrow> string \<Rightarrow> string option" where
  "temp_label_file E hw labels f =
     (case Option.bind (strip_prefix ''temp'' f) (strip_suffix ''_label'') of
        None \<Rightarrow> None
      | Some idx \<Rightarrow>
          (case read_to_string E (path_join hw f) of
             Err _ \<Rightarrow> None
           | Ok label \<Rightarrow>
               (let input = path_join hw (''temp'' @ idx @ ''_input'')
                in if trim label \<in> set labels \<and> env_exists E input then Some input else None)))"

definition hwmon_temp_input :: "env \<Rightarrow> string \<Rightarrow> string \<Rightarrow> string option" where
  "hwmon_temp_input E hwmon_root entry =
     (let hw = path_join hwmon_root entry
      in case read_to_string E (path_join hw ''name'') of
           Err _ \<Rightarrow> None
         | Ok name \<Rightarrow>
             (case preferred_labels (trim name) of
                None \<Rightarrow> None
              | Some labels \<Rightarrow>
                  (case read_dir E hw of
                     None \<Rightarrow> None
                   | Some files \<Rightarrow> first_some (temp_label_file E hw labels) files)))"

definition find_package_temp_input :: "env \<Rightarrow> string option \<Rightarrow> string option" where
  "find_package_temp_input E sysroot =
     (let root = sys_path sysroot ''sys/class/hwmon''
      in case read_dir E root of None \<Rightarrow> None | Some entries \<Rightarrow> first_some (hwmon_temp_input E root) entries)"

definition cpu_freq_path :: "env \<Rightarrow> string \<Rightarrow> string \<Rightarrow> string option" where
  "cpu_freq_path E cpu_root name =
     (case strip_prefix ''cpu'' name of
        None \<Rightarrow> None
      | Some rest \<Rightarrow>
          if parse_u32 rest = None then None
          else let p = path_join (path_join cpu_root name) ''cpufreq/scaling_cur_freq''
               in if env_exists E p then Some p else None)"

definition enumerate_cpu_freq_paths :: "env \<Rightarrow> string option \<Rightarrow> string list option" where
  "enumerate_cpu_freq_paths E sysroot =
     (let root = sys_path sysroot ''sys/devices/system/cpu''
      in map_option (List.map_filter (cpu_freq_path E root)) (read_dir E root))"

definition count_cores_from_proc_stat :: "env \<Rightarrow> string option \<Rightarrow> nat" where
  "count_cores_from_proc_stat E sysroot =
     (case read_proc_core_stats E sysroot of Ok v \<Rightarrow> length v | Err _ \<Rightarrow> 0)"

definition compute_core_util_snapshot ::
    "(u32 \<times> CoreStat) list option \<Rightarrow> (u32 \<times> CoreStat) list \<Rightarrow> (u32 \<times> fl) list" where
  "compute_core_util_snapshot prev current =
     (let prev_by_core = fold (\<lambda>(k, v). bt_insert k v) (case prev of Some p \<Rightarrow> p | None \<Rightarrow> []) [];
          util = (\<lambda>(i, cur). case map_of prev_by_core i of
                               Some p \<Rightarrow> core_util_between p cur
                             | None \<Rightarrow> Fin 0)
      in fold (\<lambda>c. bt_insert (fst c) (util c)) current [])"

record CoreUtilCache =
  cu_snapshot :: "(u32 \<times> CoreStat) list"
  cu_util_by_core :: "(u32 \<times> fl) list"

record CpuInner =
  cpu_sysroot :: "string option"
  cpu_proc_stat_cache :: "ProcStatSnapshot SnapshotCache option"
  cpu_prev_stat :: "Stat option"
  cpu_prev_core_stats :: "(u32 \<times> CoreStat) list option"
  cpu_core_util_cache :: "CoreUtilCache option"
  cpu_cached_temp_input :: "string option"
  cpu_cached_freq_paths :: "string list option"

definition cpu_proc_stat_snapshot :: "env \<Rightarrow> CpuInner \<Rightarrow> (ProcStatSnapshot, PluginError) result \<times> CpuInner" where
  "cpu_proc_stat_snapshot E s =
     (case Option.bind (cpu_proc_stat_cache s) (SnapshotCache_get (env_now E) PROC_STAT_CACHE_TTL) of
        Some snapshot \<Rightarrow> (Ok snapshot, s)
      | None \<Rightarrow>
          (case read_proc_stat_snapshot E (cpu_sysroot s) of
             Err e \<Rightarrow> (Err (PluginIo (stat_error_to_string e)), s)
           | Ok snapshot \<Rightarrow>
               (Ok snapshot, s\<lparr>cpu_proc_stat_cache := Some (SnapshotCache_new (env_now E) snapshot)\<rparr>)))"

definition refresh_core_util_cache :: "env \<Rightarrow> CpuInner \<Rightarrow> (unit, PluginError) result \<times> CpuInner" where
  "refresh_core_util_cache E s =
     (case cpu_proc_stat_snapshot E s of
        (Err e, s1) \<Rightarrow> (Err e, s1)
      | (Ok snapshot, s1) \<Rightarrow>
          (let current = ps_cores snapshot
           in if (case cpu_core_util_cache s1 of Some c \<Rightarrow> cu_snapshot c = current | None \<Rightarrow> False) then (Ok (), s1)
              else (Ok (),
                    s1\<lparr>cpu_prev_core_stats := Some current,
                       cpu_core_util_cache := Some \<lparr>cu_snapshot = current,
                          cu_util_by_core = compute_core_util_snapshot (cpu_prev_core_stats s1) current\<rparr>\<rparr>)))"

definition cpu_sensor :: "string \<Rightarrow> string \<Rightarrow> Unit \<Rightarrow> fl option \<Rightarrow> fl option \<Rightarrow> SensorDescriptor" where
  "cpu_sensor i name u mn mx =
     \<lparr>d_id = i, d_display_name = name, d_unit = u, d_kind = KindScalar, d_category = CatCpu,
      d_native_rate_hz = Fin 1, d_min = mn, d_max = mx, d_device_id = None, d_device_key = Some ''cpu:0'', d_tags = []\<rparr>"

definition cpu_core_id :: "nat \<Rightarrow> string" where
  "cpu_core_id i = ''cpu.core'' @ show_nat i @ ''.util''"

definition cpu_sensors :: "nat \<Rightarrow> SensorDescriptor list" where
  "cpu_sensors core_count =
     [cpu_sensor ''cpu.util'' ''CPU utilization'' Percent (Some (Fin 0)) (Some (Fin 100))]
     @ map (\<lambda>i. cpu_sensor (cpu_core_id i) (''CPU core '' @ show_nat i @ '' utilization'') Percent (Some (Fin 0)) (Some (Fin 100)))
         [0..<core_count]
     @ [cpu_sensor ''cpu.temp_c'' ''CPU temperature'' Celsius None None,
        cpu_sensor ''cpu.freq_hz'' ''CPU frequency'' Hertz (Some (Fin 0)) None]"

definition cpu_init_inner :: "env \<Rightarrow> 'j PluginCtx \<Rightarrow> CpuInner \<Rightarrow> (PluginManifest, PluginError) result exec \<times> CpuInner" where
  "cpu_init_inner E ctx s =
     (let sysroot = ctx_sysroot ctx;
          sensors = cpu_sensors (count_cores_from_proc_stat E sysroot);
          device = \<lparr>dev_key = ''cpu:0'', dev_category = HwCpu,
             dev_model = (case cpu_model_name E sysroot of Some m \<Rightarrow> m | None \<Rightarrow> ''CPU''),
             dev_vendor = None, dev_location = None, dev_plugin_id = [], dev_plugin_device_id = ''cpu'',
             dev_sensor_ids = map d_id sensors\<rparr>
      in (Returns (Ok \<lparr>m_plugin_id = ''com.visorcraft.linsight.cpu'', m_display_name = ''CPU'',
            m_version = CARGO_PKG_VERSION, m_sensors = sensors, m_devices = [device]\<rparr>),
          \<lparr>cpu_sysroot = sysroot, cpu_proc_stat_cache = None, cpu_prev_stat = None, cpu_prev_core_stats = None,
           cpu_core_util_cache = None, cpu_cached_temp_input = None, cpu_cached_freq_paths = None\<rparr>))"

definition cpu_sample_util :: "env \<Rightarrow> CpuInner \<Rightarrow> (Reading, PluginError) result \<times> CpuInner" where
  "cpu_sample_util E s =
     (case cpu_proc_stat_snapshot E s of
        (Err e, s1) \<Rightarrow> (Err e, s1)
      | (Ok snapshot, s1) \<Rightarrow>
          (let current = ps_aggregate snapshot
           in (Ok (Scalar (case cpu_prev_stat s1 of None \<Rightarrow> Fin 0 | Some prev \<Rightarrow> util_between prev current)),
               s1\<lparr>cpu_prev_stat := Some current\<rparr>)))"

definition cpu_sample_temp :: "env \<Rightarrow> SensorId \<Rightarrow> CpuInner \<Rightarrow> (Reading, PluginError) result \<times> CpuInner" where
  "cpu_sample_temp E sensor s =
     (let s1 = (case cpu_cached_temp_input s of
                  None \<Rightarrow> s\<lparr>cpu_cached_temp_input := find_package_temp_input E (cpu_sysroot s)\<rparr>
                | Some _ \<Rightarrow> s)
      in (case cpu_cached_temp_input s1 of
            None \<Rightarrow> Err (Unsupported sensor)
          | Some path \<Rightarrow>
              result_bind (read_int (parse_int 32) SMALL_FILE_BUF E path)
                (\<lambda>milli. Ok (Scalar (fl_div (fl_of_int milli) (Fin 1000)))), s1))"

definition average_khz :: "u64 list \<Rightarrow> u64 option" where
  "average_khz khz = (if khz = [] then None else Some (fold saturating_add khz 0 div of_nat (length khz)))"

definition cpu_sample_freq :: "env \<Rightarrow> SensorId \<Rightarrow> CpuInner \<Rightarrow> (Reading, PluginError) result \<times> CpuInner" where
  "cpu_sample_freq E sensor s =
     (let s1 = (case cpu_cached_freq_paths s of
                  None \<Rightarrow> s\<lparr>cpu_cached_freq_paths := enumerate_cpu_freq_paths E (cpu_sysroot s)\<rparr>
                | Some _ \<Rightarrow> s)
      in (case cpu_cached_freq_paths s1 of
            None \<Rightarrow> Err (Unsupported sensor)
          | Some paths \<Rightarrow>
              (case average_khz (List.map_filter (\<lambda>p. result_ok (read_int parse_u64 SMALL_FILE_BUF E p)) paths) of
                 None \<Rightarrow> Err (Unsupported sensor)
               | Some khz \<Rightarrow> Ok (Scalar (fl_mul (fl_of_u64 khz) (Fin 1000)))), s1))"

definition core_of_id :: "SensorId \<Rightarrow> u32 option" where
  "core_of_id sensor = Option.bind (Option.bind (strip_prefix ''cpu.core'' sensor) (strip_suffix ''.util'')) parse_u32"

definition cpu_sample_core :: "env \<Rightarrow> SensorId \<Rightarrow> CpuInner \<Rightarrow> (Reading, PluginError) result \<times> CpuInner" where
  "cpu_sample_core E sensor s =
     (case core_of_id sensor of
        None \<Rightarrow> (Err (Unsupported sensor), s)
      | Some idx \<Rightarrow>
          (case refresh_core_util_cache E s of
             (Err e, s1) \<Rightarrow> (Err e, s1)
           | (Ok _, s1) \<Rightarrow>
               (case Option.bind (cpu_core_util_cache s1) (\<lambda>c. map_of (cu_util_by_core c) idx) of
                  None \<Rightarrow> (Err (Unsupported sensor), s1)
                | Some util \<Rightarrow> (Ok (Scalar util), s1))))"

definition cpu_sample_inner :: "env \<Rightarrow> SensorId \<Rightarrow> CpuInner \<Rightarrow> (Reading, PluginError) result exec \<times> CpuInner" where
  "cpu_sample_inner E sensor s =
     (let (r, s') = (if sensor = ''cpu.util'' then cpu_sample_util E s
                     else if sensor = ''cpu.temp_c'' then cpu_sample_temp E sensor s
                     else if sensor = ''cpu.freq_hz'' then cpu_sample_freq E sensor s
                     else cpu_sample_core E sensor s)
      in (Returns r, s'))"

section \<open>The CPU plugin at the host\<close>

lemma is_whitespace_ascii:
  "char_code c < 128 \<Longrightarrow> is_whitespace c \<longleftrightarrow> char_code c = 32 \<or> (9 \<le> char_code c \<and> char_code c \<le> 13)"
  by (auto simp: is_whitespace_def)

lemma digit_not_ws: "is_ascii_digit c \<Longrightarrow> \<not> is_whitespace c"
  by (auto simp: is_ascii_digit_def is_whitespace_def)

lemma show_nat_inj: "show_nat a = show_nat b \<longleftrightarrow> a = b"
  by (metis dec_value_show_nat)

lemma show_nat_no_ws: "c \<in> set (show_nat n) \<Longrightarrow> \<not> is_whitespace c"
  using show_nat_digits [of n] digit_not_ws by (auto simp: list_all_iff)

lemma wf_cpu_key: "wf_key ''cpu:0''"
proof -
  have "HardwareDeviceKey_try_new ''cpu:0'' = Ok ''cpu:0''" by code_simp
  then show ?thesis by (simp only: key_try_new_Ok)
qed

lemma id_ok_concat: "id_ok a \<Longrightarrow> id_ok b \<Longrightarrow> id_ok (a @ b)"
  by (auto simp: id_ok_def)

lemma id_ok_show_nat: "id_ok (show_nat n)"
  using show_nat_no_ws by (auto simp: id_ok_def)

lemma id_ok_code: "id_ok s \<longleftrightarrow> s \<noteq> [] \<and> list_all (\<lambda>c. \<not> is_whitespace c) s"
  by (simp add: id_ok_def list_all_iff)

lemma id_ok_core: "id_ok (cpu_core_id i)"
proof -
  have "id_ok ''cpu.core''" "id_ok ''.util''" by (unfold id_ok_code) code_simp+
  then show ?thesis unfolding cpu_core_id_def by (intro id_ok_concat id_ok_show_nat)
qed

lemma core_id_inj: "cpu_core_id i = cpu_core_id j \<longleftrightarrow> i = j"
  by (simp add: cpu_core_id_def show_nat_inj)

lemma core_id_other: "cpu_core_id i \<noteq> ''cpu.util''" "cpu_core_id i \<noteq> ''cpu.temp_c''" "cpu_core_id i \<noteq> ''cpu.freq_hz''"
  by (simp_all add: cpu_core_id_def)

lemma cpu_manifest_good:
  "good_manifest \<lparr>m_plugin_id = a, m_display_name = b, m_version = c, m_sensors = cpu_sensors n,
     m_devices = [\<lparr>dev_key = ''cpu:0'', dev_category = HwCpu, dev_model = m, dev_vendor = None, dev_location = None,
       dev_plugin_id = [], dev_plugin_device_id = ''cpu'', dev_sensor_ids = ids\<rparr>]\<rparr>"
proof (rule good_manifestI, simp_all add: wf_cpu_key)
  have ids: "map d_id (cpu_sensors n) = [''cpu.util''] @ map cpu_core_id [0..<n] @ [''cpu.temp_c'', ''cpu.freq_hz'']"
    by (simp add: cpu_sensors_def cpu_sensor_def)
  have "id_ok ''cpu.util''" "id_ok ''cpu.temp_c''" "id_ok ''cpu.freq_hz''" by (unfold id_ok_code) code_simp+
  then show "id_ok (d_id s)" if "s \<in> set (cpu_sensors n)" for s
  proof -
    have "d_id s \<in> set (map d_id (cpu_sensors n))" using that by simp
    then show ?thesis using \<open>id_ok ''cpu.util''\<close> \<open>id_ok ''cpu.temp_c''\<close> \<open>id_ok ''cpu.freq_hz''\<close> id_ok_core
      unfolding ids by auto
  qed
  have "distinct (map cpu_core_id [0..<n])" by (simp add: distinct_map inj_on_def core_id_inj)
  then show "distinct (map d_id (cpu_sensors n))"
    using core_id_other by (auto simp: ids dest: sym)
  show "k = ''cpu:0''" if "s \<in> set (cpu_sensors n)" "d_device_key s = Some k" for s k
    using that by (auto simp: cpu_sensors_def cpu_sensor_def)
qed

lemma cpu_returns: "fst (cpu_sample_inner E i p) \<noteq> Panics" "fst (cpu_init_inner E ctx p) \<noteq> Panics"
  by (simp_all add: cpu_sample_inner_def cpu_init_inner_def Let_def split: prod.split)

interpretation cpu: sensor_plugin "cpu_init_inner E" "cpu_sample_inner E" for E
  by (rule sensor_pluginI) (auto simp: cpu_returns cpu_init_inner_def Let_def intro: cpu_manifest_good)

section \<open>Utilization\<close>

definition stat_sum :: "Stat \<Rightarrow> nat" where
  "stat_sum s = unat (st_user s) + unat (st_nice s) + unat (st_system s) + unat (st_idle s) + unat (st_iowait s)
     + unat (st_irq s) + unat (st_softirq s) + unat (st_steal s)"

definition stat_waiting :: "Stat \<Rightarrow> nat" where
  "stat_waiting s = unat (st_idle s) + unat (st_iowait s)"

lemma unat_total:
  assumes "stat_sum s < 2 ^ 64"
  shows "unat (stat_total s) = stat_sum s"
proof -
  have "stat_total s = of_nat (stat_sum s)" by (simp add: stat_total_def stat_sum_def)
  then show ?thesis using assms by (simp add: unat_of_nat)
qed

lemma unat_busy:
  assumes "stat_sum s < 2 ^ 64"
  shows "unat (stat_busy s) = stat_sum s - stat_waiting s"
proof -
  have le: "unat (st_idle s) \<le> unat (stat_total s)" "unat (st_idle s) + unat (st_iowait s) \<le> unat (stat_total s)"
    using unat_total [OF assms] by (simp_all add: stat_sum_def)
  then have i: "unat (stat_total s - st_idle s) = unat (stat_total s) - unat (st_idle s)"
    by (simp add: unat_sub word_le_nat_alt)
  then have "unat (stat_total s - st_idle s - st_iowait s) = unat (stat_total s) - unat (st_idle s) - unat (st_iowait s)"
    using le by (simp add: unat_sub word_le_nat_alt)
  then show ?thesis using unat_total [OF assms] by (simp add: stat_busy_def stat_waiting_def)
qed

lemma percentage_of_words:
  assumes "m \<le> n" and "0 < n" and "n < 2 ^ 46" and "unat db = m" and "unat dt = n"
  obtains r where "fl_div (fl_mul (Fin 100) (fl_of_u64 db)) (fl_of_u64 dt) = Fin r"
    and "round_f64 (100 * of_nat m / of_nat n) = Fin r" and "0 \<le> r" and "r \<le> 100"
proof -
  have f: "fl_of_u64 dt = Fin (of_nat n)" "fl_of_u64 db = Fin (of_nat m)"
    using assms round_f64_of_nat [of n] round_f64_of_nat [of m] by (simp_all add: fl_of_u64_def)
  have "100 * m < 2 ^ 53" using assms(1,3) by simp
  from round_f64_of_nat [OF this] have mul: "fl_mul (Fin 100) (Fin (of_nat m)) = Fin (100 * of_nat m)" by simp
  have "(of_nat m :: rat) \<le> of_nat n" using assms(1) by (simp only: of_nat_le_iff)
  then have "100 * of_nat m / of_nat n \<le> (of_nat 100 :: rat)" using assms(2) by (simp add: field_simps)
  moreover have "of_nat 0 \<le> (100 * of_nat m / of_nat n :: rat)" by simp
  moreover have "(100 :: nat) < 2 ^ 53" by simp
  ultimately obtain r where r: "round_f64 (100 * of_nat m / of_nat n) = Fin r" "of_nat 0 \<le> r" "r \<le> of_nat 100"
    using round_f64_between by blast
  show ?thesis by (rule that [of r]) (use r f mul assms(2) in simp_all)
qed

text \<open>
  C0: The utilization between two snapshots is a percentage: it is the exact quotient of the busy and the
  total ticks in between, rounded once, and it lies between 0 and 100, provided the counters did
  not overflow, no waiting time was taken back and less than \<open>2^46\<close> ticks passed.
\<close>

theorem core_util_percentage:
  assumes "stat_sum a < 2 ^ 64" and "stat_sum b < 2 ^ 64" and "stat_sum a < stat_sum b"
    and "stat_waiting a \<le> stat_waiting b" and "stat_sum b - stat_sum a < 2 ^ 46"
  shows "\<exists>r. core_util_between a b = Fin r \<and> 0 \<le> r \<and> r \<le> 100
     \<and> round_f64 (100 * of_nat ((stat_sum b - stat_waiting b) - (stat_sum a - stat_waiting a))
                    / of_nat (stat_sum b - stat_sum a)) = Fin r"
proof -
  let ?dt = "saturating_sub (stat_total b) (stat_total a)" and ?db = "saturating_sub (stat_busy b) (stat_busy a)"
  have w: "stat_waiting a \<le> stat_sum a" "stat_waiting b \<le> stat_sum b" by (simp_all add: stat_waiting_def stat_sum_def)
  have le: "(stat_sum b - stat_waiting b) - (stat_sum a - stat_waiting a) \<le> stat_sum b - stat_sum a"
    using w assms(3,4) by arith
  have dt: "unat ?dt = stat_sum b - stat_sum a" unfolding unat_saturating_sub unat_total [OF assms(1)] unat_total [OF assms(2)] ..
  have db: "unat ?db = (stat_sum b - stat_waiting b) - (stat_sum a - stat_waiting a)"
    unfolding unat_saturating_sub unat_busy [OF assms(1)] unat_busy [OF assms(2)] ..
  have pos: "0 < stat_sum b - stat_sum a" using assms(3) by simp
  then have "?dt \<noteq> 0" using dt by (metis less_irrefl unat_0)
  then have "core_util_between a b = fl_div (fl_mul (Fin 100) (fl_of_u64 ?db)) (fl_of_u64 ?dt)"
    by (simp only: core_util_between_def Let_def if_False)
  then show ?thesis by (metis percentage_of_words [OF le pos assms(5) db dt])
qed

theorem core_util_percentage_witness:
  "\<exists>r. core_util_between (stat_of [100, 0, 50, 1000, 0, 0, 0, 0]) (stat_of [130, 0, 60, 1060, 0, 0, 0, 0]) = Fin r
     \<and> 0 \<le> r \<and> r \<le> 100"
proof -
  let ?a = "stat_of [100, 0, 50, 1000, 0, 0, 0, 0]" and ?b = "stat_of [130, 0, 60, 1060, 0, 0, 0, 0]"
  have "stat_sum ?a = 1150" "stat_sum ?b = 1250" "stat_waiting ?a = 1000" "stat_waiting ?b = 1060" by code_simp+
  then show ?thesis using core_util_percentage [of ?a ?b] by auto
qed

text \<open>
  C0: The kernel documents that \<^verbatim>\<open>iowait\<close> may decrease; then the utilization exceeds 100 percent.
\<close>

theorem util_above_100:
  "core_util_between (stat_of [0, 0, 0, 0, 50, 0, 0, 0]) (stat_of [80, 0, 0, 0, 10, 0, 0, 0]) = Fin 200"
proof -
  let ?a = "stat_of [0, 0, 0, 0, 50, 0, 0, 0]" and ?b = "stat_of [80, 0, 0, 0, 10, 0, 0, 0]"
  have d: "saturating_sub (stat_total ?b) (stat_total ?a) = 40" "saturating_sub (stat_busy ?b) (stat_busy ?a) = 80"
    by code_simp+
  show ?thesis using round_f64_of_nat [of 40] round_f64_of_nat [of 80] round_f64_of_nat [of 8000] round_f64_of_nat [of 200]
    by (simp add: core_util_between_def d fl_of_u64_def)
qed

section \<open>Cores\<close>

lemma split_whitespace_one:
  "\<not> is_whitespace c \<Longrightarrow> s = [] \<or> is_whitespace (hd s) \<Longrightarrow> split_whitespace (c # s) = [c] # split_whitespace s"
  by (cases s) (auto simp: split_whitespace_def)

lemma ascii_ws: "is_ascii_whitespace c \<Longrightarrow> is_whitespace c"
  by (auto simp: is_ascii_whitespace_def is_whitespace_def)

lemma parse_one_digit: "is_ascii_digit c \<Longrightarrow> parse_u32 [c] = Some i \<Longrightarrow> unat i < 10"
  using parse_uint_unat [of "[c]" i] drop_plus_digits [of "[c]"]
  by (auto simp: dec_value_def digit_val_def is_ascii_digit_def)

lemma core_line_small:
  assumes "core_line t = Some (Ok (i, st))"
  shows "unat i < 10"
proof -
  obtain c digits where r: "strip_prefix ''cpu'' t = Some (c # digits)" "is_ascii_digit c"
      "digits = [] \<or> is_ascii_whitespace (hd digits)"
    using assms by (auto simp: core_line_def split: option.splits list.splits if_splits)
  then have sp: "split_whitespace (c # digits) = [c] # split_whitespace digits"
    using ascii_ws digit_not_ws by (intro split_whitespace_one) auto
  have "parse_u32 [c] = Some i"
    using assms r by (cases "parse_core_stat t") (auto simp: core_line_def sp split: option.split_asm if_split_asm)
  then show ?thesis by (rule parse_one_digit [OF r(2)])
qed

lemma parse_core_lines_small:
  "parse_core_lines ls cores = Ok cs \<Longrightarrow> \<forall>c \<in> set cores. unat (fst c) < 10 \<Longrightarrow> \<forall>c \<in> set cs. unat (fst c) < 10"
proof (induction ls cores rule: parse_core_lines.induct)
  case (2 line ls cores)
  show ?case
  proof (cases "core_line (trim line)")
    case None
    then show ?thesis using 2 by simp
  next
    case (Some r)
    then obtain c where r: "r = Ok c" using 2(3) by (cases r) simp_all
    then have "unat (fst c) < 10" using Some core_line_small by (cases c) simp
    then show ?thesis using 2(2) [OF Some r] 2(3,4) Some r by simp
  qed
qed simp

lemma parse_core_stats_small: "parse_core_stats s = Ok cores \<Longrightarrow> c \<in> set cores \<Longrightarrow> unat (fst c) < 10"
  using parse_core_lines_small [of "str_lines s" "[]"]
  by (cases "parse_core_lines (str_lines s) []") (auto simp: parse_core_stats_def simp del: str_lines.simps)

text \<open>
  C0: Cores from the tenth on are lost. \<^verbatim>\<open>strip_prefix\<close> removes one digit only, so a line such as
  \<^verbatim>\<open>cpu10 ...\<close> is taken for something that is not a core: no snapshot ever holds a core above 9.
\<close>

theorem cores_beyond_nine_lost:
  assumes "parse_core_stats s = Ok cores" and "c \<in> set cores"
  shows "unat (fst c) < 10"
  by (rule parse_core_stats_small [OF assms])

theorem cores_beyond_nine_lost_witness:
  "\<forall>cores. parse_core_stats ''cpu9 1 1 1 1 1 1 1 1\<newline>cpu10 1 1 1 1 1 1 1 1\<newline>'' = Ok cores \<longrightarrow> (\<forall>c \<in> set cores. unat (fst c) < 10)"
  using cores_beyond_nine_lost [of "''cpu9 1 1 1 1 1 1 1 1\<newline>cpu10 1 1 1 1 1 1 1 1\<newline>''"] by blast

section \<open>Snapshots\<close>

text \<open>Samples of one plugin one after another, each with the machine's state at its moment.\<close>

fun cpu_samples :: "(env \<times> SensorId) list \<Rightarrow> CpuInner \<Rightarrow> (Reading, PluginError) result list \<times> CpuInner" where
  "cpu_samples [] s = ([], s)"
| "cpu_samples ((E, i) # es) s =
     (let (r, s1) = cpu_sample_core E i s; (rs, s2) = cpu_samples es s1 in (r # rs, s2))"

definition core_cached :: "nat \<Rightarrow> CpuInner \<Rightarrow> bool" where
  "core_cached now s \<longleftrightarrow>
     (\<exists>c u. cpu_proc_stat_cache s = Some c \<and> now - captured_at c \<le> PROC_STAT_CACHE_TTL
        \<and> cpu_core_util_cache s = Some u \<and> cu_snapshot u = ps_cores (cache_data c))"

definition cached_util :: "CpuInner \<Rightarrow> SensorId \<Rightarrow> (Reading, PluginError) result" where
  "cached_util s i =
     (case Option.bind (core_of_id i) (\<lambda>idx. Option.bind (cpu_core_util_cache s) (\<lambda>c. map_of (cu_util_by_core c) idx)) of
        None \<Rightarrow> Err (Unsupported i)
      | Some u \<Rightarrow> Ok (Scalar u))"

lemma core_sample_cached:
  assumes "core_cached (env_now E) s"
  shows "cpu_sample_core E i s = (cached_util s i, s)"
  using assms
  by (auto simp: core_cached_def cpu_sample_core_def refresh_core_util_cache_def cpu_proc_stat_snapshot_def
      SnapshotCache_get_def cached_util_def split: option.split)

lemma snapshot_cached:
  assumes "cpu_proc_stat_snapshot E s = (Ok snapshot, s1)"
  shows "\<exists>c. cpu_proc_stat_cache s1 = Some c \<and> cache_data c = snapshot \<and> env_now E - captured_at c \<le> PROC_STAT_CACHE_TTL"
  using assms
  by (auto simp: cpu_proc_stat_snapshot_def SnapshotCache_get_def SnapshotCache_new_def bind_eq_Some_conv
      split: option.split_asm if_split_asm result.split_asm)

lemma core_sample_caches:
  assumes "cpu_sample_core E i s = (Ok r, s1)"
  shows "core_cached (env_now E) s1"
proof -
  obtain snapshot s0 where snap: "cpu_proc_stat_snapshot E s = (Ok snapshot, s0)"
    using assms
    by (cases "cpu_proc_stat_snapshot E s")
      (auto simp: cpu_sample_core_def refresh_core_util_cache_def split: option.split_asm result.split_asm)
  obtain c where c: "cpu_proc_stat_cache s0 = Some c" "cache_data c = snapshot"
      "env_now E - captured_at c \<le> PROC_STAT_CACHE_TTL"
    using snapshot_cached [OF snap] by blast
  show ?thesis using assms c
    by (auto simp: cpu_sample_core_def refresh_core_util_cache_def snap core_cached_def Let_def
        split: option.split_asm if_split_asm prod.split_asm result.split_asm)
qed

text \<open>
  The cores that are sampled together are measured over the same interval: once one core was sampled,
  every other core sampled while that snapshot is fresh, in any order and however often, gets the
  value computed from that snapshot and the one before, and the plugin's state stays as it is.
\<close>

theorem core_samples_coherent:
  assumes "cpu_sample_core E0 i0 s0 = (Ok r, s)" and "cpu_proc_stat_cache s = Some c"
    and "\<forall>(E, i) \<in> set es. env_now E \<le> captured_at c + PROC_STAT_CACHE_TTL"
  shows "cpu_samples es s = (map (\<lambda>(E, i). cached_util s i) es, s)"
proof -
  obtain u where u: "cpu_core_util_cache s = Some u" "cu_snapshot u = ps_cores (cache_data c)"
    using core_sample_caches [OF assms(1)] assms(2) by (auto simp: core_cached_def)
  have "cpu_sample_core E i s = (cached_util s i, s)" if "(E, i) \<in> set es" for E i
  proof (rule core_sample_cached)
    have "env_now E - captured_at c \<le> PROC_STAT_CACHE_TTL" using assms(3) that by auto
    then show "core_cached (env_now E) s" using assms(2) u by (auto simp: core_cached_def)
  qed
  then show ?thesis by (induction es) auto
qed

text \<open>
  The total utilization has no such cache: sampled again while the snapshot is fresh, it reads 0 whatever
  the load.
\<close>

theorem cpu_util_twice_zero:
  assumes "cpu_sample_util E s = (Ok r, s1)" and "cpu_proc_stat_cache s1 = Some c"
    and "env_now E' \<le> captured_at c + PROC_STAT_CACHE_TTL"
  shows "fst (cpu_sample_util E' s1) = Ok (Scalar (Fin 0))"
proof -
  obtain snapshot s0 where snap: "cpu_proc_stat_snapshot E s = (Ok snapshot, s0)"
    and s1: "s1 = s0\<lparr>cpu_prev_stat := Some (ps_aggregate snapshot)\<rparr>"
    using assms(1) by (auto simp: cpu_sample_util_def Let_def split: prod.split_asm result.split_asm)
  have "cache_data c = snapshot" using snapshot_cached [OF snap] assms(2) s1 by auto
  moreover have "env_now E' - captured_at c \<le> PROC_STAT_CACHE_TTL" using assms(3) by simp
  ultimately have "cpu_proc_stat_snapshot E' s1 = (Ok snapshot, s1)"
    using assms(2) by (simp add: cpu_proc_stat_snapshot_def SnapshotCache_get_def)
  moreover have "util_between a a = Fin 0" for a
    by (simp add: util_between_def core_util_between_def saturating_sub_def)
  ultimately show ?thesis by (simp add: cpu_sample_util_def s1)
qed

definition demo_stat :: "nat \<Rightarrow> string \<Rightarrow> env" where
  "demo_stat now text' =
     \<lparr>env_file = (\<lambda>p. if p = ''/proc/stat'' then FileText text' else FileError ''not found''), env_dir = (\<lambda>_. DirMissing),
      env_exists = (\<lambda>_. False), env_link = (\<lambda>_. None), env_now = now\<rparr>"

definition demo_cpu :: CpuInner where
  "demo_cpu =
     \<lparr>cpu_sysroot = None, cpu_proc_stat_cache = None, cpu_prev_stat = None, cpu_prev_core_stats = None,
      cpu_core_util_cache = None, cpu_cached_temp_input = None, cpu_cached_freq_paths = None\<rparr>"

definition demo_stat_text :: string where
  "demo_stat_text = ''cpu 4 0 0 0 0 0 0 0\<newline>cpu0 1 0 0 0 0 0 0 0\<newline>cpu1 3 0 0 0 0 0 0 0\<newline>''"

lemma demo_core_sample:
  "\<exists>r s c. cpu_sample_core (demo_stat 7 demo_stat_text) ''cpu.core1.util'' demo_cpu = (Ok r, s)
     \<and> cpu_proc_stat_cache s = Some c \<and> captured_at c = 7"
proof -
  obtain snap where "read_proc_stat_snapshot (demo_stat 7 demo_stat_text) None = Ok snap" "map fst (ps_cores snap) = [0, 1]"
  proof -
    have "is_ok (read_proc_stat_snapshot (demo_stat 7 demo_stat_text) None)" by code_simp
    moreover have "map_option (\<lambda>s. map fst (ps_cores s)) (result_ok (read_proc_stat_snapshot (demo_stat 7 demo_stat_text) None)) = Some [0, 1]"
      by code_simp
    ultimately show ?thesis using that by (cases "read_proc_stat_snapshot (demo_stat 7 demo_stat_text) None") auto
  qed
  then obtain a b where snap: "read_proc_stat_snapshot (demo_stat 7 demo_stat_text) None = Ok snap" "ps_cores snap = [(0, a), (1, b)]"
    by (auto simp: map_eq_Cons_conv)
  have core: "core_of_id ''cpu.core1.util'' = Some 1" by code_simp
  show ?thesis
    by (simp add: cpu_sample_core_def core refresh_core_util_cache_def cpu_proc_stat_snapshot_def demo_cpu_def snap Let_def
        SnapshotCache_new_def compute_core_util_snapshot_def) (simp add: demo_stat_def)
qed

theorem core_samples_coherent_witness:
  "\<exists>s. cpu_samples [(demo_stat 8 ''changed'', ''cpu.core0.util''), (demo_stat 50000007 ''changed'', ''cpu.core0.util'')] s
     = ([cached_util s ''cpu.core0.util'', cached_util s ''cpu.core0.util''], s)"
proof -
  obtain r s c where s: "cpu_sample_core (demo_stat 7 demo_stat_text) ''cpu.core1.util'' demo_cpu = (Ok r, s)"
    "cpu_proc_stat_cache s = Some c" "captured_at c = 7" using demo_core_sample by blast
  have "\<forall>(E, i) \<in> set [(demo_stat 8 ''changed'', ''cpu.core0.util''), (demo_stat 50000007 ''changed'', ''cpu.core0.util'')].
      env_now E \<le> captured_at c + PROC_STAT_CACHE_TTL"
    by (simp add: s(3) demo_stat_def PROC_STAT_CACHE_TTL_def)
  from core_samples_coherent [OF s(1,2) this] show ?thesis by auto
qed

theorem cpu_util_twice_zero_witness:
  "\<exists>s. fst (cpu_sample_util (demo_stat 8 ''changed'') s) = Ok (Scalar (Fin 0))"
proof -
  let ?E = "demo_stat 7 demo_stat_text"
  have "is_ok (read_proc_stat_snapshot ?E None)" by code_simp
  then obtain snap where snap: "read_proc_stat_snapshot ?E None = Ok snap" by (cases "read_proc_stat_snapshot ?E None") auto
  define s1 where "s1 = demo_cpu\<lparr>cpu_proc_stat_cache := Some (SnapshotCache_new 7 snap), cpu_prev_stat := Some (ps_aggregate snap)\<rparr>"
  have "cpu_sample_util ?E demo_cpu = (Ok (Scalar (Fin 0)), s1)"
    by (simp add: cpu_sample_util_def cpu_proc_stat_snapshot_def demo_cpu_def snap s1_def) (simp add: demo_stat_def)
  from cpu_util_twice_zero [OF this, of "SnapshotCache_new 7 snap" "demo_stat 8 ''changed''"]
  show ?thesis by (auto simp: s1_def SnapshotCache_new_def demo_stat_def PROC_STAT_CACHE_TTL_def)
qed

text \<open>
  Whatever the machine's files hold, the daemon accepts the CPU plugin with exactly the sensors it computed,
  no two with the same id.
\<close>

theorem cpu_manifest_accepted:
  "\<exists>m p'. host_init J (as_plugin J (cpu_init_inner E) (cpu_sample_inner E)) p ctx = (Returns (Ok m), p')
     \<and> m_sensors m = cpu_sensors (count_cores_from_proc_stat E (cpu_sysroot p')) \<and> distinct (map d_id (m_sensors m))"
proof -
  obtain m p' where i: "cpu_init_inner E (PluginCtx_from J (RPluginCtx_from J ctx)) p = (Returns (Ok m), p')"
    "m_sensors m = cpu_sensors (count_cores_from_proc_stat E (cpu_sysroot p'))"
    by (simp add: cpu_init_inner_def Let_def)
  from cpu.init_good [OF i(1)] have "distinct (map d_id (m_sensors m))" by (simp add: good_manifest_def)
  then show ?thesis using cpu.accepted [OF i(1)] i(2) by (simp add: host_view_def)
qed

end
