(* ===== verification/Sensors_Mem.thy ===== *)
theory Sensors_Mem
  imports Sensor_Lib
begin

text \<open>
  The memory plugin, \<^verbatim>\<open>crates/linsight-sensors/mem\<close>: the parser of \<^verbatim>\<open>/proc/meminfo\<close>, its cache
  and its five sensors.
\<close>

section \<open>meminfo.rs\<close>

datatype MemError = MemIo string | MissingKey string

definition mem_error_to_string :: "MemError \<Rightarrow> string" where
  "mem_error_to_string e =
     (case e of MemIo s \<Rightarrow> ''io: '' @ s | MissingKey k \<Rightarrow> ''missing key in /proc/meminfo: '' @ k)"

record Meminfo =
  total_bytes :: u64
  available_bytes :: u64
  free_bytes :: u64
  swap_total :: u64
  swap_free :: u64
  swap_cached :: u64

definition meminfo_default :: Meminfo where
  "meminfo_default = \<lparr>total_bytes = 0, available_bytes = 0, free_bytes = 0, swap_total = 0, swap_free = 0, swap_cached = 0\<rparr>"

definition used_bytes :: "Meminfo \<Rightarrow> u64" where
  "used_bytes m = saturating_sub (total_bytes m) (available_bytes m)"

definition swap_used_bytes :: "Meminfo \<Rightarrow> u64" where
  "swap_used_bytes m = saturating_sub (swap_total m) (swap_free m)"

text \<open>One line: the fields so far, and whether \<^verbatim>\<open>MemAvailable\<close> was seen.\<close>

definition MEM_KEYS :: "string list" where
  "MEM_KEYS = [''MemTotal'', ''MemAvailable'', ''MemFree'', ''SwapTotal'', ''SwapFree'', ''SwapCached'']"

definition set_mem_key :: "string \<Rightarrow> u64 \<Rightarrow> Meminfo \<times> bool \<Rightarrow> Meminfo \<times> bool" where
  "set_mem_key key v st =
     (let (out, saw) = st; b = v * 1024
      in if key = ''MemTotal'' then (out\<lparr>total_bytes := b\<rparr>, saw)
         else if key = ''MemAvailable'' then (out\<lparr>available_bytes := b\<rparr>, True)
         else if key = ''MemFree'' then (out\<lparr>free_bytes := b\<rparr>, saw)
         else if key = ''SwapTotal'' then (out\<lparr>swap_total := b\<rparr>, saw)
         else if key = ''SwapFree'' then (out\<lparr>swap_free := b\<rparr>, saw)
         else if key = ''SwapCached'' then (out\<lparr>swap_cached := b\<rparr>, saw)
         else (out, saw))"

definition meminfo_line :: "string \<Rightarrow> Meminfo \<times> bool \<Rightarrow> Meminfo \<times> bool" where
  "meminfo_line line st =
     (case split_once CHR '':'' line of
        None \<Rightarrow> st
      | Some (k, rest) \<Rightarrow>
          (let key = trim k
           in if key \<notin> set MEM_KEYS then st
              else case parse_u64 (trim (trim_end_matches_str (length rest) '' kB'' (trim rest))) of
                     None \<Rightarrow> st
                   | Some v \<Rightarrow> set_mem_key key v st))"

definition parse_meminfo :: "string \<Rightarrow> (Meminfo, MemError) result" where
  "parse_meminfo s =
     (let (out, saw) = fold meminfo_line (str_lines s) (meminfo_default, False)
      in if total_bytes out = 0 then Err (MissingKey ''MemTotal'')
         else Ok (if saw then out else out\<lparr>available_bytes := free_bytes out\<rparr>))"

text \<open>\<^verbatim>\<open>read_meminfo_file\<close>: a buffer of 4096 bytes, extended when it fills up.\<close>

definition read_meminfo_file :: "env \<Rightarrow> string \<Rightarrow> (string, MemError) result" where
  "read_meminfo_file E p =
     (case env_file E p of
        FileError e \<Rightarrow> Err (MemIo (p @ '': '' @ e))
      | FileBinary e \<Rightarrow> Err (MemIo (p @ '': '' @ e))
      | FileText s \<Rightarrow> Ok s)"

definition read_meminfo :: "env \<Rightarrow> string option \<Rightarrow> (Meminfo, MemError) result" where
  "read_meminfo E sysroot = result_bind (read_meminfo_file E (sys_path sysroot ''proc/meminfo'')) parse_meminfo"

section \<open>The plugin\<close>

definition MEMINFO_CACHE_TTL :: nat where
  "MEMINFO_CACHE_TTL = 50000000"

record MemInner =
  mem_sysroot :: "string option"
  mem_cache :: "Meminfo SnapshotCache option"

definition meminfo_snapshot :: "env \<Rightarrow> MemInner \<Rightarrow> (Meminfo, PluginError) result \<times> MemInner" where
  "meminfo_snapshot E s =
     (case Option.bind (mem_cache s) (SnapshotCache_get (env_now E) MEMINFO_CACHE_TTL) of
        Some m \<Rightarrow> (Ok m, s)
      | None \<Rightarrow>
          (case read_meminfo E (mem_sysroot s) of
             Err e \<Rightarrow> (Err (PluginIo (mem_error_to_string e)), s)
           | Ok m \<Rightarrow> (Ok m, s\<lparr>mem_cache := Some (SnapshotCache_new (env_now E) m)\<rparr>)))"

definition mem_sensor :: "string \<Rightarrow> string \<Rightarrow> fl \<Rightarrow> string list \<Rightarrow> SensorDescriptor" where
  "mem_sensor i name rate tags =
     \<lparr>d_id = i, d_display_name = name, d_unit = Bytes, d_kind = KindScalar, d_category = CatMemory,
      d_native_rate_hz = rate, d_min = Some (Fin 0), d_max = None, d_device_id = None, d_device_key = None, d_tags = tags\<rparr>"

definition mem_manifest :: PluginManifest where
  "mem_manifest =
     \<lparr>m_plugin_id = ''com.visorcraft.linsight.mem'', m_display_name = ''Memory'', m_version = CARGO_PKG_VERSION,
      m_sensors =
        [mem_sensor ''mem.used_bytes'' ''Memory used'' (Fin 1) [],
         mem_sensor ''mem.total_bytes'' ''Memory total'' MIN_RATE_HZ [STATIC_TAG],
         mem_sensor ''mem.swap_total_bytes'' ''Swap total'' MIN_RATE_HZ [],
         mem_sensor ''mem.swap_used_bytes'' ''Swap used'' (Fin 1) [],
         mem_sensor ''mem.swap_cached_bytes'' ''Swap cached'' (Fin 1) []],
      m_devices = []\<rparr>"

definition mem_init_inner :: "'j PluginCtx \<Rightarrow> MemInner \<Rightarrow> (PluginManifest, PluginError) result exec \<times> MemInner" where
  "mem_init_inner ctx s = (Returns (Ok mem_manifest), \<lparr>mem_sysroot = ctx_sysroot ctx, mem_cache = None\<rparr>)"

definition mem_value :: "SensorId \<Rightarrow> Meminfo \<Rightarrow> u64 option" where
  "mem_value sensor m =
     (if sensor = ''mem.used_bytes'' then Some (used_bytes m)
      else if sensor = ''mem.total_bytes'' then Some (total_bytes m)
      else if sensor = ''mem.swap_total_bytes'' then Some (swap_total m)
      else if sensor = ''mem.swap_used_bytes'' then Some (swap_used_bytes m)
      else if sensor = ''mem.swap_cached_bytes'' then Some (swap_cached m)
      else None)"

definition mem_sample_inner :: "env \<Rightarrow> SensorId \<Rightarrow> MemInner \<Rightarrow> (Reading, PluginError) result exec \<times> MemInner" where
  "mem_sample_inner E sensor s =
     (case meminfo_snapshot E s of
        (Err e, s1) \<Rightarrow> (Returns (Err e), s1)
      | (Ok m, s1) \<Rightarrow>
          (Returns (case mem_value sensor m of
                      Some v \<Rightarrow> Ok (Scalar (fl_of_u64 v))
                    | None \<Rightarrow> Err (Unsupported sensor)), s1))"

lemma mem_manifest_good: "good_manifest mem_manifest"
proof (rule good_manifestI)
  have "list_all (\<lambda>s. d_id s \<noteq> [] \<and> list_all (\<lambda>c. \<not> is_whitespace c) (d_id s)) (m_sensors mem_manifest)" by code_simp
  then show "id_ok (d_id s)" if "s \<in> set (m_sensors mem_manifest)" for s
    using that by (simp add: list_all_iff id_ok_def)
qed (auto simp: mem_manifest_def mem_sensor_def)

interpretation mem: sensor_plugin mem_init_inner "mem_sample_inner E" for E
  by (rule sensor_pluginI)
    (auto simp: mem_init_inner_def mem_sample_inner_def mem_manifest_good split: prod.split result.split)

section \<open>Reading meminfo\<close>

text \<open>A line as the kernel prints it: the key, a colon, blanks, the number and its unit.\<close>

definition meminfo_entry :: "string \<times> nat \<times> nat \<Rightarrow> string" where
  "meminfo_entry e = (case e of (key, pad, kb) \<Rightarrow> key @ CHR '':'' # replicate pad CHR '' '' @ show_nat kb @ '' kB'' @ [CHR 0x0A])"

definition meminfo_text :: "(string \<times> nat \<times> nat) list \<Rightarrow> string" where
  "meminfo_text es = concat (map meminfo_entry es)"

definition mem_key_ok :: "string \<Rightarrow> bool" where
  "mem_key_ok k \<longleftrightarrow> (\<forall>c \<in> set k. \<not> is_whitespace c \<and> c \<noteq> CHR '':'')"

definition kb_bytes :: "(string \<times> nat \<times> nat) list \<Rightarrow> string \<Rightarrow> u64" where
  "kb_bytes es k = (case map_of es k of Some (_, kb) \<Rightarrow> of_nat kb * 1024 | None \<Rightarrow> 0)"

lemma str_lines_Cons:
  assumes "CHR 0x0A \<notin> set l"
  shows "str_lines (l @ CHR 0x0A # s) = strip_cr l # str_lines s"
proof -
  obtain w ws where "split_char CHR 0x0A s = w # ws" by (cases "split_char CHR 0x0A s") auto
  then show ?thesis using split_char_append [OF assms, of s] by (simp add: Let_def)
qed

lemma trim_pad: "s = [] \<or> \<not> is_whitespace (hd s) \<and> \<not> is_whitespace (last s) \<Longrightarrow> trim (replicate n CHR '' '' @ s) = s"
proof -
  assume s: "s = [] \<or> \<not> is_whitespace (hd s) \<and> \<not> is_whitespace (last s)"
  have "is_whitespace CHR '' ''" by code_simp
  then have "dropWhile is_whitespace (replicate n CHR '' '' @ s) = s" using s by (induction n) (cases s, auto)+
  then show ?thesis using trim_no_ws [OF s] s by (simp add: trim_def) (cases s, auto)
qed

lemma show_nat_ends: "\<not> is_whitespace (hd (show_nat n))" "\<not> is_whitespace (last (show_nat n))"
  "last (show_nat n) \<noteq> CHR ''B''"
proof -
  have "is_ascii_digit (hd (show_nat n))" "is_ascii_digit (last (show_nat n))"
    using show_nat_digits [of n] by (simp_all add: list_all_iff)
  then show "\<not> is_whitespace (hd (show_nat n))" "\<not> is_whitespace (last (show_nat n))" "last (show_nat n) \<noteq> CHR ''B''"
    by (auto simp: is_ascii_digit_def is_whitespace_def)
qed

lemma trim_end_kB:
  assumes "s \<noteq> []" and "last s \<noteq> CHR ''B''"
  shows "trim_end_matches_str (Suc (Suc n)) '' kB'' (s @ '' kB'') = s"
proof -
  obtain t c where s: "s = t @ [c]" "c \<noteq> CHR ''B''" using assms by (cases s rule: rev_cases) auto
  show ?thesis using s(2) [symmetric] by (simp add: s(1))
qed

lemma meminfo_line_key:
  assumes "mem_key_ok key"
  shows "meminfo_line (key @ CHR '':'' # rest) st =
    (if key \<notin> set MEM_KEYS then st
     else case parse_u64 (trim (trim_end_matches_str (length rest) '' kB'' (trim rest))) of
            None \<Rightarrow> st
          | Some v \<Rightarrow> set_mem_key key v st)"
proof -
  have c: "split_once CHR '':'' (key @ CHR '':'' # rest) = Some (key, rest)"
    using assms(1) by (auto simp: split_once_Some mem_key_ok_def)
  have t: "trim key = key" using assms(1) by (intro trim_no_ws) (cases key, auto simp: mem_key_ok_def)
  show ?thesis unfolding meminfo_line_def c option.case prod.case t Let_def ..
qed

lemma kb_value:
  assumes "kb < 2 ^ 64" and "n = length (replicate pad CHR '' '' @ show_nat kb @ '' kB'')"
  shows "parse_u64 (trim (trim_end_matches_str n '' kB'' (trim (replicate pad CHR '' '' @ show_nat kb @ '' kB'')))) = Some (of_nat kb)"
proof -
  have "\<not> is_whitespace CHR ''B''" by code_simp
  then have t: "trim (replicate pad CHR '' '' @ show_nat kb @ '' kB'') = show_nat kb @ '' kB''"
    by (intro trim_pad) (simp add: show_nat_ends)
  have "n = Suc (Suc (n - 2))" using assms(2) by simp
  then have e: "trim_end_matches_str n '' kB'' (show_nat kb @ '' kB'') = show_nat kb"
    using trim_end_kB [of "show_nat kb" "n - 2"] show_nat_ends(3) by simp
  have "trim (show_nat kb) = show_nat kb" by (intro trim_no_ws) (simp add: show_nat_ends)
  then show ?thesis using parse_uint_show [of kb, where 'a = 64] assms(1) by (simp only: t e) simp
qed

lemma entry_line:
  assumes "mem_key_ok key" and "kb < 2 ^ 64"
  shows "meminfo_line (key @ CHR '':'' # replicate pad CHR '' '' @ show_nat kb @ '' kB'') st =
    (if key \<in> set MEM_KEYS then set_mem_key key (of_nat kb) st else st)"
  unfolding meminfo_line_key [OF assms(1)] kb_value [OF assms(2) refl] by simp

lemma meminfo_text_fold:
  "\<forall>(k, pad, kb) \<in> set es. mem_key_ok k \<and> kb < 2 ^ 64 \<Longrightarrow>
   fold meminfo_line (str_lines (meminfo_text es)) st =
     fold (\<lambda>(k, pad, kb) st. if k \<in> set MEM_KEYS then set_mem_key k (of_nat kb) st else st) es st"
proof (induction es arbitrary: st)
  case (Cons e es)
  obtain k pad kb where e: "e = (k, pad, kb)" by (cases e)
  let ?l = "k @ CHR '':'' # replicate pad CHR '' '' @ show_nat kb @ '' kB''"
  have ok: "mem_key_ok k" "kb < 2 ^ 64" using Cons.prems by (simp_all add: e)
  have "is_whitespace CHR 0x0A" by code_simp
  then have "CHR 0x0A \<notin> set k" using ok(1) by (auto simp: mem_key_ok_def)
  moreover have "CHR 0x0A \<notin> set (show_nat kb)" using show_nat_digits [of kb] by (auto simp: list_all_iff is_ascii_digit_def)
  ultimately have "CHR 0x0A \<notin> set ?l" by simp
  from str_lines_Cons [OF this, of "meminfo_text es"]
  have "str_lines (meminfo_text (e # es)) = ?l # str_lines (meminfo_text es)"
    by (simp add: meminfo_text_def meminfo_entry_def e strip_cr_def del: str_lines.simps)
  then show ?case using Cons entry_line [OF ok] by (simp add: e del: str_lines.simps)
qed (simp add: meminfo_text_def)

definition mem_field :: "string \<Rightarrow> Meminfo \<Rightarrow> u64" where
  "mem_field k m =
     (if k = ''MemTotal'' then total_bytes m else if k = ''MemAvailable'' then available_bytes m
      else if k = ''MemFree'' then free_bytes m else if k = ''SwapTotal'' then swap_total m
      else if k = ''SwapFree'' then swap_free m else swap_cached m)"

lemma mem_field_set:
  "k \<in> set MEM_KEYS \<Longrightarrow> key \<in> set MEM_KEYS \<Longrightarrow>
   mem_field k (fst (set_mem_key key v st)) = (if key = k then v * 1024 else mem_field k (fst st))"
  by (cases st) (auto simp: MEM_KEYS_def set_mem_key_def mem_field_def Let_def)

lemma fold_mem_field:
  "distinct (map fst es) \<Longrightarrow> k \<in> set MEM_KEYS \<Longrightarrow>
   mem_field k (fst (fold (\<lambda>(k, pad, kb) st. if k \<in> set MEM_KEYS then set_mem_key k (of_nat kb) st else st) es st))
     = (case map_of es k of Some (_, kb) \<Rightarrow> of_nat kb * 1024 | None \<Rightarrow> mem_field k (fst st))"
proof (induction es arbitrary: st)
  case (Cons e es)
  obtain key pad kb where e: "e = (key, pad, kb)" by (cases e)
  have "key = k \<Longrightarrow> map_of es k = None" using Cons.prems(1) by (simp add: e map_of_eq_None_iff)
  then show ?case using Cons by (auto simp: e mem_field_set split: option.split)
qed simp

lemma snd_set_mem_key: "snd (set_mem_key key v st) = (snd st \<or> key = ''MemAvailable'')"
  by (cases st) (auto simp: set_mem_key_def Let_def)

lemma fold_saw:
  "snd (fold (\<lambda>(k, pad, kb) st. if k \<in> set MEM_KEYS then set_mem_key k (of_nat kb) st else st) es st)
     = (snd st \<or> ''MemAvailable'' \<in> fst ` set es)"
proof (induction es arbitrary: st)
  case (Cons e es)
  obtain key pad kb where e: "e = (key, pad, kb)" by (cases e)
  have "snd (if key \<in> set MEM_KEYS then set_mem_key key (of_nat kb) st else st) = (snd st \<or> key = ''MemAvailable'')"
    by (simp add: snd_set_mem_key) (simp add: MEM_KEYS_def)
  then show ?case using Cons by (auto simp: e)
qed simp

text \<open>
  C0: A \<^verbatim>\<open>/proc/meminfo\<close> as the kernel prints it, with any further keys in any order and any padding, is
  read back exactly: each field is its number of kilobytes in bytes, absent fields are zero, and
  without \<^verbatim>\<open>MemAvailable\<close> the free memory stands in for it.
\<close>

theorem meminfo_round_trip:
  assumes "\<forall>(k, pad, kb) \<in> set es. mem_key_ok k \<and> kb < 2 ^ 54" and "distinct (map fst es)"
    and "map_of es ''MemTotal'' = Some (pad, kb0)" and "0 < kb0"
  shows "parse_meminfo (meminfo_text es) = Ok
     \<lparr>total_bytes = of_nat kb0 * 1024,
      available_bytes = kb_bytes es (if ''MemAvailable'' \<in> fst ` set es then ''MemAvailable'' else ''MemFree''),
      free_bytes = kb_bytes es ''MemFree'', swap_total = kb_bytes es ''SwapTotal'',
      swap_free = kb_bytes es ''SwapFree'', swap_cached = kb_bytes es ''SwapCached''\<rparr>"
proof -
  let ?step = "\<lambda>(k, pad, kb) st. if k \<in> set MEM_KEYS then set_mem_key k (of_nat kb) st else st"
  obtain out saw where f: "fold ?step es (meminfo_default, False) = (out, saw)" by fastforce
  have "\<forall>(k, pad, kb) \<in> set es. mem_key_ok k \<and> kb < 2 ^ 64" using assms(1) by fastforce
  from meminfo_text_fold [OF this] have fold: "fold meminfo_line (str_lines (meminfo_text es)) (meminfo_default, False) = (out, saw)"
    using f by simp
  have "mem_field k meminfo_default = 0" for k by (simp add: mem_field_def meminfo_default_def)
  then have field: "mem_field k out = kb_bytes es k" if "k \<in> set MEM_KEYS" for k
    using fold_mem_field [OF assms(2) that, of "(meminfo_default, False)", unfolded fst_conv] \<open>\<And>k. mem_field k meminfo_default = 0\<close>
    by (simp add: f kb_bytes_def split: option.split)
  have saw: "saw = (''MemAvailable'' \<in> fst ` set es)"
    using fold_saw [of es "(meminfo_default, False)"] by (simp add: f)
  have fields: "total_bytes out = of_nat kb0 * 1024" "available_bytes out = kb_bytes es ''MemAvailable''"
    "free_bytes out = kb_bytes es ''MemFree''" "swap_total out = kb_bytes es ''SwapTotal''"
    "swap_free out = kb_bytes es ''SwapFree''" "swap_cached out = kb_bytes es ''SwapCached''"
    using field [of "''MemTotal''"] field [of "''MemAvailable''"] field [of "''MemFree''"] field [of "''SwapTotal''"]
      field [of "''SwapFree''"] field [of "''SwapCached''"] assms(3)
    by (simp_all add: mem_field_def MEM_KEYS_def kb_bytes_def)
  have "kb0 < 2 ^ 54" using assms(1) map_of_SomeD [OF assms(3)] by fastforce
  then have "unat (of_nat kb0 * 1024 :: u64) = kb0 * 1024" by (simp add: unat_word_ariths unat_of_nat)
  then have "(of_nat kb0 * 1024 :: u64) \<noteq> 0" using assms(4) by (metis mult_is_0 unat_0 less_irrefl zero_neq_numeral)
  then have "parse_meminfo (meminfo_text es) = Ok (if saw then out else out\<lparr>available_bytes := free_bytes out\<rparr>)"
    by (simp only: parse_meminfo_def fold Let_def prod.case fields if_False)
  then show ?thesis using fields by (cases out) (simp add: saw)
qed

theorem meminfo_round_trip_witness:
  "parse_meminfo (meminfo_text [(''MemTotal'', 7, 16303428), (''MemFree'', 9, 1000), (''Cached'', 3, 77), (''SwapTotal'', 0, 8)]) = Ok
     \<lparr>total_bytes = of_nat 16303428 * 1024, available_bytes = 1024000, free_bytes = 1024000, swap_total = 8192,
      swap_free = 0, swap_cached = 0\<rparr>"
proof -
  let ?es = "[(''MemTotal'', 7 :: nat, 16303428 :: nat), (''MemFree'', 9, 1000), (''Cached'', 3, 77), (''SwapTotal'', 0, 8)]"
  have "\<forall>(k, pad, kb) \<in> set ?es. mem_key_ok k \<and> kb < 2 ^ 54"
    by (simp add: mem_key_ok_def is_whitespace_def)
  from meminfo_round_trip [OF this, of 7 16303428] show ?thesis by (simp add: kb_bytes_def)
qed

text \<open>
  The used memory never exceeds the total, nor the used swap its total.
\<close>

theorem mem_values_bounded:
  "unat (used_bytes m) \<le> unat (total_bytes m) \<and> unat (swap_used_bytes m) \<le> unat (swap_total m)"
  by (simp add: used_bytes_def swap_used_bytes_def saturating_sub_def unat_sub word_le_nat_alt)

text \<open>
  C0: The comment promises to approximate missing \<^verbatim>\<open>MemAvailable\<close> by free memory, buffers and cache; the
  code takes free memory alone, so the page cache counts as used.
\<close>

theorem mem_fallback_ignores_cache:
  "map_option used_bytes (result_ok (parse_meminfo
     ''MemTotal: 100 kB\<newline>MemFree: 10 kB\<newline>Buffers: 20 kB\<newline>Cached: 60 kB\<newline>'')) = Some 92160"
  by code_simp

text \<open>
  The daemon accepts the memory plugin with its five sensors, whatever the files hold.
\<close>

theorem mem_manifest_accepted:
  "host_init J (as_plugin J mem_init_inner (mem_sample_inner E)) p ctx
     = (Returns (Ok mem_manifest), \<lparr>mem_sysroot = ctx_sysroot (PluginCtx_from J (RPluginCtx_from J ctx)), mem_cache = None\<rparr>)"
proof -
  have "host_view mem_manifest = mem_manifest" by (simp add: host_view_def mem_manifest_def)
  then show ?thesis using mem.accepted [of J ctx p mem_manifest _ E] by (simp add: mem_init_inner_def)
qed

end
