(* ===== verification/Sensors_Io.thy ===== *)
theory Sensors_Io
  imports Sensor_Lib Plugin_Host
begin

text \<open>
  The block device and network plugins, \<^verbatim>\<open>crates/linsight-sensors/disk\<close> and \<^verbatim>\<open>net\<close>: which devices
  they list, their manifests, and the snapshots their samples are taken from. The JSON value of the
  configuration is a parameter, read by \<open>strs\<close>, the strings of the array under a key.
\<close>

section \<open>Exclusion patterns\<close>

definition trim_stars :: "string \<Rightarrow> string" where
  "trim_stars p = trim_end_matches_char (\<lambda>c. c = CHR ''*'') p"

definition matches_exclude :: "string \<Rightarrow> string list \<Rightarrow> bool" where
  "matches_exclude name patterns = list_ex (\<lambda>p. trim_stars p \<noteq> [] \<and> starts_with (trim_stars p) name) patterns"

text \<open>A descriptor of a per-device sensor of these plugins.\<close>

definition io_sensor ::
    "string \<Rightarrow> string \<Rightarrow> string \<Rightarrow> HardwareDeviceKey \<Rightarrow> string \<times> string \<times> Unit \<times> SensorKind \<times> Category \<times> fl \<times> fl option \<times> string list
     \<Rightarrow> SensorDescriptor" where
  "io_sensor prefix dev dev_id key spec =
     (case spec of (metric, name, u, kind, cat, rate, mn, tags) \<Rightarrow>
        \<lparr>d_id = metric_id prefix dev metric, d_display_name = name, d_unit = u, d_kind = kind, d_category = cat,
         d_native_rate_hz = rate, d_min = mn, d_max = None, d_device_id = Some dev_id, d_device_key = Some key, d_tags = tags\<rparr>)"

section \<open>Block devices\<close>

definition VIRTUAL_PREFIXES :: "string list" where
  "VIRTUAL_PREFIXES = [''loop'', ''dm-'', ''md'', ''zram'', ''ram'']"

definition CACHE_TTL :: nat where
  "CACHE_TTL = 50000000"

record DiskDevice =
  dd_name :: string
  dd_stat_path :: string
  dd_capacity_bytes :: u64

record BlockStat =
  bs_reads_completed :: u64
  bs_writes_completed :: u64
  bs_sectors_read :: u64
  bs_sectors_written :: u64
  bs_io_ticks :: u64

record DiskInner =
  di_sysroot :: "string option"
  di_devices :: "DiskDevice list"
  di_cache :: "(string \<times> BlockStat) list SnapshotCache option"

definition block_field :: "string list \<Rightarrow> string \<Rightarrow> nat \<Rightarrow> (u64, PluginError) result" where
  "block_field toks path idx =
     (case parse_u64 (toks ! idx) of
        Some v \<Rightarrow> Ok v
      | None \<Rightarrow> Err (PluginParse (path @ '' field '' @ show_nat (idx + 1) @ '': '' @ int_error False (toks ! idx))))"

definition read_block_stat :: "env \<Rightarrow> string \<Rightarrow> (BlockStat, PluginError) result" where
  "read_block_stat E path =
     result_bind (read_small_file 512 E path) (\<lambda>s.
       let toks = split_whitespace s; parse = block_field toks path
       in if length toks < 11
          then Err (PluginParse (path @ '': expected >=11 fields, got '' @ show_nat (length toks)))
          else result_bind (parse 0) (\<lambda>rc. result_bind (parse 4) (\<lambda>wc. result_bind (parse 2) (\<lambda>sr.
               result_bind (parse 6) (\<lambda>sw. result_bind (parse 9) (\<lambda>io.
                 Ok \<lparr>bs_reads_completed = rc, bs_writes_completed = wc, bs_sectors_read = sr,
                    bs_sectors_written = sw, bs_io_ticks = io\<rparr>))))))"

definition disk_device :: "env \<Rightarrow> string \<Rightarrow> string list \<Rightarrow> string \<Rightarrow> DiskDevice option" where
  "disk_device E dir0 extra_exclude name =
     (let stat_path = path_join (path_join dir0 name) ''stat''
      in if list_ex (\<lambda>p. starts_with p name) VIRTUAL_PREFIXES then None
         else if matches_exclude name extra_exclude then None
         else if starts_with ''nvme'' name then None
         else if \<not> env_exists E stat_path then None
         else Some \<lparr>dd_name = name, dd_stat_path = stat_path,
            dd_capacity_bytes =
              (case read_small_file 512 E (path_join (path_join dir0 name) ''size'') of
                 Ok s \<Rightarrow> (case parse_u64 (trim s) of Some sectors \<Rightarrow> saturating_mul sectors 512 | None \<Rightarrow> 0)
               | Err _ \<Rightarrow> 0)\<rparr>)"

definition disk_enumerate :: "env \<Rightarrow> string option \<Rightarrow> string list \<Rightarrow> DiskDevice list" where
  "disk_enumerate E sysroot extra_exclude =
     (let dir0 = sys_path sysroot ''sys/class/block''
      in case read_dir E dir0 of
           None \<Rightarrow> []
         | Some names \<Rightarrow> sort_key dd_name (List.map_filter (disk_device E dir0 extra_exclude) names))"

definition disk_specs :: "(string \<times> string \<times> Unit \<times> SensorKind \<times> Category \<times> fl \<times> fl option \<times> string list) list" where
  "disk_specs =
     [(''capacity_bytes'', ''Disk capacity'', Bytes, KindScalar, CatStorage, RATE_0_2, Some (Fin 0), [STATIC_TAG]),
      (''bytes_read'', ''Disk bytes read'', Bytes, KindCounter, CatStorage, Fin 2, Some (Fin 0), []),
      (''bytes_written'', ''Disk bytes written'', Bytes, KindCounter, CatStorage, Fin 2, Some (Fin 0), []),
      (''iops_read'', ''Disk read operations'', Count, KindCounter, CatStorage, Fin 2, Some (Fin 0), []),
      (''iops_written'', ''Disk write operations'', Count, KindCounter, CatStorage, Fin 2, Some (Fin 0), []),
      (''io_util_ms'', ''Disk I/O time'', Custom ''ms'', KindCounter, CatStorage, Fin 2, Some (Fin 0), [])]"

definition disk_sensors :: "DiskDevice \<Rightarrow> SensorDescriptor list" where
  "disk_sensors d = map (io_sensor ''disk.'' (dd_name d) (dd_name d) (''block:'' @ dd_name d)) disk_specs"

text \<open>The first device whose key is refused fails the whole initialisation.\<close>

fun first_bad_key :: "string \<Rightarrow> string list \<Rightarrow> (string \<times> KeyError) option" where
  "first_bad_key scheme [] = None"
| "first_bad_key scheme (n # ns) =
     (case HardwareDeviceKey_try_new (scheme @ CHR '':'' # n) of Err e \<Rightarrow> Some (n, e) | Ok _ \<Rightarrow> first_bad_key scheme ns)"

definition disk_init_inner ::
    "('j \<Rightarrow> string \<Rightarrow> string list) \<Rightarrow> env \<Rightarrow> 'j PluginCtx \<Rightarrow> DiskInner \<Rightarrow> (PluginManifest, PluginError) result exec \<times> DiskInner" where
  "disk_init_inner strs E ctx s =
     (let devices = disk_enumerate E (ctx_sysroot ctx) (strs (ctx_config ctx) ''exclude_devices'');
          s1 = s\<lparr>di_sysroot := ctx_sysroot ctx, di_devices := devices\<rparr>
      in (Returns
            (case first_bad_key ''block'' (map dd_name devices) of
               Some (n, e) \<Rightarrow> Err (PluginIo (''block '' @ n @ '' bad key: '' @ key_error_to_string e))
             | None \<Rightarrow>
                 Ok \<lparr>m_plugin_id = ''com.visorcraft.linsight.disk'', m_display_name = ''Disk I/O'', m_version = CARGO_PKG_VERSION,
                    m_sensors = concat (map disk_sensors devices),
                    m_devices = map (\<lambda>d. no_device (''block:'' @ dd_name d) HwStorage (dd_name d) (dd_name d)) devices\<rparr>), s1))"

definition disk_snapshot :: "env \<Rightarrow> DiskInner \<Rightarrow> (string \<times> BlockStat) list \<times> DiskInner" where
  "disk_snapshot E s =
     (case Option.bind (di_cache s) (SnapshotCache_get (env_now E) CACHE_TTL) of
        Some stats \<Rightarrow> (stats, s)
      | None \<Rightarrow>
          (let stats = fold (\<lambda>d m. case read_block_stat E (dd_stat_path d) of
                                     Ok st \<Rightarrow> AList.update (dd_name d) st m
                                   | Err _ \<Rightarrow> m) (di_devices s) []
           in (stats, s\<lparr>di_cache := Some (SnapshotCache_new (env_now E) stats)\<rparr>)))"

definition disk_value :: "string \<Rightarrow> BlockStat \<Rightarrow> Reading option" where
  "disk_value metric st =
     (if metric = ''bytes_read'' then Some (Counter (saturating_mul (bs_sectors_read st) 512))
      else if metric = ''bytes_written'' then Some (Counter (saturating_mul (bs_sectors_written st) 512))
      else if metric = ''iops_read'' then Some (Counter (bs_reads_completed st))
      else if metric = ''iops_written'' then Some (Counter (bs_writes_completed st))
      else if metric = ''io_util_ms'' then Some (Counter (bs_io_ticks st))
      else None)"

definition disk_sample_inner :: "env \<Rightarrow> SensorId \<Rightarrow> DiskInner \<Rightarrow> (Reading, PluginError) result exec \<times> DiskInner" where
  "disk_sample_inner E sensor s =
     (case split_metric_id ''disk.'' sensor of
        None \<Rightarrow> (Returns (Err (Unsupported sensor)), s)
      | Some (name, metric) \<Rightarrow>
          (case find (\<lambda>d. dd_name d = name) (di_devices s) of
             None \<Rightarrow> (Returns (Err (Unsupported sensor)), s)
           | Some dev \<Rightarrow>
               if metric = ''capacity_bytes'' then (Returns (Ok (Scalar (fl_of_u64 (dd_capacity_bytes dev)))), s)
               else let (stats, s1) = disk_snapshot E s
                    in (Returns (case map_of stats name of
                                   None \<Rightarrow> Err (Unsupported (''disk.'' @ name @ '' not in snapshot''))
                                 | Some st \<Rightarrow>
                                     (case disk_value metric st of Some r \<Rightarrow> Ok r | None \<Rightarrow> Err (Unsupported sensor))), s1)))"

section \<open>Network interfaces\<close>

record NetIfaceStats =
  ni_rx_bytes :: u64
  ni_tx_bytes :: u64
  ni_rx_packets :: u64
  ni_tx_packets :: u64
  ni_rx_errors :: u64
  ni_tx_errors :: u64
  ni_rx_dropped :: u64
  ni_tx_dropped :: u64
  ni_operstate :: string
  ni_speed :: int

record NetInner =
  nt_sysroot :: "string option"
  nt_interfaces :: "string list"
  nt_cache :: "(string \<times> NetIfaceStats) list SnapshotCache option"

definition net_base :: "string option \<Rightarrow> string \<Rightarrow> string" where
  "net_base sysroot iface = path_join (sys_path sysroot ''sys/class/net'') iface"

definition file_text :: "env \<Rightarrow> string \<Rightarrow> string option" where
  "file_text E p = result_ok (read_to_string E p)"

definition read_iface_pci_ids :: "env \<Rightarrow> string option \<Rightarrow> string \<Rightarrow> (u16 \<times> u16) option" where
  "read_iface_pci_ids E sysroot ifname =
     (let dev = path_join (net_base sysroot ifname) ''device''
      in Option.bind (parse_sysfs_pci_id (file_text E (path_join dev ''vendor''))) (\<lambda>v.
         Option.bind (parse_sysfs_pci_id (file_text E (path_join dev ''device''))) (\<lambda>d. Some (v, d))))"

definition net_enumerate :: "env \<Rightarrow> string option \<Rightarrow> string list \<Rightarrow> (string list, string) result" where
  "net_enumerate E sysroot exclude =
     (case env_dir E (sys_path sysroot ''sys/class/net'') of
        DirMissing \<Rightarrow> Ok []
      | DirError e \<Rightarrow> Err e
      | DirNames names \<Rightarrow>
          Ok (sort (filter (\<lambda>n. n \<noteq> ''lo'' \<and> \<not> matches_exclude n exclude) (remdups names))))"

definition net_specs :: "(string \<times> string \<times> Unit \<times> SensorKind \<times> Category \<times> fl \<times> fl option \<times> string list) list" where
  "net_specs =
     [(''rx_bytes'', ''Network received bytes'', Bytes, KindCounter, CatNetwork, Fin 2, Some (Fin 0), []),
      (''tx_bytes'', ''Network transmitted bytes'', Bytes, KindCounter, CatNetwork, Fin 2, Some (Fin 0), []),
      (''rx_packets'', ''Network received packets'', Count, KindCounter, CatNetwork, Fin 2, Some (Fin 0), []),
      (''tx_packets'', ''Network transmitted packets'', Count, KindCounter, CatNetwork, Fin 2, Some (Fin 0), []),
      (''rx_errors'', ''Network receive errors'', Count, KindCounter, CatNetwork, Fin 2, Some (Fin 0), []),
      (''tx_errors'', ''Network transmit errors'', Count, KindCounter, CatNetwork, Fin 2, Some (Fin 0), []),
      (''rx_dropped'', ''Network receive drops'', Count, KindCounter, CatNetwork, Fin 2, Some (Fin 0), []),
      (''tx_dropped'', ''Network transmit drops'', Count, KindCounter, CatNetwork, Fin 2, Some (Fin 0), []),
      (''link_state'', ''Network link state'', Custom [], KindState, CatNetwork, Fin (1 / 2), None, []),
      (''speed_mbps'', ''Network link speed'', Custom ''Mb/s'', KindScalar, CatNetwork, RATE_0_2, None, [])]"

definition net_sensors :: "string \<Rightarrow> SensorDescriptor list" where
  "net_sensors iface = map (io_sensor ''net.'' iface iface (''net:'' @ iface)) net_specs"

definition net_device :: "PciIdDb \<Rightarrow> env \<Rightarrow> string option \<Rightarrow> string \<Rightarrow> HardwareDevice" where
  "net_device db E sysroot iface =
     (let d = no_device (''net:'' @ iface) HwNetwork iface iface
      in case read_iface_pci_ids E sysroot iface of
           Some (v, p) \<Rightarrow>
             d\<lparr>dev_vendor := pci_vendor_name db v,
               dev_model := (case pci_lookup db v p of Some m \<Rightarrow> m | None \<Rightarrow> iface)\<rparr>
         | None \<Rightarrow> d)"

definition net_init_inner ::
    "('j \<Rightarrow> string \<Rightarrow> string list) \<Rightarrow> PciIdDb \<Rightarrow> env \<Rightarrow> 'j PluginCtx \<Rightarrow> NetInner \<Rightarrow>
     (PluginManifest, PluginError) result exec \<times> NetInner" where
  "net_init_inner strs db E ctx s =
     (let s1 = s\<lparr>nt_sysroot := ctx_sysroot ctx\<rparr>
      in case net_enumerate E (ctx_sysroot ctx) (strs (ctx_config ctx) ''exclude_interfaces'') of
           Err e \<Rightarrow> (Returns (Err (PluginIo e)), s1)
         | Ok ifaces \<Rightarrow>
             (Returns
                (case first_bad_key ''net'' ifaces of
                   Some (n, e) \<Rightarrow> Err (PluginIo (''net '' @ n @ '' bad key: '' @ key_error_to_string e))
                 | None \<Rightarrow>
                     Ok \<lparr>m_plugin_id = ''com.visorcraft.linsight.net'', m_display_name = ''Network'', m_version = CARGO_PKG_VERSION,
                        m_sensors = concat (map net_sensors ifaces),
                        m_devices = map (net_device db E (ctx_sysroot ctx)) ifaces\<rparr>),
              s1\<lparr>nt_interfaces := ifaces\<rparr>))"

text \<open>All eight counters, or nothing.\<close>

definition read_iface :: "env \<Rightarrow> string \<Rightarrow> NetIfaceStats option" where
  "read_iface E base =
     (let rd = (\<lambda>f. result_ok (read_int parse_u64 64 E (path_join base f)))
      in Option.bind (rd ''statistics/rx_bytes'') (\<lambda>rb. Option.bind (rd ''statistics/tx_bytes'') (\<lambda>tb.
         Option.bind (rd ''statistics/rx_packets'') (\<lambda>rp. Option.bind (rd ''statistics/tx_packets'') (\<lambda>tp.
         Option.bind (rd ''statistics/rx_errors'') (\<lambda>re. Option.bind (rd ''statistics/tx_errors'') (\<lambda>te.
         Option.bind (rd ''statistics/rx_dropped'') (\<lambda>rdr. Option.bind (rd ''statistics/tx_dropped'') (\<lambda>td.
           Some \<lparr>ni_rx_bytes = rb, ni_tx_bytes = tb, ni_rx_packets = rp, ni_tx_packets = tp, ni_rx_errors = re,
             ni_tx_errors = te, ni_rx_dropped = rdr, ni_tx_dropped = td,
             ni_operstate = (case read_small_file 64 E (path_join base ''operstate'') of Ok s \<Rightarrow> trim s | Err _ \<Rightarrow> ''unknown''),
             ni_speed = (case read_int (parse_int 64) 64 E (path_join base ''speed'') of Ok v \<Rightarrow> v | Err _ \<Rightarrow> - 1)\<rparr>)))))))))"

definition net_snapshot :: "env \<Rightarrow> NetInner \<Rightarrow> (string \<times> NetIfaceStats) list \<times> NetInner" where
  "net_snapshot E s =
     (case Option.bind (nt_cache s) (SnapshotCache_get (env_now E) CACHE_TTL) of
        Some stats \<Rightarrow> (stats, s)
      | None \<Rightarrow>
          (let stats = fold (\<lambda>i m. case read_iface E (net_base (nt_sysroot s) i) of
                                     Some st \<Rightarrow> AList.update i st m
                                   | None \<Rightarrow> m) (nt_interfaces s) []
           in (stats, s\<lparr>nt_cache := Some (SnapshotCache_new (env_now E) stats)\<rparr>)))"

definition net_value :: "string \<Rightarrow> NetIfaceStats \<Rightarrow> Reading option" where
  "net_value metric s =
     (if metric = ''rx_bytes'' then Some (Counter (ni_rx_bytes s))
      else if metric = ''tx_bytes'' then Some (Counter (ni_tx_bytes s))
      else if metric = ''rx_packets'' then Some (Counter (ni_rx_packets s))
      else if metric = ''tx_packets'' then Some (Counter (ni_tx_packets s))
      else if metric = ''rx_errors'' then Some (Counter (ni_rx_errors s))
      else if metric = ''tx_errors'' then Some (Counter (ni_tx_errors s))
      else if metric = ''rx_dropped'' then Some (Counter (ni_rx_dropped s))
      else if metric = ''tx_dropped'' then Some (Counter (ni_tx_dropped s))
      else if metric = ''link_state'' then Some (State (ni_operstate s))
      else if metric = ''speed_mbps'' then Some (Scalar (fl_of_int (ni_speed s)))
      else None)"

definition net_sample_inner :: "env \<Rightarrow> SensorId \<Rightarrow> NetInner \<Rightarrow> (Reading, PluginError) result exec \<times> NetInner" where
  "net_sample_inner E sensor s =
     (case split_metric_id ''net.'' sensor of
        None \<Rightarrow> (Returns (Err (Unsupported sensor)), s)
      | Some (iface, metric) \<Rightarrow>
          if iface \<notin> set (nt_interfaces s) then (Returns (Err (Unsupported sensor)), s)
          else let (stats, s1) = net_snapshot E s
               in (Returns (case map_of stats iface of
                              None \<Rightarrow> Err (Unsupported (''net.'' @ iface @ '' not in snapshot''))
                            | Some st \<Rightarrow>
                                (case net_value metric st of Some r \<Rightarrow> Ok r | None \<Rightarrow> Err (Unsupported sensor))), s1))"

section \<open>At the host\<close>

lemma first_bad_key_None:
  "first_bad_key scheme ns = None \<longleftrightarrow> (\<forall>n \<in> set ns. wf_key (scheme @ CHR '':'' # n))"
proof (induction ns)
  case (Cons n ns)
  then show ?case using key_try_new_Ok [of "scheme @ CHR '':'' # n"]
    by (cases "HardwareDeviceKey_try_new (scheme @ CHR '':'' # n)") auto
qed simp

lemma distinct_disks: "distinct (map dd_name (disk_enumerate E sysroot ex))"
proof -
  have "dd_name d = n" if "disk_device E dir0 ex n = Some d" for d n dir0
    using that by (auto simp: disk_device_def Let_def split: if_splits)
  then have "distinct (map dd_name (List.map_filter (disk_device E dir0 ex) ns))" if "distinct ns" for ns dir0
    using that
  proof (induction ns)
    case (Cons n ns)
    then show ?case
      by (cases "disk_device E dir0 ex n") (auto simp: map_filter_simps map_filter_def)
  qed (simp add: map_filter_simps)
  then show ?thesis
    by (auto simp: disk_enumerate_def Let_def read_dir_def distinct_map inj_on_def split: option.split dir.splits)
qed

lemma disk_metrics: "map (\<lambda>s. fst s) disk_specs = [''capacity_bytes'', ''bytes_read'', ''bytes_written'', ''iops_read'', ''iops_written'', ''io_util_ms'']"
  by (simp add: disk_specs_def)

lemma net_metrics: "map (\<lambda>s. fst s) net_specs = [''rx_bytes'', ''tx_bytes'', ''rx_packets'', ''tx_packets'', ''rx_errors'', ''tx_errors'', ''rx_dropped'', ''tx_dropped'', ''link_state'', ''speed_mbps'']"
  by (simp add: net_specs_def)

lemma metrics_ok:
  "m \<in> fst ` set disk_specs \<union> fst ` set net_specs \<Longrightarrow> id_ok m \<and> CHR ''.'' \<notin> set m"
proof -
  have "list_all (\<lambda>m. m \<noteq> [] \<and> list_all (\<lambda>c. \<not> is_whitespace c) m \<and> CHR ''.'' \<notin> set m)
      (map (\<lambda>s. fst s) disk_specs @ map (\<lambda>s. fst s) net_specs)"
    unfolding disk_metrics net_metrics by code_simp
  then show "m \<in> fst ` set disk_specs \<union> fst ` set net_specs \<Longrightarrow> id_ok m \<and> CHR ''.'' \<notin> set m"
    unfolding list_all_iff id_ok_def by auto
qed

lemma io_sensor_id: "d_id (io_sensor p n i k spec) = metric_id p n (fst spec)"
  "d_device_key (io_sensor p n i k spec) = Some k"
  by (simp_all add: io_sensor_def split: prod.split)

lemma id_ok_prefixes: "id_ok ''disk.''" "id_ok ''net.''"
proof -
  have "list_all (\<lambda>p. p \<noteq> [] \<and> list_all (\<lambda>c. \<not> is_whitespace c) p) [''disk.'', ''net.'']" by code_simp
  then show "id_ok ''disk.''" "id_ok ''net.''" by (simp_all add: id_ok_def list_all_iff)
qed

lemma disk_manifest_good:
  assumes "distinct (map dd_name ds)" and "\<forall>n \<in> set (map dd_name ds). wf_key (''block'' @ CHR '':'' # n)"
  shows "good_manifest \<lparr>m_plugin_id = a, m_display_name = b, m_version = c, m_sensors = concat (map disk_sensors ds),
    m_devices = map (\<lambda>d. no_device (''block:'' @ dd_name d) HwStorage (dd_name d) (dd_name d)) ds\<rparr>"
proof (rule good_manifest_metrics [where metrics = "map (\<lambda>s. fst s) disk_specs" and p = "''disk.''" and scheme = "''block''", OF assms(1)])
  show "distinct (map (\<lambda>s. fst s) disk_specs)" unfolding disk_metrics by simp
qed (use assms(2) metrics_ok id_ok_prefixes in \<open>auto simp: disk_sensors_def io_sensor_id no_device_def\<close>)

lemma net_manifest_good:
  assumes "distinct ifaces" and "\<forall>n \<in> set ifaces. wf_key (''net'' @ CHR '':'' # n)"
  shows "good_manifest \<lparr>m_plugin_id = a, m_display_name = b, m_version = c, m_sensors = concat (map net_sensors ifaces),
    m_devices = map (net_device db E sysroot) ifaces\<rparr>"
proof (rule good_manifest_metrics [where metrics = "map (\<lambda>s. fst s) net_specs" and p = "''net.''" and scheme = "''net''" and name = "\<lambda>i. i"])
  show "distinct (map (\<lambda>s. fst s) net_specs)" unfolding net_metrics by simp
  show "dev_key (net_device db E sysroot d) = ''net'' @ CHR '':'' # d" for d
    by (simp add: net_device_def no_device_def Let_def split: option.split)
qed (use assms metrics_ok id_ok_prefixes in \<open>auto simp: net_sensors_def io_sensor_id\<close>)

lemma disk_init_Ok:
  "disk_init_inner strs E ctx s = (Returns (Ok m), s') \<longleftrightarrow>
     first_bad_key ''block'' (map dd_name (di_devices s')) = None
     \<and> s' = s\<lparr>di_sysroot := ctx_sysroot ctx,
          di_devices := disk_enumerate E (ctx_sysroot ctx) (strs (ctx_config ctx) ''exclude_devices'')\<rparr>
     \<and> m = \<lparr>m_plugin_id = ''com.visorcraft.linsight.disk'', m_display_name = ''Disk I/O'', m_version = CARGO_PKG_VERSION,
          m_sensors = concat (map disk_sensors (di_devices s')),
          m_devices = map (\<lambda>d. no_device (''block:'' @ dd_name d) HwStorage (dd_name d) (dd_name d)) (di_devices s')\<rparr>"
  by (auto simp: disk_init_inner_def Let_def split: option.splits prod.splits)

lemma net_init_Ok:
  "net_init_inner strs db E ctx s = (Returns (Ok m), s') \<longleftrightarrow>
     net_enumerate E (ctx_sysroot ctx) (strs (ctx_config ctx) ''exclude_interfaces'') = Ok (nt_interfaces s')
     \<and> first_bad_key ''net'' (nt_interfaces s') = None
     \<and> s' = s\<lparr>nt_sysroot := ctx_sysroot ctx, nt_interfaces := nt_interfaces s'\<rparr>
     \<and> m = \<lparr>m_plugin_id = ''com.visorcraft.linsight.net'', m_display_name = ''Network'', m_version = CARGO_PKG_VERSION,
          m_sensors = concat (map net_sensors (nt_interfaces s')),
          m_devices = map (net_device db E (ctx_sysroot ctx)) (nt_interfaces s')\<rparr>"
  by (cases s; cases s') (auto simp: net_init_inner_def Let_def split: option.splits prod.splits result.splits)

lemma distinct_ifaces: "net_enumerate E sysroot ex = Ok ifaces \<Longrightarrow> distinct ifaces"
  by (auto simp: net_enumerate_def split: dir.splits)

interpretation disk: sensor_plugin "disk_init_inner strs E" "disk_sample_inner E" for strs E
proof (rule sensor_pluginI)
  show "good_manifest m" if "disk_init_inner strs E ctx p = (Returns (Ok m), p')" for ctx p m p'
  proof -
    note i = that [unfolded disk_init_Ok]
    have "distinct (map dd_name (di_devices p'))" using i by (simp add: distinct_disks)
    then show ?thesis using i disk_manifest_good by (simp add: first_bad_key_None)
  qed
qed (auto simp: disk_init_inner_def disk_sample_inner_def Let_def split: option.splits prod.splits if_splits)

interpretation net: sensor_plugin "net_init_inner strs db E" "net_sample_inner E" for strs db E
proof (rule sensor_pluginI)
  show "good_manifest m" if "net_init_inner strs db E ctx p = (Returns (Ok m), p')" for ctx p m p'
  proof -
    note i = that [unfolded net_init_Ok]
    have "distinct (nt_interfaces p')" using i distinct_ifaces by blast
    then show ?thesis using i net_manifest_good by (simp add: first_bad_key_None)
  qed
qed (auto simp: net_init_inner_def net_sample_inner_def Let_def split: option.splits prod.splits if_splits result.splits)

section \<open>Samples\<close>

abbreviation take_snapshot :: "('i \<Rightarrow> string) \<Rightarrow> ('i \<Rightarrow> 'v option) \<Rightarrow> 'i list \<Rightarrow> (string \<times> 'v) list \<Rightarrow> (string \<times> 'v) list" where
  "take_snapshot key f \<equiv> fold (\<lambda>i m. case f i of Some st \<Rightarrow> AList.update (key i) st m | None \<Rightarrow> m)"

lemma snapshot_other: "k \<notin> key ` set ks \<Longrightarrow> map_of (take_snapshot key f ks m) k = map_of m k"
  by (induction ks arbitrary: m) (auto simp: update_conv' split: option.split)

lemma snapshot_of:
  "distinct (map key ks) \<Longrightarrow> i \<in> set ks \<Longrightarrow>
   map_of (take_snapshot key f ks m) (key i) = (case f i of Some st \<Rightarrow> Some st | None \<Rightarrow> map_of m (key i))"
proof (induction ks arbitrary: m)
  case (Cons k ks)
  show ?case
  proof (cases "i = k")
    case True
    then have "key i \<notin> key ` set ks" using Cons.prems(1) by simp
    then show ?thesis using True by (auto simp: snapshot_other update_conv' split: option.split)
  next
    case False
    then have "i \<in> set ks" "key k \<noteq> key i" using Cons.prems by auto
    then show ?thesis using Cons.IH Cons.prems(1) by (auto simp: update_conv' split: option.split)
  qed
qed simp

lemma net_value_metric: "net_value m st = Some r \<Longrightarrow> m \<in> fst ` set net_specs"
  by (auto simp: net_value_def net_specs_def split: if_splits)

lemma disk_value_metric: "disk_value m st = Some r \<Longrightarrow> m \<in> fst ` set disk_specs"
  by (auto simp: disk_value_def disk_specs_def split: if_splits)

text \<open>
  C0: Every interface is measured by its own sensors: once the plugin is initialised, sampling
  \<^verbatim>\<open>net.<iface>.<metric>\<close> without a fresh snapshot gives that metric of exactly that interface as its
  files are at that moment, also when the interface's name holds dots, as VLANs do; if one of its
  counters cannot be read the sensor is unsupported.
\<close>

theorem net_sample_exact:
  assumes "net_init_inner strs db E0 ctx s0 = (Returns (Ok m), s)" and "nt_cache s = None" and "iface \<in> set (nt_interfaces s)"
  shows "case read_iface E (net_base (ctx_sysroot ctx) iface) of
       Some st \<Rightarrow> (\<forall>metric r. net_value metric st = Some r \<longrightarrow>
                     fst (net_sample_inner E (metric_id ''net.'' iface metric) s) = Returns (Ok r))
     | None \<Rightarrow> (\<forall>metric \<in> fst ` set net_specs.
                  \<exists>e. fst (net_sample_inner E (metric_id ''net.'' iface metric) s) = Returns (Err (Unsupported e)))"
proof -
  note i = assms(1) [unfolded net_init_Ok]
  have sys: "nt_sysroot s = ctx_sysroot ctx" using i by (metis NetInner.select_convs(1) NetInner.surjective NetInner.update_convs(1,2))
  have d: "distinct (map (\<lambda>i. i) (nt_interfaces s))" using i distinct_ifaces by simp blast
  let ?f = "\<lambda>i. read_iface E (net_base (nt_sysroot s) i)"
  have "map_of (take_snapshot (\<lambda>i. i) ?f (nt_interfaces s) []) iface = ?f iface"
    using snapshot_of [OF d assms(3), of ?f "[]"] by (cases "?f iface") simp_all
  then have snap: "map_of (fst (net_snapshot E s)) iface = ?f iface"
    by (simp add: net_snapshot_def assms(2) Let_def)
  have id: "split_metric_id ''net.'' (metric_id ''net.'' iface metric) = Some (iface, metric)" if "metric \<in> fst ` set net_specs" for metric
    using that metrics_ok by (intro split_metric_id) blast
  show ?thesis
  proof (cases "?f iface")
    case (Some st)
    have "fst (net_sample_inner E (metric_id ''net.'' iface metric) s) = Returns (Ok r)" if "net_value metric st = Some r" for metric r
      using id [OF net_value_metric [OF that]] snap Some assms(3) that
      by (simp add: net_sample_inner_def split_beta)
    then show ?thesis using Some by (simp add: sys)
  next
    case None
    have "\<exists>e. fst (net_sample_inner E (metric_id ''net.'' iface metric) s) = Returns (Err (Unsupported e))"
      if "metric \<in> fst ` set net_specs" for metric
      using id [OF that] snap None assms(3) by (simp add: net_sample_inner_def split_beta)
    then show ?thesis using None by (simp add: sys)
  qed
qed

definition demo_net :: env where
  "demo_net =
     \<lparr>env_file = (\<lambda>p. if p = ''/sys/class/net/eth0.7/operstate'' then FileText ''up''
                      else if starts_with ''/sys/class/net/eth0.7/statistics/'' p then FileText ''42''
                      else FileError ''not found''),
      env_dir = (\<lambda>p. if p = ''/sys/class/net'' then DirNames [''lo'', ''eth0.7''] else DirMissing),
      env_exists = (\<lambda>_. False), env_link = (\<lambda>_. None), env_now = 0\<rparr>"

definition demo_net_inner :: NetInner where
  "demo_net_inner = \<lparr>nt_sysroot = None, nt_interfaces = [], nt_cache = None\<rparr>"

lemma demo_net_init:
  obtains m where "net_init_inner (\<lambda>_ _. []) \<lparr>pci_vendors = [], pci_devices = []\<rparr> demo_net \<lparr>ctx_sysroot = None, ctx_config = ()\<rparr> demo_net_inner
    = (Returns (Ok m), demo_net_inner\<lparr>nt_interfaces := [''eth0.7'']\<rparr>)"
proof -
  have e: "net_enumerate demo_net None [] = Ok [''eth0.7'']" by code_simp
  have "HardwareDeviceKey_try_new ''net:eth0.7'' = Ok ''net:eth0.7''" by code_simp
  then have k: "first_bad_key ''net'' [''eth0.7''] = None" by simp
  show ?thesis by (rule that) (unfold net_init_Ok, simp add: e k [simplified] demo_net_inner_def)
qed

theorem net_sample_exact_witness:
  "fst (net_sample_inner demo_net ''net.eth0.7.rx_bytes'' (demo_net_inner\<lparr>nt_interfaces := [''eth0.7'']\<rparr>)) = Returns (Ok (Counter 42))"
proof -
  obtain m where i: "net_init_inner (\<lambda>_ _. []) \<lparr>pci_vendors = [], pci_devices = []\<rparr> demo_net \<lparr>ctx_sysroot = None, ctx_config = ()\<rparr> demo_net_inner
    = (Returns (Ok m), demo_net_inner\<lparr>nt_interfaces := [''eth0.7'']\<rparr>)" by (rule demo_net_init)
  have "map_option (net_value ''rx_bytes'') (read_iface demo_net (net_base None ''eth0.7'')) = Some (Some (Counter 42))"
    by code_simp
  then obtain st where st: "read_iface demo_net (net_base None ''eth0.7'') = Some st" "net_value ''rx_bytes'' st = Some (Counter 42)" by auto
  have "metric_id ''net.'' ''eth0.7'' ''rx_bytes'' = ''net.eth0.7.rx_bytes''" by code_simp
  moreover have "fst (net_sample_inner demo_net (metric_id ''net.'' ''eth0.7'' ''rx_bytes'') (demo_net_inner\<lparr>nt_interfaces := [''eth0.7'']\<rparr>)) = Returns (Ok (Counter 42))"
    using net_sample_exact [OF i, of "''eth0.7''" demo_net] st by (simp add: demo_net_inner_def)
  ultimately show ?thesis by (simp only:)
qed

text \<open>
  One interface whose name does not fit into a hardware key removes them all: the kernel allows any
  character but a slash, a colon and white space in a name, a key only some; the first such
  interface that is not excluded fails the initialisation of the plugin.
\<close>

theorem net_bad_name_fails_all:
  assumes "net_enumerate E (ctx_sysroot ctx) (strs (ctx_config ctx) ''exclude_interfaces'') = Ok ifaces"
    and "iface \<in> set ifaces" and "\<exists>c \<in> set iface. \<not> key_char_ok c"
  shows "\<exists>e. fst (net_init_inner strs db E ctx s) = Returns (Err (PluginIo e))"
proof -
  have "\<not> wf_key (''net'' @ CHR '':'' # iface)"
    using wf_key_chars [of "''net''" iface] assms(3) by auto
  then have "first_bad_key ''net'' ifaces \<noteq> None" using assms(2) by (auto simp: first_bad_key_None)
  then show ?thesis by (auto simp: net_init_inner_def assms(1))
qed

theorem net_bad_name_fails_all_witness:
  "\<exists>e. fst (net_init_inner (\<lambda>_ _. []) \<lparr>pci_vendors = [], pci_devices = []\<rparr>
          (demo_net\<lparr>env_dir := (\<lambda>_. DirNames [''eth0'', ''wg+home''])\<rparr>) \<lparr>ctx_sysroot = None, ctx_config = ()\<rparr> demo_net_inner)
       = Returns (Err (PluginIo e))"
proof (rule net_bad_name_fails_all [of _ _ _ "[''eth0'', ''wg+home'']" "''wg+home''"])
  show "net_enumerate (demo_net\<lparr>env_dir := (\<lambda>_. DirNames [''eth0'', ''wg+home''])\<rparr>)
      (ctx_sysroot \<lparr>ctx_sysroot = None, ctx_config = ()\<rparr>) [] = Ok [''eth0'', ''wg+home'']" by code_simp
  have "\<not> key_char_ok CHR ''+''" by code_simp
  then show "\<exists>c \<in> set ''wg+home''. \<not> key_char_ok c" by simp
qed simp

text \<open>
  A block device is measured by its own sensors, and its counters are those of the kernel: bytes are
  sectors of 512 bytes, saturating at the largest counter; the capacity is the one read at start.
\<close>

theorem disk_sample_exact:
  assumes "disk_init_inner strs E0 ctx s0 = (Returns (Ok m), s)" and "di_cache s = None" and "d \<in> set (di_devices s)"
  shows "fst (disk_sample_inner E (metric_id ''disk.'' (dd_name d) ''capacity_bytes'') s) = Returns (Ok (Scalar (fl_of_u64 (dd_capacity_bytes d))))
     \<and> (\<forall>st metric r. read_block_stat E (dd_stat_path d) = Ok st \<longrightarrow> disk_value metric st = Some r \<longrightarrow>
          fst (disk_sample_inner E (metric_id ''disk.'' (dd_name d) metric) s) = Returns (Ok r))"
proof -
  note i = assms(1) [unfolded disk_init_Ok]
  have dist: "distinct (map dd_name (di_devices s))" using i by (simp add: distinct_disks)
  then have fd: "find (\<lambda>d'. dd_name d' = dd_name d) (di_devices s) = Some d"
  proof -
    obtain d' where d': "find (\<lambda>d'. dd_name d' = dd_name d) (di_devices s) = Some d'"
      using assms(3) by (cases "find (\<lambda>d'. dd_name d' = dd_name d) (di_devices s)") (auto simp: find_None_iff)
    then have "d' \<in> set (di_devices s)" "dd_name d' = dd_name d" by (auto simp: find_Some_iff)
    then show ?thesis using d' dist assms(3) by (auto simp: distinct_map inj_on_def)
  qed
  let ?f = "\<lambda>d. result_ok (read_block_stat E (dd_stat_path d))"
  have eq: "(\<lambda>d m. case read_block_stat E (dd_stat_path d) of Ok st \<Rightarrow> AList.update (dd_name d) st m | Err _ \<Rightarrow> m)
      = (\<lambda>d m. case ?f d of Some st \<Rightarrow> AList.update (dd_name d) st m | None \<Rightarrow> m)"
    by (auto simp: fun_eq_iff split: result.split)
  have id: "split_metric_id ''disk.'' (metric_id ''disk.'' (dd_name d) metric) = Some (dd_name d, metric)" if "metric \<in> fst ` set disk_specs" for metric
    using that metrics_ok by (intro split_metric_id) blast
  have cap: "''capacity_bytes'' \<in> fst ` set disk_specs" by (simp add: disk_specs_def)
  have "fst (disk_sample_inner E (metric_id ''disk.'' (dd_name d) metric) s) = Returns (Ok r)"
    if st: "read_block_stat E (dd_stat_path d) = Ok st" and r: "disk_value metric st = Some r" for st metric r
  proof -
    have "map_of (fst (disk_snapshot E s)) (dd_name d) = Some st"
      using snapshot_of [OF dist assms(3), of ?f "[]"] st
      by (simp add: disk_snapshot_def assms(2) eq Let_def)
    moreover have "metric \<noteq> ''capacity_bytes''" using r by (auto simp: disk_value_def)
    ultimately show ?thesis using id [OF disk_value_metric [OF r]] fd r by (simp add: disk_sample_inner_def split_beta)
  qed
  moreover have "fst (disk_sample_inner E (metric_id ''disk.'' (dd_name d) ''capacity_bytes'') s) = Returns (Ok (Scalar (fl_of_u64 (dd_capacity_bytes d))))"
    using id [OF cap] fd by (simp add: disk_sample_inner_def)
  ultimately show ?thesis by blast
qed

end
