(* ===== verification/Sensors_Hwmon.thy ===== *)
theory Sensors_Hwmon
  imports Sensor_Lib
begin

text \<open>
  Three plugins that read small kernel files per sample: \<^verbatim>\<open>crates/linsight-sensors/hwmon\<close> (the chips under
  \<^verbatim>\<open>/sys/class/hwmon\<close>), \<^verbatim>\<open>zram\<close> (compressed swap) and \<^verbatim>\<open>containers\<close> (the scopes of Docker and Podman
  in the cgroup tree).
\<close>

section \<open>hwmon\<close>

definition CPU_MONITORED_HWMONS :: "string list" where
  "CPU_MONITORED_HWMONS = [''coretemp'', ''k10temp'', ''zenpower'']"

record HwmonSensorInfo =
  hs_id :: string
  hs_display_name :: string
  hs_unit :: Unit
  hs_kind :: SensorKind
  hs_path :: string

record HwmonDeviceInfo =
  hd_name :: string
  hd_sensors :: "HwmonSensorInfo list"

record HwmonInner =
  hw_sysroot :: "string option"
  hw_devices :: "HwmonDeviceInfo list"

definition input_type :: "string \<Rightarrow> (Unit \<times> string) option" where
  "input_type t =
     (if t = ''temp'' then Some (Celsius, ''_temp_c'')
      else if t = ''fan'' then Some (Rpm, ''_fan_rpm'')
      else if t = ''in'' then Some (Volts, ''_volts'')
      else if t = ''power'' then Some (Watts, ''_power_w'')
      else if t = ''curr'' then Some (Count, ''_amps'')
      else None)"

definition safe_label :: "string \<Rightarrow> string" where
  "safe_label label =
     map (\<lambda>c. if is_ascii_alphanumeric c \<or> c = CHR ''_'' then to_ascii_lowercase c else CHR ''_'') label"

definition discover_sensor :: "env \<Rightarrow> string \<Rightarrow> string \<Rightarrow> string \<Rightarrow> HwmonSensorInfo option" where
  "discover_sensor E hwmon_dir hwmon_name fname =
     (case rsplit_once CHR ''_'' fname of
        None \<Rightarrow> None
      | Some (stem, suffix) \<Rightarrow>
          if suffix \<noteq> ''input'' then None
          else case input_type (trim_end_matches_char is_ascii_digit stem) of
                 None \<Rightarrow> None
               | Some (u, label_suffix) \<Rightarrow>
                   (let p = path_join hwmon_dir fname
                    in if \<not> is_ok (read_to_string E p) then None
                       else let label = (case read_to_string E (path_join hwmon_dir (stem @ ''_label'')) of
                                           Ok s \<Rightarrow> trim s
                                         | Err _ \<Rightarrow> stem)
                            in Some \<lparr>hs_id = ''hwmon.'' @ hwmon_name @ ''.'' @ safe_label label @ label_suffix,
                                 hs_display_name = label, hs_unit = u, hs_kind = KindScalar, hs_path = p\<rparr>))"

definition discover_sensors :: "env \<Rightarrow> string \<Rightarrow> string \<Rightarrow> HwmonSensorInfo list" where
  "discover_sensors E hwmon_dir hwmon_name =
     (case read_dir E hwmon_dir of
        None \<Rightarrow> []
      | Some names \<Rightarrow> List.map_filter (discover_sensor E hwmon_dir hwmon_name) names)"

text \<open>First pass: the index, the name and the directory of every chip, by index.\<close>

definition hwmon_chip :: "env \<Rightarrow> string \<Rightarrow> string \<Rightarrow> (u32 \<times> string \<times> string) option" where
  "hwmon_chip E base_dir dname =
     Option.bind (Option.bind (strip_prefix ''hwmon'' dname) parse_u32) (\<lambda>idx.
       let d = path_join base_dir dname
       in case read_to_string E (path_join d ''name'') of
            Err _ \<Rightarrow> None
          | Ok n \<Rightarrow> if trim n \<in> set CPU_MONITORED_HWMONS then None else Some (idx, trim n, d))"

text \<open>Second pass: a name that was seen before gets the index appended.\<close>

fun name_chips :: "env \<Rightarrow> (u32 \<times> string \<times> string) list \<Rightarrow> string list \<Rightarrow> HwmonDeviceInfo list" where
  "name_chips E [] taken = []"
| "name_chips E ((idx, base, d) # raw) taken =
     (let name = (if base \<notin> set taken then base else base @ ''_'' @ show_nat (unat idx));
          sensors = discover_sensors E d name;
          rest = name_chips E raw (List.insert base taken)
      in if sensors = [] then rest else \<lparr>hd_name = name, hd_sensors = sensors\<rparr> # rest)"

definition enumerate_hwmon :: "env \<Rightarrow> string option \<Rightarrow> HwmonDeviceInfo list" where
  "enumerate_hwmon E sysroot =
     (let base_dir = sys_path sysroot ''sys/class/hwmon''
      in case read_dir E base_dir of
           None \<Rightarrow> []
         | Some entries \<Rightarrow> name_chips E (sort_key fst (List.map_filter (hwmon_chip E base_dir) entries)) [])"

definition hwmon_sensor :: "string \<Rightarrow> HwmonSensorInfo \<Rightarrow> SensorDescriptor" where
  "hwmon_sensor name s =
     \<lparr>d_id = hs_id s, d_display_name = hs_display_name s, d_unit = hs_unit s, d_kind = hs_kind s, d_category = CatCustom,
      d_native_rate_hz = Fin (1 / 2), d_min = None, d_max = None, d_device_id = Some name,
      d_device_key = Some (''hwmon:'' @ name), d_tags = []\<rparr>"

definition hwmon_init_inner :: "env \<Rightarrow> 'j PluginCtx \<Rightarrow> HwmonInner \<Rightarrow> (PluginManifest, PluginError) result exec \<times> HwmonInner" where
  "hwmon_init_inner E ctx s =
     (let devices = enumerate_hwmon E (ctx_sysroot ctx)
      in (Returns
            (case first_err (\<lambda>d. HardwareDeviceKey_try_new (''hwmon:'' @ hd_name d)) devices of
               Some (d, e) \<Rightarrow> Err (PluginIo (''hwmon '' @ hd_name d @ '': '' @ key_error_to_string e))
             | None \<Rightarrow>
                 Ok \<lparr>m_plugin_id = ''com.visorcraft.linsight.hwmon'', m_display_name = ''Hardware Monitor'',
                    m_version = CARGO_PKG_VERSION,
                    m_sensors = concat (map (\<lambda>d. map (hwmon_sensor (hd_name d)) (hd_sensors d)) devices),
                    m_devices = map (\<lambda>d. (no_device (''hwmon:'' @ hd_name d) HwOther (hd_name d) (hd_name d))
                                           \<lparr>dev_sensor_ids := map hs_id (hd_sensors d)\<rparr>) devices\<rparr>),
          \<lparr>hw_sysroot = ctx_sysroot ctx, hw_devices = devices\<rparr>))"

definition hwmon_scale :: "Unit \<Rightarrow> int \<Rightarrow> fl" where
  "hwmon_scale u v =
     (case u of
        Celsius \<Rightarrow> fl_div (fl_of_int v) (Fin 1000)
      | Volts \<Rightarrow> fl_div (fl_of_int v) (Fin 1000)
      | Watts \<Rightarrow> fl_div (fl_of_int v) (Fin 1000000)
      | _ \<Rightarrow> fl_of_int v)"

definition hwmon_sample_inner :: "env \<Rightarrow> SensorId \<Rightarrow> HwmonInner \<Rightarrow> (Reading, PluginError) result exec \<times> HwmonInner" where
  "hwmon_sample_inner E sensor s =
     (Returns
        (case find (\<lambda>i. hs_id i = sensor) (concat (map hd_sensors (hw_devices s))) of
           None \<Rightarrow> Err (Unsupported sensor)
         | Some i \<Rightarrow>
             result_bind (read_parsed True (parse_int 64) E (hs_path i)) (\<lambda>v. Ok (Scalar (hwmon_scale (hs_unit i) v)))), s)"

section \<open>zram\<close>

record ZramDevice =
  zr_index :: u32
  zr_sysfs_path :: string

record ZramInner =
  zr_sysroot :: "string option"
  zr_devices :: "ZramDevice list"

record MmStat =
  mm_orig_data_size :: u64
  mm_compr_data_size :: u64
  mm_mem_used_total :: u64

definition u64_or_0 :: "string \<Rightarrow> u64" where
  "u64_or_0 s = (case parse_u64 s of Some v \<Rightarrow> v | None \<Rightarrow> 0)"

definition read_mm_stat :: "env \<Rightarrow> string \<Rightarrow> (MmStat, PluginError) result" where
  "read_mm_stat E sysfs_path =
     (let path = path_join sysfs_path ''mm_stat''
      in case read_to_string E path of
           Err e \<Rightarrow> Err (PluginIo (path @ '': '' @ e))
         | Ok s \<Rightarrow>
             (let toks = split_whitespace s
              in if length toks < 3
                 then Err (PluginParse (path @ '': expected >=3 fields, got '' @ show_nat (length toks)))
                 else Ok \<lparr>mm_orig_data_size = u64_or_0 (toks ! 0), mm_compr_data_size = u64_or_0 (toks ! 1),
                        mm_mem_used_total = u64_or_0 (toks ! 2)\<rparr>))"

definition zram_device :: "env \<Rightarrow> string \<Rightarrow> string \<Rightarrow> ZramDevice option" where
  "zram_device E block_dir name =
     Option.bind (Option.bind (strip_prefix ''zram'' name) parse_u32) (\<lambda>idx.
       if env_exists E (path_join (path_join block_dir name) ''mm_stat'')
       then Some \<lparr>zr_index = idx, zr_sysfs_path = path_join block_dir name\<rparr> else None)"

definition zram_enumerate :: "env \<Rightarrow> string option \<Rightarrow> ZramDevice list" where
  "zram_enumerate E sysroot =
     (let block_dir = sys_path sysroot ''sys/class/block''
      in case read_dir E block_dir of
           None \<Rightarrow> []
         | Some names \<Rightarrow> sort_key zr_index (List.map_filter (zram_device E block_dir) names))"

definition zram_name :: "ZramDevice \<Rightarrow> string" where
  "zram_name d = show_nat (unat (zr_index d))"

definition zram_sensors :: "ZramDevice \<Rightarrow> SensorDescriptor list" where
  "zram_sensors d =
     map (\<lambda>(metric, name).
            \<lparr>d_id = metric_id ''zram.'' (zram_name d) metric, d_display_name = name, d_unit = Bytes, d_kind = KindScalar,
             d_category = CatStorage, d_native_rate_hz = Fin (1 / 2), d_min = Some (Fin 0), d_max = None,
             d_device_id = Some (zram_name d), d_device_key = Some (''zram:'' @ zram_name d), d_tags = []\<rparr>)
       [(''orig_data_bytes'', ''Original data''), (''compr_data_bytes'', ''Compressed data''),
        (''mem_used_total_bytes'', ''Memory used'')]"

definition zram_init_inner :: "env \<Rightarrow> 'j PluginCtx \<Rightarrow> ZramInner \<Rightarrow> (PluginManifest, PluginError) result exec \<times> ZramInner" where
  "zram_init_inner E ctx s =
     (let devices = zram_enumerate E (ctx_sysroot ctx)
      in (Returns
            (case first_err (\<lambda>d. HardwareDeviceKey_try_new (''zram:'' @ zram_name d)) devices of
               Some (d, e) \<Rightarrow> Err (PluginIo (''zram '' @ zram_name d @ '': '' @ key_error_to_string e))
             | None \<Rightarrow>
                 Ok \<lparr>m_plugin_id = ''com.visorcraft.linsight.zram'', m_display_name = ''ZRAM'', m_version = CARGO_PKG_VERSION,
                    m_sensors = concat (map zram_sensors devices),
                    m_devices = map (\<lambda>d. no_device (''zram:'' @ zram_name d) HwStorage (''ZRAM '' @ zram_name d) (zram_name d)) devices\<rparr>),
          \<lparr>zr_sysroot = ctx_sysroot ctx, zr_devices = devices\<rparr>))"

definition zram_value :: "string \<Rightarrow> MmStat \<Rightarrow> u64 option" where
  "zram_value metric m =
     (if metric = ''orig_data_bytes'' then Some (mm_orig_data_size m)
      else if metric = ''compr_data_bytes'' then Some (mm_compr_data_size m)
      else if metric = ''mem_used_total_bytes'' then Some (mm_mem_used_total m)
      else None)"

definition zram_sample_inner :: "env \<Rightarrow> SensorId \<Rightarrow> ZramInner \<Rightarrow> (Reading, PluginError) result exec \<times> ZramInner" where
  "zram_sample_inner E sensor s =
     (Returns
        (case split_metric_id ''zram.'' sensor of
           None \<Rightarrow> Err (Unsupported sensor)
         | Some (idx_str, metric) \<Rightarrow>
             (case Option.bind (parse_u32 idx_str) (\<lambda>idx. find (\<lambda>d. zr_index d = idx) (zr_devices s)) of
                None \<Rightarrow> Err (Unsupported sensor)
              | Some dev \<Rightarrow>
                  result_bind (read_mm_stat E (zr_sysfs_path dev)) (\<lambda>m.
                    case zram_value metric m of
                      None \<Rightarrow> Err (Unsupported sensor)
                    | Some v \<Rightarrow> Ok (Scalar (fl_of_u64 v))))), s)"

section \<open>Containers\<close>

definition MAX_CONTAINERS :: nat where
  "MAX_CONTAINERS = 512"

definition SHORT_ID_LEN :: nat where
  "SHORT_ID_LEN = 12"

definition CONTAINER_SLICES :: "string list" where
  "CONTAINER_SLICES = [''system.slice'', ''machine.slice'']"

record ContainersInner =
  ct_sysroot :: "string option"
  ct_prev_cpu :: "(string \<times> u64) list"

record ContainerEntry =
  ce_runtime :: string
  ce_short_id :: string
  ce_scope_name :: string
  ce_cgroup_path :: string

definition short_id :: "string \<Rightarrow> string" where
  "short_id i = take SHORT_ID_LEN i"

definition parse_container_scope :: "string \<Rightarrow> (string \<times> string) option" where
  "parse_container_scope dirname =
     (case strip_suffix ''.scope'' dirname of
        None \<Rightarrow> None
      | Some stem \<Rightarrow>
          (case strip_prefix ''docker-'' stem of
             Some i \<Rightarrow> Some (''docker'', short_id i)
           | None \<Rightarrow>
               (case strip_prefix ''libpod-'' stem of
                  Some rest \<Rightarrow> if starts_with ''conmon-'' rest then None else Some (''podman'', short_id rest)
                | None \<Rightarrow> None)))"

definition cgroup_root :: "string option \<Rightarrow> string" where
  "cgroup_root sysroot = sys_path sysroot ''sys/fs/cgroup''"

definition container_entry :: "env \<Rightarrow> string \<Rightarrow> string \<Rightarrow> ContainerEntry option" where
  "container_entry E slice_dir name =
     (let p = path_join slice_dir name
      in if \<not> is_dir E p then None
         else map_option (\<lambda>(rt, sid). \<lparr>ce_runtime = rt, ce_short_id = sid, ce_scope_name = name, ce_cgroup_path = p\<rparr>)
                (parse_container_scope name))"

definition enumerate_containers :: "env \<Rightarrow> string \<Rightarrow> nat \<Rightarrow> ContainerEntry list" where
  "enumerate_containers E base_dir max_count =
     take max_count (concat (map (\<lambda>slice.
       let d = path_join base_dir slice
       in case read_dir E d of None \<Rightarrow> [] | Some names \<Rightarrow> List.map_filter (container_entry E d) names) CONTAINER_SLICES))"

primrec usage_usec :: "string list \<Rightarrow> u64 option" where
  "usage_usec [] = Some 0"
| "usage_usec (l # ls) =
     (case strip_prefix ''usage_usec '' l of Some v \<Rightarrow> parse_u64 (trim v) | None \<Rightarrow> usage_usec ls)"

text \<open>The three reads with their \<^verbatim>\<open>unwrap_or(0)\<close>.\<close>

definition or_0 :: "u64 option \<Rightarrow> u64" where
  "or_0 v = (case v of Some x \<Rightarrow> x | None \<Rightarrow> 0)"

definition read_cpu_usage :: "env \<Rightarrow> string \<Rightarrow> u64 option" where
  "read_cpu_usage E p = Option.bind (result_ok (read_to_string E (path_join p ''cpu.stat''))) (\<lambda>s. usage_usec (str_lines s))"

definition read_u64_file :: "env \<Rightarrow> string \<Rightarrow> u64 option" where
  "read_u64_file E p = Option.bind (result_ok (read_to_string E p)) (\<lambda>s. parse_u64 (trim s))"

definition container_row :: "env \<Rightarrow> (string \<times> u64) list \<Rightarrow> ContainerEntry \<Rightarrow> TableRow" where
  "container_row E prev c =
     (let cpu = or_0 (read_cpu_usage E (ce_cgroup_path c));
          delta = (if prev = [] then 0 else saturating_sub cpu (or_0 (map_of prev (ce_scope_name c))))
      in TableRow [CellText (ce_short_id c), CellText (ce_runtime c), CellNumber (fl_of_u64 delta),
           CellBytes (or_0 (read_u64_file E (path_join (ce_cgroup_path c) ''memory.current''))),
           CellNumber (fl_of_u64 (or_0 (read_u64_file E (path_join (ce_cgroup_path c) ''pids.current''))))])"

definition row_key :: "TableRow \<Rightarrow> string" where
  "row_key r = (case cells r of CellText t # _ \<Rightarrow> t | _ \<Rightarrow> [])"

definition containers_sample_inner :: "env \<Rightarrow> SensorId \<Rightarrow> ContainersInner \<Rightarrow> (Reading, PluginError) result exec \<times> ContainersInner" where
  "containers_sample_inner E sensor s =
     (if sensor \<noteq> ''containers.list'' then (Returns (Err (Unsupported sensor)), s)
      else let cs = enumerate_containers E (cgroup_root (ct_sysroot s)) MAX_CONTAINERS
           in (Returns (Ok (Table (sort_key row_key (map (container_row E (ct_prev_cpu s)) cs)))),
               s\<lparr>ct_prev_cpu := fold (\<lambda>c. AList.update (ce_scope_name c) (or_0 (read_cpu_usage E (ce_cgroup_path c)))) cs []\<rparr>))"

definition containers_manifest :: "bool \<Rightarrow> PluginManifest" where
  "containers_manifest any_slice =
     \<lparr>m_plugin_id = ''com.visorcraft.linsight.containers'', m_display_name = ''Containers'', m_version = CARGO_PKG_VERSION,
      m_sensors =
        (if any_slice then
           [\<lparr>d_id = ''containers.list'', d_display_name = ''Containers (Docker / Podman)'', d_unit = Count, d_kind = KindTable,
             d_category = CatCustom, d_native_rate_hz = RATE_0_2, d_min = None, d_max = None, d_device_id = None,
             d_device_key = None, d_tags = []\<rparr>]
         else []),
      m_devices =
        (if any_slice then
           [(no_device ''system:containers'' HwOther ''Containers'' ''containers'')
              \<lparr>dev_plugin_id := ''com.visorcraft.linsight.containers'', dev_sensor_ids := [''containers.list'']\<rparr>]
         else [])\<rparr>"

definition containers_init_inner :: "env \<Rightarrow> 'j PluginCtx \<Rightarrow> ContainersInner \<Rightarrow> (PluginManifest, PluginError) result exec \<times> ContainersInner" where
  "containers_init_inner E ctx s =
     (Returns (Ok (containers_manifest (list_ex (\<lambda>sl. is_dir E (path_join (cgroup_root (ctx_sysroot ctx)) sl)) CONTAINER_SLICES))),
      s\<lparr>ct_sysroot := ctx_sysroot ctx\<rparr>)"

lemma containers_manifest_good: "good_manifest (containers_manifest b)"
proof -
  have "HardwareDeviceKey_try_new ''system:containers'' = Ok ''system:containers''" by code_simp
  then have "wf_key ''system:containers''" by (simp only: key_try_new_Ok)
  moreover have "list_all (\<lambda>p. p \<noteq> [] \<and> list_all (\<lambda>c. \<not> is_whitespace c) p) [''containers.list'']" by code_simp
  then have "id_ok ''containers.list''" by (simp add: id_ok_def list_all_iff)
  ultimately show ?thesis by (intro good_manifestI) (auto simp: containers_manifest_def no_device_def split: if_splits)
qed

interpretation containers: sensor_plugin "containers_init_inner E" "containers_sample_inner E" for E
  by (rule sensor_pluginI)
    (auto simp: containers_init_inner_def containers_sample_inner_def containers_manifest_good Let_def)

text \<open>
  A scope is taken for a container exactly when it is a Docker or Podman scope that is not a conmon
  monitor; it is listed under the first twelve characters of its id.
\<close>

theorem container_scopes:
  "parse_container_scope d = Some (rt, sid) \<longleftrightarrow>
     (\<exists>i. sid = take 12 i \<and> (rt = ''docker'' \<and> d = ''docker-'' @ i @ ''.scope''
        \<or> rt = ''podman'' \<and> d = ''libpod-'' @ i @ ''.scope'' \<and> \<not> starts_with ''conmon-'' i))"
proof (cases "strip_suffix ''.scope'' d")
  case None
  then have n: "d \<noteq> p @ i @ ''.scope''" for p i using strip_suffix_Some [of "''.scope''" d "p @ i"] by auto
  have "parse_container_scope d = None" using None by (simp add: parse_container_scope_def)
  then show ?thesis using n [of "''docker-''"] n [of "''libpod-''"] by (simp only: not_Some_eq) blast
next
  case (Some stem)
  then have d: "d = stem @ ''.scope''" by (simp add: strip_suffix_Some)
  have stem: "d = p @ i @ ''.scope'' \<longleftrightarrow> strip_prefix p stem = Some i" for p i by (auto simp: d strip_prefix_Some)
  have "strip_prefix ''libpod-'' stem = None" if "strip_prefix ''docker-'' stem = Some i" for i
    using that by (auto simp: strip_prefix_Some)
  then show ?thesis
    unfolding stem
    by (cases "strip_prefix ''docker-'' stem"; cases "strip_prefix ''libpod-'' stem")
      (auto simp: parse_container_scope_def Some short_id_def SHORT_ID_LEN_def simp del: append.simps)
qed

section \<open>Defects\<close>

definition demo_chip :: env where
  "demo_chip =
     \<lparr>env_file = (\<lambda>p. if p = ''/sys/class/hwmon/hwmon0/name'' then FileText ''nct6795''
                      else if p = ''/sys/class/hwmon/hwmon0/in0_label'' then FileText ''+12V''
                      else if p = ''/sys/class/hwmon/hwmon0/in1_label'' then FileText ''-12V''
                      else if p = ''/sys/class/hwmon/hwmon0/in0_input'' then FileText ''12000''
                      else if p = ''/sys/class/hwmon/hwmon0/in1_input'' then FileText ''-11900''
                      else if p = ''/sys/class/hwmon/hwmon0/curr1_input'' then FileText ''1500''
                      else FileError ''not found''),
      env_dir = (\<lambda>p. if p = ''/sys/class/hwmon'' then DirNames [''hwmon0'']
                     else if p = ''/sys/class/hwmon/hwmon0'' then DirNames [''in0_input'', ''in1_input'', ''curr1_input'']
                     else DirMissing),
      env_exists = (\<lambda>_. True), env_link = (\<lambda>_. None), env_now = 0\<rparr>"

text \<open>
  On a board with a positive and a negative rail both rails get the id of the first, and a current is
  reported in milliamperes by a sensor whose id says amperes.
\<close>

theorem hwmon_rails_collide:
  "map hs_id (concat (map hd_sensors (enumerate_hwmon demo_chip None)))
     = [''hwmon.nct6795._12v_volts'', ''hwmon.nct6795._12v_volts'', ''hwmon.nct6795.curr1_amps'']
   \<and> fst (hwmon_sample_inner demo_chip ''hwmon.nct6795.curr1_amps''
        \<lparr>hw_sysroot = None, hw_devices = enumerate_hwmon demo_chip None\<rparr>) = Returns (Ok (Scalar (fl_of_int 1500)))"
proof -
  have ids: "map hs_id (concat (map hd_sensors (enumerate_hwmon demo_chip None)))
     = [''hwmon.nct6795._12v_volts'', ''hwmon.nct6795._12v_volts'', ''hwmon.nct6795.curr1_amps'']" by code_simp
  have "map_option (\<lambda>i. (hs_path i, hs_unit i)) (find (\<lambda>i. hs_id i = ''hwmon.nct6795.curr1_amps'')
      (concat (map hd_sensors (enumerate_hwmon demo_chip None)))) = Some (''/sys/class/hwmon/hwmon0/curr1_input'', Count)"
    by code_simp
  then obtain i where i: "find (\<lambda>i. hs_id i = ''hwmon.nct6795.curr1_amps'') (concat (map hd_sensors (enumerate_hwmon demo_chip None))) = Some i"
    "hs_path i = ''/sys/class/hwmon/hwmon0/curr1_input''" "hs_unit i = Count" by auto
  have "read_to_string demo_chip ''/sys/class/hwmon/hwmon0/curr1_input'' = Ok ''1500''" by code_simp
  moreover have "parse_int 64 (trim ''1500'') = Some 1500" by code_simp
  ultimately show ?thesis using ids i by (simp add: hwmon_sample_inner_def read_parsed_def hwmon_scale_def)
qed

end
