(* ===== verification/Sensors_Proc.thy ===== *)
theory Sensors_Proc
  imports Sensor_Lib
begin

text \<open>
  Two plugins over \<^verbatim>\<open>/proc\<close>: the process table (\<^verbatim>\<open>crates/linsight-sensors/proc\<close>) and the socket counts
  (\<^verbatim>\<open>crates/linsight-sensors/sock\<close>). A read of one sample happens at one moment. The process plugin
  slices a line of \<^verbatim>\<open>stat\<close> without looking, so it may panic; its mutex is then poisoned and every later
  sample panics as well. The model keeps that, and the lemmas say for which files it cannot happen.
\<close>

section \<open>Processes\<close>

definition MAX_PIDS_PER_SAMPLE :: nat where
  "MAX_PIDS_PER_SAMPLE = 4096"

record ProcInner =
  pr_sysroot :: "string option"
  pr_prev :: "(u32 \<times> u64 \<times> u64) list option"
  pr_prev_total_jiffies :: u64
  pr_num_cpus :: u32
  pr_poisoned :: bool

record ProcessInfo =
  pi_pid :: u32
  pi_comm :: string
  pi_cpu_pct :: fl
  pi_mem_pct :: fl
  pi_rss_bytes :: u64
  pi_threads :: u64
  pi_state :: string
  pi_cpu_jiffies :: u64

text \<open>The first line with a prefix, without it.\<close>

fun line_after :: "string \<Rightarrow> string list \<Rightarrow> string option" where
  "line_after p [] = None"
| "line_after p (l # ls) = (case strip_prefix p l of Some r \<Rightarrow> Some r | None \<Rightarrow> line_after p ls)"

definition read_text :: "env \<Rightarrow> string \<Rightarrow> (string, PluginError) result" where
  "read_text E path =
     (case read_to_string E path of Err e \<Rightarrow> Err (PluginIo (path @ '': '' @ e)) | Ok s \<Rightarrow> Ok s)"

definition total_cpu_jiffies :: "env \<Rightarrow> string option \<Rightarrow> (u64, PluginError) result" where
  "total_cpu_jiffies E sysroot =
     (let path = sys_path sysroot ''proc/stat''
      in result_bind (read_text E path) (\<lambda>s.
           case line_after ''cpu '' (str_lines s) of
             Some rest \<Rightarrow> Ok (sum_list (List.map_filter parse_u64 (take 8 (split_whitespace rest))))
           | None \<Rightarrow> Err (PluginParse (path @ '': no cpu line''))))"

definition is_cpu_line :: "string \<Rightarrow> bool" where
  "is_cpu_line l = (starts_with ''cpu'' l \<and> 3 < length l \<and> is_ascii_digit (l ! 3))"

definition num_cpus :: "env \<Rightarrow> string option \<Rightarrow> (u32, PluginError) result" where
  "num_cpus E sysroot =
     result_bind (read_text E (sys_path sysroot ''proc/stat'')) (\<lambda>s.
       Ok (max 1 (of_nat (length (filter is_cpu_line (str_lines s))))))"

definition pid_of_name :: "string \<Rightarrow> u32 option" where
  "pid_of_name name = (case parse_u32 name of Some p \<Rightarrow> if p = 0 then None else Some p | None \<Rightarrow> None)"

definition enumerate_pids :: "env \<Rightarrow> string \<Rightarrow> nat \<Rightarrow> u32 list" where
  "enumerate_pids E proc_root max_count =
     (case read_dir E proc_root of
        None \<Rightarrow> []
      | Some names \<Rightarrow> sort (take max_count (List.map_filter pid_of_name names)))"

definition extract_pid_from_stat :: "string \<Rightarrow> (u32, PluginError) result" where
  "extract_pid_from_stat content =
     (case split_once CHR '' '' content of
        None \<Rightarrow> Err (PluginParse ''stat: no space'')
      | Some (a, _) \<Rightarrow> (case parse_u32 a of Some p \<Rightarrow> Ok p | None \<Rightarrow> Err (PluginParse ''stat: bad pid'')))"

definition total_ram_kb :: "env \<Rightarrow> string \<Rightarrow> (u64, PluginError) result" where
  "total_ram_kb E proc_dir =
     result_bind (read_text E (path_join proc_dir ''meminfo'')) (\<lambda>s.
       case line_after ''MemTotal:'' (str_lines s) of
         None \<Rightarrow> Err (PluginParse ''MemTotal not found'')
       | Some v \<Rightarrow>
           (case split_whitespace v of
              [] \<Rightarrow> Err (PluginParse ''MemTotal parse'')
            | w # _ \<Rightarrow> (case parse_u64 w of Some n \<Rightarrow> Ok n | None \<Rightarrow> Err (PluginParse ''MemTotal parse''))))"

text \<open>
  The name between the first \<^verbatim>\<open>(\<close> and the last \<^verbatim>\<open>)\<close>, and the text from two bytes after the last \<^verbatim>\<open>)\<close>. A slice
  whose start is after its end, past the text or inside a character panics.
\<close>

definition slice_stat :: "string \<Rightarrow> (string \<times> string, PluginError) result exec" where
  "slice_stat content =
     (case rsplit_once CHR '')'' content of
        None \<Rightarrow> Returns (Err (PluginParse ''no closing paren in stat''))
      | Some (before, after) \<Rightarrow>
          if CHR ''('' \<notin> set content then Returns (Err (PluginParse ''no opening paren in stat''))
          else (case split_once CHR ''('' before of
                  None \<Rightarrow> Panics
                | Some (_, comm) \<Rightarrow>
                    (case after of
                       [] \<Rightarrow> Panics
                     | c # rest \<Rightarrow> if char_code c < 128 then Returns (Ok (comm, rest)) else Panics)))"

definition status_line :: "string \<Rightarrow> u64 \<times> u64 \<Rightarrow> u64 \<times> u64" where
  "status_line line acc =
     (case strip_prefix ''VmRSS:'' line of
        Some v \<Rightarrow> (case split_whitespace v of
                     [] \<Rightarrow> 0
                   | w # _ \<Rightarrow> (case parse_u64 w of Some n \<Rightarrow> n | None \<Rightarrow> 0), snd acc)
      | None \<Rightarrow>
          (case strip_prefix ''Threads:'' line of
             Some v \<Rightarrow> (fst acc, case parse_u64 (trim v) of Some n \<Rightarrow> n | None \<Rightarrow> 0)
           | None \<Rightarrow> acc))"

definition u64_or_zero :: "string \<Rightarrow> u64" where
  "u64_or_zero s = (case parse_u64 s of Some n \<Rightarrow> n | None \<Rightarrow> 0)"

definition read_process_info :: "env \<Rightarrow> string \<Rightarrow> string \<Rightarrow> u64 \<Rightarrow> (ProcessInfo, PluginError) result exec" where
  "read_process_info E stat_path status_path mem_total_kb =
     (case read_to_string E stat_path of
        Err _ \<Rightarrow> Returns (Err (Transient ''process gone''))
      | Ok content \<Rightarrow>
          exec_bind (slice_stat content) (\<lambda>r. Returns (result_bind r (\<lambda>(comm, rest).
            let toks = split_whitespace rest
            in if length toks < 15 then Err (PluginParse ''stat: too few fields'')
               else (case read_to_string E status_path of
                       Err _ \<Rightarrow> Err (Transient ''process gone'')
                     | Ok status \<Rightarrow>
                         (let (rss_kb, threads) = fold status_line (str_lines status) (0, 0)
                          in result_bind (extract_pid_from_stat content) (\<lambda>pid.
                               Ok \<lparr>pi_pid = pid, pi_comm = comm, pi_cpu_pct = Fin 0,
                                  pi_mem_pct = (if 0 < mem_total_kb
                                                then fl_mul (fl_div (fl_of_u64 rss_kb) (fl_of_u64 mem_total_kb)) (Fin 100)
                                                else Fin 0),
                                  pi_rss_bytes = rss_kb * 1024, pi_threads = threads, pi_state = toks ! 0,
                                  pi_cpu_jiffies = u64_or_zero (toks ! 11) + u64_or_zero (toks ! 12)\<rparr>)))))))"

text \<open>The share of one process since the last sample, in percent of one CPU.\<close>

definition cpu_pct_since :: "u32 \<Rightarrow> u64 \<Rightarrow> u64 \<Rightarrow> u64 \<times> u64 \<Rightarrow> fl" where
  "cpu_pct_since cpus cpu_jiffies total_jiffies p =
     (let delta_jiffies = saturating_sub cpu_jiffies (fst p); delta_total = saturating_sub total_jiffies (snd p)
      in if delta_total = 0 then Fin 0
         else fl_mul (fl_mul (fl_div (fl_of_u64 delta_jiffies) (fl_of_u64 delta_total)) (Fin 100)) (fl_of_int (uint cpus)))"

definition proc_file :: "string \<Rightarrow> u32 \<Rightarrow> string \<Rightarrow> string" where
  "proc_file proc_root pid name = path_join (path_join proc_root (show_nat (unat pid))) name"

fun proc_loop :: "env \<Rightarrow> string \<Rightarrow> u64 \<Rightarrow> u64 \<Rightarrow> ProcInner \<Rightarrow> u32 list \<Rightarrow> ProcessInfo list exec" where
  "proc_loop E proc_root mem_total jiffies s [] = Returns []"
| "proc_loop E proc_root mem_total jiffies s (pid # pids) =
     exec_bind (read_process_info E (proc_file proc_root pid ''stat'') (proc_file proc_root pid ''status'') mem_total) (\<lambda>r.
       exec_bind (proc_loop E proc_root mem_total jiffies s pids) (\<lambda>procs. Returns
         (case r of
            Err _ \<Rightarrow> procs
          | Ok info \<Rightarrow>
              info\<lparr>pi_pid := pid,
                   pi_cpu_pct := (case Option.bind (pr_prev s) (\<lambda>m. map_of m pid) of
                                    Some p \<Rightarrow> cpu_pct_since (pr_num_cpus s) (pi_cpu_jiffies info) jiffies p
                                  | None \<Rightarrow> Fin 0)\<rparr> # procs)))"

text \<open>\<^verbatim>\<open>sort_by\<close> is stable; the comparison is by share, the largest first.\<close>

fun insert_desc :: "ProcessInfo \<Rightarrow> ProcessInfo list \<Rightarrow> ProcessInfo list" where
  "insert_desc p [] = [p]"
| "insert_desc p (q # qs) = (if fl_lt (pi_cpu_pct p) (pi_cpu_pct q) then q # insert_desc p qs else p # q # qs)"

definition sort_desc :: "ProcessInfo list \<Rightarrow> ProcessInfo list" where
  "sort_desc ps = foldr insert_desc ps []"

definition proc_row :: "ProcessInfo \<Rightarrow> TableRow" where
  "proc_row p =
     TableRow [CellNumber (fl_of_int (uint (pi_pid p))), CellText (pi_comm p), CellNumber (pi_cpu_pct p),
       CellNumber (pi_mem_pct p), CellBytes (pi_rss_bytes p), CellNumber (fl_of_u64 (pi_threads p)), CellText (pi_state p)]"

definition proc_sample_inner :: "env \<Rightarrow> SensorId \<Rightarrow> ProcInner \<Rightarrow> (Reading, PluginError) result exec \<times> ProcInner" where
  "proc_sample_inner E sensor s =
     (if sensor \<noteq> ''proc.list'' then (Returns (Err (Unsupported sensor)), s)
      else if pr_poisoned s then (Panics, s)
      else (case total_cpu_jiffies E (pr_sysroot s) of
              Err e \<Rightarrow> (Returns (Err e), s)
            | Ok jiffies \<Rightarrow>
                (let proc_root = sys_path (pr_sysroot s) ''proc''; pids = enumerate_pids E proc_root MAX_PIDS_PER_SAMPLE
                 in case total_ram_kb E proc_root of
                      Err e \<Rightarrow> (Returns (Err e), s)
                    | Ok mem_total \<Rightarrow>
                        (case proc_loop E proc_root mem_total jiffies s pids of
                           Panics \<Rightarrow> (Panics, s\<lparr>pr_poisoned := True\<rparr>)
                         | Returns procs \<Rightarrow>
                             (Returns (Ok (Table (map proc_row (sort_desc procs)))),
                              s\<lparr>pr_prev := Some (fold (\<lambda>p. AList.update (pi_pid p) (pi_cpu_jiffies p, jiffies)) procs []),
                                pr_prev_total_jiffies := jiffies\<rparr>)))))"

definition proc_init_inner :: "env \<Rightarrow> 'j PluginCtx \<Rightarrow> ProcInner \<Rightarrow> (PluginManifest, PluginError) result exec \<times> ProcInner" where
  "proc_init_inner E ctx s =
     (if pr_poisoned s then (Panics, s)
      else (Returns (Ok \<lparr>m_plugin_id = ''com.visorcraft.linsight.proc'', m_display_name = ''Process List'',
              m_version = CARGO_PKG_VERSION,
              m_sensors = [\<lparr>d_id = ''proc.list'', d_display_name = ''Process list'', d_unit = Count, d_kind = KindTable,
                 d_category = CatCustom, d_native_rate_hz = RATE_0_2, d_min = None, d_max = None, d_device_id = None,
                 d_device_key = None, d_tags = []\<rparr>],
              m_devices = []\<rparr>),
            s\<lparr>pr_sysroot := ctx_sysroot ctx, pr_prev := None, pr_prev_total_jiffies := 0,
              pr_num_cpus := max 1 (case num_cpus E (ctx_sysroot ctx) of Ok n \<Rightarrow> n | Err _ \<Rightarrow> 1)\<rparr>))"

section \<open>The line of a process\<close>

lemma split_once_first: "CHR ''('' \<notin> set a \<Longrightarrow> split_once CHR ''('' (a @ CHR ''('' # b) = Some (a, b)"
  by (simp add: split_once_Some)

lemma slice_stat_line:
  assumes "CHR '')'' \<notin> set rest" and "CHR ''('' \<notin> set a"
  shows "slice_stat (a @ CHR ''('' # comm @ CHR '')'' # CHR '' '' # rest) = Returns (Ok (comm, rest))"
proof -
  have "rsplit_once CHR '')'' ((a @ CHR ''('' # comm) @ CHR '')'' # CHR '' '' # rest) = Some (a @ CHR ''('' # comm, CHR '' '' # rest)"
    by (subst rsplit_once_Some) (use assms(1) in simp)
  then show ?thesis
    using split_once_first [OF assms(2)] by (simp add: slice_stat_def)
qed

lemma show_nat_free: "\<not> is_ascii_digit c \<Longrightarrow> c \<notin> set (show_nat n)"
  using show_nat_digits [of n] by (auto simp: list_all_iff)

text \<open>
  C31: The line the kernel writes for a process, whatever its name holds (spaces, parentheses, text that
  looks like fields), is read back: the name, the state and the processor time are the ones written.
\<close>

theorem proc_stat_round_trip:
  assumes "read_to_string E stat_path =
      Ok (show_nat pid @ '' ('' @ comm @ '') '' @ rest)" and "pid < 2 ^ 32"
    and "CHR '')'' \<notin> set rest" and "15 \<le> length (split_whitespace rest)"
    and "read_to_string E status_path = Ok status"
  shows "\<exists>info. read_process_info E stat_path status_path mem = Returns (Ok info)
     \<and> unat (pi_pid info) = pid \<and> pi_comm info = comm \<and> pi_state info = split_whitespace rest ! 0
     \<and> pi_cpu_jiffies info = u64_or_zero (split_whitespace rest ! 11) + u64_or_zero (split_whitespace rest ! 12)"
proof -
  have no: "CHR ''('' \<notin> set (show_nat pid @ '' '')" "CHR '' '' \<notin> set (show_nat pid)"
    using show_nat_free [of "CHR ''(''"] show_nat_free [of "CHR '' ''"] by (auto simp: is_ascii_digit_def)
  have sl: "slice_stat (show_nat pid @ '' ('' @ comm @ '') '' @ rest) = Returns (Ok (comm, rest))"
    using slice_stat_line [OF assms(3) no(1), of comm] by simp
  have "split_once CHR '' '' (show_nat pid @ CHR '' '' # b) = Some (show_nat pid, b)" for b
    using no(2) by (simp add: split_once_Some)
  then have ex: "extract_pid_from_stat (show_nat pid @ '' ('' @ comm @ '') '' @ rest) = Ok (of_nat pid)"
    using parse_uint_show [where 'a = 32, of pid] assms(2) by (simp add: extract_pid_from_stat_def)
  show ?thesis
    using assms sl ex by (auto simp: read_process_info_def Let_def unat_of_nat take_bit_nat_eq_self split: prod.split)
qed


section \<open>The process plugin at the host\<close>

text \<open>Files the kernel may show: unreadable, or a line of the shape above.\<close>

definition kernel_stat :: "env \<Rightarrow> string \<Rightarrow> bool" where
  "kernel_stat E path \<longleftrightarrow>
     (\<forall>s. read_to_string E path = Ok s \<longrightarrow>
        (\<exists>pid comm rest. s = show_nat pid @ '' ('' @ comm @ '') '' @ rest \<and> CHR '')'' \<notin> set rest))"

lemma kernel_statI:
  "read_to_string E p = Ok (show_nat pid @ '' ('' @ comm @ '') '' @ rest) \<Longrightarrow> CHR '')'' \<notin> set rest \<Longrightarrow> kernel_stat E p"
  unfolding kernel_stat_def by (metis result.inject(1))

lemma kernel_stat_returns: "kernel_stat E p \<Longrightarrow> read_process_info E p q m \<noteq> Panics"
proof (cases "read_to_string E p")
  case (Ok s)
  assume "kernel_stat E p"
  then obtain pid comm rest where s: "s = show_nat pid @ '' ('' @ comm @ '') '' @ rest" and r: "CHR '')'' \<notin> set rest"
    using Ok by (auto simp: kernel_stat_def)
  have "CHR ''('' \<notin> set (show_nat pid @ '' '')"
    using show_nat_free [of "CHR ''(''"] by (auto simp: is_ascii_digit_def)
  from slice_stat_line [OF r this, of comm] have "slice_stat s = Returns (Ok (comm, rest))" using s by simp
  then show ?thesis by (simp add: read_process_info_def Ok)
qed (simp add: read_process_info_def)

lemma proc_loop_returns:
  "\<forall>pid \<in> set pids. kernel_stat E (proc_file proc_root pid ''stat'') \<Longrightarrow> proc_loop E proc_root m t s pids \<noteq> Panics"
proof (induction pids)
  case (Cons pid pids)
  then obtain x y where "proc_loop E proc_root m t s pids = Returns x"
      "read_process_info E (proc_file proc_root pid ''stat'') (proc_file proc_root pid ''status'') m = Returns y"
    using kernel_stat_returns by (metis exec.exhaust list.set_intros)
  then show ?case by simp
qed simp

text \<open>
  With files as the kernel writes them no sample of the process list panics, and the plugin stays usable.
\<close>

theorem proc_kernel_never_panics:
  assumes "\<not> pr_poisoned s" and "\<forall>pid \<in> set (enumerate_pids E (sys_path (pr_sysroot s) ''proc'') MAX_PIDS_PER_SAMPLE).
      kernel_stat E (proc_file (sys_path (pr_sysroot s) ''proc'') pid ''stat'')"
  shows "fst (proc_sample_inner E i s) \<noteq> Panics \<and> \<not> pr_poisoned (snd (proc_sample_inner E i s))"
proof -
  have "proc_loop E (sys_path (pr_sysroot s) ''proc'') m t s
      (enumerate_pids E (sys_path (pr_sysroot s) ''proc'') MAX_PIDS_PER_SAMPLE) \<noteq> Panics" for m t
    using assms(2) by (rule proc_loop_returns)
  then show ?thesis
    using assms(1) by (auto simp: proc_sample_inner_def Let_def split: result.split exec.split)
qed

text \<open>
  One line that ends at its closing parenthesis is enough to lose the plugin: the sample panics, the
  mutex is poisoned, and from then on every sample of the list panics, whatever the files hold.
\<close>

theorem proc_panic_is_final:
  assumes "proc_sample_inner E i s = (Panics, s')"
  shows "proc_sample_inner E' ''proc.list'' s' = (Panics, s') \<and> fst (proc_init_inner E' ctx s') = Panics"
  using assms
  by (auto simp: proc_sample_inner_def proc_init_inner_def Let_def split: if_splits result.splits exec.splits)

section \<open>The table\<close>

lemma insert_desc_set [simp]: "set (insert_desc p ps) = insert p (set ps)"
  by (induction ps) auto

lemma sort_desc_set [simp]: "set (sort_desc ps) = set ps"
  by (induction ps) (simp_all add: sort_desc_def)

lemma insert_desc_length [simp]: "length (insert_desc p ps) = Suc (length ps)"
  by (induction ps) auto

lemma sort_desc_length [simp]: "length (sort_desc ps) = length ps"
  by (induction ps) (simp_all add: sort_desc_def)

lemma fl_lt_asym: "fl_lt a b \<Longrightarrow> \<not> fl_lt b a"
  by (cases a; cases b) auto

lemma fl_lt_trans_not: "b \<noteq> NaN \<Longrightarrow> \<not> fl_lt a b \<Longrightarrow> \<not> fl_lt b c \<Longrightarrow> \<not> fl_lt a c"
  by (cases a; cases b; cases c) auto

definition desc :: "ProcessInfo list \<Rightarrow> bool" where
  "desc ps = sorted_wrt (\<lambda>p q. \<not> fl_lt (pi_cpu_pct p) (pi_cpu_pct q)) ps"

lemma insert_desc_desc:
  "desc ps \<Longrightarrow> \<forall>q \<in> insert p (set ps). pi_cpu_pct q \<noteq> NaN \<Longrightarrow> desc (insert_desc p ps)"
proof (induction ps)
  case (Cons q qs)
  then show ?case
    using fl_lt_asym [of "pi_cpu_pct p" "pi_cpu_pct q"] fl_lt_trans_not [of "pi_cpu_pct q" "pi_cpu_pct p"]
    by (auto simp: desc_def)
qed (simp add: desc_def)

lemma sort_desc_desc: "\<forall>q \<in> set ps. pi_cpu_pct q \<noteq> NaN \<Longrightarrow> desc (sort_desc ps)"
proof (induction ps)
  case (Cons p ps)
  then show ?case using insert_desc_desc [of "sort_desc ps" p] by (simp add: sort_desc_def) (metis sort_desc_def sort_desc_set)
qed (simp add: sort_desc_def desc_def)


lemma cpu_pct_since_fin: "\<exists>r. cpu_pct_since c a b p = Fin r \<and> 0 \<le> r"
proof (cases "saturating_sub b (snd p) = 0")
  case False
  obtain x where x: "fl_of_u64 (saturating_sub a (fst p)) = Fin x" "0 \<le> x" "x \<le> 2 ^ 64" by (rule fl_of_u64_range)
  obtain y where y: "fl_of_u64 (saturating_sub b (snd p)) = Fin y" "1 \<le> y" using False by (metis fl_of_u64_range)
  have q: "0 \<le> x / y" using x(2) y(2) by simp
  have "x / y \<le> x" using x(2) y(2) by (simp add: divide_le_eq mult_le_cancel_left1)
  then have "x / y \<le> 2 ^ 64" using x(3) by (rule order_trans)
  then obtain q' where q': "fl_div (Fin x) (Fin y) = Fin q'" "0 \<le> q'" "q' \<le> 2 ^ 64"
    using round_f64_le_powi [OF q, of 64] y(2) by auto
  obtain h where h: "fl_mul (Fin q') (Fin 100) = Fin h" "0 \<le> h" "h \<le> 2 ^ (64 + 7)"
    using fl_mul_range [OF q'(2,3), of 100 7] by auto
  have "uint c \<le> 2 ^ 32" using uint_lt2p [of c] by simp
  then have "(of_int (uint c) :: rat) \<le> of_int (2 ^ 32)" by (simp only: of_int_le_iff)
  then have c: "(of_int (uint c) :: rat) \<le> 2 ^ 32" by simp
  have c0: "0 \<le> (of_int (uint c) :: rat)" by (simp only: of_int_0_le_iff uint_ge_0)
  obtain c' where c': "fl_of_int (uint c) = Fin c'" "0 \<le> c'" "c' \<le> 2 ^ 32"
    by (rule round_f64_le_powi [OF c0 c, folded fl_of_int_def]; simp)
  obtain m' where "fl_mul (Fin h) (Fin c') = Fin m'" "0 \<le> m'"
    using fl_mul_range [OF h(2,3) c'(2,3)] by auto
  then show ?thesis
    using False unfolding cpu_pct_since_def Let_def x(1) y(1) q'(1) h(1) c'(1) by simp
qed (simp add: cpu_pct_since_def)

lemma proc_loop_Cons:
  assumes "proc_loop E proc_root m t s (pid # pids) = Returns ps"
  shows "\<exists>ps'. proc_loop E proc_root m t s pids = Returns ps' \<and>
    (ps = ps' \<or> (\<exists>p r. ps = p # ps' \<and> pi_cpu_pct p = Fin r \<and> 0 \<le> r))"
proof -
  let ?prev = "Option.bind (pr_prev s) (\<lambda>m. map_of m pid)"
  let ?row = "\<lambda>r ps'. case r of Err _ \<Rightarrow> ps' | Ok info \<Rightarrow> info\<lparr>pi_pid := pid,
    pi_cpu_pct := (case ?prev of Some p \<Rightarrow> cpu_pct_since (pr_num_cpus s) (pi_cpu_jiffies info) t p | None \<Rightarrow> Fin 0)\<rparr> # ps'"
  obtain x where x: "read_process_info E (proc_file proc_root pid ''stat'') (proc_file proc_root pid ''status'') m = Returns x"
    using assms by (cases "read_process_info E (proc_file proc_root pid ''stat'') (proc_file proc_root pid ''status'') m") simp_all
  obtain ps' where r: "proc_loop E proc_root m t s pids = Returns ps'"
    using assms x by (cases "proc_loop E proc_root m t s pids") simp_all
  have ps: "ps = ?row x ps'" using assms unfolding proc_loop.simps x r by simp
  show ?thesis
  proof (cases x)
    case (Ok info)
    then show ?thesis
    proof (cases ?prev)
      case (Some p)
      then show ?thesis using r ps Ok cpu_pct_since_fin [of "pr_num_cpus s" "pi_cpu_jiffies info" t p] by auto
    qed (use r ps Ok in auto)
  qed (use r ps in simp)
qed

lemma proc_loop_pct:
  "proc_loop E proc_root m t s pids = Returns ps \<Longrightarrow> p \<in> set ps \<Longrightarrow> \<exists>r. pi_cpu_pct p = Fin r \<and> 0 \<le> r"
proof (induction pids arbitrary: ps)
  case (Cons pid pids)
  from proc_loop_Cons [OF Cons.prems(1)] Cons.IH Cons.prems(2) show ?case by (metis set_ConsD)
qed simp

lemma proc_loop_length: "proc_loop E proc_root m t s pids = Returns ps \<Longrightarrow> length ps \<le> length pids"
proof (induction pids arbitrary: ps)
  case (Cons pid pids)
  from proc_loop_Cons [OF Cons.prems] obtain ps' where "proc_loop E proc_root m t s pids = Returns ps'"
      "length ps \<le> Suc (length ps')" by (metis le_SucI length_Cons order_refl)
  then show ?case using Cons.IH by force
qed simp

lemma enumerate_pids_bound: "length (enumerate_pids E d n) \<le> n"
  by (simp add: enumerate_pids_def split: option.split)

text \<open>
  The table has at most 4096 rows; each is the row of a process with a finite, non-negative share of
  the CPU, and the shares fall from row to row.
\<close>

theorem proc_table_ordered:
  assumes "proc_sample_inner E i s = (Returns (Ok (Table rows)), s')"
  shows "\<exists>ps. rows = map proc_row ps \<and> length ps \<le> 4096 \<and> desc ps \<and> (\<forall>p \<in> set ps. \<exists>r. pi_cpu_pct p = Fin r \<and> 0 \<le> r)"
proof -
  obtain m t pids ps where l: "proc_loop E (sys_path (pr_sysroot s) ''proc'') m t s pids = Returns ps"
      and pids: "pids = enumerate_pids E (sys_path (pr_sysroot s) ''proc'') MAX_PIDS_PER_SAMPLE"
      and rows: "rows = map proc_row (sort_desc ps)"
    using assms by (auto simp: proc_sample_inner_def Let_def split: if_splits result.splits exec.splits)
  have fin: "\<forall>p \<in> set ps. \<exists>r. pi_cpu_pct p = Fin r \<and> 0 \<le> r" using proc_loop_pct [OF l] by blast
  then have "\<forall>p \<in> set ps. pi_cpu_pct p \<noteq> NaN" by fastforce
  then have "desc (sort_desc ps)" by (rule sort_desc_desc)
  moreover have "length ps \<le> 4096"
    using proc_loop_length [OF l] enumerate_pids_bound [of E "sys_path (pr_sysroot s) ''proc''" MAX_PIDS_PER_SAMPLE]
    unfolding pids MAX_PIDS_PER_SAMPLE_def by simp
  ultimately show ?thesis using rows fin by (intro exI [of _ "sort_desc ps"]) simp
qed


section \<open>Sockets\<close>

definition PAGE_SIZE :: u64 where
  "PAGE_SIZE = 4096"

text \<open>120 ms, in nanoseconds.\<close>

definition PROC_CACHE_TTL :: nat where
  "PROC_CACHE_TTL = 120000000"

record TcpStates =
  tc_established :: u64
  tc_listen :: u64
  tc_time_wait :: u64

record SockStat =
  ss_udp_inuse :: u64
  ss_tcp_mem_pages :: u64

record SockInner =
  so_sysroot :: "string option"
  so_tcp_cache :: "(nat \<times> TcpStates) option"
  so_sockstat_cache :: "(nat \<times> SockStat) option"

definition read_opt :: "env \<Rightarrow> string \<Rightarrow> string" where
  "read_opt E p = (case read_to_string E p of Ok s \<Rightarrow> s | Err _ \<Rightarrow> [])"

definition tcp_line :: "string \<Rightarrow> TcpStates \<Rightarrow> TcpStates" where
  "tcp_line line s =
     (let toks = split_whitespace line
      in if length toks \<le> 3 then s
         else if toks ! 3 = ''01'' then s\<lparr>tc_established := tc_established s + 1\<rparr>
         else if toks ! 3 = ''0A'' then s\<lparr>tc_listen := tc_listen s + 1\<rparr>
         else if toks ! 3 = ''06'' then s\<lparr>tc_time_wait := tc_time_wait s + 1\<rparr>
         else s)"

definition count_tcp_states :: "string \<Rightarrow> TcpStates" where
  "count_tcp_states content =
     fold tcp_line (drop 1 (str_lines content)) \<lparr>tc_established = 0, tc_listen = 0, tc_time_wait = 0\<rparr>"

definition tcp_states :: "env \<Rightarrow> string \<Rightarrow> TcpStates" where
  "tcp_states E net =
     (let s = count_tcp_states (read_opt E (path_join net ''tcp''));
          v6 = count_tcp_states (read_opt E (path_join net ''tcp6''))
      in \<lparr>tc_established = tc_established s + tc_established v6, tc_listen = tc_listen s + tc_listen v6,
         tc_time_wait = tc_time_wait s + tc_time_wait v6\<rparr>)"

definition field_after :: "string \<Rightarrow> string \<Rightarrow> u64 option" where
  "field_after s key =
     (case dropWhile (\<lambda>t. t \<noteq> key) (split_whitespace s) of
        _ # v # _ \<Rightarrow> parse_u64 v
      | _ \<Rightarrow> None)"

definition sockstat_line :: "string \<Rightarrow> SockStat \<Rightarrow> SockStat" where
  "sockstat_line line s =
     (case Option.bind (strip_prefix ''TCP:'' line) (\<lambda>rest. field_after rest ''mem'') of
        Some v \<Rightarrow> s\<lparr>ss_tcp_mem_pages := v\<rparr>
      | None \<Rightarrow>
          (case Option.bind (strip_prefix ''UDP:'' line) (\<lambda>rest. field_after rest ''inuse'') of
             Some v \<Rightarrow> s\<lparr>ss_udp_inuse := v\<rparr>
           | None \<Rightarrow> s))"

definition parse_sockstat :: "string \<Rightarrow> SockStat" where
  "parse_sockstat content = fold sockstat_line (str_lines content) \<lparr>ss_udp_inuse = 0, ss_tcp_mem_pages = 0\<rparr>"

text \<open>A cached value is used for 120 ms after it was read.\<close>

definition cached :: "nat \<Rightarrow> 'v \<Rightarrow> (nat \<times> 'v) option \<Rightarrow> nat \<times> 'v" where
  "cached now fresh c =
     (case c of None \<Rightarrow> (now, fresh) | Some (t, v) \<Rightarrow> if PROC_CACHE_TTL < now - t then (now, fresh) else (t, v))"

definition sock_specs :: "(string \<times> string \<times> Unit) list" where
  "sock_specs =
     [(''tcp_established'', ''TCP established connections'', Count), (''tcp_listen'', ''TCP listening sockets'', Count),
      (''tcp_time_wait'', ''TCP time-wait sockets'', Count), (''udp_inuse'', ''UDP sockets in use'', Count),
      (''tcp_mem_bytes'', ''TCP socket memory'', Bytes)]"

definition sock_manifest :: PluginManifest where
  "sock_manifest =
     \<lparr>m_plugin_id = ''com.visorcraft.linsight.sock'', m_display_name = ''Sockets'', m_version = CARGO_PKG_VERSION,
      m_sensors = map (\<lambda>(metric, display, u).
        \<lparr>d_id = ''sock.'' @ metric, d_display_name = display, d_unit = u, d_kind = KindScalar, d_category = CatNetwork,
         d_native_rate_hz = Fin (1 / 2), d_min = Some (Fin 0), d_max = None, d_device_id = Some ''sock'',
         d_device_key = Some ''system:sock'', d_tags = []\<rparr>) sock_specs,
      m_devices = [(no_device ''system:sock'' HwNetwork ''Network Sockets'' ''sock'')
                     \<lparr>dev_plugin_id := ''com.visorcraft.linsight.sock''\<rparr>]\<rparr>"

definition sock_init_inner :: "env \<Rightarrow> 'j PluginCtx \<Rightarrow> SockInner \<Rightarrow> (PluginManifest, PluginError) result exec \<times> SockInner" where
  "sock_init_inner E ctx s = (Returns (Ok sock_manifest), s\<lparr>so_sysroot := ctx_sysroot ctx\<rparr>)"

definition sock_sample_inner :: "env \<Rightarrow> SensorId \<Rightarrow> SockInner \<Rightarrow> (Reading, PluginError) result exec \<times> SockInner" where
  "sock_sample_inner E sensor s =
     (let net = sys_path (so_sysroot s) ''proc/net''
      in case strip_prefix ''sock.'' sensor of
           None \<Rightarrow> (Returns (Err (Unsupported sensor)), s)
         | Some metric \<Rightarrow>
             if metric \<in> {''tcp_established'', ''tcp_listen'', ''tcp_time_wait''} then
               let (t, v) = cached (env_now E) (tcp_states E net) (so_tcp_cache s);
                   n = (if metric = ''tcp_established'' then tc_established v
                        else if metric = ''tcp_listen'' then tc_listen v else tc_time_wait v)
               in (Returns (Ok (Scalar (fl_of_u64 n))), s\<lparr>so_tcp_cache := Some (t, v)\<rparr>)
             else if metric \<in> {''udp_inuse'', ''tcp_mem_bytes''} then
               let (t, v) = cached (env_now E) (parse_sockstat (read_opt E (path_join net ''sockstat''))) (so_sockstat_cache s);
                   n = (if metric = ''udp_inuse'' then ss_udp_inuse v else ss_tcp_mem_pages v * PAGE_SIZE)
               in (Returns (Ok (Scalar (fl_of_u64 n))), s\<lparr>so_sockstat_cache := Some (t, v)\<rparr>)
             else (Returns (Err (Unsupported sensor)), s))"

lemma sock_manifest_good: "good_manifest sock_manifest"
proof -
  have "HardwareDeviceKey_try_new ''system:sock'' = Ok ''system:sock''" by code_simp
  then have k: "wf_key ''system:sock''" by (simp only: key_try_new_Ok)
  have "list_all (\<lambda>s. d_id s \<noteq> [] \<and> list_all (\<lambda>c. \<not> is_whitespace c) (d_id s)) (m_sensors sock_manifest)" by code_simp
  then have i: "\<forall>s \<in> set (m_sensors sock_manifest). id_ok (d_id s)" by (simp add: id_ok_def list_all_iff)
  have d: "distinct (map d_id (m_sensors sock_manifest))" by code_simp
  have "list_all (\<lambda>s. d_device_key s = Some ''system:sock'') (m_sensors sock_manifest)" by code_simp
  then have dk: "\<forall>s \<in> set (m_sensors sock_manifest). d_device_key s = Some ''system:sock''" by (simp only: list_all_iff)
  have m: "m_devices sock_manifest = [(no_device ''system:sock'' HwNetwork ''Network Sockets'' ''sock'')
                     \<lparr>dev_plugin_id := ''com.visorcraft.linsight.sock''\<rparr>]" by (simp add: sock_manifest_def)
  show ?thesis
    by (rule good_manifestI) (use i d dk k in \<open>auto simp: m no_device_def\<close>)
qed

interpretation sock: sensor_plugin "sock_init_inner E" "sock_sample_inner E" for E
  by (rule sensor_pluginI)
    (auto simp: sock_init_inner_def sock_sample_inner_def sock_manifest_good Let_def split: option.split prod.split)

text \<open>The state of a line of the table, and how often a state occurs below the header.\<close>

definition tcp_state :: "string \<Rightarrow> string option" where
  "tcp_state line = (let toks = split_whitespace line in if 3 < length toks then Some (toks ! 3) else None)"

definition lines_in_state :: "string \<Rightarrow> string \<Rightarrow> nat" where
  "lines_in_state st content = length (filter (\<lambda>l. tcp_state l = Some st) (drop 1 (str_lines content)))"

lemma fold_tcp_line:
  "fold tcp_line ls s =
     \<lparr>tc_established = tc_established s + of_nat (length (filter (\<lambda>l. tcp_state l = Some ''01'') ls)),
      tc_listen = tc_listen s + of_nat (length (filter (\<lambda>l. tcp_state l = Some ''0A'') ls)),
      tc_time_wait = tc_time_wait s + of_nat (length (filter (\<lambda>l. tcp_state l = Some ''06'') ls))\<rparr>"
  by (induction ls arbitrary: s) (auto simp: tcp_line_def tcp_state_def Let_def)

text \<open>
  The three TCP counts are the numbers of lines in that state in the two tables together, of the same
  reading of the tables when the samples are at most 120 ms apart.
\<close>

theorem tcp_counts:
  assumes "so_tcp_cache s = None" and "env_now E' \<le> env_now E + PROC_CACHE_TTL"
    and "sock_sample_inner E ''sock.tcp_established'' s = (r, s')"
  shows "let count = (\<lambda>st. fl_of_u64 (of_nat (\<Sum>t\<leftarrow>[''tcp'', ''tcp6''].
             lines_in_state st (read_opt E (path_join (sys_path (so_sysroot s) ''proc/net'') t)))))
     in r = Returns (Ok (Scalar (count ''01'')))
        \<and> fst (sock_sample_inner E' ''sock.tcp_listen'' s') = Returns (Ok (Scalar (count ''0A'')))
        \<and> fst (sock_sample_inner E' ''sock.tcp_time_wait'' s') = Returns (Ok (Scalar (count ''06'')))"
proof -
  let ?v = "tcp_states E (sys_path (so_sysroot s) ''proc/net'')"
  have p: "strip_prefix ''sock.'' ''sock.tcp_established'' = Some ''tcp_established''"
    "strip_prefix ''sock.'' ''sock.tcp_listen'' = Some ''tcp_listen''"
    "strip_prefix ''sock.'' ''sock.tcp_time_wait'' = Some ''tcp_time_wait''" by simp_all
  have r: "r = Returns (Ok (Scalar (fl_of_u64 (tc_established ?v))))" "s' = s\<lparr>so_tcp_cache := Some (env_now E, ?v)\<rparr>"
    using assms(1,3) unfolding sock_sample_inner_def p by (simp_all add: cached_def Let_def)
  have "cached (env_now E') x (Some (env_now E, ?v)) = (env_now E, ?v)" for x
    using assms(2) by (auto simp: cached_def)
  then have "fst (sock_sample_inner E' ''sock.tcp_listen'' s') = Returns (Ok (Scalar (fl_of_u64 (tc_listen ?v))))"
      "fst (sock_sample_inner E' ''sock.tcp_time_wait'' s') = Returns (Ok (Scalar (fl_of_u64 (tc_time_wait ?v))))"
    unfolding r(2) sock_sample_inner_def p by (simp_all add: Let_def)
  then show ?thesis
    unfolding r(1) by (simp add: Let_def tcp_states_def count_tcp_states_def fold_tcp_line lines_in_state_def)
qed

section \<open>Witnesses\<close>

definition demo_stat_line :: string where
  "demo_stat_line = ''7 (a) (b) R 1 1 1 0 -1 0 0 0 0 0 40 2 0 0 20 0 1''"

definition demo_proc :: "string \<Rightarrow> env" where
  "demo_proc stat7 =
     \<lparr>env_file = (\<lambda>p. if p = ''/proc/stat'' then FileText ''cpu 100 0 0 900''
                      else if p = ''/proc/meminfo'' then FileText ''MemTotal: 0 kB''
                      else if p = ''/proc/7/stat'' then FileText stat7
                      else if p = ''/proc/7/status'' then FileText ''VmRSS: 500 kB''
                      else FileError ''not found''),
      env_dir = (\<lambda>p. if p = ''/proc'' then DirNames [''7'', ''self''] else DirMissing),
      env_exists = (\<lambda>_. True), env_link = (\<lambda>_. None), env_now = 0\<rparr>"

definition demo_proc_inner :: ProcInner where
  "demo_proc_inner = \<lparr>pr_sysroot = None, pr_prev = None, pr_prev_total_jiffies = 0, pr_num_cpus = 4, pr_poisoned = False\<rparr>"

theorem proc_stat_round_trip_witness:
  "\<exists>info. read_process_info (demo_proc demo_stat_line) ''/proc/7/stat'' ''/proc/7/status'' 1000 = Returns (Ok info)
     \<and> unat (pi_pid info) = 7 \<and> pi_comm info = ''a) (b'' \<and> pi_state info = ''R'' \<and> pi_cpu_jiffies info = 42"
proof -
  let ?rest = "''R 1 1 1 0 -1 0 0 0 0 0 40 2 0 0 20 0 1''"
  have a: "read_to_string (demo_proc demo_stat_line) ''/proc/7/stat'' = Ok (show_nat 7 @ '' ('' @ ''a) (b'' @ '') '' @ ?rest)" by code_simp
  have b: "read_to_string (demo_proc demo_stat_line) ''/proc/7/status'' = Ok ''VmRSS: 500 kB''" by code_simp
  have c: "15 \<le> length (split_whitespace ?rest)" by code_simp
  have d: "split_whitespace ?rest ! 0 = ''R'' \<and>
    u64_or_zero (split_whitespace ?rest ! 11) + u64_or_zero (split_whitespace ?rest ! 12) = 42" by code_simp
  show ?thesis using proc_stat_round_trip [OF a _ _ c b, of 1000] d by simp
qed

lemma demo_pids: "enumerate_pids (demo_proc x) (sys_path (pr_sysroot demo_proc_inner) ''proc'') MAX_PIDS_PER_SAMPLE = [7]"
proof -
  have "sys_path (pr_sysroot demo_proc_inner) ''proc'' = ''/proc''" by code_simp
  moreover have "List.map_filter pid_of_name [''7'', ''self''] = [7]" by code_simp
  ultimately show ?thesis by (simp add: enumerate_pids_def read_dir_def demo_proc_def MAX_PIDS_PER_SAMPLE_def)
qed

theorem proc_kernel_never_panics_witness:
  "fst (proc_sample_inner (demo_proc demo_stat_line) ''proc.list'' demo_proc_inner) \<noteq> Panics"
proof -
  have a: "read_to_string (demo_proc demo_stat_line) ''/proc/7/stat'' =
    Ok (show_nat 7 @ '' ('' @ ''a) (b'' @ '') '' @ ''R 1 1 1 0 -1 0 0 0 0 0 40 2 0 0 20 0 1'')" by code_simp
  have "CHR '')'' \<notin> set ''R 1 1 1 0 -1 0 0 0 0 0 40 2 0 0 20 0 1''" by simp
  with a have k: "kernel_stat (demo_proc demo_stat_line) ''/proc/7/stat''" by (rule kernel_statI)
  have f: "proc_file (sys_path (pr_sysroot demo_proc_inner) ''proc'') 7 ''stat'' = ''/proc/7/stat''" by code_simp
  have p: "\<not> pr_poisoned demo_proc_inner" by code_simp
  show ?thesis by (rule proc_kernel_never_panics [THEN conjunct1]) (use k f p demo_pids in simp_all)
qed

theorem proc_panic_is_final_witness:
  "proc_sample_inner (demo_proc ''7 (a)'') ''proc.list'' demo_proc_inner =
     (Panics, demo_proc_inner\<lparr>pr_poisoned := True\<rparr>)
   \<and> fst (proc_sample_inner (demo_proc demo_stat_line) ''proc.list'' (demo_proc_inner\<lparr>pr_poisoned := True\<rparr>)) = Panics"
proof -
  have "proc_sample_inner (demo_proc ''7 (a)'') ''proc.list'' demo_proc_inner =
     (Panics, demo_proc_inner\<lparr>pr_poisoned := True\<rparr>)" by code_simp
  from this proc_panic_is_final [OF this, of "demo_proc demo_stat_line", THEN conjunct1] show ?thesis by (simp only: fst_conv)
qed

theorem proc_table_ordered_witness:
  "\<exists>rows s'. proc_sample_inner (demo_proc demo_stat_line) ''proc.list'' demo_proc_inner = (Returns (Ok (Table rows)), s')
     \<and> (\<exists>ps. rows = map proc_row ps \<and> desc ps) \<and> length rows = 1"
proof -
  let ?E = "demo_proc demo_stat_line"
  have t: "total_cpu_jiffies ?E (pr_sysroot demo_proc_inner) = Ok 1000" by code_simp
  have r: "total_ram_kb ?E (sys_path (pr_sysroot demo_proc_inner) ''proc'') = Ok 0" by code_simp
  have "(case proc_loop ?E (sys_path (pr_sysroot demo_proc_inner) ''proc'') 0 1000 demo_proc_inner [7] of
      Returns ps \<Rightarrow> length ps = 1 | Panics \<Rightarrow> False)" by code_simp
  then obtain ps where l: "proc_loop ?E (sys_path (pr_sysroot demo_proc_inner) ''proc'') 0 1000 demo_proc_inner [7] = Returns ps"
      "length ps = 1" by (auto split: exec.splits)
  have p: "\<not> pr_poisoned demo_proc_inner" by code_simp
  obtain rows s' where "proc_sample_inner ?E ''proc.list'' demo_proc_inner = (Returns (Ok (Table rows)), s')" "length rows = 1"
    using t r l p by (simp add: proc_sample_inner_def demo_pids)
  with proc_table_ordered [OF this(1)] show ?thesis by blast
qed

theorem tcp_counts_witness:
  "fst (sock_sample_inner (demo_proc []) ''sock.tcp_listen''
      (snd (sock_sample_inner (demo_proc []) ''sock.tcp_established'' \<lparr>so_sysroot = None, so_tcp_cache = None, so_sockstat_cache = None\<rparr>)))
   = Returns (Ok (Scalar (fl_of_u64 0)))"
proof -
  let ?s = "\<lparr>so_sysroot = None, so_tcp_cache = None, so_sockstat_cache = None\<rparr>"
  obtain r s' where rs: "sock_sample_inner (demo_proc []) ''sock.tcp_established'' ?s = (r, s')" by fastforce
  have n: "lines_in_state ''0A'' (read_opt (demo_proc []) (path_join (sys_path None ''proc/net'') t)) = 0"
    if "t \<in> {''tcp'', ''tcp6''}" for t
  proof -
    have "lines_in_state ''0A'' (read_opt (demo_proc []) (path_join (sys_path None ''proc/net'') ''tcp'')) = 0"
      "lines_in_state ''0A'' (read_opt (demo_proc []) (path_join (sys_path None ''proc/net'') ''tcp6'')) = 0" by code_simp+
    then show ?thesis using that by blast
  qed
  from tcp_counts [OF _ _ rs, of "demo_proc []"] show ?thesis unfolding rs by (simp add: Let_def n)
qed

end
