(* ===== verification/Sensors_Fdinfo.thy ===== *)
theory Sensors_Fdinfo
  imports Sensor_Lib
begin

text \<open>
  The utilization of Intel xe GPUs (\<^verbatim>\<open>crates/linsight-sensors/xe/src/fdinfo.rs\<close>): every DRM client's
  engine cycles are collected from \<^verbatim>\<open>/proc/<pid>/fdinfo\<close>, by a full walk or only at the descriptors an
  earlier walk found, and two snapshots give the share of the busiest engine class.
\<close>

section \<open>Collecting\<close>

record PdevSnapshot =
  ps_busy :: "((u64 \<times> string) \<times> u64) list"
  ps_total :: "(string \<times> u64) list"

type_synonym DrmFdIndex = "(u32 \<times> u32 list) list"
type_synonym gpu_snaps = "(string \<times> PdevSnapshot) list"

definition empty_pdev :: PdevSnapshot where
  "empty_pdev = \<lparr>ps_busy = [], ps_total = []\<rparr>"

record fdinfo_acc =
  fa_is_xe :: bool
  fa_pdev :: "string option"
  fa_client_id :: "u64 option"
  fa_busy :: "(string \<times> u64) list"
  fa_total :: "(string \<times> u64) list"

definition fdinfo_line :: "string \<Rightarrow> fdinfo_acc \<Rightarrow> fdinfo_acc" where
  "fdinfo_line line a =
     (case split_once CHR '':'' line of
        None \<Rightarrow> a
      | Some (k, v0) \<Rightarrow>
          (let v = trim v0
           in if k = ''drm-driver'' then a\<lparr>fa_is_xe := (v = ''xe'')\<rparr>
              else if k = ''drm-pdev'' then a\<lparr>fa_pdev := Some v\<rparr>
              else if k = ''drm-client-id'' then a\<lparr>fa_client_id := parse_u64 v\<rparr>
              else (case strip_prefix ''drm-cycles-'' k of
                      Some c \<Rightarrow> (case parse_u64 v of Some n \<Rightarrow> a\<lparr>fa_busy := fa_busy a @ [(c, n)]\<rparr> | None \<Rightarrow> a)
                    | None \<Rightarrow>
                        (case strip_prefix ''drm-total-cycles-'' k of
                           Some c \<Rightarrow> (case parse_u64 v of Some n \<Rightarrow> a\<lparr>fa_total := fa_total a @ [(c, n)]\<rparr> | None \<Rightarrow> a)
                         | None \<Rightarrow> a))))"

text \<open>What one file says: the device, the client and its counters; nothing unless it is an xe client.\<close>

definition parse_fdinfo :: "string \<Rightarrow> (string \<times> u64 \<times> (string \<times> u64) list \<times> (string \<times> u64) list) option" where
  "parse_fdinfo content =
     (let a = fold fdinfo_line (str_lines content)
                \<lparr>fa_is_xe = False, fa_pdev = None, fa_client_id = None, fa_busy = [], fa_total = []\<rparr>
      in if \<not> fa_is_xe a then None
         else case fa_pdev a of
                None \<Rightarrow> None
              | Some p \<Rightarrow> map_option (\<lambda>c. (p, c, fa_busy a, fa_total a)) (fa_client_id a))"

definition merge_total :: "string \<times> u64 \<Rightarrow> (string \<times> u64) list \<Rightarrow> (string \<times> u64) list" where
  "merge_total t m =
     AList.update (fst t) (case map_of m (fst t) of None \<Rightarrow> snd t | Some cur \<Rightarrow> if cur < snd t then snd t else cur) m"

definition merge_client ::
    "string \<times> u64 \<times> (string \<times> u64) list \<times> (string \<times> u64) list \<Rightarrow> gpu_snaps \<Rightarrow> gpu_snaps" where
  "merge_client r out =
     (case r of (pdev, client_id, busy, tot) \<Rightarrow>
        let s = (case map_of out pdev of Some s \<Rightarrow> s | None \<Rightarrow> empty_pdev)
        in AList.update pdev
             \<lparr>ps_busy = fold (\<lambda>(c, n). AList.update (client_id, c) n) busy (ps_busy s),
              ps_total = fold merge_total tot (ps_total s)\<rparr> out)"

definition parse_into_any :: "string \<Rightarrow> gpu_snaps \<Rightarrow> bool \<times> gpu_snaps" where
  "parse_into_any content out =
     (case parse_fdinfo content of None \<Rightarrow> (False, out) | Some r \<Rightarrow> (True, merge_client r out))"

text \<open>Reads the files of one process, each with its descriptor; the descriptors that were xe clients stay.\<close>

fun scan_fds :: "env \<Rightarrow> string \<Rightarrow> (string \<times> u32) list \<Rightarrow> u32 list \<times> gpu_snaps \<Rightarrow> u32 list \<times> gpu_snaps" where
  "scan_fds E fdinfo_dir [] (live, snap) = (live, snap)"
| "scan_fds E fdinfo_dir ((name, fd) # fds) (live, snap) =
     (case read_to_string E (path_join fdinfo_dir name) of
        Err _ \<Rightarrow> scan_fds E fdinfo_dir fds (live, snap)
      | Ok content \<Rightarrow>
          (case parse_into_any content snap of
             (is_xe, snap') \<Rightarrow> scan_fds E fdinfo_dir fds (if is_xe then live @ [fd] else live, snap')))"

definition scan_pid :: "env \<Rightarrow> string \<Rightarrow> u32 \<Rightarrow> (string \<times> u32) list \<Rightarrow> gpu_snaps \<times> DrmFdIndex \<Rightarrow> gpu_snaps \<times> DrmFdIndex" where
  "scan_pid E proc_root pid fds st =
     (case scan_fds E (path_join (path_join proc_root (show_nat (unat pid))) ''fdinfo'') fds ([], fst st) of
        (live, snap) \<Rightarrow> (snap, if live = [] then snd st else AList.update pid live (snd st)))"

definition read_known_drm_fdinfos :: "env \<Rightarrow> string \<Rightarrow> u32 \<times> u32 list \<Rightarrow> gpu_snaps \<times> DrmFdIndex \<Rightarrow> gpu_snaps \<times> DrmFdIndex" where
  "read_known_drm_fdinfos E proc_root e st = scan_pid E proc_root (fst e) (map (\<lambda>fd. (show_nat (unat fd), fd)) (snd e)) st"

definition drm_fd :: "env \<Rightarrow> string \<Rightarrow> string \<Rightarrow> (string \<times> u32) option" where
  "drm_fd E fd_dir name =
     Option.bind (parse_u32 name) (\<lambda>fd. Option.bind (env_link E (path_join fd_dir name)) (\<lambda>target.
       if starts_with ''/dev/dri/'' target then Some (name, fd) else None))"

definition drm_fds :: "env \<Rightarrow> string \<Rightarrow> u32 \<Rightarrow> (string \<times> u32) list" where
  "drm_fds E proc_root pid =
     (let fd_dir = path_join (path_join proc_root (show_nat (unat pid))) ''fd''
      in case read_dir E fd_dir of None \<Rightarrow> [] | Some names \<Rightarrow> List.map_filter (drm_fd E fd_dir) names)"

definition discover_pid_drm_fds :: "env \<Rightarrow> string \<Rightarrow> u32 \<Rightarrow> gpu_snaps \<times> DrmFdIndex \<Rightarrow> gpu_snaps \<times> DrmFdIndex" where
  "discover_pid_drm_fds E proc_root pid st = scan_pid E proc_root pid (drm_fds E proc_root pid) st"

definition capture_all_filtered :: "env \<Rightarrow> string option \<Rightarrow> DrmFdIndex option \<Rightarrow> gpu_snaps \<times> DrmFdIndex" where
  "capture_all_filtered E sysroot pid_index =
     (let proc_root = sys_path sysroot ''proc''
      in case pid_index of
           Some index \<Rightarrow> fold (read_known_drm_fdinfos E proc_root) index ([], [])
         | None \<Rightarrow>
             (case read_dir E proc_root of
                None \<Rightarrow> ([], [])
              | Some names \<Rightarrow> fold (discover_pid_drm_fds E proc_root) (List.map_filter parse_u32 names) ([], [])))"

section \<open>Utilization\<close>

definition busy_delta :: "PdevSnapshot \<Rightarrow> PdevSnapshot \<Rightarrow> (string \<times> u64) list" where
  "busy_delta prev cur =
     fold (\<lambda>((cid, c), busy_now) m.
        AList.update c ((case map_of m c of Some d \<Rightarrow> d | None \<Rightarrow> 0)
          + saturating_sub busy_now (case map_of (ps_busy prev) (cid, c) of Some b \<Rightarrow> b | None \<Rightarrow> 0)) m)
       (ps_busy cur) []"

definition clamp01 :: "fl \<Rightarrow> fl" where
  "clamp01 x = (if fl_lt x (Fin 0) then Fin 0 else if fl_lt (Fin 1) x then Fin 1 else x)"

definition class_util :: "PdevSnapshot \<Rightarrow> (string \<times> u64) list \<Rightarrow> string \<times> u64 \<Rightarrow> (string \<times> fl) option" where
  "class_util prev delta t =
     (case map_of (ps_total prev) (fst t) of
        None \<Rightarrow> None
      | Some prev_total \<Rightarrow>
          (let d = saturating_sub (snd t) prev_total
           in if d = 0 then None
              else Some (fst t, clamp01 (fl_div (fl_of_u64 (case map_of delta (fst t) of Some b \<Rightarrow> b | None \<Rightarrow> 0)) (fl_of_u64 d)))))"

definition per_class_util :: "PdevSnapshot \<Rightarrow> PdevSnapshot \<Rightarrow> (string \<times> fl) list" where
  "per_class_util prev cur = List.map_filter (class_util prev (busy_delta prev cur)) (ps_total cur)"

definition max_util :: "PdevSnapshot \<Rightarrow> PdevSnapshot \<Rightarrow> fl" where
  "max_util prev cur = fold (\<lambda>e m. fl_max m (snd e)) (per_class_util prev cur) (Fin 0)"

section \<open>The two scans agree\<close>

definition client_info :: "env \<Rightarrow> string \<Rightarrow> string \<Rightarrow> (string \<times> u64 \<times> (string \<times> u64) list \<times> (string \<times> u64) list) option" where
  "client_info E fdinfo_dir name = Option.bind (result_ok (read_to_string E (path_join fdinfo_dir name))) parse_fdinfo"

definition is_client :: "env \<Rightarrow> string \<Rightarrow> string \<Rightarrow> bool" where
  "is_client E fdinfo_dir name = (client_info E fdinfo_dir name \<noteq> None)"

lemma scan_fds_step:
  "scan_fds E d ((n, fd) # fds) (live, snap) =
     (case client_info E d n of
        None \<Rightarrow> scan_fds E d fds (live, snap)
      | Some r \<Rightarrow> scan_fds E d fds (live @ [fd], merge_client r snap))"
  by (auto simp: client_info_def parse_into_any_def split: result.split option.split)

abbreviation clients :: "env \<Rightarrow> string \<Rightarrow> (string \<times> u32) list \<Rightarrow> (string \<times> u32) list" where
  "clients E fdinfo_dir \<equiv> filter (\<lambda>e. is_client E fdinfo_dir (fst e))"

lemma scan_fds_live: "fst (scan_fds E d fds (live, snap)) = live @ map snd (clients E d fds)"
proof (induction fds arbitrary: live snap)
  case (Cons e fds)
  then show ?case
    by (cases e) (auto simp: scan_fds_step is_client_def simp del: scan_fds.simps(2) split: option.split)
qed simp

lemma scan_fds_clients: "scan_fds E d (clients E d fds) st = scan_fds E d fds st"
proof (induction fds arbitrary: st)
  case (Cons e fds)
  then show ?case
    by (cases e; cases st) (auto simp: scan_fds_step is_client_def simp del: scan_fds.simps(2) split: option.split)
qed simp

text \<open>The names of the descriptors are the numbers, as the kernel writes them.\<close>

definition canonical :: "(string \<times> u32) list \<Rightarrow> bool" where
  "canonical fds \<longleftrightarrow> (\<forall>e \<in> set fds. fst e = show_nat (unat (snd e)))"

lemma canonical_names: "canonical fds \<Longrightarrow> map (\<lambda>fd. (show_nat (unat fd), fd)) (map snd fds) = fds"
  by (induction fds) (auto simp: canonical_def)

abbreviation fdinfo_dir_of :: "string \<Rightarrow> u32 \<Rightarrow> string" where
  "fdinfo_dir_of proc_root pid \<equiv> path_join (path_join proc_root (show_nat (unat pid))) ''fdinfo''"

abbreviation live_fds :: "env \<Rightarrow> string \<Rightarrow> u32 \<Rightarrow> u32 list" where
  "live_fds E r pid \<equiv> map snd (clients E (fdinfo_dir_of r pid) (drm_fds E r pid))"

lemma scan_pid_clients: "scan_pid E r pid (clients E (fdinfo_dir_of r pid) fds) st = scan_pid E r pid fds st"
  by (simp add: scan_pid_def scan_fds_clients)

lemma scan_pid_none: "clients E (fdinfo_dir_of r pid) fds = [] \<Longrightarrow> scan_pid E r pid fds st = st"
  using scan_pid_clients [of E r pid fds st] by (simp add: scan_pid_def)

lemma known_is_discovered:
  assumes "canonical (drm_fds E r pid)"
  shows "read_known_drm_fdinfos E r (pid, live_fds E r pid) st = discover_pid_drm_fds E r pid st"
proof -
  have "canonical (clients E (fdinfo_dir_of r pid) (drm_fds E r pid))" using assms by (simp add: canonical_def)
  then show ?thesis
    by (simp add: read_known_drm_fdinfos_def discover_pid_drm_fds_def canonical_names scan_pid_clients del: map_map)
qed

definition index_of :: "env \<Rightarrow> string \<Rightarrow> u32 list \<Rightarrow> DrmFdIndex" where
  "index_of E r pids = map (\<lambda>p. (p, live_fds E r p)) (filter (\<lambda>p. live_fds E r p \<noteq> []) pids)"

lemma fold_known:
  "\<forall>p \<in> set pids. canonical (drm_fds E r p) \<Longrightarrow>
   fold (read_known_drm_fdinfos E r) (index_of E r pids) st = fold (discover_pid_drm_fds E r) pids st"
proof (induction pids arbitrary: st)
  case (Cons p pids)
  show ?case
  proof (cases "live_fds E r p = []")
    case True
    then have "discover_pid_drm_fds E r p st = st" by (simp add: discover_pid_drm_fds_def scan_pid_none)
    with True Cons show ?thesis by (simp add: index_of_def)
  next
    case False
    then show ?thesis using Cons known_is_discovered [of E r p st] by (simp add: index_of_def del: map_map)
  qed
qed (simp add: index_of_def)

lemma update_new: "k \<notin> fst ` set m \<Longrightarrow> AList.update k v m = m @ [(k, v)]"
  by (induction m) auto

lemma discover_index:
  "snd (discover_pid_drm_fds E r p st) = (if live_fds E r p = [] then snd st else AList.update p (live_fds E r p) (snd st))"
  using scan_fds_live [of E "fdinfo_dir_of r p" "drm_fds E r p" "[]" "fst st"]
  by (auto simp: discover_pid_drm_fds_def scan_pid_def split: prod.split)

lemma fold_discover_index:
  "distinct pids \<Longrightarrow> set pids \<inter> fst ` set (snd st) = {} \<Longrightarrow>
   snd (fold (discover_pid_drm_fds E r) pids st) = snd st @ index_of E r pids"
proof (induction pids arbitrary: st)
  case (Cons p pids)
  have "snd (discover_pid_drm_fds E r p st) = snd st @ index_of E r [p]"
    using Cons.prems by (simp add: discover_index update_new index_of_def)
  moreover have "set pids \<inter> fst ` set (snd st @ index_of E r [p]) = {}"
    using Cons.prems by (auto simp: index_of_def)
  ultimately show ?case using Cons by (simp add: index_of_def)
qed (simp add: index_of_def)


section \<open>The range of the utilization\<close>

definition unit_fl :: "fl \<Rightarrow> bool" where
  "unit_fl x \<longleftrightarrow> (\<exists>r. x = Fin r \<and> 0 \<le> r \<and> r \<le> 1)"

lemma clamp01_unit: "x \<noteq> NaN \<Longrightarrow> unit_fl (clamp01 x)"
  by (cases x) (auto simp: clamp01_def unit_fl_def)

lemma ratio_not_nan: "d \<noteq> 0 \<Longrightarrow> fl_div (fl_of_u64 b) (fl_of_u64 d) \<noteq> NaN"
proof -
  assume "d \<noteq> 0"
  then obtain y where y: "fl_of_u64 d = Fin y" "1 \<le> y" by (metis fl_of_u64_range)
  obtain x where "fl_of_u64 b = Fin x" by (rule fl_of_u64_range)
  with y show ?thesis by (simp add: round_f64_def Let_def)
qed

lemma per_class_util_unit: "e \<in> set (per_class_util prev cur) \<Longrightarrow> unit_fl (snd e)"
  by (auto simp: per_class_util_def List.map_filter_def class_util_def Let_def intro!: clamp01_unit ratio_not_nan
      split: option.splits if_splits)

lemma fl_max_unit: "unit_fl x \<Longrightarrow> unit_fl y \<Longrightarrow> unit_fl (fl_max x y)"
  by (auto simp: unit_fl_def)

lemma fold_max_unit: "\<forall>e \<in> set es. unit_fl (snd e) \<Longrightarrow> unit_fl x \<Longrightarrow> unit_fl (fold (\<lambda>e m. fl_max m (snd e)) es x)"
  by (induction es arbitrary: x) (auto simp: fl_max_unit)

lemma max_util_unit: "unit_fl (max_util prev cur)"
  unfolding max_util_def by (rule fold_max_unit) (use per_class_util_unit in blast, simp add: unit_fl_def)


text \<open>
  The utilization of a device is a share between 0 and 1, for any two snapshots (also when counters
  ran backwards or overflowed).
\<close>

theorem max_util_bounds: "\<exists>r. max_util prev cur = Fin r \<and> 0 \<le> r \<and> r \<le> 1"
  using max_util_unit by (simp add: unit_fl_def)

lemma max_util_same:
  assumes d: "distinct (map fst (ps_total s))"
  shows "max_util s s = Fin 0"
proof -
  have "class_util s m t = None" if t: "t \<in> set (ps_total s)" for m t
  proof -
    have "map_of (ps_total s) (fst t) = Some (snd t)" using t by (intro map_of_is_SomeI [OF d]) simp
    then show ?thesis by (simp add: class_util_def saturating_sub_def)
  qed
  then have "per_class_util s s = []" by (auto simp: per_class_util_def List.map_filter_def filter_empty_conv)
  then show ?thesis by (simp add: max_util_def)
qed

lemma fl_of_u64_mag: "fl_of_u64 w = Fin (round_mag (of_nat (unat w)))"
proof (cases "w = 0")
  case False
  obtain r where r: "fl_of_u64 w = Fin r" by (rule fl_of_u64_range)
  have "0 < unat w" using False by (simp add: unat_gt_0)
  then have "(0 :: rat) < of_nat (unat w)" by (simp only: of_nat_0_less_iff)
  then show ?thesis using r unfolding fl_of_u64_def round_f64_def Let_def by (auto simp: sgn_if split: if_splits)
qed (simp add: fl_of_u64_def round_f64_def)

lemma fl_of_u64_mono: "a \<le> b \<Longrightarrow> fl_of_u64 a = Fin x \<Longrightarrow> fl_of_u64 b = Fin y \<Longrightarrow> x \<le> y"
  using round_mag_mono [of "of_nat (unat a)" "of_nat (unat b)"]
  by (simp add: fl_of_u64_mag word_le_nat_alt del: of_nat_unat)

text \<open>
  A client that the earlier snapshot did not have counts with all the cycles since it started, not with
  those of the window: once they reach the cycles of the window the device reads as fully used, whatever
  the client did in it.
\<close>

theorem late_client_reads_full:
  assumes "ps_busy cur = [((cid, c), busy)]" and "map_of (ps_busy prev) (cid, c) = None"
    and "ps_total cur = [(c, total_now)]" and "map_of (ps_total prev) c = Some total_before"
    and "total_before < total_now" and "total_now - total_before \<le> busy"
  shows "max_util prev cur = Fin 1"
proof -
  have d: "saturating_sub total_now total_before = total_now - total_before" "total_now - total_before \<noteq> 0"
    using assms(5) by (auto simp: saturating_sub_def)
  have delta: "busy_delta prev cur = [(c, busy)]" by (simp add: busy_delta_def assms(1,2) saturating_sub_def)
  let ?d = "total_now - total_before"
  obtain x where x: "fl_of_u64 busy = Fin x" "0 \<le> x" "x \<le> 2 ^ 64" by (rule fl_of_u64_range)
  obtain y where y: "fl_of_u64 ?d = Fin y" "1 \<le> y" using d(2) by (metis fl_of_u64_range)
  have "y \<le> x" using fl_of_u64_mono [OF assms(6)] x(1) y(1) by simp
  then have q: "1 \<le> x / y" using y(2) by (simp add: le_divide_eq)
  have "x / y \<le> x" using x(2) y(2) by (simp add: divide_le_eq mult_le_cancel_left1)
  then have q': "0 \<le> x / y" "x / y \<le> 2 ^ 64" using x(3) q by (auto intro: order_trans)
  obtain r where r: "round_f64 (x / y) = Fin r" using round_f64_le_powi [OF q'] by auto
  moreover have s: "\<bar>x / y\<bar> = x / y" "sgn (x / y) = 1" using q by (auto intro!: abs_of_nonneg sgn_pos simp del: abs_divide sgn_divide)
  ultimately have "r = round_mag (x / y)" unfolding round_f64_def Let_def s by (simp split: if_splits)
  then have "1 \<le> r" using round_mag_mono [of 1 "x / y"] round_mag_of_nat [of 1] q by simp
  then have "clamp01 (fl_div (fl_of_u64 busy) (fl_of_u64 ?d)) = Fin 1" using x y r by (auto simp: clamp01_def)
  then have "per_class_util prev cur = [(c, Fin 1)]"
    using d by (simp add: per_class_util_def delta assms(3,4) class_util_def Let_def List.map_filter_def)
  then show ?thesis by (simp add: max_util_def)
qed

definition demo_before :: PdevSnapshot where
  "demo_before = \<lparr>ps_busy = [], ps_total = [(''rcs'', 1000000)]\<rparr>"

definition demo_after :: PdevSnapshot where
  "demo_after = \<lparr>ps_busy = [((9, ''rcs''), 50000)], ps_total = [(''rcs'', 1019000)]\<rparr>"

theorem late_client_reads_full_witness: "max_util demo_before demo_after = Fin 1"
  by (rule late_client_reads_full [where cid = 9 and c = "''rcs''" and busy = 50000 and total_now = 1019000 and total_before = 1000000])
    (simp_all add: demo_before_def demo_after_def)

definition demo_gpu :: env where
  "demo_gpu =
     \<lparr>env_file = (\<lambda>p. if p = ''/proc/42/fdinfo/5'' then FileText (''drm-driver: xe'' @ CHR 0x0A # ''drm-pdev: 0000:03:00.0'' @ CHR 0x0A #
                        ''drm-client-id: 9'' @ CHR 0x0A # ''drm-cycles-rcs: 10'' @ CHR 0x0A # ''drm-total-cycles-rcs: 100'')
                      else FileError ''not found''),
      env_dir = (\<lambda>p. if p = ''/proc'' then DirNames [''42''] else if p = ''/proc/42/fd'' then DirNames [''4'', ''5''] else DirMissing),
      env_exists = (\<lambda>_. True),
      env_link = (\<lambda>p. if p = ''/proc/42/fd/5'' then Some ''/dev/dri/renderD128'' else None), env_now = 0\<rparr>"

lemma demo_gpu_canonical: "canonical (drm_fds demo_gpu (sys_path None ''proc'') pid)"
proof (cases "path_join (path_join (sys_path None ''proc'') (show_nat (unat pid))) ''fd'' = ''/proc/42/fd''")
  case True
  have "List.map_filter (drm_fd demo_gpu ''/proc/42/fd'') (remdups [''4'', ''5'']) = [(''5'', 5)]" by code_simp
  moreover have "show_nat (unat (5 :: u32)) = ''5''" by code_simp
  ultimately show ?thesis using True by (simp add: drm_fds_def read_dir_def demo_gpu_def canonical_def)
next
  case False
  have "path_join a ''fd'' \<noteq> ''/proc''" for a
  proof
    assume "path_join a ''fd'' = ''/proc''"
    moreover have "last (path_join a ''fd'') = CHR ''d''" by (simp add: path_join_def)
    ultimately show False by simp
  qed
  with False show ?thesis by (simp add: drm_fds_def read_dir_def demo_gpu_def canonical_def)
qed


end
