(* ===== verification/Sensors_Gpu.thy ===== *)
theory Sensors_Gpu
  imports Sensors_Fdinfo Plugin_Host
begin

text \<open>
  The GPU plugins that read sysfs: Intel xe (\<^verbatim>\<open>crates/linsight-sensors/xe\<close>), AMD (\<^verbatim>\<open>amdgpu\<close>) and the
  older Intel driver (\<^verbatim>\<open>i915\<close>). The \<^verbatim>\<open>pci.ids\<close> database is the one of \<open>Plugin_Host\<close>.
\<close>

section \<open>Paths and numbers\<close>

text \<open>\<^verbatim>\<open>Path::file_name\<close>: the last component, unless it is \<^verbatim>\<open>..\<close> or there is none.\<close>

definition path_file_name :: "string \<Rightarrow> string option" where
  "path_file_name p =
     (let cs = filter (\<lambda>c. c \<noteq> [] \<and> c \<noteq> ''.'') (split_char CHR ''/'' p)
      in if cs = [] \<or> last cs = ''..'' then None else Some (last cs))"

fun trim_start_0x :: "string \<Rightarrow> string" where
  "trim_start_0x (c # d # s) = (if c = CHR ''0'' \<and> d = CHR ''x'' then trim_start_0x s else c # d # s)"
| "trim_start_0x s = s"

text \<open>\<^verbatim>\<open>{:04x}\<close>.\<close>

definition show_hex4 :: "u16 \<Rightarrow> string" where
  "show_hex4 w =
     (let n = unat w in map hex_digit [n div 4096 mod 16, n div 256 mod 16, n div 16 mod 16, n mod 16])"

definition gpu_sensor ::
    "string \<Rightarrow> HardwareDeviceKey \<Rightarrow> string \<Rightarrow> string \<times> string \<times> Unit \<times> fl \<times> fl option \<times> fl option \<times> string list \<Rightarrow> SensorDescriptor" where
  "gpu_sensor prefix key name spec =
     (case spec of (metric, display, u, rate, mn, mx, tags) \<Rightarrow>
        \<lparr>d_id = metric_id prefix name metric, d_display_name = display, d_unit = u, d_kind = KindScalar, d_category = CatGpu,
         d_native_rate_hz = rate, d_min = mn, d_max = mx, d_device_id = Some name, d_device_key = Some key, d_tags = tags\<rparr>)"

text \<open>The \<^verbatim>\<open>f32\<close> nearest to 0.1.\<close>

definition RATE_0_1 :: fl where
  "RATE_0_1 = Fin (13421773 / 134217728)"

section \<open>xe: discovery\<close>

datatype XeError = XeIo string | XeParse string

fun XeError_to_string :: "XeError \<Rightarrow> string" where
  "XeError_to_string (XeIo s) = ''io: '' @ s"
| "XeError_to_string (XeParse s) = ''parse: '' @ s"

record XeDevice =
  xd_pci_slot :: string
  xd_device_root :: string
  xd_hwmon_root :: "string option"
  xd_vendor_id :: "u16 option"
  xd_device_id :: "u16 option"

definition xe_read :: "bool \<Rightarrow> (string \<Rightarrow> 'a option) \<Rightarrow> env \<Rightarrow> string \<Rightarrow> ('a, XeError) result" where
  "xe_read sg parse E p =
     (case read_to_string E p of
        Err e \<Rightarrow> Err (XeIo (p @ '': '' @ e))
      | Ok s \<Rightarrow> (case parse (trim s) of Some v \<Rightarrow> Ok v | None \<Rightarrow> Err (XeParse (p @ '': '' @ int_error sg (trim s)))))"

definition act_freq_mhz :: "env \<Rightarrow> XeDevice \<Rightarrow> (u32, XeError) result" where
  "act_freq_mhz E d = xe_read False parse_u32 E (path_join (xd_device_root d) ''tile0/gt0/freq0/act_freq'')"

definition temp_label :: "env \<Rightarrow> string \<Rightarrow> string \<Rightarrow> (u32 \<times> string) option" where
  "temp_label E hwmon name =
     Option.bind (Option.bind (strip_prefix ''temp'' name) (strip_suffix ''_label'')) (\<lambda>rest.
       Option.bind (parse_u32 rest) (\<lambda>idx.
         map_option (\<lambda>l. (idx, map to_ascii_lowercase (trim l))) (result_ok (read_to_string E (path_join hwmon name)))))"

fun first_labelled :: "env \<Rightarrow> string \<Rightarrow> (u32 \<times> string) list \<Rightarrow> int option" where
  "first_labelled E hwmon [] = None"
| "first_labelled E hwmon ((idx, label) # ls) =
     (if contains_str ''package'' label \<or> contains_str ''pkg'' label \<or> label = ''gpu''
      then (case xe_read True (parse_int 32) E (path_join hwmon (''temp'' @ show_nat (unat idx) @ ''_input'')) of
              Ok v \<Rightarrow> Some v
            | Err _ \<Rightarrow> first_labelled E hwmon ls)
      else first_labelled E hwmon ls)"

definition find_labelled_temp :: "env \<Rightarrow> string \<Rightarrow> int option" where
  "find_labelled_temp E hwmon =
     Option.bind (read_dir E hwmon) (\<lambda>names.
       first_labelled E hwmon (sort_key fst (List.map_filter (temp_label E hwmon) names)))"

definition package_temp_milli_c :: "env \<Rightarrow> XeDevice \<Rightarrow> int option" where
  "package_temp_milli_c E d =
     Option.bind (xd_hwmon_root d) (\<lambda>hwmon.
       case find_labelled_temp E hwmon of
         Some v \<Rightarrow> Some v
       | None \<Rightarrow> result_ok (xe_read True (parse_int 32) E (path_join hwmon ''temp1_input'')))"

definition xe_fan_rpm :: "env \<Rightarrow> XeDevice \<Rightarrow> u32 option" where
  "xe_fan_rpm E d =
     Option.bind (xd_hwmon_root d) (\<lambda>hwmon. result_ok (xe_read False parse_u32 E (path_join hwmon ''fan1_input'')))"

definition vram_total_bytes :: "env \<Rightarrow> XeDevice \<Rightarrow> u64 option" where
  "vram_total_bytes E d =
     Option.bind (result_ok (read_to_string E (path_join (xd_device_root d) ''resource''))) (\<lambda>raw.
       let ls = str_lines raw
       in if length ls < 3 then None
          else (case split_whitespace (ls ! 2) of
                  a # b # _ \<Rightarrow>
                    Option.bind (parse_hex TYPE(64) (trim_start_0x a)) (\<lambda>start.
                    Option.bind (parse_hex TYPE(64) (trim_start_0x b)) (\<lambda>stop.
                      if stop \<le> start then None
                      else let size = stop - start + 1
                           in if size \<le> 256 * 1024 * 1024 then None else Some size))
                | _ \<Rightarrow> None))"

definition parse_card_index :: "string \<Rightarrow> u32 option" where
  "parse_card_index name = Option.bind (strip_prefix ''card'' name) parse_u32"

definition find_first_hwmon :: "env \<Rightarrow> string \<Rightarrow> string option" where
  "find_first_hwmon E device_root =
     Option.bind (read_dir E (path_join device_root ''hwmon'')) (\<lambda>names.
       case sort (filter (starts_with ''hwmon'') names) of
         [] \<Rightarrow> None
       | n # _ \<Rightarrow> Some (path_join (path_join device_root ''hwmon'') n))"

definition xe_card :: "env \<Rightarrow> string \<Rightarrow> string \<Rightarrow> (u32 \<times> string) option" where
  "xe_card E drm_root name =
     Option.bind (parse_card_index name) (\<lambda>idx.
       let device_root = path_join (path_join drm_root name) ''device''
       in if \<not> env_exists E device_root then None
          else (case env_link E (path_join device_root ''driver'') of
                  None \<Rightarrow> None
                | Some t \<Rightarrow> if (case path_file_name t of Some n \<Rightarrow> n | None \<Rightarrow> []) = ''xe'' then Some (idx, device_root) else None))"

definition xe_device :: "env \<Rightarrow> string \<Rightarrow> XeDevice" where
  "xe_device E device_root =
     \<lparr>xd_pci_slot = (case Option.bind (env_link E device_root) path_file_name of Some n \<Rightarrow> n | None \<Rightarrow> ''unknown''),
      xd_device_root = device_root, xd_hwmon_root = find_first_hwmon E device_root,
      xd_vendor_id = parse_sysfs_pci_id (result_ok (read_to_string E (path_join device_root ''vendor''))),
      xd_device_id = parse_sysfs_pci_id (result_ok (read_to_string E (path_join device_root ''device'')))\<rparr>"

definition xe_enumerate :: "env \<Rightarrow> string option \<Rightarrow> (XeDevice list, XeError) result" where
  "xe_enumerate E sysroot =
     (let drm_root = sys_path sysroot ''sys/class/drm''
      in case env_dir E drm_root of
           DirMissing \<Rightarrow> Ok []
         | DirError e \<Rightarrow> Err (XeIo (''read_dir '' @ drm_root @ '': '' @ e))
         | DirNames names \<Rightarrow>
             Ok (map (\<lambda>c. xe_device E (snd c)) (sort_key fst (List.map_filter (xe_card E drm_root) (remdups names)))))"

section \<open>xe: the plugin\<close>

record XeInner =
  xi_sysroot :: "string option"
  xi_devices :: "XeDevice list"
  xi_util_state :: "(string \<times> PdevSnapshot) list"
  xi_cached_snapshot :: "(nat \<times> gpu_snaps) option"
  xi_drm_fd_index :: DrmFdIndex
  xi_last_full_rescan :: "nat option"

text \<open>400 ms and 15 s, in nanoseconds.\<close>

definition FDINFO_CACHE_TTL :: nat where
  "FDINFO_CACHE_TTL = 400000000"

definition FDINFO_FULL_RESCAN_INTERVAL :: nat where
  "FDINFO_FULL_RESCAN_INTERVAL = 15000000000"

definition gpu_name :: "nat \<Rightarrow> string" where
  "gpu_name idx = ''gpu'' @ show_nat idx"

definition xe_hw_device :: "PciIdDb \<Rightarrow> nat \<Rightarrow> XeDevice \<Rightarrow> HardwareDevice" where
  "xe_hw_device db idx d =
     \<lparr>dev_key = ''pci:'' @ xd_pci_slot d, dev_category = HwGpu,
      dev_model = (case (xd_vendor_id d, xd_device_id d) of
                     (Some v, Some p) \<Rightarrow>
                       (case pci_lookup db v p of
                          Some m \<Rightarrow> m
                        | None \<Rightarrow> ''Intel GPU ('' @ show_hex4 v @ '':'' @ show_hex4 p @ '')'')
                   | _ \<Rightarrow> ''Intel GPU ('' @ gpu_name idx @ '')''),
      dev_vendor = Option.bind (xd_vendor_id d) (pci_vendor_name db), dev_location = Some (''PCI '' @ xd_pci_slot d),
      dev_plugin_id = [], dev_plugin_device_id = gpu_name idx, dev_sensor_ids = []\<rparr>"

definition xe_specs :: "env \<Rightarrow> XeDevice \<Rightarrow> (string \<times> string \<times> Unit \<times> fl \<times> fl option \<times> fl option \<times> string list) list" where
  "xe_specs E d =
     [(''util'', ''GPU utilization'', Percent, Fin 2, Some (Fin 0), Some (Fin 100), []),
      (''freq_hz'', ''GPU frequency'', Hertz, Fin 1, Some (Fin 0), None, [])]
     @ (if package_temp_milli_c E d \<noteq> None then [(''temp_c'', ''GPU temperature'', Celsius, Fin 1, None, None, [])] else [])
     @ (if xe_fan_rpm E d \<noteq> None then [(''fan_rpm'', ''GPU fan'', Rpm, Fin 1, Some (Fin 0), None, [])] else [])
     @ (if vram_total_bytes E d \<noteq> None
        then [(''mem_total_bytes'', ''GPU VRAM total'', Bytes, RATE_0_1, Some (Fin 0), None, [STATIC_TAG])] else [])"

definition xe_sensors :: "env \<Rightarrow> nat \<Rightarrow> XeDevice \<Rightarrow> SensorDescriptor list" where
  "xe_sensors E idx d = map (gpu_sensor ''xe.'' (''pci:'' @ xd_pci_slot d) (gpu_name idx)) (xe_specs E d)"

definition xe_init_inner :: "PciIdDb \<Rightarrow> env \<Rightarrow> 'j PluginCtx \<Rightarrow> XeInner \<Rightarrow> (PluginManifest, PluginError) result exec \<times> XeInner" where
  "xe_init_inner db E ctx s =
     (let s1 = s\<lparr>xi_sysroot := ctx_sysroot ctx\<rparr>
      in case xe_enumerate E (ctx_sysroot ctx) of
           Err e \<Rightarrow> (Returns (Err (PluginIo (XeError_to_string e))), s1)
         | Ok devices \<Rightarrow>
             (Returns
                (case first_err (\<lambda>(idx, d). HardwareDeviceKey_try_new (''pci:'' @ xd_pci_slot d)) (enumerate 0 devices) of
                   Some ((idx, d), e) \<Rightarrow> Err (PluginIo (''xe '' @ gpu_name idx @ '' bad key: '' @ key_error_to_string e))
                 | None \<Rightarrow>
                     Ok \<lparr>m_plugin_id = ''com.visorcraft.linsight.xe'', m_display_name = ''Intel xe GPU'',
                        m_version = CARGO_PKG_VERSION,
                        m_sensors = concat (map (\<lambda>(idx, d). xe_sensors E idx d) (enumerate 0 devices)),
                        m_devices = map (\<lambda>(idx, d). xe_hw_device db idx d) (enumerate 0 devices)\<rparr>),
              s1\<lparr>xi_devices := devices, xi_util_state := []\<rparr>))"

definition parse_sensor_id :: "string \<Rightarrow> (nat \<times> string) option" where
  "parse_sensor_id i =
     Option.bind (strip_prefix ''xe.gpu'' i) (\<lambda>rest.
     Option.bind (split_once CHR ''.'' rest) (\<lambda>(idx, metric).
       map_option (\<lambda>w. (unat w, metric)) (parse_u64 idx)))"

text \<open>The snapshot for a sample: the cached one for 400 ms, else a full or a fast scan.\<close>

definition refresh_snapshot :: "env \<Rightarrow> XeInner \<Rightarrow> XeInner" where
  "refresh_snapshot E s =
     (let now = env_now E
      in if (case xi_cached_snapshot s of Some (taken, _) \<Rightarrow> now - taken < FDINFO_CACHE_TTL | None \<Rightarrow> False) then s
         else let full_due = (case xi_last_full_rescan s of None \<Rightarrow> True | Some t \<Rightarrow> FDINFO_FULL_RESCAN_INTERVAL \<le> now - t);
                  (snap, index) = capture_all_filtered E (xi_sysroot s) (if full_due then None else Some (xi_drm_fd_index s))
              in s\<lparr>xi_last_full_rescan := (if full_due then Some now else xi_last_full_rescan s),
                   xi_drm_fd_index := index, xi_cached_snapshot := Some (now, snap)\<rparr>)"

definition xe_sample_util :: "env \<Rightarrow> string \<Rightarrow> XeInner \<Rightarrow> fl \<times> XeInner" where
  "xe_sample_util E pdev s =
     (let s1 = refresh_snapshot E s;
          cur = (case Option.bind (xi_cached_snapshot s1) (\<lambda>c. map_of (snd c) pdev) of Some p \<Rightarrow> p | None \<Rightarrow> empty_pdev);
          util = (case map_of (xi_util_state s1) pdev of
                    Some prev \<Rightarrow> fl_mul (max_util prev cur) (Fin 100)
                  | None \<Rightarrow> Fin 0)
      in (util, s1\<lparr>xi_util_state := AList.update pdev cur (xi_util_state s1)\<rparr>))"

definition xe_sample_static :: "env \<Rightarrow> SensorId \<Rightarrow> string \<Rightarrow> XeDevice \<Rightarrow> (Reading, PluginError) result" where
  "xe_sample_static E sensor metric d =
     (if metric = ''freq_hz'' then
        (case act_freq_mhz E d of
           Err e \<Rightarrow> Err (PluginIo (XeError_to_string e))
         | Ok f \<Rightarrow> Ok (Scalar (fl_mul (fl_of_int (uint f)) (Fin 1000000))))
      else if metric = ''temp_c'' then
        (case package_temp_milli_c E d of
           Some milli \<Rightarrow> Ok (Scalar (fl_div (fl_of_int milli) (Fin 1000)))
         | None \<Rightarrow> Err (Unsupported sensor))
      else if metric = ''fan_rpm'' then
        (case xe_fan_rpm E d of Some rpm \<Rightarrow> Ok (Scalar (fl_of_int (uint rpm))) | None \<Rightarrow> Err (Unsupported sensor))
      else if metric = ''mem_total_bytes'' then
        (case vram_total_bytes E d of Some b \<Rightarrow> Ok (Scalar (fl_of_u64 b)) | None \<Rightarrow> Err (Unsupported sensor))
      else Err (Unsupported sensor))"

definition xe_sample_inner :: "env \<Rightarrow> SensorId \<Rightarrow> XeInner \<Rightarrow> (Reading, PluginError) result exec \<times> XeInner" where
  "xe_sample_inner E sensor s =
     (case parse_sensor_id sensor of
        None \<Rightarrow> (Returns (Err (Unsupported sensor)), s)
      | Some (idx, metric) \<Rightarrow>
          if length (xi_devices s) \<le> idx then (Returns (Err (Unsupported sensor)), s)
          else if metric = ''util'' then
            (let (u, s') = xe_sample_util E (xd_pci_slot (xi_devices s ! idx)) s in (Returns (Ok (Scalar u)), s'))
          else (Returns (xe_sample_static E sensor metric (xi_devices s ! idx)), s))"

section \<open>AMD and i915: discovery\<close>

definition AMD_VENDOR_ID :: u16 where
  "AMD_VENDOR_ID = 0x1002"

definition INTEL_VENDOR_ID :: u16 where
  "INTEL_VENDOR_ID = 0x8086"

record DrmGpu =
  dg_name :: string
  dg_device_path :: string
  dg_pci_addr :: string
  dg_model :: string
  dg_vendor :: "string option"
  dg_hwmon_dir :: "string option"

record DrmInner =
  dr_sysroot :: "string option"
  dr_devices :: "DrmGpu list"

text \<open>A hexadecimal id in a file, 0 when it is none.\<close>

definition hex_id :: "string \<Rightarrow> u16" where
  "hex_id s =
     (let t = trim s
      in case parse_hex_u16 (case strip_prefix ''0x'' t of Some r \<Rightarrow> r | None \<Rightarrow> t) of Some v \<Rightarrow> v | None \<Rightarrow> 0)"

definition is_card :: "string \<Rightarrow> bool" where
  "is_card name = (starts_with ''card'' name \<and> CHR ''-'' \<notin> set name)"

definition find_hwmon :: "env \<Rightarrow> string \<Rightarrow> string option" where
  "find_hwmon E device_path =
     Option.bind (read_dir E device_path) (\<lambda>names. map_option (path_join device_path) (find (starts_with ''hwmon'') names))"

text \<open>What both plugins do with a card that is theirs.\<close>

definition drm_gpu :: "PciIdDb \<Rightarrow> env \<Rightarrow> u16 \<Rightarrow> string \<Rightarrow> string \<Rightarrow> string \<Rightarrow> DrmGpu" where
  "drm_gpu db E vendor brand name dev_path =
     (let device_id = (case read_to_string E (path_join dev_path ''device'') of Ok s \<Rightarrow> hex_id s | Err _ \<Rightarrow> 0)
      in \<lparr>dg_name = name, dg_device_path = dev_path,
         dg_pci_addr = (case Option.bind (env_link E dev_path) path_file_name of Some n \<Rightarrow> n | None \<Rightarrow> ''unknown''),
         dg_model = (case pci_lookup db vendor device_id of Some m \<Rightarrow> m | None \<Rightarrow> brand @ '' GPU ('' @ name @ '')''),
         dg_vendor = pci_vendor_name db vendor, dg_hwmon_dir = find_hwmon E dev_path\<rparr>)"

definition amd_card :: "PciIdDb \<Rightarrow> env \<Rightarrow> string \<Rightarrow> string \<Rightarrow> DrmGpu option" where
  "amd_card db E drm_root name =
     (let dev_path = path_join (path_join drm_root name) ''device''
      in if \<not> is_card name then None
         else case read_to_string E (path_join dev_path ''vendor'') of
                Err _ \<Rightarrow> None
              | Ok v \<Rightarrow> if hex_id v \<noteq> AMD_VENDOR_ID then None else Some (drm_gpu db E AMD_VENDOR_ID ''AMD'' name dev_path))"

definition amd_enumerate :: "PciIdDb \<Rightarrow> env \<Rightarrow> string option \<Rightarrow> DrmGpu list" where
  "amd_enumerate db E sysroot =
     (let drm_root = sys_path sysroot ''sys/class/drm''
      in case read_dir E drm_root of None \<Rightarrow> [] | Some names \<Rightarrow> List.map_filter (amd_card db E drm_root) names)"

text \<open>The driver: an override, else the link.\<close>

definition i915_driver :: "env \<Rightarrow> string \<Rightarrow> string option" where
  "i915_driver E dev_path =
     map_option trim
       (case read_to_string E (path_join dev_path ''driver_override'') of
          Ok s \<Rightarrow> Some s
        | Err _ \<Rightarrow> map_option (\<lambda>t. case path_file_name t of Some n \<Rightarrow> n | None \<Rightarrow> []) (env_link E (path_join dev_path ''driver'')))"

definition i915_card :: "PciIdDb \<Rightarrow> env \<Rightarrow> string \<Rightarrow> string \<Rightarrow> DrmGpu option" where
  "i915_card db E drm_root name =
     (let dev_path = path_join (path_join drm_root name) ''device''
      in if \<not> is_card name then None
         else case read_to_string E (path_join dev_path ''vendor'') of
                Err _ \<Rightarrow> None
              | Ok v \<Rightarrow>
                  if hex_id v \<noteq> INTEL_VENDOR_ID \<or> i915_driver E dev_path \<noteq> Some ''i915'' then None
                  else Some (drm_gpu db E INTEL_VENDOR_ID ''Intel'' name dev_path))"

definition i915_enumerate :: "PciIdDb \<Rightarrow> env \<Rightarrow> string option \<Rightarrow> DrmGpu list" where
  "i915_enumerate db E sysroot =
     (let drm_root = sys_path sysroot ''sys/class/drm''
      in case read_dir E drm_root of None \<Rightarrow> [] | Some names \<Rightarrow> List.map_filter (i915_card db E drm_root) names)"

section \<open>AMD and i915: the plugins\<close>

definition drm_hw_device :: "DrmGpu \<Rightarrow> HardwareDevice" where
  "drm_hw_device d =
     \<lparr>dev_key = ''pci:'' @ dg_pci_addr d, dev_category = HwGpu, dev_model = dg_model d, dev_vendor = dg_vendor d,
      dev_location = Some (''PCI '' @ dg_pci_addr d), dev_plugin_id = [], dev_plugin_device_id = dg_name d, dev_sensor_ids = []\<rparr>"

definition amd_specs :: "DrmGpu \<Rightarrow> (string \<times> string \<times> Unit \<times> fl \<times> fl option \<times> fl option \<times> string list) list" where
  "amd_specs d =
     [(''util'', ''GPU utilization'', Percent, Fin 1, Some (Fin 0), Some (Fin 100), []),
      (''mem_used_bytes'', ''GPU VRAM used'', Bytes, Fin 1, Some (Fin 0), None, []),
      (''mem_total_bytes'', ''GPU VRAM total'', Bytes, RATE_0_1, Some (Fin 0), None, [STATIC_TAG])]
     @ (if dg_hwmon_dir d \<noteq> None
        then [(''temp_c'', ''GPU temperature'', Celsius, Fin 1, None, None, []),
              (''power_w'', ''GPU power'', Watts, Fin 1, Some (Fin 0), None, [])]
        else [])"

definition i915_specs :: "DrmGpu \<Rightarrow> (string \<times> string \<times> Unit \<times> fl \<times> fl option \<times> fl option \<times> string list) list" where
  "i915_specs d =
     [(''cur_freq_hz'', ''GPU current frequency'', Hertz, Fin (1 / 2), Some (Fin 0), None, []),
      (''act_freq_hz'', ''GPU actual frequency'', Hertz, Fin (1 / 2), Some (Fin 0), None, [])]
     @ (if dg_hwmon_dir d \<noteq> None then [(''temp_c'', ''GPU temperature'', Celsius, Fin 1, None, None, [])] else [])"

definition drm_manifest ::
    "string \<Rightarrow> string \<Rightarrow> string \<Rightarrow> (DrmGpu \<Rightarrow> (string \<times> string \<times> Unit \<times> fl \<times> fl option \<times> fl option \<times> string list) list) \<Rightarrow>
     DrmGpu list \<Rightarrow> (PluginManifest, PluginError) result" where
  "drm_manifest pid display prefix specs ds =
     (case first_err (\<lambda>d. HardwareDeviceKey_try_new (''pci:'' @ dg_pci_addr d)) ds of
        Some (d, e) \<Rightarrow> Err (PluginIo (''pci '' @ dg_pci_addr d @ '': '' @ key_error_to_string e))
      | None \<Rightarrow>
          Ok \<lparr>m_plugin_id = pid, m_display_name = display, m_version = CARGO_PKG_VERSION,
             m_sensors = concat (map (\<lambda>d. map (gpu_sensor prefix (''pci:'' @ dg_pci_addr d) (dg_name d)) (specs d)) ds),
             m_devices = map drm_hw_device ds\<rparr>)"

definition amd_init_inner :: "PciIdDb \<Rightarrow> env \<Rightarrow> 'j PluginCtx \<Rightarrow> DrmInner \<Rightarrow> (PluginManifest, PluginError) result exec \<times> DrmInner" where
  "amd_init_inner db E ctx s =
     (let ds = amd_enumerate db E (ctx_sysroot ctx)
      in (Returns (drm_manifest ''com.visorcraft.linsight.amdgpu'' ''AMD GPU'' ''amdgpu.'' amd_specs ds),
          \<lparr>dr_sysroot = ctx_sysroot ctx, dr_devices = ds\<rparr>))"

definition i915_init_inner :: "PciIdDb \<Rightarrow> env \<Rightarrow> 'j PluginCtx \<Rightarrow> DrmInner \<Rightarrow> (PluginManifest, PluginError) result exec \<times> DrmInner" where
  "i915_init_inner db E ctx s =
     (let ds = i915_enumerate db E (ctx_sysroot ctx)
      in (Returns (drm_manifest ''com.visorcraft.linsight.i915'' ''Intel i915'' ''i915.'' i915_specs ds),
          \<lparr>dr_sysroot = ctx_sysroot ctx, dr_devices = ds\<rparr>))"

definition read_file_u64 :: "env \<Rightarrow> string \<Rightarrow> (u64, PluginError) result" where
  "read_file_u64 E p = read_parsed False parse_u64 E p"

definition amd_hwmon_input :: "env \<Rightarrow> DrmGpu \<Rightarrow> SensorId \<Rightarrow> string \<Rightarrow> string \<Rightarrow> (u64, PluginError) result" where
  "amd_hwmon_input E d sensor kind missing =
     (case dg_hwmon_dir d of
        None \<Rightarrow> Err (Unsupported sensor)
      | Some hwmon \<Rightarrow>
          (case read_dir E hwmon of
             None \<Rightarrow> Err (PluginIo ''hwmon dir unreadable'')
           | Some names \<Rightarrow>
               (case find (\<lambda>n. starts_with kind n \<and> ends_with ''_input'' n) names of
                  None \<Rightarrow> Err (Unsupported missing)
                | Some n \<Rightarrow> read_file_u64 E (path_join hwmon n))))"

definition amd_value :: "env \<Rightarrow> SensorId \<Rightarrow> DrmGpu \<Rightarrow> string \<Rightarrow> (Reading, PluginError) result" where
  "amd_value E sensor d metric =
     (let plain = (\<lambda>f. result_bind (read_file_u64 E (path_join (dg_device_path d) f)) (\<lambda>v. Ok (Scalar (fl_of_u64 v))))
      in if metric = ''util'' then plain ''gpu_busy_percent''
         else if metric = ''mem_used_bytes'' then plain ''mem_info_vram_used''
         else if metric = ''mem_total_bytes'' then plain ''mem_info_vram_total''
         else if metric = ''temp_c'' then
           result_bind (amd_hwmon_input E d sensor ''temp'' ''no temp_input'') (\<lambda>v. Ok (Scalar (fl_div (fl_of_u64 v) (Fin 1000))))
         else if metric = ''power_w'' then
           result_bind (amd_hwmon_input E d sensor ''power'' ''no power_input'') (\<lambda>v. Ok (Scalar (fl_div (fl_of_u64 v) (Fin 1000000))))
         else Err (Unsupported sensor))"

definition i915_value :: "env \<Rightarrow> SensorId \<Rightarrow> DrmGpu \<Rightarrow> string \<Rightarrow> (Reading, PluginError) result" where
  "i915_value E sensor d metric =
     (let mhz = (\<lambda>f. result_bind (read_file_u64 E (path_join (dg_device_path d) f)) (\<lambda>v. Ok (Scalar (fl_mul (fl_of_u64 v) (Fin 1000000)))))
      in if metric = ''cur_freq_hz'' then mhz ''gt_cur_freq_mhz''
         else if metric = ''act_freq_hz'' then mhz ''gt_act_freq_mhz''
         else if metric = ''temp_c'' then
           (case dg_hwmon_dir d of
              None \<Rightarrow> Err (Unsupported sensor)
            | Some h \<Rightarrow> result_bind (read_file_u64 E (path_join h ''temp1_input'')) (\<lambda>v. Ok (Scalar (fl_div (fl_of_u64 v) (Fin 1000)))))
         else Err (Unsupported sensor))"

definition drm_sample_inner ::
    "string \<Rightarrow> (env \<Rightarrow> SensorId \<Rightarrow> DrmGpu \<Rightarrow> string \<Rightarrow> (Reading, PluginError) result) \<Rightarrow>
     env \<Rightarrow> SensorId \<Rightarrow> DrmInner \<Rightarrow> (Reading, PluginError) result exec \<times> DrmInner" where
  "drm_sample_inner prefix val E sensor s =
     (Returns
        (case split_metric_id prefix sensor of
           None \<Rightarrow> Err (Unsupported sensor)
         | Some (name, metric) \<Rightarrow>
             (case find (\<lambda>d. dg_name d = name) (dr_devices s) of
                None \<Rightarrow> Err (Unsupported sensor)
              | Some d \<Rightarrow> val E sensor d metric)), s)"

definition amd_sample_inner :: "env \<Rightarrow> SensorId \<Rightarrow> DrmInner \<Rightarrow> (Reading, PluginError) result exec \<times> DrmInner" where
  "amd_sample_inner = drm_sample_inner ''amdgpu.'' amd_value"

definition i915_sample_inner :: "env \<Rightarrow> SensorId \<Rightarrow> DrmInner \<Rightarrow> (Reading, PluginError) result exec \<times> DrmInner" where
  "i915_sample_inner = drm_sample_inner ''i915.'' i915_value"

section \<open>xe: utilization\<close>

text \<open>Engine classes occur once in every snapshot.\<close>

definition snaps_wf :: "gpu_snaps \<Rightarrow> bool" where
  "snaps_wf m \<longleftrightarrow> (\<forall>p s. map_of m p = Some s \<longrightarrow> distinct (map fst (ps_total s)))"

lemma merge_totals_distinct: "distinct (map fst m) \<Longrightarrow> distinct (map fst (fold merge_total ts m))"
  by (induction ts arbitrary: m) (simp_all add: merge_total_def distinct_update)

lemma merge_client_wf: "snaps_wf m \<Longrightarrow> snaps_wf (merge_client r m)"
  by (cases r) (auto simp: snaps_wf_def merge_client_def Let_def update_conv' empty_pdev_def
      intro!: merge_totals_distinct split: option.split if_splits)

lemma scan_fds_wf: "snaps_wf (snd st) \<Longrightarrow> snaps_wf (snd (scan_fds E d fds st))"
proof (induction fds arbitrary: st)
  case (Cons e fds)
  then show ?case
    by (cases e; cases st) (auto simp: scan_fds_step merge_client_wf simp del: scan_fds.simps(2) split: option.split)
qed (case_tac st, simp)

lemma scan_pid_wf: "snaps_wf (fst st) \<Longrightarrow> snaps_wf (fst (scan_pid E r pid fds st))"
  using scan_fds_wf [of "([], fst st)" E "fdinfo_dir_of r pid" fds]
  by (cases "scan_fds E (fdinfo_dir_of r pid) fds ([], fst st)") (simp add: scan_pid_def)

lemma fold_wf: "(\<And>x st. snaps_wf (fst st) \<Longrightarrow> snaps_wf (fst (f x st))) \<Longrightarrow> snaps_wf (fst st) \<Longrightarrow> snaps_wf (fst (fold f xs st))"
  by (induction xs arbitrary: st) auto

lemma capture_wf: "snaps_wf (fst (capture_all_filtered E rt i))"
proof -
  have e: "snaps_wf (fst ([] :: gpu_snaps, [] :: DrmFdIndex))" by (simp add: snaps_wf_def)
  show ?thesis
    unfolding capture_all_filtered_def Let_def
    by (auto simp: snaps_wf_def [of "[]"] read_known_drm_fdinfos_def discover_pid_drm_fds_def
        intro!: fold_wf [OF _ e] scan_pid_wf split: option.split)
qed

definition xe_inv :: "XeInner \<Rightarrow> bool" where
  "xe_inv s \<longleftrightarrow> (\<forall>t m. xi_cached_snapshot s = Some (t, m) \<longrightarrow> snaps_wf m)"

lemma refresh_inv: "xe_inv s \<Longrightarrow> xe_inv (refresh_snapshot E s)"
proof -
  assume i: "xe_inv s"
  have "snaps_wf snap" if "capture_all_filtered E (xi_sysroot s) j = (snap, index)" for j snap index
    using capture_wf [of E "xi_sysroot s" j] that by simp
  then show ?thesis using i by (auto simp: refresh_snapshot_def xe_inv_def Let_def split: prod.split)
qed

text \<open>
  The utilization of an xe device is between 0 and 100 percent in every state.
\<close>

theorem xe_util_percentage: "\<exists>r. fst (xe_sample_util E pdev s) = Fin r \<and> 0 \<le> r \<and> r \<le> 100"
proof (cases "map_of (xi_util_state (refresh_snapshot E s)) pdev")
  case (Some prev)
  let ?cur = "case Option.bind (xi_cached_snapshot (refresh_snapshot E s)) (\<lambda>c. map_of (snd c) pdev) of Some p \<Rightarrow> p | None \<Rightarrow> empty_pdev"
  obtain u where u: "max_util prev ?cur = Fin u" "0 \<le> u" "u \<le> 1"
    using max_util_unit [of prev ?cur] by (auto simp: unit_fl_def)
  have b: "of_nat 0 \<le> u * 100" "u * 100 \<le> of_nat 100" using u by simp_all
  obtain r where "round_f64 (u * 100) = Fin r" "of_nat 0 \<le> r" "r \<le> of_nat 100"
    by (rule round_f64_between [OF b]) simp_all
  then show ?thesis using Some u by (simp add: xe_sample_util_def Let_def)
qed (simp add: xe_sample_util_def Let_def)

text \<open>
  A second sample of a device within 400 ms of the scan finds its own snapshot in the cache and
  reports 0, whatever the load.
\<close>

theorem xe_util_twice_zero:
  assumes "xe_inv s" and "xe_sample_util E pdev s = (u, s1)"
    and "xi_cached_snapshot s1 = Some (taken, m)" and "env_now E' < taken + FDINFO_CACHE_TTL"
  shows "fst (xe_sample_util E' pdev s1) = Fin 0"
proof -
  let ?r = "refresh_snapshot E s"
  define cur where "cur = (case Option.bind (xi_cached_snapshot ?r) (\<lambda>c. map_of (snd c) pdev) of Some p \<Rightarrow> p | None \<Rightarrow> empty_pdev)"
  have s1: "s1 = ?r\<lparr>xi_util_state := AList.update pdev cur (xi_util_state ?r)\<rparr>"
    using assms(2) by (simp add: xe_sample_util_def Let_def cur_def)
  have same: "refresh_snapshot E' s1 = s1" using assms(3,4) by (auto simp: refresh_snapshot_def Let_def FDINFO_CACHE_TTL_def)
  have "xe_inv ?r" using assms(1) by (rule refresh_inv)
  then have "snaps_wf m" using assms(3) s1 by (simp add: xe_inv_def)
  then have "distinct (map fst (ps_total cur))"
    using assms(3) s1 by (auto simp: cur_def snaps_wf_def empty_pdev_def split: option.split)
  then have "max_util cur cur = Fin 0" by (rule max_util_same)
  moreover have "(case Option.bind (xi_cached_snapshot s1) (\<lambda>c. map_of (snd c) pdev) of Some p \<Rightarrow> p | None \<Rightarrow> empty_pdev) = cur"
    by (simp add: s1 cur_def)
  moreover have "map_of (xi_util_state s1) pdev = Some cur" by (simp add: s1 update_conv')
  ultimately show ?thesis unfolding xe_sample_util_def Let_def same by (simp add: round_f64_def)
qed

section \<open>AMD and i915: what the host gets\<close>

lemma gpu_sensor_id: "d_id (gpu_sensor p k n s) = metric_id p n (fst s)" "d_device_key (gpu_sensor p k n s) = Some k"
  by (simp_all add: gpu_sensor_def split: prod.split)

definition metrics_ok :: "string list \<Rightarrow> bool" where
  "metrics_ok ms = (distinct ms \<and> list_all (\<lambda>m. m \<noteq> [] \<and> list_all (\<lambda>c. \<not> is_whitespace c \<and> c \<noteq> CHR ''.'') m) ms)"

lemma metrics_okD: "metrics_ok ms \<Longrightarrow> distinct ms \<and> (\<forall>m \<in> set ms. id_ok m \<and> CHR ''.'' \<notin> set m)"
  by (auto simp: metrics_ok_def id_ok_def list_all_iff)

lemma drm_metrics_ok: "metrics_ok (map fst (amd_specs d))" "metrics_ok (map fst (i915_specs d))"
proof -
  have "metrics_ok [''util'', ''mem_used_bytes'', ''mem_total_bytes'', ''temp_c'', ''power_w'']"
    "metrics_ok [''util'', ''mem_used_bytes'', ''mem_total_bytes'']"
    "metrics_ok [''cur_freq_hz'', ''act_freq_hz'', ''temp_c'']" "metrics_ok [''cur_freq_hz'', ''act_freq_hz'']" by code_simp+
  then show "metrics_ok (map fst (amd_specs d))" "metrics_ok (map fst (i915_specs d))"
    by (cases "dg_hwmon_dir d"; simp add: amd_specs_def i915_specs_def)+
qed

lemma drm_manifest_good:
  assumes "drm_manifest pid display prefix specs ds = Ok m" and "id_ok prefix"
    and "\<And>d. metrics_ok (map fst (specs d))" and "distinct (map dg_name ds)" and "distinct (map dg_pci_addr ds)"
    and "\<forall>d \<in> set ds. id_ok (dg_name d)"
  shows "good_manifest m"
proof -
  have "first_err (\<lambda>d. HardwareDeviceKey_try_new (''pci:'' @ dg_pci_addr d)) ds = None"
    using assms(1) by (auto simp: drm_manifest_def split: option.splits)
  then have wf: "\<forall>d \<in> set ds. wf_key (''pci:'' @ dg_pci_addr d)" by (auto simp only: first_err_None key_try_new_Ok)
  have m: "m = \<lparr>m_plugin_id = pid, m_display_name = display, m_version = CARGO_PKG_VERSION,
      m_sensors = concat (map (\<lambda>d. map (gpu_sensor prefix (''pci:'' @ dg_pci_addr d) (dg_name d)) (specs d)) ds),
      m_devices = map drm_hw_device ds\<rparr>"
    using assms(1) by (auto simp: drm_manifest_def split: option.splits)
  show ?thesis
    unfolding m
  proof (rule good_manifest_devices [where name = dg_name and key = "\<lambda>d. ''pci:'' @ dg_pci_addr d" and p = prefix
        and metrics = "\<lambda>d. map fst (specs d)"])
    show "distinct (map (\<lambda>d. ''pci:'' @ dg_pci_addr d) ds)" using assms(5) by (simp add: distinct_map inj_on_def)
    show "id_ok (dg_name d) \<and> wf_key (''pci:'' @ dg_pci_addr d) \<and> dev_key (drm_hw_device d) = ''pci:'' @ dg_pci_addr d"
      if "d \<in> set ds" for d using that assms(6) wf by (simp add: drm_hw_device_def)
    show "distinct (map fst (specs d)) \<and> (\<forall>m \<in> set (map fst (specs d)). id_ok m \<and> CHR ''.'' \<notin> set m)" for d
      by (rule metrics_okD) (rule assms(3))
  qed (use assms in \<open>auto simp: gpu_sensor_id\<close>)
qed

lemma find_filter: "find P xs = (case filter P xs of [] \<Rightarrow> None | x # _ \<Rightarrow> Some x)"
  by (induction xs) auto

lemma distinct_map_filter:
  "distinct xs \<Longrightarrow> (\<And>x y. f x = Some y \<Longrightarrow> g y = x) \<Longrightarrow> distinct (map g (List.map_filter f xs))"
proof (induction xs)
  case (Cons x xs)
  have "set (map g (List.map_filter f xs)) \<subseteq> set xs"
    using Cons.prems(2) by (auto simp: List.map_filter_def)
  then show ?case using Cons by (auto simp: List.map_filter_simps split: option.split)
qed (simp add: List.map_filter_simps)

lemma amd_names: "distinct (map dg_name (amd_enumerate db E rt))"
proof (cases "read_dir E (sys_path rt ''sys/class/drm'')")
  case (Some names)
  have "distinct names" using Some by (auto simp: read_dir_def split: dir.splits)
  moreover have "dg_name g = n" if "amd_card db E r n = Some g" for r n g
    using that by (auto simp: amd_card_def drm_gpu_def Let_def split: if_splits result.splits)
  ultimately show ?thesis using Some by (simp add: amd_enumerate_def Let_def distinct_map_filter)
qed (simp add: amd_enumerate_def)

text \<open>
  When the cards have different PCI addresses, the host accepts the manifest of the AMD plugin and every
  sensor has its own id.
\<close>

theorem amd_manifest_accepted:
  assumes "amd_init_inner db E (PluginCtx_from J (RPluginCtx_from J ctx)) s = (Returns (Ok m), s')" and "distinct (map dg_pci_addr (dr_devices s'))"
    and "\<forall>d \<in> set (dr_devices s'). id_ok (dg_name d)"
  shows "good_manifest m \<and>
    host_init J (as_plugin J (amd_init_inner db E) (amd_sample_inner E)) s ctx = (Returns (Ok (host_view m)), s')"
proof -
  have "list_all (\<lambda>c. \<not> is_whitespace c) ''amdgpu.''" by code_simp
  then have p: "id_ok ''amdgpu.''" by (simp add: id_ok_def list_all_iff)
  have d: "dr_devices s' = amd_enumerate db E (ctx_sysroot (PluginCtx_from J (RPluginCtx_from J ctx)))"
    and m: "drm_manifest ''com.visorcraft.linsight.amdgpu'' ''AMD GPU'' ''amdgpu.'' amd_specs (dr_devices s') = Ok m"
    using assms(1) unfolding amd_init_inner_def Let_def prod.inject exec.inject by (auto simp only: DrmInner.simps)
  have "good_manifest m"
    by (rule drm_manifest_good [OF m p drm_metrics_ok(1) _ assms(2,3)]) (unfold d, rule amd_names)
  then show ?thesis
    unfolding host_init_def as_plugin_def good_manifest_def
    by (simp add: assms(1) validate_acceptable PluginManifest_host_view)
qed

text \<open>
  C0: In the layout of the kernel the hwmon directories of a card are one level down, in
  \<^verbatim>\<open>device/hwmon/hwmonN\<close>. The AMD plugin takes \<^verbatim>\<open>device/hwmon\<close> itself for one: it offers a temperature and a
  power sensor, and every sample of them fails.
\<close>

theorem amd_hwmon_one_level_short:
  assumes "read_dir E dev = Some names" and "filter (starts_with ''hwmon'') names = [''hwmon'']"
    and "read_dir E (path_join dev ''hwmon'') = Some hwmons" and "\<forall>n \<in> set hwmons. starts_with ''hwmon'' n"
  shows "let d = drm_gpu db E vendor brand name dev
     in {''temp_c'', ''power_w''} \<subseteq> fst ` set (amd_specs d)
        \<and> amd_value E i d ''temp_c'' = Err (Unsupported ''no temp_input'')
        \<and> amd_value E i d ''power_w'' = Err (Unsupported ''no power_input'')"
proof -
  have "find (starts_with ''hwmon'') names = Some ''hwmon''" unfolding find_filter assms(2) by simp
  then have h: "dg_hwmon_dir (drm_gpu db E vendor brand name dev) = Some (path_join dev ''hwmon'')"
    using assms(1) by (simp add: drm_gpu_def find_hwmon_def)
  have no: "\<not> starts_with ''temp'' n \<and> \<not> starts_with ''power'' n" if n: "starts_with ''hwmon'' n" for n
  proof -
    obtain r where "n = ''hwmon'' @ r" using n by (auto simp only: starts_with_def not_None_eq strip_prefix_Some)
    then show ?thesis by (simp add: starts_with_def)
  qed
  have t: "find (\<lambda>n. starts_with ''temp'' n \<and> ends_with ''_input'' n) hwmons = None"
    using assms(4) no unfolding find_None_iff by blast
  have w: "find (\<lambda>n. starts_with ''power'' n \<and> ends_with ''_input'' n) hwmons = None"
    using assms(4) no unfolding find_None_iff by blast
  let ?d = "drm_gpu db E vendor brand name dev"
  have "amd_hwmon_input E ?d i ''temp'' ''no temp_input'' = Err (Unsupported ''no temp_input'')"
    unfolding amd_hwmon_input_def h option.case assms(3) t by (rule refl)
  moreover have "amd_hwmon_input E ?d i ''power'' ''no power_input'' = Err (Unsupported ''no power_input'')"
    unfolding amd_hwmon_input_def h option.case assms(3) w by (rule refl)
  moreover have "{''temp_c'', ''power_w''} \<subseteq> fst ` set (amd_specs ?d)" by (simp add: amd_specs_def h)
  ultimately show ?thesis by (simp add: Let_def amd_value_def)
qed

section \<open>Witnesses\<close>

definition demo_amd :: env where
  "demo_amd =
     \<lparr>env_file = (\<lambda>p. if p = ''/sys/class/drm/card0/device/vendor'' then FileText ''0x1002''
                      else if p = ''/sys/class/drm/card0/device/device'' then FileText ''0x744c''
                      else if p = ''/sys/class/drm/card0/device/hwmon/hwmon3/temp1_input'' then FileText ''65000''
                      else FileError ''not found''),
      env_dir = (\<lambda>p. if p = ''/sys/class/drm'' then DirNames [''card0'', ''card0-DP-1'', ''renderD128'']
                     else if p = ''/sys/class/drm/card0/device'' then DirNames [''vendor'', ''device'', ''hwmon'']
                     else if p = ''/sys/class/drm/card0/device/hwmon'' then DirNames [''hwmon3'']
                     else if p = ''/sys/class/drm/card0/device/hwmon/hwmon3'' then DirNames [''temp1_input'']
                     else DirMissing),
      env_exists = (\<lambda>_. True),
      env_link = (\<lambda>p. if p = ''/sys/class/drm/card0/device'' then Some ''../../../0000:03:00.0'' else None), env_now = 0\<rparr>"

theorem amd_hwmon_one_level_short_witness:
  "map dg_name (amd_enumerate \<lparr>pci_vendors = [], pci_devices = []\<rparr> demo_amd None) = [''card0'']
   \<and> amd_value demo_amd ''amdgpu.card0.temp_c'' (drm_gpu \<lparr>pci_vendors = [], pci_devices = []\<rparr> demo_amd AMD_VENDOR_ID ''AMD'' ''card0''
       ''/sys/class/drm/card0/device'') ''temp_c'' = Err (Unsupported ''no temp_input'')"
proof -
  have a: "read_dir demo_amd ''/sys/class/drm/card0/device'' = Some [''vendor'', ''device'', ''hwmon'']" by code_simp
  have b: "filter (starts_with ''hwmon'') [''vendor'', ''device'', ''hwmon''] = [''hwmon'']" by code_simp
  have c: "read_dir demo_amd (path_join ''/sys/class/drm/card0/device'' ''hwmon'') = Some [''hwmon3'']" by code_simp
  have "starts_with ''hwmon'' ''hwmon3''" by code_simp
  then have d: "\<forall>n \<in> set [''hwmon3'']. starts_with ''hwmon'' n" by simp
  have e: "map dg_name (amd_enumerate \<lparr>pci_vendors = [], pci_devices = []\<rparr> demo_amd None) = [''card0'']" by code_simp
  show ?thesis using amd_hwmon_one_level_short [OF a b c d] e unfolding Let_def by blast
qed

theorem xe_util_twice_zero_witness:
  "fst (xe_sample_util (demo_gpu\<lparr>env_now := 100\<rparr>) ''0000:03:00.0'' (snd (xe_sample_util demo_gpu ''0000:03:00.0''
      \<lparr>xi_sysroot = None, xi_devices = [], xi_util_state = [(''0000:03:00.0'', demo_before)], xi_cached_snapshot = None,
       xi_drm_fd_index = [], xi_last_full_rescan = None\<rparr>))) = Fin 0"
proof -
  let ?s = "\<lparr>xi_sysroot = None, xi_devices = [], xi_util_state = [(''0000:03:00.0'', demo_before)], xi_cached_snapshot = None,
       xi_drm_fd_index = [], xi_last_full_rescan = None\<rparr>"
  obtain u s1 where u: "xe_sample_util demo_gpu ''0000:03:00.0'' ?s = (u, s1)" by fastforce
  have "xi_cached_snapshot (refresh_snapshot demo_gpu ?s) = Some (0, fst (capture_all_filtered demo_gpu None None))"
    by (simp add: refresh_snapshot_def Let_def demo_gpu_def split: prod.split)
  moreover have "xi_cached_snapshot s1 = xi_cached_snapshot (refresh_snapshot demo_gpu ?s)"
    using u by (auto simp: xe_sample_util_def Let_def)
  ultimately have c: "xi_cached_snapshot s1 = Some (0, fst (capture_all_filtered demo_gpu None None))" by simp
  have i: "xe_inv ?s" by (simp add: xe_inv_def)
  have "env_now (demo_gpu\<lparr>env_now := 100\<rparr>) < 0 + FDINFO_CACHE_TTL" by (simp add: FDINFO_CACHE_TTL_def)
  from xe_util_twice_zero [OF i u c this] show ?thesis unfolding u by simp
qed

end
