(* ===== verification/Sensors_Fs.thy ===== *)
theory Sensors_Fs
  imports Sensor_Lib "HOL-Library.Multiset"
begin

text \<open>
  File systems (\<^verbatim>\<open>crates/linsight-sensors/fs\<close>): the mount table and the names made of it, the disks behind
  the mounts, and a pass of \<^verbatim>\<open>statvfs\<close> calls in worker threads with a semaphore, a time-out and a
  back-off per mount. What a worker answers before the deadline and which old threads have ended are
  parameters of a pass.
\<close>

section \<open>The mount table\<close>

definition PSEUDO_FS :: "string list" where
  "PSEUDO_FS =
     [''proc'', ''sysfs'', ''tmpfs'', ''devtmpfs'', ''devpts'', ''cgroup'', ''cgroup2'', ''cpuset'', ''efivarfs'', ''hugetlbfs'',
      ''mqueue'', ''pstore'', ''ramfs'', ''securityfs'', ''tracefs'', ''debugfs'', ''bpf'', ''autofs'', ''overlay'',
      ''fuse.gvfsd-fuse'', ''fusectl'', ''configfs'', ''squashfs'']"

definition SKIP_PREFIXES :: "string list" where
  "SKIP_PREFIXES = [''/sys'', ''/proc'', ''/dev'', ''/run'']"

definition mount_safekey :: "string \<Rightarrow> string" where
  "mount_safekey mountpoint =
     (let s = dropWhile (\<lambda>c. c = CHR ''/'') mountpoint
      in if s = [] then ''root'' else map (\<lambda>c. if c = CHR ''/'' then CHR ''_'' else c) s)"

text \<open>A line of the table: source, mount point and type.\<close>

definition mtab_line :: "string \<Rightarrow> (string \<times> string \<times> string) option" where
  "mtab_line line =
     (case split_whitespace line of
        src # mp # fstype # _ \<Rightarrow>
          if fstype \<in> set PSEUDO_FS \<or> list_ex (\<lambda>p. starts_with p mp) SKIP_PREFIXES \<or> src = ''none'' \<or> src = ''tmpfs''
          then None else Some (src, mp, fstype)
      | _ \<Rightarrow> None)"

definition read_mtab :: "env \<Rightarrow> string option \<Rightarrow> (string \<times> string \<times> string) list" where
  "read_mtab E sysroot =
     (let mtab = sys_path sysroot ''etc/mtab'';
          path = (if env_exists E mtab then mtab else sys_path sysroot ''proc/mounts'')
      in case read_to_string E path of
           Err _ \<Rightarrow> []
         | Ok content \<Rightarrow> List.map_filter mtab_line (str_lines content))"

section \<open>The disk behind a mount\<close>

definition find_block_disk :: "env \<Rightarrow> string \<Rightarrow> string \<Rightarrow> string option" where
  "find_block_disk E sys_block dev =
     (let direct = path_join sys_block dev
      in if is_dir E direct \<and> \<not> env_exists E (path_join direct ''partition'') then Some dev
         else Option.bind (read_dir E sys_block) (\<lambda>names. find (\<lambda>n. is_dir E (path_join (path_join sys_block n) dev)) names))"

definition nvme_controller :: "string \<Rightarrow> string" where
  "nvme_controller disk =
     (case Option.bind (strip_prefix ''nvme'' disk) (split_once CHR ''n'') of
        Some (ctrl, _) \<Rightarrow> if ctrl \<noteq> [] \<and> list_all is_ascii_digit ctrl then ''nvme'' @ ctrl else disk
      | None \<Rightarrow> disk)"

definition resolve_parent_device :: "env \<Rightarrow> string \<Rightarrow> string option \<Rightarrow> string option" where
  "resolve_parent_device E source sysroot =
     Option.bind (strip_prefix ''/dev/'' source) (\<lambda>dev.
       if list_ex (\<lambda>p. starts_with p dev) [''mapper/'', ''dm-'', ''loop'', ''md'', ''zram''] then None
       else map_option nvme_controller (find_block_disk E (sys_path sysroot ''sys/block'') dev))"

section \<open>The manifest\<close>

type_synonym FsStat = "u64 \<times> u64 \<times> u64 \<times> u64"

text \<open>
  The mounts with a name of their own each: a name that was taken gets the position of its line among the
  kept lines appended.
\<close>

fun name_mounts :: "nat \<Rightarrow> (string \<times> string \<times> string) list \<Rightarrow> string list \<Rightarrow> (string \<times> string) list" where
  "name_mounts i [] taken = []"
| "name_mounts i ((src, mp, fstype) # ms) taken =
     (let base = mount_safekey mp;
          safe = (if base \<notin> set taken then base else base @ ''_'' @ show_nat (i + 1))
      in (mp, safe) # name_mounts (i + 1) ms (List.insert base taken))"

definition fs_specs :: "bool \<Rightarrow> (string \<times> string \<times> Unit \<times> fl) list" where
  "fs_specs reports_inodes =
     [(''total_bytes'', ''Filesystem total'', Bytes, RATE_0_2), (''used_bytes'', ''Filesystem used'', Bytes, Fin 1),
      (''avail_bytes'', ''Filesystem available'', Bytes, Fin 1)]
     @ (if reports_inodes then [(''inodes_total'', ''Inodes total'', Count, RATE_0_2), (''inodes_used'', ''Inodes used'', Count, Fin 1)]
        else [])"

definition fs_sensors :: "bool \<Rightarrow> string list \<Rightarrow> string \<Rightarrow> SensorDescriptor list" where
  "fs_sensors reports_inodes parent_tags safe =
     map (\<lambda>(metric, display, u, rate).
            \<lparr>d_id = metric_id ''fs.'' safe metric, d_display_name = display, d_unit = u, d_kind = KindScalar,
             d_category = CatStorage, d_native_rate_hz = rate, d_min = Some (Fin 0), d_max = None, d_device_id = Some safe,
             d_device_key = Some (''fs:'' @ safe), d_tags = parent_tags\<rparr>) (fs_specs reports_inodes)"

definition fs_mount_sensors ::
    "(string \<Rightarrow> FsStat option) \<Rightarrow> env \<Rightarrow> string option \<Rightarrow> (string \<times> string \<times> string) \<times> string \<times> string \<Rightarrow> SensorDescriptor list" where
  "fs_mount_sensors statvfs E sysroot e =
     (case e of ((src, mp, fstype), _, safe) \<Rightarrow>
        fs_sensors (case statvfs mp of Some (_, _, inodes, _) \<Rightarrow> 0 < inodes | None \<Rightarrow> True)
          (case resolve_parent_device E src sysroot of Some p \<Rightarrow> [''parent:'' @ p] | None \<Rightarrow> []) safe)"

definition fs_device :: "(string \<times> string \<times> string) \<times> string \<times> string \<Rightarrow> HardwareDevice" where
  "fs_device e =
     (case e of ((src, mp, fstype), _, safe) \<Rightarrow>
        \<lparr>dev_key = ''fs:'' @ safe, dev_category = HwStorage, dev_model = fstype @ '' ('' @ mp @ '')'', dev_vendor = None,
         dev_location = Some mp, dev_plugin_id = [], dev_plugin_device_id = safe, dev_sensor_ids = []\<rparr>)"

section \<open>State\<close>

text \<open>50 ms, 5 s, 1 s and 300 s, in nanoseconds; a thread is known by its mount point.\<close>

definition FS_CACHE_TTL :: nat where
  "FS_CACHE_TTL = 50000000"

definition MAX_CONCURRENT_STATVFS :: nat where
  "MAX_CONCURRENT_STATVFS = 8"

definition MAX_DETACHED_HANDLES :: nat where
  "MAX_DETACHED_HANDLES = 32"

definition BACKOFF_BASE :: nat where
  "BACKOFF_BASE = 1000000000"

definition BACKOFF_MAX :: nat where
  "BACKOFF_MAX = 300000000000"

record FsInner =
  fs_sysroot :: "string option"
  fs_mounts :: "(string \<times> string) list"
  fs_cache :: "(string \<times> FsStat) list SnapshotCache option"
  fs_backoff :: "(string \<times> nat) list"
  fs_strikes :: "(string \<times> u32) list"
  fs_permits :: nat
  fs_detached :: "string list"

definition fs_init_inner ::
    "(string \<Rightarrow> FsStat option) \<Rightarrow> env \<Rightarrow> 'j PluginCtx \<Rightarrow> FsInner \<Rightarrow> (PluginManifest, PluginError) result exec \<times> FsInner" where
  "fs_init_inner statvfs E ctx s =
     (let s1 = s\<lparr>fs_sysroot := ctx_sysroot ctx\<rparr>; mtab = read_mtab E (ctx_sysroot ctx);
          mounts = name_mounts 0 mtab []; es = zip mtab mounts
      in case first_err (\<lambda>m. HardwareDeviceKey_try_new (''fs:'' @ snd m)) mounts of
           Some (m, e) \<Rightarrow> (Returns (Err (PluginIo (''fs '' @ snd m @ '': '' @ key_error_to_string e))), s1)
         | None \<Rightarrow>
             (Returns (Ok \<lparr>m_plugin_id = ''com.visorcraft.linsight.fs'', m_display_name = ''Filesystem'',
                m_version = CARGO_PKG_VERSION,
                m_sensors = concat (map (fs_mount_sensors statvfs E (ctx_sysroot ctx)) es), m_devices = map fs_device es\<rparr>),
              s1\<lparr>fs_mounts := mounts\<rparr>))"

section \<open>A pass\<close>

text \<open>What a worker delivered by the deadline.\<close>

datatype stat_outcome = StatOk FsStat | StatErr | StatTimeout

text \<open>
  The threads started in this pass that were not waited for yet, the outcomes so far, and the handles and
  permits of the state. \<open>None\<close>: the pass waits for a permit that nobody will give back.
\<close>

record fs_pass =
  fp_pending :: "(nat \<times> string) list"
  fp_outcomes :: "(string \<times> stat_outcome) list"
  fp_permits :: nat
  fp_handles :: "string list"

definition release_permit :: "nat \<Rightarrow> nat" where
  "release_permit n = min MAX_CONCURRENT_STATVFS (n + 1)"

definition drain_first :: "(nat \<Rightarrow> string \<Rightarrow> stat_outcome) \<Rightarrow> fs_pass \<Rightarrow> fs_pass" where
  "drain_first recv p =
     (case fp_pending p of
        [] \<Rightarrow> p
      | (i, mp) # ps \<Rightarrow>
          p\<lparr>fp_pending := ps, fp_outcomes := fp_outcomes p @ [(mp, recv i mp)], fp_permits := release_permit (fp_permits p)\<rparr>)"

definition start_stat :: "(nat \<Rightarrow> string \<Rightarrow> stat_outcome) \<Rightarrow> nat \<times> string \<Rightarrow> fs_pass \<Rightarrow> fs_pass option" where
  "start_stat recv m p =
     (let p1 = (if MAX_CONCURRENT_STATVFS \<le> length (fp_pending p) then drain_first recv p else p)
      in if MAX_DETACHED_HANDLES \<le> length (fp_handles p1)
         then Some (p1\<lparr>fp_outcomes := fp_outcomes p1 @ [(snd m, StatTimeout)]\<rparr>)
         else if fp_permits p1 = 0 then None
         else Some (p1\<lparr>fp_permits := fp_permits p1 - 1, fp_handles := fp_handles p1 @ [snd m],
                     fp_pending := fp_pending p1 @ [m]\<rparr>))"

fun start_all :: "(nat \<Rightarrow> string \<Rightarrow> stat_outcome) \<Rightarrow> (nat \<times> string) list \<Rightarrow> fs_pass \<Rightarrow> fs_pass option" where
  "start_all recv [] p = Some p"
| "start_all recv (m # ms) p = Option.bind (start_stat recv m p) (start_all recv ms)"

fun drain_all :: "(nat \<Rightarrow> string \<Rightarrow> stat_outcome) \<Rightarrow> (nat \<times> string) list \<Rightarrow> fs_pass \<Rightarrow> fs_pass" where
  "drain_all recv [] p = p\<lparr>fp_pending := []\<rparr>"
| "drain_all recv ((i, mp) # ps) p =
     drain_all recv ps (p\<lparr>fp_outcomes := fp_outcomes p @ [(mp, recv i mp)], fp_permits := release_permit (fp_permits p)\<rparr>)"

definition backoff_for :: "u32 \<Rightarrow> nat" where
  "backoff_for strikes = min (BACKOFF_BASE * 2 ^ min (unat strikes) 8) BACKOFF_MAX"

definition mark_backoff :: "nat \<Rightarrow> string \<Rightarrow> FsInner \<Rightarrow> FsInner" where
  "mark_backoff later mp s =
     (let strikes = saturating_add (case map_of (fs_strikes s) mp of Some n \<Rightarrow> n | None \<Rightarrow> 0) 1
      in s\<lparr>fs_strikes := AList.update mp strikes (fs_strikes s),
           fs_backoff := AList.update mp (later + backoff_for strikes) (fs_backoff s)\<rparr>)"

definition clear_backoff :: "string \<Rightarrow> FsInner \<Rightarrow> FsInner" where
  "clear_backoff mp s = s\<lparr>fs_strikes := AList.delete mp (fs_strikes s), fs_backoff := AList.delete mp (fs_backoff s)\<rparr>"

definition take_outcome :: "nat \<Rightarrow> string \<times> stat_outcome \<Rightarrow> (string \<times> FsStat) list \<times> FsInner \<Rightarrow> (string \<times> FsStat) list \<times> FsInner" where
  "take_outcome later o0 st =
     (case snd o0 of
        StatOk v \<Rightarrow> (AList.update (fst o0) v (fst st), clear_backoff (fst o0) (snd st))
      | StatErr \<Rightarrow> st
      | StatTimeout \<Rightarrow> (fst st, mark_backoff later (fst o0) (snd st)))"

definition eligible :: "nat \<Rightarrow> FsInner \<Rightarrow> string list" where
  "eligible now s =
     map fst (filter (\<lambda>m. case map_of (fs_backoff s) (fst m) of None \<Rightarrow> True | Some until \<Rightarrow> until \<le> now) (fs_mounts s))"

definition snapshot_with ::
    "nat \<Rightarrow> nat \<Rightarrow> (string \<Rightarrow> bool) \<Rightarrow> (nat \<Rightarrow> string \<Rightarrow> stat_outcome) \<Rightarrow> FsInner \<Rightarrow>
     (((string \<times> FsStat) list, PluginError) result \<times> FsInner) option" where
  "snapshot_with now later finished recv s =
     (case Option.bind (fs_cache s) (SnapshotCache_get now FS_CACHE_TTL) of
        Some stats \<Rightarrow> Some (Ok stats, s)
      | None \<Rightarrow>
          (let mounts = eligible now s
           in if mounts = [] then Some (Err (Unsupported ''all filesystem mounts backed off after timeouts''), s)
              else map_option (\<lambda>p1.
                let p2 = drain_all recv (fp_pending p1) p1;
                    (stats, s2) = fold (take_outcome later) (fp_outcomes p2)
                                    ([], s\<lparr>fs_permits := fp_permits p2, fs_detached := fp_handles p2\<rparr>)
                in if stats = [] then (Err (Unsupported ''fs snapshot: all available mounts timed out''), s2)
                   else (Ok stats, s2\<lparr>fs_cache := Some (SnapshotCache_new later stats)\<rparr>))
                (start_all recv (enumerate 0 mounts)
                   \<lparr>fp_pending = [], fp_outcomes = [], fp_permits = fs_permits s,
                    fp_handles = filter (\<lambda>h. \<not> finished h) (fs_detached s)\<rparr>)))"

definition fs_value :: "string \<Rightarrow> FsStat \<Rightarrow> u64 option" where
  "fs_value metric st =
     (case st of (capacity, avail, inodes, inodes_free) \<Rightarrow>
        if metric = ''total_bytes'' then Some capacity
        else if metric = ''used_bytes'' then Some (saturating_sub capacity avail)
        else if metric = ''avail_bytes'' then Some avail
        else if metric = ''inodes_total'' then Some inodes
        else if metric = ''inodes_used'' then Some (saturating_sub inodes inodes_free)
        else None)"

definition fs_sample_inner ::
    "nat \<Rightarrow> nat \<Rightarrow> (string \<Rightarrow> bool) \<Rightarrow> (nat \<Rightarrow> string \<Rightarrow> stat_outcome) \<Rightarrow> SensorId \<Rightarrow> FsInner \<Rightarrow>
     ((Reading, PluginError) result \<times> FsInner) option" where
  "fs_sample_inner now later finished recv sensor s =
     (case split_metric_id ''fs.'' sensor of
        None \<Rightarrow> Some (Err (Unsupported sensor), s)
      | Some (safe, metric) \<Rightarrow>
          (case find (\<lambda>m. snd m = safe) (fs_mounts s) of
             None \<Rightarrow> Some (Err (Unsupported sensor), s)
           | Some (mp, _) \<Rightarrow>
               map_option (\<lambda>(r, s1).
                 (result_bind r (\<lambda>stats.
                    case map_of stats mp of
                      None \<Rightarrow> Err (Unsupported (''fs '' @ safe @ '' not in snapshot''))
                    | Some st \<Rightarrow>
                        (case fs_value metric st of None \<Rightarrow> Err (Unsupported sensor) | Some v \<Rightarrow> Ok (Scalar (fl_of_u64 v)))), s1))
                 (snapshot_with now later finished recv s)))"

section \<open>The semaphore\<close>

definition permits_inv :: "fs_pass \<Rightarrow> bool" where
  "permits_inv p \<longleftrightarrow> fp_permits p + length (fp_pending p) = MAX_CONCURRENT_STATVFS"

lemma drain_first_inv: "permits_inv p \<Longrightarrow> permits_inv (drain_first recv p)"
  by (auto simp: permits_inv_def drain_first_def release_permit_def split: list.split)

lemma start_stat_inv:
  assumes "permits_inv p"
  shows "\<exists>p'. start_stat recv m p = Some p' \<and> permits_inv p'"
proof -
  let ?p1 = "if MAX_CONCURRENT_STATVFS \<le> length (fp_pending p) then drain_first recv p else p"
  have inv: "permits_inv ?p1" using assms drain_first_inv by simp
  have "0 < fp_permits ?p1"
    using assms by (auto simp: permits_inv_def drain_first_def release_permit_def MAX_CONCURRENT_STATVFS_def split: list.split)
  then show ?thesis using inv by (auto simp: start_stat_def Let_def permits_inv_def)
qed

lemma start_all_inv: "permits_inv p \<Longrightarrow> \<exists>p'. start_all recv ms p = Some p' \<and> permits_inv p'"
proof (induction ms arbitrary: p)
  case (Cons m ms)
  then show ?case using start_stat_inv [OF Cons.prems, of recv m] by force
qed simp

lemma drain_all_fields:
  "fp_outcomes (drain_all recv ps p) = fp_outcomes p @ map (\<lambda>(i, mp). (mp, recv i mp)) ps"
  "fp_handles (drain_all recv ps p) = fp_handles p"
  by (induction recv ps p rule: drain_all.induct) auto

lemma drain_all_permits:
  "fp_permits p + length ps = MAX_CONCURRENT_STATVFS \<Longrightarrow> fp_permits (drain_all recv ps p) = MAX_CONCURRENT_STATVFS"
  by (induction recv ps p rule: drain_all.induct) (auto simp: release_permit_def)

lemma take_outcome_rest:
  "fs_permits (snd (fold (take_outcome t) os st)) = fs_permits (snd st)"
  "fs_detached (snd (fold (take_outcome t) os st)) = fs_detached (snd st)"
  "fs_mounts (snd (fold (take_outcome t) os st)) = fs_mounts (snd st)"
  by (induction os arbitrary: st)
    (auto simp: take_outcome_def mark_backoff_def clear_backoff_def Let_def split: stat_outcome.split)

section \<open>What a pass does\<close>

text \<open>What happens to the \<open>i\<close>-th mount when \<open>h\<close> old threads still hang.\<close>

definition outcome_at :: "nat \<Rightarrow> (nat \<Rightarrow> string \<Rightarrow> stat_outcome) \<Rightarrow> nat \<times> string \<Rightarrow> string \<times> stat_outcome" where
  "outcome_at h recv m = (snd m, if h + fst m < MAX_DETACHED_HANDLES then recv (fst m) (snd m) else StatTimeout)"

abbreviation arrived :: "(nat \<Rightarrow> string \<Rightarrow> stat_outcome) \<Rightarrow> fs_pass \<Rightarrow> (string \<times> stat_outcome) list" where
  "arrived recv p \<equiv> fp_outcomes p @ map (\<lambda>(i, mp). (mp, recv i mp)) (fp_pending p)"

lemma start_stat_received:
  assumes "start_stat recv m p = Some p'" and "length (fp_handles p) = min MAX_DETACHED_HANDLES (h + fst m)"
  shows "mset (arrived recv p') = mset (arrived recv p) + {#outcome_at h recv m#}
     \<and> length (fp_handles p') = min MAX_DETACHED_HANDLES (h + Suc (fst m))"
proof -
  let ?p1 = "if MAX_CONCURRENT_STATVFS \<le> length (fp_pending p) then drain_first recv p else p"
  have r: "arrived recv ?p1 = arrived recv p" "fp_handles ?p1 = fp_handles p"
    by (auto simp: drain_first_def split: list.split)
  let ?f = "\<lambda>(i, mp). (mp, recv i mp)"
  have rm: "mset (fp_outcomes ?p1) + mset (map ?f (fp_pending ?p1)) = mset (arrived recv p)"
    using arg_cong [OF r(1), of mset] by (simp only: mset_append)
  show ?thesis
  proof (cases "MAX_DETACHED_HANDLES \<le> length (fp_handles p)")
    case True
    then have p': "p' = ?p1\<lparr>fp_outcomes := fp_outcomes ?p1 @ [(snd m, StatTimeout)]\<rparr>"
      using assms(1) r(2) by (simp add: start_stat_def Let_def)
    have o: "outcome_at h recv m = (snd m, StatTimeout)" using True assms(2) by (simp add: outcome_at_def)
    have "mset (arrived recv p') = mset (fp_outcomes ?p1) + {#(snd m, StatTimeout)#} + mset (map ?f (fp_pending ?p1))"
      unfolding p' by simp
    also have "\<dots> = mset (arrived recv p) + {#outcome_at h recv m#}" unfolding o rm [symmetric] by simp
    finally show ?thesis using True assms(2) r(2) unfolding p' by simp
  next
    case False
    then have p': "p' = ?p1\<lparr>fp_permits := fp_permits ?p1 - 1, fp_handles := fp_handles ?p1 @ [snd m], fp_pending := fp_pending ?p1 @ [m]\<rparr>"
      using assms(1) r(2) by (simp add: start_stat_def Let_def split: if_splits)
    have o: "outcome_at h recv m = ?f m" using False assms(2) by (cases m) (simp add: outcome_at_def)
    have "mset (arrived recv p') = mset (fp_outcomes ?p1) + mset (map ?f (fp_pending ?p1)) + {#?f m#}"
      unfolding p' by simp
    also have "\<dots> = mset (arrived recv p) + {#outcome_at h recv m#}" unfolding o rm [symmetric] by simp
    finally show ?thesis using False assms(2) r(2) unfolding p' by simp
  qed
qed

lemma start_all_received:
  assumes "start_all recv (enumerate k ms) p = Some p'" and "length (fp_handles p) = min MAX_DETACHED_HANDLES (h + k)"
  shows "mset (arrived recv p') = mset (arrived recv p) + mset (map (outcome_at h recv) (enumerate k ms))"
  using assms
proof (induction ms arbitrary: k p)
  case (Cons m ms)
  then obtain p1 where p1: "start_stat recv (k, m) p = Some p1" "start_all recv (enumerate (Suc k) ms) p1 = Some p'"
    by (auto simp: bind_eq_Some_conv)
  have s: "mset (arrived recv p1) = mset (arrived recv p) + {#outcome_at h recv (k, m)#}"
      "length (fp_handles p1) = min MAX_DETACHED_HANDLES (h + Suc k)"
    using start_stat_received [OF p1(1)] Cons.prems(2) by simp_all
  show ?case using Cons.IH [OF p1(2) s(2)] s(1) by simp
qed simp

lemma take_outcome_other:
  assumes "mp \<notin> fst ` set os"
  shows "map_of (fst (fold (take_outcome t) os st)) mp = map_of (fst st) mp
    \<and> map_of (fs_backoff (snd (fold (take_outcome t) os st))) mp = map_of (fs_backoff (snd st)) mp
    \<and> map_of (fs_strikes (snd (fold (take_outcome t) os st))) mp = map_of (fs_strikes (snd st)) mp"
  using assms
  by (induction os arbitrary: st)
    (auto simp: take_outcome_def mark_backoff_def clear_backoff_def Let_def update_conv' delete_conv' split: stat_outcome.split)

text \<open>What one outcome makes of the entries of its mount.\<close>

definition outcome_effect ::
    "nat \<Rightarrow> FsInner \<Rightarrow> string \<Rightarrow> stat_outcome \<Rightarrow> FsStat option \<times> nat option \<times> u32 option" where
  "outcome_effect later s mp o0 =
     (case o0 of
        StatOk v \<Rightarrow> (Some v, None, None)
      | StatErr \<Rightarrow> (None, map_of (fs_backoff s) mp, map_of (fs_strikes s) mp)
      | StatTimeout \<Rightarrow>
          (let n = saturating_add (case map_of (fs_strikes s) mp of Some n \<Rightarrow> n | None \<Rightarrow> 0) 1
           in (None, Some (later + backoff_for n), Some n)))"

lemma take_outcomes:
  assumes "distinct (map fst os)" and "(mp, x) \<in> set os" and "map_of (fst st) mp = None"
  shows "(map_of (fst (fold (take_outcome t) os st)) mp, map_of (fs_backoff (snd (fold (take_outcome t) os st))) mp,
      map_of (fs_strikes (snd (fold (take_outcome t) os st))) mp) = outcome_effect t (snd st) mp x"
  using assms
proof (induction os arbitrary: st)
  case (Cons e os)
  show ?case
  proof (cases "e = (mp, x)")
    case True
    then have "mp \<notin> fst ` set os" using Cons.prems(1) by auto
    note rest = take_outcome_other [OF this, of t "take_outcome t e st"]
    have "(map_of (fst (take_outcome t e st)) mp, map_of (fs_backoff (snd (take_outcome t e st))) mp,
        map_of (fs_strikes (snd (take_outcome t e st))) mp) = outcome_effect t (snd st) mp x"
      using True Cons.prems(3)
      by (auto simp: take_outcome_def outcome_effect_def mark_backoff_def clear_backoff_def Let_def update_conv' delete_conv'
          split: stat_outcome.split)
    then show ?thesis using rest by (simp only: fold_simps)
  next
    case False
    then have "(mp, x) \<in> set os" "fst e \<noteq> mp" using Cons.prems by (auto simp: image_iff)
    moreover have "map_of (fst (take_outcome t e st)) mp = None \<and>
        outcome_effect t (snd (take_outcome t e st)) mp x = outcome_effect t (snd st) mp x"
      using \<open>fst e \<noteq> mp\<close> Cons.prems(3)
      by (auto simp: take_outcome_def outcome_effect_def mark_backoff_def clear_backoff_def Let_def update_conv' delete_conv'
          split: stat_outcome.split)
    ultimately show ?thesis using Cons.IH [of "take_outcome t e st"] Cons.prems(1) by simp
  qed
qed simp

lemma pass_started:
  assumes "fs_permits s = MAX_CONCURRENT_STATVFS"
  obtains p where "start_all recv ms \<lparr>fp_pending = [], fp_outcomes = [], fp_permits = fs_permits s, fp_handles = hs\<rparr> = Some p"
    and "fp_permits p + length (fp_pending p) = MAX_CONCURRENT_STATVFS"
  using start_all_inv [of "\<lparr>fp_pending = [], fp_outcomes = [], fp_permits = fs_permits s, fp_handles = hs\<rparr>" recv ms] assms
  by (auto simp: permits_inv_def)

lemma snapshot_returns:
  assumes "fs_permits s = MAX_CONCURRENT_STATVFS"
  shows "\<exists>r s'. snapshot_with now later finished recv s = Some (r, s') \<and> fs_permits s' = MAX_CONCURRENT_STATVFS"
proof -
  obtain p where p: "start_all recv (enumerate 0 (eligible now s)) \<lparr>fp_pending = [], fp_outcomes = [], fp_permits = fs_permits s,
      fp_handles = filter (\<lambda>h. \<not> finished h) (fs_detached s)\<rparr> = Some p"
      "fp_permits p + length (fp_pending p) = MAX_CONCURRENT_STATVFS"
    using pass_started [OF assms] by metis
  show ?thesis
    using p(1) assms drain_all_permits [OF p(2), of recv]
    by (auto simp: snapshot_with_def Let_def take_outcome_rest split: option.split prod.split
        dest!: arg_cong [of _ _ snd])
qed
text \<open>
  A sample never waits for a permit of the semaphore, however many mounts there are and however many
  of them hang, and it leaves all permits free again.
\<close>

theorem fs_never_blocks:
  assumes "fs_permits s = MAX_CONCURRENT_STATVFS"
  shows "\<exists>r s'. fs_sample_inner now later finished recv sensor s = Some (r, s') \<and> fs_permits s' = MAX_CONCURRENT_STATVFS"
proof -
  obtain r s' where "snapshot_with now later finished recv s = Some (r, s')" "fs_permits s' = MAX_CONCURRENT_STATVFS"
    using snapshot_returns [OF assms] by blast
  then show ?thesis using assms by (auto simp: fs_sample_inner_def split: option.split)
qed

lemma fs_pass_spec:
  assumes "fs_permits s = MAX_CONCURRENT_STATVFS" and "Option.bind (fs_cache s) (SnapshotCache_get now FS_CACHE_TTL) = None"
    and "distinct (eligible now s)" and "i < length (eligible now s)"
    and "h = length (filter (\<lambda>h. \<not> finished h) (fs_detached s))" and "h \<le> MAX_DETACHED_HANDLES"
    and "snapshot_with now later finished recv s = Some (r, s')"
  shows "let mp = eligible now s ! i in
    (Option.bind (result_ok r) (\<lambda>stats. map_of stats mp), map_of (fs_backoff s') mp, map_of (fs_strikes s') mp)
     = outcome_effect later s mp (if h + i < MAX_DETACHED_HANDLES then recv i mp else StatTimeout)"
proof -
  let ?ms = "eligible now s" and ?mp = "eligible now s ! i"
  let ?p0 = "\<lparr>fp_pending = [], fp_outcomes = [], fp_permits = fs_permits s, fp_handles = filter (\<lambda>h. \<not> finished h) (fs_detached s)\<rparr>"
  obtain p where p: "start_all recv (enumerate 0 ?ms) ?p0 = Some p" using pass_started [OF assms(1)] by metis
  define os where "os = fp_outcomes (drain_all recv (fp_pending p) p)"
  have "mset os = mset (map (outcome_at h recv) (enumerate 0 ?ms))"
    using start_all_received [OF p, of h] assms(5,6) by (simp add: os_def drain_all_fields)
  then have set_os: "set os = outcome_at h recv ` set (enumerate 0 ?ms)" and "mset (map fst os) = mset (map fst (map (outcome_at h recv) (enumerate 0 ?ms)))"
    by (metis list.set_map set_mset_mset) (metis \<open>mset os = _\<close> mset_map)
  moreover have "map fst (map (outcome_at h recv) (enumerate 0 ?ms)) = ?ms" by (simp add: outcome_at_def comp_def)
  ultimately have d: "distinct (map fst os)" using assms(3) by (metis mset_eq_imp_distinct_iff)
  have "(i, ?mp) \<in> set (enumerate 0 ?ms)" using assms(4) by (simp add: in_set_enumerate_eq)
  then have x: "(?mp, if h + i < MAX_DETACHED_HANDLES then recv i ?mp else StatTimeout) \<in> set os"
    unfolding set_os by (force simp: outcome_at_def)
  let ?s0 = "s\<lparr>fs_permits := fp_permits (drain_all recv (fp_pending p) p), fs_detached := fp_handles (drain_all recv (fp_pending p) p)\<rparr>"
  have eff: "outcome_effect later ?s0 mp x = outcome_effect later s mp x" for mp x
    by (simp add: outcome_effect_def split: stat_outcome.split)
  note res = take_outcomes [OF d x, of "([], ?s0)" later, unfolded snd_conv fst_conv eff, simplified]
  obtain stats s2 where f: "fold (take_outcome later) os ([], ?s0) = (stats, s2)" by fastforce
  have ne: "?ms \<noteq> []" using assms(4) by auto
  have "snapshot_with now later finished recv s = Some
      (if stats = [] then (Err (Unsupported ''fs snapshot: all available mounts timed out''), s2)
       else (Ok stats, s2\<lparr>fs_cache := Some (SnapshotCache_new later stats)\<rparr>))"
    using assms(2) ne f by (simp add: snapshot_with_def p os_def Let_def)
  then show ?thesis
    using assms(7) res f by (auto simp: Let_def split: if_splits)
qed


text \<open>
  With more than 32 mounts, all of them healthy and answering at once, those after the 32nd are never
  asked: each pass counts them as timed out and backs them off for longer.
\<close>

theorem fs_healthy_mount_starves:
  assumes "fs_permits s = MAX_CONCURRENT_STATVFS" and "Option.bind (fs_cache s) (SnapshotCache_get now FS_CACHE_TTL) = None"
    and "distinct (eligible now s)" and "32 \<le> i" and "i < length (eligible now s)" and "fs_detached s = []"
    and "\<forall>i mp. \<exists>v. recv i mp = StatOk v" and "snapshot_with now later finished recv s = Some (r, s')"
  shows "let mp = eligible now s ! i; n = saturating_add (case map_of (fs_strikes s) mp of Some n \<Rightarrow> n | None \<Rightarrow> 0) 1
     in map_of (fs_backoff s') mp = Some (later + backoff_for n) \<and> map_of (fs_strikes s') mp = Some n
        \<and> Option.bind (result_ok r) (\<lambda>stats. map_of stats mp) = None"
proof -
  let ?mp = "eligible now s ! i"
  have "(Option.bind (result_ok r) (\<lambda>stats. map_of stats ?mp), map_of (fs_backoff s') ?mp, map_of (fs_strikes s') ?mp)
     = outcome_effect later s ?mp (if 0 + i < MAX_DETACHED_HANDLES then recv i ?mp else StatTimeout)"
    using fs_pass_spec [OF assms(1-3,5) _ _ assms(8), of 0] assms(6) by (simp add: Let_def)
  moreover have "\<not> i < MAX_DETACHED_HANDLES" using assms(4) by (simp add: MAX_DETACHED_HANDLES_def)
  ultimately show ?thesis by (simp add: outcome_effect_def Let_def)
qed

text \<open>
  A back-off lasts from 2 to 256 seconds, twice as long after every further time-out until then.
\<close>

theorem fs_backoff_schedule:
  assumes "1 \<le> n"
  shows "backoff_for n = min (2 ^ unat n) 256 * 1000000000"
proof (cases "unat n < 9")
  case True
  then have "(2 :: nat) ^ unat n \<le> 2 ^ 8" by (intro power_increasing) simp_all
  then show ?thesis using True by (auto simp: backoff_for_def BACKOFF_BASE_def BACKOFF_MAX_def min_def)
next
  case False
  then have "(2 :: nat) ^ 8 \<le> 2 ^ unat n" by (intro power_increasing) simp_all
  then show ?thesis using False by (auto simp: backoff_for_def BACKOFF_BASE_def BACKOFF_MAX_def min_def)
qed

section \<open>Names\<close>

lemma name_mounts_base:
  "(src, mp, fstype) \<in> set ms \<Longrightarrow> \<exists>sfx. (mp, mount_safekey mp @ sfx) \<in> set (name_mounts i ms taken)"
proof (induction ms arbitrary: i taken)
  case (Cons m ms)
  obtain a b c where m: "m = (a, b, c)" by (cases m)
  show ?case
  proof (cases "(src, mp, fstype) = m")
    case True
    then show ?thesis by (auto simp: m Let_def intro: exI [of _ "[]"])
  next
    case False
    then have "(src, mp, fstype) \<in> set ms" using Cons.prems by auto
    from Cons.IH [OF this] show ?thesis by (simp add: m Let_def) blast
  qed
qed simp

lemma dropWhile_keeps: "x \<in> set xs \<Longrightarrow> \<not> P x \<Longrightarrow> x \<in> set (dropWhile P xs)"
  by (induction xs) auto

lemma replace_keeps: "c \<in> set s \<Longrightarrow> c \<noteq> a \<Longrightarrow> c \<in> set (map (\<lambda>x. if x = a then b else x) s)"
  by (induction s) auto

lemma safekey_keeps:
  assumes "c \<in> set mp" and "c \<noteq> CHR ''/''"
  shows "c \<in> set (mount_safekey mp)"
proof -
  have c: "c \<in> set (dropWhile (\<lambda>c. c = CHR ''/'') mp)" using assms by (rule dropWhile_keeps)
  have "dropWhile (\<lambda>c. c = CHR ''/'') mp \<noteq> []" using c by (metis empty_iff list.set(1))
  then show ?thesis unfolding mount_safekey_def Let_def using replace_keeps [OF c assms(2)] by (simp only: if_False)
qed

text \<open>
  C0: A space in a mount point is written \<^verbatim>\<open>\\040\<close> in the table, and no key may hold a backslash: one such
  mount fails the whole plugin, no file system is offered.
\<close>

theorem fs_escaped_mount_fails_all:
  assumes "(src, mp, fstype) \<in> set (read_mtab E (ctx_sysroot ctx))" and "CHR 0x5C \<in> set mp"
  shows "\<exists>msg. fst (fs_init_inner statvfs E ctx s) = Returns (Err (PluginIo msg))"
proof -
  obtain sfx where n: "(mp, mount_safekey mp @ sfx) \<in> set (name_mounts 0 (read_mtab E (ctx_sysroot ctx)) [])"
    using name_mounts_base [OF assms(1)] by metis
  have "CHR 0x5C \<in> set (mount_safekey mp)" using safekey_keeps [OF assms(2)] by simp
  then obtain m where m: "m \<in> set (name_mounts 0 (read_mtab E (ctx_sysroot ctx)) [])" "CHR 0x5C \<in> set (snd m)"
    using n by (metis Un_iff set_append snd_conv)
  have bad: "\<not> key_char_ok CHR 0x5C" by code_simp
  have "CHR '':'' \<notin> set ''fs''" by simp
  then have "\<not> wf_key (''fs'' @ CHR '':'' # snd m)" using wf_key_chars [of "''fs''" "snd m"] m(2) bad by blast
  then have "\<not> wf_key (''fs:'' @ snd m)" by simp
  then have no: "HardwareDeviceKey_try_new (''fs:'' @ snd m) \<noteq> Ok k" for k unfolding key_try_new_Ok by blast
  have "first_err (\<lambda>m. HardwareDeviceKey_try_new (''fs:'' @ snd m)) (name_mounts 0 (read_mtab E (ctx_sysroot ctx)) []) \<noteq> None"
    unfolding first_err_None using m(1) no by blast
  then obtain x e where f: "first_err (\<lambda>m. HardwareDeviceKey_try_new (''fs:'' @ snd m)) (name_mounts 0 (read_mtab E (ctx_sysroot ctx)) []) = Some (x, e)"
    by fast
  show ?thesis unfolding fs_init_inner_def Let_def f option.case prod.case fst_conv by blast
qed

lemma nvme_controller_of: "ctrl \<noteq> [] \<Longrightarrow> list_all is_ascii_digit ctrl \<Longrightarrow> nvme_controller (''nvme'' @ ctrl @ CHR ''n'' # ns) = ''nvme'' @ ctrl"
proof -
  assume c: "ctrl \<noteq> []" "list_all is_ascii_digit ctrl"
  have "\<not> is_ascii_digit CHR ''n''" by code_simp
  then have "CHR ''n'' \<notin> set ctrl" using c(2) by (auto simp: list_all_iff)
  then have "split_once CHR ''n'' (ctrl @ CHR ''n'' # ns) = Some (ctrl, ns)" by (simp add: split_once_Some)
  then show ?thesis using c by (simp add: nvme_controller_def)
qed

text \<open>The number that keeps two names apart may itself make a name that is taken.\<close>

lemma fs_names_collide:
  "map snd (name_mounts 0 [(''/dev/sda1'', ''/mnt/b_3'', ''ext4''), (''/dev/sda2'', ''/mnt/b'', ''ext4''),
     (''/dev/sda3'', ''/mnt_b'', ''ext4'')] []) = [''mnt_b_3'', ''mnt_b'', ''mnt_b_3'']"
  by code_simp

section \<open>Witnesses\<close>

definition demo_mounts :: "nat \<Rightarrow> FsInner" where
  "demo_mounts n =
     \<lparr>fs_sysroot = None, fs_mounts = map (\<lambda>i. (show_nat i, show_nat i)) [0..<n], fs_cache = None, fs_backoff = [],
      fs_strikes = [], fs_permits = 8, fs_detached = []\<rparr>"

lemma demo_eligible: "eligible now (demo_mounts n) = map show_nat [0..<n]"
  by (simp add: eligible_def demo_mounts_def comp_def)

lemma demo_distinct: "distinct (eligible now (demo_mounts n))"
proof -
  have "inj show_nat" by (metis dec_value_show_nat injI)
  then have "inj_on show_nat (set [0..<n])" by (rule inj_on_subset) simp
  then show ?thesis by (simp add: demo_eligible distinct_map)
qed

lemma demo_permits: "fs_permits (demo_mounts n) = MAX_CONCURRENT_STATVFS"
  by (simp add: demo_mounts_def MAX_CONCURRENT_STATVFS_def)

theorem fs_never_blocks_witness:
  "\<exists>r s'. fs_sample_inner 0 5 (\<lambda>_. False) (\<lambda>_ _. StatTimeout) ''fs.7.used_bytes'' (demo_mounts 100) = Some (r, s')
     \<and> fs_permits s' = MAX_CONCURRENT_STATVFS"
  by (rule fs_never_blocks) (rule demo_permits)


theorem fs_healthy_mount_starves_witness:
  "\<exists>r s'. snapshot_with 0 5 (\<lambda>_. True) (\<lambda>_ _. StatOk (9, 9, 9, 9)) (demo_mounts 33) = Some (r, s')
     \<and> map_of (fs_strikes s') (eligible 0 (demo_mounts 33) ! 32) = Some 1"
proof -
  obtain r s' where r: "snapshot_with 0 5 (\<lambda>_. True) (\<lambda>_ _. StatOk (9, 9, 9, 9)) (demo_mounts 33) = Some (r, s')"
    using snapshot_returns [OF demo_permits] by blast
  have len: "32 < length (eligible 0 (demo_mounts 33))" unfolding demo_eligible by simp
  have c: "Option.bind (fs_cache (demo_mounts 33)) (SnapshotCache_get 0 FS_CACHE_TTL) = None"
    and d: "fs_detached (demo_mounts 33) = []" and st: "fs_strikes (demo_mounts 33) = []" by (simp_all add: demo_mounts_def)
  have ok: "\<forall>(i :: nat) (mp :: string). \<exists>v. (\<lambda>_ _. StatOk (9, 9, 9, 9)) i mp = StatOk v" by simp
  from fs_healthy_mount_starves [OF demo_permits c demo_distinct order_refl len d ok r]
  have "map_of (fs_strikes s') (eligible 0 (demo_mounts 33) ! 32) = Some 1"
    by (simp add: Let_def st saturating_add_def)
  then show ?thesis using r by blast
qed

theorem fs_backoff_schedule_witness: "backoff_for 3 = 8000000000"
proof -
  have "(1 :: u32) \<le> 3" by simp
  from fs_backoff_schedule [OF this] show ?thesis by simp
qed

definition demo_usb :: env where
  "demo_usb =
     \<lparr>env_file = (\<lambda>p. if p = ''/etc/mtab'' then FileText (''/dev/sda1 / ext4 rw 0 0'' @ CHR 0x0A # ''/dev/sdb1 /media/My'' @ CHR 0x5C # ''040Disk vfat rw 0 0'')
                      else FileError ''not found''),
      env_dir = (\<lambda>_. DirMissing), env_exists = (\<lambda>_. True), env_link = (\<lambda>_. None), env_now = 0\<rparr>"

theorem fs_escaped_mount_fails_all_witness:
  "\<exists>msg. fst (fs_init_inner (\<lambda>_. None) demo_usb \<lparr>ctx_sysroot = None, ctx_config = ()\<rparr> (demo_mounts 0)) = Returns (Err (PluginIo msg))"
proof -
  have "read_mtab demo_usb None = [(''/dev/sda1'', ''/'', ''ext4''), (''/dev/sdb1'', ''/media/My'' @ CHR 0x5C # ''040Disk'', ''vfat'')]"
    by code_simp
  then have m: "(''/dev/sdb1'', ''/media/My'' @ CHR 0x5C # ''040Disk'', ''vfat'')
      \<in> set (read_mtab demo_usb (ctx_sysroot \<lparr>ctx_sysroot = None, ctx_config = ()\<rparr>))" by simp
  show ?thesis by (rule fs_escaped_mount_fails_all [OF m]) simp
qed

end
