(* ===== verification/Sensors_System.thy ===== *)
theory Sensors_System
  imports Sensor_Lib
begin

text \<open>
  Load, uptime, pressure and thermal zones (\<^verbatim>\<open>crates/linsight-sensors/system\<close>). A sample reads all
  sources into a snapshot that serves for 50 ms. The only panic of the plugin is a slice of one sensor id;
  after it the mutex is poisoned.
\<close>

section \<open>Sources\<close>

text \<open>50 ms, in nanoseconds.\<close>

definition SYSTEM_CACHE_TTL :: nat where
  "SYSTEM_CACHE_TTL = 50000000"

definition read_line :: "env \<Rightarrow> string \<Rightarrow> (string, PluginError) result" where
  "read_line E p = result_bind (read_small_file 256 E p) (\<lambda>s. Ok (trim s))"

record LoadAvg =
  la_load_1m :: fl
  la_load_5m :: fl
  la_load_15m :: fl
  la_procs_running :: u64
  la_procs_total :: u64

definition load_field :: "string \<Rightarrow> string list \<Rightarrow> nat \<Rightarrow> (fl, PluginError) result" where
  "load_field path toks i =
     (case parse_f64 (toks ! i) of
        Some v \<Rightarrow> Ok v
      | None \<Rightarrow> Err (PluginParse (path @ '' field '' @ show_nat i @ '': invalid float literal'')))"

definition procs_field :: "string \<Rightarrow> (u64 \<times> u64) option" where
  "procs_field s =
     Option.bind (split_once CHR ''/'' s) (\<lambda>(a, b).
       Option.bind (parse_u64 a) (\<lambda>r. map_option (\<lambda>t. (r, t)) (parse_u64 b)))"

definition read_loadavg :: "env \<Rightarrow> string option \<Rightarrow> (LoadAvg, PluginError) result" where
  "read_loadavg E sysroot =
     (let path = sys_path sysroot ''proc/loadavg''
      in result_bind (read_line E path) (\<lambda>s.
           let toks = split_whitespace s
           in if length toks < 5
              then Err (PluginParse (path @ '': expected 5 whitespace fields, got '' @ show_nat (length toks)))
              else result_bind (load_field path toks 0) (\<lambda>a. result_bind (load_field path toks 1) (\<lambda>b.
                   result_bind (load_field path toks 2) (\<lambda>c.
                     case procs_field (toks ! 3) of
                       None \<Rightarrow> Err (PluginParse (path @ '' field 3: '' @ toks ! 3))
                     | Some (r, t) \<Rightarrow>
                         Ok \<lparr>la_load_1m = a, la_load_5m = b, la_load_15m = c, la_procs_running = r, la_procs_total = t\<rparr>)))))"

definition read_uptime :: "env \<Rightarrow> string option \<Rightarrow> (fl, PluginError) result" where
  "read_uptime E sysroot =
     (let path = sys_path sysroot ''proc/uptime''
      in result_bind (read_line E path) (\<lambda>s.
           case split_whitespace s of
             [] \<Rightarrow> Err (PluginParse (path @ '': empty''))
           | u # _ \<Rightarrow> (case parse_f64 u of Some v \<Rightarrow> Ok v | None \<Rightarrow> Err (PluginParse (path @ '': invalid float literal'')))))"

text \<open>\<^verbatim>\<open>find_map\<close>.\<close>

fun find_map :: "('a \<Rightarrow> 'b option) \<Rightarrow> 'a list \<Rightarrow> 'b option" where
  "find_map f [] = None"
| "find_map f (x # xs) = (case f x of Some y \<Rightarrow> Some y | None \<Rightarrow> find_map f xs)"

type_synonym psi = "fl \<times> fl \<times> fl"

definition parse_psi_avgs :: "string \<Rightarrow> psi option" where
  "parse_psi_avgs input =
     (let toks = split_whitespace input; avg = (\<lambda>key. Option.bind (find_map (strip_prefix key) toks) parse_f64)
      in Option.bind (avg ''avg10='') (\<lambda>a. Option.bind (avg ''avg60='') (\<lambda>b.
           map_option (\<lambda>c. (a, b, c)) (avg ''avg300=''))))"

definition read_psi :: "string \<Rightarrow> env \<Rightarrow> string option \<Rightarrow> string \<Rightarrow> (psi, PluginError) result" where
  "read_psi kind E sysroot resource =
     result_bind (read_line E (sys_path sysroot (''proc/pressure/'' @ resource))) (\<lambda>s.
       case find_map (strip_prefix (kind @ '' '')) (str_lines s) of
         None \<Rightarrow> Err (PluginParse (resource @ '': no '' @ CHR 0x27 # kind @ CHR 0x27 # '' line''))
       | Some rest \<Rightarrow>
           (case parse_psi_avgs rest of
              Some v \<Rightarrow> Ok v
            | None \<Rightarrow> Err (PluginParse (resource @ '' '' @ kind @ '' malformed''))))"

definition read_stat_counter :: "string \<Rightarrow> env \<Rightarrow> string option \<Rightarrow> (u64, PluginError) result" where
  "read_stat_counter key E sysroot =
     (let path = sys_path sysroot ''proc/stat''
      in case read_to_string E path of
           Err e \<Rightarrow> Err (PluginIo (path @ '': '' @ e))
         | Ok s \<Rightarrow>
             (case find_map (strip_prefix (key @ '' '')) (str_lines s) of
                None \<Rightarrow> Err (PluginParse (path @ '': missing '' @ key @ '' line''))
              | Some rest \<Rightarrow>
                  (case parse_u64 (trim rest) of
                     Some v \<Rightarrow> Ok v
                   | None \<Rightarrow> Err (PluginParse (key @ '': '' @ int_error False (trim rest))))))"

text \<open>The code writes each function twice, once for each key.\<close>

definition read_psi_some :: "env \<Rightarrow> string option \<Rightarrow> string \<Rightarrow> (psi, PluginError) result" where
  "read_psi_some E sysroot resource = read_psi ''some'' E sysroot resource"

definition read_psi_full :: "env \<Rightarrow> string option \<Rightarrow> string \<Rightarrow> (psi, PluginError) result" where
  "read_psi_full E sysroot resource = read_psi ''full'' E sysroot resource"

definition read_ctxt :: "env \<Rightarrow> string option \<Rightarrow> (u64, PluginError) result" where
  "read_ctxt E sysroot = read_stat_counter ''ctxt'' E sysroot"

definition read_processes :: "env \<Rightarrow> string option \<Rightarrow> (u64, PluginError) result" where
  "read_processes E sysroot = read_stat_counter ''processes'' E sysroot"

section \<open>Thermal zones\<close>

record ThermalZone =
  tz_label :: string
  tz_safe_label :: string
  tz_temp_path :: string

definition base_safe_label :: "string \<Rightarrow> string" where
  "base_safe_label label =
     map (\<lambda>c. if is_ascii_alphanumeric c \<or> c = CHR ''_'' then to_ascii_lowercase c else CHR ''_'') label"

definition raw_zone :: "env \<Rightarrow> string \<Rightarrow> string \<Rightarrow> (u32 \<times> string \<times> string) option" where
  "raw_zone E tz_root name =
     Option.bind (Option.bind (strip_prefix ''thermal_zone'' name) parse_u32) (\<lambda>idx.
       let p = path_join tz_root name
       in case read_to_string E (path_join p ''type'') of
            Err _ \<Rightarrow> None
          | Ok s \<Rightarrow> if env_exists E (path_join p ''temp'') then Some (idx, trim s, path_join p ''temp'') else None)"

fun name_zones :: "(u32 \<times> string \<times> string) list \<Rightarrow> string list \<Rightarrow> ThermalZone list" where
  "name_zones [] taken = []"
| "name_zones ((idx, label, path) # rs) taken =
     (let base = base_safe_label label
      in \<lparr>tz_label = label, tz_safe_label = (if base \<notin> set taken then base else base @ ''_'' @ show_nat (unat idx)),
          tz_temp_path = path\<rparr> # name_zones rs (List.insert base taken))"

definition enumerate_thermal_zones :: "env \<Rightarrow> string option \<Rightarrow> ThermalZone list" where
  "enumerate_thermal_zones E sysroot =
     (let tz_root = sys_path sysroot ''sys/class/thermal''
      in case read_dir E tz_root of
           None \<Rightarrow> []
         | Some names \<Rightarrow> name_zones (sort_key fst (List.map_filter (raw_zone E tz_root) names)) [])"

section \<open>The plugin\<close>

record SystemSnapshot =
  sn_loadavg :: LoadAvg
  sn_uptime :: fl
  sn_ctxt :: u64
  sn_processes :: u64
  sn_entropy :: u64
  sn_psi_cpu :: psi
  sn_psi_mem_some :: psi
  sn_psi_mem_full :: psi
  sn_psi_io_some :: psi
  sn_psi_io_full :: psi
  sn_thermal :: "(string \<times> fl) list"

record SystemInner =
  sy_sysroot :: "string option"
  sy_thermal_zones :: "ThermalZone list option"
  sy_cache :: "SystemSnapshot SnapshotCache option"
  sy_poisoned :: bool

definition sys_info :: "string \<times> string \<times> Unit \<times> SensorKind \<times> fl \<times> fl option \<times> fl option \<Rightarrow> SensorDescriptor" where
  "sys_info e =
     (case e of (i, name, u, kind, rate, mn, mx) \<Rightarrow>
        \<lparr>d_id = i, d_display_name = name, d_unit = u, d_kind = kind, d_category = CatCustom, d_native_rate_hz = rate,
         d_min = mn, d_max = mx, d_device_id = None, d_device_key = Some ''system:0'', d_tags = []\<rparr>)"

definition system_specs :: "(string \<times> string \<times> Unit \<times> SensorKind \<times> fl \<times> fl option \<times> fl option) list" where
  "system_specs =
     [(''system.load_1m'', ''System load (1 min)'', Count, KindScalar, Fin (1 / 2), Some (Fin 0), None),
      (''system.load_5m'', ''System load (5 min)'', Count, KindScalar, Fin (1 / 2), Some (Fin 0), None),
      (''system.load_15m'', ''System load (15 min)'', Count, KindScalar, Fin (1 / 2), Some (Fin 0), None),
      (''system.procs_running'', ''Running processes'', Count, KindScalar, Fin (1 / 2), Some (Fin 0), None),
      (''system.procs_total'', ''Total processes'', Count, KindScalar, Fin (1 / 2), Some (Fin 0), None),
      (''system.uptime_secs'', ''System uptime'', Custom ''s'', KindScalar, RATE_0_2, Some (Fin 0), None),
      (''system.ctxt_switches'', ''Context switches'', Count, KindCounter, Fin 1, Some (Fin 0), None),
      (''system.procs_created'', ''Processes created'', Count, KindCounter, Fin 1, Some (Fin 0), None),
      (''system.entropy_bits'', ''Entropy available'', Custom ''bits'', KindScalar, Fin (1 / 2), Some (Fin 0), None),
      (''psi.cpu_some_10'', ''CPU pressure (some 10s)'', Percent, KindScalar, Fin 1, Some (Fin 0), Some (Fin 100)),
      (''psi.cpu_some_60'', ''CPU pressure (some 60s)'', Percent, KindScalar, Fin 1, Some (Fin 0), Some (Fin 100)),
      (''psi.cpu_some_300'', ''CPU pressure (some 300s)'', Percent, KindScalar, Fin 1, Some (Fin 0), Some (Fin 100)),
      (''psi.mem_some_10'', ''Memory pressure (some 10s)'', Percent, KindScalar, Fin 1, Some (Fin 0), Some (Fin 100)),
      (''psi.mem_full_10'', ''Memory pressure (full 10s)'', Percent, KindScalar, Fin 1, Some (Fin 0), Some (Fin 100)),
      (''psi.io_some_10'', ''I/O pressure (some 10s)'', Percent, KindScalar, Fin 1, Some (Fin 0), Some (Fin 100)),
      (''psi.io_full_10'', ''I/O pressure (full 10s)'', Percent, KindScalar, Fin 1, Some (Fin 0), Some (Fin 100))]"

definition thermal_id :: "string \<Rightarrow> SensorId" where
  "thermal_id label = ''thermal.'' @ label @ ''.temp_c''"

definition zone_spec :: "ThermalZone \<Rightarrow> string \<times> string \<times> Unit \<times> SensorKind \<times> fl \<times> fl option \<times> fl option" where
  "zone_spec z = (thermal_id (tz_safe_label z), ''Thermal zone: '' @ tz_label z, Celsius, KindScalar, Fin (1 / 2), None, None)"

definition system_manifest :: "ThermalZone list \<Rightarrow> PluginManifest" where
  "system_manifest zones =
     \<lparr>m_plugin_id = ''com.visorcraft.linsight.system'', m_display_name = ''System'', m_version = CARGO_PKG_VERSION,
      m_sensors = map sys_info (system_specs @ map zone_spec zones),
      m_devices = [no_device ''system:0'' HwOther ''System'' ''system'']\<rparr>"

definition system_init_inner :: "env \<Rightarrow> 'j PluginCtx \<Rightarrow> SystemInner \<Rightarrow> (PluginManifest, PluginError) result exec \<times> SystemInner" where
  "system_init_inner E ctx s =
     (if sy_poisoned s then (Panics, s)
      else let zones = enumerate_thermal_zones E (ctx_sysroot ctx)
           in (Returns (Ok (system_manifest zones)), s\<lparr>sy_sysroot := ctx_sysroot ctx, sy_thermal_zones := Some zones\<rparr>))"

definition psi_or_0 :: "(psi, PluginError) result \<Rightarrow> psi" where
  "psi_or_0 r = (case r of Ok v \<Rightarrow> v | Err _ \<Rightarrow> (Fin 0, Fin 0, Fin 0))"

definition read_zone :: "env \<Rightarrow> ThermalZone \<Rightarrow> (string \<times> fl) list \<Rightarrow> (string \<times> fl) list" where
  "read_zone E z m =
     (case read_int parse_u64 256 E (tz_temp_path z) of
        Ok milli \<Rightarrow> AList.update (tz_safe_label z) (fl_div (fl_of_u64 milli) (Fin 1000)) m
      | Err _ \<Rightarrow> m)"

definition take_system_snapshot :: "env \<Rightarrow> SystemInner \<Rightarrow> (SystemSnapshot, PluginError) result" where
  "take_system_snapshot E s =
     (let rt = sy_sysroot s
      in result_bind (read_loadavg E rt) (\<lambda>loadavg. result_bind (read_uptime E rt) (\<lambda>uptime.
         result_bind (read_ctxt E rt) (\<lambda>ctxt. result_bind (read_processes E rt) (\<lambda>processes.
           Ok \<lparr>sn_loadavg = loadavg, sn_uptime = uptime, sn_ctxt = ctxt, sn_processes = processes,
              sn_entropy = (case read_int parse_u64 256 E (sys_path rt ''proc/sys/kernel/random/entropy_avail'') of Ok v \<Rightarrow> v | Err _ \<Rightarrow> 0),
              sn_psi_cpu = psi_or_0 (read_psi_some E rt ''cpu''), sn_psi_mem_some = psi_or_0 (read_psi_some E rt ''memory''),
              sn_psi_mem_full = psi_or_0 (read_psi_full E rt ''memory''), sn_psi_io_some = psi_or_0 (read_psi_some E rt ''io''),
              sn_psi_io_full = psi_or_0 (read_psi_full E rt ''io''),
              sn_thermal = (case sy_thermal_zones s of None \<Rightarrow> [] | Some zones \<Rightarrow> fold (read_zone E) zones [])\<rparr>)))))"

definition system_snapshot :: "env \<Rightarrow> SystemInner \<Rightarrow> (SystemSnapshot, PluginError) result \<times> SystemInner" where
  "system_snapshot E s =
     (case Option.bind (sy_cache s) (SnapshotCache_get (env_now E) SYSTEM_CACHE_TTL) of
        Some snap \<Rightarrow> (Ok snap, s)
      | None \<Rightarrow>
          (case take_system_snapshot E s of
             Err e \<Rightarrow> (Err e, s)
           | Ok snap \<Rightarrow> (Ok snap, s\<lparr>sy_cache := Some (SnapshotCache_new (env_now E) snap)\<rparr>)))"

definition system_value :: "SystemSnapshot \<Rightarrow> SensorId \<Rightarrow> Reading option" where
  "system_value n =
     map_of
       [(''system.load_1m'', Scalar (la_load_1m (sn_loadavg n))), (''system.load_5m'', Scalar (la_load_5m (sn_loadavg n))),
        (''system.load_15m'', Scalar (la_load_15m (sn_loadavg n))),
        (''system.procs_running'', Scalar (fl_of_u64 (la_procs_running (sn_loadavg n)))),
        (''system.procs_total'', Scalar (fl_of_u64 (la_procs_total (sn_loadavg n)))),
        (''system.uptime_secs'', Scalar (sn_uptime n)), (''system.ctxt_switches'', Counter (sn_ctxt n)),
        (''system.procs_created'', Counter (sn_processes n)), (''system.entropy_bits'', Scalar (fl_of_u64 (sn_entropy n))),
        (''psi.cpu_some_10'', Scalar (fst (sn_psi_cpu n))), (''psi.cpu_some_60'', Scalar (fst (snd (sn_psi_cpu n)))),
        (''psi.cpu_some_300'', Scalar (snd (snd (sn_psi_cpu n)))), (''psi.mem_some_10'', Scalar (fst (sn_psi_mem_some n))),
        (''psi.mem_full_10'', Scalar (fst (sn_psi_mem_full n))), (''psi.io_some_10'', Scalar (fst (sn_psi_io_some n))),
        (''psi.io_full_10'', Scalar (fst (sn_psi_io_full n)))]"

text \<open>The slice between \<^verbatim>\<open>thermal.\<close> and \<^verbatim>\<open>.temp_c\<close> panics when the two overlap.\<close>

definition system_match :: "SystemSnapshot \<Rightarrow> SensorId \<Rightarrow> (Reading, PluginError) result exec" where
  "system_match n i =
     (case system_value n i of
        Some r \<Rightarrow> Returns (Ok r)
      | None \<Rightarrow>
          if starts_with ''thermal.'' i \<and> ends_with ''.temp_c'' i then
            if length i < 15 then Panics
            else Returns (case map_of (sn_thermal n) (take (length i - 15) (drop 8 i)) of
                            Some temp \<Rightarrow> Ok (Scalar temp)
                          | None \<Rightarrow> Err (Unsupported i))
          else Returns (Err (Unsupported i)))"

definition system_sample_inner :: "env \<Rightarrow> SensorId \<Rightarrow> SystemInner \<Rightarrow> (Reading, PluginError) result exec \<times> SystemInner" where
  "system_sample_inner E sensor s =
     (if sy_poisoned s then (Panics, s)
      else (case system_snapshot E s of
              (Err e, s1) \<Rightarrow> (Returns (Err e), s1)
            | (Ok snap, s1) \<Rightarrow>
                (case system_match snap sensor of
                   Panics \<Rightarrow> (Panics, s1\<lparr>sy_poisoned := True\<rparr>)
                 | Returns r \<Rightarrow> (Returns r, s1))))"

section \<open>Panics\<close>

lemma short_slice:
  assumes "starts_with ''thermal.'' i" and "ends_with ''.temp_c'' i" and "length i < 15"
  shows "i = ''thermal.temp_c''"
proof -
  obtain r where i: "i = ''thermal.'' @ r" using assms(1) by (auto simp only: starts_with_def not_None_eq strip_prefix_Some)
  obtain q where "i = q @ ''.temp_c''" using assms(2) by (auto simp only: ends_with_def not_None_eq strip_suffix_Some)
  then have e: "rev r @ rev ''thermal.'' = rev ''.temp_c'' @ rev q" unfolding i by (metis rev_append)
  have "length r < 7" using assms(3) i by simp
  then consider "r = []" | a where "r = [a]" | a b where "r = [a, b]" | a b c where "r = [a, b, c]"
    | a b c d where "r = [a, b, c, d]" | a b c d f where "r = [a, b, c, d, f]" | a b c d f g where "r = [a, b, c, d, f, g]"
    by (cases r rule: list.exhaust [case_names Nil Cons]; (auto simp: less_Suc_eq_le Suc_le_eq length_Suc_conv numeral_eq_Suc le_Suc_eq)?)
  then show ?thesis using e i by cases auto
qed

lemma thermal_id_not_short: "thermal_id l \<noteq> ''thermal.temp_c''"
proof
  assume "thermal_id l = ''thermal.temp_c''"
  then have "length (thermal_id l) = length ''thermal.temp_c''" by (rule arg_cong)
  then show False by (simp add: thermal_id_def)
qed

lemma system_match_panics: "system_match n i = Panics \<longleftrightarrow> i = ''thermal.temp_c''"
proof
  assume "system_match n i = Panics"
  then show "i = ''thermal.temp_c''" using short_slice by (auto simp: system_match_def split: option.splits if_splits)
next
  assume i: "i = ''thermal.temp_c''"
  have "starts_with ''thermal.'' i \<and> ends_with ''.temp_c'' i" unfolding i by code_simp
  moreover have "system_value n i = None" unfolding i by (simp add: system_value_def)
  moreover have "length i < 15" unfolding i by simp
  ultimately show "system_match n i = Panics" by (simp add: system_match_def)
qed


text \<open>
  The plugin never offers that id, so no sample of a sensor it offers panics, and the mutex is never
  poisoned.
\<close>

theorem system_offered_never_panics:
  assumes "d \<in> set (m_sensors (system_manifest zones))" and "\<not> sy_poisoned s"
  shows "fst (system_sample_inner E (d_id d) s) \<noteq> Panics \<and> \<not> sy_poisoned (snd (system_sample_inner E (d_id d) s))"
proof -
  have "list_all (\<lambda>e. fst e \<noteq> ''thermal.temp_c'') system_specs" by code_simp
  then have specs: "\<forall>e \<in> set system_specs. fst e \<noteq> ''thermal.temp_c''" by (simp only: list_all_iff)
  have zones: "fst (zone_spec z) \<noteq> ''thermal.temp_c''" for z unfolding zone_spec_def fst_conv by (rule thermal_id_not_short)
  have "d \<in> sys_info ` (set system_specs \<union> zone_spec ` set zones)"
    using assms(1) by (simp add: system_manifest_def image_Un image_image)
  then obtain e where e: "e \<in> set system_specs \<or> (\<exists>z. e = zone_spec z)" "d = sys_info e" by blast
  have "d_id (sys_info e) = fst e" by (simp add: sys_info_def split: prod.split)
  then have i: "d_id d \<noteq> ''thermal.temp_c''" using e specs zones by metis
  have p: "sy_poisoned (snd (system_snapshot E s)) = sy_poisoned s"
    by (simp add: system_snapshot_def split: option.split result.split)
  show ?thesis
  proof (cases "system_snapshot E s")
    case (Pair r s1)
    then have "\<not> sy_poisoned s1" using p assms(2) by simp
    with Pair show ?thesis using i assms(2) system_match_panics [of _ "d_id d"]
      by (cases r) (simp_all add: system_sample_inner_def split: exec.split)
  qed
qed

section \<open>Thermal zones and pressure\<close>

lemma is_ok_bind: "is_ok (result_bind r f) \<longleftrightarrow> (\<exists>a. r = Ok a \<and> is_ok (f a))"
  by (cases r) simp_all

lemma is_ok_iff: "is_ok r \<longleftrightarrow> (\<exists>a. r = Ok a)"
  by (cases r) simp_all

lemma result_bind_Ok: "result_bind r f = Ok x \<longleftrightarrow> (\<exists>a. r = Ok a \<and> f a = Ok x)"
  by (cases r) simp_all

lemma fold_read_zone_other:
  "l \<notin> tz_safe_label ` set zs \<Longrightarrow> map_of (fold (read_zone E) zs m) l = map_of m l"
  by (induction zs arbitrary: m) (auto simp: read_zone_def update_conv' split: result.split)

lemma fold_read_zone:
  "distinct (map tz_safe_label zs) \<Longrightarrow> z \<in> set zs \<Longrightarrow> map_of m (tz_safe_label z) = None \<Longrightarrow>
   map_of (fold (read_zone E) zs m) (tz_safe_label z) =
     map_option (\<lambda>v. fl_div (fl_of_u64 v) (Fin 1000)) (result_ok (read_int parse_u64 256 E (tz_temp_path z)))"
proof (induction zs arbitrary: m)
  case (Cons y zs)
  show ?case
  proof (cases "y = z")
    case True
    then have "tz_safe_label z \<notin> tz_safe_label ` set zs" using Cons.prems(1) by auto
    note other = fold_read_zone_other [OF this, of E "read_zone E z m"]
    have "map_of (read_zone E z m) (tz_safe_label z) =
        map_option (\<lambda>v. fl_div (fl_of_u64 v) (Fin 1000)) (result_ok (read_int parse_u64 256 E (tz_temp_path z)))"
      using Cons.prems(3) by (auto simp: read_zone_def update_conv' split: result.split)
    then show ?thesis using other True by (simp only: fold_simps)
  next
    case False
    then have "tz_safe_label y \<noteq> tz_safe_label z" "z \<in> set zs" using Cons.prems(1,2) by auto
    then show ?thesis using Cons.IH [of "read_zone E y m"] Cons.prems by (auto simp: read_zone_def update_conv' split: result.split)
  qed
qed simp

lemma system_value_thermal: "system_value n (thermal_id l) = None"
  by (simp add: system_value_def thermal_id_def)

lemma thermal_match:
  "system_match n (thermal_id l) = Returns (case map_of (sn_thermal n) l of Some t \<Rightarrow> Ok (Scalar t) | None \<Rightarrow> Err (Unsupported (thermal_id l)))"
proof -
  have "starts_with ''thermal.'' (thermal_id l)" by (simp add: starts_with_def thermal_id_def)
  moreover have "ends_with ''.temp_c'' (thermal_id l)"
    unfolding ends_with_def not_None_eq strip_suffix_Some thermal_id_def by (intro exI [of _ "''thermal.'' @ l"]) simp
  moreover have "take (length (thermal_id l) - 15) (drop 8 (thermal_id l)) = l" by (simp add: thermal_id_def)
  moreover have "\<not> length (thermal_id l) < 15" by (simp add: thermal_id_def)
  ultimately show ?thesis by (simp add: system_match_def system_value_thermal)
qed

lemma take_system_snapshot_ok:
  "is_ok (take_system_snapshot E s) \<longleftrightarrow>
     is_ok (read_loadavg E (sy_sysroot s)) \<and> is_ok (read_uptime E (sy_sysroot s)) \<and>
     is_ok (read_ctxt E (sy_sysroot s)) \<and> is_ok (read_processes E (sy_sysroot s))"
  unfolding take_system_snapshot_def Let_def by (simp add: is_ok_bind) (auto simp: is_ok_iff)

text \<open>
  Every offered thermal zone reads its own file, in degrees, when the names of the zones differ; a zone
  whose file holds a negative number is not readable at all.
\<close>

theorem thermal_zone_exact:
  assumes "sy_thermal_zones s = Some zones" and "z \<in> set zones" and "distinct (map tz_safe_label zones)"
    and "\<not> sy_poisoned s" and "sy_cache s = None" and "is_ok (take_system_snapshot E s)"
  shows "fst (system_sample_inner E (thermal_id (tz_safe_label z)) s) = Returns
     (case read_int parse_u64 256 E (tz_temp_path z) of
        Ok milli \<Rightarrow> Ok (Scalar (fl_div (fl_of_u64 milli) (Fin 1000)))
      | Err _ \<Rightarrow> Err (Unsupported (thermal_id (tz_safe_label z))))"
proof -
  obtain n where n: "take_system_snapshot E s = Ok n" using assms(6) by (cases "take_system_snapshot E s") simp_all
  have "sn_thermal n = fold (read_zone E) zones []"
    using n assms(1) by (auto simp: take_system_snapshot_def Let_def result_bind_Ok)
  then have "map_of (sn_thermal n) (tz_safe_label z) =
      map_option (\<lambda>v. fl_div (fl_of_u64 v) (Fin 1000)) (result_ok (read_int parse_u64 256 E (tz_temp_path z)))"
    using fold_read_zone [OF assms(3,2), of "[]"] by simp
  moreover have "system_snapshot E s = (Ok n, s\<lparr>sy_cache := Some (SnapshotCache_new (env_now E) n)\<rparr>)"
    using n assms(5) by (simp add: system_snapshot_def)
  ultimately show ?thesis
    using assms(4) by (auto simp: system_sample_inner_def thermal_match split: result.split)
qed

section \<open>The manifest\<close>

lemma id_okI: "s \<noteq> [] \<Longrightarrow> list_all (\<lambda>c. \<not> is_whitespace c) s \<Longrightarrow> id_ok s"
  by (simp add: id_ok_def list_all_iff)

text \<open>
  The host accepts every manifest of the plugin, whatever the thermal zones are called.
\<close>

theorem system_manifest_accepted:
  assumes "\<forall>z \<in> set zones. \<forall>c \<in> set (tz_safe_label z). \<not> is_whitespace c"
  shows "acceptable_manifest (system_manifest zones)"
proof -
  have "HardwareDeviceKey_try_new ''system:0'' = Ok ''system:0''" by code_simp
  then have k: "wf_key ''system:0''" by (simp only: key_try_new_Ok)
  have d: "d_id (sys_info e) = fst e" "d_device_key (sys_info e) = Some ''system:0''" for e
    by (simp_all add: sys_info_def split: prod.split)
  have "list_all (\<lambda>e. fst e \<noteq> [] \<and> list_all (\<lambda>c. \<not> is_whitespace c) (fst e)) system_specs" by code_simp
  then have "list_all (\<lambda>e. id_ok (fst e)) system_specs" by (rule list.pred_mono_strong) (simp add: id_okI)
  then have s: "\<forall>e \<in> set system_specs. id_ok (fst e)" by (simp only: list_all_iff)
  have "list_all (\<lambda>c. \<not> is_whitespace c) ''thermal.''" "list_all (\<lambda>c. \<not> is_whitespace c) ''.temp_c''" by code_simp+
  then have z: "\<forall>z \<in> set zones. id_ok (fst (zone_spec z))"
    using assms by (auto simp: zone_spec_def thermal_id_def id_ok_def list_all_iff)
  show ?thesis
    using s z k by (auto simp: acceptable_manifest_def system_manifest_def d no_device_def)
qed

section \<open>Witnesses\<close>

definition demo_system :: env where
  "demo_system =
     \<lparr>env_file = (\<lambda>p. if p = ''/proc/loadavg'' then FileText ''inf inf inf 3/456 78901''
                      else if p = ''/proc/uptime'' then FileText ''inf inf''
                      else if p = ''/proc/stat'' then FileText (''ctxt 420000'' @ CHR 0x0A # ''processes 50000'')
                      else if p = ''/t0'' then FileText ''55000''
                      else FileError ''not found''),
      env_dir = (\<lambda>_. DirMissing), env_exists = (\<lambda>_. True), env_link = (\<lambda>_. None), env_now = 0\<rparr>"

definition demo_zone :: ThermalZone where
  "demo_zone = \<lparr>tz_label = ''acpitz'', tz_safe_label = ''acpitz'', tz_temp_path = ''/t0''\<rparr>"

definition demo_system_inner :: SystemInner where
  "demo_system_inner = \<lparr>sy_sysroot = None, sy_thermal_zones = Some [demo_zone], sy_cache = None, sy_poisoned = False\<rparr>"

theorem system_offered_never_panics_witness:
  "fst (system_sample_inner demo_system ''thermal.acpitz.temp_c'' demo_system_inner) \<noteq> Panics"
proof -
  have d: "sys_info (zone_spec demo_zone) \<in> set (m_sensors (system_manifest [demo_zone]))" by (simp add: system_manifest_def)
  have i: "d_id (sys_info (zone_spec demo_zone)) = ''thermal.acpitz.temp_c''" by code_simp
  have "\<not> sy_poisoned demo_system_inner" by (simp add: demo_system_inner_def)
  from system_offered_never_panics [OF d this, of demo_system] show ?thesis unfolding i by blast
qed

theorem thermal_zone_exact_witness:
  "fst (system_sample_inner demo_system (thermal_id ''acpitz'') demo_system_inner)
     = Returns (Ok (Scalar (fl_div (fl_of_u64 55000) (Fin 1000))))"
proof -
  have z: "sy_thermal_zones demo_system_inner = Some [demo_zone]" "\<not> sy_poisoned demo_system_inner"
      "sy_cache demo_system_inner = None" by (simp_all add: demo_system_inner_def)
  have "is_ok (read_loadavg demo_system None)" by code_simp
  moreover have "is_ok (read_uptime demo_system None)" by code_simp
  moreover have "is_ok (read_ctxt demo_system None)" by code_simp
  moreover have "is_ok (read_processes demo_system None)" by code_simp
  ultimately have ok: "is_ok (take_system_snapshot demo_system demo_system_inner)"
    by (simp add: take_system_snapshot_ok demo_system_inner_def)
  have r: "read_int parse_u64 256 demo_system (tz_temp_path demo_zone) = Ok 55000" by code_simp
  have "demo_zone \<in> set [demo_zone]" "distinct (map tz_safe_label [demo_zone])" by simp_all
  from thermal_zone_exact [OF z(1) this z(2,3) ok] show ?thesis by (simp add: r) (simp add: demo_zone_def)
qed

end
