(* ===== verification/Sensors_Nvme.thy ===== *)
theory Sensors_Nvme
  imports Sensors_Io
begin

text \<open>
  NVMe controllers, \<^verbatim>\<open>crates/linsight-sensors/nvme\<close>. The hardware key of a controller is made of its
  most stable identifier (the world-wide identifier, else the serial number, else the name), so, unlike
  those of the other disks, it need not be unique.
\<close>

section \<open>Controllers\<close>

definition NVME_CACHE_TTL :: nat where
  "NVME_CACHE_TTL = 50000000"

record NvmeDevice =
  nd_name :: string
  nd_model :: string
  nd_wwid :: "string option"
  nd_serial :: "string option"
  nd_hwmon_root :: "string option"
  nd_block_stat :: "string option"
  nd_capacity_bytes :: u64

record NvmeInner =
  nv_sysroot :: "string option"
  nv_devices :: "NvmeDevice list"
  nv_cache :: "(string \<times> BlockStat) list SnapshotCache option"

definition nvme_key_payload :: "NvmeDevice \<Rightarrow> string" where
  "nvme_key_payload d =
     str_to_lowercase
       (case nd_wwid d of Some w \<Rightarrow> w | None \<Rightarrow> (case nd_serial d of Some s \<Rightarrow> s | None \<Rightarrow> nd_name d))"

definition is_nvme_controller_name :: "string \<Rightarrow> bool" where
  "is_nvme_controller_name s =
     (case strip_prefix ''nvme'' s of None \<Rightarrow> False | Some rest \<Rightarrow> rest \<noteq> [] \<and> list_all is_ascii_digit rest)"

definition read_trimmed_nonempty :: "env \<Rightarrow> string \<Rightarrow> string option" where
  "read_trimmed_nonempty E p =
     Option.bind (file_text E p) (\<lambda>s. if trim s = [] then None else Some (trim s))"

text \<open>The first entry the directory lists whose name begins with \<^verbatim>\<open>hwmon\<close>.\<close>

definition nvme_find_hwmon :: "env \<Rightarrow> string \<Rightarrow> string option" where
  "nvme_find_hwmon E ctrl_root =
     Option.bind (read_dir E ctrl_root) (\<lambda>names. map_option (path_join ctrl_root) (find (starts_with ''hwmon'') names))"

text \<open>The product wraps: the release build does not check it.\<close>

definition nvme_capacity :: "env \<Rightarrow> string \<Rightarrow> u64" where
  "nvme_capacity E size_path =
     (case file_text E size_path of
        Some s \<Rightarrow> (case parse_u64 (trim s) of Some sectors \<Rightarrow> sectors * 512 | None \<Rightarrow> 0)
      | None \<Rightarrow> 0)"

definition nvme_device :: "env \<Rightarrow> string \<Rightarrow> string \<Rightarrow> string \<Rightarrow> NvmeDevice" where
  "nvme_device E nvme_root block_root name =
     (let ctrl_root = path_join nvme_root name;
          namespace = path_join block_root (name @ ''n1'');
          stat_path = path_join namespace ''stat'';
          block_stat = (if env_exists E stat_path then Some stat_path else None)
      in \<lparr>nd_name = name,
          nd_model = (case file_text E (path_join ctrl_root ''model'') of
                        Some s \<Rightarrow> trim s
                      | None \<Rightarrow> ''unknown model ('' @ name @ '')''),
          nd_wwid = read_trimmed_nonempty E (path_join ctrl_root ''wwid''),
          nd_serial = read_trimmed_nonempty E (path_join ctrl_root ''serial''),
          nd_hwmon_root = nvme_find_hwmon E ctrl_root,
          nd_block_stat = block_stat,
          nd_capacity_bytes = (if block_stat = None then 0 else nvme_capacity E (path_join namespace ''size''))\<rparr>)"

definition nvme_enumerate :: "env \<Rightarrow> string option \<Rightarrow> (NvmeDevice list, string) result" where
  "nvme_enumerate E sysroot =
     (let nvme_root = sys_path sysroot ''sys/class/nvme''; block_root = sys_path sysroot ''sys/class/block''
      in case env_dir E nvme_root of
           DirMissing \<Rightarrow> Ok []
         | DirError e \<Rightarrow> Err e
         | DirNames names \<Rightarrow>
             Ok (sort_key nd_name (map (nvme_device E nvme_root block_root) (filter is_nvme_controller_name (remdups names)))))"

section \<open>The plugin\<close>

definition nvme_capacity_spec :: "(string \<times> string \<times> Unit \<times> SensorKind \<times> Category \<times> fl \<times> fl option \<times> string list) list" where
  "nvme_capacity_spec = [(''capacity_bytes'', ''NVMe capacity'', Bytes, KindScalar, CatStorage, RATE_0_2, Some (Fin 0), [STATIC_TAG])]"

definition nvme_temp_spec :: "(string \<times> string \<times> Unit \<times> SensorKind \<times> Category \<times> fl \<times> fl option \<times> string list) list" where
  "nvme_temp_spec = [(''temp_c'', ''NVMe temperature'', Celsius, KindScalar, CatStorage, Fin (1 / 2), None, [])]"

definition nvme_stat_specs :: "(string \<times> string \<times> Unit \<times> SensorKind \<times> Category \<times> fl \<times> fl option \<times> string list) list" where
  "nvme_stat_specs =
     [(''bytes_read'', ''NVMe bytes read'', Bytes, KindCounter, CatStorage, Fin 1, Some (Fin 0), []),
      (''bytes_written'', ''NVMe bytes written'', Bytes, KindCounter, CatStorage, Fin 1, Some (Fin 0), []),
      (''iops_read'', ''NVMe read operations'', Count, KindCounter, CatStorage, Fin 1, Some (Fin 0), []),
      (''iops_written'', ''NVMe write operations'', Count, KindCounter, CatStorage, Fin 1, Some (Fin 0), []),
      (''io_util_ms'', ''NVMe I/O time'', Custom ''ms'', KindCounter, CatStorage, Fin 1, Some (Fin 0), [])]"

definition nvme_specs :: "NvmeDevice \<Rightarrow> (string \<times> string \<times> Unit \<times> SensorKind \<times> Category \<times> fl \<times> fl option \<times> string list) list" where
  "nvme_specs d =
     nvme_capacity_spec
     @ (if nd_hwmon_root d \<noteq> None then nvme_temp_spec else [])
     @ (if nd_block_stat d \<noteq> None then nvme_stat_specs else [])"

definition nvme_key :: "NvmeDevice \<Rightarrow> string" where
  "nvme_key d = ''nvme:'' @ nvme_key_payload d"

definition nvme_sensors :: "NvmeDevice \<Rightarrow> SensorDescriptor list" where
  "nvme_sensors d = map (io_sensor ''nvme.'' (nd_name d) (nd_name d) (nvme_key d)) (nvme_specs d)"

definition nvme_manifest :: "NvmeDevice list \<Rightarrow> PluginManifest" where
  "nvme_manifest ds =
     \<lparr>m_plugin_id = ''com.visorcraft.linsight.nvme'', m_display_name = ''NVMe'', m_version = CARGO_PKG_VERSION,
      m_sensors = concat (map nvme_sensors ds),
      m_devices = map (\<lambda>d. no_device (nvme_key d) HwStorage (nd_model d) (nd_name d)) ds\<rparr>"

definition nvme_init_inner :: "env \<Rightarrow> 'j PluginCtx \<Rightarrow> NvmeInner \<Rightarrow> (PluginManifest, PluginError) result exec \<times> NvmeInner" where
  "nvme_init_inner E ctx s =
     (let s1 = s\<lparr>nv_sysroot := ctx_sysroot ctx\<rparr>
      in case nvme_enumerate E (ctx_sysroot ctx) of
           Err e \<Rightarrow> (Returns (Err (PluginIo e)), s1)
         | Ok ds \<Rightarrow>
             (Returns
                (case first_err (\<lambda>d. HardwareDeviceKey_try_new (nvme_key d)) ds of
                   Some (d, e) \<Rightarrow> Err (PluginIo (''nvme '' @ nd_name d @ '' bad key: '' @ key_error_to_string e))
                 | None \<Rightarrow> Ok (nvme_manifest ds)),
              s1\<lparr>nv_devices := ds\<rparr>))"

text \<open>The file is read whole, without the limit that the disk plugin has.\<close>

definition nvme_read_block_stat :: "env \<Rightarrow> string \<Rightarrow> (BlockStat, PluginError) result" where
  "nvme_read_block_stat E path =
     (case read_to_string E path of
        Err e \<Rightarrow> Err (PluginIo (path @ '': '' @ e))
      | Ok s \<Rightarrow>
          (let toks = split_whitespace s; parse = block_field toks path
           in if length toks < 11
              then Err (PluginParse (path @ '': expected >=11 fields, got '' @ show_nat (length toks)))
              else result_bind (parse 0) (\<lambda>rc. result_bind (parse 4) (\<lambda>wc. result_bind (parse 2) (\<lambda>sr.
                   result_bind (parse 6) (\<lambda>sw. result_bind (parse 9) (\<lambda>io.
                     Ok \<lparr>bs_reads_completed = rc, bs_writes_completed = wc, bs_sectors_read = sr,
                        bs_sectors_written = sw, bs_io_ticks = io\<rparr>)))))))"

definition nvme_device_stat :: "env \<Rightarrow> NvmeDevice \<Rightarrow> BlockStat option" where
  "nvme_device_stat E d = Option.bind (nd_block_stat d) (\<lambda>p. result_ok (nvme_read_block_stat E p))"

definition nvme_snapshot :: "env \<Rightarrow> NvmeInner \<Rightarrow> (string \<times> BlockStat) list \<times> NvmeInner" where
  "nvme_snapshot E s =
     (case Option.bind (nv_cache s) (SnapshotCache_get (env_now E) NVME_CACHE_TTL) of
        Some stats \<Rightarrow> (stats, s)
      | None \<Rightarrow>
          (let stats = take_snapshot nd_name (nvme_device_stat E) (nv_devices s) []
           in (stats, s\<lparr>nv_cache := Some (SnapshotCache_new (env_now E) stats)\<rparr>)))"

definition nvme_temp :: "env \<Rightarrow> SensorId \<Rightarrow> NvmeDevice \<Rightarrow> (Reading, PluginError) result" where
  "nvme_temp E sensor d =
     (case nd_hwmon_root d of
        None \<Rightarrow> Err (Unsupported sensor)
      | Some hwmon \<Rightarrow>
          result_bind (read_parsed True (parse_int 64) E (path_join hwmon ''temp1_input'')) (\<lambda>milli.
            Ok (Scalar (fl_div (fl_of_int milli) (Fin 1000)))))"

definition nvme_stat_metrics :: "string list" where
  "nvme_stat_metrics = [''bytes_read'', ''bytes_written'', ''iops_read'', ''iops_written'', ''io_util_ms'']"

definition nvme_value :: "string \<Rightarrow> BlockStat \<Rightarrow> u64" where
  "nvme_value metric st =
     (if metric = ''bytes_read'' then saturating_mul (bs_sectors_read st) 512
      else if metric = ''bytes_written'' then saturating_mul (bs_sectors_written st) 512
      else if metric = ''iops_read'' then bs_reads_completed st
      else if metric = ''iops_written'' then bs_writes_completed st
      else bs_io_ticks st)"

text \<open>The id is split at its first dot; the name of a controller has none.\<close>

definition nvme_sample_inner :: "env \<Rightarrow> SensorId \<Rightarrow> NvmeInner \<Rightarrow> (Reading, PluginError) result exec \<times> NvmeInner" where
  "nvme_sample_inner E sensor s =
     (case Option.bind (strip_prefix ''nvme.'' sensor) (split_once CHR ''.'') of
        None \<Rightarrow> (Returns (Err (Unsupported sensor)), s)
      | Some (name, metric) \<Rightarrow>
          if metric = ''capacity_bytes'' then
            (Returns (case find (\<lambda>d. nd_name d = name) (nv_devices s) of
                        None \<Rightarrow> Err (Unsupported sensor)
                      | Some d \<Rightarrow> Ok (Scalar (fl_of_u64 (nd_capacity_bytes d)))), s)
          else if metric = ''temp_c'' then
            (Returns (case find (\<lambda>d. nd_name d = name) (nv_devices s) of
                        None \<Rightarrow> Err (Unsupported sensor)
                      | Some d \<Rightarrow> nvme_temp E sensor d), s)
          else if metric \<in> set nvme_stat_metrics then
            (let (stats, s1) = nvme_snapshot E s
             in (Returns (case map_of stats name of
                            None \<Rightarrow> Err (Unsupported sensor)
                          | Some st \<Rightarrow> Ok (Counter (nvme_value metric st))), s1))
          else (Returns (Err (Unsupported sensor)), s))"

section \<open>Names and keys\<close>

lemma nvme_name_chars:
  assumes "is_nvme_controller_name n"
  shows "id_ok n" and "CHR ''.'' \<notin> set n"
proof -
  obtain r where r: "n = ''nvme'' @ r" "list_all is_ascii_digit r"
    using assms by (auto simp: is_nvme_controller_name_def strip_prefix_Some split: option.splits)
  have p: "list_all (\<lambda>c. \<not> is_whitespace c \<and> c \<noteq> CHR ''.'') ''nvme''" by code_simp
  have "\<not> is_whitespace c \<and> c \<noteq> CHR ''.''" if "is_ascii_digit c" for c
    using that by (auto simp: is_ascii_digit_def is_whitespace_def)
  then have "list_all (\<lambda>c. \<not> is_whitespace c \<and> c \<noteq> CHR ''.'') r" using r(2) by (simp add: list_all_iff)
  with p have "list_all (\<lambda>c. \<not> is_whitespace c \<and> c \<noteq> CHR ''.'') n" unfolding r(1) list_all_append by blast
  then show "id_ok n" "CHR ''.'' \<notin> set n" using r(1) by (auto simp: id_ok_def list_all_iff)
qed

lemma nvme_device_name: "nd_name (nvme_device E a b n) = n"
  by (simp add: nvme_device_def Let_def)

lemma nvme_enumerate_names:
  assumes "nvme_enumerate E rt = Ok ds"
  shows "distinct (map nd_name ds)" and "d \<in> set ds \<Longrightarrow> is_nvme_controller_name (nd_name d)"
proof -
  have inj: "inj_on (nvme_device E a b) N" for a b N by (metis inj_onI nvme_device_name)
  show "distinct (map nd_name ds)"
    using assms by (auto simp: nvme_enumerate_def Let_def distinct_map inj inj_on_def [of nd_name] nvme_device_name split: dir.splits)
  show "is_nvme_controller_name (nd_name d)" if "d \<in> set ds"
    using assms that by (auto simp: nvme_enumerate_def Let_def nvme_device_name split: dir.splits)
qed

lemma nvme_metrics_ok:
  "m \<in> fst ` set (nvme_specs d) \<Longrightarrow> id_ok m"
proof -
  have "list_all (\<lambda>m. m \<noteq> [] \<and> list_all (\<lambda>c. \<not> is_whitespace c) m) (map fst (nvme_capacity_spec @ nvme_temp_spec @ nvme_stat_specs))"
    by code_simp
  then have "\<forall>m \<in> fst ` set (nvme_capacity_spec @ nvme_temp_spec @ nvme_stat_specs). id_ok m"
    unfolding list_all_iff id_ok_def by auto
  moreover have "set (nvme_specs d) \<subseteq> set (nvme_capacity_spec @ nvme_temp_spec @ nvme_stat_specs)"
    by (auto simp: nvme_specs_def)
  ultimately show "m \<in> fst ` set (nvme_specs d) \<Longrightarrow> id_ok m" by blast
qed

lemma nvme_init_Ok:
  "nvme_init_inner E ctx s = (Returns (Ok m), s') \<longleftrightarrow>
     nvme_enumerate E (ctx_sysroot ctx) = Ok (nv_devices s') \<and> (\<forall>d \<in> set (nv_devices s'). wf_key (nvme_key d))
     \<and> s' = s\<lparr>nv_sysroot := ctx_sysroot ctx, nv_devices := nv_devices s'\<rparr> \<and> m = nvme_manifest (nv_devices s')"
proof -
  have none: "first_err (\<lambda>d. HardwareDeviceKey_try_new (nvme_key d)) ds = None \<longleftrightarrow> (\<forall>d \<in> set ds. wf_key (nvme_key d))" for ds
    using first_err_None [of "\<lambda>d. HardwareDeviceKey_try_new (nvme_key d)" ds] key_try_new_Ok by metis
  show ?thesis
    by (cases s; cases s') (auto simp: nvme_init_inner_def Let_def none [symmetric] split: option.splits prod.splits result.splits)
qed

lemma nvme_acceptable:
  assumes names: "\<forall>d \<in> set ds. is_nvme_controller_name (nd_name d)" and keys: "\<forall>d \<in> set ds. wf_key (nvme_key d)"
    and dist: "distinct (map nvme_key_payload ds)"
  shows "acceptable_manifest (nvme_manifest ds)"
proof -
  have "list_all (\<lambda>c. \<not> is_whitespace c) ''nvme.''" by code_simp
  then have p: "id_ok ''nvme.''" by (simp add: id_ok_def list_all_iff)
  have ids: "id_ok (d_id s) \<and> d_device_key s = Some (nvme_key d)" if ds: "d \<in> set ds" "s \<in> set (nvme_sensors d)" for d s
  proof -
    obtain spec where spec: "spec \<in> set (nvme_specs d)" "s = io_sensor ''nvme.'' (nd_name d) (nd_name d) (nvme_key d) spec"
      using ds(2) by (auto simp: nvme_sensors_def)
    then have "id_ok (fst spec)" using nvme_metrics_ok by blast
    then show ?thesis using id_ok_metric_id [OF p] nvme_name_chars(1) names ds(1) by (simp add: spec(2) io_sensor_id)
  qed
  have k: "dev_key (no_device (nvme_key d) HwStorage (nd_model d) (nd_name d)) = nvme_key d" for d
    by (simp add: no_device_def)
  have "distinct (map nvme_key ds)" using dist by (auto simp: distinct_map inj_on_def nvme_key_def)
  then show ?thesis
    using ids keys by (auto simp: acceptable_manifest_def nvme_manifest_def k comp_def image_image)
qed

text \<open>A manifest that names a key twice does not pass.\<close>

lemma host_refuses_twins:
  assumes "init (PluginCtx_from J (RPluginCtx_from J ctx)) p = (Returns (Ok m), p')"
    and "\<not> distinct (map dev_key (m_devices m))"
  shows "\<exists>e. fst (host_init J (as_plugin J init sample) p ctx) = Returns (Err e)"
proof -
  let ?r = "RPluginManifest_from m"
  have "map rdev_key (rm_devices ?r) = map dev_key (m_devices m)"
    by (simp add: RPluginManifest_from_def RHardwareDevice_from_def)
  then have "validate_manifest ?r \<noteq> Ok ()" using assms(2) unfolding validate_manifest_Ok by simp
  then obtain e where e: "validate_manifest ?r = Err e" by (cases "validate_manifest ?r") auto
  show ?thesis
    by (cases "validate_sensor_ids (rm_plugin_id ?r) (rm_sensors ?r)")
      (simp_all add: host_init_def as_plugin_def assms(1) e)
qed

text \<open>
  C39: The host accepts the manifest exactly when no two controllers have the same identifier: two
  controllers of one dual-ported drive, which report one serial number, make it refuse the plugin, so that
  no NVMe drive of the machine is monitored.
\<close>

theorem nvme_twins_refused:
  assumes "nvme_init_inner E (PluginCtx_from J (RPluginCtx_from J ctx)) p = (Returns (Ok m), p')"
  shows "fst (host_init J (as_plugin J (nvme_init_inner E) (nvme_sample_inner E)) p ctx) = Returns (Ok (host_view m))
     \<longleftrightarrow> distinct (map nvme_key_payload (nv_devices p'))"
proof -
  note i = assms [unfolded nvme_init_Ok]
  have names: "\<forall>d \<in> set (nv_devices p'). is_nvme_controller_name (nd_name d)" using i nvme_enumerate_names(2) by blast
  show ?thesis
  proof (cases "distinct (map nvme_key_payload (nv_devices p'))")
    case True
    have "acceptable_manifest m" using nvme_acceptable [OF names _ True] i by simp
    then have "fst (host_init J (as_plugin J (nvme_init_inner E) (nvme_sample_inner E)) p ctx) = Returns (Ok (host_view m))"
      by (simp add: host_init_def as_plugin_def assms validate_acceptable PluginManifest_host_view)
    then show ?thesis using True by simp
  next
    case False
    have "map dev_key (m_devices m) = map nvme_key (nv_devices p')" using i by (simp add: nvme_manifest_def no_device_def)
    then have "\<not> distinct (map dev_key (m_devices m))" using False by (auto simp: distinct_map inj_on_def nvme_key_def)
    from host_refuses_twins [of "nvme_init_inner E", OF assms this]
    obtain e where "fst (host_init J (as_plugin J (nvme_init_inner E) (nvme_sample_inner E)) p ctx) = Returns (Err e)" by blast
    then show ?thesis using False by simp
  qed
qed

text \<open>
  Every controller is measured by its own sensors: without a fresh snapshot its counters are those of
  the file of its first namespace at that moment, bytes as sectors of 512, saturating; the capacity is the
  one read at start. If the file cannot be read the counters are unsupported.
\<close>

theorem nvme_sample_exact:
  assumes "nvme_init_inner E0 ctx s0 = (Returns (Ok m), s)" and "nv_cache s = None" and "d \<in> set (nv_devices s)"
    and "metric = ''capacity_bytes'' \<or> metric \<in> set nvme_stat_metrics"
  shows "fst (nvme_sample_inner E (metric_id ''nvme.'' (nd_name d) metric) s) = Returns
     (if metric = ''capacity_bytes'' then Ok (Scalar (fl_of_u64 (nd_capacity_bytes d)))
      else case nvme_device_stat E d of
             Some st \<Rightarrow> Ok (Counter (nvme_value metric st))
           | None \<Rightarrow> Err (Unsupported (metric_id ''nvme.'' (nd_name d) metric)))"
proof -
  note i = assms(1) [unfolded nvme_init_Ok]
  have dist: "distinct (map nd_name (nv_devices s))" using i nvme_enumerate_names(1) by blast
  have dot: "CHR ''.'' \<notin> set (nd_name d)" using i assms(3) nvme_enumerate_names(2) nvme_name_chars(2) by blast
  have "strip_prefix ''nvme.'' (metric_id ''nvme.'' (nd_name d) metric) = Some (nd_name d @ CHR ''.'' # metric)"
    by (simp add: strip_prefix_Some metric_id_def)
  moreover have "split_once CHR ''.'' (nd_name d @ CHR ''.'' # metric) = Some (nd_name d, metric)"
    unfolding split_once_Some using dot by blast
  ultimately have id: "Option.bind (strip_prefix ''nvme.'' (metric_id ''nvme.'' (nd_name d) metric)) (split_once CHR ''.'') = Some (nd_name d, metric)"
    by simp
  have fd: "find (\<lambda>d'. nd_name d' = nd_name d) (nv_devices s) = Some d"
  proof -
    obtain d' where d': "find (\<lambda>d'. nd_name d' = nd_name d) (nv_devices s) = Some d'"
      using assms(3) by (cases "find (\<lambda>d'. nd_name d' = nd_name d) (nv_devices s)") (auto simp: find_None_iff)
    then have "d' \<in> set (nv_devices s)" "nd_name d' = nd_name d" by (auto simp: find_Some_iff)
    then show ?thesis using d' dist assms(3) by (auto simp: distinct_map inj_on_def)
  qed
  have snap: "map_of (fst (nvme_snapshot E s)) (nd_name d) = nvme_device_stat E d"
    using snapshot_of [OF dist assms(3), of "nvme_device_stat E" "[]"]
    by (cases "nvme_device_stat E d") (simp_all add: nvme_snapshot_def assms(2) Let_def)
  show ?thesis
  proof (cases "metric = ''capacity_bytes''")
    case True
    then show ?thesis using id fd by (simp add: nvme_sample_inner_def)
  next
    case False
    then have m: "metric \<in> set nvme_stat_metrics" "metric \<noteq> ''temp_c''" using assms(4) by (auto simp: nvme_stat_metrics_def)
    show ?thesis using id False m snap by (simp add: nvme_sample_inner_def split_beta split: option.split)
  qed
qed

section \<open>Witnesses\<close>

definition demo_nvme :: env where
  "demo_nvme =
     \<lparr>env_file = (\<lambda>p. if p = ''/sys/class/nvme/nvme0/serial'' \<or> p = ''/sys/class/nvme/nvme1/serial'' then FileText ''S1''
                      else if p = ''/sys/class/block/nvme0n1/stat'' then FileText ''7 0 3 0 0 0 0 0 0 0 0''
                      else FileError ''not found''),
      env_dir = (\<lambda>p. if p = ''/sys/class/nvme'' then DirNames [''nvme0'', ''nvme1'', ''nvme-fabrics''] else DirMissing),
      env_exists = (\<lambda>p. p = ''/sys/class/block/nvme0n1/stat''), env_link = (\<lambda>_. None), env_now = 0\<rparr>"

definition demo_nvme_device :: "string \<Rightarrow> string option \<Rightarrow> NvmeDevice" where
  "demo_nvme_device n stat =
     \<lparr>nd_name = n, nd_model = ''unknown model ('' @ n @ '')'', nd_wwid = None, nd_serial = Some ''S1'',
      nd_hwmon_root = None, nd_block_stat = stat, nd_capacity_bytes = 0\<rparr>"

definition demo_nvme_devices :: "NvmeDevice list" where
  "demo_nvme_devices = [demo_nvme_device ''nvme0'' (Some ''/sys/class/block/nvme0n1/stat''), demo_nvme_device ''nvme1'' None]"

definition demo_nvme_inner :: NvmeInner where
  "demo_nvme_inner = \<lparr>nv_sysroot = None, nv_devices = [], nv_cache = None\<rparr>"

lemma demo_nvme_init:
  assumes "ctx_sysroot ctx = None"
  shows "nvme_init_inner demo_nvme ctx demo_nvme_inner = (Returns (Ok (nvme_manifest demo_nvme_devices)), demo_nvme_inner\<lparr>nv_devices := demo_nvme_devices\<rparr>)"
proof -
  have e: "nvme_enumerate demo_nvme None = Ok demo_nvme_devices" by code_simp
  have "map nvme_key demo_nvme_devices = [''nvme:s1'', ''nvme:s1'']" by code_simp
  moreover have "HardwareDeviceKey_try_new ''nvme:s1'' = Ok ''nvme:s1''" by code_simp
  then have "wf_key ''nvme:s1''" by (simp only: key_try_new_Ok)
  ultimately have "\<forall>k \<in> set (map nvme_key demo_nvme_devices). wf_key k" by simp
  then have "\<forall>d \<in> set demo_nvme_devices. wf_key (nvme_key d)" by simp
  then show ?thesis unfolding nvme_init_Ok using e assms by (simp add: demo_nvme_inner_def)
qed

theorem nvme_twins_refused_witness:
  "fst (host_init demo_json (as_plugin demo_json (nvme_init_inner demo_nvme) (nvme_sample_inner demo_nvme)) demo_nvme_inner
          \<lparr>ctx_sysroot = None, ctx_config = True\<rparr>) \<noteq> Returns (Ok (host_view (nvme_manifest demo_nvme_devices)))"
proof -
  have c: "ctx_sysroot (PluginCtx_from demo_json (RPluginCtx_from demo_json \<lparr>ctx_sysroot = None, ctx_config = True\<rparr>)) = None"
    by code_simp
  have "map nvme_key_payload demo_nvme_devices = [''s1'', ''s1'']" by code_simp
  then show ?thesis using nvme_twins_refused [OF demo_nvme_init [OF c]] by simp
qed

theorem nvme_sample_exact_witness:
  "fst (nvme_sample_inner demo_nvme ''nvme.nvme0.bytes_read'' (demo_nvme_inner\<lparr>nv_devices := demo_nvme_devices\<rparr>)) = Returns (Ok (Counter 1536))"
proof -
  let ?d = "demo_nvme_device ''nvme0'' (Some ''/sys/class/block/nvme0n1/stat'')"
  have i: "nvme_init_inner demo_nvme \<lparr>ctx_sysroot = None, ctx_config = ()\<rparr> demo_nvme_inner
      = (Returns (Ok (nvme_manifest demo_nvme_devices)), demo_nvme_inner\<lparr>nv_devices := demo_nvme_devices\<rparr>)"
    by (rule demo_nvme_init) simp
  have v: "map_option (nvme_value ''bytes_read'') (nvme_device_stat demo_nvme ?d) = Some 1536" by code_simp
  have id: "metric_id ''nvme.'' (nd_name ?d) ''bytes_read'' = ''nvme.nvme0.bytes_read''" by code_simp
  have d: "?d \<in> set (nv_devices (demo_nvme_inner\<lparr>nv_devices := demo_nvme_devices\<rparr>))" by (simp add: demo_nvme_devices_def)
  have m: "''bytes_read'' = ''capacity_bytes'' \<or> ''bytes_read'' \<in> set nvme_stat_metrics" by (simp add: nvme_stat_metrics_def)
  have "nv_cache (demo_nvme_inner\<lparr>nv_devices := demo_nvme_devices\<rparr>) = None" by (simp add: demo_nvme_inner_def)
  from nvme_sample_exact [OF i this d m, of demo_nvme] show ?thesis unfolding id using v by auto
qed

end
