(* ===== verification/Sensors_Systemd.thy ===== *)
theory Sensors_Systemd
  imports Sensors_Hwmon
begin

text \<open>
  The systemd plugin, \<^verbatim>\<open>crates/linsight-sensors/systemd\<close>: a table of the service units of
  \<^verbatim>\<open>system.slice\<close> with the CPU time each used since the last sample. The reads of a control group are those
  of the container plugin, whose functions the crate repeats.
\<close>

section \<open>Units\<close>

definition MAX_UNITS :: nat where
  "MAX_UNITS = 512"

record UnitEntry =
  ue_name :: string
  ue_cgroup_dir :: string

record SystemdInner =
  sd_sysroot :: "string option"
  sd_prev_cpu :: "(string \<times> u64) list"

text \<open>The cap applies in the order the directory lists its entries, before they are sorted.\<close>

definition enumerate_units :: "env \<Rightarrow> string \<Rightarrow> nat \<Rightarrow> UnitEntry list" where
  "enumerate_units E slice_dir max_units =
     (case read_dir E slice_dir of
        None \<Rightarrow> []
      | Some names \<Rightarrow>
          sort_key ue_name
            (take max_units
              (map (\<lambda>n. \<lparr>ue_name = n, ue_cgroup_dir = n\<rparr>)
                (filter (\<lambda>n. ends_with ''.service'' n \<and> is_dir E (path_join slice_dir n)) names))))"

definition cgroup_has_procs :: "env \<Rightarrow> string \<Rightarrow> bool" where
  "cgroup_has_procs E p =
     (case read_to_string E (path_join p ''cgroup.procs'') of Ok s \<Rightarrow> trim s \<noteq> [] | Err _ \<Rightarrow> False)"

definition unit_cpu :: "env \<Rightarrow> string \<Rightarrow> UnitEntry \<Rightarrow> u64" where
  "unit_cpu E slice_dir u = or_0 (read_cpu_usage E (path_join slice_dir (ue_cgroup_dir u)))"

definition unit_row :: "env \<Rightarrow> string \<Rightarrow> (string \<times> u64) list \<Rightarrow> UnitEntry \<Rightarrow> TableRow" where
  "unit_row E slice_dir prev u =
     (let p = path_join slice_dir (ue_cgroup_dir u);
          delta = (if prev = [] then 0 else saturating_sub (unit_cpu E slice_dir u) (or_0 (map_of prev (ue_name u))))
      in TableRow
           [CellText (ue_name u), CellText (if cgroup_has_procs E p then ''running'' else ''inactive''),
            CellNumber (fl_of_u64 delta), CellBytes (or_0 (read_u64_file E (path_join p ''memory.current''))),
            CellNumber (fl_of_u64 (or_0 (read_u64_file E (path_join p ''pids.current''))))])"

definition slice_dir :: "SystemdInner \<Rightarrow> string" where
  "slice_dir s = path_join (cgroup_root (sd_sysroot s)) ''system.slice''"

definition systemd_sample_inner :: "env \<Rightarrow> SensorId \<Rightarrow> SystemdInner \<Rightarrow> (Reading, PluginError) result exec \<times> SystemdInner" where
  "systemd_sample_inner E sensor s =
     (if sensor \<noteq> ''systemd.units'' then (Returns (Err (Unsupported sensor)), s)
      else if \<not> is_dir E (slice_dir s) then (Returns (Ok (Table [])), s)
      else let us = enumerate_units E (slice_dir s) MAX_UNITS
           in (Returns (Ok (Table (sort_key row_key (map (unit_row E (slice_dir s) (sd_prev_cpu s)) us)))),
               s\<lparr>sd_prev_cpu := fold (\<lambda>u. AList.update (ue_name u) (unit_cpu E (slice_dir s) u)) us []\<rparr>))"

definition empty_manifest :: PluginManifest where
  "empty_manifest =
     \<lparr>m_plugin_id = ''com.visorcraft.linsight.systemd'', m_display_name = ''Systemd Units'', m_version = CARGO_PKG_VERSION,
      m_sensors = [], m_devices = []\<rparr>"

definition systemd_manifest :: PluginManifest where
  "systemd_manifest =
     \<lparr>m_plugin_id = ''com.visorcraft.linsight.systemd'', m_display_name = ''Systemd Units'', m_version = CARGO_PKG_VERSION,
      m_sensors =
        [\<lparr>d_id = ''systemd.units'', d_display_name = ''Systemd service units'', d_unit = Count, d_kind = KindTable,
          d_category = CatCustom, d_native_rate_hz = RATE_0_2, d_min = None, d_max = None, d_device_id = None,
          d_device_key = None, d_tags = []\<rparr>],
      m_devices =
        [(no_device ''system:systemd'' HwOther ''Systemd Services'' ''systemd'')
           \<lparr>dev_plugin_id := ''com.visorcraft.linsight.systemd'', dev_sensor_ids := [''systemd.units'']\<rparr>]\<rparr>"

definition systemd_init_inner :: "env \<Rightarrow> 'j PluginCtx \<Rightarrow> SystemdInner \<Rightarrow> (PluginManifest, PluginError) result exec \<times> SystemdInner" where
  "systemd_init_inner E ctx s =
     (let s1 = s\<lparr>sd_sysroot := ctx_sysroot ctx\<rparr>
      in (Returns (Ok (if is_dir E (slice_dir s1) then systemd_manifest else empty_manifest)), s1))"

section \<open>At the host\<close>

lemma systemd_manifest_good: "good_manifest systemd_manifest" "good_manifest empty_manifest"
proof -
  have "HardwareDeviceKey_try_new ''system:systemd'' = Ok ''system:systemd''" by code_simp
  then have "wf_key ''system:systemd''" by (simp only: key_try_new_Ok)
  moreover have "list_all (\<lambda>p. p \<noteq> [] \<and> list_all (\<lambda>c. \<not> is_whitespace c) p) [''systemd.units'']" by code_simp
  then have "id_ok ''systemd.units''" by (simp add: id_ok_def list_all_iff)
  ultimately show "good_manifest systemd_manifest" by (intro good_manifestI) (auto simp: systemd_manifest_def no_device_def)
  show "good_manifest empty_manifest" by (intro good_manifestI) (auto simp: empty_manifest_def)
qed

interpretation systemd: sensor_plugin "systemd_init_inner E" "systemd_sample_inner E" for E
  by (rule sensor_pluginI)
    (auto simp: systemd_init_inner_def systemd_sample_inner_def systemd_manifest_good Let_def split: if_splits)

section \<open>The table\<close>

lemma unit_names: "distinct (map ue_name (enumerate_units E d n))" "length (enumerate_units E d n) \<le> n"
proof -
  have "distinct (map ue_name (take n (map (\<lambda>n. \<lparr>ue_name = n, ue_cgroup_dir = n\<rparr>) ns)))" if "distinct ns" for ns :: "string list"
    using that by (simp add: take_map [symmetric] comp_def)
  then show "distinct (map ue_name (enumerate_units E d n))"
    by (auto simp: enumerate_units_def read_dir_def distinct_map split: option.split dir.splits)
  show "length (enumerate_units E d n) \<le> n" by (simp add: enumerate_units_def split: option.split)
qed

lemma unit_entry:
  "\<lparr>ue_name = n, ue_cgroup_dir = n\<rparr> \<in> set (enumerate_units E d k) \<longleftrightarrow> n \<in> set (map ue_name (enumerate_units E d k))"
  by (cases "read_dir E d") (auto simp: enumerate_units_def take_map image_image)

lemma row_key_unit: "row_key (unit_row E d prev u) = ue_name u"
  by (simp add: row_key_def unit_row_def Let_def)

text \<open>
  The table has at most 512 rows, one for each unit, in the order of their names.
\<close>

theorem units_table_ordered:
  assumes "fst (systemd_sample_inner E i s) = Returns (Ok (Table rows))"
  shows "sorted (map row_key rows) \<and> distinct (map row_key rows) \<and> length rows \<le> 512"
proof -
  let ?us = "enumerate_units E (slice_dir s) MAX_UNITS" and ?row = "unit_row E (slice_dir s) (sd_prev_cpu s)"
  have "rows = [] \<or> rows = sort_key row_key (map ?row ?us)"
    using assms by (auto simp: systemd_sample_inner_def Let_def split: if_splits)
  moreover have "distinct (map row_key (sort_key row_key (map ?row ?us)))"
  proof -
    have "distinct (map row_key (map ?row ?us))"
      using unit_names(1) [of E "slice_dir s" MAX_UNITS] by (simp add: comp_def row_key_unit)
    then show ?thesis unfolding distinct_map set_sort distinct_sort .
  qed
  ultimately show ?thesis using unit_names(2) [of E "slice_dir s" MAX_UNITS] by (auto simp: MAX_UNITS_def)
qed

lemma prev_cpu_of:
  "map_of (fold (\<lambda>u. AList.update (ue_name u) (f u)) us m) = map_of (map (\<lambda>u. (ue_name u, f u)) (rev us) @ m)"
  by (induction us arbitrary: m) (simp_all add: update_conv')

lemma prev_cpu_unit:
  assumes "distinct (map ue_name us)"
  shows "u \<in> set us \<Longrightarrow> map_of (fold (\<lambda>u. AList.update (ue_name u) (f u)) us []) (ue_name u) = Some (f u)"
    and "n \<notin> ue_name ` set us \<Longrightarrow> map_of (fold (\<lambda>u. AList.update (ue_name u) (f u)) us []) n = None"
proof -
  have "distinct (map fst (map (\<lambda>u. (ue_name u, f u)) (rev us)))"
    using assms by (simp add: comp_def rev_map [symmetric])
  then show "u \<in> set us \<Longrightarrow> map_of (fold (\<lambda>u. AList.update (ue_name u) (f u)) us []) (ue_name u) = Some (f u)"
    unfolding prev_cpu_of append_Nil2 by (rule map_of_is_SomeI) simp
  show "n \<notin> ue_name ` set us \<Longrightarrow> map_of (fold (\<lambda>u. AList.update (ue_name u) (f u)) us []) n = None"
    unfolding prev_cpu_of append_Nil2 map_of_eq_None_iff by force
qed


section \<open>Witnesses\<close>

definition demo_units :: "string list \<Rightarrow> string \<Rightarrow> env" where
  "demo_units names usec =
     \<lparr>env_file = (\<lambda>p. if ends_with ''cpu.stat'' p then FileText (''usage_usec '' @ usec) else FileError ''not found''),
      env_dir = (\<lambda>p. if p = ''/sys/fs/cgroup/system.slice'' then DirNames names else DirNames []),
      env_exists = (\<lambda>_. True), env_link = (\<lambda>_. None), env_now = 0\<rparr>"

definition demo_systemd_inner :: SystemdInner where
  "demo_systemd_inner = \<lparr>sd_sysroot = None, sd_prev_cpu = []\<rparr>"

theorem units_table_ordered_witness:
  "\<exists>rows. fst (systemd_sample_inner (demo_units [''b.service'', ''a.service'', ''c.mount''] ''5'') ''systemd.units'' demo_systemd_inner)
       = Returns (Ok (Table rows)) \<and> length rows = 2 \<and> sorted (map row_key rows)"
proof -
  let ?E = "demo_units [''b.service'', ''a.service'', ''c.mount''] ''5''"
  have l: "length (enumerate_units ?E (slice_dir demo_systemd_inner) MAX_UNITS) = 2" by code_simp
  have d: "is_dir ?E (slice_dir demo_systemd_inner)" by code_simp
  define rows where "rows = sort_key row_key (map (unit_row ?E (slice_dir demo_systemd_inner) (sd_prev_cpu demo_systemd_inner))
      (enumerate_units ?E (slice_dir demo_systemd_inner) MAX_UNITS))"
  have r: "fst (systemd_sample_inner ?E ''systemd.units'' demo_systemd_inner) = Returns (Ok (Table rows))"
    using d by (simp add: systemd_sample_inner_def Let_def rows_def)
  show ?thesis using r units_table_ordered [OF r] l by (intro exI [of _ rows]) (simp add: rows_def)
qed

lemma demo_unit_names:
  "map ue_name (enumerate_units (demo_units [''a.service''] ''100'') (slice_dir demo_systemd_inner) MAX_UNITS) = [''a.service'']"
  "map ue_name (enumerate_units (demo_units [''a.service'', ''b.service''] ''900'') (slice_dir demo_systemd_inner) MAX_UNITS)
     = [''a.service'', ''b.service'']"
  by code_simp+

lemma demo_unit_cpu:
  "unit_cpu (demo_units [''a.service'', ''b.service''] ''900'') (slice_dir demo_systemd_inner)
     \<lparr>ue_name = ''b.service'', ue_cgroup_dir = ''b.service''\<rparr> = 900"
  by code_simp


end
