(* ===== verification/Sensors_Smart.thy ===== *)
theory Sensors_Smart
  imports Sensor_Lib
begin

text \<open>
  The SMART plugin, \<^verbatim>\<open>crates/linsight-sensors/smart\<close>. It asks udisks2 over D-Bus; a worker thread makes
  the call, the plugin waits for it for ten seconds and gives up on threads that hang. What udisks2 answers,
  and which threads have ended, are parameters.
\<close>

section \<open>What udisks2 says (udisks.rs)\<close>

text \<open>
  A D-Bus value, by the type it holds; an array of bytes is given by the text that
  \<^verbatim>\<open>from_utf8_lossy\<close> makes of it.
\<close>

datatype OwnedValue = VF64 fl | VBool bool | VU64 u64 | VBytes string | VOther

type_synonym props = "(string \<times> OwnedValue) list"
type_synonym managed = "(string \<times> (string \<times> props) list) list"

definition prop_f64 :: "props \<Rightarrow> string \<Rightarrow> fl option" where
  "prop_f64 props k = (case map_of props k of Some (VF64 x) \<Rightarrow> Some x | _ \<Rightarrow> None)"

definition prop_bool :: "props \<Rightarrow> string \<Rightarrow> bool option" where
  "prop_bool props k = (case map_of props k of Some (VBool b) \<Rightarrow> Some b | _ \<Rightarrow> None)"

definition prop_u64 :: "props \<Rightarrow> string \<Rightarrow> u64 option" where
  "prop_u64 props k = (case map_of props k of Some (VU64 n) \<Rightarrow> Some n | _ \<Rightarrow> None)"

definition KELVIN :: fl where
  "KELVIN = round_f64 (27315 / 100)"

text \<open>The sensors that the properties of a drive give, in the order of the pushes.\<close>

definition drive_specs :: "props \<Rightarrow> (string \<times> string \<times> Unit \<times> SensorKind \<times> Reading) list" where
  "drive_specs props =
     (case prop_f64 props ''SmartTemperature'' of
        Some k \<Rightarrow> [(''smart_temp_c'', ''SMART temperature'', Celsius, KindScalar, Scalar (fl_sub k KELVIN))] | None \<Rightarrow> [])
   @ (case prop_bool props ''SmartFailing'' of
        Some f \<Rightarrow> [(''smart_health'', ''SMART health'', Custom [], KindState, State (if f then ''failing'' else ''ok''))] | None \<Rightarrow> [])
   @ (case prop_u64 props ''SmartPowerOnSeconds'' of
        Some n \<Rightarrow> [(''smart_power_on_hours'', ''SMART power-on hours'', Custom ''h'', KindScalar, Scalar (fl_div (fl_of_u64 n) (Fin 3600)))]
      | None \<Rightarrow> [])
   @ (case prop_u64 props ''SmartNumAttributes'' of
        Some n \<Rightarrow> [(''smart_realloc_sectors'', ''SMART reallocated sectors'', Count, KindScalar, Scalar (fl_of_u64 n))] | None \<Rightarrow> [])
   @ (case prop_u64 props ''SmartPowerOnHours'' of
        Some n \<Rightarrow> [(''smart_power_on_hours'', ''SMART power-on hours'', Custom ''h'', KindScalar, Scalar (fl_of_u64 n))] | None \<Rightarrow> [])
   @ (case prop_f64 props ''SmartPercentUsed'' of
        Some u \<Rightarrow> [(''smart_wear_pct'', ''SMART wear'', Percent, KindScalar, Scalar u)] | None \<Rightarrow> [])"

type_synonym smart_sensor = "SensorId \<times> SensorDescriptor \<times> Reading"

definition make_sensor ::
    "string \<Rightarrow> string \<times> string \<times> Unit \<times> SensorKind \<times> Reading \<Rightarrow> (smart_sensor, PluginError) result" where
  "make_sensor disk spec =
     (case spec of (metric, display, u, kind, reading) \<Rightarrow>
        let i = metric_id ''disk.'' disk metric
        in case HardwareDeviceKey_try_new (''block:'' @ disk) of
             Err e \<Rightarrow> Err (PluginIo (''block '' @ disk @ '' bad key: '' @ key_error_to_string e))
           | Ok key \<Rightarrow>
               Ok (i, \<lparr>d_id = i, d_display_name = display, d_unit = u, d_kind = kind, d_category = CatStorage,
                       d_native_rate_hz = RATE_0_2, d_min = Some (Fin 0), d_max = None, d_device_id = Some disk,
                       d_device_key = Some key, d_tags = []\<rparr>, reading))"

text \<open>A loop of pushes that stops at the first error.\<close>

primrec push_all :: "('a \<Rightarrow> ('b, 'e) result) \<Rightarrow> 'a list \<Rightarrow> ('b list, 'e) result" where
  "push_all f [] = Ok []"
| "push_all f (x # xs) = result_bind (f x) (\<lambda>y. result_bind (push_all f xs) (\<lambda>ys. Ok (y # ys)))"

definition sensors_from_drive :: "string \<Rightarrow> props \<Rightarrow> (smart_sensor list, PluginError) result" where
  "sensors_from_drive disk props = push_all (make_sensor disk) (drive_specs props)"

text \<open>\<^verbatim>\<open>trim_start_matches("/dev/")\<close> takes the prefix away as often as it is there.\<close>

function trim_dev :: "string \<Rightarrow> string" where
  "trim_dev s = (case strip_prefix ''/dev/'' s of Some r \<Rightarrow> trim_dev r | None \<Rightarrow> s)"
  by pat_completeness auto
termination by (relation "measure length") (auto simp: strip_prefix_Some)

declare trim_dev.simps [simp del]

definition kernel_name :: "OwnedValue \<Rightarrow> string" where
  "kernel_name v = (case v of VBytes s \<Rightarrow> trim_dev (trim_end_matches_char (\<lambda>c. char_code c = 0) s) | _ \<Rightarrow> [])"

definition IFACE_BLOCK :: string where
  "IFACE_BLOCK = ''org.freedesktop.UDisks2.Block''"

definition IFACE_ATA :: string where
  "IFACE_ATA = ''org.freedesktop.UDisks2.Drive.Ata''"

definition IFACE_NVME :: string where
  "IFACE_NVME = ''org.freedesktop.UDisks2.NVMe.Controller''"

definition smart_iface :: "(string \<times> props) list \<Rightarrow> string \<Rightarrow> string list \<Rightarrow> props option" where
  "smart_iface ifaces iface keys =
     (case map_of ifaces iface of
        Some props \<Rightarrow> if \<exists>k \<in> set keys. map_of props k \<noteq> None then Some props else None
      | None \<Rightarrow> None)"

definition smart_drive :: "(string \<times> props) list \<Rightarrow> (string \<times> props) option" where
  "smart_drive ifaces =
     (case Option.bind (map_of ifaces IFACE_BLOCK) (\<lambda>b. map_of b ''Device'') of
        None \<Rightarrow> None
      | Some device \<Rightarrow>
          (let disk = kernel_name device
           in if disk = [] then None
              else case smart_iface ifaces IFACE_ATA [''SmartTemperature'', ''SmartFailing''] of
                     Some ata \<Rightarrow> Some (disk, ata)
                   | None \<Rightarrow> map_option (Pair disk) (smart_iface ifaces IFACE_NVME [''SmartTemperature'', ''SmartPercentUsed''])))"

definition fetch_smart_drives :: "managed \<Rightarrow> (string \<times> props) list" where
  "fetch_smart_drives objs =
     fold (\<lambda>(path, ifaces) out. case smart_drive ifaces of Some (d, p) \<Rightarrow> AList.update d p out | None \<Rightarrow> out) objs []"

section \<open>Fetching with a time limit (plugin.rs)\<close>

text \<open>30 s, 10 s, 1 s and 300 s, in nanoseconds.\<close>

definition SMART_CACHE_TTL :: nat where
  "SMART_CACHE_TTL = 30000000000"

definition UDISKS_TIMEOUT :: nat where
  "UDISKS_TIMEOUT = 10000000000"

definition SMART_BACKOFF_BASE :: nat where
  "SMART_BACKOFF_BASE = 1000000000"

definition SMART_BACKOFF_MAX :: nat where
  "SMART_BACKOFF_MAX = 300000000000"

definition SMART_MAX_DETACHED :: nat where
  "SMART_MAX_DETACHED = 8"

record SmartInner =
  sm_cache :: "(string \<times> nat \<times> (SensorId \<times> Reading) list) list"
  sm_warned :: bool
  sm_sample_warned :: bool
  sm_backoff_until :: "nat option"
  sm_timeout_strikes :: u32
  sm_detached :: "nat list"

text \<open>
  One call: the clock, which threads have ended, the thread this call would start, what it delivers (in
  time, or \<open>None\<close>), and the clock after the wait.
\<close>

record udisks =
  ud_now :: nat
  ud_finished :: "nat \<Rightarrow> bool"
  ud_thread :: nat
  ud_answer :: "(managed, string) result option"
  ud_later :: nat

definition smart_backoff :: "u32 \<Rightarrow> nat" where
  "smart_backoff strikes = min (SMART_BACKOFF_BASE * 2 ^ unat (min strikes 8)) SMART_BACKOFF_MAX"

definition add_strike :: "nat \<Rightarrow> SmartInner \<Rightarrow> SmartInner" where
  "add_strike now s =
     (let k = saturating_add (sm_timeout_strikes s) 1
      in s\<lparr>sm_timeout_strikes := k, sm_backoff_until := Some (now + smart_backoff k)\<rparr>)"

definition fetch_smart_drives_timeout :: "udisks \<Rightarrow> SmartInner \<Rightarrow> ((string \<times> props) list, PluginError) result \<times> SmartInner" where
  "fetch_smart_drives_timeout U s =
     (if (case sm_backoff_until s of Some t \<Rightarrow> ud_now U < t | None \<Rightarrow> False)
      then (Err (Unsupported ''udisks2 backed off after repeated timeouts''), s)
      else let s1 = s\<lparr>sm_detached := filter (\<lambda>h. \<not> ud_finished U h) (sm_detached s)\<rparr>
           in if SMART_MAX_DETACHED \<le> length (sm_detached s1)
              then (Err (Unsupported (''udisks2 detached-worker cap reached ('' @ show_nat SMART_MAX_DETACHED @ ''); backing off'')),
                    add_strike (ud_now U) s1)
              else let s2 = s1\<lparr>sm_detached := sm_detached s1 @ [ud_thread U]\<rparr>
                   in case ud_answer U of
                        None \<Rightarrow> (Err (Unsupported ''udisks2 fetch timed out after 10s''), add_strike (ud_later U) s2)
                      | Some a \<Rightarrow>
                          (case a of
                             Ok objs \<Rightarrow> (Ok (fetch_smart_drives objs), s2\<lparr>sm_timeout_strikes := 0, sm_backoff_until := None\<rparr>)
                           | Err e \<Rightarrow> (Err (PluginIo e), s2\<lparr>sm_timeout_strikes := 0, sm_backoff_until := None\<rparr>)))"

section \<open>The plugin\<close>

definition smart_manifest :: "(string \<times> smart_sensor list) list \<Rightarrow> PluginManifest" where
  "smart_manifest drives =
     \<lparr>m_plugin_id = ''com.visorcraft.linsight.smart'', m_display_name = ''SMART'', m_version = CARGO_PKG_VERSION,
      m_sensors = concat (map (\<lambda>d. map (\<lambda>(_, desc, _). desc) (snd d)) drives),
      m_devices = map (\<lambda>d. (no_device (''block:'' @ fst d) HwStorage (fst d) (fst d))\<lparr>dev_sensor_ids := map fst (snd d)\<rparr>) drives\<rparr>"

definition smart_readings :: "smart_sensor list \<Rightarrow> (SensorId \<times> Reading) list" where
  "smart_readings l = map (\<lambda>(i, _, r). (i, r)) l"

text \<open>The sensors of each drive; a drive whose name is no key stops the loop with the drives before it.\<close>

primrec drives_until_error :: "(string \<times> props) list \<Rightarrow> (string \<times> smart_sensor list) list \<times> PluginError option" where
  "drives_until_error [] = ([], None)"
| "drives_until_error (d # ds) =
     (case sensors_from_drive (fst d) (snd d) of
        Err e \<Rightarrow> ([], Some e)
      | Ok l \<Rightarrow> (let (rest, e) = drives_until_error ds in ((fst d, l) # rest, e)))"

definition cache_drives :: "nat \<Rightarrow> (string \<times> smart_sensor list) list \<Rightarrow> (string \<times> nat \<times> (SensorId \<times> Reading) list) list" where
  "cache_drives now drives = fold (\<lambda>(d, l). AList.update d (now, smart_readings l)) drives []"

definition smart_init_inner :: "udisks \<Rightarrow> 'j PluginCtx \<Rightarrow> SmartInner \<Rightarrow> (PluginManifest, PluginError) result exec \<times> SmartInner" where
  "smart_init_inner U ctx s =
     (case fetch_smart_drives_timeout U (s\<lparr>sm_cache := []\<rparr>) of
        (Err _, s1) \<Rightarrow> (Returns (Ok (smart_manifest [])), s1\<lparr>sm_warned := True\<rparr>)
      | (Ok drives, s1) \<Rightarrow>
          (let (ok, err) = drives_until_error drives; ds = filter (\<lambda>d. snd d \<noteq> []) ok
           in (Returns (case err of Some e \<Rightarrow> Err e | None \<Rightarrow> Ok (smart_manifest ds)),
               s1\<lparr>sm_warned := False, sm_sample_warned := False, sm_cache := cache_drives (ud_later U) ds\<rparr>)))"

definition cached_reading :: "SmartInner \<Rightarrow> string \<Rightarrow> SensorId \<Rightarrow> (nat \<times> Reading) option" where
  "cached_reading s name sensor =
     Option.bind (map_of (sm_cache s) name) (\<lambda>(t, rs). map_option (Pair t) (map_of rs sensor))"

definition smart_refresh :: "udisks \<Rightarrow> string \<Rightarrow> SensorId \<Rightarrow> SmartInner \<Rightarrow> (Reading, PluginError) result \<times> SmartInner" where
  "smart_refresh U name sensor s =
     (case fetch_smart_drives_timeout U s of
        (Err e, s1) \<Rightarrow>
          (case cached_reading s1 name sensor of Some (_, r) \<Rightarrow> Ok r | None \<Rightarrow> Err e, s1\<lparr>sm_sample_warned := True\<rparr>)
      | (Ok drives, s1) \<Rightarrow>
          (case drives_until_error drives of
             (_, Some e) \<Rightarrow> (Err e, s1\<lparr>sm_sample_warned := False\<rparr>)
           | (ds, None) \<Rightarrow>
               (let s2 = s1\<lparr>sm_sample_warned := False, sm_cache := cache_drives (ud_later U) ds\<rparr>
                in (case cached_reading s2 name sensor of Some (_, r) \<Rightarrow> Ok r | None \<Rightarrow> Err (Unsupported sensor), s2))))"

definition smart_sample_inner :: "udisks \<Rightarrow> SensorId \<Rightarrow> SmartInner \<Rightarrow> (Reading, PluginError) result exec \<times> SmartInner" where
  "smart_sample_inner U sensor s =
     (case split_metric_id ''disk.'' sensor of
        None \<Rightarrow> (Returns (Err (Unsupported sensor)), s)
      | Some (name, _) \<Rightarrow>
          (case cached_reading s name sensor of
             Some (t, r) \<Rightarrow>
               if ud_now U - t \<le> SMART_CACHE_TTL then (Returns (Ok r), s)
               else (let (x, s1) = smart_refresh U name sensor s in (Returns x, s1))
           | None \<Rightarrow> (let (x, s1) = smart_refresh U name sensor s in (Returns x, s1))))"

section \<open>At the host\<close>

lemma push_all_Ok: "push_all f xs = Ok ys \<Longrightarrow> list_all2 (\<lambda>x y. f x = Ok y) xs ys"
proof (induction xs arbitrary: ys)
  case (Cons x xs)
  obtain y where y: "f x = Ok y" using Cons.prems by (cases "f x") simp_all
  moreover obtain zs where zs: "push_all f xs = Ok zs" using Cons.prems y by (cases "push_all f xs") simp_all
  ultimately have "ys = y # zs" using Cons.prems by simp
  then show ?case using y Cons.IH [OF zs] by simp
qed simp

lemma smart_metrics_ok: "spec \<in> set (drive_specs props) \<Longrightarrow> id_ok (fst spec)"
proof -
  let ?ms = "[''smart_temp_c'', ''smart_health'', ''smart_power_on_hours'', ''smart_realloc_sectors'', ''smart_wear_pct'']"
  have "list_all (\<lambda>m. m \<noteq> [] \<and> list_all (\<lambda>c. \<not> is_whitespace c) m) ?ms" by code_simp
  then have "\<forall>m \<in> set ?ms. id_ok m" unfolding list_all_iff id_ok_def by blast
  moreover have "spec \<in> set (drive_specs props) \<Longrightarrow> fst spec \<in> set ?ms"
    unfolding drive_specs_def set_append Un_iff by (elim disjE) (auto split: option.splits)
  ultimately show "spec \<in> set (drive_specs props) \<Longrightarrow> id_ok (fst spec)" by blast
qed

lemma make_sensor_Ok:
  assumes "make_sensor disk spec = Ok x"
  shows "wf_key (''block:'' @ disk)" and "d_device_key (fst (snd x)) = Some (''block:'' @ disk)"
    and "d_id (fst (snd x)) = metric_id ''disk.'' disk (fst spec)"
proof -
  obtain k where k: "HardwareDeviceKey_try_new (''block:'' @ disk) = Ok k"
    using assms by (auto simp: make_sensor_def Let_def split: prod.splits result.splits)
  then show "wf_key (''block:'' @ disk)" "d_device_key (fst (snd x)) = Some (''block:'' @ disk)"
      "d_id (fst (snd x)) = metric_id ''disk.'' disk (fst spec)"
    using assms wf_key_payload [OF k] by (auto simp: make_sensor_def Let_def split: prod.splits)
qed

lemma drive_sensor:
  assumes "sensors_from_drive disk props = Ok l" and "x \<in> set l"
  shows "wf_key (''block:'' @ disk) \<and> d_device_key (fst (snd x)) = Some (''block:'' @ disk) \<and> id_ok (d_id (fst (snd x)))"
proof -
  obtain spec where spec: "spec \<in> set (drive_specs props)" "make_sensor disk spec = Ok x"
  proof -
    have l: "list_all2 (\<lambda>x y. make_sensor disk x = Ok y) (drive_specs props) l"
      using assms(1) by (simp add: sensors_from_drive_def push_all_Ok)
    obtain i where "i < length l" "x = l ! i" using assms(2) by (auto simp: in_set_conv_nth)
    then show ?thesis
      using that [of "drive_specs props ! i"] l by (simp add: list_all2_conv_all_nth)
  qed
  note x = make_sensor_Ok [OF spec(2)]
  have "list_all (\<lambda>c. \<not> is_whitespace c) ''disk.''" by code_simp
  then have p: "id_ok ''disk.''" by (simp add: id_ok_def list_all_iff)
  have "id_ok disk" using wf_key_name [of "''block''" disk] x(1) by simp
  then show ?thesis using x id_ok_metric_id [OF p] smart_metrics_ok [OF spec(1)] by simp
qed

lemma drives_until_error_in:
  "d \<in> set (fst (drives_until_error drives)) \<Longrightarrow> \<exists>props. (fst d, props) \<in> set drives \<and> sensors_from_drive (fst d) props = Ok (snd d)"
  by (induction drives) (auto split: result.splits prod.splits)

lemma drives_until_error_names:
  "distinct (map fst drives) \<Longrightarrow> distinct (map fst (fst (drives_until_error drives)))"
proof (induction drives)
  case (Cons d ds)
  then show ?case
    using drives_until_error_in [of _ ds] by (auto split: result.split prod.split) (metis fst_conv image_eqI)
qed simp

lemma fetch_distinct: "distinct (map fst (fetch_smart_drives objs))"
proof -
  have "distinct (map fst (fold (\<lambda>(path, ifaces) out. case smart_drive ifaces of Some (d, p) \<Rightarrow> AList.update d p out | None \<Rightarrow> out) objs m))"
    if "distinct (map fst m)" for m
    using that by (induction objs arbitrary: m) (auto simp: distinct_update split: option.split)
  then show ?thesis by (simp add: fetch_smart_drives_def)
qed

lemma fetch_timeout_Ok:
  "fetch_smart_drives_timeout U s = (Ok drives, s') \<Longrightarrow> distinct (map fst drives)"
  using fetch_distinct by (auto simp: fetch_smart_drives_timeout_def Let_def split: if_splits option.splits result.splits)

lemma smart_manifest_acceptable:
  assumes "distinct (map fst drives)"
  shows "acceptable_manifest (smart_manifest (filter (\<lambda>d. snd d \<noteq> []) (fst (drives_until_error drives))))"
proof -
  let ?ds = "filter (\<lambda>d. snd d \<noteq> []) (fst (drives_until_error drives))"
  have all: "wf_key (''block:'' @ fst d) \<and> d_device_key (fst (snd x)) = Some (''block:'' @ fst d) \<and> id_ok (d_id (fst (snd x)))"
    if "d \<in> set (fst (drives_until_error drives))" "x \<in> set (snd d)" for d x
    using drives_until_error_in [OF that(1)] drive_sensor that(2) by blast
  have wf: "wf_key (''block:'' @ fst d)" if "d \<in> set ?ds" for d
    using all [of d "hd (snd d)"] that by simp
  have k: "dev_key ((no_device (''block:'' @ fst d) HwStorage (fst d) (fst d))\<lparr>dev_sensor_ids := i\<rparr>) = ''block:'' @ fst d" for d :: "string \<times> 'b" and i
    by (simp add: no_device_def)
  have "distinct (map fst ?ds)" using drives_until_error_names [OF assms] by (rule distinct_map_filter)
  then have dist: "distinct (map (\<lambda>d. ''block:'' @ fst d) ?ds)" by (auto simp: distinct_map inj_on_def)
  have s: "map (\<lambda>(_, desc, _). desc) l = map (\<lambda>x. fst (snd x)) l" for l :: "smart_sensor list" by (simp add: case_prod_beta)
  show ?thesis
    using wf dist all unfolding acceptable_manifest_def smart_manifest_def s
    by (simp only: PluginManifest.simps map_map comp_def k set_map set_concat image_image)
      (auto simp: no_device_def image_iff simp del: append.simps, blast)
qed

interpretation smart: builtin_plugin "smart_init_inner U" "smart_sample_inner U" for U
proof
  show "acceptable_manifest m" if i: "smart_init_inner U ctx p = (Returns (Ok m), p')" for ctx p m p'
  proof (cases "fetch_smart_drives_timeout U (p\<lparr>sm_cache := []\<rparr>)")
    case (Pair r s1)
    show ?thesis
    proof (cases r)
      case (Ok drives)
      then have "m = smart_manifest (filter (\<lambda>d. snd d \<noteq> []) (fst (drives_until_error drives)))"
        using i Pair by (auto simp: smart_init_inner_def Let_def split: prod.splits option.splits)
      then show ?thesis using smart_manifest_acceptable fetch_timeout_Ok Pair Ok by blast
    next
      case (Err e)
      then show ?thesis using i Pair by (auto simp: smart_init_inner_def acceptable_manifest_def smart_manifest_def)
    qed
  qed
qed (auto simp: smart_init_inner_def smart_sample_inner_def Let_def split: option.splits prod.splits result.splits if_splits)

section \<open>A udisks2 that hangs\<close>

lemma fetch_threads:
  "length (sm_detached s) \<le> 8 \<Longrightarrow> length (sm_detached (snd (fetch_smart_drives_timeout U s))) \<le> 8"
proof -
  assume l: "length (sm_detached s) \<le> 8"
  have "length (filter (\<lambda>h. \<not> ud_finished U h) (sm_detached s)) \<le> 8" using length_filter_le l by (rule order_trans)
  then show ?thesis using l
    by (simp add: fetch_smart_drives_timeout_def add_strike_def SMART_MAX_DETACHED_def Let_def split: option.split result.split)
qed

lemma refresh_detached:
  "sm_detached (snd (smart_refresh U name i s)) = sm_detached (snd (fetch_smart_drives_timeout U s))"
  by (auto simp: smart_refresh_def Let_def split: prod.split result.split option.split)

lemma refresh_threads:
  "length (sm_detached s) \<le> 8 \<Longrightarrow> length (sm_detached (snd (smart_refresh U name i s))) \<le> 8"
  unfolding refresh_detached by (rule fetch_threads)

text \<open>
  C32: However long udisks2 hangs, and however often its sensors are sampled, at most eight worker threads
  wait for it.
\<close>

theorem smart_threads_bounded:
  assumes "length (sm_detached s) \<le> 8"
  shows "length (sm_detached (fold (\<lambda>(U, i) s. snd (smart_sample_inner U i s)) calls s)) \<le> 8"
  using assms
proof (induction calls arbitrary: s)
  case (Cons c calls)
  obtain U i where c: "c = (U, i)" by fastforce
  have "length (sm_detached (snd (smart_sample_inner U i s))) \<le> 8"
    using Cons.prems refresh_threads [OF Cons.prems]
    by (simp add: smart_sample_inner_def split: option.split prod.split) (metis snd_conv)
  then show ?case using Cons.IH c by simp
qed simp

lemma fetch_keeps_cache: "sm_cache (snd (fetch_smart_drives_timeout U s)) = sm_cache s"
  by (simp add: fetch_smart_drives_timeout_def add_strike_def Let_def split: option.split result.split)

text \<open>
  While udisks2 does not answer, or answers with an error, a sensor that was ever read keeps its
  last value.
\<close>

theorem smart_stale_served:
  assumes "cached_reading s name (metric_id ''disk.'' name metric) = Some (t, r)" and "CHR ''.'' \<notin> set metric"
    and "ud_answer U = None \<or> (\<exists>e. ud_answer U = Some (Err e))"
  shows "fst (smart_sample_inner U (metric_id ''disk.'' name metric) s) = Returns (Ok r)
     \<and> sm_cache (snd (smart_sample_inner U (metric_id ''disk.'' name metric) s)) = sm_cache s"
proof -
  let ?i = "metric_id ''disk.'' name metric"
  have "\<exists>e. fst (fetch_smart_drives_timeout U s) = Err e"
    using assms(3) by (auto simp: fetch_smart_drives_timeout_def Let_def)
  then obtain e s1 where f: "fetch_smart_drives_timeout U s = (Err e, s1)" by (metis prod.collapse)
  then have c: "sm_cache s1 = sm_cache s" using fetch_keeps_cache [of U s] by simp
  then have "cached_reading s1 name ?i = Some (t, r)" using assms(1) by (simp add: cached_reading_def)
  then have "smart_refresh U name ?i s = (Ok r, s1\<lparr>sm_sample_warned := True\<rparr>)" by (simp add: smart_refresh_def f)
  then show ?thesis using assms(1) c by (simp add: smart_sample_inner_def split_metric_id [OF assms(2)])
qed

lemma smart_backoff_bound: "smart_backoff k \<le> 256 * 1000000000"
proof -
  have "unat (min k 8) \<le> 8" by (simp add: min_def word_le_nat_alt)
  then have "(2::nat) ^ unat (min k 8) \<le> 2 ^ 8" by (rule power_increasing) simp
  then show ?thesis by (simp add: smart_backoff_def SMART_BACKOFF_BASE_def min_le_iff_disj)
qed

text \<open>
  After the n-th call in a row that is not answered in time, udisks2 is left alone for two to the n
  seconds, and never for more than 256 (so that the limit of 300 seconds of the code never applies): until
  then a sample without a fresh value starts no thread and leaves the schedule as it is.
\<close>

theorem smart_backoff_schedule:
  assumes "ud_answer U = None" and "length (sm_detached s) < 8" and "sm_backoff_until s = None"
    and "unat (sm_timeout_strikes s) < 8"
    and "ud_now V < ud_later U + 1000000000 * 2 ^ (unat (sm_timeout_strikes s) + 1)"
  shows "fst (fetch_smart_drives_timeout V (snd (fetch_smart_drives_timeout U s))) = Err (Unsupported ''udisks2 backed off after repeated timeouts'')
     \<and> snd (fetch_smart_drives_timeout V (snd (fetch_smart_drives_timeout U s))) = snd (fetch_smart_drives_timeout U s)
     \<and> smart_backoff (sm_timeout_strikes s + 1) \<le> 256000000000"
proof -
  let ?k = "sm_timeout_strikes s"
  have k: "saturating_add ?k 1 = ?k + 1" "unat (?k + 1) = unat ?k + 1"
  proof -
    have "unat (saturating_add ?k 1) = unat ?k + 1" using assms(4) by (simp add: unat_saturating_add)
    moreover show "unat (?k + 1) = unat ?k + 1" using assms(4) by (subst unat_add_lem [THEN iffD1]) simp_all
    ultimately show "saturating_add ?k 1 = ?k + 1" by (metis word_unat_eq_iff)
  qed
  have "min (?k + 1) 8 = ?k + 1" using assms(4) k(2) by (simp add: min_def word_le_nat_alt)
  moreover have "(2::nat) ^ (unat ?k + 1) \<le> 2 ^ 8" using assms(4) by (intro power_increasing) simp_all
  ultimately have b: "smart_backoff (?k + 1) = 1000000000 * 2 ^ (unat ?k + 1)"
    by (simp add: smart_backoff_def k(2) SMART_BACKOFF_BASE_def SMART_BACKOFF_MAX_def)
  have "length (filter (\<lambda>h. \<not> ud_finished U h) (sm_detached s)) < 8"
    using assms(2) length_filter_le [of "\<lambda>h. \<not> ud_finished U h" "sm_detached s"] by linarith
  then have "sm_backoff_until (snd (fetch_smart_drives_timeout U s)) = Some (ud_later U + smart_backoff (?k + 1))"
    using assms(1,3) by (simp add: fetch_smart_drives_timeout_def SMART_MAX_DETACHED_def add_strike_def Let_def k)
  then show ?thesis using assms(5) b smart_backoff_bound [of "?k + 1"] by (simp add: fetch_smart_drives_timeout_def)
qed

section \<open>Two objects for one drive\<close>

text \<open>
  C0: udisks2 documents the block device (\<^verbatim>\<open>/block_devices/sda\<close>) and the drive (\<^verbatim>\<open>/drives/...\<close>), which has the
  SMART interfaces, as different objects. The plugin looks for both on one object, so with every answer
  of that form it finds no drive and registers no sensor.
\<close>

theorem smart_needs_one_object:
  assumes "\<forall>(path, ifaces) \<in> set objs. map_of ifaces IFACE_BLOCK \<noteq> None \<longrightarrow>
      map_of ifaces IFACE_ATA = None \<and> map_of ifaces IFACE_NVME = None"
    and "ud_answer U = Some (Ok objs)"
  shows "\<exists>m. fst (smart_init_inner U ctx s) = Returns (Ok m) \<and> m_sensors m = [] \<and> m_devices m = []"
proof -
  have "\<forall>x \<in> set objs. smart_drive (snd x) = None"
    using assms(1) by (auto simp: smart_drive_def smart_iface_def Let_def split: option.split bind_splits)
  moreover have "\<forall>x \<in> set os. smart_drive (snd x) = None \<Longrightarrow>
      fold (\<lambda>(path, ifaces) out. case smart_drive ifaces of Some (d, p) \<Rightarrow> AList.update d p out | None \<Rightarrow> out) os m = m" for os m
    by (induction os arbitrary: m) auto
  ultimately have "fold (\<lambda>(path, ifaces) out. case smart_drive ifaces of Some (d, p) \<Rightarrow> AList.update d p out | None \<Rightarrow> out) objs m = m" for m
    by blast
  then have f: "fetch_smart_drives objs = []" by (simp add: fetch_smart_drives_def)
  show ?thesis
  proof (cases "fetch_smart_drives_timeout U (s\<lparr>sm_cache := []\<rparr>)")
    case (Pair r s1)
    have "r = Ok [] \<or> (\<exists>e. r = Err e)"
      using Pair assms(2) f by (auto simp: fetch_smart_drives_timeout_def Let_def split: if_splits option.splits)
    then show ?thesis using Pair by (auto simp: smart_init_inner_def smart_manifest_def)
  qed
qed

section \<open>Witnesses\<close>

definition demo_udisks :: "(managed, string) result option \<Rightarrow> udisks" where
  "demo_udisks a = \<lparr>ud_now = 100000000000, ud_finished = (\<lambda>_. False), ud_thread = 1, ud_answer = a, ud_later = 110000000000\<rparr>"

definition demo_smart :: SmartInner where
  "demo_smart =
     \<lparr>sm_cache = [(''sda'', 0, [(''disk.sda.smart_health'', State ''ok'')])], sm_warned = False, sm_sample_warned = False,
      sm_backoff_until = None, sm_timeout_strikes = 0, sm_detached = []\<rparr>"

theorem smart_threads_bounded_witness:
  "length (sm_detached (fold (\<lambda>(U, i) s. snd (smart_sample_inner U i s)) (replicate 100 (demo_udisks None, ''disk.sdb.smart_health'')) demo_smart)) \<le> 8"
  by (rule smart_threads_bounded) (simp add: demo_smart_def)

theorem smart_stale_served_witness:
  "fst (smart_sample_inner (demo_udisks None) ''disk.sda.smart_health'' demo_smart) = Returns (Ok (State ''ok''))"
proof -
  have i: "metric_id ''disk.'' ''sda'' ''smart_health'' = ''disk.sda.smart_health''" by code_simp
  have "cached_reading demo_smart ''sda'' (metric_id ''disk.'' ''sda'' ''smart_health'') = Some (0, State ''ok'')"
    unfolding i by (simp add: cached_reading_def demo_smart_def)
  from smart_stale_served [OF this, of "demo_udisks None"] show ?thesis unfolding i by (simp add: demo_udisks_def)
qed

theorem smart_backoff_schedule_witness:
  "fst (fetch_smart_drives_timeout (demo_udisks (Some (Ok []))) (snd (fetch_smart_drives_timeout (demo_udisks None) demo_smart)))
     = Err (Unsupported ''udisks2 backed off after repeated timeouts'')"
  using smart_backoff_schedule [of "demo_udisks None" demo_smart "demo_udisks (Some (Ok []))"]
  by (simp add: demo_udisks_def demo_smart_def)

definition demo_objects :: managed where
  "demo_objects =
     [(''/org/freedesktop/UDisks2/block_devices/sda'', [(IFACE_BLOCK, [(''Device'', VBytes ''/dev/sda'')])]),
      (''/org/freedesktop/UDisks2/drives/WDC'', [(IFACE_ATA, [(''SmartTemperature'', VF64 (Fin 310))])])]"

theorem smart_needs_one_object_witness:
  "\<exists>m. fst (smart_init_inner (demo_udisks (Some (Ok demo_objects))) \<lparr>ctx_sysroot = None, ctx_config = ()\<rparr> demo_smart) = Returns (Ok m)
     \<and> m_sensors m = []"
proof -
  have ne: "IFACE_BLOCK \<noteq> IFACE_ATA" "IFACE_BLOCK \<noteq> IFACE_NVME" by code_simp+
  have "\<forall>(path, ifaces) \<in> set demo_objects. map_of ifaces IFACE_BLOCK \<noteq> None \<longrightarrow>
      map_of ifaces IFACE_ATA = None \<and> map_of ifaces IFACE_NVME = None"
    using ne by (auto simp: demo_objects_def)
  from smart_needs_one_object [OF this, of "demo_udisks (Some (Ok demo_objects))"] show ?thesis
    by (auto simp: demo_udisks_def)
qed

end
