(* ===== verification/Runtime.thy ===== *)
theory Runtime
  imports Sessions
begin

text \<open>
  The start of the daemon, \<^verbatim>\<open>apps/linsightd/src/runtime.rs\<close>: the socket file that a daemon takes over,
  serves and removes, as steps of several daemons on one path; the configuration files; and how the
  plugins, the registry, the scheduler, history and alerts are put together.
\<close>

section \<open>Paths and the plugin configuration\<close>

definition config_path_from :: "string option \<Rightarrow> string option \<Rightarrow> string \<Rightarrow> string \<Rightarrow> string" where
  "config_path_from xdg home rel fallback =
     (case xdg of
        Some d \<Rightarrow> path_join (path_join d ''linsight'') rel
      | None \<Rightarrow>
          (case home of
             Some h \<Rightarrow> path_join (path_join (path_join h ''.config'') ''linsight'') rel
           | None \<Rightarrow> fallback))"

definition nickname_store_path :: "string option \<Rightarrow> string option \<Rightarrow> string" where
  "nickname_store_path xdg home = config_path_from xdg home ''hardware.json'' ''/tmp/linsight-hardware.json''"

definition alerts_config_path :: "string option \<Rightarrow> string option \<Rightarrow> string" where
  "alerts_config_path xdg home = config_path_from xdg home ''alerts.toml'' ''/etc/linsight/alerts.toml''"

definition plugins_config_path :: "string option \<Rightarrow> string option \<Rightarrow> string" where
  "plugins_config_path xdg home = config_path_from xdg home ''plugins.toml'' ''/etc/linsight/plugins.toml''"

definition MAX_PLUGINS_CONFIG_BYTES :: nat where
  "MAX_PLUGINS_CONFIG_BYTES = 1048576"

text \<open>
  \<open>stat\<close> is the length of the file; \<open>from_toml\<close> gives the entries of the top-level table as JSON,
  \<open>Ok None\<close> a value that is no table. Whatever is wrong with the file, no plugin is configured.
\<close>

definition load_plugin_configs ::
    "(nat, string) result \<Rightarrow> (string \<Rightarrow> ((string \<times> 'j) list option, string) result) \<Rightarrow> string \<Rightarrow> files \<Rightarrow> (string \<times> 'j) list" where
  "load_plugin_configs stat from_toml path m =
     (case m path of
        None \<Rightarrow> []
      | Some content \<Rightarrow>
          (case stat of
             Err _ \<Rightarrow> []
           | Ok len \<Rightarrow>
               if MAX_PLUGINS_CONFIG_BYTES < len then []
               else case from_toml content of
                      Ok (Some table) \<Rightarrow> fold (\<lambda>(k, v). AList.update k v) table []
                    | _ \<Rightarrow> []))"

section \<open>The socket file\<close>

text \<open>
  What is at the path: nothing, or a socket by the number of the daemon that bound it. The calls of one
  daemon, in the order of \<^verbatim>\<open>run\<close>; \<open>Serving\<close> begins where the guard is made.
\<close>

datatype daemon_phase =
  Starting | Connecting | Removing | Binding | Configuring | Serving | Closing | Exited | Refused | Failed | Crashed

record sockets =
  sk_file :: "nat option"
  sk_live :: "nat list"
  sk_phase :: "nat \<Rightarrow> daemon_phase"

text \<open>
  What a daemon does next: its next call; a call after \<^verbatim>\<open>bind\<close> that fails (the file stays); a signal that
  ends the accept loop, which closes the listener; a crash.
\<close>

datatype sock_event = Next | SetupFails | Shutdown | Crash

definition daemon_next :: "nat \<Rightarrow> sockets \<Rightarrow> sockets" where
  "daemon_next k s =
     (case sk_phase s k of
        Starting \<Rightarrow> s\<lparr>sk_phase := (sk_phase s)(k := if sk_file s = None then Binding else Connecting)\<rparr>
      | Connecting \<Rightarrow>
          s\<lparr>sk_phase := (sk_phase s)(k := case sk_file s of
                Some l \<Rightarrow> if l \<in> set (sk_live s) then Refused else Removing | None \<Rightarrow> Removing)\<rparr>
      | Removing \<Rightarrow>
          (if sk_file s = None then s\<lparr>sk_phase := (sk_phase s)(k := Failed)\<rparr>
           else s\<lparr>sk_file := None, sk_phase := (sk_phase s)(k := Binding)\<rparr>)
      | Binding \<Rightarrow>
          (if sk_file s = None
           then s\<lparr>sk_file := Some k, sk_live := k # sk_live s, sk_phase := (sk_phase s)(k := Configuring)\<rparr>
           else s\<lparr>sk_phase := (sk_phase s)(k := Failed)\<rparr>)
      | Configuring \<Rightarrow> s\<lparr>sk_phase := (sk_phase s)(k := Serving)\<rparr>
      | Closing \<Rightarrow> s\<lparr>sk_file := None, sk_phase := (sk_phase s)(k := Exited)\<rparr>
      | _ \<Rightarrow> s)"

definition sock_step :: "nat \<times> sock_event \<Rightarrow> sockets \<Rightarrow> sockets" where
  "sock_step e s =
     (case e of
        (k, Next) \<Rightarrow> daemon_next k s
      | (k, SetupFails) \<Rightarrow>
          (if sk_phase s k = Configuring
           then s\<lparr>sk_live := removeAll k (sk_live s), sk_phase := (sk_phase s)(k := Failed)\<rparr> else s)
      | (k, Shutdown) \<Rightarrow>
          (if sk_phase s k = Serving
           then s\<lparr>sk_live := removeAll k (sk_live s), sk_phase := (sk_phase s)(k := Closing)\<rparr> else s)
      | (k, Crash) \<Rightarrow> s\<lparr>sk_live := removeAll k (sk_live s), sk_phase := (sk_phase s)(k := Crashed)\<rparr>)"

text \<open>A path with what an earlier daemon left there, and daemons that have not started.\<close>

definition sockets_new :: "nat option \<Rightarrow> sockets" where
  "sockets_new leftover = \<lparr>sk_file = leftover, sk_live = [], sk_phase = (\<lambda>_. Starting)\<rparr>"

text \<open>Between its first call and \<open>Serving\<close>, and between the end of the loop and its exit.\<close>

definition busy :: "sockets \<Rightarrow> nat \<Rightarrow> bool" where
  "busy s k \<longleftrightarrow> sk_phase s k \<in> {Connecting, Removing, Binding, Configuring, Closing}"

text \<open>One daemon at a time starts or stops.\<close>

inductive serialised :: "nat option \<Rightarrow> sockets \<Rightarrow> bool" for leftover where
  start: "serialised leftover (sockets_new leftover)"
| step: "serialised leftover s \<Longrightarrow> (\<And>j. j \<noteq> k \<Longrightarrow> \<not> busy s j) \<Longrightarrow> serialised leftover (sock_step (k, e) s)"

section \<open>Putting the daemon together\<close>

text \<open>What the start uses of the outside.\<close>

record ('j, 'p, 'l, 'c) launch =
  ln_json :: "'j json_lib"
  ln_plugin :: "'p LinsightPlugin"
  ln_default_of :: "string \<Rightarrow> 'p"
  ln_linker :: "('p, 'l) linker"
  ln_canonicalize :: "string \<Rightarrow> string option"
  ln_read_dir :: "string \<Rightarrow> string list option"
  ln_evalexpr :: "'c evalexpr"
  ln_rules_toml :: "string \<Rightarrow> (RuleConfig list, string) result"
  ln_plugins_toml :: "string \<Rightarrow> ((string \<times> 'j) list option, string) result"
  ln_plugins_stat :: "(nat, string) result"
  ln_parse_store :: "string \<Rightarrow> NicknameStore option"
  ln_fs :: fs_env
  ln_xdg_config :: "string option"
  ln_xdg_data :: "string option"
  ln_home :: "string option"
  ln_history :: bool
  ln_spawned :: "(HistoryWriter, string) result"
  ln_alerts :: bool
  ln_prom_bind :: "string option"
  ln_prom_ok :: bool

text \<open>\<^verbatim>\<open>LINSIGHT_HISTORY\<close>: a writer thread and its empty channel; without one there is no history.\<close>

definition start_history ::
    "('j, 'p, 'l, 'c) launch \<Rightarrow> ('p, 'l, 'c) Scheduler \<times> alert_world \<Rightarrow> ('p, 'l, 'c) Scheduler \<times> alert_world" where
  "start_history L st =
     (let (sch, w) = st
      in if ln_history L then
           (case ln_spawned L of
              Ok writer \<Rightarrow>
                (set_history_db_path (Some (history_db_path (ln_xdg_data L) (ln_home L))) (set_history_writer (Some writer) sch),
                 w\<lparr>aw_channels := AList.update writer \<lparr>ch_queue = [], ch_open = True, ch_dropped = 0\<rparr> (aw_channels w)\<rparr>)
            | Err _ \<Rightarrow> (sch, w))
         else (sch, w))"

text \<open>\<^verbatim>\<open>LINSIGHT_ALERTS\<close>: the engine, recording its events in the history if there is one.\<close>

definition start_alerts :: "('j, 'p, 'l, 'c) launch \<Rightarrow> files \<Rightarrow> ('p, 'l, 'c) Scheduler \<Rightarrow> ('p, 'l, 'c) Scheduler exec" where
  "start_alerts L m sch =
     (if ln_alerts L then
        (let toml_path = alerts_config_path (ln_xdg_config L) (ln_home L)
         in exec_bind (alerts_load (ln_evalexpr L) (ln_rules_toml L) toml_path m) (\<lambda>loaded.
              case loaded of
                Ok engine \<Rightarrow>
                  Returns (set_alerts_config_path (Some toml_path)
                    (set_alert_engine
                      (Some (case sch_history sch of Some w \<Rightarrow> set_event_writer (Some w) engine | None \<Rightarrow> engine)) sch))
              | Err _ \<Rightarrow> Returns sch))
      else Returns sch)"

definition load_plugins :: "('j, 'p, 'l, 'c) launch \<Rightarrow> files \<Rightarrow> ('p, 'l) PluginHost exec" where
  "load_plugins L m =
     (let configs = load_plugin_configs (ln_plugins_stat L) (ln_plugins_toml L) (plugins_config_path (ln_xdg_config L) (ln_home L)) m
      in exec_bind (with_builtins_and_config (ln_json L) (ln_plugin L) (ln_default_of L) configs) (\<lambda>(h0, _).
         exec_bind (load_dynamic_plugins (ln_json L) (ln_plugin L) (ln_linker L) (ln_canonicalize L) (ln_read_dir L) configs
           (plugin_dirs (ln_xdg_data L) (ln_home L)) h0) (\<lambda>(h, _). Returns h)))"

text \<open>The state the accept loop starts with; \<open>m\<close> are the files.\<close>

definition start_daemon :: "('j, 'p, 'l, 'c) launch \<Rightarrow> files \<Rightarrow> ('p, 'l, 'c) Daemon exec" where
  "start_daemon L m =
     exec_bind (load_plugins L m) (\<lambda>host.
       let store_path = nickname_store_path (ln_xdg_config L) (ln_home L);
           (store, m1) = NicknameStore_load (ln_fs L) (ln_parse_store L) store_path m;
           registry = registry_build (devices_by_plugin host) (ns_nicknames store);
           (sch1, w) = start_history L (Scheduler_new host, \<lparr>aw_channels = [], aw_webhooks = 0, aw_posts = []\<rparr>)
       in exec_bind (start_alerts L m1 sch1) (\<lambda>sch2.
            Returns \<lparr>dm_sched = (if ln_prom_bind L \<noteq> None \<and> ln_prom_ok L then set_prom_running True sch2 else sch2),
               dm_registry = registry, dm_clients = [], dm_sessions = [], dm_live = 0, dm_next_client_id = 0,
               dm_world = w, dm_files = m1, dm_tmp_counter = 0, dm_prom_bind = ln_prom_bind L\<rparr>))"

section \<open>One daemon at a time\<close>

definition phase_ok :: "nat \<Rightarrow> daemon_phase \<Rightarrow> nat option \<Rightarrow> nat list \<Rightarrow> bool" where
  "phase_ok k p file live \<longleftrightarrow>
     (p \<in> {Configuring, Serving} \<longrightarrow> file = Some k \<and> live = [k])
     \<and> (p \<in> {Removing, Binding, Closing} \<longrightarrow> live = [])
     \<and> (p = Binding \<longrightarrow> file = None) \<and> (p \<in> {Connecting, Removing} \<longrightarrow> file \<noteq> None)"

definition sock_inv :: "sockets \<Rightarrow> bool" where
  "sock_inv s \<longleftrightarrow>
     (\<forall>k. phase_ok k (sk_phase s k) (sk_file s) (sk_live s)) \<and> (\<forall>k \<in> set (sk_live s). sk_phase s k \<in> {Configuring, Serving})"

text \<open>The phases of a daemon that has no part in the path.\<close>

abbreviation idle :: "daemon_phase set" where
  "idle \<equiv> {Starting, Exited, Refused, Failed, Crashed}"

lemma phase_ok_idle: "p \<in> idle \<Longrightarrow> phase_ok k p file live"
  by (auto simp: phase_ok_def)

lemma sock_inv_alone:
  assumes "\<And>j. j \<noteq> k \<Longrightarrow> sk_phase s j \<in> idle" and "phase_ok k (sk_phase s k) (sk_file s) (sk_live s)"
    and "\<And>l. l \<in> set (sk_live s) \<Longrightarrow> l = k \<and> sk_phase s k \<in> {Configuring, Serving}"
  shows "sock_inv s"
proof -
  have "phase_ok j (sk_phase s j) (sk_file s) (sk_live s)" for j
    using assms(1) [of j] assms(2) phase_ok_idle by (cases "j = k") blast+
  moreover have "sk_phase s l \<in> {Configuring, Serving}" if "l \<in> set (sk_live s)" for l
    using assms(3) [OF that] by simp
  ultimately show ?thesis unfolding sock_inv_def by blast
qed

lemma step_other: "j \<noteq> k \<Longrightarrow> sk_phase (sock_step (k, e) s) j = sk_phase s j"
  by (cases e; cases "sk_phase s k") (simp_all add: sock_step_def daemon_next_def)

text \<open>While another daemon serves, a start or an exit touches nothing.\<close>

lemma sock_inv_beside:
  assumes "sock_inv s" and "sk_phase s j = Serving" and "j \<noteq> k"
  shows "sk_file (sock_step (k, e) s) = sk_file s \<and> sk_live (sock_step (k, e) s) = sk_live s
     \<and> sk_phase (sock_step (k, e) s) k \<in> idle \<union> {Connecting}"
proof -
  have j: "sk_file s = Some j" "sk_live s = [j]" using assms(1,2) by (auto simp: sock_inv_def phase_ok_def)
  have "phase_ok k (sk_phase s k) (Some j) [j]" using assms(1) j unfolding sock_inv_def by metis
  then have "sk_phase s k \<in> idle \<union> {Connecting}" using assms(3) by (cases "sk_phase s k") (simp_all add: phase_ok_def)
  then show ?thesis using j assms(3)
    by (cases e; cases "sk_phase s k") (simp_all add: sock_step_def daemon_next_def)
qed

lemma sock_inv_step:
  assumes "sock_inv s" and "\<And>j. j \<noteq> k \<Longrightarrow> \<not> busy s j"
  shows "sock_inv (sock_step (k, e) s)"
proof (cases "\<exists>j. j \<noteq> k \<and> sk_phase s j = Serving")
  case True
  then obtain j where j: "j \<noteq> k" "sk_phase s j = Serving" by blast
  note beside = sock_inv_beside [OF assms(1) j(2,1), of e]
  have f: "sk_file s = Some j" "sk_live s = [j]" using assms(1) j by (auto simp: sock_inv_def phase_ok_def)
  have "phase_ok i (sk_phase (sock_step (k, e) s) i) (Some j) [j]" for i
  proof (cases "i = k")
    case True
    then show ?thesis using beside by (auto simp: phase_ok_def)
  next
    case False
    then show ?thesis using assms(1) f unfolding sock_inv_def step_other [OF False] by metis
  qed
  then show ?thesis using beside f j step_other [OF j(1)] by (simp add: sock_inv_def)
next
  case False
  have idle: "sk_phase s j \<in> idle" if "j \<noteq> k" for j
    using assms(2) [OF that] False that by (cases "sk_phase s j") (auto simp: busy_def)
  have ok: "phase_ok k (sk_phase s k) (sk_file s) (sk_live s)" using assms(1) by (simp add: sock_inv_def)
  have live: "l = k \<and> sk_phase s k \<in> {Configuring, Serving}" if "l \<in> set (sk_live s)" for l
  proof -
    have "sk_phase s l \<in> {Configuring, Serving}" using assms(1) that by (simp add: sock_inv_def)
    moreover from this have "l = k" using idle [of l] by (cases "l = k") auto
    ultimately show ?thesis by simp
  qed
  let ?t = "sock_step (k, e) s"
  have "phase_ok k (sk_phase ?t k) (sk_file ?t) (sk_live ?t)
      \<and> (\<forall>l \<in> set (sk_live ?t). l = k \<and> sk_phase ?t k \<in> {Configuring, Serving})"
  proof (cases "sk_phase s k \<in> {Configuring, Serving}")
    case True
    then have "sk_file s = Some k" "sk_live s = [k]" using ok by (simp_all add: phase_ok_def)
    then show ?thesis using True
      by (cases e; elim insertE emptyE) (simp_all add: phase_ok_def sock_step_def daemon_next_def)
  next
    case False
    then have "sk_live s = []" using live by (cases "sk_live s") auto
    then show ?thesis using False ok
      by (cases e; cases "sk_phase s k") (simp_all add: phase_ok_def sock_step_def daemon_next_def split: option.split)
  qed
  then show ?thesis using idle step_other by (intro sock_inv_alone [where k = k]) metis+
qed

lemma sock_inv_serialised: "serialised leftover s \<Longrightarrow> sock_inv s"
proof (induction rule: serialised.induct)
  case start
  show ?case by (simp add: sock_inv_def sockets_new_def phase_ok_def)
next
  case (step s k e)
  then show ?case using sock_inv_step by blast
qed

text \<open>
  C22: If daemons start and stop one after another, at most one of them listens, and the path leads to the
  one that serves: a start never takes the path from a running daemon, and an exit never removes the socket
  of another.
\<close>

theorem one_daemon_serves:
  assumes "serialised leftover s"
  shows "length (sk_live s) \<le> 1 \<and> (\<forall>k. sk_phase s k = Serving \<longrightarrow> sk_file s = Some k \<and> sk_live s = [k])"
proof -
  note inv = sock_inv_serialised [OF assms]
  have "sk_live s = [] \<or> (\<exists>k. sk_live s = [k])"
  proof (cases "sk_live s")
    case (Cons k ks)
    then have "sk_phase s k \<in> {Configuring, Serving}" using inv by (simp add: sock_inv_def)
    then have "sk_live s = [k]" using inv by (auto simp: sock_inv_def phase_ok_def)
    then show ?thesis by blast
  qed simp
  then show ?thesis using inv by (auto simp: sock_inv_def phase_ok_def)
qed

text \<open>
  A start that nobody disturbs takes at most five calls: with a running daemon it is refused and
  changes nothing, otherwise it takes the path over, whatever was left there, and serves.
\<close>

theorem start_takes_over:
  assumes "serialised leftover s" and "sk_phase s k = Starting"
  shows "let s' = (sock_step (k, Next) ^^ 5) s in
     if \<exists>j. sk_phase s j \<in> {Configuring, Serving} then sk_phase s' k = Refused \<and> sk_file s' = sk_file s \<and> sk_live s' = sk_live s
     else sk_phase s' k = Serving \<and> sk_file s' = Some k \<and> sk_live s' = [k]"
proof (cases "\<exists>j. sk_phase s j \<in> {Configuring, Serving}")
  case True
  then obtain j where "sk_file s = Some j" "sk_live s = [j]"
    using sock_inv_serialised [OF assms(1)] by (auto simp: sock_inv_def phase_ok_def)
  then show ?thesis using True assms(2) by (simp add: numeral_eq_Suc sock_step_def daemon_next_def)
next
  case False
  then have "sk_live s = []"
    using sock_inv_serialised [OF assms(1)] by (cases "sk_live s") (auto simp: sock_inv_def)
  then show ?thesis using False assms(2)
    by (cases "sk_file s") (simp_all add: numeral_eq_Suc sock_step_def daemon_next_def)
qed

text \<open>
  Daemons that overlap break this. Two that start on a leftover socket can both end up serving, the
  first on a socket that the second removed; and a daemon that takes the path over between the end of
  another's accept loop and its exit loses its socket to the guard of the one that exits.
\<close>

theorem overlapping_daemons:
  "(let s = fold sock_step [(0, Next), (1, Next), (0, Next), (1, Next), (0, Next), (0, Next), (0, Next), (1, Next), (1, Next), (1, Next)]
              (sockets_new (Some 9))
    in sk_phase s 0 = Serving \<and> sk_phase s 1 = Serving \<and> sk_file s = Some 1)
   \<and> (let s = fold sock_step [(0, Next), (0, Next), (0, Next), (0, Shutdown), (1, Next), (1, Next), (1, Next), (1, Next), (1, Next), (0, Next)]
              (sockets_new None)
      in sk_phase s 0 = Exited \<and> sk_phase s 1 = Serving \<and> sk_file s = None)"
  by (simp add: sock_step_def daemon_next_def sockets_new_def)

section \<open>The state the daemon starts in\<close>

lemma load_plugins_wf:
  fixes L :: "('j, 'p, 'l, 'c) launch"
  obtains h where "load_plugins L m = Returns h" and "wf_host h"
proof -
  let ?c = "load_plugin_configs (ln_plugins_stat L) (ln_plugins_toml L) (plugins_config_path (ln_xdg_config L) (ln_home L)) m"
  have "keeps (exec_fold (\<lambda>pid. register_with_config (ln_json L) (ln_plugin L) (ln_default_of L pid) None (config_or_null (ln_json L) ?c pid))
      BUILTINS :: ('p, 'l) PluginHost \<Rightarrow> _)"
    by (intro keeps_fold keeps_register')
  from keepsD [OF this wf_host_empty] obtain h0 :: "('p, 'l) PluginHost" and d0 where
    h0: "with_builtins_and_config (ln_json L) (ln_plugin L) (ln_default_of L) ?c = Returns (h0, d0)" "wf_host h0"
    unfolding with_builtins_and_config_def by blast
  have "keeps (load_dynamic_plugins (ln_json L) (ln_plugin L) (ln_linker L) (ln_canonicalize L) (ln_read_dir L) ?c
      (plugin_dirs (ln_xdg_data L) (ln_home L)))"
    unfolding load_dynamic_plugins_def by (intro keeps_fold keeps_load_from_dir)
  from keepsD [OF this h0(2)] obtain h1 d1 where
    "load_dynamic_plugins (ln_json L) (ln_plugin L) (ln_linker L) (ln_canonicalize L) (ln_read_dir L) ?c
       (plugin_dirs (ln_xdg_data L) (ln_home L)) h0 = Returns (h1, d1)" "wf_host h1" by blast
  then show ?thesis by (intro that [of h1]) (simp_all add: load_plugins_def h0)
qed

lemma exec_bind_Panics: "exec_bind r f = Panics \<longleftrightarrow> r = Panics \<or> (\<exists>x. r = Returns x \<and> f x = Panics)"
  by (cases r) simp_all

lemma alerts_load_writer:
  "alerts_load E from_toml path m = Returns (Ok eng) \<Longrightarrow> ae_event_writer eng = None"
  by (cases "m path"; cases "from_toml (the (m path))"; cases "compile_rules (case from_toml (the (m path)) of Ok x \<Rightarrow> x)")
    (auto simp: alerts_load_def split: result.splits)

lemma start_alerts_returns:
  assumes "ln_alerts L \<Longrightarrow> (\<And>text rules. ln_rules_toml L text = Ok rules \<Longrightarrow> compile_rules rules \<noteq> Panics)"
    and "sch_alerts sch = None"
  obtains sch' where "start_alerts L m sch = Returns sch'" and "sch_host sch' = sch_host sch" and "sch_entries sch' = sch_entries sch"
    and "sch_history sch' = sch_history sch"
    and "\<And>eng. sch_alerts sch' = Some eng \<Longrightarrow> ae_event_writer eng = sch_history sch"
proof (cases "ln_alerts L")
  case True
  let ?p = "alerts_config_path (ln_xdg_config L) (ln_home L)"
  have "alerts_load (ln_evalexpr L) (ln_rules_toml L) ?p m \<noteq> Panics"
    using assms(1) [OF True] by (auto simp: alerts_load_def exec_bind_Panics split: option.split result.split)
  then obtain r where r: "alerts_load (ln_evalexpr L) (ln_rules_toml L) ?p m = Returns r"
    by (cases "alerts_load (ln_evalexpr L) (ln_rules_toml L) ?p m") auto
  show ?thesis
  proof (cases r)
    case (Ok eng)
    then show ?thesis using r True alerts_load_writer [of "ln_evalexpr L" "ln_rules_toml L" ?p m eng] that
      by (auto simp: start_alerts_def set_alert_engine_def set_alerts_config_path_def set_event_writer_def split: option.splits)
  next
    case (Err e)
    then show ?thesis using r True that [of sch] assms(2) by (simp add: start_alerts_def)
  qed
next
  case False
  then show ?thesis using that [of sch] assms(2) by (simp add: start_alerts_def)
qed


text \<open>
  C0: A rule whose hold time is too large for a \<^verbatim>\<open>Duration\<close> does not disable alerts, as other mistakes in
  the file do: the parser panics and the daemon does not start.
\<close>

theorem huge_hold_time_stops_start:
  assumes "ln_alerts L" and "m (nickname_store_path (ln_xdg_config L) (ln_home L)) = None"
    and "m (alerts_config_path (ln_xdg_config L) (ln_home L)) = Some text" and "ln_rules_toml L text = Ok (r # rs)"
    and "rc_for r = Some ''99999999999999999999s''"
  shows "start_daemon L m = Panics"
proof -
  obtain h where h: "load_plugins L m = Returns h" by (rule load_plugins_wf)
  have st: "NicknameStore_load (ln_fs L) (ln_parse_store L) (nickname_store_path (ln_xdg_config L) (ln_home L)) m = (NicknameStore_default, m)"
    using assms(2) by (simp add: NicknameStore_load_def)
  have "compile_rules (r # rs) = Panics" using assms(5) by (simp add: huge_duration_panics)
  then have "start_alerts L m sch = Panics" for sch
    using assms(1,3,4) by (simp add: start_alerts_def alerts_load_def del: compile_rules.simps)
  then show ?thesis by (simp add: start_daemon_def h st split_beta)
qed

section \<open>Witnesses\<close>

theorem one_daemon_serves_witness:
  "sk_file ((sock_step (0, Next) ^^ 5) (sockets_new (Some 9))) = Some 0"
proof -
  have "serialised (Some 9) ((sock_step (0, Next) ^^ n) (sockets_new (Some 9)))
      \<and> (\<forall>j. j \<noteq> 0 \<longrightarrow> sk_phase ((sock_step (0, Next) ^^ n) (sockets_new (Some 9))) j = Starting)" for n
  proof (induction n)
    case 0
    then show ?case by (simp add: serialised.start) (simp add: sockets_new_def)
  next
    case (Suc n)
    have "\<not> busy ((sock_step (0, Next) ^^ n) (sockets_new (Some 9))) j" if "j \<noteq> 0" for j
      using Suc that by (simp add: busy_def)
    then show ?case using Suc serialised.step [of "Some 9" _ 0 Next] by (simp add: step_other)
  qed
  then have r: "serialised (Some 9) ((sock_step (0, Next) ^^ 5) (sockets_new (Some 9)))" by blast
  have "sk_phase ((sock_step (0, Next) ^^ 5) (sockets_new (Some 9))) 0 = Serving"
    by (simp add: numeral_eq_Suc sock_step_def daemon_next_def sockets_new_def)
  then show ?thesis using one_daemon_serves [OF r] by blast
qed

theorem start_takes_over_witness:
  "sk_phase ((sock_step (3, Next) ^^ 5) (sockets_new (Some 9))) 3 = Serving"
proof -
  have "sk_phase (sockets_new (Some 9)) 3 = Starting" "\<nexists>j. sk_phase (sockets_new (Some 9)) j \<in> {Configuring, Serving}"
    by (simp_all add: sockets_new_def)
  then show ?thesis using start_takes_over [OF serialised.start, of "Some 9" 3] by (simp add: Let_def)
qed

definition demo_launch :: "RuleConfig list \<Rightarrow> (bool, unit, unit, unit) launch" where
  "demo_launch rules =
     \<lparr>ln_json = demo_json, ln_plugin = \<lparr>plugin_init = (\<lambda>p c. (Panics, p)), plugin_sample = (\<lambda>p i. (Panics, p)), plugin_shutdown = id\<rparr>, ln_default_of = (\<lambda>_. ()),
      ln_linker = \<lparr>dl_open = (\<lambda>_. Err []), dl_abi_version = (\<lambda>_. Err []), dl_has_metadata = (\<lambda>_. False),
        dl_metadata = (\<lambda>_. Err []), dl_factory = (\<lambda>_. Err [])\<rparr>, ln_canonicalize = (\<lambda>_. None), ln_read_dir = (\<lambda>_. None), ln_evalexpr = demo_eval,
      ln_rules_toml = (\<lambda>_. Ok rules), ln_plugins_toml = (\<lambda>_. Err []), ln_plugins_stat = Err [], ln_parse_store = (\<lambda>_. None),
      ln_fs = \<lparr>io_fault = (\<lambda>c. None), io_partial = 0\<rparr>, ln_xdg_config = Some ''/c'', ln_xdg_data = None, ln_home = None,
      ln_history = True, ln_spawned = Ok 0, ln_alerts = True, ln_prom_bind = None, ln_prom_ok = False\<rparr>"

definition demo_rule_config :: "string option \<Rightarrow> RuleConfig" where
  "demo_rule_config hold =
     \<lparr>rc_name = ''hot'', rc_expr = ''cpu.temp > 85'', rc_for = hold, rc_cooldown = None, rc_notify = [], rc_enabled = None\<rparr>"


theorem huge_hold_time_stops_start_witness:
  "start_daemon (demo_launch [demo_rule_config (Some ''99999999999999999999s'')])
     (\<lambda>p. if p = ''/c/linsight/alerts.toml'' then Some ''x'' else None) = Panics"
proof (rule huge_hold_time_stops_start)
  let ?L = "demo_launch [demo_rule_config (Some ''99999999999999999999s'')]"
  have "alerts_config_path (Some ''/c'') None = ''/c/linsight/alerts.toml''" "nickname_store_path (Some ''/c'') None = ''/c/linsight/hardware.json''"
    by code_simp+
  then show "(if nickname_store_path (ln_xdg_config ?L) (ln_home ?L) = ''/c/linsight/alerts.toml'' then Some ''x'' else None) = None"
    "(if alerts_config_path (ln_xdg_config ?L) (ln_home ?L) = ''/c/linsight/alerts.toml'' then Some ''x'' else None) = Some ''x''"
    by (simp_all add: demo_launch_def)
  show "ln_alerts ?L" "ln_rules_toml ?L ''x'' = Ok (demo_rule_config (Some ''99999999999999999999s'') # [])"
    "rc_for (demo_rule_config (Some ''99999999999999999999s'')) = Some ''99999999999999999999s''"
    by (simp_all add: demo_launch_def demo_rule_config_def)
qed

end
