(* ===== verification/Dashboards.thy ===== *)
theory Dashboards
  imports Storage Rust_Num
begin

text \<open>
  The dashboards of the GUI, \<^verbatim>\<open>apps/linsight-gui/src/qobjects/dashboards_model.rs\<close>: one JSON file per
  dashboard, named by a slug that is derived from the name a user typed. Files and system calls are those of
  \<open>Storage\<close>; JSON, the hash of a name and the clock are parameters.
\<close>

section \<open>Slugs\<close>

definition is_valid_slug :: "string \<Rightarrow> bool" where
  "is_valid_slug s \<longleftrightarrow>
     s \<noteq> [] \<and> str_len s \<le> 40 \<and> \<not> starts_with ''-'' s \<and> \<not> ends_with ''-'' s \<and> \<not> contains_str ''--'' s
     \<and> list_all (\<lambda>c. 97 \<le> char_code c \<and> char_code c \<le> 122 \<or> is_ascii_digit c \<or> c = CHR ''-'') s"

text \<open>\<^verbatim>\<open>{:08x}\<close> of a 32-bit number.\<close>

fun show_hex :: "nat \<Rightarrow> nat \<Rightarrow> string" where
  "show_hex 0 n = []"
| "show_hex (Suc k) n = show_hex k (n div 16) @ [hex_digit (n mod 16)]"

text \<open>The loop over the characters; \<open>last_dash\<close> is true at the start.\<close>

fun slug_loop :: "bool \<Rightarrow> string \<Rightarrow> string" where
  "slug_loop last_dash [] = []"
| "slug_loop last_dash (c # cs) =
     (let l = to_ascii_lowercase c
      in if is_ascii_alphanumeric l then l # slug_loop False cs
         else if last_dash then slug_loop True cs
         else CHR ''-'' # slug_loop True cs)"

definition pop_dashes :: "string \<Rightarrow> string" where
  "pop_dashes s = trim_end_matches_char (\<lambda>c. c = CHR ''-'') s"

definition derive_slug :: "(string \<Rightarrow> u32) \<Rightarrow> string \<Rightarrow> string" where
  "derive_slug hash name =
     (let out = pop_dashes (slug_loop True name);
          out = (if 40 < str_len out then pop_dashes (take 40 out) else out)
      in if out = [] then ''dash-'' @ show_hex 8 (unat (hash name)) else out)"

section \<open>Files\<close>

record 'j DashboardTile =
  dt_id :: string
  dt_x :: int
  dt_y :: int
  dt_w :: int
  dt_h :: int
  dt_options :: 'j

record 'j DashboardFile =
  df_schema_version :: u32
  df_name :: string
  df_slug :: string
  df_layout :: "'j DashboardTile list"
  df_created_at :: string
  df_updated_at :: string

definition DASHBOARD_SCHEMA_VERSION :: u32 where
  "DASHBOARD_SCHEMA_VERSION = 1"

text \<open>
  The outside: system calls, the configuration directory, the JSON codec of a dashboard, of a layout, of an
  exported dashboard (its name and layout, or the error) and of the legacy file (its layout, if it is one), the
  hash, the time, the names a directory listing gives, and the text of the error of reading a missing file.
\<close>

record 'j desk =
  de_fs :: fs_env
  de_pid :: nat
  de_config :: "string option"
  de_parse :: "string \<Rightarrow> 'j DashboardFile option"
  de_print :: "'j DashboardFile \<Rightarrow> (string, string) result"
  de_parse_layout :: "string \<Rightarrow> ('j DashboardTile list, string) result"
  de_print_layout :: "'j DashboardTile list \<Rightarrow> string"
  de_parse_export :: "string \<Rightarrow> (string \<times> 'j DashboardTile list, string) result"
  de_parse_legacy :: "string \<Rightarrow> 'j DashboardTile list option"
  de_hash :: "string \<Rightarrow> u32"
  de_now :: string
  de_list :: "files \<Rightarrow> string list"
  de_io_error :: "string \<Rightarrow> string"

text \<open>The files and the process-wide counter of temporary names.\<close>

record disk =
  dk_files :: files
  dk_counter :: u64

definition dashboards_dir :: "'j desk \<Rightarrow> string option" where
  "dashboards_dir E = map_option (\<lambda>d. path_join d ''dashboards'') (de_config E)"

definition slug_path :: "string \<Rightarrow> string \<Rightarrow> string" where
  "slug_path dir slug = path_join dir (slug @ ''.json'')"

definition dashboard_path :: "'j desk \<Rightarrow> string \<Rightarrow> string option" where
  "dashboard_path E slug =
     (if is_valid_slug slug then map_option (\<lambda>d. slug_path d slug) (dashboards_dir E) else None)"

definition slug_candidates :: "string \<Rightarrow> string list" where
  "slug_candidates base =
     filter is_valid_slug (map (\<lambda>i. if i = 0 then base else base @ ''-'' @ show_nat (i + 1)) [0..<99])"

text \<open>
  \<^verbatim>\<open>create_new\<close> on one candidate after the other: a file that exists sends the loop on, any other error
  ends it. The result is the slug and its path.
\<close>

fun try_candidates :: "fs_env \<Rightarrow> string \<Rightarrow> string list \<Rightarrow> files \<Rightarrow> (string \<times> string, string) result \<times> files" where
  "try_candidates env dir [] m = (Err ''too many similarly-named dashboards'', m)"
| "try_candidates env dir (c # cs) m =
     (let p = slug_path dir c
      in if m p \<noteq> None then try_candidates env dir cs m
         else case do_call env (OpenNew p) m of
                (Ok _, m1) \<Rightarrow> (Ok (c, p), m1)
              | (Err e, m1) \<Rightarrow> (Err e, m1))"

definition allocate_unique_slug :: "'j desk \<Rightarrow> string \<Rightarrow> files \<Rightarrow> (string \<times> string, string) result \<times> files" where
  "allocate_unique_slug E base m =
     (if \<not> is_valid_slug base then (Err ''invalid slug base'', m)
      else case dashboards_dir E of
             None \<Rightarrow> (Err ''no config dir resolvable'', m)
           | Some dir \<Rightarrow>
               (case do_call (de_fs E) (CreateDirAll dir) m of
                  (Err e, m1) \<Rightarrow> (Err e, m1)
                | (Ok _, m1) \<Rightarrow> try_candidates (de_fs E) dir (slug_candidates base) m1))"

definition read_one :: "'j desk \<Rightarrow> string \<Rightarrow> files \<Rightarrow> 'j DashboardFile option" where
  "read_one E path m = Option.bind (m path) (de_parse E)"

definition write_one :: "'j desk \<Rightarrow> 'j DashboardFile \<Rightarrow> disk \<Rightarrow> (string, string) result \<times> disk" where
  "write_one E d k =
     (case dashboard_path E (df_slug d) of
        None \<Rightarrow> (Err ''invalid slug'', k)
      | Some path \<Rightarrow>
          (case atomic_write_json (de_fs E) (de_pid E) path (de_print E d) (dk_counter k) (dk_files k) of
             (r, counter, trace) \<Rightarrow>
               (case r of Ok _ \<Rightarrow> Ok path | Err e \<Rightarrow> Err e, \<lparr>dk_files = last trace, dk_counter = counter\<rparr>)))"

definition remove_reserved :: "'j desk \<Rightarrow> string \<Rightarrow> files \<Rightarrow> files" where
  "remove_reserved E path m = snd (do_call (de_fs E) (RemoveFile path) m)"

text \<open>Into the file that was reserved; a reservation that cannot be filled is removed.\<close>

definition write_reserved :: "'j desk \<Rightarrow> string \<times> string \<Rightarrow> 'j DashboardFile \<Rightarrow> files \<Rightarrow> (string, string) result \<times> files" where
  "write_reserved E rv d m =
     (case rv of (slug, path) \<Rightarrow>
        if df_slug d \<noteq> slug then (Err ''reserved slug does not match dashboard slug'', remove_reserved E path m)
        else case de_print E d of
               Err e \<Rightarrow> (Err e, remove_reserved E path m)
             | Ok body \<Rightarrow>
                 (case do_call (de_fs E) (WriteAll path body) m of
                    (Err e, m1) \<Rightarrow> (Err e, remove_reserved E path m1)
                  | (Ok _, m1) \<Rightarrow>
                      (case do_call (de_fs E) (SyncAll path) m1 of
                         (Err e, m2) \<Rightarrow> (Err e, remove_reserved E path m2)
                       | (Ok _, m2) \<Rightarrow> (Ok path, m2))))"

text \<open>A new dashboard: reserve a slug for the name, fill the file.\<close>

definition write_new ::
    "'j desk \<Rightarrow> string \<Rightarrow> (string \<Rightarrow> 'j DashboardFile) \<Rightarrow> files \<Rightarrow> (string, string) result \<times> files" where
  "write_new E base d m =
     (case allocate_unique_slug E base m of
        (Err e, m1) \<Rightarrow> (Err e, m1)
      | (Ok rv, m1) \<Rightarrow>
          (case write_reserved E rv (d (fst rv)) m1 of
             (Err e, m2) \<Rightarrow> (Err e, m2)
           | (Ok _, m2) \<Rightarrow> (Ok (fst rv), m2)))"

definition new_dashboard :: "'j desk \<Rightarrow> string \<Rightarrow> 'j DashboardTile list \<Rightarrow> string \<Rightarrow> 'j DashboardFile" where
  "new_dashboard E name layout slug =
     \<lparr>df_schema_version = DASHBOARD_SCHEMA_VERSION, df_name = name, df_slug = slug, df_layout = layout,
      df_created_at = de_now E, df_updated_at = de_now E\<rparr>"

definition lookup_dashboard :: "'j desk \<Rightarrow> string \<Rightarrow> files \<Rightarrow> (string \<times> 'j DashboardFile, string) result" where
  "lookup_dashboard E slug m =
     (case dashboard_path E slug of
        None \<Rightarrow> Err (''invalid slug `'' @ slug @ ''`'')
      | Some path \<Rightarrow>
          (case read_one E path m of
             None \<Rightarrow> Err (''dashboard `'' @ slug @ ''` not found'')
           | Some d \<Rightarrow> Ok (path, d)))"

definition rename_dashboard_file :: "'j desk \<Rightarrow> string \<Rightarrow> string \<Rightarrow> disk \<Rightarrow> (string, string) result \<times> disk" where
  "rename_dashboard_file E old_slug new_name k =
     (case lookup_dashboard E old_slug (dk_files k) of
        Err e \<Rightarrow> (Err e, k)
      | Ok (old_path, d) \<Rightarrow>
          (let base = derive_slug (de_hash E) new_name
           in if base = old_slug then
                (case write_one E (d\<lparr>df_name := new_name, df_updated_at := de_now E\<rparr>) k of
                   (Err e, k1) \<Rightarrow> (Err e, k1)
                 | (Ok _, k1) \<Rightarrow> (Ok old_slug, k1))
              else
                (case write_new E base (\<lambda>slug. d\<lparr>df_name := new_name, df_slug := slug, df_updated_at := de_now E\<rparr>) (dk_files k) of
                   (Err e, m1) \<Rightarrow> (Err e, k\<lparr>dk_files := m1\<rparr>)
                 | (Ok new_slug, m1) \<Rightarrow> (Ok new_slug, k\<lparr>dk_files := snd (do_call (de_fs E) (RemoveFile old_path) m1)\<rparr>))))"

definition duplicate_dashboard_file :: "'j desk \<Rightarrow> string \<Rightarrow> files \<Rightarrow> (string, string) result \<times> files" where
  "duplicate_dashboard_file E slug m =
     (case lookup_dashboard E slug m of
        Err e \<Rightarrow> (Err e, m)
      | Ok (_, d) \<Rightarrow>
          (let name = df_name d @ '' (copy)''
           in write_new E (derive_slug (de_hash E) name) (new_dashboard E name (df_layout d)) m))"

text \<open>Newest first; equal times keep the order of the listing.\<close>

fun insert_newest :: "'j DashboardFile \<Rightarrow> 'j DashboardFile list \<Rightarrow> 'j DashboardFile list" where
  "insert_newest d [] = [d]"
| "insert_newest d (x # xs) = (if df_updated_at x \<le> df_updated_at d then d # x # xs else x # insert_newest d xs)"

definition slug_of_file :: "string \<Rightarrow> string option" where
  "slug_of_file name =
     (if path_extension name = Some ''json''
      then Option.bind (strip_suffix ''.json'' name) (\<lambda>s. if is_valid_slug s then Some s else None) else None)"

definition list_files :: "'j desk \<Rightarrow> files \<Rightarrow> 'j DashboardFile list" where
  "list_files E m =
     (case dashboards_dir E of
        None \<Rightarrow> []
      | Some dir \<Rightarrow>
          foldr insert_newest
            (List.map_filter (\<lambda>n. Option.bind (slug_of_file n) (\<lambda>_. read_one E (path_join dir n) m)) (de_list E m)) [])"

definition migrate_legacy_dashboard :: "'j desk \<Rightarrow> disk \<Rightarrow> disk" where
  "migrate_legacy_dashboard E k =
     (case de_config E of
        None \<Rightarrow> k
      | Some config \<Rightarrow>
          (let legacy = path_join config ''dashboard.json''
           in case dk_files k legacy of
                None \<Rightarrow> k
              | Some raw \<Rightarrow>
                  if list_files E (dk_files k) \<noteq> [] then k
                  else case de_parse_legacy E raw of
                         None \<Rightarrow> k
                       | Some [] \<Rightarrow> k
                       | Some layout \<Rightarrow>
                           (case write_one E (new_dashboard E ''Default'' layout ''default'') k of
                              (Err _, k1) \<Rightarrow> k1
                            | (Ok _, k1) \<Rightarrow>
                                k1\<lparr>dk_files := snd (do_call (de_fs E) (RenameFile legacy (with_extension legacy ''json.migrated''))
                                                  (dk_files k1))\<rparr>)))"

section \<open>The model object\<close>

record DashboardsModel =
  db_summary :: "(string \<times> string \<times> string) list"
  db_slug_list :: "string list"
  db_last_error :: string

definition refresh_model :: "'j desk \<Rightarrow> files \<Rightarrow> DashboardsModel \<Rightarrow> DashboardsModel" where
  "refresh_model E m mo =
     mo\<lparr>db_summary := map (\<lambda>d. (df_slug d, df_name d, df_updated_at d)) (list_files E m),
        db_slug_list := map df_slug (list_files E m)\<rparr>"

text \<open>An empty text to the caller, the message in \<^verbatim>\<open>last_error\<close>.\<close>

definition report_err :: "string \<Rightarrow> DashboardsModel \<times> disk \<Rightarrow> string \<times> DashboardsModel \<times> disk" where
  "report_err msg st = (case st of (mo, k) \<Rightarrow> ([], mo\<lparr>db_last_error := msg\<rparr>, k))"

definition DashboardsModel_default :: "'j desk \<Rightarrow> disk \<Rightarrow> DashboardsModel \<times> disk" where
  "DashboardsModel_default E k =
     (let k1 = migrate_legacy_dashboard E k
      in (refresh_model E (dk_files k1) \<lparr>db_summary = [], db_slug_list = [], db_last_error = []\<rparr>, k1))"

text \<open>What the slug-returning calls do with the outcome of the file operation.\<close>

definition finish_op :: "'j desk \<Rightarrow> string \<Rightarrow> (string, string) result \<times> disk \<Rightarrow> DashboardsModel \<Rightarrow> string \<times> DashboardsModel \<times> disk" where
  "finish_op E what res mo =
     (case res of
        (Ok v, k1) \<Rightarrow> (v, refresh_model E (dk_files k1) mo, k1)
      | (Err e, k1) \<Rightarrow> report_err (what @ '' failed: '' @ e) (mo, k1))"

definition db_create :: "'j desk \<Rightarrow> string \<Rightarrow> DashboardsModel \<times> disk \<Rightarrow> string \<times> DashboardsModel \<times> disk" where
  "db_create E name st =
     (case st of (mo, k) \<Rightarrow>
        (case write_new E (derive_slug (de_hash E) name) (new_dashboard E name []) (dk_files k) of
           (r, m1) \<Rightarrow> finish_op E ''create'' (r, k\<lparr>dk_files := m1\<rparr>) mo))"

definition db_rename :: "'j desk \<Rightarrow> string \<Rightarrow> string \<Rightarrow> DashboardsModel \<times> disk \<Rightarrow> string \<times> DashboardsModel \<times> disk" where
  "db_rename E slug new_name st = (case st of (mo, k) \<Rightarrow> finish_op E ''rename'' (rename_dashboard_file E slug new_name k) mo)"

definition db_duplicate :: "'j desk \<Rightarrow> string \<Rightarrow> DashboardsModel \<times> disk \<Rightarrow> string \<times> DashboardsModel \<times> disk" where
  "db_duplicate E slug st =
     (case st of (mo, k) \<Rightarrow>
        (case duplicate_dashboard_file E slug (dk_files k) of
           (r, m1) \<Rightarrow> finish_op E ''duplicate'' (r, k\<lparr>dk_files := m1\<rparr>) mo))"

definition db_remove :: "'j desk \<Rightarrow> string \<Rightarrow> DashboardsModel \<times> disk \<Rightarrow> bool \<times> DashboardsModel \<times> disk" where
  "db_remove E slug st =
     (case st of (mo, k) \<Rightarrow>
        (case dashboard_path E slug of
           None \<Rightarrow> (False, snd (report_err (''remove rejected: invalid slug `'' @ slug @ ''`'') (mo, k)))
         | Some path \<Rightarrow>
             if dk_files k path = None then (False, mo, k)
             else (case do_call (de_fs E) (RemoveFile path) (dk_files k) of
                     (Ok _, m1) \<Rightarrow> (True, refresh_model E m1 mo, k\<lparr>dk_files := m1\<rparr>)
                   | (Err _, m1) \<Rightarrow> (False, mo, k\<lparr>dk_files := m1\<rparr>))))"

text \<open>The first tile that is refused, with the reason.\<close>

fun bad_tile :: "nat \<Rightarrow> 'j DashboardTile list \<Rightarrow> string option" where
  "bad_tile i [] = None"
| "bad_tile i (t # ts) =
     (if dt_id t = [] then Some (''tile '' @ show_nat i @ '' has empty id'')
      else if dt_w t \<le> 0 \<or> dt_h t \<le> 0 \<or> dt_x t < 0 \<or> dt_y t < 0
      then Some (''tile '' @ show_nat i @ '' `'' @ dt_id t @ ''` has invalid geometry ('' @ show_int (dt_w t) @ ''x'' @ show_int (dt_h t)
             @ '' @ '' @ show_int (dt_x t) @ '','' @ show_int (dt_y t) @ '')'')
      else bad_tile (i + 1) ts)"

definition db_save_layout :: "'j desk \<Rightarrow> string \<Rightarrow> string \<Rightarrow> DashboardsModel \<times> disk \<Rightarrow> string \<times> DashboardsModel \<times> disk" where
  "db_save_layout E slug layout_json st =
     (case st of (mo, k) \<Rightarrow>
        (case dashboard_path E slug of
           None \<Rightarrow> report_err (''save failed: invalid slug `'' @ slug @ ''`'') st
         | Some path \<Rightarrow>
             (case read_one E path (dk_files k) of
                None \<Rightarrow> report_err (''save failed: dashboard `'' @ slug @ ''` not found'') st
              | Some d \<Rightarrow>
                  (case de_parse_layout E layout_json of
                     Err e \<Rightarrow> report_err (''save failed: invalid layout JSON: '' @ e) st
                   | Ok layout \<Rightarrow>
                       (case bad_tile 0 layout of
                          Some why \<Rightarrow> report_err (''save failed: '' @ why) st
                        | None \<Rightarrow> finish_op E ''save'' (write_one E (d\<lparr>df_layout := layout, df_updated_at := de_now E\<rparr>) k) mo)))))"

definition db_load_layout :: "'j desk \<Rightarrow> string \<Rightarrow> disk \<Rightarrow> string" where
  "db_load_layout E slug k =
     (case Option.bind (dashboard_path E slug) (\<lambda>path. read_one E path (dk_files k)) of
        Some d \<Rightarrow> de_print_layout E (df_layout d)
      | None \<Rightarrow> ''[]'')"

definition db_import :: "'j desk \<Rightarrow> string \<Rightarrow> DashboardsModel \<times> disk \<Rightarrow> string \<times> DashboardsModel \<times> disk" where
  "db_import E url st =
     (case st of (mo, k) \<Rightarrow>
        let path = (case strip_prefix ''file://'' url of Some p \<Rightarrow> p | None \<Rightarrow> url)
        in case dk_files k path of
             None \<Rightarrow> report_err (''import failed: '' @ de_io_error E path) st
           | Some raw \<Rightarrow>
               (case de_parse_export E raw of
                  Err e \<Rightarrow> report_err (''import failed: '' @ e) st
                | Ok (name, layout) \<Rightarrow>
                    if name = [] then report_err ''import failed: missing or empty name'' st
                    else case bad_tile 0 layout of
                           Some why \<Rightarrow> report_err (''import failed: '' @ why) st
                         | None \<Rightarrow>
                             (case write_new E (derive_slug (de_hash E) name) (new_dashboard E name layout) (dk_files k) of
                                (r, m1) \<Rightarrow> finish_op E ''import'' (r, k\<lparr>dk_files := m1\<rparr>) mo)))"

definition db_name_of :: "'j desk \<Rightarrow> string \<Rightarrow> disk \<Rightarrow> string" where
  "db_name_of E slug k =
     (case Option.bind (dashboard_path E slug) (\<lambda>path. read_one E path (dk_files k)) of Some d \<Rightarrow> df_name d | None \<Rightarrow> [])"

section \<open>Every name gets a usable slug\<close>

definition slug_char :: "char \<Rightarrow> bool" where
  "slug_char c \<longleftrightarrow> 97 \<le> char_code c \<and> char_code c \<le> 122 \<or> is_ascii_digit c \<or> c = CHR ''-''"

fun no_dashes :: "string \<Rightarrow> bool" where
  "no_dashes (a # b # s) = (\<not> (a = CHR ''-'' \<and> b = CHR ''-'') \<and> no_dashes (b # s))"
| "no_dashes s = True"

lemma contains_dashes: "contains_str ''--'' s \<longleftrightarrow> \<not> no_dashes s"
proof (induction s rule: no_dashes.induct)
  case (1 a b s)
  have "strip_prefix ''--'' (a # b # s) = (if a = CHR ''-'' \<and> b = CHR ''-'' then Some s else None)" by simp
  then show ?case using 1 unfolding contains_str_def by (subst split_once_str.simps) (auto split: if_splits)
qed (simp_all add: contains_str_def split_once_str.simps)

lemma valid_slug_alt:
  "is_valid_slug s \<longleftrightarrow> s \<noteq> [] \<and> length s \<le> 40 \<and> hd s \<noteq> CHR ''-'' \<and> last s \<noteq> CHR ''-'' \<and> no_dashes s \<and> list_all slug_char s"
proof -
  have ascii: "str_len s = length s" if "list_all slug_char s" for s
    using that by (induction s) (auto simp: str_len_def slug_char_def is_ascii_digit_def)
  have "list_all (\<lambda>c. 97 \<le> char_code c \<and> char_code c \<le> 122 \<or> is_ascii_digit c \<or> c = CHR ''-'') s = list_all slug_char s"
    by (simp add: slug_char_def [abs_def])
  moreover have "starts_with ''-'' s \<longleftrightarrow> s \<noteq> [] \<and> hd s = CHR ''-''" by (cases s) (auto simp: starts_with_def)
  moreover have "ends_with ''-'' s \<longleftrightarrow> s \<noteq> [] \<and> last s = CHR ''-''"
    unfolding ends_with_def not_None_eq strip_suffix_Some by (cases s rule: rev_cases) auto
  ultimately show ?thesis using ascii contains_dashes unfolding is_valid_slug_def by auto
qed

lemma slug_loop_chars: "list_all slug_char (slug_loop b s)"
proof (induction b s rule: slug_loop.induct)
  case (2 b c cs)
  have "slug_char l" if "is_ascii_alphanumeric l" "l = to_ascii_lowercase c" for l
    using that by (auto simp: slug_char_def char_class_defs to_ascii_lowercase_def split: if_splits)
  then show ?case using 2 by (auto simp: Let_def slug_char_def)
qed simp

lemma slug_loop_dashes:
  "no_dashes (slug_loop b s) \<and> (b \<longrightarrow> slug_loop b s = [] \<or> hd (slug_loop b s) \<noteq> CHR ''-'')"
proof (induction b s rule: slug_loop.induct)
  case (2 b c cs)
  have nd: "\<not> is_ascii_alphanumeric CHR ''-''" by code_simp
  have cons: "no_dashes (a # t)" if "no_dashes t" "a = CHR ''-'' \<longrightarrow> t = [] \<or> hd t \<noteq> CHR ''-''" for a t
    using that by (cases t) auto
  show ?case using 2 nd by (auto simp: Let_def intro!: cons)
qed simp

lemma pop_dashes_prefix: "\<exists>r. s = pop_dashes s @ r"
  unfolding pop_dashes_def trim_end_matches_char_def by (metis rev_append rev_rev_ident takeWhile_dropWhile_id)

lemma pop_dashes_last: "pop_dashes s = [] \<or> last (pop_dashes s) \<noteq> CHR ''-''"
  unfolding pop_dashes_def trim_end_matches_char_def
  by (metis (mono_tags, lifting) dropWhile_eq_Nil_conv hd_dropWhile last_rev rev_is_Nil_conv rev_rev_ident)

lemma pop_dashes_id: "s = [] \<or> last s \<noteq> CHR ''-'' \<Longrightarrow> pop_dashes s = s"
  unfolding pop_dashes_def trim_end_matches_char_def by (cases s rule: rev_cases) auto

lemma no_dashes_prefix: "no_dashes (s @ r) \<Longrightarrow> no_dashes s"
  by (induction s rule: no_dashes.induct) auto

text \<open>A prefix of such a text without dashes at its end is as good.\<close>

definition slug_body :: "string \<Rightarrow> bool" where
  "slug_body s \<longleftrightarrow> list_all slug_char s \<and> no_dashes s \<and> (s = [] \<or> hd s \<noteq> CHR ''-'')"

lemma slug_body_prefix: "slug_body (s @ r) \<Longrightarrow> slug_body s"
  using no_dashes_prefix [of s r] unfolding slug_body_def by (cases s) auto

lemma hash_slug: "is_valid_slug (''dash-'' @ show_hex 8 n)"
proof -
  have hex: "slug_char (hex_digit k) \<and> hex_digit k \<noteq> CHR ''-''" if "k < 16" for k
  proof -
    have "list_all (\<lambda>k. slug_char (hex_digit k) \<and> hex_digit k \<noteq> CHR ''-'') [0..<16]" by code_simp
    then show ?thesis using that by (simp add: list_all_iff)
  qed
  have h: "length (show_hex k n) = k \<and> (\<forall>c \<in> set (show_hex k n). slug_char c \<and> c \<noteq> CHR ''-'')" for k n
    by (induction k arbitrary: n) (auto simp: hex)
  have nd: "no_dashes s" if "\<forall>c \<in> set s. c \<noteq> CHR ''-''" for s
    using that by (induction s rule: no_dashes.induct) auto
  obtain c r where r: "show_hex 8 n = c # r" using h [of 8 n] by (cases "show_hex 8 n") auto
  have "no_dashes (''dash-'' @ c # r)" using nd [of "c # r"] h [of 8 n] r by simp
  moreover have "list_all slug_char ''dash-''" by code_simp
  moreover have "list_all slug_char (c # r)" "last (c # r) \<noteq> CHR ''-''" "length (c # r) = 8"
    using h [of 8 n] unfolding r by (auto simp: list_all_iff)
  ultimately show ?thesis unfolding valid_slug_alt r by simp
qed

text \<open>
  Whatever the user types, the slug derived from it is a safe file name.
\<close>

theorem derive_slug_valid: "is_valid_slug (derive_slug hash name)"
proof -
  have loop: "slug_body (slug_loop True name)" using slug_loop_chars slug_loop_dashes by (simp add: slug_body_def)
  let ?a = "pop_dashes (slug_loop True name)"
  let ?b = "if 40 < str_len ?a then pop_dashes (take 40 ?a) else ?a"
  have a: "slug_body ?a" using loop pop_dashes_prefix slug_body_prefix by metis
  then have t: "slug_body (take 40 ?a)" using append_take_drop_id slug_body_prefix by metis
  have len: "length (pop_dashes s) \<le> length s" for s using pop_dashes_prefix [of s] by (metis le_add1 length_append)
  have ascii: "str_len s = length s" if "list_all slug_char s" for s
    using that by (induction s) (auto simp: str_len_def slug_char_def is_ascii_digit_def)
  have "slug_body ?b \<and> (?b = [] \<or> last ?b \<noteq> CHR ''-'') \<and> length ?b \<le> 40"
  proof (cases "40 < str_len ?a")
    case True
    moreover have "slug_body (pop_dashes (take 40 ?a))" using t pop_dashes_prefix slug_body_prefix by metis
    moreover have "length (pop_dashes (take 40 ?a)) \<le> 40" using len [of "take 40 ?a"] by simp
    ultimately show ?thesis using pop_dashes_last by simp
  next
    case False
    then show ?thesis using a pop_dashes_last ascii [of ?a] by (simp add: slug_body_def)
  qed
  then have "?b = [] \<or> is_valid_slug ?b" unfolding valid_slug_alt slug_body_def by blast
  then show ?thesis unfolding derive_slug_def Let_def using hash_slug by (cases "?b = []") simp_all
qed

text \<open>
  A name that is a slug already is its own slug.
\<close>

theorem derive_slug_idem:
  assumes "is_valid_slug s"
  shows "derive_slug hash s = s"
proof -
  note v = assms [unfolded valid_slug_alt]
  have dash: "\<not> is_ascii_alphanumeric CHR ''-''" "to_ascii_lowercase CHR ''-'' = CHR ''-''" by code_simp+
  have c: "to_ascii_lowercase c = c \<and> (is_ascii_alphanumeric c \<or> c = CHR ''-'')" if "slug_char c" for c
    using that by (auto simp: slug_char_def char_class_defs to_ascii_lowercase_def)
  have "slug_loop b t = t" if "list_all slug_char t" "no_dashes t" "b \<longrightarrow> t = [] \<or> hd t \<noteq> CHR ''-''" for b t
    using that
  proof (induction b t rule: slug_loop.induct)
    case (2 b a t)
    note a = c [of a]
    have t: "list_all slug_char t" "no_dashes t" "a = CHR ''-'' \<longrightarrow> t = [] \<or> hd t \<noteq> CHR ''-''"
      using "2.prems" by (cases t; simp)+
    show ?case
    proof (cases "a = CHR ''-''")
      case True
      then have "slug_loop True t = t" using 2 t dash by (simp add: Let_def)
      then show ?thesis using True "2.prems"(3) dash by (simp add: Let_def)
    next
      case False
      then have "is_ascii_alphanumeric a" "to_ascii_lowercase a = a" using a "2.prems"(1) by auto
      then show ?thesis using 2 t by (simp add: Let_def)
    qed
  qed simp
  then have "slug_loop True s = s" using v by simp
  moreover have "pop_dashes s = s" using v by (intro pop_dashes_id) simp
  moreover have "str_len s \<le> 40" using assms by (simp add: is_valid_slug_def)
  ultimately show ?thesis using v by (simp add: derive_slug_def Let_def)
qed

section \<open>What a call does to the files\<close>

lemma try_candidates_spec:
  assumes "try_candidates env dir cs m = (r, m1)"
  shows "case r of
       Ok (c, p) \<Rightarrow> c \<in> set cs \<and> p = slug_path dir c \<and> m p = None \<and> m1 = m(p \<mapsto> [])
     | Err _ \<Rightarrow> m1 = m"
  using assms
proof (induction cs)
  case (Cons c cs)
  show ?case
  proof (cases "m (slug_path dir c)")
    case None
    then show ?thesis using Cons.prems by (auto simp: do_call_def Let_def split: option.splits)
  next
    case (Some b)
    then show ?thesis using Cons by (auto simp: Let_def split: result.splits)
  qed
qed auto

lemma allocate_spec:
  assumes "allocate_unique_slug E base m = (r, m1)"
  shows "case r of
       Ok (c, p) \<Rightarrow> dashboard_path E c = Some p \<and> m p = None \<and> m1 = m(p \<mapsto> [])
     | Err _ \<Rightarrow> m1 = m"
proof (cases "is_valid_slug base \<and> dashboards_dir E \<noteq> None")
  case False
  then show ?thesis using assms by (auto simp: allocate_unique_slug_def split: if_splits)
next
  case True
  then obtain dir where dir: "dashboards_dir E = Some dir" by auto
  obtain r0 m0 where c: "do_call (de_fs E) (CreateDirAll dir) m = (r0, m0)" by (cases "do_call (de_fs E) (CreateDirAll dir) m")
  have m0: "m0 = m" using c by (auto simp: do_call_def split: option.splits)
  show ?thesis
  proof (cases r0)
    case (Err e)
    then show ?thesis using assms True dir c m0 by (auto simp: allocate_unique_slug_def)
  next
    case (Ok u)
    then have "try_candidates (de_fs E) dir (slug_candidates base) m = (r, m1)"
      using assms True dir c m0 by (simp add: allocate_unique_slug_def)
    from try_candidates_spec [OF this] show ?thesis
      by (auto simp: dashboard_path_def dir slug_candidates_def split: result.splits)
  qed
qed

lemma do_call_write: "do_call env (WriteAll p b) m = (r, m1) \<Longrightarrow> (\<forall>q. q \<noteq> p \<longrightarrow> m1 q = m q) \<and> (r = Ok () \<longrightarrow> m1 p = Some b)"
  by (auto simp: do_call_def split: option.splits)

lemma do_call_sync: "snd (do_call env (SyncAll p) m) = m"
  by (auto simp: do_call_def split: option.splits)

lemma do_call_remove: "q \<noteq> p \<Longrightarrow> snd (do_call env (RemoveFile p) m) q = m q"
  by (auto simp: do_call_def split: option.splits)

lemma write_reserved_spec:
  assumes "write_reserved E (slug, path) d m = (r, m1)"
  shows "(\<forall>q. q \<noteq> path \<longrightarrow> m1 q = m q) \<and> (\<forall>p. r = Ok p \<longrightarrow> (\<exists>body. de_print E d = Ok body \<and> m1 path = Some body))"
proof (cases "df_slug d = slug \<and> (\<exists>body. de_print E d = Ok body)")
  case False
  then have "m1 = remove_reserved E path m \<and> (\<exists>e. r = Err e)"
    using assms by (cases "de_print E d") (auto simp: write_reserved_def split: if_splits, metis)
  then show ?thesis by (auto simp: remove_reserved_def do_call_remove)
next
  case True
  then obtain body where body: "de_print E d = Ok body" "df_slug d = slug" by blast
  obtain r1 m2 where w: "do_call (de_fs E) (WriteAll path body) m = (r1, m2)" by (cases "do_call (de_fs E) (WriteAll path body) m")
  obtain r2 m3 where y: "do_call (de_fs E) (SyncAll path) m2 = (r2, m3)" by (cases "do_call (de_fs E) (SyncAll path) m2")
  have m3: "m3 = m2" using do_call_sync [of "de_fs E" path m2] y by simp
  show ?thesis
    using assms w y m3 do_call_write [OF w] body do_call_remove [of _ path "de_fs E" m2]
    by (cases r1; cases r2) (auto simp: write_reserved_def remove_reserved_def)
qed

lemma write_new_spec:
  assumes "write_new E base d m = (r, m1)"
  shows "(\<forall>q. m q \<noteq> None \<longrightarrow> m1 q = m q)
     \<and> (\<forall>q. m1 q \<noteq> m q \<longrightarrow> (\<exists>slug. dashboard_path E slug = Some q))
     \<and> (\<forall>slug. r = Ok slug \<longrightarrow> (\<exists>p body. dashboard_path E slug = Some p \<and> m p = None \<and> de_print E (d slug) = Ok body \<and> m1 = m(p \<mapsto> body)))"
proof (cases "allocate_unique_slug E base m")
  case (Pair a m0)
  show ?thesis
  proof (cases a)
    case (Err e)
    then show ?thesis using assms Pair allocate_spec [OF Pair] by (auto simp: write_new_def)
  next
    case (Ok rv)
    obtain slug p where rv: "rv = (slug, p)" by (cases rv)
    have al: "dashboard_path E slug = Some p" "m p = None" "m0 = m(p \<mapsto> [])"
      using allocate_spec [OF Pair] Ok rv by simp_all
    obtain r1 m2 where w: "write_reserved E (slug, p) (d slug) m0 = (r1, m2)" by (cases "write_reserved E (slug, p) (d slug) m0")
    note ws = write_reserved_spec [OF w]
    have m1: "m1 = m2" and r: "r = (case r1 of Ok _ \<Rightarrow> Ok slug | Err e \<Rightarrow> Err e)"
      using assms Pair Ok rv w by (auto simp: write_new_def split: result.splits)
    have other: "m1 q = m q" if "q \<noteq> p" for q using ws al(3) m1 that by simp
    have "\<exists>body. de_print E (d slug) = Ok body \<and> m1 = m(p \<mapsto> body)" if "r1 = Ok x" for x
      using ws that other m1 by (auto simp: fun_eq_iff)
    then have new: "\<exists>p body. dashboard_path E s = Some p \<and> m p = None \<and> de_print E (d s) = Ok body \<and> m1 = m(p \<mapsto> body)"
      if "r = Ok s" for s using that r al(1,2) by (cases r1) auto
    have "m1 q = m q" if "m q \<noteq> None" for q using that other al(2) by metis
    moreover have "\<exists>slug. dashboard_path E slug = Some q" if "m1 q \<noteq> m q" for q using that other al(1) by metis
    ultimately show ?thesis using new by blast
  qed
qed

lemma write_one_spec:
  assumes "write_one E d k = (r, k1)"
  shows "(\<forall>q. dk_files k1 q \<noteq> dk_files k q \<longrightarrow>
           (\<exists>p. dashboard_path E (df_slug d) = Some p \<and> (q = p \<or> q = tmp_path (de_pid E) (dk_counter k) p)))
     \<and> (\<forall>v. r = Ok v \<longrightarrow> (\<exists>p body. dashboard_path E (df_slug d) = Some p \<and> de_print E d = Ok body \<and> dk_files k1 p = Some body))"
proof (cases "dashboard_path E (df_slug d)")
  case None
  then show ?thesis using assms by (auto simp: write_one_def)
next
  case (Some p)
  obtain r0 c trace where w: "atomic_write_json (de_fs E) (de_pid E) p (de_print E d) (dk_counter k) (dk_files k) = (r0, c, trace)"
    by (metis prod_cases3)
  note states = atomic_write_states [OF w]
  have t: "last trace \<in> set trace" using states by simp
  have k1: "dk_files k1 = last trace" and r: "r = (case r0 of Ok _ \<Rightarrow> Ok p | Err e \<Rightarrow> Err e)"
    using assms Some w by (auto simp: write_one_def)
  have "dk_files k1 q = dk_files k q" if "q \<noteq> p" "q \<noteq> tmp_path (de_pid E) (dk_counter k) p" for q
    using states t that k1 by auto
  moreover have "\<exists>body. de_print E d = Ok body \<and> dk_files k1 p = Some body" if "r = Ok v" for v
    using states that r k1 by (cases r0) auto
  ultimately show ?thesis using Some by blast
qed

section \<open>No dashboard is lost\<close>

text \<open>
  Creating, duplicating and importing a dashboard never touch a file that exists, whatever the call
  is given and whichever system call fails; a call that reports a slug has written the new dashboard, whole, to
  a file that did not exist.
\<close>

theorem new_dashboard_overwrites_nothing:
  assumes "write_new E (derive_slug hash name) (new_dashboard E name layout) m = (r, m1)"
  shows "(\<forall>q. m q \<noteq> None \<longrightarrow> m1 q = m q)
     \<and> (\<forall>slug. r = Ok slug \<longrightarrow> (\<exists>p body. dashboard_path E slug = Some p \<and> m p = None
          \<and> de_print E (new_dashboard E name layout slug) = Ok body \<and> m1 = m(p \<mapsto> body)))"
  using write_new_spec [OF assms] by blast


text \<open>What a user can ask of the model.\<close>

datatype dash_op = OpCreate string | OpRename string string | OpDuplicate string | OpRemove string
  | OpSave string string | OpImport string

definition dash_do :: "'j desk \<Rightarrow> dash_op \<Rightarrow> DashboardsModel \<times> disk \<Rightarrow> DashboardsModel \<times> disk" where
  "dash_do E op st =
     (case op of
        OpCreate n \<Rightarrow> snd (db_create E n st)
      | OpRename s n \<Rightarrow> snd (db_rename E s n st)
      | OpDuplicate s \<Rightarrow> snd (db_duplicate E s st)
      | OpRemove s \<Rightarrow> snd (db_remove E s st)
      | OpSave s l \<Rightarrow> snd (db_save_layout E s l st)
      | OpImport u \<Rightarrow> snd (db_import E u st))"

text \<open>The files the model may write: those of valid slugs, and the temporary files beside them.\<close>

definition dashboard_file :: "'j desk \<Rightarrow> string \<Rightarrow> bool" where
  "dashboard_file E q \<longleftrightarrow>
     (\<exists>slug p. dashboard_path E slug = Some p \<and> (q = p \<or> (\<exists>n. q = tmp_path (de_pid E) n p)))"

lemma finish_op_files: "dk_files (snd (snd (finish_op E what (r, k) mo))) = dk_files k"
  by (cases r) (simp_all add: finish_op_def report_err_def)

lemma report_err_files: "dk_files (snd (snd (report_err msg (mo, k)))) = dk_files k"
  by (simp add: report_err_def)

lemma write_new_files: "snd (write_new E base d m) q \<noteq> m q \<Longrightarrow> dashboard_file E q"
  using write_new_spec [of E base d m] unfolding dashboard_file_def by (metis prod.collapse)

lemma write_one_files: "dk_files (snd (write_one E d k)) q \<noteq> dk_files k q \<Longrightarrow> dashboard_file E q"
  using write_one_spec [of E d k] unfolding dashboard_file_def by (metis prod.collapse)

lemma lookup_path: "lookup_dashboard E slug m = Ok (p, d) \<Longrightarrow> dashboard_path E slug = Some p"
  by (auto simp: lookup_dashboard_def split: option.splits)

lemma rename_files: "dk_files (snd (rename_dashboard_file E slug n k)) q \<noteq> dk_files k q \<Longrightarrow> dashboard_file E q"
proof -
  assume ne: "dk_files (snd (rename_dashboard_file E slug n k)) q \<noteq> dk_files k q"
  then obtain p d where l: "lookup_dashboard E slug (dk_files k) = Ok (p, d)"
    by (cases "lookup_dashboard E slug (dk_files k)") (auto simp: rename_dashboard_file_def)
  have own: "dashboard_file E p" using lookup_path [OF l] by (auto simp: dashboard_file_def)
  show ?thesis
  proof (cases "derive_slug (de_hash E) n = slug")
    case True
    obtain r1 k1 where w: "write_one E (d\<lparr>df_name := n, df_updated_at := de_now E\<rparr>) k = (r1, k1)"
      by (cases "write_one E (d\<lparr>df_name := n, df_updated_at := de_now E\<rparr>) k")
    then have "snd (rename_dashboard_file E slug n k) = k1"
      using l True by (cases r1) (simp_all add: rename_dashboard_file_def)
    then show ?thesis using ne w write_one_files [of E "d\<lparr>df_name := n, df_updated_at := de_now E\<rparr>" k q] by simp
  next
    case False
    let ?d = "\<lambda>slug. d\<lparr>df_name := n, df_slug := slug, df_updated_at := de_now E\<rparr>"
    obtain r1 m1 where w: "write_new E (derive_slug (de_hash E) n) ?d (dk_files k) = (r1, m1)"
      by (cases "write_new E (derive_slug (de_hash E) n) ?d (dk_files k)")
    then have "dk_files (snd (rename_dashboard_file E slug n k)) \<in> {m1, snd (do_call (de_fs E) (RemoveFile p) m1)}"
      using l False by (cases r1) (simp_all add: rename_dashboard_file_def Let_def)
    then have "q = p \<or> m1 q \<noteq> dk_files k q" using ne do_call_remove [of q p "de_fs E" m1] by auto
    then show ?thesis using own w write_new_files [of E "derive_slug (de_hash E) n" ?d "dk_files k" q] by auto
  qed
qed


section \<open>Defects\<close>

lemma show_nat_nonempty: "show_nat n \<noteq> []"
  by (simp add: show_nat.simps [of n])

text \<open>
  A slug of 39 or 40 characters leaves no room for a number: the second dashboard with such a name (and
  the copy of one) is refused as one of too many, although the directory holds only one.
\<close>

theorem long_name_only_once:
  assumes "is_valid_slug base" and "39 \<le> length base" and "dashboards_dir E = Some dir" and "m (slug_path dir base) \<noteq> None"
    and "io_fault (de_fs E) (CreateDirAll dir) = None"
  shows "allocate_unique_slug E base m = (Err ''too many similarly-named dashboards'', m)"
proof -
  have long: "\<not> is_valid_slug (base @ ''-'' @ show_nat i)" for i
  proof -
    have "1 \<le> length (show_nat i)" using show_nat_nonempty [of i] by (cases "show_nat i") simp_all
    moreover have "length (base @ ''-'' @ show_nat i) = length base + 1 + length (show_nat i)" by simp
    ultimately have "40 < length (base @ ''-'' @ show_nat i)" using assms(2) by linarith
    then show ?thesis by (simp add: valid_slug_alt)
  qed
  have e: "[0..<99] = 0 # [1..<99]" by (simp add: upt_conv_Cons)
  have "filter is_valid_slug (map (\<lambda>i. if i = 0 then base else base @ ''-'' @ show_nat (i + 1)) [1..<99]) = []"
    using long by (auto simp: filter_empty_conv)
  then have c: "slug_candidates base = [base]" unfolding slug_candidates_def e list.map filter.simps using assms(1) by simp
  obtain b where "m (slug_path dir base) = Some b" using assms(4) by blast
  then show ?thesis using assms(1,3,5) by (simp add: allocate_unique_slug_def c do_call_def)
qed

text \<open>
  C0: The file a change is written to is chosen by the slug inside the JSON, not by the file it was read
  from. If a user copied \<^verbatim>\<open>a.json\<close> to \<^verbatim>\<open>b.json\<close>, renaming dashboard b to a name with slug b reports success,
  leaves \<^verbatim>\<open>b.json\<close> as it was and overwrites \<^verbatim>\<open>a.json\<close>.
\<close>

theorem copied_dashboard_overwrites_original:
  assumes "lookup_dashboard E b (dk_files k) = Ok (path_b, d)" and "derive_slug (de_hash E) new_name = b"
    and "dashboard_path E (df_slug d) = Some path_a" and "path_a \<noteq> path_b" and "path_b \<noteq> tmp_path (de_pid E) (dk_counter k) path_a"
    and "rename_dashboard_file E b new_name k = (Ok v, k1)"
  shows "v = b \<and> dk_files k1 path_b = dk_files k path_b
     \<and> (\<exists>body. de_print E (d\<lparr>df_name := new_name, df_updated_at := de_now E\<rparr>) = Ok body \<and> dk_files k1 path_a = Some body)"
proof -
  let ?d = "d\<lparr>df_name := new_name, df_updated_at := de_now E\<rparr>"
  obtain r1 k2 where w: "write_one E ?d k = (r1, k2)" by (cases "write_one E ?d k")
  then have r: "v = b" "k1 = k2" "\<exists>x. r1 = Ok x"
    using assms(1,2,6) by (cases r1; simp add: rename_dashboard_file_def)+
  have "dk_files k1 path_b = dk_files k path_b" using write_one_spec [OF w] r(2) assms(3,4,5) by auto
  moreover have "\<exists>body. de_print E ?d = Ok body \<and> dk_files k1 path_a = Some body"
    using write_one_spec [OF w] r(2,3) assms(3) by auto
  ultimately show ?thesis using r(1) by blast
qed

section \<open>Witnesses\<close>

definition demo_board :: "string \<Rightarrow> string \<Rightarrow> unit DashboardFile" where
  "demo_board name slug =
     \<lparr>df_schema_version = 1, df_name = name, df_slug = slug, df_layout = [], df_created_at = [], df_updated_at = ''now''\<rparr>"

text \<open>A codec whose texts are the name and the slug with a bar between.\<close>

definition demo_desk :: "unit desk" where
  "demo_desk =
     \<lparr>de_fs = \<lparr>io_fault = (\<lambda>_. None), io_partial = 0\<rparr>, de_pid = 7, de_config = Some ''c'',
      de_parse = (\<lambda>s. map_option (\<lambda>(n, sl). demo_board n sl) (split_once CHR ''|'' s)),
      de_print = (\<lambda>d. Ok (df_name d @ ''|'' @ df_slug d)), de_parse_layout = (\<lambda>_. Ok []), de_print_layout = (\<lambda>_. ''[]''),
      de_parse_export = (\<lambda>_. Err []), de_parse_legacy = (\<lambda>_. None), de_hash = (\<lambda>_. 0), de_now = ''now'', de_list = (\<lambda>_. []), de_io_error = (\<lambda>_. [])\<rparr>"

theorem derive_slug_idem_witness: "derive_slug (\<lambda>_. 0) ''my-board'' = ''my-board''"
proof (rule derive_slug_idem)
  show "is_valid_slug ''my-board''" by code_simp
qed

theorem new_dashboard_overwrites_nothing_witness:
  "\<exists>m1. write_new demo_desk (derive_slug (\<lambda>_. 0) ''My Board!'') (new_dashboard demo_desk ''My Board!'' []) [''c/dashboards/my-board.json'' \<mapsto> ''old'']
       = (Ok ''my-board-2'', m1) \<and> m1 ''c/dashboards/my-board.json'' = Some ''old''"
proof -
  let ?m = "[''c/dashboards/my-board.json'' \<mapsto> ''old'']"
  have s: "derive_slug (\<lambda>_. 0) ''My Board!'' = ''my-board''" by code_simp
  have "fst (write_new demo_desk ''my-board'' (new_dashboard demo_desk ''My Board!'' []) ?m) = Ok ''my-board-2''" by code_simp
  then obtain m1 where w: "write_new demo_desk (derive_slug (\<lambda>_. 0) ''My Board!'') (new_dashboard demo_desk ''My Board!'' []) ?m = (Ok ''my-board-2'', m1)"
    unfolding s by (metis prod.collapse)
  show ?thesis using new_dashboard_overwrites_nothing [OF w] w by auto
qed


theorem long_name_only_once_witness:
  "fst (allocate_unique_slug demo_desk (replicate 40 CHR ''x'')
      [''c/dashboards/'' @ replicate 40 CHR ''x'' @ ''.json'' \<mapsto> []]) = Err ''too many similarly-named dashboards''"
proof -
  have v: "is_valid_slug (replicate 40 CHR ''x'')" by code_simp
  have d: "dashboards_dir demo_desk = Some ''c/dashboards''" by code_simp
  have "slug_path ''c/dashboards'' (replicate 40 CHR ''x'') = ''c/dashboards/'' @ replicate 40 CHR ''x'' @ ''.json''" by code_simp
  then show ?thesis using long_name_only_once [OF v _ d] by (simp add: demo_desk_def)
qed

theorem copied_dashboard_overwrites_original_witness:
  "\<exists>k1. rename_dashboard_file demo_desk ''b'' ''B'' \<lparr>dk_files = [''c/dashboards/a.json'' \<mapsto> ''A|a'', ''c/dashboards/b.json'' \<mapsto> ''A|a''], dk_counter = 0\<rparr>
       = (Ok ''b'', k1) \<and> dk_files k1 ''c/dashboards/a.json'' = Some ''B|a'' \<and> dk_files k1 ''c/dashboards/b.json'' = Some ''A|a''"
proof -
  let ?k = "\<lparr>dk_files = [''c/dashboards/a.json'' \<mapsto> ''A|a'', ''c/dashboards/b.json'' \<mapsto> ''A|a''], dk_counter = 0\<rparr>"
  have p: "dashboard_path demo_desk ''b'' = Some ''c/dashboards/b.json''" by code_simp
  have a: "dashboard_path demo_desk (df_slug (demo_board ''A'' ''a'')) = Some ''c/dashboards/a.json''" by code_simp
  have l: "lookup_dashboard demo_desk ''b'' (dk_files ?k) = Ok (''c/dashboards/b.json'', demo_board ''A'' ''a'')"
    by (simp add: lookup_dashboard_def p read_one_def) (simp add: demo_desk_def)
  have b: "derive_slug (de_hash demo_desk) ''B'' = ''b''" by code_simp
  have t: "tmp_path (de_pid demo_desk) (dk_counter ?k) ''c/dashboards/a.json'' = ''c/dashboards/a.json.tmp.7.0''" by code_simp
  have "fst (rename_dashboard_file demo_desk ''b'' ''B'' ?k) = Ok ''b''" by code_simp
  then obtain k1 where r: "rename_dashboard_file demo_desk ''b'' ''B'' ?k = (Ok ''b'', k1)" by (metis prod.collapse)
  have ne: "''c/dashboards/b.json'' \<noteq> tmp_path (de_pid demo_desk) (dk_counter ?k) ''c/dashboards/a.json''" unfolding t by simp
  have print: "de_print demo_desk d = Ok (df_name d @ ''|'' @ df_slug d)" for d by (simp add: demo_desk_def)
  show ?thesis using copied_dashboard_overwrites_original [OF l b a _ ne r] r by (simp add: print) (simp add: demo_board_def)
qed

end
