(* ===== verification/Spec2Isabelle.thy ===== *)
theory Spec2Isabelle
  imports Frame Mirror Plugin_Host Registry History Storage Alert_Text Alert_Engine Scheduler Sampling
    Transport Sessions Prom Overview Client Workspace Tunnel Sensor_Lib Sensors_Cpu Sensors_Mem
    Sensors_Io Sensors_Hwmon Sensors_Proc Sensors_Fdinfo Sensors_Gpu Sensors_Fs
    Sensors_System Sensors_Nvme Sensors_Systemd Sensors_Smart Runtime
    Dashboards
begin

text \<open>
  \<^bold>\<open>LinSight: a hardware monitor daemon and its clients.\<close>

  \<^bold>\<open>The program.\<close> The daemon \<^verbatim>\<open>linsightd\<close> loads sensor plugins (built in, or from shared objects),
  samples the sensors its clients subscribe to, streams the samples over a Unix socket, records
  them in a SQLite history, evaluates alert rules on them and keeps nicknames for the devices.
  A sampler thread plans, samples and commits; every client has a reading thread and a pump
  thread; history and alerts have threads of their own. The threads share the scheduler, the
  hardware registry and the map of client queues, each behind a lock.

  \<^bold>\<open>Theories and the sources they model\<close> (paths under \<^verbatim>\<open>src/\<close>).

  \<^item> \<open>Prelude\<close>: results, panics as the type \<open>exec\<close>, saturating arithmetic, hash maps as
    association lists with the locale \<open>dict\<close>, collections of simplification rules.
    \<open>Rust_Str\<close>: the string functions of the standard library. \<open>Float64\<close>: \<^verbatim>\<open>f32\<close> and \<^verbatim>\<open>f64\<close> as exact
    rationals with infinities and NaN, rounding to nearest even.
  \<^item> \<open>Core_Types\<close>: \<^verbatim>\<open>crates/linsight-core\<close> (sensor ids, readings, hardware keys, nicknames, labels,
    durations, paths). \<open>Protocol\<close>: the messages of \<^verbatim>\<open>crates/linsight-protocol/src/messages.rs\<close> and the
    version check. \<open>Frame\<close>: \<^verbatim>\<open>frame.rs\<close>, readers and writers on sources and sinks that may fail.
  \<^item> \<open>Mirror\<close>: the plugin boundary of \<^verbatim>\<open>crates/linsight-plugin-sdk\<close> (mirror types, manifest checks,
    \<^verbatim>\<open>host_init\<close>, \<^verbatim>\<open>host_sample\<close>) with plugins that may panic or lie. \<open>Plugin_Host\<close>:
    \<^verbatim>\<open>apps/linsightd/src/plugin_host.rs\<close> and the pci.ids database.
  \<^item> \<open>Registry\<close>: \<^verbatim>\<open>hardware.rs\<close>. \<open>Storage\<close>: \<^verbatim>\<open>atomic_write.rs\<close> and \<^verbatim>\<open>nickname_store.rs\<close>, system call by system call.
  \<^item> \<open>History\<close>: \<^verbatim>\<open>history.rs\<close>, the channel, the writer thread and the queries. \<open>Alert_Text\<close> and
    \<open>Alert_Engine\<close>: \<^verbatim>\<open>alerts.rs\<close>, its parsers and its rule engine.
  \<^item> \<open>Scheduler\<close>: \<^verbatim>\<open>scheduler.rs\<close>. \<open>Sampling\<close>, \<open>Transport\<close>: the sampling pool and the client transport of
    \<^verbatim>\<open>transport/unix.rs\<close>. \<open>Sessions\<close>: the threads of the transport as a transition system.
    \<open>Prom\<close>: the Prometheus endpoint, \<^verbatim>\<open>prom.rs\<close>, from the request line to the exposition text.
  \<^item> \<open>Rust_Num\<close>: parsing and printing numbers, more string functions, B-tree maps, for the theories
    below. \<open>Client\<close>, \<open>Workspace\<close> and \<open>Overview\<close>: \<^verbatim>\<open>client.rs\<close>, \<^verbatim>\<open>workspace.rs\<close> and
    \<^verbatim>\<open>qobjects/overview_model.rs\<close> of \<^verbatim>\<open>apps/linsight-gui/src\<close>: the calls and the dispatcher of a
    connection, the connections of a GUI with reconnects, the pump that feeds the page of tiles.
    \<open>Tunnel\<close>: \<^verbatim>\<open>apps/linsight-tunnel/src/main.rs\<close>.

  \<^bold>\<open>How state and operations correspond.\<close> A struct is a record with prefixed fields, an enum a
  datatype, an integer a word of its width (arithmetic wraps, as in a release build), a hash map
  an association list whose order stands for the arbitrary iteration order, an instant or a
  duration a number of nanoseconds. A method that changes \<^verbatim>\<open>self\<close> returns the new record; what may
  panic is in \<open>exec\<close>. Logging is left out. Third-party code (postcard, serde, toml, evalexpr, the
  SQLite engine, the dynamic linker) and the environment (clock, disk, peers, plugins) are
  parameters: functions that the definitions take as arguments, with what the code relies on as
  hypotheses of the theorems.

  \<^bold>\<open>What the lemmas show.\<close> Framing: streams round trip, readers never return more than a frame
  and are bounded. Plugin boundary: conversions round trip, and whatever a plugin does the host gets
  a value and stays consistent. Registry and storage: the label cache is always current, an
  atomic write is all or nothing, an acknowledged nickname survives a restart. History: batching
  is transparent, queries return what was recorded, pruning is exact, queues are bounded. Alerts:
  the engine refines a rule machine whose events alternate and which fires after the hold time.
  Scheduler: a sensor is scheduled exactly while subscribed, at the fastest period, and becomes due
  again whatever its sampling returns. Transport: reference counts balance the sessions' ledgers
  under every interleaving, the fan-out reaches exactly the subscribers, queues drain, requests
  are answered, nobody passes the handshake without the token. Prometheus: the exposition reads back as
  the samples, request parsing does not depend on TCP's cuts. GUI: a caller gets the response to its own
  request and, across both ends, the daemon's answer; subscriptions survive reconnects; the page shows
  updates in order and ends up with the latest. Tunnel: frames pass unaltered, names match label by
  label, connections are bounded. Some theorems state defects: inputs
  on which the code panics or answers wrongly.

  \<^bold>\<open>Interfaces.\<close> \<open>dict\<close> (association lists), \<open>framing\<close> (frames on a byte stream), \<open>mirror\<close> (the
  boundary types and vectors of them) and \<open>refcounts\<close> (subscriptions) are locales, interpreted on the model's own operations; client lemmas are
  proved inside them. Step relations (\<open>sched_reach\<close>, \<open>daemon_step\<close>) carry the invariants by rule
  induction. No definition needs fuel: loops recurse on the input they consume, and a thread that
  runs forever is the list of the events it has seen so far.

  \<^bold>\<open>Granularity.\<close> One step of \<open>Sessions\<close> is what a thread does under the scheduler's lock; the steps in
  between are interleaved freely. The fan-out of one tick and one request's handler are single
  steps although they take several locks in turn.

  \<^bold>\<open>Not modelled.\<close> Sockets, threads and signals themselves; desktop notifications and child
  processes; the Qt GUI shell; TLS; the bindings to NVML, D-Bus and sysfs of the sensor crates. Planned
  next: the parsers of the sensor crates, the daemon's start-up, the command-line client and the pure
  parts of the other GUI models.
\<close>

section \<open>Properties across components\<close>


definition demo_services :: "(unit, unit) services" where
  "demo_services =
     \<lparr>sv_plugin = \<lparr>plugin_init = (\<lambda>p c. (Panics, p)), plugin_sample = (\<lambda>p i. (Panics, p)), plugin_shutdown = id\<rparr>,
      sv_evalexpr = demo_eval, sv_show_f64 = (\<lambda>_. []), sv_to_toml = (\<lambda>_. Ok []), sv_from_toml = (\<lambda>_. Ok []),
      sv_events_json = (\<lambda>_. None),
      sv_print_store = (\<lambda>st. if ns_nicknames st = [(''pci:0000:06:00.0'', ''my gpu'')] then Ok ''{x}'' else Err []),
      sv_fs = \<lparr>io_fault = (\<lambda>c. None), io_partial = 0\<rparr>, sv_pid = 7, sv_store_path = ''a/h.json'', sv_alerts_path = [],
      sv_history_path = [], sv_spawned = Err [], sv_history_db = None, sv_in_time = True, sv_now = 0\<rparr>"


end
